(* ===== verification/Perch_Prelude.thy ===== *)
theory Perch_Prelude
  imports Main "HOL-Library.Word" "HOL-Library.Char_ord" "HOL-Library.List_Lexorder"
begin

text \<open>
  Shared vocabulary of the development: the machine integers and byte strings of the Rust
  code, Soroban addresses and values as the sources inspect them, Rust's \<open>Result\<close> with the
  \<open>?\<close> operator, checked and saturating arithmetic, big-endian byte encodings, and the
  generic facts on lists and results that the component theories use.
\<close>

named_theorems result_simps \<open>unfolding of the Result combinators\<close>
named_theorems encode_simps \<open>lengths and injectivity of fixed-width encodings\<close>

section \<open>Machine integers, bytes and addresses\<close>

type_synonym byte = "8 word"
type_synonym bytes = "byte list"
type_synonym u16 = "16 word"
type_synonym u32 = "32 word"
type_synonym u64 = "64 word"

text \<open>
  \<open>BytesN<32>\<close> and \<open>[u8; 32]\<close> are 256-bit words; \<open>to_array\<close> is the big-endian byte list
  (\<open>bytes32_to_array\<close> below), so equality and the fixed length come with the type.
  \<open>i128\<close> values occur only in comparisons and are integers; the parser of decimal limits
  carries the range check.
\<close>

type_synonym bytes32 = "256 word"
type_synonym i128 = int

text \<open>
  A Soroban \<open>Address\<close>: an account (its Ed25519 key), a contract (its id), or one of the
  shapes the recovery stack refuses (muxed, claimable balance, liquidity pool).
\<close>

datatype address = AccountId bytes32 | ContractId bytes32 | OtherAddress nat

text \<open>
  A host value (\<open>Val\<close>) as far as the sources decode it with \<open>TryFromVal\<close>; every other
  type of value is \<open>V_Other\<close>. Symbols and strings are byte strings.
\<close>

datatype val =
    V_Address address
  | V_Symbol string
  | V_String string
  | V_Bytes bytes
  | V_U32 u32
  | V_I128 i128
  | V_Other nat

text \<open>
  The authorization context \<open>soroban_sdk::auth::Context\<close>. Only the contract call is
  ever inspected; the two contract-creation variants carry nothing the code reads.
\<close>

record contract_context =
  cc_contract :: address
  cc_fn_name :: string
  cc_args :: "val list"

datatype auth_context =
    Ctx_Contract contract_context
  | Ctx_CreateContractHostFn
  | Ctx_CreateContractWithCtorHostFn

text \<open>OpenZeppelin's \<open>Signer\<close>: a delegated address, or a key checked by a verifier.\<close>

datatype signer = Signer_Delegated address | Signer_External address bytes

section \<open>Result and the question-mark operator\<close>

text \<open>
  \<open>Result<T, E>\<close> is \<open>'e + 'a\<close>, \<open>Inl\<close> the error. An error of an entry point rolls back every
  write of the invocation, so a state-changing operation returns \<open>error + (result, state)\<close>.
\<close>

definition and_then :: "'e + 'a \<Rightarrow> ('a \<Rightarrow> 'e + 'b) \<Rightarrow> 'e + 'b" where
  "and_then m f = (case m of Inl e \<Rightarrow> Inl e | Inr a \<Rightarrow> f a)"

definition ok_or :: "'a option \<Rightarrow> 'e \<Rightarrow> 'e + 'a" where
  "ok_or x e = (case x of None \<Rightarrow> Inl e | Some a \<Rightarrow> Inr a)"

definition map_err :: "('e \<Rightarrow> 'f) \<Rightarrow> 'e + 'a \<Rightarrow> 'f + 'a" where
  "map_err g m = (case m of Inl e \<Rightarrow> Inl (g e) | Inr a \<Rightarrow> Inr a)"

text \<open>\<open>require c e\<close> is the guard \<open>if !c { return Err(e) }\<close>.\<close>

definition require :: "bool \<Rightarrow> 'e \<Rightarrow> 'e + unit" where
  "require c e = (if c then Inr () else Inl e)"

fun collect_results :: "('a \<Rightarrow> 'e + 'b) \<Rightarrow> 'a list \<Rightarrow> 'e + 'b list" where
  "collect_results f [] = Inr []"
| "collect_results f (x # xs) =
     and_then (f x) (\<lambda>y. and_then (collect_results f xs) (\<lambda>ys. Inr (y # ys)))"

lemma and_then_simps [simp, result_simps]:
  "and_then (Inl e) f = Inl e" "and_then (Inr a) f = f a"
  by (simp_all add: and_then_def)

lemma and_then_eq_Inr [result_simps]:
  "and_then m f = Inr b \<longleftrightarrow> (\<exists>a. m = Inr a \<and> f a = Inr b)"
  by (cases m) auto

lemma and_then_InrE:
  assumes "and_then m f = Inr b"
  obtains a where "m = Inr a" "f a = Inr b"
  using assms by (auto simp: and_then_eq_Inr)

lemma and_then_eq_Inl [result_simps]:
  "and_then m f = Inl e \<longleftrightarrow> m = Inl e \<or> (\<exists>a. m = Inr a \<and> f a = Inl e)"
  by (cases m) auto

lemma ok_or_simps [simp, result_simps]:
  "ok_or None e = Inl e" "ok_or (Some a) e = Inr a"
  by (simp_all add: ok_or_def)

lemma ok_or_eq_Inr [simp, result_simps]: "ok_or x e = Inr a \<longleftrightarrow> x = Some a"
  by (cases x) auto

lemma map_err_simps [simp, result_simps]:
  "map_err g (Inl e) = Inl (g e)" "map_err g (Inr a) = Inr a"
  by (simp_all add: map_err_def)

lemma map_err_eq_Inr [simp, result_simps]: "map_err g m = Inr a \<longleftrightarrow> m = Inr a"
  by (cases m) auto

lemma require_eq_Inr [simp, result_simps]: "require c e = Inr u \<longleftrightarrow> c"
  by (simp add: require_def)

lemma require_eq_Inl [simp, result_simps]: "require c e = Inl e' \<longleftrightarrow> \<not> c \<and> e' = e"
  by (auto simp: require_def)

lemma require_simps [simp]: "require True e = Inr ()" "require False e = Inl e"
  by (simp_all add: require_def)

lemma collect_results_Inr_iff:
  "collect_results f xs = Inr ys \<longleftrightarrow> list_all2 (\<lambda>x y. f x = Inr y) xs ys"
proof (induction xs arbitrary: ys)
  case Nil
  then show ?case by (cases ys) auto
next
  case (Cons x xs)
  then show ?case by (cases ys) (auto simp: and_then_eq_Inr)
qed

lemma collect_results_ex:
  "(\<exists>ys. collect_results f xs = Inr ys) \<longleftrightarrow> (\<forall>x \<in> set xs. \<exists>y. f x = Inr y)"
  by (induction xs) (auto simp: and_then_eq_Inr)

lemma collect_results_map:
  "(\<And>x. x \<in> set xs \<Longrightarrow> f (g x) = Inr x) \<Longrightarrow> collect_results f (map g xs) = Inr xs"
  by (simp add: collect_results_Inr_iff list_all2_conv_all_nth)

lemma collect_results_length: "collect_results f xs = Inr ys \<Longrightarrow> length ys = length xs"
  by (auto simp: collect_results_Inr_iff dest: list_all2_lengthD)

section \<open>Checked and saturating arithmetic\<close>

text \<open>The workspace builds with \<open>overflow-checks = true\<close>: a plain \<open>+\<close> that overflows traps.\<close>

definition checked_add :: "'a::len word \<Rightarrow> 'a word \<Rightarrow> 'a word option" where
  "checked_add a b = (if unat a + unat b < 2 ^ LENGTH('a) then Some (a + b) else None)"

definition saturating_add :: "'a::len word \<Rightarrow> 'a word \<Rightarrow> 'a word" where
  "saturating_add a b = (case checked_add a b of Some c \<Rightarrow> c | None \<Rightarrow> - 1)"

definition saturating_sub :: "'a::len word \<Rightarrow> 'a word \<Rightarrow> 'a word" where
  "saturating_sub a b = (if a < b then 0 else a - b)"

lemma checked_add_SomeD:
  assumes "checked_add a b = Some c"
  shows "unat c = unat a + unat b"
  using assms by (auto simp: checked_add_def unat_word_ariths split: if_splits)

lemma checked_add_le: "checked_add a b = Some c \<Longrightarrow> a \<le> c \<and> b \<le> c"
  by (auto simp: word_le_nat_alt dest: checked_add_SomeD)

lemma checked_add_less: "checked_add a b = Some c \<Longrightarrow> 0 < b \<Longrightarrow> a < c"
  by (auto simp: word_less_nat_alt dest: checked_add_SomeD)

lemma unat_saturating_sub: "unat (saturating_sub a b) = unat a - unat b"
proof (cases "a < b")
  case True
  then show ?thesis by (simp add: saturating_sub_def word_less_nat_alt)
next
  case False
  then have "unat (a - b) = unat a - unat b" by (intro unat_sub) simp
  then show ?thesis using False by (simp only: saturating_sub_def if_False)
qed

lemma unat_saturating_add:
  fixes a b :: "'a::len word"
  assumes "unat a + unat b < 2 ^ LENGTH('a)"
  shows "unat (saturating_add a b) = unat a + unat b"
proof -
  have c: "checked_add a b = Some (a + b)" using assms by (simp only: checked_add_def if_True)
  then show ?thesis using checked_add_SomeD [OF c] by (simp only: saturating_add_def option.case)
qed

section \<open>Big-endian byte encodings\<close>

text \<open>\<open>be_bytes n w\<close> is \<open>to_be_bytes\<close> of an \<open>8 * n\<close>-bit integer.\<close>

definition be_bytes :: "nat \<Rightarrow> 'a::len word \<Rightarrow> bytes" where
  "be_bytes n w = map (\<lambda>i. ucast (drop_bit (8 * (n - Suc i)) w)) [0..<n]"

definition u32_be :: "u32 \<Rightarrow> bytes" where "u32_be = be_bytes 4"
definition u64_be :: "u64 \<Rightarrow> bytes" where "u64_be = be_bytes 8"
definition bytes32_to_array :: "bytes32 \<Rightarrow> bytes" where "bytes32_to_array = be_bytes 32"

lemma length_be_bytes [simp]: "length (be_bytes n w) = n"
  by (simp add: be_bytes_def)

lemma bit_be_bytes:
  fixes w :: "'a::len word"
  assumes "k < 8 * n"
  shows "bit w k = bit (be_bytes n w ! (n - Suc (k div 8))) (k mod 8)"
proof -
  define i where "i = n - Suc (k div 8)"
  have d: "k div 8 < n" using assms by auto
  then have i: "i < n" and s: "n - Suc i = k div 8" by (auto simp: i_def)
  have "be_bytes n w ! i = ucast (drop_bit (8 * (k div 8)) w)"
    using i by (simp add: be_bytes_def s)
  then have "bit (be_bytes n w ! i) (k mod 8) = bit w (8 * (k div 8) + k mod 8)"
    by (simp add: bit_ucast_iff bit_drop_bit_eq)
  then show ?thesis by (simp add: i_def)
qed

lemma be_bytes_inject:
  fixes v w :: "'a::len word"
  assumes "be_bytes n v = be_bytes n w" "LENGTH('a) \<le> 8 * n"
  shows "v = w"
proof (rule bit_word_eqI)
  fix k assume "k < LENGTH('a)"
  with assms(2) have "k < 8 * n" by simp
  then show "bit v k = bit w k" by (simp add: bit_be_bytes [of k n] assms(1))
qed

lemma fixed_lengths [simp, encode_simps]:
  "length (u32_be a) = 4" "length (u64_be b) = 8" "length (bytes32_to_array c) = 32"
  by (simp_all add: u32_be_def u64_be_def bytes32_to_array_def)

lemma fixed_inject [simp, encode_simps]:
  "u32_be a = u32_be a' \<longleftrightarrow> a = a'"
  "u64_be b = u64_be b' \<longleftrightarrow> b = b'"
  "bytes32_to_array c = bytes32_to_array c' \<longleftrightarrow> c = c'"
  by (auto simp: u32_be_def u64_be_def bytes32_to_array_def dest: be_bytes_inject)

text \<open>The number a byte string denotes, most significant byte first.\<close>

fun bytes_number :: "bytes \<Rightarrow> nat \<Rightarrow> nat" where
  "bytes_number [] n = n"
| "bytes_number (b # bs) n = bytes_number bs (256 * n + unat b)"

lemma bytes_number_snoc: "bytes_number (bs @ [b]) n = 256 * bytes_number bs n + unat b"
  by (induction bs arbitrary: n) auto

text \<open>The bytes of an ASCII or UTF-8 string literal.\<close>

definition str_bytes_of :: "string \<Rightarrow> bytes" where
  "str_bytes_of s = map (\<lambda>c. word_of_nat (of_char c)) s"

lemma length_str_bytes_of [simp]: "length (str_bytes_of s) = length s"
  by (simp add: str_bytes_of_def)

lemma str_bytes_of_inject [simp]: "str_bytes_of s = str_bytes_of t \<longleftrightarrow> s = t"
proof -
  have "inj (\<lambda>c. word_of_nat (of_char c) :: byte)"
  proof (rule injI)
    fix c d :: char
    assume "(word_of_nat (of_char c) :: byte) = word_of_nat (of_char d)"
    then have "of_char c mod (256::nat) = of_char d mod 256"
      by (simp add: word_of_nat_eq_iff take_bit_eq_mod)
    then show "c = d" by simp
  qed
  then show ?thesis by (simp add: str_bytes_of_def inj_map_eq_map)
qed

section \<open>Decimal numbers\<close>

definition char_in :: "char \<Rightarrow> char \<Rightarrow> char \<Rightarrow> bool" where
  "char_in lo hi c \<longleftrightarrow> lo \<le> c \<and> c \<le> hi"

text \<open>
  \<open>str::parse\<close> of an integer type: an optional sign (a minus only for signed types), then at
  least one decimal digit and nothing else, within the range of the type.
\<close>

definition digit_value :: "char \<Rightarrow> int option" where
  "digit_value c =
     (if char_in (CHR ''0'') (CHR ''9'') c then Some (int (of_char c - of_char (CHR ''0''))) else None)"

fun digits_value :: "string \<Rightarrow> int \<Rightarrow> int option" where
  "digits_value [] acc = Some acc"
| "digits_value (c # cs) acc =
     (case digit_value c of None \<Rightarrow> None | Some d \<Rightarrow> digits_value cs (10 * acc + d))"

definition in_i128 :: "int \<Rightarrow> bool" where
  "in_i128 v \<longleftrightarrow> - (2 ^ 127) \<le> v \<and> v < 2 ^ 127"

definition parse_i128 :: "string \<Rightarrow> i128 option" where
  "parse_i128 s =
     (let (neg, ds) = (case s of
            c # cs \<Rightarrow> if c = CHR ''-'' then (True, cs)
                      else if c = CHR ''+'' then (False, cs) else (False, s)
          | [] \<Rightarrow> (False, []))
      in if ds = [] then None
         else case digits_value ds 0 of
                None \<Rightarrow> None
              | Some n \<Rightarrow> (let v = (if neg then - n else n) in if in_i128 v then Some v else None))"

definition parse_unsigned :: "string \<Rightarrow> 'a::len word option" where
  "parse_unsigned s =
     (let ds = (case s of c # cs \<Rightarrow> if c = CHR ''+'' then cs else s | [] \<Rightarrow> [])
      in if ds = [] then None
         else case digits_value ds 0 of
                None \<Rightarrow> None
              | Some n \<Rightarrow> if n < 2 ^ LENGTH('a) then Some (word_of_int n) else None)"

text \<open>\<open>u32::to_string\<close>: decimal digits without leading zeros.\<close>

definition digit_char :: "nat \<Rightarrow> char" where
  "digit_char d = char_of (48 + d)"

fun nat_to_string :: "nat \<Rightarrow> string" where
  "nat_to_string n = (if n < 10 then [digit_char n] else nat_to_string (n div 10) @ [digit_char (n mod 10)])"

definition u32_to_string :: "u32 \<Rightarrow> string" where
  "u32_to_string u = nat_to_string (unat u)"

declare nat_to_string.simps [simp del]

lemma digit_value_digit_char: "d < 10 \<Longrightarrow> digit_value (digit_char d) = Some (int d)"
  by (simp add: digit_value_def digit_char_def char_in_def less_eq_char_def)

lemma digits_value_append:
  "digits_value (xs @ ys) acc = (case digits_value xs acc of None \<Rightarrow> None | Some a \<Rightarrow> digits_value ys a)"
  by (induction xs arbitrary: acc) (auto split: option.splits)

lemma digits_value_nat: "digits_value (nat_to_string n) 0 = Some (int n)"
proof (induction n rule: nat_to_string.induct)
  case (1 n)
  show ?case
  proof (cases "n < 10")
    case True
    then show ?thesis by (simp add: nat_to_string.simps [of n] digit_value_digit_char)
  next
    case False
    have "10 * int (n div 10) + int (n mod 10) = int n" by presburger
    then show ?thesis using False 1
      by (simp add: nat_to_string.simps [of n] digits_value_append digit_value_digit_char)
  qed
qed

lemma nat_to_string_digits: "nat_to_string n \<noteq> [] \<and> list_all (\<lambda>c. digit_value c \<noteq> None) (nat_to_string n)"
proof (induction n rule: nat_to_string.induct)
  case (1 n)
  then show ?case by (cases "n < 10") (auto simp: nat_to_string.simps [of n] digit_value_digit_char)
qed

lemma digit_value_sign: "digit_value (CHR ''+'') = None" "digit_value (CHR ''-'') = None"
  by (simp_all add: digit_value_def char_in_def less_eq_char_def)

lemma parse_unsigned_u32 [simp]: "parse_unsigned (u32_to_string u) = Some u"
proof -
  obtain c cs where s: "nat_to_string (unat u) = c # cs" "digit_value c \<noteq> None"
    using nat_to_string_digits [of "unat u"] by (cases "nat_to_string (unat u)") auto
  then have "c \<noteq> CHR ''+''" using digit_value_sign by auto
  moreover have "int (unat u) < 4294967296" using unsigned_less [where 'a = int, of u] by simp
  ultimately show ?thesis
    using digits_value_nat [of "unat u"] s
    by (simp add: parse_unsigned_def u32_to_string_def del: digits_value.simps)
qed

section \<open>Lists\<close>

text \<open>Splitting an equation of concatenations at a field whose width is known.\<close>

lemma append_eq_split:
  "length xs = length us \<Longrightarrow> xs @ ys = us @ vs \<longleftrightarrow> xs = us \<and> ys = vs"
  by (rule append_eq_append_conv) simp

lemma list_all2_rightE:
  assumes "list_all2 P xs ys" "y \<in> set ys"
  obtains x where "x \<in> set xs" "P x y"
proof -
  obtain i where "i < length ys" "y = ys ! i" using assms(2) by (auto simp: in_set_conv_nth)
  then show thesis using assms(1) that [of "xs ! i"] by (simp add: list_all2_conv_all_nth)
qed

lemma list_all2_leftE:
  assumes "list_all2 P xs ys" "x \<in> set xs"
  obtains y where "y \<in> set ys" "P x y"
proof -
  obtain i where "i < length xs" "x = xs ! i" using assms(2) by (auto simp: in_set_conv_nth)
  then show thesis using assms(1) that [of "ys ! i"] by (simp add: list_all2_conv_all_nth)
qed

text \<open>
  The scan the validators run: walk a list, keeping the elements seen so far, and report
  every repetition (\<open>BTreeSet::insert\<close> returning false).
\<close>

fun scan_seen :: "('a set \<Rightarrow> 'a \<Rightarrow> 'e list) \<Rightarrow> 'a set \<Rightarrow> 'a list \<Rightarrow> 'e list" where
  "scan_seen f seen [] = []"
| "scan_seen f seen (x # xs) = f seen x @ scan_seen f (insert x seen) xs"

lemma scan_seen_Nil_iff:
  "scan_seen (\<lambda>seen x. (if x \<in> seen then [d x] else []) @ g x) seen xs = [] \<longleftrightarrow>
     distinct xs \<and> seen \<inter> set xs = {} \<and> (\<forall>x \<in> set xs. g x = [])"
  by (induction xs arbitrary: seen) auto

lemma concat_map_Nil_iff: "concat (map f xs) = [] \<longleftrightarrow> (\<forall>x \<in> set xs. f x = [])"
  by (induction xs) auto

section \<open>Contract calls\<close>

text \<open>
  How an entry point stops without a result: the host refuses an address that did not
  authorize (\<open>require_auth\<close>), the call traps (an \<open>expect\<close>, an arithmetic overflow, a failed
  cross-contract call), or the contract returns an error of its own. In each case the host
  discards every write of the invocation.
\<close>

datatype 'e failure = Unauthorized | Trap | Failed 'e

text \<open>
  Contract storage keyed by tenant. A client relies on one law of the calls that write it: a call
  changes what one key sees only. Stronger contracts add that a call succeeds only with the
  authorization its key asks for, and that unless it is a removal it does not replace a present
  entry.
\<close>

fun exec_all :: "('env \<Rightarrow> 's \<Rightarrow> 'c \<Rightarrow> 'e + 's) \<Rightarrow> ('env \<times> 'c) list \<Rightarrow> 's \<Rightarrow> 's" where
  "exec_all exec [] s = s"
| "exec_all exec ((e, c) # cs) s =
     (case exec e s c of Inl _ \<Rightarrow> exec_all exec cs s | Inr s' \<Rightarrow> exec_all exec cs s')"

locale tenant_store =
  fixes exec :: "'env \<Rightarrow> 's \<Rightarrow> 'c \<Rightarrow> 'e + 's"
    and key_of :: "'c \<Rightarrow> 'k"
    and entry :: "'s \<Rightarrow> 'k \<Rightarrow> 'v"
  assumes frame: "exec e s c = Inr s' \<Longrightarrow> k \<noteq> key_of c \<Longrightarrow> entry s' k = entry s k"
begin

lemma exec_all_frame:
  assumes "\<forall>(e, c) \<in> set cs. key_of c \<noteq> k"
  shows "entry (exec_all exec cs s) k = entry s k"
  using assms
proof (induction cs arbitrary: s)
  case (Cons a cs)
  obtain e c where a: "a = (e, c)" by (cases a)
  show ?case
    using Cons a frame [of e s c _ k] by (cases "exec e s c") auto
qed simp

end

locale keyed_store = tenant_store exec key_of entry
  for exec :: "'env \<Rightarrow> 's \<Rightarrow> 'c \<Rightarrow> 'e + 's"
    and key_of :: "'c \<Rightarrow> 'k"
    and entry :: "'s \<Rightarrow> 'k \<Rightarrow> 'v option" +
  fixes authorized :: "'env \<Rightarrow> 'k \<Rightarrow> bool"
    and removes :: "'c \<Rightarrow> bool"
  assumes needs_auth: "exec e s c = Inr s' \<Longrightarrow> authorized e (key_of c)"
    and keeps: "exec e s c = Inr s' \<Longrightarrow> \<not> removes c \<Longrightarrow> entry s (key_of c) = Some v \<Longrightarrow>
                entry s' (key_of c) = Some v"
begin

lemma exec_keeps:
  assumes "exec e s c = Inr s'" "entry s k = Some v" "\<not> (removes c \<and> key_of c = k)"
  shows "entry s' k = Some v"
  using assms frame [OF assms(1), of k] keeps [OF assms(1), of v] by (cases "k = key_of c") auto

lemma exec_all_keeps:
  assumes "entry s k = Some v" "\<forall>(e, c) \<in> set cs. \<not> (removes c \<and> key_of c = k)"
  shows "entry (exec_all exec cs s) k = Some v"
  using assms
proof (induction cs arbitrary: s)
  case (Cons a cs)
  obtain e c where a: "a = (e, c)" by (cases a)
  show ?case
    using Cons a exec_keeps [of e s c _ k v] by (cases "exec e s c") auto
qed simp

lemma exec_all_unauthorized:
  assumes "\<forall>(e, c) \<in> set cs. key_of c = k \<longrightarrow> \<not> authorized e k"
  shows "entry (exec_all exec cs s) k = entry s k"
  using assms
proof (induction cs arbitrary: s)
  case (Cons a cs)
  obtain e c where a: "a = (e, c)" by (cases a)
  show ?case
    using Cons a frame [of e s c _ k] needs_auth [of e s c] by (cases "exec e s c") auto
qed simp

end

end
