(* ===== verification/Program.thy ===== *)
theory Program
  imports Perch_Prelude
begin

text \<open>
  The on-chain constraint programs (\<open>crates/perch-program\<close>): the Kleene verdicts of
  \<open>lib.rs\<close>, the leaf predicates of \<open>leaf.rs\<close>, and the postfix encoding of \<open>rpn.rs\<close> with its
  stack-effect validator and its evaluator. The evaluator is modelled as written: an array of
  \<open>MAX_STACK_DEPTH\<close> verdicts, a stack pointer, and the fail-closed guards.

  The lemmas show that the array machine is a machine on a verdict list, that a validated
  program is the postfix form of a constraint tree whose Kleene value is what evaluation
  returns, that a malformed program evaluates to \<open>Unknown\<close>, and that losing information at a
  leaf never turns a denial into an authorization.
\<close>

section \<open>Constants and verdicts (lib.rs)\<close>

definition PROGRAM_VERSION :: u32 where "PROGRAM_VERSION = 1"
definition MAX_PROGRAM_LEN :: nat where "MAX_PROGRAM_LEN = 256"
definition MAX_STACK_DEPTH :: nat where "MAX_STACK_DEPTH = 128"

datatype program_error =
    UnknownVersion | Empty | TooLarge | ArityMismatch
  | StackUnderflow | StackOverflow | NotSingleResult

datatype verdict = VFalse | VUnknown | VTrue

text \<open>\<open>derive(PartialOrd, Ord)\<close>: declaration order, \<open>False < Unknown < True\<close>.\<close>

fun verdict_rank :: "verdict \<Rightarrow> nat" where
  "verdict_rank VFalse = 0"
| "verdict_rank VUnknown = 1"
| "verdict_rank VTrue = 2"

lemma verdict_rank_inject: "verdict_rank a = verdict_rank b \<Longrightarrow> a = b"
  by (cases a; cases b) auto

instantiation verdict :: linorder
begin

definition less_eq_verdict :: "verdict \<Rightarrow> verdict \<Rightarrow> bool" where
  "less_eq_verdict a b = (verdict_rank a \<le> verdict_rank b)"

definition less_verdict :: "verdict \<Rightarrow> verdict \<Rightarrow> bool" where
  "less_verdict a b = (verdict_rank a < verdict_rank b)"

instance
  by standard (auto simp: less_eq_verdict_def less_verdict_def intro: verdict_rank_inject)

end

definition verdict_and :: "verdict \<Rightarrow> verdict \<Rightarrow> verdict" where
  "verdict_and a b = min a b"

definition verdict_or :: "verdict \<Rightarrow> verdict \<Rightarrow> verdict" where
  "verdict_or a b = max a b"

definition allows :: "verdict \<Rightarrow> bool" where
  "allows v \<longleftrightarrow> v = VTrue"

definition verdict_of_bool :: "bool \<Rightarrow> verdict" where
  "verdict_of_bool b = (if b then VTrue else VFalse)"

fun verdict_not :: "verdict \<Rightarrow> verdict" where
  "verdict_not VFalse = VTrue"
| "verdict_not VUnknown = VUnknown"
| "verdict_not VTrue = VFalse"

record eval_inputs =
  ei_context :: auth_context
  ei_signer_count :: u32
  ei_self_addr :: address

section \<open>Leaf predicates (leaf.rs)\<close>

text \<open>The part of \<open>Env\<close> the leaves read: the current ledger sequence.\<close>

type_synonym ledger_seq = u32

definition MAX_STR_ARG_LEN :: nat where "MAX_STR_ARG_LEN = 256"

text \<open>\<open>arg\<close>: argument \<open>i\<close> of a contract call; the caller decodes it to its type.\<close>

definition arg_val :: "auth_context \<Rightarrow> u32 \<Rightarrow> val option" where
  "arg_val ctx i =
     (case ctx of
        Ctx_Contract c \<Rightarrow>
          (if unat i < length (cc_args c) then Some (cc_args c ! unat i) else None)
      | _ \<Rightarrow> None)"

definition arg_address :: "auth_context \<Rightarrow> u32 \<Rightarrow> address option" where
  "arg_address ctx i = (case arg_val ctx i of Some (V_Address a) \<Rightarrow> Some a | _ \<Rightarrow> None)"

definition arg_symbol :: "auth_context \<Rightarrow> u32 \<Rightarrow> string option" where
  "arg_symbol ctx i = (case arg_val ctx i of Some (V_Symbol s) \<Rightarrow> Some s | _ \<Rightarrow> None)"

definition arg_string :: "auth_context \<Rightarrow> u32 \<Rightarrow> string option" where
  "arg_string ctx i = (case arg_val ctx i of Some (V_String s) \<Rightarrow> Some s | _ \<Rightarrow> None)"

definition arg_bytes :: "auth_context \<Rightarrow> u32 \<Rightarrow> bytes option" where
  "arg_bytes ctx i = (case arg_val ctx i of Some (V_Bytes b) \<Rightarrow> Some b | _ \<Rightarrow> None)"

definition arg_u32 :: "auth_context \<Rightarrow> u32 \<Rightarrow> u32 option" where
  "arg_u32 ctx i = (case arg_val ctx i of Some (V_U32 n) \<Rightarrow> Some n | _ \<Rightarrow> None)"

definition arg_i128 :: "auth_context \<Rightarrow> u32 \<Rightarrow> i128 option" where
  "arg_i128 ctx i = (case arg_val ctx i of Some (V_I128 n) \<Rightarrow> Some n | _ \<Rightarrow> None)"

definition decoded :: "'a option \<Rightarrow> ('a \<Rightarrow> bool) \<Rightarrow> verdict" where
  "decoded x p = (case x of Some a \<Rightarrow> verdict_of_bool (p a) | None \<Rightarrow> VUnknown)"

definition min_signers :: "eval_inputs \<Rightarrow> u32 \<Rightarrow> verdict" where
  "min_signers inp n = verdict_of_bool (ei_signer_count inp \<ge> n)"

definition fn_in :: "eval_inputs \<Rightarrow> string list \<Rightarrow> verdict" where
  "fn_in inp fns =
     (case ei_context inp of
        Ctx_Contract c \<Rightarrow> verdict_of_bool (list_ex (\<lambda>f. f = cc_fn_name c) fns)
      | _ \<Rightarrow> VUnknown)"

definition arg_addr_eq :: "eval_inputs \<Rightarrow> u32 \<Rightarrow> address \<Rightarrow> verdict" where
  "arg_addr_eq inp i want = decoded (arg_address (ei_context inp) i) (\<lambda>a. a = want)"

definition arg_addr_is_self :: "eval_inputs \<Rightarrow> u32 \<Rightarrow> verdict" where
  "arg_addr_is_self inp i =
     decoded (arg_address (ei_context inp) i) (\<lambda>a. a = ei_self_addr inp)"

definition arg_sym_eq :: "eval_inputs \<Rightarrow> u32 \<Rightarrow> string \<Rightarrow> verdict" where
  "arg_sym_eq inp i want = decoded (arg_symbol (ei_context inp) i) (\<lambda>s. s = want)"

definition arg_u32_eq :: "eval_inputs \<Rightarrow> u32 \<Rightarrow> u32 \<Rightarrow> verdict" where
  "arg_u32_eq inp i want = decoded (arg_u32 (ei_context inp) i) (\<lambda>n. n = want)"

definition arg_i128_eq :: "eval_inputs \<Rightarrow> u32 \<Rightarrow> i128 \<Rightarrow> verdict" where
  "arg_i128_eq inp i want = decoded (arg_i128 (ei_context inp) i) (\<lambda>n. n = want)"

definition arg_bytes_eq :: "eval_inputs \<Rightarrow> u32 \<Rightarrow> bytes \<Rightarrow> verdict" where
  "arg_bytes_eq inp i want = decoded (arg_bytes (ei_context inp) i) (\<lambda>b. b = want)"

text \<open>
  The fixed buffers: a list of \<open>MAX_STR_ARG_LEN\<close> bytes. A copy overwrites a prefix and
  leaves the rest as it was, so a reused buffer holds stale bytes behind the filled prefix.
\<close>

type_synonym buffer = string

definition zero_buffer :: buffer where
  "zero_buffer = replicate MAX_STR_ARG_LEN (CHR 0x00)"

definition copy_into :: "string \<Rightarrow> buffer \<Rightarrow> buffer" where
  "copy_into s buf = s @ drop (length s) buf"

definition str_bytes :: "string \<Rightarrow> buffer \<Rightarrow> (nat \<times> buffer) option" where
  "str_bytes s buf =
     (let n = length s
      in if n > MAX_STR_ARG_LEN then None else Some (n, copy_into s buf))"

definition str_head :: "string \<Rightarrow> nat \<Rightarrow> buffer \<Rightarrow> buffer option" where
  "str_head s n buf =
     (if length s < n then None else Some (copy_into (take n s) buf))"

definition buf_eq :: "buffer \<Rightarrow> nat \<Rightarrow> buffer \<Rightarrow> nat \<Rightarrow> bool" where
  "buf_eq a an b bn \<longleftrightarrow> an = bn \<and> take an a = take bn b"

fun arg_str_in_loop :: "buffer \<Rightarrow> nat \<Rightarrow> buffer \<Rightarrow> string list \<Rightarrow> verdict" where
  "arg_str_in_loop sbuf sn cand [] = VFalse"
| "arg_str_in_loop sbuf sn cand (want # rest) =
     (case str_bytes want cand of
        Some (cn, cand') \<Rightarrow>
          (if buf_eq cand' cn sbuf sn then VTrue else arg_str_in_loop sbuf sn cand' rest)
      | None \<Rightarrow> arg_str_in_loop sbuf sn cand rest)"

definition arg_str_in :: "eval_inputs \<Rightarrow> u32 \<Rightarrow> string list \<Rightarrow> verdict" where
  "arg_str_in inp i strs =
     (case arg_string (ei_context inp) i of
        None \<Rightarrow> VUnknown
      | Some s \<Rightarrow>
          (case str_bytes s zero_buffer of
             None \<Rightarrow> VUnknown
           | Some (sn, sbuf) \<Rightarrow> arg_str_in_loop sbuf sn zero_buffer strs))"

definition arg_str_prefix :: "eval_inputs \<Rightarrow> u32 \<Rightarrow> string \<Rightarrow> verdict" where
  "arg_str_prefix inp i prefix =
     (case arg_string (ei_context inp) i of
        None \<Rightarrow> VUnknown
      | Some s \<Rightarrow>
          (case str_bytes prefix zero_buffer of
             None \<Rightarrow> VUnknown
           | Some (pn, pbuf) \<Rightarrow>
               (case str_head s pn zero_buffer of
                  None \<Rightarrow> VFalse
                | Some sbuf \<Rightarrow> verdict_of_bool (take pn sbuf = take pn pbuf))))"

definition arg_count :: "eval_inputs \<Rightarrow> u32 \<Rightarrow> verdict" where
  "arg_count inp n =
     (case ei_context inp of
        Ctx_Contract c \<Rightarrow> verdict_of_bool (length (cc_args c) = unat n)
      | _ \<Rightarrow> VUnknown)"

definition ledger_before :: "ledger_seq \<Rightarrow> u32 \<Rightarrow> verdict" where
  "ledger_before now n = verdict_of_bool (now < n)"

definition ledger_at_or_after :: "ledger_seq \<Rightarrow> u32 \<Rightarrow> verdict" where
  "ledger_at_or_after now n = verdict_of_bool (now \<ge> n)"

section \<open>Postfix programs (rpn.rs)\<close>

datatype op =
    Op_All u32
  | Op_Any u32
  | Op_Not
  | Op_MinSigners u32
  | Op_FnIn "string list"
  | Op_ArgAddrEq u32 address
  | Op_ArgAddrIsSelf u32
  | Op_ArgSymEq u32 string
  | Op_ArgStrIn u32 "string list"
  | Op_ArgStrPrefix u32 string
  | Op_ArgBytesEq u32 bytes
  | Op_ArgI128Eq u32 i128
  | Op_ArgU32Eq u32 u32
  | Op_ArgCount u32
  | Op_LedgerBefore u32
  | Op_LedgerAtOrAfter u32

record rpn_program =
  rp_version :: u32
  rp_ops :: "op list"

record install_params =
  ip_program :: rpn_program
  ip_doc_hash :: bytes32

fun pops :: "op \<Rightarrow> program_error + nat" where
  "pops (Op_All n) = (if n = 0 then Inl ArityMismatch else Inr (unat n))"
| "pops (Op_Any n) = (if n = 0 then Inl ArityMismatch else Inr (unat n))"
| "pops Op_Not = Inr 1"
| "pops _ = Inr 0"

fun validate_loop :: "op list \<Rightarrow> nat \<Rightarrow> program_error + nat" where
  "validate_loop [] depth = Inr depth"
| "validate_loop (p # ps) depth =
     and_then (pops p) (\<lambda>k.
       if depth < k then Inl StackUnderflow
       else let depth' = depth - k + 1
            in if depth' > MAX_STACK_DEPTH then Inl StackOverflow
               else validate_loop ps depth')"

definition rpn_validate :: "rpn_program \<Rightarrow> program_error + unit" where
  "rpn_validate prog =
     (if rp_version prog \<noteq> PROGRAM_VERSION then Inl UnknownVersion
      else if length (rp_ops prog) = 0 then Inl Empty
      else if length (rp_ops prog) > MAX_PROGRAM_LEN then Inl TooLarge
      else and_then (validate_loop (rp_ops prog) 0) (\<lambda>depth.
             if depth = 1 then Inr () else Inl NotSingleResult))"

text \<open>
  The pop loops of \<open>All\<close> and \<open>Any\<close>: \<open>k\<close> more reads, from the slot below the stack pointer
  downwards.
\<close>

fun pop_fold :: "(verdict \<Rightarrow> verdict \<Rightarrow> verdict) \<Rightarrow> verdict list \<Rightarrow> nat \<Rightarrow> nat \<Rightarrow> verdict
    \<Rightarrow> nat \<times> verdict" where
  "pop_fold f stack 0 sp v = (sp, v)"
| "pop_fold f stack (Suc k) sp v = pop_fold f stack k (sp - 1) (f v (stack ! (sp - 1)))"

text \<open>One op: the new stack pointer and the verdict to push; \<open>None\<close> is \<open>return Unknown\<close>.\<close>

fun eval_op :: "ledger_seq \<Rightarrow> eval_inputs \<Rightarrow> op \<Rightarrow> verdict list \<Rightarrow> nat \<Rightarrow> (nat \<times> verdict) option"
  where
  "eval_op now inp (Op_All n) stack sp =
     (if n = 0 \<or> sp < unat n then None
      else Some (pop_fold verdict_and stack (unat n) sp VTrue))"
| "eval_op now inp (Op_Any n) stack sp =
     (if n = 0 \<or> sp < unat n then None
      else Some (pop_fold verdict_or stack (unat n) sp VFalse))"
| "eval_op now inp Op_Not stack sp =
     (if sp = 0 then None else Some (sp - 1, verdict_not (stack ! (sp - 1))))"
| "eval_op now inp (Op_MinSigners n) stack sp = Some (sp, min_signers inp n)"
| "eval_op now inp (Op_FnIn fns) stack sp = Some (sp, fn_in inp fns)"
| "eval_op now inp (Op_ArgAddrEq i a) stack sp = Some (sp, arg_addr_eq inp i a)"
| "eval_op now inp (Op_ArgAddrIsSelf i) stack sp = Some (sp, arg_addr_is_self inp i)"
| "eval_op now inp (Op_ArgSymEq i s) stack sp = Some (sp, arg_sym_eq inp i s)"
| "eval_op now inp (Op_ArgStrIn i ss) stack sp = Some (sp, arg_str_in inp i ss)"
| "eval_op now inp (Op_ArgStrPrefix i s) stack sp = Some (sp, arg_str_prefix inp i s)"
| "eval_op now inp (Op_ArgBytesEq i b) stack sp = Some (sp, arg_bytes_eq inp i b)"
| "eval_op now inp (Op_ArgI128Eq i n) stack sp = Some (sp, arg_i128_eq inp i n)"
| "eval_op now inp (Op_ArgU32Eq i n) stack sp = Some (sp, arg_u32_eq inp i n)"
| "eval_op now inp (Op_ArgCount n) stack sp = Some (sp, arg_count inp n)"
| "eval_op now inp (Op_LedgerBefore n) stack sp = Some (sp, ledger_before now n)"
| "eval_op now inp (Op_LedgerAtOrAfter n) stack sp = Some (sp, ledger_at_or_after now n)"

fun eval_loop :: "ledger_seq \<Rightarrow> eval_inputs \<Rightarrow> op list \<Rightarrow> verdict list \<Rightarrow> nat \<Rightarrow> verdict" where
  "eval_loop now inp [] stack sp = (if sp = 1 then stack ! 0 else VUnknown)"
| "eval_loop now inp (p # ps) stack sp =
     (if sp > MAX_STACK_DEPTH then VUnknown
      else case eval_op now inp p stack sp of
             None \<Rightarrow> VUnknown
           | Some (sp', v) \<Rightarrow>
               (if sp' \<ge> MAX_STACK_DEPTH then VUnknown
                else eval_loop now inp ps (stack[sp' := v]) (sp' + 1)))"

definition rpn_eval :: "ledger_seq \<Rightarrow> rpn_program \<Rightarrow> eval_inputs \<Rightarrow> verdict" where
  "rpn_eval now prog inp =
     eval_loop now inp (rp_ops prog) (replicate MAX_STACK_DEPTH VUnknown) 0"

section \<open>Verdicts: the Kleene connectives\<close>

lemma verdict_le [simp]:
  "VFalse \<le> v" "v \<le> VTrue" "VUnknown \<le> VTrue" "\<not> VUnknown \<le> VFalse" "VTrue \<le> v \<longleftrightarrow> v = VTrue"
  by (cases v; simp add: less_eq_verdict_def)+

lemma verdict_and_or_table [simp]:
  "verdict_and VTrue v = v" "verdict_and v VTrue = v"
  "verdict_and VFalse v = VFalse" "verdict_and v VFalse = VFalse"
  "verdict_and VUnknown VUnknown = VUnknown"
  "verdict_or VFalse v = v" "verdict_or v VFalse = v"
  "verdict_or VTrue v = VTrue" "verdict_or v VTrue = VTrue"
  "verdict_or VUnknown VUnknown = VUnknown"
  by (cases v; simp add: verdict_and_def verdict_or_def min_def max_def less_eq_verdict_def)+

text \<open>Strong Kleene conjunction and disjunction of any number of verdicts.\<close>

definition kleene_all :: "verdict list \<Rightarrow> verdict" where
  "kleene_all vs = (if VFalse \<in> set vs then VFalse
                    else if VUnknown \<in> set vs then VUnknown else VTrue)"

definition kleene_any :: "verdict list \<Rightarrow> verdict" where
  "kleene_any vs = (if VTrue \<in> set vs then VTrue
                    else if VUnknown \<in> set vs then VUnknown else VFalse)"

lemma foldl_verdict_and: "foldl verdict_and v vs = verdict_and v (kleene_all vs)"
proof (induction vs arbitrary: v)
  case Nil
  then show ?case by (simp add: kleene_all_def)
next
  case (Cons x xs)
  then show ?case by (cases v; cases x) (auto simp: kleene_all_def)
qed

lemma foldl_verdict_or: "foldl verdict_or v vs = verdict_or v (kleene_any vs)"
proof (induction vs arbitrary: v)
  case Nil
  then show ?case by (simp add: kleene_any_def)
next
  case (Cons x xs)
  then show ?case by (cases v; cases x) (auto simp: kleene_any_def)
qed

lemma kleene_rev [simp]:
  "kleene_all (rev vs) = kleene_all vs" "kleene_any (rev vs) = kleene_any vs"
  by (simp_all add: kleene_all_def kleene_any_def)

section \<open>String leaves: the buffers do not show\<close>

lemma str_bytes_Some:
  "str_bytes s buf = Some (n, b) \<longleftrightarrow> length s \<le> MAX_STR_ARG_LEN \<and> n = length s \<and> b = copy_into s buf"
  by (auto simp: str_bytes_def Let_def)

lemma take_copy_into [simp]: "take (length s) (copy_into s buf) = s"
  by (simp add: copy_into_def)

lemma buf_eq_copies:
  "buf_eq (copy_into s b) (length s) (copy_into t c) (length t) \<longleftrightarrow> s = t"
  by (auto simp: buf_eq_def)

lemma arg_str_in_loop_spec:
  assumes "length s \<le> MAX_STR_ARG_LEN"
  shows "arg_str_in_loop (copy_into s b) (length s) cand strs = verdict_of_bool (s \<in> set strs)"
  using assms
proof (induction strs arbitrary: cand)
  case Nil
  then show ?case by (simp add: verdict_of_bool_def)
next
  case (Cons w ws)
  show ?case
  proof (cases "length w \<le> MAX_STR_ARG_LEN")
    case True
    then have "str_bytes w cand = Some (length w, copy_into w cand)" by (simp add: str_bytes_Some)
    then show ?thesis using Cons by (auto simp: buf_eq_copies verdict_of_bool_def)
  next
    case False
    then have "str_bytes w cand = None" by (simp add: str_bytes_def Let_def)
    then show ?thesis using Cons False by (auto simp: verdict_of_bool_def)
  qed
qed

lemma arg_str_in_eq:
  "arg_str_in inp i strs =
     (case arg_string (ei_context inp) i of
        None \<Rightarrow> VUnknown
      | Some s \<Rightarrow> if length s \<le> 256 then verdict_of_bool (s \<in> set strs) else VUnknown)"
  by (auto simp: arg_str_in_def str_bytes_def arg_str_in_loop_spec Let_def split: option.splits)
    (auto simp: MAX_STR_ARG_LEN_def)

lemma arg_str_prefix_eq:
  "arg_str_prefix inp i prefix =
     (case arg_string (ei_context inp) i of
        None \<Rightarrow> VUnknown
      | Some s \<Rightarrow> if length prefix \<le> 256
                 then verdict_of_bool (\<exists>rest. s = prefix @ rest) else VUnknown)"
proof -
  have head: "take (length prefix) s = prefix \<longleftrightarrow> (\<exists>rest. s = prefix @ rest)" for s :: string
    by (metis append_eq_conv_conj append_take_drop_id)
  have copy: "take (length prefix) (copy_into (take (length prefix) s) buf) = take (length prefix) s"
    if "length prefix \<le> length s" for s buf
    using that by (simp add: copy_into_def)
  show ?thesis
    by (auto simp: arg_str_prefix_def str_bytes_def str_head_def copy head verdict_of_bool_def
        MAX_STR_ARG_LEN_def Let_def split: option.splits)
qed

section \<open>The stack machine\<close>

text \<open>
  The machine on a list of values of any kind, top of the stack first: each op takes \<open>pops\<close>
  values and pushes \<open>g op values\<close>. Run on verdicts it is the evaluator, run on constraint
  trees it is a parser of the postfix form.
\<close>

fun rpn_run :: "(op \<Rightarrow> 'a list \<Rightarrow> 'a) \<Rightarrow> op list \<Rightarrow> 'a list \<Rightarrow> 'a list option" where
  "rpn_run g [] st = Some st"
| "rpn_run g (p # ps) st =
     (case pops p of
        Inl _ \<Rightarrow> None
      | Inr k \<Rightarrow>
          (if length st < k \<or> length st - k \<ge> MAX_STACK_DEPTH then None
           else rpn_run g ps (g p (rev (take k st)) # drop k st)))"

text \<open>The value of a leaf does not look at the stack.\<close>

definition leaf_value :: "ledger_seq \<Rightarrow> eval_inputs \<Rightarrow> op \<Rightarrow> verdict" where
  "leaf_value now inp p = (case eval_op now inp p [] 0 of Some (_, v) \<Rightarrow> v | None \<Rightarrow> VUnknown)"

fun op_value :: "ledger_seq \<Rightarrow> eval_inputs \<Rightarrow> op \<Rightarrow> verdict list \<Rightarrow> verdict" where
  "op_value now inp (Op_All n) vs = kleene_all vs"
| "op_value now inp (Op_Any n) vs = kleene_any vs"
| "op_value now inp Op_Not vs = verdict_not (hd vs)"
| "op_value now inp p vs = leaf_value now inp p"

definition single_verdict :: "verdict list option \<Rightarrow> verdict" where
  "single_verdict r = (case r of Some [v] \<Rightarrow> v | _ \<Rightarrow> VUnknown)"

lemma single_verdict_length: "length vs \<noteq> 1 \<Longrightarrow> single_verdict (Some vs) = VUnknown"
  by (auto simp: single_verdict_def split: list.splits)

lemma pop_fold_eq:
  "k \<le> sp \<Longrightarrow> sp \<le> length stack \<Longrightarrow>
   pop_fold f stack k sp v = (sp - k, foldl f v (take k (rev (take sp stack))))"
proof (induction k arbitrary: sp v)
  case 0
  then show ?case by simp
next
  case (Suc k)
  then obtain m where m: "sp = Suc m" by (cases sp) auto
  then have "take sp stack = take m stack @ [stack ! m]"
    using Suc.prems by (simp add: take_Suc_conv_app_nth)
  then show ?case using Suc m by simp
qed

lemma eval_op_eq:
  assumes "sp \<le> length stack"
  shows "eval_op now inp p stack sp =
    (case pops p of
       Inl _ \<Rightarrow> None
     | Inr k \<Rightarrow> if sp < k then None
               else Some (sp - k, op_value now inp p (rev (take k (rev (take sp stack))))))"
proof (cases p)
  case Op_Not
  show ?thesis
  proof (cases sp)
    case (Suc m)
    then have "take sp stack = take m stack @ [stack ! m]"
      using assms by (simp add: take_Suc_conv_app_nth)
    with Op_Not Suc show ?thesis by simp
  qed (simp add: Op_Not)
qed (use assms in \<open>auto simp: pop_fold_eq foldl_verdict_and foldl_verdict_or leaf_value_def\<close>)

text \<open>The array machine refines the list machine: \<open>rev (take sp stack)\<close> is the abstraction.\<close>

lemma eval_loop_refines_run:
  assumes "length stack = MAX_STACK_DEPTH" "sp \<le> MAX_STACK_DEPTH"
  shows "eval_loop now inp ops stack sp =
    single_verdict (rpn_run (op_value now inp) ops (rev (take sp stack)))"
  using assms
proof (induction ops arbitrary: stack sp)
  case Nil
  have one: "rev (take 1 stack) = [stack ! 0]"
    using Nil by (cases stack) (auto simp: MAX_STACK_DEPTH_def)
  have "length (rev (take sp stack)) = sp" using Nil by simp
  with one show ?case
    by (cases "sp = 1") (simp_all add: single_verdict_length, simp add: single_verdict_def)
next
  case (Cons p ps)
  have len: "length (rev (take sp stack)) = sp" and spl: "sp \<le> length stack" using Cons by auto
  show ?case
  proof (cases "pops p")
    case (Inl e)
    then show ?thesis using Cons.prems by (simp add: eval_op_eq single_verdict_def)
  next
    case (Inr k)
    define v where "v = op_value now inp p (rev (take k (rev (take sp stack))))"
    consider "sp < k" | "k \<le> sp" "sp - k \<ge> MAX_STACK_DEPTH" | "k \<le> sp" "sp - k < MAX_STACK_DEPTH"
      by linarith
    then show ?thesis
    proof cases
      case 2
      then show ?thesis using Inr Cons.prems len spl by (simp add: eval_op_eq single_verdict_def)
    next
      case 3
      have "rev (take (Suc (sp - k)) (stack[sp - k := v])) = v # drop k (rev (take sp stack))"
        using 3 Cons.prems by (simp add: take_Suc_conv_app_nth drop_rev min_absorb1)
      moreover have "eval_loop now inp ps (stack[sp - k := v]) (sp - k + 1) =
        single_verdict (rpn_run (op_value now inp) ps
          (rev (take (sp - k + 1) (stack[sp - k := v]))))"
        by (rule Cons.IH) (use 3 Cons.prems in auto)
      ultimately show ?thesis
        using 3 Cons.prems Inr by (simp add: eval_op_eq v_def)
    qed (use Cons.prems Inr in \<open>simp add: eval_op_eq single_verdict_def\<close>)
  qed
qed

lemma rpn_eval_run:
  "rpn_eval now prog inp = single_verdict (rpn_run (op_value now inp) (rp_ops prog) [])"
  using eval_loop_refines_run [of "replicate MAX_STACK_DEPTH VUnknown" 0 now inp "rp_ops prog"]
  by (simp add: rpn_eval_def)

text \<open>The validator is the same machine on stack heights.\<close>

lemma validate_loop_run:
  "validate_loop ops (length st) = Inr d \<longleftrightarrow> (\<exists>st'. rpn_run g ops st = Some st' \<and> length st' = d)"
proof (induction ops arbitrary: st)
  case Nil
  then show ?case by auto
next
  case (Cons p ps)
  show ?case
  proof (cases "pops p")
    case (Inr k)
    have "length (g p (rev (take k st)) # drop k st) = length st - k + 1" by simp
    then show ?thesis using Inr Cons.IH [of "g p (rev (take k st)) # drop k st"]
      by (auto simp: Let_def)
  qed simp
qed

text \<open>Runs commute with a map that respects the ops.\<close>

lemma rpn_run_map:
  assumes "\<And>p k xs. pops p = Inr k \<Longrightarrow> length xs = k \<Longrightarrow> h (g p xs) = g' p (map h xs)"
  shows "rpn_run g' ops (map h st) = map_option (map h) (rpn_run g ops st)"
proof (induction ops arbitrary: st)
  case (Cons p ps)
  show ?case
  proof (cases "pops p")
    case (Inr k)
    show ?thesis
    proof (cases "length st < k \<or> length st - k \<ge> MAX_STACK_DEPTH")
      case False
      have "g' p (rev (take k (map h st))) = h (g p (rev (take k st)))"
        using assms [OF Inr, of "rev (take k st)"] False by (simp add: take_map rev_map)
      then show ?thesis
        using Inr False Cons.IH [of "g p (rev (take k st)) # drop k st"] by (simp add: drop_map)
    qed (use Inr in auto)
  qed simp
qed simp

section \<open>Constraint trees\<close>

text \<open>
  The specification of a program: a tree of leaves under negation, conjunction and
  disjunction, with its value in Kleene's strong three-valued logic and its postfix form.
\<close>

datatype constraint =
    C_Leaf op
  | C_Not constraint
  | C_All "constraint list"
  | C_Any "constraint list"

fun tree_value :: "ledger_seq \<Rightarrow> eval_inputs \<Rightarrow> constraint \<Rightarrow> verdict" where
  "tree_value now inp (C_Leaf p) = leaf_value now inp p"
| "tree_value now inp (C_Not c) = verdict_not (tree_value now inp c)"
| "tree_value now inp (C_All cs) = kleene_all (map (tree_value now inp) cs)"
| "tree_value now inp (C_Any cs) = kleene_any (map (tree_value now inp) cs)"

fun postfix :: "constraint \<Rightarrow> op list" where
  "postfix (C_Leaf p) = [p]"
| "postfix (C_Not c) = postfix c @ [Op_Not]"
| "postfix (C_All cs) = concat (map postfix cs) @ [Op_All (word_of_nat (length cs))]"
| "postfix (C_Any cs) = concat (map postfix cs) @ [Op_Any (word_of_nat (length cs))]"

fun mk_constraint :: "op \<Rightarrow> constraint list \<Rightarrow> constraint" where
  "mk_constraint (Op_All n) cs = C_All cs"
| "mk_constraint (Op_Any n) cs = C_Any cs"
| "mk_constraint Op_Not cs = C_Not (hd cs)"
| "mk_constraint p cs = C_Leaf p"

lemma tree_value_mk:
  assumes "pops p = Inr k" "length cs = k"
  shows "tree_value now inp (mk_constraint p cs) = op_value now inp p (map (tree_value now inp) cs)"
  using assms by (cases p; cases cs) (auto split: if_splits)

lemma postfix_mk:
  assumes "pops p = Inr k" "length cs = k"
  shows "postfix (mk_constraint p cs) = concat (map postfix cs) @ [p]"
proof (cases p)
  case Op_Not
  with assms show ?thesis by (cases cs) auto
next
  case (Op_All n)
  with assms have "length cs = unat n" by (simp split: if_splits)
  then show ?thesis using Op_All by simp
next
  case (Op_Any n)
  with assms have "length cs = unat n" by (simp split: if_splits)
  then show ?thesis using Op_Any by simp
qed (use assms in auto)

lemma rpn_run_postfix:
  "rpn_run mk_constraint ops st = Some st' \<Longrightarrow>
   concat (map postfix (rev st')) = concat (map postfix (rev st)) @ ops"
proof (induction ops arbitrary: st)
  case (Cons p ps)
  then obtain k where k: "pops p = Inr k" "k \<le> length st"
    and run: "rpn_run mk_constraint ps (mk_constraint p (rev (take k st)) # drop k st) = Some st'"
    by (auto split: sum.splits if_splits)
  have "rev st = rev (drop k st) @ rev (take k st)"
    by (metis append_take_drop_id rev_append)
  then show ?case using Cons.IH [OF run] k by (simp add: postfix_mk)
qed simp

lemma rpn_validate_run:
  "rpn_validate prog = Inr () \<longleftrightarrow>
     rp_version prog = PROGRAM_VERSION \<and> rp_ops prog \<noteq> [] \<and>
     length (rp_ops prog) \<le> MAX_PROGRAM_LEN \<and>
     (\<exists>t. rpn_run g (rp_ops prog) [] = Some [t])"
proof -
  have "validate_loop (rp_ops prog) 0 = Inr (Suc 0) \<longleftrightarrow> (\<exists>t. rpn_run g (rp_ops prog) [] = Some [t])"
    using validate_loop_run [of "rp_ops prog" "[]" "Suc 0" g]
    by (simp add: length_Suc_conv) metis
  then show ?thesis by (auto simp: rpn_validate_def and_then_eq_Inr)
qed

lemma validate_loop_None_run:
  "validate_loop ops 0 = Inl e \<Longrightarrow> rpn_run g ops [] = None"
  using validate_loop_run [of ops "[]" _ g] by (cases "rpn_run g ops []") auto

lemma validated_tree_ex:
  assumes "rpn_validate prog = Inr ()"
  shows "\<exists>t. rp_ops prog = postfix t \<and>
           (\<forall>now inp. rpn_eval now prog inp = tree_value now inp t)"
proof -
  obtain t where t: "rpn_run mk_constraint (rp_ops prog) [] = Some [t]"
    using assms rpn_validate_run [of prog mk_constraint] by auto
  have "rpn_run (op_value now inp) (rp_ops prog) [] = Some [tree_value now inp t]" for now inp
    using rpn_run_map [of "tree_value now inp" mk_constraint "op_value now inp" "rp_ops prog" "[]"]
    by (simp add: tree_value_mk t)
  then have "rpn_eval now prog inp = tree_value now inp t" for now inp
    by (simp add: rpn_eval_run single_verdict_def)
  moreover have "rp_ops prog = postfix t" using rpn_run_postfix [OF t] by simp
  ultimately show ?thesis by blast
qed

section \<open>Information order\<close>

text \<open>\<open>Unknown\<close> is below both definite verdicts.\<close>

definition info_le :: "verdict \<Rightarrow> verdict \<Rightarrow> bool" where
  "info_le a b \<longleftrightarrow> a = VUnknown \<or> a = b"

lemma info_le_refl [simp]: "info_le a a" and info_le_Unknown [simp]: "info_le VUnknown a"
  by (simp_all add: info_le_def)

lemma info_le_not: "info_le a b \<Longrightarrow> info_le (verdict_not a) (verdict_not b)"
  by (auto simp: info_le_def)

lemma info_le_and: "info_le a b \<Longrightarrow> info_le c d \<Longrightarrow> info_le (verdict_and a c) (verdict_and b d)"
  by (cases a; cases b; cases c; cases d) (auto simp: info_le_def)

lemma info_le_or: "info_le a b \<Longrightarrow> info_le c d \<Longrightarrow> info_le (verdict_or a c) (verdict_or b d)"
  by (cases a; cases b; cases c; cases d) (auto simp: info_le_def)

lemma kleene_Cons:
  "kleene_all (v # vs) = verdict_and v (kleene_all vs)"
  "kleene_any (v # vs) = verdict_or v (kleene_any vs)"
  by (cases v; auto simp: kleene_all_def kleene_any_def)+

lemma info_le_kleene:
  assumes "list_all2 info_le vs ws"
  shows "info_le (kleene_all vs) (kleene_all ws)" "info_le (kleene_any vs) (kleene_any ws)"
  using assms by (induction rule: list_all2_induct) (auto simp: kleene_Cons info_le_and info_le_or)

text \<open>
  \<open>obscures inp' inp\<close>: the same call, except that some arguments do not decode to the type a
  leaf asks for, or the whole context is not a contract call.
\<close>

fun obscures_ctx :: "auth_context \<Rightarrow> auth_context \<Rightarrow> bool" where
  "obscures_ctx (Ctx_Contract c') (Ctx_Contract c) \<longleftrightarrow>
     cc_contract c' = cc_contract c \<and> cc_fn_name c' = cc_fn_name c \<and>
     list_all2 (\<lambda>v' v. v' = v \<or> (\<exists>n. v' = V_Other n)) (cc_args c') (cc_args c)"
| "obscures_ctx (Ctx_Contract c') _ \<longleftrightarrow> False"
| "obscures_ctx _ _ \<longleftrightarrow> True"

definition obscures :: "eval_inputs \<Rightarrow> eval_inputs \<Rightarrow> bool" where
  "obscures inp' inp \<longleftrightarrow>
     ei_signer_count inp' = ei_signer_count inp \<and> ei_self_addr inp' = ei_self_addr inp \<and>
     obscures_ctx (ei_context inp') (ei_context inp)"

lemma obscures_arg_val:
  assumes "obscures_ctx c' c"
  shows "arg_val c' i = arg_val c i \<or> arg_val c' i = None \<or> (\<exists>n. arg_val c' i = Some (V_Other n))"
  using assms
  by (cases "(c', c)" rule: obscures_ctx.cases)
    (auto simp: arg_val_def list_all2_conv_all_nth)

lemma leaf_value_mono:
  assumes "obscures inp' inp"
  shows "info_le (leaf_value now inp' p) (leaf_value now inp p)"
proof -
  let ?c' = "ei_context inp'" and ?c = "ei_context inp"
  have ctx: "obscures_ctx ?c' ?c" and rest: "ei_signer_count inp' = ei_signer_count inp"
    "ei_self_addr inp' = ei_self_addr inp"
    using assms by (auto simp: obscures_def)
  have args: "arg_val ?c' i = arg_val ?c i \<or> arg_val ?c' i = None \<or>
      (\<exists>n. arg_val ?c' i = Some (V_Other n))" for i
    using obscures_arg_val [OF ctx] .
  have call: "info_le (fn_in inp' fns) (fn_in inp fns)" "info_le (arg_count inp' n) (arg_count inp n)"
    for fns n
    using ctx by (cases "(?c', ?c)" rule: obscures_ctx.cases;
      auto simp: fn_in_def arg_count_def dest: list_all2_lengthD)+
  note dec = arg_addr_eq_def arg_addr_is_self_def arg_sym_eq_def arg_str_in_def arg_str_prefix_def
    arg_bytes_eq_def arg_i128_eq_def arg_u32_eq_def arg_address_def arg_symbol_def arg_string_def
    arg_bytes_def arg_i128_def arg_u32_def decoded_def
  have byidx: "info_le (arg_addr_eq inp' i a) (arg_addr_eq inp i a)"
    "info_le (arg_addr_is_self inp' i) (arg_addr_is_self inp i)"
    "info_le (arg_sym_eq inp' i s) (arg_sym_eq inp i s)"
    "info_le (arg_str_in inp' i ss) (arg_str_in inp i ss)"
    "info_le (arg_str_prefix inp' i s) (arg_str_prefix inp i s)"
    "info_le (arg_bytes_eq inp' i b) (arg_bytes_eq inp i b)"
    "info_le (arg_i128_eq inp' i m) (arg_i128_eq inp i m)"
    "info_le (arg_u32_eq inp' i n) (arg_u32_eq inp i n)" for i a s ss b m n
    using args [of i] by (elim disjE exE; simp add: dec rest)+
  show ?thesis
    by (cases p) (simp_all add: leaf_value_def call byidx min_signers_def rest)
qed

lemma op_value_mono:
  assumes "obscures inp' inp" "pops p = Inr (length vs)" "list_all2 info_le vs ws"
  shows "info_le (op_value now inp' p vs) (op_value now inp p ws)"
proof (cases p)
  case Op_Not
  with assms(2,3) show ?thesis by (cases vs; cases ws) (auto intro: info_le_not)
qed (use assms in \<open>auto simp: leaf_value_mono info_le_kleene\<close>)

lemma rpn_run_mono:
  assumes obs: "obscures inp' inp" and "list_all2 info_le st' st"
  shows "rel_option (list_all2 info_le)
     (rpn_run (op_value now inp') ops st') (rpn_run (op_value now inp) ops st)"
  using assms(2)
proof (induction ops arbitrary: st' st)
  case (Cons p ps)
  have len: "length st' = length st" using Cons.prems by (rule list_all2_lengthD)
  show ?case
  proof (cases "pops p")
    case (Inr k)
    show ?thesis
    proof (cases "length st < k \<or> length st - k \<ge> MAX_STACK_DEPTH")
      case False
      have "list_all2 info_le (rev (take k st')) (rev (take k st))"
        using Cons.prems by (simp add: list_all2_rev list_all2_takeI)
      then have "info_le (op_value now inp' p (rev (take k st'))) (op_value now inp p (rev (take k st)))"
        by (rule op_value_mono [OF obs, rotated]) (use Inr False len in simp)
      then show ?thesis using Inr False len Cons.IH Cons.prems by (simp add: list_all2_dropI)
    qed (use Inr len in auto)
  qed simp
qed simp

section \<open>Properties\<close>

text \<open>
  C9. A program that \<open>rpn::validate\<close> accepts is the postfix form of a constraint tree, and
  \<open>rpn::eval\<close> returns the strong Kleene value of that tree, for every ledger and every call:
  the fixed array, the stack pointer and the fail-closed guards do not show.
\<close>

theorem validated_program_is_tree:
  assumes "rpn_validate prog = Inr ()"
  shows "\<exists>t. rp_ops prog = postfix t \<and>
           (\<forall>now inp. rpn_eval now prog inp = tree_value now inp t)"
  by (rule validated_tree_ex [OF assms])

text \<open>Witness of C9: two signers and not the function \<open>burn\<close>.\<close>

theorem validated_program_is_tree_witness:
  "rpn_validate \<lparr>rp_version = 1, rp_ops = [Op_MinSigners 2, Op_FnIn [''burn''], Op_Not, Op_All 2]\<rparr> = Inr () \<and>
   (\<exists>t. [Op_MinSigners 2, Op_FnIn [''burn''], Op_Not, Op_All 2] = postfix t \<and>
     (\<forall>now inp. rpn_eval now \<lparr>rp_version = 1,
          rp_ops = [Op_MinSigners 2, Op_FnIn [''burn''], Op_Not, Op_All 2]\<rparr> inp = tree_value now inp t))"
proof -
  have "rpn_validate \<lparr>rp_version = 1, rp_ops = [Op_MinSigners 2, Op_FnIn [''burn''], Op_Not, Op_All 2]\<rparr> = Inr ()"
    by (simp add: rpn_validate_def PROGRAM_VERSION_def MAX_PROGRAM_LEN_def MAX_STACK_DEPTH_def)
  then show ?thesis using validated_program_is_tree by fastforce
qed

text \<open>
  Evaluation fails closed without relying on validation: a program whose stack simulation
  does not end at height one (an underflow, an overflow past \<open>MAX_STACK_DEPTH\<close>, a zero-arity
  composite, an empty program, or more than one result) evaluates to \<open>Unknown\<close>, which
  authorizes nothing.
\<close>

theorem malformed_program_unknown:
  assumes "validate_loop (rp_ops prog) 0 \<noteq> Inr 1"
  shows "rpn_eval now prog inp = VUnknown \<and> \<not> allows (rpn_eval now prog inp)"
proof -
  have "single_verdict (rpn_run (op_value now inp) (rp_ops prog) []) = VUnknown"
  proof (cases "rpn_run (op_value now inp) (rp_ops prog) []")
    case (Some st)
    then have "length st \<noteq> 1"
      using assms validate_loop_run [of "rp_ops prog" "[]" 1 "op_value now inp"] by auto
    then show ?thesis using Some by (simp add: single_verdict_length)
  qed (simp add: single_verdict_def)
  then show ?thesis by (simp add: rpn_eval_run allows_def)
qed

text \<open>An instance: a conjunction of two over a stack of one.\<close>

theorem malformed_program_unknown_witness:
  "validate_loop [Op_MinSigners 0, Op_All 2] 0 = Inl StackUnderflow \<and>
   rpn_eval 7 \<lparr>rp_version = 1, rp_ops = [Op_MinSigners 0, Op_All 2]\<rparr>
     \<lparr>ei_context = Ctx_CreateContractHostFn, ei_signer_count = 1, ei_self_addr = ContractId 1\<rparr> = VUnknown"
proof -
  have "validate_loop [Op_MinSigners 0, Op_All 2] 0 = Inl StackUnderflow"
    by (simp add: MAX_STACK_DEPTH_def)
  then show ?thesis
    using malformed_program_unknown [of "\<lparr>rp_version = 1, rp_ops = [Op_MinSigners 0, Op_All 2]\<rparr>"]
    by simp
qed

text \<open>
  C36. A decode failure can neither allow nor satisfy a negated guardrail: when some arguments
  of the call do not decode, or the context is not a contract call, the verdict is either
  unchanged or \<open>Unknown\<close>. So a program that authorizes the obscured call authorizes the
  original one, and one that denies the original never authorizes the obscured one. It holds for every op
  list, validated or not, with any nesting of \<open>Not\<close>.
\<close>

theorem decode_failure_never_helps:
  assumes "obscures inp' inp"
  shows "rpn_eval now prog inp' = VUnknown \<or> rpn_eval now prog inp' = rpn_eval now prog inp"
proof -
  have "rel_option (list_all2 info_le)
     (rpn_run (op_value now inp') (rp_ops prog) []) (rpn_run (op_value now inp) (rp_ops prog) [])"
    by (rule rpn_run_mono [OF assms]) simp
  then have "info_le (rpn_eval now prog inp') (rpn_eval now prog inp)"
    unfolding rpn_eval_run
    by (cases rule: option.rel_cases)
      (auto simp: single_verdict_def list_all2_Cons1 list_all2_Cons2 split: list.splits
        dest: list_all2_lengthD)
  then show ?thesis by (simp add: info_le_def)
qed

text \<open>Witness of C36: a negated guardrail whose argument has the wrong type.\<close>

theorem decode_failure_never_helps_witness:
  "obscures
     \<lparr>ei_context = Ctx_Contract \<lparr>cc_contract = ContractId 5, cc_fn_name = ''f'', cc_args = [V_Other 0]\<rparr>,
      ei_signer_count = 1, ei_self_addr = ContractId 1\<rparr>
     \<lparr>ei_context = Ctx_Contract \<lparr>cc_contract = ContractId 5, cc_fn_name = ''f'', cc_args = [V_U32 4]\<rparr>,
      ei_signer_count = 1, ei_self_addr = ContractId 1\<rparr> \<and>
   rpn_eval 7 \<lparr>rp_version = 1, rp_ops = [Op_ArgU32Eq 0 4, Op_Not]\<rparr>
     \<lparr>ei_context = Ctx_Contract \<lparr>cc_contract = ContractId 5, cc_fn_name = ''f'', cc_args = [V_Other 0]\<rparr>,
      ei_signer_count = 1, ei_self_addr = ContractId 1\<rparr> \<noteq> VTrue"
proof -
  let ?p = "\<lparr>rp_version = 1, rp_ops = [Op_ArgU32Eq 0 4, Op_Not]\<rparr>"
  let ?i' = "\<lparr>ei_context = Ctx_Contract \<lparr>cc_contract = ContractId 5, cc_fn_name = ''f'', cc_args = [V_Other 0]\<rparr>,
      ei_signer_count = 1, ei_self_addr = ContractId 1\<rparr>"
  let ?i = "\<lparr>ei_context = Ctx_Contract \<lparr>cc_contract = ContractId 5, cc_fn_name = ''f'', cc_args = [V_U32 4]\<rparr>,
      ei_signer_count = 1, ei_self_addr = ContractId 1\<rparr>"
  have o: "obscures ?i' ?i" by (simp add: obscures_def)
  have "rpn_eval 7 ?p ?i = VFalse"
    by (simp add: rpn_eval_def MAX_STACK_DEPTH_def arg_u32_eq_def arg_u32_def arg_val_def decoded_def
        verdict_of_bool_def nth_list_update)
  with o show ?thesis using decode_failure_never_helps [OF o, of 7 ?p] by auto
qed

text \<open>
  The string leaves mean what their names say, whatever the reused buffers hold: an
  \<open>ArgStrIn\<close> argument of at most 256 bytes is compared for membership (an over-long candidate
  never matches), an \<open>ArgStrPrefix\<close> prefix of at most 256 bytes is compared with the head of an
  argument of any length, and everything over the bound is \<open>Unknown\<close>.
\<close>

theorem string_leaves_spec:
  "arg_str_in inp i strs =
     (case arg_string (ei_context inp) i of
        None \<Rightarrow> VUnknown
      | Some s \<Rightarrow> if length s \<le> 256 then verdict_of_bool (s \<in> set strs) else VUnknown) \<and>
   arg_str_prefix inp i prefix =
     (case arg_string (ei_context inp) i of
        None \<Rightarrow> VUnknown
      | Some s \<Rightarrow> if length prefix \<le> 256
                 then verdict_of_bool (\<exists>rest. s = prefix @ rest) else VUnknown)"
  by (intro conjI arg_str_in_eq arg_str_prefix_eq)

end
