(* ===== verification/Interpreter.thy ===== *)
theory Interpreter
  imports Program
begin

text \<open>
  The interpreter contract (\<open>crates/perch-interpreter\<close>): one shared instance that stores an
  \<open>InstallParams\<close> per \<open>(account, rule)\<close> and, as an OpenZeppelin \<open>Policy\<close>, installs, removes and
  enforces it. The lemmas show tenant isolation, that an attachment is never replaced in
  place, that every stored program passed validation, and exactly when \<open>enforce\<close> returns.
\<close>

section \<open>State and entry points\<close>

definition DAY_IN_LEDGERS :: u32 where "DAY_IN_LEDGERS = 17280"
definition EXTEND_AMOUNT :: u32 where "EXTEND_AMOUNT = 30 * DAY_IN_LEDGERS"
definition TTL_THRESHOLD :: u32 where "TTL_THRESHOLD = EXTEND_AMOUNT - DAY_IN_LEDGERS"

datatype interp_error = Denied | NotInstalled | AlreadyInstalled | InvalidProgram

text \<open>\<open>DataKey::Program(account, rule id)\<close>.\<close>

type_synonym program_key = "address \<times> u32"

text \<open>
  Persistent storage: the entries, and for each the ledger it lives until. The host's
  \<open>extend_ttl\<close> is a parameter of the environment: threshold, amount and the present lifetime
  give the new one.
\<close>

record interp_state =
  programs :: "program_key \<rightharpoonup> install_params"
  live_until :: "program_key \<Rightarrow> u32"

record interp_env =
  ie_now :: u32
  ie_auth :: "address \<Rightarrow> bool"
  ie_extend_ttl :: "u32 \<Rightarrow> u32 \<Rightarrow> u32 \<Rightarrow> u32"

definition initial_interp :: interp_state where
  "initial_interp = \<lparr>programs = Map.empty, live_until = (\<lambda>_. 0)\<rparr>"

definition program_version :: u32 where
  "program_version = PROGRAM_VERSION"

definition get_program :: "interp_state \<Rightarrow> address \<Rightarrow> u32 \<Rightarrow> install_params option" where
  "get_program st smart_account context_rule_id = programs st (smart_account, context_rule_id)"

definition extend_program_ttl :: "interp_env \<Rightarrow> program_key \<Rightarrow> interp_state \<Rightarrow> interp_state" where
  "extend_program_ttl env key st =
     st\<lparr>live_until := (live_until st)
          (key := ie_extend_ttl env TTL_THRESHOLD EXTEND_AMOUNT (live_until st key))\<rparr>"

definition require_auth :: "interp_env \<Rightarrow> address \<Rightarrow> interp_error failure + unit" where
  "require_auth env a = require (ie_auth env a) Unauthorized"

definition interp_enforce :: "interp_env \<Rightarrow> interp_state \<Rightarrow> auth_context \<Rightarrow> signer list \<Rightarrow> u32 \<Rightarrow> address
    \<Rightarrow> interp_error failure + interp_state" where
  "interp_enforce env st ctx authenticated_signers rule_id smart_account =
     and_then (require_auth env smart_account) (\<lambda>_.
       if authenticated_signers = [] then Inl (Failed Denied)
       else let key = (smart_account, rule_id)
            in case programs st key of
                 None \<Rightarrow> Inl (Failed NotInstalled)
               | Some params \<Rightarrow>
                   let st' = extend_program_ttl env key st;
                       inputs = \<lparr>ei_context = ctx,
                                 ei_signer_count = word_of_nat (length authenticated_signers),
                                 ei_self_addr = smart_account\<rparr>
                   in if rpn_eval (ie_now env) (ip_program params) inputs \<noteq> VTrue
                      then Inl (Failed Denied)
                      else Inr st')"

definition interp_install :: "interp_env \<Rightarrow> interp_state \<Rightarrow> install_params \<Rightarrow> u32 \<Rightarrow> address
    \<Rightarrow> interp_error failure + interp_state" where
  "interp_install env st params rule_id smart_account =
     and_then (require_auth env smart_account) (\<lambda>_.
       let key = (smart_account, rule_id)
       in if programs st key \<noteq> None then Inl (Failed AlreadyInstalled)
          else case rpn_validate (ip_program params) of
                 Inl _ \<Rightarrow> Inl (Failed InvalidProgram)
               | Inr _ \<Rightarrow> Inr (extend_program_ttl env key (st\<lparr>programs := (programs st)(key \<mapsto> params)\<rparr>)))"

definition interp_uninstall :: "interp_env \<Rightarrow> interp_state \<Rightarrow> u32 \<Rightarrow> address
    \<Rightarrow> interp_error failure + interp_state" where
  "interp_uninstall env st rule_id smart_account =
     and_then (require_auth env smart_account) (\<lambda>_.
       let key = (smart_account, rule_id)
       in if programs st key = None then Inl (Failed NotInstalled)
          else Inr (st\<lparr>programs := (programs st)(key := None)\<rparr>))"

section \<open>Calls and reachable states\<close>

datatype interp_call =
    Call_install install_params u32 address
  | Call_uninstall u32 address
  | Call_enforce auth_context "signer list" u32 address

fun interp_exec :: "interp_env \<Rightarrow> interp_state \<Rightarrow> interp_call \<Rightarrow> interp_error failure + interp_state" where
  "interp_exec env st (Call_install p r a) = interp_install env st p r a"
| "interp_exec env st (Call_uninstall r a) = interp_uninstall env st r a"
| "interp_exec env st (Call_enforce c ss r a) = interp_enforce env st c ss r a"

fun call_key :: "interp_call \<Rightarrow> program_key" where
  "call_key (Call_install p r a) = (a, r)"
| "call_key (Call_uninstall r a) = (a, r)"
| "call_key (Call_enforce c ss r a) = (a, r)"

fun is_uninstall :: "interp_call \<Rightarrow> bool" where
  "is_uninstall (Call_uninstall r a) \<longleftrightarrow> True"
| "is_uninstall _ \<longleftrightarrow> False"

inductive interp_reachable :: "interp_state \<Rightarrow> bool" where
  reach_init: "interp_reachable initial_interp"
| reach_call: "interp_reachable st \<Longrightarrow> interp_exec env st c = Inr st' \<Longrightarrow> interp_reachable st'"

section \<open>Lemmas\<close>

lemma programs_extend [simp]: "programs (extend_program_ttl env key st) = programs st"
  by (simp add: extend_program_ttl_def)

lemmas interp_defs = interp_enforce_def interp_install_def interp_uninstall_def require_auth_def Let_def

lemma interp_enforce_Inr:
  "interp_enforce env st ctx ss r a = Inr st' \<longleftrightarrow>
     ie_auth env a \<and> ss \<noteq> [] \<and> st' = extend_program_ttl env (a, r) st \<and>
     (\<exists>params. programs st (a, r) = Some params \<and>
        rpn_eval (ie_now env) (ip_program params)
          \<lparr>ei_context = ctx, ei_signer_count = word_of_nat (length ss), ei_self_addr = a\<rparr> = VTrue)"
  by (auto simp: interp_defs and_then_eq_Inr split: option.splits if_splits)

lemma interp_install_Inr:
  "interp_install env st p r a = Inr st' \<longleftrightarrow>
     ie_auth env a \<and> programs st (a, r) = None \<and> rpn_validate (ip_program p) = Inr () \<and>
     st' = extend_program_ttl env (a, r) (st\<lparr>programs := (programs st)((a, r) \<mapsto> p)\<rparr>)"
  by (auto simp: interp_defs and_then_eq_Inr split: sum.splits if_splits)

lemma interp_uninstall_Inr:
  "interp_uninstall env st r a = Inr st' \<longleftrightarrow>
     ie_auth env a \<and> programs st (a, r) \<noteq> None \<and>
     st' = st\<lparr>programs := (programs st)((a, r) := None)\<rparr>"
  by (auto simp: interp_defs and_then_eq_Inr split: if_splits)

lemmas interp_Inr = interp_enforce_Inr interp_install_Inr interp_uninstall_Inr

interpretation interp_store: keyed_store interp_exec call_key programs "\<lambda>env k. ie_auth env (fst k)" is_uninstall
proof unfold_locales
  fix e s c s' and k :: program_key
  assume "interp_exec e s c = Inr s'" "k \<noteq> call_key c"
  then show "programs s' k = programs s k" by (cases c) (auto simp: interp_Inr)
next
  fix e s c s'
  assume "interp_exec e s c = Inr s'"
  then show "ie_auth e (fst (call_key c))" by (cases c) (auto simp: interp_Inr)
next
  fix e s c s' v
  assume "interp_exec e s c = Inr s'" "\<not> is_uninstall c" "programs s (call_key c) = Some v"
  then show "programs s' (call_key c) = Some v" by (cases c) (auto simp: interp_Inr)
qed

lemma reachable_programs_valid:
  "interp_reachable st \<Longrightarrow> programs st k = Some params \<Longrightarrow> rpn_validate (ip_program params) = Inr ()"
proof (induction arbitrary: params rule: interp_reachable.induct)
  case reach_init
  then show ?case by (simp add: initial_interp_def)
next
  case (reach_call st env c st')
  then show ?case by (cases c) (auto simp: interp_Inr split: if_splits)
qed

section \<open>Properties\<close>

text \<open>
  C1. In every state the contract can reach, \<open>enforce\<close> returns only when the account authorized
  the call, at least one signer authenticated, and the program stored for exactly this
  \<open>(account, rule)\<close> is a constraint tree whose Kleene value is \<open>True\<close> for this call, with the
  number of authenticated signers as the signer count. Nothing stored changes.
\<close>

theorem enforce_authorizes_only_true_trees:
  assumes "interp_reachable st" "interp_enforce env st ctx ss r a = Inr st'"
  shows "ie_auth env a \<and> ss \<noteq> [] \<and> programs st' = programs st \<and>
    (\<exists>params t. get_program st a r = Some params \<and> rp_ops (ip_program params) = postfix t \<and>
       tree_value (ie_now env)
         \<lparr>ei_context = ctx, ei_signer_count = word_of_nat (length ss), ei_self_addr = a\<rparr> t = VTrue)"
proof -
  obtain params where p: "programs st (a, r) = Some params"
    and v: "rpn_eval (ie_now env) (ip_program params)
      \<lparr>ei_context = ctx, ei_signer_count = word_of_nat (length ss), ei_self_addr = a\<rparr> = VTrue"
    and rest: "ie_auth env a" "ss \<noteq> []" "programs st' = programs st"
    using assms(2) by (auto simp: interp_enforce_Inr)
  obtain t where "rp_ops (ip_program params) = postfix t"
    "\<And>now inp. rpn_eval now (ip_program params) inp = tree_value now inp t"
    using validated_tree_ex [OF reachable_programs_valid [OF assms(1) p]] by auto
  with p v rest show ?thesis by (auto simp: get_program_def)
qed

text \<open>A program that asks for one signer, installed for rule 3 of one account.\<close>

definition demo_interp_env :: interp_env where
  "demo_interp_env = \<lparr>ie_now = 100, ie_auth = (\<lambda>a. a = ContractId 1), ie_extend_ttl = (\<lambda>_ amount _. 100 + amount)\<rparr>"

definition demo_params :: install_params where
  "demo_params = \<lparr>ip_program = \<lparr>rp_version = 1, rp_ops = [Op_MinSigners 1]\<rparr>, ip_doc_hash = 9\<rparr>"

definition demo_interp_state :: interp_state where
  "demo_interp_state = extend_program_ttl demo_interp_env (ContractId 1, 3)
     (initial_interp\<lparr>programs := [(ContractId 1, 3) \<mapsto> demo_params]\<rparr>)"

lemma demo_interp_install:
  "interp_install demo_interp_env initial_interp demo_params 3 (ContractId 1) = Inr demo_interp_state"
  by (simp add: interp_install_Inr demo_interp_state_def demo_interp_env_def demo_params_def
      initial_interp_def rpn_validate_def PROGRAM_VERSION_def MAX_PROGRAM_LEN_def MAX_STACK_DEPTH_def)

lemma demo_interp_reachable: "interp_reachable demo_interp_state"
  by (rule reach_call [OF reach_init, of demo_interp_env "Call_install demo_params 3 (ContractId 1)"])
    (simp add: demo_interp_install)

lemma demo_interp_enforce:
  "interp_enforce demo_interp_env demo_interp_state Ctx_CreateContractHostFn
     [Signer_Delegated (AccountId 8)] 3 (ContractId 1) =
   Inr (extend_program_ttl demo_interp_env (ContractId 1, 3) demo_interp_state)"
  by (simp add: interp_enforce_Inr demo_interp_state_def demo_params_def rpn_eval_def
      MAX_STACK_DEPTH_def min_signers_def verdict_of_bool_def demo_interp_env_def)

text \<open>Witness of C1: the call of the installed account, with one signer.\<close>

theorem enforce_authorizes_only_true_trees_witness:
  "\<exists>params t. get_program demo_interp_state (ContractId 1) 3 = Some params \<and>
     rp_ops (ip_program params) = postfix t \<and>
     tree_value 100 \<lparr>ei_context = Ctx_CreateContractHostFn, ei_signer_count = 1,
       ei_self_addr = ContractId 1\<rparr> t = VTrue"
  using enforce_authorizes_only_true_trees [OF demo_interp_reachable demo_interp_enforce]
  by (simp add: demo_interp_env_def)

text \<open>
  C18. Tenant isolation: over any sequence of calls, whoever makes them and whatever fails, the
  entry of an account changes only through a call that carries that account's authorization,
  and an attachment that is present stays the same unless an \<open>uninstall\<close> names its key: it is
  never swapped in place.
\<close>

theorem tenant_isolation:
  "((\<forall>(e, c) \<in> set cs. call_key c = (a, r) \<longrightarrow> \<not> ie_auth e a) \<longrightarrow>
      get_program (exec_all interp_exec cs st) a r = get_program st a r) \<and>
   ((\<forall>(e, c) \<in> set cs. is_uninstall c \<longrightarrow> call_key c \<noteq> (a, r)) \<longrightarrow> get_program st a r = Some p \<longrightarrow>
      get_program (exec_all interp_exec cs st) a r = Some p)"
  using interp_store.exec_all_unauthorized [of cs "(a, r)" st]
    interp_store.exec_all_keeps [of st "(a, r)" p cs]
  by (fastforce simp: get_program_def)

text \<open>Witness of C18: another account tries to replace the program of rule 3, and to drop it.\<close>

theorem tenant_isolation_witness:
  "get_program (exec_all interp_exec
     [(demo_interp_env, Call_install demo_params 3 (ContractId 1))] demo_interp_state)
     (ContractId 1) 3 = Some demo_params \<and>
   get_program (exec_all interp_exec
     [(demo_interp_env\<lparr>ie_auth := \<lambda>a. a = ContractId 2\<rparr>, Call_uninstall 3 (ContractId 1))] demo_interp_state)
     (ContractId 1) 3 = Some demo_params"
proof -
  have p: "get_program demo_interp_state (ContractId 1) 3 = Some demo_params"
    by (simp add: demo_interp_state_def get_program_def)
  let ?i = "[(demo_interp_env, Call_install demo_params 3 (ContractId 1))]"
  let ?u = "[(demo_interp_env\<lparr>ie_auth := \<lambda>a. a = ContractId 2\<rparr>, Call_uninstall 3 (ContractId 1))]"
  have i: "\<forall>(e, c) \<in> set ?i. is_uninstall c \<longrightarrow> call_key c \<noteq> (ContractId 1, 3)"
    and u: "\<forall>(e, c) \<in> set ?u. call_key c = (ContractId 1, 3) \<longrightarrow> \<not> ie_auth e (ContractId 1)"
    by simp_all
  have "get_program (exec_all interp_exec ?i demo_interp_state) (ContractId 1) 3 = Some demo_params"
    by (rule tenant_isolation [THEN conjunct2, THEN mp, THEN mp, OF i p])
  moreover have "get_program (exec_all interp_exec ?u demo_interp_state) (ContractId 1) 3 =
      get_program demo_interp_state (ContractId 1) 3"
    by (rule tenant_isolation [THEN conjunct1, THEN mp, OF u])
  ultimately show ?thesis by (simp add: p del: exec_all.simps)
qed

text \<open>
  Attaching and removing are inverse on the stored programs, and fail closed: \<open>install\<close>
  stores exactly the given parameters and only when the key is free and the program
  validates, \<open>uninstall\<close> then restores the previous entries, and after it \<open>enforce\<close> denies
  every call of that rule.
\<close>

theorem install_uninstall_roundtrip:
  assumes "interp_install env st params r a = Inr st1"
  shows "get_program st1 a r = Some params \<and> rpn_validate (ip_program params) = Inr () \<and>
    (\<exists>st2. interp_uninstall env st1 r a = Inr st2 \<and> programs st2 = programs st \<and>
       (\<forall>ctx ss. ss \<noteq> [] \<longrightarrow> interp_enforce env st2 ctx ss r a = Inl (Failed NotInstalled)) \<and>
       (\<forall>ctx. interp_enforce env st2 ctx [] r a = Inl (Failed Denied))) \<and>
    interp_install env st1 params' r a = Inl (Failed AlreadyInstalled)"
proof -
  have auth: "ie_auth env a" and free: "programs st (a, r) = None"
    and valid: "rpn_validate (ip_program params) = Inr ()"
    and st1: "programs st1 = (programs st)((a, r) \<mapsto> params)"
    using assms by (auto simp: interp_install_Inr)
  define st2 where "st2 = st1\<lparr>programs := (programs st1)((a, r) := None)\<rparr>"
  have un: "interp_uninstall env st1 r a = Inr st2"
    using auth st1 by (simp add: interp_uninstall_Inr st2_def)
  have gone: "programs st2 = programs st" using free st1 by (simp add: st2_def fun_upd_idem)
  have deny: "interp_enforce env st2 ctx ss r a = Inl (Failed (if ss = [] then Denied else NotInstalled))"
    for ctx ss
    using auth free gone by (simp add: interp_enforce_def require_auth_def)
  have "interp_install env st1 params' r a = Inl (Failed AlreadyInstalled)"
    using auth st1 by (simp add: interp_install_def require_auth_def)
  then show ?thesis using un gone deny valid st1 by (auto simp: get_program_def)
qed

text \<open>An instance: the attachment above, and a second one refused.\<close>

theorem install_uninstall_roundtrip_witness:
  "get_program demo_interp_state (ContractId 1) 3 = Some demo_params \<and>
   interp_install demo_interp_env demo_interp_state
     (demo_params\<lparr>ip_doc_hash := 10\<rparr>) 3 (ContractId 1) = Inl (Failed AlreadyInstalled)"
  using install_uninstall_roundtrip [OF demo_interp_install] by blast

end
