(* ===== verification/Ir_Doc.thy ===== *)
theory Ir_Doc
  imports Perch_Prelude
begin

text \<open>
  The policy document types of \<open>crates/perch-ir/src/doc.rs\<close>. A struct is a record; an enum is
  a datatype whose constructors carry the fields of the variant's payload struct. Strings are
  the bytes of the UTF-8 text.
\<close>

datatype signer_method =
    External (sm_verifier: string) (sm_key: string)
  | Delegated (sm_address: string)

record signer_decl =
  sd_id :: string
  sd_method :: signer_method

datatype scope =
    Scope_Contract (scope_address: string)
  | Scope_SelfAdmin

datatype principals =
    P_All "string list"
  | P_Threshold "string list" u32
  | P_SelfAuthenticating (sa_policy: string) (sa_install_param_hex: string) (sa_ack: string)

datatype arg_pred =
    IsSelf
  | AddressEq string
  | StringIn "string list"
  | StringPrefix string
  | U32Eq u32

record arg_constraint =
  ac_index :: u32
  ac_pred :: arg_pred

record cap_constraint =
  cap_token :: "string option"
  cap_limit :: string
  cap_period_ledgers :: u32

record rule =
  r_name :: string
  r_scope :: scope
  r_principals :: principals
  r_functions :: "string list option"
  r_args :: "arg_constraint list option"
  r_not_after_ledger :: "u32 option"
  r_cap :: "cap_constraint option"

datatype recovery_profile = Loss | Protected

record guardian_set =
  gs_guardians :: "string list"
  gs_quorum :: u32

record zk_factor =
  zk_adapter :: string
  zk_circuit_id :: string
  zk_pool :: string
  zk_enrollment_id :: string
  zk_commitment :: string

datatype recovery_mode =
    GuardianOnly guardian_set
  | ZkOnly zk_factor
  | Combined guardian_set zk_factor

record baseline_commitment =
  bc_doc_hash :: string

record recovery_config =
  rc_profile :: recovery_profile
  rc_mode :: recovery_mode
  rc_controller :: string
  rc_baseline :: "baseline_commitment option"
  rc_replaceable :: "string list"
  rc_delay_ledgers :: u32
  rc_expiry_ledgers :: u32
  rc_max_cancels :: u32

record policy_doc =
  d_version :: u32
  d_network :: "string option"
  d_signers :: "signer_decl list"
  d_rules :: "rule list"
  d_recovery :: "recovery_config option"

text \<open>The convenience constructors.\<close>

definition self_admin :: scope where "self_admin = Scope_SelfAdmin"
definition contract_scope :: "string \<Rightarrow> scope" where "contract_scope address = Scope_Contract address"
definition principals_all :: "string list \<Rightarrow> principals" where "principals_all ss = P_All ss"
definition principals_threshold :: "string list \<Rightarrow> u32 \<Rightarrow> principals" where
  "principals_threshold ss m = P_Threshold ss m"

text \<open>The parts of a recovery mode that are present.\<close>

fun mode_guardians :: "recovery_mode \<Rightarrow> guardian_set option" where
  "mode_guardians (GuardianOnly g) = Some g"
| "mode_guardians (ZkOnly z) = None"
| "mode_guardians (Combined g z) = Some g"

fun mode_zk :: "recovery_mode \<Rightarrow> zk_factor option" where
  "mode_zk (GuardianOnly g) = None"
| "mode_zk (ZkOnly z) = Some z"
| "mode_zk (Combined g z) = Some z"

end
