(* ===== verification/Ir_Validate.thy ===== *)
theory Ir_Validate
  imports Ir_Doc
begin

text \<open>
  Semantic validation of policy documents (\<open>crates/perch-ir/src/validate.rs\<close>). Each check of the
  source is a function that returns the violations it pushes, in order; \<open>validate\<close> concatenates
  them. The decoder of the \<open>hex\<close> crate is a parameter. The lemmas characterise the accepted
  documents by a declarative well-formedness predicate and show that the strkey check decodes
  base-32 as arithmetic does.
\<close>

section \<open>Constants and errors\<close>

definition ACK_SENTINEL :: string where
  "ACK_SENTINEL = ''this-policy-authenticates-or-anyone-can-fire-this-rule''"

definition MAX_SIGNER_KEY_LEN :: nat where "MAX_SIGNER_KEY_LEN = 256"
definition MAX_STRING_PRED_LEN :: nat where "MAX_STRING_PRED_LEN = 256"

datatype (plugins del: quickcheck_random quickcheck_exhaustive quickcheck_bounded_forall
    quickcheck_full_exhaustive quickcheck_narrowing size transfer lifting) validation_error =
    UnsupportedVersion u32
  | EmptySignerId nat
  | DuplicateSignerId string
  | DuplicateSignerKey string string
  | InvalidSignerKeyHex string
  | SignerKeyLength string nat
  | InvalidVerifierAddress string string
  | InvalidDelegatedAddress string string
  | EmptyRuleName nat
  | DuplicateRuleName string
  | InvalidContractAddress string string
  | EmptyPrincipalSigners string
  | DuplicatePrincipalSigner string string
  | UnknownSignerRef string string
  | InvalidThreshold string u32 u32
  | WrongAckSentinel string
  | InvalidPolicyAddress string string
  | InvalidInstallParamHex string
  | EmptyFunctions string
  | EmptyFunctionName string
  | DuplicateFunction string string
  | InvalidFunctionName string string
  | EmptyArgs string
  | DuplicateArgIndex string u32
  | EmptyStringInValues string u32
  | DuplicateStringInValue string u32 string
  | StringPredicateTooLong string u32 nat
  | InvalidArgAddress string u32 string
  | ZeroNotAfterLedger string
  | InvalidCapLimit string string
  | ZeroCapPeriod string
  | InvalidCapToken string string
  | CapWithoutToken string
  | CapTokenMismatch string string string
  | RuleScopedToRecoveryContract string string
  | EmptyRecoveryReplaceable
  | DuplicateRecoveryReplaceable string
  | UnknownRecoveryReplaceableRef string
  | ZeroRecoveryDelayLedgers
  | ZeroRecoveryExpiryLedgers
  | ZeroRecoveryMaxCancels
  | InvalidRecoveryController string
  | InvalidBaselineDocHash string
  | EmptyGuardianSet
  | DuplicateGuardian string
  | InvalidGuardianAddress string
  | InvalidGuardianQuorum u32 u32
  | InvalidRecoveryAdapter string
  | InvalidCircuitId string
  | InvalidEnrollmentId string
  | InvalidCommitment string
  | InvalidRecoveryPool string

section \<open>Lexical checks\<close>

definition is_valid_symbol :: "string \<Rightarrow> bool" where
  "is_valid_symbol s \<longleftrightarrow>
     1 \<le> length s \<and> length s \<le> 32 \<and>
     list_all (\<lambda>c. char_in (CHR ''a'') (CHR ''z'') c \<or> char_in (CHR ''A'') (CHR ''Z'') c \<or>
                   char_in (CHR ''0'') (CHR ''9'') c \<or> c = CHR ''_'') s"

definition is_sha256_hex :: "string \<Rightarrow> bool" where
  "is_sha256_hex s \<longleftrightarrow>
     length s = 64 \<and>
     list_all (\<lambda>c. char_in (CHR ''0'') (CHR ''9'') c \<or> char_in (CHR ''a'') (CHR ''f'') c) s"

text \<open>The digit of a base-32 character; \<open>None\<close> is the early \<open>return false\<close>.\<close>

definition base32_value :: "char \<Rightarrow> byte option" where
  "base32_value c =
     (if char_in (CHR ''A'') (CHR ''Z'') c then Some (word_of_nat (of_char c - of_char (CHR ''A'')))
      else if char_in (CHR ''2'') (CHR ''7'') c
      then Some (word_of_nat (of_char c - of_char (CHR ''2'') + 26))
      else None)"

text \<open>
  The decoding loop: the 32-bit shift register, the number of pending bits, and the bytes
  written so far (\<open>out\<close> is their number).
\<close>

fun base32_loop :: "string \<Rightarrow> u32 \<Rightarrow> nat \<Rightarrow> bytes \<Rightarrow> bytes option" where
  "base32_loop [] buf bits data = Some data"
| "base32_loop (c # cs) buf bits data =
     (case base32_value c of
        None \<Rightarrow> None
      | Some v \<Rightarrow>
          let buf = or (push_bit 5 buf) (ucast v);
              bits = bits + 5
          in if bits \<ge> 8
             then (if length data \<ge> 35 then None
                   else base32_loop cs buf (bits - 8) (data @ [ucast (drop_bit (bits - 8) buf)]))
             else base32_loop cs buf bits data)"

definition crc_bit :: "u16 \<Rightarrow> u16" where
  "crc_bit crc = (if and crc 0x8000 \<noteq> 0 then xor (push_bit 1 crc) 0x1021 else push_bit 1 crc)"

definition crc_byte :: "u16 \<Rightarrow> byte \<Rightarrow> u16" where
  "crc_byte crc b = (crc_bit ^^ 8) (xor crc (push_bit 8 (ucast b)))"

definition crc16 :: "bytes \<Rightarrow> u16" where
  "crc16 data = foldl crc_byte 0 data"

definition strkey_checksum_ok :: "string \<Rightarrow> bool" where
  "strkey_checksum_ok s =
     (if length s \<noteq> 56 then False
      else case base32_loop s 0 0 [] of
             None \<Rightarrow> False
           | Some data \<Rightarrow>
               if length data \<noteq> 35 then False
               else let want = or (ucast (data ! 33)) (push_bit 8 (ucast (data ! 34)))
                    in crc16 (take 33 data) = want)"

definition is_strkey_shape :: "string \<Rightarrow> char list \<Rightarrow> bool" where
  "is_strkey_shape s leads \<longleftrightarrow>
     length s = 56 \<and> s ! 0 \<in> set leads \<and>
     list_all (\<lambda>c. char_in (CHR ''A'') (CHR ''Z'') c \<or> char_in (CHR ''2'') (CHR ''7'') c) s \<and>
     strkey_checksum_ok s"

definition is_contract_address_shape :: "string \<Rightarrow> bool" where
  "is_contract_address_shape s = is_strkey_shape s ''C''"

definition is_address_shape :: "string \<Rightarrow> bool" where
  "is_address_shape s = is_strkey_shape s ''CG''"

section \<open>The checks\<close>

text \<open>The decoder of the \<open>hex\<close> crate: \<open>None\<close> for odd length or a character that is not hex.\<close>

type_synonym hex_decode = "string \<Rightarrow> bytes option"

text \<open>\<open>push_if c e\<close> is \<open>if c { errors.push(e) }\<close>.\<close>

definition push_if :: "bool \<Rightarrow> 'e \<Rightarrow> 'e list" where
  "push_if c e = (if c then [e] else [])"

text \<open>
  The method checks of one signer, with the maps from key material and from delegated address
  to the first id seen; both maps come back updated.
\<close>

type_synonym key_map = "(string \<times> bytes) \<rightharpoonup> string"
type_synonym delegated_map = "string \<rightharpoonup> string"

fun check_signer_method :: "hex_decode \<Rightarrow> string \<Rightarrow> signer_method \<Rightarrow> key_map \<Rightarrow> delegated_map
    \<Rightarrow> validation_error list \<times> key_map \<times> delegated_map" where
  "check_signer_method hexd sid (External verifier key) keys dels =
     (let (es, keys') =
        (case hexd key of
           None \<Rightarrow> ([InvalidSignerKeyHex sid], keys)
         | Some decoded \<Rightarrow>
             let es = push_if (decoded = [] \<or> length decoded > MAX_SIGNER_KEY_LEN)
                        (SignerKeyLength sid (length decoded))
             in case keys (verifier, decoded) of
                  Some first_id \<Rightarrow> (es @ [DuplicateSignerKey sid first_id], keys)
                | None \<Rightarrow> (es, keys((verifier, decoded) \<mapsto> sid)))
      in (es @ push_if (\<not> is_contract_address_shape verifier) (InvalidVerifierAddress sid verifier),
          keys', dels))"
| "check_signer_method hexd sid (Delegated address) keys dels =
     (let es = push_if (\<not> is_address_shape address) (InvalidDelegatedAddress sid address)
      in case dels address of
           Some first_id \<Rightarrow> (es @ [DuplicateSignerKey sid first_id], keys, dels)
         | None \<Rightarrow> (es, keys, dels(address \<mapsto> sid)))"

fun validate_signers :: "hex_decode \<Rightarrow> nat \<Rightarrow> string set \<Rightarrow> key_map \<Rightarrow> delegated_map
    \<Rightarrow> signer_decl list \<Rightarrow> validation_error list" where
  "validate_signers hexd position seen keys dels [] = []"
| "validate_signers hexd position seen keys dels (s # ss) =
     (let (es1, seen') =
        (if sd_id s = [] then ([EmptySignerId position], seen)
         else if sd_id s \<in> seen then ([DuplicateSignerId (sd_id s)], seen)
         else ([], insert (sd_id s) seen));
          (es2, keys', dels') = check_signer_method hexd (sd_id s) (sd_method s) keys dels
      in es1 @ es2 @ validate_signers hexd (position + 1) seen' keys' dels' ss)"

definition validate_principal_signers :: "string \<Rightarrow> string list \<Rightarrow> string set \<Rightarrow> validation_error list"
  where
  "validate_principal_signers rl signers declared =
     push_if (signers = []) (EmptyPrincipalSigners rl) @
     scan_seen (\<lambda>seen id. push_if (id \<in> seen) (DuplicatePrincipalSigner rl id) @
                          push_if (id \<notin> declared) (UnknownSignerRef rl id)) {} signers"

fun validate_principals :: "hex_decode \<Rightarrow> string \<Rightarrow> principals \<Rightarrow> string set \<Rightarrow> validation_error list" where
  "validate_principals hexd name (P_All signers) declared =
     validate_principal_signers name signers declared"
| "validate_principals hexd name (P_Threshold signers m) declared =
     validate_principal_signers name signers declared @
     push_if (m = 0 \<or> unat m > length signers)
       (InvalidThreshold name m (word_of_nat (length signers)))"
| "validate_principals hexd name (P_SelfAuthenticating policy param ack) declared =
     push_if (ack \<noteq> ACK_SENTINEL) (WrongAckSentinel name) @
     push_if (\<not> is_contract_address_shape policy) (InvalidPolicyAddress name policy) @
     push_if (hexd param = None) (InvalidInstallParamHex name)"

definition validate_functions :: "string \<Rightarrow> string list \<Rightarrow> validation_error list" where
  "validate_functions name functions =
     push_if (functions = []) (EmptyFunctions name) @
     scan_seen (\<lambda>seen func.
        (if func = [] then [EmptyFunctionName name]
         else push_if (\<not> is_valid_symbol func) (InvalidFunctionName name func)) @
        push_if (func \<in> seen) (DuplicateFunction name func)) {} functions"

fun validate_pred :: "string \<Rightarrow> u32 \<Rightarrow> arg_pred \<Rightarrow> validation_error list" where
  "validate_pred name index (StringIn values) =
     push_if (values = []) (EmptyStringInValues name index) @
     scan_seen (\<lambda>seen value. push_if (value \<in> seen) (DuplicateStringInValue name index value)) {} values"
| "validate_pred name index (StringPrefix prefix) =
     push_if (length prefix > MAX_STRING_PRED_LEN) (StringPredicateTooLong name index (length prefix))"
| "validate_pred name index (AddressEq address) =
     push_if (\<not> is_address_shape address) (InvalidArgAddress name index address)"
| "validate_pred name index IsSelf = []"
| "validate_pred name index (U32Eq value) = []"

fun validate_args_loop :: "string \<Rightarrow> u32 set \<Rightarrow> arg_constraint list \<Rightarrow> validation_error list" where
  "validate_args_loop name seen [] = []"
| "validate_args_loop name seen (a # as) =
     push_if (ac_index a \<in> seen) (DuplicateArgIndex name (ac_index a)) @
     validate_pred name (ac_index a) (ac_pred a) @
     validate_args_loop name (insert (ac_index a) seen) as"

definition validate_args :: "string \<Rightarrow> arg_constraint list \<Rightarrow> validation_error list" where
  "validate_args name args = push_if (args = []) (EmptyArgs name) @ validate_args_loop name {} args"

definition validate_cap :: "string \<Rightarrow> scope \<Rightarrow> cap_constraint \<Rightarrow> validation_error list" where
  "validate_cap name scp cap =
     push_if (case parse_i128 (cap_limit cap) of None \<Rightarrow> True | Some v \<Rightarrow> v \<le> 0)
       (InvalidCapLimit name (cap_limit cap)) @
     push_if (cap_period_ledgers cap = 0) (ZeroCapPeriod name) @
     (case scp of
        Scope_Contract address \<Rightarrow>
          (case cap_token cap of
             None \<Rightarrow> []
           | Some token \<Rightarrow>
               if \<not> is_contract_address_shape token then [InvalidCapToken name token]
               else push_if (token \<noteq> address) (CapTokenMismatch name token address))
      | Scope_SelfAdmin \<Rightarrow> [CapWithoutToken name])"

definition validate_rule :: "hex_decode \<Rightarrow> rule \<Rightarrow> string set \<Rightarrow> validation_error list" where
  "validate_rule hexd r declared =
     (let name = r_name r
      in (case r_scope r of
            Scope_Contract address \<Rightarrow>
              push_if (\<not> is_contract_address_shape address) (InvalidContractAddress name address)
          | Scope_SelfAdmin \<Rightarrow> []) @
         validate_principals hexd name (r_principals r) declared @
         (case r_functions r of None \<Rightarrow> [] | Some fs \<Rightarrow> validate_functions name fs) @
         (case r_args r of None \<Rightarrow> [] | Some as \<Rightarrow> validate_args name as) @
         push_if (r_not_after_ledger r = Some 0) (ZeroNotAfterLedger name) @
         (case r_cap r of None \<Rightarrow> [] | Some cap \<Rightarrow> validate_cap name (r_scope r) cap))"

fun validate_rules :: "hex_decode \<Rightarrow> string set \<Rightarrow> nat \<Rightarrow> string set \<Rightarrow> rule list \<Rightarrow> validation_error list"
  where
  "validate_rules hexd declared position seen [] = []"
| "validate_rules hexd declared position seen (r # rs) =
     (let (es, seen') =
        (if r_name r = [] then ([EmptyRuleName position], seen)
         else if r_name r \<in> seen then ([DuplicateRuleName (r_name r)], seen)
         else ([], insert (r_name r) seen))
      in es @ validate_rule hexd r declared @ validate_rules hexd declared (position + 1) seen' rs)"

definition validate_guardian_set :: "guardian_set \<Rightarrow> validation_error list" where
  "validate_guardian_set g =
     push_if (gs_guardians g = []) EmptyGuardianSet @
     scan_seen (\<lambda>seen addr. push_if (addr \<in> seen) (DuplicateGuardian addr) @
                            push_if (\<not> is_address_shape addr) (InvalidGuardianAddress addr))
       {} (gs_guardians g) @
     push_if (gs_quorum g = 0 \<or> unat (gs_quorum g) > length (gs_guardians g))
       (InvalidGuardianQuorum (gs_quorum g) (word_of_nat (length (gs_guardians g))))"

definition BN254_SCALAR_MODULUS_HEX :: string where
  "BN254_SCALAR_MODULUS_HEX =
     ''30644e72e131a029b85045b68181585d2833e84879b9709143e1f593f0000001''"

definition validate_zk_factor :: "zk_factor \<Rightarrow> validation_error list" where
  "validate_zk_factor z =
     push_if (\<not> is_contract_address_shape (zk_adapter z)) (InvalidRecoveryAdapter (zk_adapter z)) @
     push_if (\<not> is_sha256_hex (zk_circuit_id z)) (InvalidCircuitId (zk_circuit_id z)) @
     push_if (\<not> is_contract_address_shape (zk_pool z)) (InvalidRecoveryPool (zk_pool z)) @
     push_if (\<not> is_sha256_hex (zk_enrollment_id z)) (InvalidEnrollmentId (zk_enrollment_id z)) @
     push_if (\<not> is_sha256_hex (zk_commitment z) \<or> zk_commitment z \<ge> BN254_SCALAR_MODULUS_HEX)
       (InvalidCommitment (zk_commitment z))"

definition validate_recovery :: "recovery_config \<Rightarrow> string set \<Rightarrow> validation_error list" where
  "validate_recovery r declared =
     push_if (rc_replaceable r = []) EmptyRecoveryReplaceable @
     scan_seen (\<lambda>seen id. push_if (id \<in> seen) (DuplicateRecoveryReplaceable id) @
                          push_if (id \<notin> declared) (UnknownRecoveryReplaceableRef id))
       {} (rc_replaceable r) @
     push_if (rc_delay_ledgers r = 0) ZeroRecoveryDelayLedgers @
     push_if (rc_expiry_ledgers r = 0) ZeroRecoveryExpiryLedgers @
     push_if (rc_max_cancels r = 0) ZeroRecoveryMaxCancels @
     push_if (\<not> is_contract_address_shape (rc_controller r)) (InvalidRecoveryController (rc_controller r)) @
     (case rc_baseline r of
        None \<Rightarrow> []
      | Some b \<Rightarrow> push_if (\<not> is_sha256_hex (bc_doc_hash b)) (InvalidBaselineDocHash (bc_doc_hash b))) @
     (case rc_mode r of
        GuardianOnly g \<Rightarrow> validate_guardian_set g
      | ZkOnly z \<Rightarrow> validate_zk_factor z
      | Combined g z \<Rightarrow> validate_guardian_set g @ validate_zk_factor z)"

definition validate_rules_avoid_zk_contracts :: "policy_doc \<Rightarrow> recovery_config \<Rightarrow> validation_error list"
  where
  "validate_rules_avoid_zk_contracts doc r =
     (case mode_zk (rc_mode r) of
        None \<Rightarrow> []
      | Some zk \<Rightarrow>
          concat (map (\<lambda>rl. case r_scope rl of
                              Scope_Contract address \<Rightarrow>
                                push_if (address = zk_adapter zk \<or> address = zk_pool zk)
                                  (RuleScopedToRecoveryContract (r_name rl) address)
                            | Scope_SelfAdmin \<Rightarrow> []) (d_rules doc)))"

definition declared_ids :: "policy_doc \<Rightarrow> string set" where
  "declared_ids doc = set (map sd_id (d_signers doc))"

definition validation_errors :: "hex_decode \<Rightarrow> policy_doc \<Rightarrow> validation_error list" where
  "validation_errors hexd doc =
     push_if (d_version doc \<noteq> 1) (UnsupportedVersion (d_version doc)) @
     validate_signers hexd 0 {} Map.empty Map.empty (d_signers doc) @
     validate_rules hexd (declared_ids doc) 0 {} (d_rules doc) @
     (case d_recovery doc of
        None \<Rightarrow> []
      | Some r \<Rightarrow> validate_recovery r (declared_ids doc) @ validate_rules_avoid_zk_contracts doc r)"

definition validate :: "hex_decode \<Rightarrow> policy_doc \<Rightarrow> validation_error list + unit" where
  "validate hexd doc =
     (let errors = validation_errors hexd doc in if errors = [] then Inr () else Inl errors)"

section \<open>Well-formed documents\<close>

text \<open>What an author may rely on for an accepted document, check by check.\<close>

text \<open>The identity a signer authenticates as: verifier and key bytes, or the delegate's address.\<close>

fun signer_identity :: "hex_decode \<Rightarrow> signer_method \<Rightarrow> ((string \<times> bytes) + string) option" where
  "signer_identity hexd (External verifier key) = map_option (\<lambda>d. Inl (verifier, d)) (hexd key)"
| "signer_identity hexd (Delegated address) = Some (Inr address)"

fun wf_method :: "hex_decode \<Rightarrow> signer_method \<Rightarrow> bool" where
  "wf_method hexd (External verifier key) \<longleftrightarrow>
     is_contract_address_shape verifier \<and>
     (case hexd key of None \<Rightarrow> False | Some d \<Rightarrow> 1 \<le> length d \<and> length d \<le> MAX_SIGNER_KEY_LEN)"
| "wf_method hexd (Delegated address) \<longleftrightarrow> is_address_shape address"

definition wf_signers :: "hex_decode \<Rightarrow> signer_decl list \<Rightarrow> bool" where
  "wf_signers hexd ss \<longleftrightarrow>
     (\<forall>s \<in> set ss. sd_id s \<noteq> [] \<and> wf_method hexd (sd_method s)) \<and>
     distinct (map sd_id ss) \<and> distinct (map (signer_identity hexd \<circ> sd_method) ss)"

definition wf_signer_refs :: "string set \<Rightarrow> string list \<Rightarrow> bool" where
  "wf_signer_refs declared ids \<longleftrightarrow> ids \<noteq> [] \<and> distinct ids \<and> set ids \<subseteq> declared"

fun wf_principals :: "hex_decode \<Rightarrow> string set \<Rightarrow> principals \<Rightarrow> bool" where
  "wf_principals hexd declared (P_All ids) \<longleftrightarrow> wf_signer_refs declared ids"
| "wf_principals hexd declared (P_Threshold ids m) \<longleftrightarrow>
     wf_signer_refs declared ids \<and> 1 \<le> unat m \<and> unat m \<le> length ids"
| "wf_principals hexd declared (P_SelfAuthenticating policy param ack) \<longleftrightarrow>
     ack = ACK_SENTINEL \<and> is_contract_address_shape policy \<and> hexd param \<noteq> None"

fun wf_pred :: "arg_pred \<Rightarrow> bool" where
  "wf_pred (StringIn values) \<longleftrightarrow> values \<noteq> [] \<and> distinct values"
| "wf_pred (StringPrefix prefix) \<longleftrightarrow> length prefix \<le> MAX_STRING_PRED_LEN"
| "wf_pred (AddressEq address) \<longleftrightarrow> is_address_shape address"
| "wf_pred IsSelf \<longleftrightarrow> True"
| "wf_pred (U32Eq value) \<longleftrightarrow> True"

definition wf_cap :: "scope \<Rightarrow> cap_constraint \<Rightarrow> bool" where
  "wf_cap scp cap \<longleftrightarrow>
     (\<exists>v. parse_i128 (cap_limit cap) = Some v \<and> 0 < v) \<and> cap_period_ledgers cap \<noteq> 0 \<and>
     (\<exists>address. scp = Scope_Contract address \<and>
        (case cap_token cap of None \<Rightarrow> True | Some t \<Rightarrow> is_contract_address_shape t \<and> t = address))"

definition wf_rule :: "hex_decode \<Rightarrow> string set \<Rightarrow> rule \<Rightarrow> bool" where
  "wf_rule hexd declared r \<longleftrightarrow>
     (case r_scope r of Scope_Contract a \<Rightarrow> is_contract_address_shape a | Scope_SelfAdmin \<Rightarrow> True) \<and>
     wf_principals hexd declared (r_principals r) \<and>
     (case r_functions r of None \<Rightarrow> True
      | Some fs \<Rightarrow> fs \<noteq> [] \<and> distinct fs \<and> (\<forall>f \<in> set fs. is_valid_symbol f)) \<and>
     (case r_args r of None \<Rightarrow> True
      | Some as \<Rightarrow> as \<noteq> [] \<and> distinct (map ac_index as) \<and> (\<forall>a \<in> set as. wf_pred (ac_pred a))) \<and>
     r_not_after_ledger r \<noteq> Some 0 \<and>
     (case r_cap r of None \<Rightarrow> True | Some cap \<Rightarrow> wf_cap (r_scope r) cap)"

definition wf_guardian_set :: "guardian_set \<Rightarrow> bool" where
  "wf_guardian_set g \<longleftrightarrow>
     distinct (gs_guardians g) \<and> (\<forall>a \<in> set (gs_guardians g). is_address_shape a) \<and>
     1 \<le> unat (gs_quorum g) \<and> unat (gs_quorum g) \<le> length (gs_guardians g)"

definition wf_zk_factor :: "zk_factor \<Rightarrow> bool" where
  "wf_zk_factor z \<longleftrightarrow>
     is_contract_address_shape (zk_adapter z) \<and> is_contract_address_shape (zk_pool z) \<and>
     is_sha256_hex (zk_circuit_id z) \<and> is_sha256_hex (zk_enrollment_id z) \<and>
     is_sha256_hex (zk_commitment z) \<and> zk_commitment z < BN254_SCALAR_MODULUS_HEX"

definition wf_recovery :: "string set \<Rightarrow> recovery_config \<Rightarrow> bool" where
  "wf_recovery declared r \<longleftrightarrow>
     wf_signer_refs declared (rc_replaceable r) \<and>
     rc_delay_ledgers r \<noteq> 0 \<and> rc_expiry_ledgers r \<noteq> 0 \<and> rc_max_cancels r \<noteq> 0 \<and>
     is_contract_address_shape (rc_controller r) \<and>
     (case rc_baseline r of None \<Rightarrow> True | Some b \<Rightarrow> is_sha256_hex (bc_doc_hash b)) \<and>
     (case mode_guardians (rc_mode r) of None \<Rightarrow> True | Some g \<Rightarrow> wf_guardian_set g) \<and>
     (case mode_zk (rc_mode r) of None \<Rightarrow> True | Some z \<Rightarrow> wf_zk_factor z)"

definition well_formed :: "hex_decode \<Rightarrow> policy_doc \<Rightarrow> bool" where
  "well_formed hexd doc \<longleftrightarrow>
     d_version doc = 1 \<and> wf_signers hexd (d_signers doc) \<and>
     distinct (map r_name (d_rules doc)) \<and>
     (\<forall>r \<in> set (d_rules doc). r_name r \<noteq> [] \<and> wf_rule hexd (declared_ids doc) r) \<and>
     (case d_recovery doc of None \<Rightarrow> True
      | Some rec \<Rightarrow> wf_recovery (declared_ids doc) rec \<and>
          (case mode_zk (rc_mode rec) of None \<Rightarrow> True
           | Some z \<Rightarrow> \<forall>r \<in> set (d_rules doc).
               r_scope r \<noteq> Scope_Contract (zk_adapter z) \<and> r_scope r \<noteq> Scope_Contract (zk_pool z)))"

section \<open>Validation decides well-formedness\<close>

lemma push_if_Nil [simp]: "push_if c e = [] \<longleftrightarrow> \<not> c"
  by (simp add: push_if_def)

lemma scan_seen_push:
  "(\<And>seen x. f seen x = [] \<longleftrightarrow> x \<notin> seen \<and> P x) \<Longrightarrow>
   scan_seen f seen xs = [] \<longleftrightarrow> distinct xs \<and> seen \<inter> set xs = {} \<and> (\<forall>x \<in> set xs. P x)"
  by (induction xs arbitrary: seen) auto

text \<open>The identity as the two maps of the loop know it.\<close>

fun known :: "key_map \<Rightarrow> delegated_map \<Rightarrow> ((string \<times> bytes) + string) option \<Rightarrow> bool" where
  "known keys dels (Some (Inl kd)) \<longleftrightarrow> keys kd \<noteq> None"
| "known keys dels (Some (Inr a)) \<longleftrightarrow> dels a \<noteq> None"
| "known keys dels None \<longleftrightarrow> False"

lemma check_signer_method_Nil:
  assumes "check_signer_method hexd sid m keys dels = (es, keys', dels')"
  shows "es = [] \<longleftrightarrow> wf_method hexd m \<and> \<not> known keys dels (signer_identity hexd m)"
    and "es = [] \<Longrightarrow> known keys' dels' i \<longleftrightarrow> known keys dels i \<or> i = signer_identity hexd m"
  using assms
  by (cases m; cases "(keys, dels, i)" rule: known.cases;
    auto simp: Let_def Suc_le_eq not_less split: option.splits prod.splits if_splits)+

lemma validate_signers_Nil:
  "validate_signers hexd pos seen keys dels ss = [] \<longleftrightarrow>
     wf_signers hexd ss \<and> seen \<inter> set (map sd_id ss) = {} \<and>
     (\<forall>s \<in> set ss. \<not> known keys dels (signer_identity hexd (sd_method s)))"
proof (induction ss arbitrary: pos seen keys dels)
  case Nil
  then show ?case by (simp add: wf_signers_def)
next
  case (Cons s ss)
  obtain es keys' dels' where c: "check_signer_method hexd (sd_id s) (sd_method s) keys dels = (es, keys', dels')"
    by (metis prod_cases3)
  show ?case
  proof (cases "es = [] \<and> sd_id s \<noteq> [] \<and> sd_id s \<notin> seen")
    case True
    have "validate_signers hexd pos seen keys dels (s # ss) =
        validate_signers hexd (pos + 1) (insert (sd_id s) seen) keys' dels' ss"
      using c True by simp
    also have "\<dots> = [] \<longleftrightarrow> wf_signers hexd ss \<and> insert (sd_id s) seen \<inter> set (map sd_id ss) = {} \<and>
        (\<forall>t \<in> set ss. \<not> known keys' dels' (signer_identity hexd (sd_method t)))"
      by (rule Cons.IH)
    also have "(\<forall>t \<in> set ss. \<not> known keys' dels' (signer_identity hexd (sd_method t))) \<longleftrightarrow>
        (\<forall>t \<in> set ss. \<not> known keys dels (signer_identity hexd (sd_method t))) \<and>
        signer_identity hexd (sd_method s) \<notin> (signer_identity hexd \<circ> sd_method) ` set ss"
      using True check_signer_method_Nil(2) [OF c] by (auto simp: image_iff)
    finally have eq: "validate_signers hexd pos seen keys dels (s # ss) = [] \<longleftrightarrow>
        wf_signers hexd ss \<and> insert (sd_id s) seen \<inter> set (map sd_id ss) = {} \<and>
        (\<forall>t \<in> set ss. \<not> known keys dels (signer_identity hexd (sd_method t))) \<and>
        signer_identity hexd (sd_method s) \<notin> (signer_identity hexd \<circ> sd_method) ` set ss" .
    have "wf_method hexd (sd_method s) \<and> \<not> known keys dels (signer_identity hexd (sd_method s))"
      using True check_signer_method_Nil(1) [OF c] by simp
    then show ?thesis using True unfolding eq wf_signers_def by auto
  next
    case False
    then show ?thesis using c check_signer_method_Nil(1) [OF c]
      by (auto simp: wf_signers_def split: if_splits)
  qed
qed

lemma validate_principal_signers_Nil:
  "validate_principal_signers rl ids declared = [] \<longleftrightarrow> wf_signer_refs declared ids"
proof -
  have "scan_seen (\<lambda>seen id. push_if (id \<in> seen) (DuplicatePrincipalSigner rl id) @
      push_if (id \<notin> declared) (UnknownSignerRef rl id)) {} ids = [] \<longleftrightarrow>
      distinct ids \<and> {} \<inter> set ids = {} \<and> (\<forall>x \<in> set ids. x \<in> declared)"
    by (rule scan_seen_push) auto
  then show ?thesis by (auto simp: validate_principal_signers_def wf_signer_refs_def)
qed

lemma validate_principals_Nil:
  "validate_principals hexd name p declared = [] \<longleftrightarrow> wf_principals hexd declared p"
  by (cases p) (auto simp: validate_principal_signers_Nil Suc_le_eq not_less unat_gt_0 unat_eq_zero)

lemma validate_functions_Nil:
  "validate_functions name fs = [] \<longleftrightarrow> fs \<noteq> [] \<and> distinct fs \<and> (\<forall>f \<in> set fs. is_valid_symbol f)"
proof -
  have "scan_seen (\<lambda>seen func. (if func = [] then [EmptyFunctionName name]
         else push_if (\<not> is_valid_symbol func) (InvalidFunctionName name func)) @
        push_if (func \<in> seen) (DuplicateFunction name func)) {} fs = [] \<longleftrightarrow>
      distinct fs \<and> {} \<inter> set fs = {} \<and> (\<forall>f \<in> set fs. is_valid_symbol f)"
    by (rule scan_seen_push) (auto simp: is_valid_symbol_def)
  then show ?thesis by (auto simp: validate_functions_def)
qed

lemma validate_pred_Nil: "validate_pred name index p = [] \<longleftrightarrow> wf_pred p"
proof (cases p)
  case (StringIn strs)
  have "scan_seen (\<lambda>seen value. push_if (value \<in> seen) (DuplicateStringInValue name index value)) {} strs = []
      \<longleftrightarrow> distinct strs \<and> {} \<inter> set strs = {} \<and> (\<forall>x \<in> set strs. True)"
    by (rule scan_seen_push) auto
  then show ?thesis using StringIn by auto
qed auto

lemma validate_args_loop_Nil:
  "validate_args_loop name seen acs = [] \<longleftrightarrow>
     distinct (map ac_index acs) \<and> seen \<inter> ac_index ` set acs = {} \<and> (\<forall>a \<in> set acs. wf_pred (ac_pred a))"
  by (induction acs arbitrary: seen) (auto simp: validate_pred_Nil)

lemma validate_cap_Nil: "validate_cap name scp cap = [] \<longleftrightarrow> wf_cap scp cap"
  by (cases scp) (auto simp: validate_cap_def wf_cap_def split: option.splits)

lemma validate_rule_Nil: "validate_rule hexd r declared = [] \<longleftrightarrow> wf_rule hexd declared r"
  by (auto simp: validate_rule_def wf_rule_def Let_def validate_principals_Nil validate_functions_Nil
      validate_args_def validate_args_loop_Nil validate_cap_Nil split: option.splits scope.splits)

lemma validate_rules_Nil:
  "validate_rules hexd declared pos seen rs = [] \<longleftrightarrow>
     distinct (map r_name rs) \<and> seen \<inter> r_name ` set rs = {} \<and>
     (\<forall>r \<in> set rs. r_name r \<noteq> [] \<and> wf_rule hexd declared r)"
  by (induction rs arbitrary: pos seen) (auto simp: validate_rule_Nil)

lemma validate_guardian_set_Nil: "validate_guardian_set g = [] \<longleftrightarrow> wf_guardian_set g"
proof -
  have "scan_seen (\<lambda>seen addr. push_if (addr \<in> seen) (DuplicateGuardian addr) @
        push_if (\<not> is_address_shape addr) (InvalidGuardianAddress addr)) {} (gs_guardians g) = [] \<longleftrightarrow>
      distinct (gs_guardians g) \<and> {} \<inter> set (gs_guardians g) = {} \<and>
      (\<forall>a \<in> set (gs_guardians g). is_address_shape a)"
    by (rule scan_seen_push) auto
  then show ?thesis
    by (auto simp: validate_guardian_set_def wf_guardian_set_def Suc_le_eq not_less unat_gt_0 unat_eq_zero)
qed

lemma validate_zk_factor_Nil: "validate_zk_factor z = [] \<longleftrightarrow> wf_zk_factor z"
  by (auto simp: validate_zk_factor_def wf_zk_factor_def)

lemma validate_recovery_Nil: "validate_recovery r declared = [] \<longleftrightarrow> wf_recovery declared r"
proof -
  have "scan_seen (\<lambda>seen id. push_if (id \<in> seen) (DuplicateRecoveryReplaceable id) @
        push_if (id \<notin> declared) (UnknownRecoveryReplaceableRef id)) {} (rc_replaceable r) = [] \<longleftrightarrow>
      distinct (rc_replaceable r) \<and> {} \<inter> set (rc_replaceable r) = {} \<and>
      (\<forall>x \<in> set (rc_replaceable r). x \<in> declared)"
    by (rule scan_seen_push) auto
  then show ?thesis
    by (cases "rc_mode r")
      (auto simp: validate_recovery_def wf_recovery_def wf_signer_refs_def validate_guardian_set_Nil
        validate_zk_factor_Nil split: option.splits)
qed

lemma validate_avoid_Nil:
  "validate_rules_avoid_zk_contracts doc r = [] \<longleftrightarrow>
     (case mode_zk (rc_mode r) of None \<Rightarrow> True
      | Some z \<Rightarrow> \<forall>rl \<in> set (d_rules doc).
          r_scope rl \<noteq> Scope_Contract (zk_adapter z) \<and> r_scope rl \<noteq> Scope_Contract (zk_pool z))"
  by (cases "mode_zk (rc_mode r)")
    (auto simp: validate_rules_avoid_zk_contracts_def split: scope.splits)

lemma validation_errors_Nil: "validation_errors hexd doc = [] \<longleftrightarrow> well_formed hexd doc"
proof -
  have "\<not> known Map.empty Map.empty i" for i
    by (cases "(Map.empty :: key_map, Map.empty :: delegated_map, i)" rule: known.cases) auto
  then show ?thesis
    by (auto simp: validation_errors_def well_formed_def validate_signers_Nil validate_rules_Nil
        validate_recovery_Nil validate_avoid_Nil split: option.splits)
qed

section \<open>Base-32\<close>

text \<open>The number that a base-32 text denotes.\<close>

fun base32_number :: "string \<Rightarrow> nat \<Rightarrow> nat" where
  "base32_number [] n = n"
| "base32_number (c # cs) n =
     base32_number cs (32 * n + (case base32_value c of Some v \<Rightarrow> unat v | None \<Rightarrow> 0))"

lemma base32_value_unat:
  assumes "base32_value c = Some v"
  shows "unat v < 32" "of_char c = (if unat v < 26 then unat v + 65 else unat v + 24 :: nat)"
proof -
  define n :: nat where "n = of_char c"
  have b: "base32_value c = (if 65 \<le> n \<and> n \<le> 90 then Some (word_of_nat (n - 65))
      else if 50 \<le> n \<and> n \<le> 55 then Some (word_of_nat (n - 50 + 26)) else None)"
    by (simp add: base32_value_def char_in_def n_def less_eq_char_def del: of_nat_diff of_nat_add)
  consider "65 \<le> n" "n \<le> 90" "v = word_of_nat (n - 65)"
    | "50 \<le> n" "n \<le> 55" "v = word_of_nat (n - 50 + 26)"
    using assms unfolding b by (simp del: of_nat_diff of_nat_add split: if_splits)
  then have "unat v < 32 \<and> n = (if unat v < 26 then unat v + 65 else unat v + 24)"
  proof cases
    case 1
    then have "unat v = n - 65" by (simp add: unat_of_nat del: of_nat_diff)
    then show ?thesis using 1(1,2) by simp
  next
    case 2
    then have "unat v = n - 50 + 26" by (simp add: unat_of_nat del: of_nat_diff of_nat_add)
    then show ?thesis using 2(1,2) by auto
  qed
  then show "unat v < 32" "of_char c = (if unat v < 26 then unat v + 65 else unat v + 24 :: nat)"
    by (simp_all add: n_def)
qed

lemma shift_in_digit:
  fixes v :: byte
  assumes "unat v < 32"
  shows "or (push_bit 5 (word_of_nat n :: u32)) (ucast v) = word_of_nat (32 * n + unat v)"
proof -
  have "and (push_bit 5 (word_of_nat n :: u32)) (ucast v) = 0"
  proof (rule bit_word_eqI)
    fix i assume "i < LENGTH(32)"
    have "\<not> bit v i" if "5 \<le> i"
    proof -
      have "unat v < 2 ^ i" using assms that power_increasing [of 5 i "2::nat"] by simp
      then show ?thesis using bit_unsigned_iff [where 'a = nat, of v i] by (simp add: bit_iff_odd)
    qed
    then show "bit (and (push_bit 5 (word_of_nat n :: u32)) (ucast v)) i = bit (0 :: u32) i"
      by (auto simp: bit_simps)
  qed
  then have "or (push_bit 5 (word_of_nat n :: u32)) (ucast v) = push_bit 5 (word_of_nat n) + ucast v"
    by (simp add: disjunctive_add_eq_or)
  also have "\<dots> = word_of_nat (32 * n + unat v)"
    by (simp add: push_bit_eq_mult unsigned_ucast_eq)
  finally show ?thesis .
qed

lemma take_byte:
  assumes "k \<le> 24"
  shows "(ucast (drop_bit k (word_of_nat n :: u32)) :: byte) = word_of_nat (n div 2 ^ k)"
proof (rule bit_word_eqI)
  fix i assume "i < LENGTH(8)"
  then have "k + i < 32" "i < 8" using assms by auto
  then show "bit (ucast (drop_bit k (word_of_nat n :: u32)) :: byte) i = bit (word_of_nat (n div 2 ^ k) :: byte) i"
    by (simp add: bit_ucast_iff bit_drop_bit_eq bit_of_nat_iff flip: drop_bit_eq_div)
qed

text \<open>
  The loop invariant: the register holds the number read so far modulo its width, and the bytes
  written are that number without the pending bits.
\<close>

lemma base32_loop_spec:
  assumes "base32_loop cs (word_of_nat n) bits data = Some out"
    and "bits < 8" "bytes_number data 0 = n div 2 ^ bits"
  shows "\<exists>bits' < 8. bytes_number out 0 = base32_number cs n div 2 ^ bits' \<and>
           8 * length data + bits + 5 * length cs = 8 * length out + bits'"
  using assms
proof (induction cs arbitrary: n bits data)
  case Nil
  then show ?case by auto
next
  case (Cons c cs)
  obtain v where v: "base32_value c = Some v" using Cons.prems(1) by (auto split: option.splits)
  define m where "m = 32 * n + unat v"
  have v32: "unat v < 32" using base32_value_unat(1) [OF v] .
  have reg: "or (push_bit 5 (word_of_nat n :: u32)) (ucast v) = word_of_nat m"
    unfolding m_def by (rule shift_in_digit [OF v32])
  have num: "base32_number (c # cs) n = base32_number cs m" using v by (simp add: m_def)
  have hi: "m div 2 ^ (bits + 5) = n div 2 ^ bits"
  proof -
    have "m div 2 ^ (bits + 5) = m div 32 div 2 ^ bits"
      by (simp add: power_add mult.commute flip: div_mult2_eq)
    also have "m div 32 = n" using v32 by (simp add: m_def)
    finally show ?thesis .
  qed
  show ?case
  proof (cases "bits + 5 \<ge> 8")
    case False
    then have loop: "base32_loop cs (word_of_nat m) (bits + 5) data = Some out"
      using Cons.prems(1) v reg by (simp add: Let_def)
    have "\<exists>bits' < 8. bytes_number out 0 = base32_number cs m div 2 ^ bits' \<and>
        8 * length data + (bits + 5) + 5 * length cs = 8 * length out + bits'"
      by (rule Cons.IH [OF loop]) (use False Cons.prems(3) hi in auto)
    then show ?thesis using num by auto
  next
    case True
    define k where "k = bits + 5 - 8"
    have k: "k < 8" "bits + 5 = k + 8" using True Cons.prems(2) by (auto simp: k_def)
    define b :: byte where "b = ucast (drop_bit k (word_of_nat m :: u32))"
    have loop: "base32_loop cs (word_of_nat m) k (data @ [b]) = Some out"
      using Cons.prems(1) v reg True by (simp add: Let_def k_def b_def split: if_splits)
    have b: "unat b = m div 2 ^ k mod 256"
      using k unfolding b_def by (simp add: take_byte unat_of_nat)
    have "m div 2 ^ k div 256 = n div 2 ^ bits"
      using hi k(2) by (simp add: power_add div_mult2_eq)
    then have "bytes_number (data @ [b]) 0 = m div 2 ^ k"
      using Cons.prems(3) b mult_div_mod_eq [of 256 "m div 2 ^ k"] by (simp add: bytes_number_snoc)
    then have "\<exists>bits' < 8. bytes_number out 0 = base32_number cs m div 2 ^ bits' \<and>
        8 * length (data @ [b]) + k + 5 * length cs = 8 * length out + bits'"
      by (intro Cons.IH [OF loop] k(1))
    then show ?thesis using num k(2) by auto
  qed
qed

lemma base32_56:
  assumes "base32_loop s 0 0 [] = Some data" "length s = 56"
  shows "length data = 35 \<and> bytes_number data 0 = base32_number s 0"
proof -
  obtain bits' where "bits' < 8" "bytes_number data 0 = base32_number s 0 div 2 ^ bits'"
    "5 * length s = 8 * length data + bits'"
    using base32_loop_spec [of s 0 0 "[]" data] assms(1) by auto
  moreover have "b < 8 \<Longrightarrow> 280 = 8 * l + b \<Longrightarrow> b = 0" for b l :: nat by presburger
  from this [of bits' "length data"] have "bits' = 0" using calculation assms(2) by simp
  ultimately show ?thesis using assms(2) by simp
qed

lemma base32_number_inject:
  assumes "length s = length t" "base32_number s m = base32_number t n"
    and "\<forall>c \<in> set s. base32_value c \<noteq> None" "\<forall>c \<in> set t. base32_value c \<noteq> None"
  shows "m = n \<and> map base32_value s = map base32_value t"
  using assms
proof (induction s t arbitrary: m n rule: list_induct2)
  case Nil
  then show ?case by simp
next
  case (Cons c s d t)
  obtain v w where vw: "base32_value c = Some v" "base32_value d = Some w" using Cons.prems by auto
  have lt: "unat v < 32" "unat w < 32" using vw base32_value_unat(1) by blast+
  have "32 * m + unat v = 32 * n + unat w" and rest: "map base32_value s = map base32_value t"
    using Cons.IH [of "32 * m + unat v" "32 * n + unat w"] Cons.prems vw by auto
  then have "m = n" "unat v = unat w" using lt by presburger+
  then show ?case using rest vw by (simp add: word_unat_eq_iff)
qed

lemma base32_value_inject:
  assumes "base32_value c = Some v" "base32_value d = Some v"
  shows "c = d"
proof -
  have "(of_char c :: nat) = of_char d"
    using base32_value_unat(2) [OF assms(1)] base32_value_unat(2) [OF assms(2)] by simp
  then show ?thesis by simp
qed

section \<open>Properties\<close>

text \<open>
  C21. \<open>validate\<close> accepts exactly the well-formed documents: version 1, distinct non-empty signer
  ids, no two signers with the same key material or delegate, well-formed rules with distinct
  names (declared and distinct principals, a quorum between one and the number of signers, the
  acknowledgement sentinel, valid symbols, distinct argument indices, satisfiable predicates, a
  positive cap metering the scope contract), a well-formed recovery member, and no rule scoped
  to the recovery contracts. A refusal always lists at least one violation.
\<close>

theorem validate_decides_well_formed:
  "(case validate hexd doc of
      Inr _ \<Rightarrow> well_formed hexd doc
    | Inl errors \<Rightarrow> errors \<noteq> [] \<and> \<not> well_formed hexd doc)"
  by (simp add: validate_def Let_def validation_errors_Nil)

text \<open>
  The strkey check decodes base-32 as arithmetic does, in spite of the 32-bit register that
  drops its high bits: the 35 bytes of an accepted address denote the number its 56 characters
  denote, the last two are the CRC-16 of the first 33, and no two accepted addresses decode to
  the same bytes.
\<close>

theorem strkey_decode_faithful:
  assumes "is_strkey_shape s leads" "is_strkey_shape t leads'"
  shows "\<exists>data. base32_loop s 0 0 [] = Some data \<and> length data = 35 \<and>
           bytes_number data 0 = base32_number s 0 \<and>
           crc16 (take 33 data) = or (ucast (data ! 33)) (push_bit 8 (ucast (data ! 34))) \<and>
           (base32_loop t 0 0 [] = Some data \<longrightarrow> s = t)"
proof -
  have *: "length x = 56" "\<forall>c \<in> set x. base32_value c \<noteq> None"
    if "is_strkey_shape x l" for x l
    using that by (auto simp: is_strkey_shape_def base32_value_def list_all_iff)
  obtain data where d: "base32_loop s 0 0 [] = Some data"
    and crc: "crc16 (take 33 data) = or (ucast (data ! 33)) (push_bit 8 (ucast (data ! 34)))"
    using assms(1) by (auto simp: is_strkey_shape_def strkey_checksum_ok_def Let_def split: option.splits if_splits)
  have len: "length data = 35" "bytes_number data 0 = base32_number s 0"
    using base32_56 [OF d] * [OF assms(1)] by auto
  have "s = t" if t: "base32_loop t 0 0 [] = Some data"
  proof -
    have "base32_number s 0 = base32_number t 0"
      using len base32_56 [OF t] * [OF assms(2)] by simp
    then have eq: "map base32_value s = map base32_value t"
      using base32_number_inject [of s t 0 0] * [OF assms(1)] * [OF assms(2)] by simp
    show ?thesis
    proof (rule nth_equalityI)
      show "length s = length t" using * [OF assms(1)] * [OF assms(2)] by simp
      fix i assume i: "i < length s"
      obtain v where "base32_value (s ! i) = Some v" using * [OF assms(1)] i by (meson nth_mem not_None_eq)
      moreover have "base32_value (t ! i) = base32_value (s ! i)"
        using eq i \<open>length s = length t\<close> by (metis nth_map)
      ultimately show "s ! i = t ! i" by (metis base32_value_inject)
    qed
  qed
  then show ?thesis using d len crc by auto
qed

text \<open>Evaluation of the strkey check on literals.\<close>

lemma crc_byte_unfold:
  "crc_byte crc b = crc_bit (crc_bit (crc_bit (crc_bit (crc_bit (crc_bit (crc_bit (crc_bit
     (xor crc (push_bit 8 (ucast b))))))))))"
  by (simp add: crc_byte_def numeral_eq_Suc)

lemmas strkey_eval = is_contract_address_shape_def is_address_shape_def is_strkey_shape_def
  strkey_checksum_ok_def crc16_def crc_byte_unfold crc_bit_def base32_value_def char_in_def
  less_eq_char_def Let_def

lemma demo_addresses:
  "is_contract_address_shape ''CAAAAAAAAAAAAAAAAAAAAAAAAAAAAAAAAAAAAAAAAAAAAAAAAAAAD2KM''"
  "is_contract_address_shape ''CA7QYNF7SOWQ3GLR2BGMZEHXAVIRZA4KVWLTJJFC7MGXUA74P7UJUWDA''"
  "is_address_shape ''GAAAAAAAAAAAAAAAAAAAAAAAAAAAAAAAAAAAAAAAAAAAAAAAAAAAAWHF''"
  by (simp_all add: strkey_eval)

text \<open>An instance: two contract addresses.\<close>

theorem strkey_decode_faithful_witness:
  "\<exists>data. base32_loop ''CAAAAAAAAAAAAAAAAAAAAAAAAAAAAAAAAAAAAAAAAAAAAAAAAAAAD2KM'' 0 0 [] = Some data \<and>
     length data = 35 \<and>
     base32_loop ''CA7QYNF7SOWQ3GLR2BGMZEHXAVIRZA4KVWLTJJFC7MGXUA74P7UJUWDA'' 0 0 [] \<noteq> Some data"
  using strkey_decode_faithful
    [OF demo_addresses(1) [unfolded is_contract_address_shape_def]
        demo_addresses(2) [unfolded is_contract_address_shape_def]] by fastforce

end
