(* ===== verification/Ir_Canon.thy ===== *)
theory Ir_Canon
  imports Ir_Doc
begin

text \<open>
  Canonical JSON and the document, rule and configuration hashes
  (\<open>crates/perch-ir/src/canon.rs\<close>). The document is walked into a value tree whose objects list
  their members in source order; the writer sorts them and emits the bytes. Keys are ASCII, where
  the UTF-16 code units of a key are its bytes. SHA-256 is a parameter of the hashes.

  The lemmas show that the writer is injective up to the order of members: it is a prefix code.
\<close>

section \<open>Canonical values\<close>

datatype cv =
    Cv_Str string
  | Cv_U32 u32
  | Cv_Arr "cv list"
  | Cv_Obj "(string \<times> cv) list"

definition str_arr :: "string list \<Rightarrow> cv" where
  "str_arr ss = Cv_Arr (map Cv_Str ss)"

text \<open>\<open>opt_member k f x\<close>: \<open>if let Some(v) = x { o.push((k, f(v))) }\<close>.\<close>

definition opt_member :: "string \<Rightarrow> ('a \<Rightarrow> cv) \<Rightarrow> 'a option \<Rightarrow> (string \<times> cv) list" where
  "opt_member k f x = (case x of None \<Rightarrow> [] | Some v \<Rightarrow> [(k, f v)])"

fun recovery_profile_str :: "recovery_profile \<Rightarrow> string" where
  "recovery_profile_str Loss = ''loss''"
| "recovery_profile_str Protected = ''protected''"

definition guardian_fields :: "guardian_set \<Rightarrow> (string \<times> cv) list" where
  "guardian_fields g = [(''guardians'', str_arr (gs_guardians g)), (''quorum'', Cv_U32 (gs_quorum g))]"

definition zk_fields :: "zk_factor \<Rightarrow> (string \<times> cv) list" where
  "zk_fields z =
     [(''adapter'', Cv_Str (zk_adapter z)),
      (''circuit-id'', Cv_Str (zk_circuit_id z)),
      (''pool'', Cv_Str (zk_pool z)),
      (''enrollment-id'', Cv_Str (zk_enrollment_id z)),
      (''commitment'', Cv_Str (zk_commitment z))]"

fun recovery_mode_to_cv :: "recovery_mode \<Rightarrow> cv" where
  "recovery_mode_to_cv (GuardianOnly g) =
     Cv_Obj ((''type'', Cv_Str ''guardian-only'') # guardian_fields g)"
| "recovery_mode_to_cv (ZkOnly z) = Cv_Obj ((''type'', Cv_Str ''zk-only'') # zk_fields z)"
| "recovery_mode_to_cv (Combined g z) =
     Cv_Obj ((''type'', Cv_Str ''combined'') # guardian_fields g @ zk_fields z)"

definition recovery_to_cv :: "recovery_config \<Rightarrow> cv" where
  "recovery_to_cv r = Cv_Obj (
     [(''profile'', Cv_Str (recovery_profile_str (rc_profile r))),
      (''mode'', recovery_mode_to_cv (rc_mode r)),
      (''controller'', Cv_Str (rc_controller r))] @
     opt_member ''baseline'' (\<lambda>b. Cv_Obj [(''doc-hash'', Cv_Str (bc_doc_hash b))]) (rc_baseline r) @
     [(''replaceable'', str_arr (rc_replaceable r)),
      (''delay-ledgers'', Cv_U32 (rc_delay_ledgers r)),
      (''expiry-ledgers'', Cv_U32 (rc_expiry_ledgers r)),
      (''max-cancels'', Cv_U32 (rc_max_cancels r))])"

definition signer_to_cv :: "signer_decl \<Rightarrow> cv" where
  "signer_to_cv s =
     (case sd_method s of
        External verifier key \<Rightarrow>
          Cv_Obj [(''id'', Cv_Str (sd_id s)), (''verifier'', Cv_Str verifier), (''key'', Cv_Str key)]
      | Delegated address \<Rightarrow> Cv_Obj [(''id'', Cv_Str (sd_id s)), (''address'', Cv_Str address)])"

fun scope_to_cv :: "scope \<Rightarrow> cv" where
  "scope_to_cv (Scope_Contract address) =
     Cv_Obj [(''type'', Cv_Str ''contract''), (''address'', Cv_Str address)]"
| "scope_to_cv Scope_SelfAdmin = Cv_Obj [(''type'', Cv_Str ''self-admin'')]"

fun principals_to_cv :: "principals \<Rightarrow> cv" where
  "principals_to_cv (P_All signers) =
     Cv_Obj [(''type'', Cv_Str ''all''), (''signers'', str_arr signers)]"
| "principals_to_cv (P_Threshold signers m) =
     Cv_Obj [(''type'', Cv_Str ''threshold''), (''signers'', str_arr signers), (''m'', Cv_U32 m)]"
| "principals_to_cv (P_SelfAuthenticating policy param ack) =
     Cv_Obj [(''type'', Cv_Str ''self-authenticating''), (''policy'', Cv_Str policy),
             (''install-param-hex'', Cv_Str param), (''ack'', Cv_Str ack)]"

fun pred_to_cv :: "arg_pred \<Rightarrow> cv" where
  "pred_to_cv IsSelf = Cv_Obj [(''type'', Cv_Str ''is-self'')]"
| "pred_to_cv (AddressEq address) =
     Cv_Obj [(''type'', Cv_Str ''address-eq''), (''address'', Cv_Str address)]"
| "pred_to_cv (StringIn strs) =
     Cv_Obj [(''type'', Cv_Str ''string-in''), (''values'', str_arr strs)]"
| "pred_to_cv (StringPrefix prefix) =
     Cv_Obj [(''type'', Cv_Str ''string-prefix''), (''prefix'', Cv_Str prefix)]"
| "pred_to_cv (U32Eq value) = Cv_Obj [(''type'', Cv_Str ''u32-eq''), (''value'', Cv_U32 value)]"

definition arg_constraint_to_cv :: "arg_constraint \<Rightarrow> cv" where
  "arg_constraint_to_cv a =
     Cv_Obj [(''index'', Cv_U32 (ac_index a)), (''pred'', pred_to_cv (ac_pred a))]"

definition cap_to_cv :: "cap_constraint \<Rightarrow> cv" where
  "cap_to_cv cap = Cv_Obj (
     opt_member ''token'' Cv_Str (cap_token cap) @
     [(''limit'', Cv_Str (cap_limit cap)), (''period-ledgers'', Cv_U32 (cap_period_ledgers cap))])"

definition rule_to_cv :: "rule \<Rightarrow> cv" where
  "rule_to_cv r = Cv_Obj (
     [(''name'', Cv_Str (r_name r)),
      (''scope'', scope_to_cv (r_scope r)),
      (''principals'', principals_to_cv (r_principals r))] @
     opt_member ''functions'' str_arr (r_functions r) @
     opt_member ''args'' (\<lambda>args. Cv_Arr (map arg_constraint_to_cv args)) (r_args r) @
     opt_member ''not-after-ledger'' Cv_U32 (r_not_after_ledger r) @
     opt_member ''cap'' cap_to_cv (r_cap r))"

definition doc_to_cv :: "policy_doc \<Rightarrow> cv" where
  "doc_to_cv d = Cv_Obj (
     [(''version'', Cv_U32 (d_version d))] @
     opt_member ''network'' Cv_Str (d_network d) @
     [(''signers'', Cv_Arr (map signer_to_cv (d_signers d))),
      (''rules'', Cv_Arr (map rule_to_cv (d_rules d)))] @
     opt_member ''recovery'' recovery_to_cv (d_recovery d))"

section \<open>The writer\<close>

definition HEX :: string where "HEX = ''0123456789abcdef''"

definition escape_char :: "char \<Rightarrow> string" where
  "escape_char c =
     (if c = CHR 0x22 then [CHR 0x5C, CHR 0x22]
      else if c = CHR 0x5C then [CHR 0x5C, CHR 0x5C]
      else if c = CHR 0x08 then [CHR 0x5C, CHR ''b'']
      else if c = CHR 0x09 then [CHR 0x5C, CHR ''t'']
      else if c = CHR 0x0A then [CHR 0x5C, CHR ''n'']
      else if c = CHR 0x0C then [CHR 0x5C, CHR ''f'']
      else if c = CHR 0x0D then [CHR 0x5C, CHR ''r'']
      else if of_char c < (0x20 :: nat)
      then [CHR 0x5C, CHR ''u'', CHR ''0'', CHR ''0'', HEX ! (of_char c div 16), HEX ! (of_char c mod 16)]
      else [c])"

definition write_json_string :: "string \<Rightarrow> string" where
  "write_json_string s = CHR 0x22 # concat (map escape_char s) @ [CHR 0x22]"

text \<open>The loop that writes a comma before every item but the first.\<close>

fun write_items :: "string list \<Rightarrow> string" where
  "write_items [] = []"
| "write_items [x] = x"
| "write_items (x # y # xs) = x @ CHR '','' # write_items (y # xs)"

text \<open>The UTF-16 code units of an ASCII key.\<close>

definition encode_utf16 :: "string \<Rightarrow> nat list" where
  "encode_utf16 k = map of_char k"

definition sort_entries :: "(string \<times> 'a) list \<Rightarrow> (string \<times> 'a) list" where
  "sort_entries es = sort_key (encode_utf16 \<circ> fst) es"

lemma set_sort_entries [simp]: "set (sort_entries es) = set es"
  by (simp add: sort_entries_def)

lemma cv_entry_size: "(k, v) \<in> set es \<Longrightarrow> size v < Suc (size_list (size_prod size size) es)"
  by (induction es) auto

function write_value :: "cv \<Rightarrow> string" where
  "write_value (Cv_Str s) = write_json_string s"
| "write_value (Cv_U32 u) = u32_to_string u"
| "write_value (Cv_Arr items) = CHR ''['' # write_items (map write_value items) @ [CHR '']'']"
| "write_value (Cv_Obj entries) =
     CHR ''{'' # write_items (map (\<lambda>(key, v). write_json_string key @ CHR '':'' # write_value v)
                              (sort_entries entries)) @ [CHR ''}'']"
  by pat_completeness auto
termination
  by (relation "measure size") (auto simp: less_Suc_eq_le dest: cv_entry_size intro: size_list_estimation')

definition canonical_json :: "policy_doc \<Rightarrow> string" where
  "canonical_json doc = write_value (doc_to_cv doc)"

definition recovery_canonical_json :: "recovery_config \<Rightarrow> string" where
  "recovery_canonical_json r = write_value (recovery_to_cv r)"

definition rule_canonical_json :: "rule \<Rightarrow> string" where
  "rule_canonical_json r = write_value (rule_to_cv r)"

definition CANON_VERSION :: u32 where "CANON_VERSION = 1"
definition RULE_HASH_DOMAIN :: string where "RULE_HASH_DOMAIN = ''perch/rule''"

text \<open>SHA-256 is a parameter: bytes to a 32-byte digest.\<close>

type_synonym sha256 = "bytes \<Rightarrow> bytes32"

definition rule_hash :: "sha256 \<Rightarrow> rule \<Rightarrow> bytes32" where
  "rule_hash sha r = sha (str_bytes_of RULE_HASH_DOMAIN @ str_bytes_of (rule_canonical_json r))"

definition doc_hash :: "sha256 \<Rightarrow> policy_doc \<Rightarrow> bytes32" where
  "doc_hash sha doc = sha (str_bytes_of (canonical_json doc))"

section \<open>The writer is a prefix code\<close>

lemma HEX_inject: "i < 16 \<Longrightarrow> j < 16 \<Longrightarrow> HEX ! i = HEX ! j \<longleftrightarrow> i = j"
  by (rule nth_eq_iff_index_eq) (simp_all add: HEX_def)

lemma escape_char_inject:
  assumes "escape_char c @ r = escape_char d @ s"
  shows "c = d \<and> r = s"
proof -
  have hex: "c = d"
    if "of_char c < (32::nat)" "of_char d < (32::nat)" "HEX ! (of_char c div 16) = HEX ! (of_char d div 16)"
      "HEX ! (of_char c mod 16) = HEX ! (of_char d mod 16)"
  proof -
    have "of_char c div 16 = (of_char d div 16 :: nat)" "of_char c mod 16 = (of_char d mod 16 :: nat)"
      using that by (simp_all add: HEX_inject)
    then have "(of_char c :: nat) = of_char d" by (metis div_mult_mod_eq)
    then show ?thesis by simp
  qed
  show ?thesis using assms unfolding escape_char_def by (simp split: if_splits) (auto intro: hex)
qed

lemma escape_char_start: "escape_char c \<noteq> []" "hd (escape_char c) \<noteq> CHR 0x22"
  by (auto simp: escape_char_def)

lemma escaped_inject:
  "concat (map escape_char s) @ CHR 0x22 # r = concat (map escape_char t) @ CHR 0x22 # q \<Longrightarrow>
   s = t \<and> r = q"
proof (induction s arbitrary: t)
  case Nil
  show ?case
  proof (cases t)
    case (Cons d t')
    then show ?thesis using Nil escape_char_start [of d] by (cases "escape_char d") auto
  qed (use Nil in simp)
next
  case (Cons c s)
  show ?case
  proof (cases t)
    case Nil
    then show ?thesis using Cons.prems escape_char_start [of c] by (cases "escape_char c") auto
  next
    case (Cons d t')
    then have "escape_char c @ (concat (map escape_char s) @ CHR 0x22 # r) =
        escape_char d @ (concat (map escape_char t') @ CHR 0x22 # q)"
      using Cons.prems by simp
    from escape_char_inject [OF this] show ?thesis using Cons Cons.IH by blast
  qed
qed

lemma write_json_string_inject:
  "write_json_string s @ r = write_json_string t @ q \<Longrightarrow> s = t \<and> r = q"
  by (simp add: write_json_string_def) (rule escaped_inject)

text \<open>What may follow a value inside a document: nothing, a comma or a closing bracket.\<close>

definition follow :: "string \<Rightarrow> bool" where
  "follow r \<longleftrightarrow> (case r of [] \<Rightarrow> True | c # _ \<Rightarrow> c \<in> {CHR '','', CHR '']'', CHR ''}''})"

lemma follow_simps [simp]:
  "follow []" "follow (CHR '','' # r)" "follow (CHR '']'' # r)" "follow (CHR ''}'' # r)"
  by (simp_all add: follow_def)

lemma follow_not_digit: "follow r \<Longrightarrow> takeWhile (\<lambda>c. digit_value c \<noteq> None) r = []"
  by (auto simp: follow_def digit_value_def char_in_def less_eq_char_def split: list.splits)

lemma u32_to_string_inject:
  assumes "u32_to_string u @ r = u32_to_string v @ s" "follow r" "follow s"
  shows "u = v \<and> r = s"
proof -
  let ?d = "\<lambda>c. digit_value c \<noteq> None"
  have digits: "takeWhile ?d (u32_to_string x @ q) = u32_to_string x" if "follow q" for x q
  proof -
    have "takeWhile ?d (u32_to_string x @ q) = u32_to_string x @ takeWhile ?d q"
      using nat_to_string_digits [of "unat x"] by (simp add: u32_to_string_def list_all_iff)
    then show ?thesis using follow_not_digit [OF that] by simp
  qed
  have "u32_to_string u = u32_to_string v"
    using digits [OF assms(2), of u] digits [OF assms(3), of v] assms(1) by simp
  then have "u = v" by (metis option.inject parse_unsigned_u32)
  then show ?thesis using assms(1) by simp
qed

lemma digit_start:
  "\<exists>c cs. u32_to_string u = c # cs \<and> digit_value c \<noteq> None"
  using nat_to_string_digits [of "unat u"]
  by (cases "nat_to_string (unat u)") (auto simp: u32_to_string_def)

lemma not_digits:
  "digit_value (CHR 0x22) = None" "digit_value (CHR ''['') = None" "digit_value (CHR ''{'') = None"
  "digit_value (CHR '']'') = None" "digit_value (CHR ''}'') = None"
  by (simp_all add: digit_value_def char_in_def less_eq_char_def)

lemma quote_not_digit: "write_json_string x @ r \<noteq> u32_to_string u @ s"
  using digit_start [of u] not_digits by (auto simp: write_json_string_def)

lemma bracket_not_digit:
  "u32_to_string u @ s \<noteq> CHR ''['' # r" "u32_to_string u @ s \<noteq> CHR ''{'' # r"
  using digit_start [of u] not_digits by auto

lemma write_items_Cons:
  "write_items (x # xs) = x @ (if xs = [] then [] else CHR '','' # write_items xs)"
  by (cases xs) auto

lemma write_items_inject:
  assumes "\<And>x y r s. x \<in> set xs \<Longrightarrow> y \<in> set ys \<Longrightarrow> follow r \<Longrightarrow> follow s \<Longrightarrow>
      f x @ r = f y @ s \<Longrightarrow> g x = g y \<and> r = s"
    and "\<And>x. x \<in> set xs \<union> set ys \<Longrightarrow> f x \<noteq> [] \<and> hd (f x) \<noteq> e"
    and "e = CHR '']'' \<or> e = CHR ''}''"
    and "write_items (map f xs) @ e # r = write_items (map f ys) @ e # s"
  shows "map g xs = map g ys \<and> r = s"
  using assms
proof (induction xs arbitrary: ys)
  case Nil
  show ?case
  proof (cases ys)
    case (Cons y ys')
    then show ?thesis using Nil.prems(2) [of y] Nil.prems(4)
      by (cases "f y") (auto simp: write_items_Cons)
  qed (use Nil in simp)
next
  case (Cons x xs)
  show ?case
  proof (cases ys)
    case Nil
    then show ?thesis using Cons.prems(2) [of x] Cons.prems(4)
      by (cases "f x") (auto simp: write_items_Cons)
  next
    case (Cons y ys')
    define tl1 where "tl1 = (if xs = [] then [] else CHR '','' # write_items (map f xs)) @ e # r"
    define tl2 where "tl2 = (if ys' = [] then [] else CHR '','' # write_items (map f ys')) @ e # s"
    have fo: "follow tl1" "follow tl2" using Cons.prems(3) by (auto simp: tl1_def tl2_def)
    have "f x @ tl1 = f y @ tl2"
      using Cons.prems(4) Cons by (simp add: write_items_Cons tl1_def tl2_def)
    then have gx: "g x = g y" and tl: "tl1 = tl2"
      using Cons.prems(1) [of x y tl1 tl2] fo Cons by auto
    have "map g xs = map g ys' \<and> r = s"
    proof (cases "xs = [] \<or> ys' = []")
      case True
      then show ?thesis using tl Cons.prems(3) by (auto simp: tl1_def tl2_def split: if_splits)
    next
      case False
      then have "write_items (map f xs) @ e # r = write_items (map f ys') @ e # s"
        using tl by (simp add: tl1_def tl2_def)
      then show ?thesis
        by (intro Cons.IH) (use Cons.prems(1,2,3) Cons in auto)
    qed
    then show ?thesis using gx Cons by simp
  qed
qed

text \<open>The canonical tree: members sorted at every level.\<close>

function canon_value :: "cv \<Rightarrow> cv" where
  "canon_value (Cv_Str s) = Cv_Str s"
| "canon_value (Cv_U32 u) = Cv_U32 u"
| "canon_value (Cv_Arr items) = Cv_Arr (map canon_value items)"
| "canon_value (Cv_Obj entries) =
     Cv_Obj (map (\<lambda>(key, v). (key, canon_value v)) (sort_entries entries))"
  by pat_completeness auto
termination
  by (relation "measure size") (auto simp: less_Suc_eq_le dest: cv_entry_size intro: size_list_estimation')

lemma write_value_start:
  "\<exists>c cs. write_value v = c # cs \<and> c \<noteq> CHR '']'' \<and> c \<noteq> CHR ''}''"
proof (cases v)
  case (Cv_U32 u)
  then show ?thesis using digit_start [of u] not_digits by auto
qed (auto simp: write_json_string_def)

lemma write_value_inject:
  assumes "write_value v @ r = write_value w @ s" "follow r" "follow s"
  shows "canon_value v = canon_value w \<and> r = s"
  using assms
proof (induction v arbitrary: w r s rule: write_value.induct)
  case (1 x)
  show ?case
  proof (cases w)
    case (Cv_Str y)
    then show ?thesis using "1.prems"(1) write_json_string_inject [of x r y s] by simp
  next
    case (Cv_U32 u)
    then show ?thesis using 1 quote_not_digit [of x r u s] by simp
  qed (use 1 in \<open>auto simp: write_json_string_def\<close>)
next
  case (2 u)
  show ?case
  proof (cases w)
    case (Cv_Str y)
    then show ?thesis using 2 quote_not_digit [of y s u r] by simp
  next
    case (Cv_U32 u')
    then show ?thesis using "2.prems" u32_to_string_inject [of u r u' s] by simp
  next
    case (Cv_Arr ws)
    then show ?thesis using 2 bracket_not_digit [of u r] by simp
  next
    case (Cv_Obj es)
    then show ?thesis using 2 bracket_not_digit [of u r] by simp
  qed
next
  case (3 vs)
  show ?case
  proof (cases w)
    case (Cv_U32 u)
    then show ?thesis using 3 bracket_not_digit [of u s] by (simp, metis)
  next
    case (Cv_Arr ws)
    have "map canon_value vs = map canon_value ws \<and> r = s"
    proof (rule write_items_inject [of vs ws write_value canon_value "CHR '']''" r s])
      fix x y p q
      assume "x \<in> set vs" "follow p" "follow q" "write_value x @ p = write_value y @ q"
      then show "canon_value x = canon_value y \<and> p = q" using "3.IH" by blast
    next
      fix x show "write_value x \<noteq> [] \<and> hd (write_value x) \<noteq> CHR '']''"
        using write_value_start [of x] by auto
    next
      show "write_items (map write_value vs) @ CHR '']'' # r = write_items (map write_value ws) @ CHR '']'' # s"
        using "3.prems"(1) Cv_Arr by simp
    qed simp
    then show ?thesis using Cv_Arr by simp
  qed (use 3 in \<open>auto simp: write_json_string_def\<close>)
next
  case (4 es)
  let ?f = "\<lambda>(key, v). write_json_string key @ CHR '':'' # write_value v"
  let ?g = "\<lambda>(key, v). (key, canon_value v)"
  show ?case
  proof (cases w)
    case (Cv_U32 u)
    then show ?thesis using 4 bracket_not_digit [of u s] by (simp, metis)
  next
    case (Cv_Obj fs)
    have "map ?g (sort_entries es) = map ?g (sort_entries fs) \<and> r = s"
    proof (rule write_items_inject [of "sort_entries es" "sort_entries fs" ?f ?g "CHR ''}''" r s])
      fix x y p q
      assume x: "x \<in> set (sort_entries es)" and pq: "follow p" "follow q" and eq: "?f x @ p = ?f y @ q"
      obtain k v k' v' where xy: "x = (k, v)" "y = (k', v')" by (cases x; cases y)
      have "write_json_string k @ (CHR '':'' # write_value v @ p) =
          write_json_string k' @ (CHR '':'' # write_value v' @ q)" using eq xy by simp
      then have k: "k = k'" and v: "write_value v @ p = write_value v' @ q"
        using write_json_string_inject by blast+
      have "canon_value v = canon_value v' \<and> p = q"
        by (rule "4.IH" [OF x xy(1) [symmetric] v pq])
      then show "?g x = ?g y \<and> p = q" using k xy by simp
    next
      fix x show "?f x \<noteq> [] \<and> hd (?f x) \<noteq> CHR ''}''"
        by (cases x) (simp add: write_json_string_def)
    next
      show "write_items (map ?f (sort_entries es)) @ CHR ''}'' # r = write_items (map ?f (sort_entries fs)) @ CHR ''}'' # s"
        using "4.prems"(1) Cv_Obj by simp
    qed simp
    then show ?thesis using Cv_Obj by simp
  qed (use 4 in \<open>auto simp: write_json_string_def\<close>)
qed

lemma write_value_canon_inject: "write_value v = write_value w \<Longrightarrow> canon_value v = canon_value w"
  using write_value_inject [of v "[]" w "[]"] by simp

end
