(* ===== verification/Ir_Parse.thy ===== *)
theory Ir_Parse
  imports Ir_Canon "HOL-Library.Multiset"
begin

text \<open>
  Fail-closed parsing of policy documents (\<open>crates/perch-ir/src/parse.rs\<close>). The lexer of the
  \<open>hifijson\<close> crate is a parameter that turns text into a value tree with raw numbers and all
  members of every object in order; everything after it is the source's own walk. The error
  texts are kept as constructors with the names they interpolate.

  The lemmas show that parsing inverts canonicalisation, that an accepted tree has no unknown
  and no repeated field, and that a wrong version is reported before anything else.
\<close>

section \<open>Value trees and errors\<close>

datatype json =
    J_Null
  | J_Bool bool
  | J_Number string bool   \<comment> \<open>the raw text, and whether it is an integer\<close>
  | J_String string
  | J_Array "json list"
  | J_Object "(string \<times> json) list"

datatype json_error =
    Malformed
  | Duplicate_field string
  | Missing_field string
  | Null_field string
  | Unknown_field string
  | Expected_object string
  | Expected_array string
  | Expected_string string
  | Expected_u32 string
  | Unknown_variant string string

datatype parse_error = Json json_error | UnsupportedVersion u64

definition MAX_DEPTH :: nat where "MAX_DEPTH = 64"

type_synonym members = "(string \<times> json) list"
type_synonym 'a parsed = "parse_error + 'a"

section \<open>Value-tree helpers\<close>

fun field_loop :: "string \<Rightarrow> json option \<Rightarrow> members \<Rightarrow> json option parsed" where
  "field_loop name found [] = Inr found"
| "field_loop name found ((k, v) # obj) =
     (if k = name
      then (if found \<noteq> None then Inl (Json (Duplicate_field name))
            else field_loop name (Some v) obj)
      else field_loop name found obj)"

definition field :: "members \<Rightarrow> string \<Rightarrow> json option parsed" where
  "field obj name = field_loop name None obj"

definition req_field :: "members \<Rightarrow> string \<Rightarrow> json parsed" where
  "req_field obj name = and_then (field obj name) (\<lambda>r. ok_or r (Json (Missing_field name)))"

definition opt_field :: "members \<Rightarrow> string \<Rightarrow> json option parsed" where
  "opt_field obj name =
     and_then (field obj name) (\<lambda>r.
       case r of
         None \<Rightarrow> Inr None
       | Some v \<Rightarrow> if v = J_Null then Inl (Json (Null_field name)) else Inr (Some v))"

fun deny_unknown :: "members \<Rightarrow> string list \<Rightarrow> unit parsed" where
  "deny_unknown [] known = Inr ()"
| "deny_unknown ((k, v) # obj) known =
     (if k \<notin> set known then Inl (Json (Unknown_field k)) else deny_unknown obj known)"

definition as_object :: "json \<Rightarrow> string \<Rightarrow> members parsed" where
  "as_object v ctx = (case v of J_Object obj \<Rightarrow> Inr obj | _ \<Rightarrow> Inl (Json (Expected_object ctx)))"

definition as_array :: "json \<Rightarrow> string \<Rightarrow> json list parsed" where
  "as_array v ctx = (case v of J_Array a \<Rightarrow> Inr a | _ \<Rightarrow> Inl (Json (Expected_array ctx)))"

definition as_str :: "json \<Rightarrow> string \<Rightarrow> string parsed" where
  "as_str v ctx = (case v of J_String s \<Rightarrow> Inr s | _ \<Rightarrow> Inl (Json (Expected_string ctx)))"

definition as_u32 :: "json \<Rightarrow> string \<Rightarrow> u32 parsed" where
  "as_u32 v ctx =
     (case v of
        J_Number n is_int \<Rightarrow>
          if is_int then ok_or (parse_unsigned n) (Json (Expected_u32 ctx))
          else Inl (Json (Expected_u32 ctx))
      | _ \<Rightarrow> Inl (Json (Expected_u32 ctx)))"

definition tag :: "members \<Rightarrow> string \<Rightarrow> string parsed" where
  "tag obj ctx = and_then (req_field obj ''type'') (\<lambda>v. as_str v ctx)"

text \<open>The idioms the walk repeats: a required string or number, an optional member, a list.\<close>

definition req_str :: "members \<Rightarrow> string \<Rightarrow> string \<Rightarrow> string parsed" where
  "req_str obj name ctx = and_then (req_field obj name) (\<lambda>v. as_str v ctx)"

definition req_u32 :: "members \<Rightarrow> string \<Rightarrow> string \<Rightarrow> u32 parsed" where
  "req_u32 obj name ctx = and_then (req_field obj name) (\<lambda>v. as_u32 v ctx)"

definition opt_with :: "members \<Rightarrow> string \<Rightarrow> (json \<Rightarrow> 'a parsed) \<Rightarrow> 'a option parsed" where
  "opt_with obj name f =
     and_then (opt_field obj name) (\<lambda>r.
       case r of None \<Rightarrow> Inr None | Some v \<Rightarrow> and_then (f v) (\<lambda>x. Inr (Some x)))"

definition list_with :: "json \<Rightarrow> string \<Rightarrow> (json \<Rightarrow> 'a parsed) \<Rightarrow> 'a list parsed" where
  "list_with v ctx f = and_then (as_array v ctx) (collect_results f)"

definition req_list :: "members \<Rightarrow> string \<Rightarrow> string \<Rightarrow> (json \<Rightarrow> 'a parsed) \<Rightarrow> 'a list parsed" where
  "req_list obj name ctx f = and_then (req_field obj name) (\<lambda>v. list_with v ctx f)"

section \<open>The document walk\<close>

definition signer_from_value :: "json \<Rightarrow> signer_decl parsed" where
  "signer_from_value v =
     and_then (as_object v ''signer'') (\<lambda>obj.
     and_then (and_then (field obj ''address'') (\<lambda>a.
       if a \<noteq> None
       then and_then (deny_unknown obj [''id'', ''address'']) (\<lambda>_.
            and_then (req_str obj ''address'' ''address'') (\<lambda>address. Inr (Delegated address)))
       else and_then (deny_unknown obj [''id'', ''verifier'', ''key'']) (\<lambda>_.
            and_then (req_str obj ''verifier'' ''verifier'') (\<lambda>verifier.
            and_then (req_str obj ''key'' ''key'') (\<lambda>key. Inr (External verifier key)))))) (\<lambda>method.
     and_then (req_str obj ''id'' ''signer id'') (\<lambda>id. Inr \<lparr>sd_id = id, sd_method = method\<rparr>)))"

definition scope_from_value :: "json \<Rightarrow> scope parsed" where
  "scope_from_value v =
     and_then (as_object v ''scope'') (\<lambda>obj.
     and_then (tag obj ''scope type'') (\<lambda>t.
       if t = ''contract''
       then and_then (deny_unknown obj [''type'', ''address'']) (\<lambda>_.
            and_then (req_str obj ''address'' ''contract address'') (\<lambda>a. Inr (Scope_Contract a)))
       else if t = ''self-admin''
       then and_then (deny_unknown obj [''type'']) (\<lambda>_. Inr Scope_SelfAdmin)
       else Inl (Json (Unknown_variant t ''scope type''))))"

definition principals_from_value :: "json \<Rightarrow> principals parsed" where
  "principals_from_value v =
     and_then (as_object v ''principals'') (\<lambda>obj.
     and_then (tag obj ''principals type'') (\<lambda>t.
       if t = ''all''
       then and_then (deny_unknown obj [''type'', ''signers'']) (\<lambda>_.
            and_then (req_list obj ''signers'' ''signers'' (\<lambda>e. as_str e ''signer id'')) (\<lambda>ss.
            Inr (P_All ss)))
       else if t = ''threshold''
       then and_then (deny_unknown obj [''type'', ''signers'', ''m'']) (\<lambda>_.
            and_then (req_list obj ''signers'' ''signers'' (\<lambda>e. as_str e ''signer id'')) (\<lambda>ss.
            and_then (req_u32 obj ''m'' ''threshold m'') (\<lambda>m. Inr (P_Threshold ss m))))
       else if t = ''self-authenticating''
       then and_then (deny_unknown obj [''type'', ''policy'', ''install-param-hex'', ''ack'']) (\<lambda>_.
            and_then (req_str obj ''policy'' ''policy'') (\<lambda>policy.
            and_then (req_str obj ''install-param-hex'' ''install-param-hex'') (\<lambda>param.
            and_then (req_str obj ''ack'' ''ack'') (\<lambda>ack.
            Inr (P_SelfAuthenticating policy param ack)))))
       else Inl (Json (Unknown_variant t ''principals type''))))"

definition pred_from_value :: "json \<Rightarrow> arg_pred parsed" where
  "pred_from_value v =
     and_then (as_object v ''predicate'') (\<lambda>obj.
     and_then (tag obj ''predicate type'') (\<lambda>t.
       if t = ''is-self''
       then and_then (deny_unknown obj [''type'']) (\<lambda>_. Inr IsSelf)
       else if t = ''address-eq''
       then and_then (deny_unknown obj [''type'', ''address'']) (\<lambda>_.
            and_then (req_str obj ''address'' ''address'') (\<lambda>a. Inr (AddressEq a)))
       else if t = ''string-in''
       then and_then (deny_unknown obj [''type'', ''values'']) (\<lambda>_.
            and_then (req_list obj ''values'' ''values'' (\<lambda>e. as_str e ''value'')) (\<lambda>strs.
            Inr (StringIn strs)))
       else if t = ''string-prefix''
       then and_then (deny_unknown obj [''type'', ''prefix'']) (\<lambda>_.
            and_then (req_str obj ''prefix'' ''prefix'') (\<lambda>p. Inr (StringPrefix p)))
       else if t = ''u32-eq''
       then and_then (deny_unknown obj [''type'', ''value'']) (\<lambda>_.
            and_then (req_u32 obj ''value'' ''value'') (\<lambda>n. Inr (U32Eq n)))
       else Inl (Json (Unknown_variant t ''predicate type''))))"

definition arg_constraint_from_value :: "json \<Rightarrow> arg_constraint parsed" where
  "arg_constraint_from_value v =
     and_then (as_object v ''arg constraint'') (\<lambda>obj.
     and_then (deny_unknown obj [''index'', ''pred'']) (\<lambda>_.
     and_then (req_u32 obj ''index'' ''arg index'') (\<lambda>i.
     and_then (and_then (req_field obj ''pred'') pred_from_value) (\<lambda>p.
     Inr \<lparr>ac_index = i, ac_pred = p\<rparr>))))"

definition cap_from_value :: "json \<Rightarrow> cap_constraint parsed" where
  "cap_from_value v =
     and_then (as_object v ''cap'') (\<lambda>obj.
     and_then (deny_unknown obj [''token'', ''limit'', ''period-ledgers'']) (\<lambda>_.
     and_then (opt_with obj ''token'' (\<lambda>v. as_str v ''cap token'')) (\<lambda>token.
     and_then (req_str obj ''limit'' ''cap limit'') (\<lambda>lim.
     and_then (req_u32 obj ''period-ledgers'' ''period-ledgers'') (\<lambda>period.
     Inr \<lparr>cap_token = token, cap_limit = lim, cap_period_ledgers = period\<rparr>)))))"

definition rule_from_value :: "json \<Rightarrow> rule parsed" where
  "rule_from_value v =
     and_then (as_object v ''rule'') (\<lambda>obj.
     and_then (deny_unknown obj
       [''name'', ''scope'', ''principals'', ''functions'', ''args'', ''not-after-ledger'', ''cap'']) (\<lambda>_.
     and_then (req_str obj ''name'' ''rule name'') (\<lambda>name.
     and_then (and_then (req_field obj ''scope'') scope_from_value) (\<lambda>scp.
     and_then (and_then (req_field obj ''principals'') principals_from_value) (\<lambda>pr.
     and_then (opt_with obj ''functions'' (\<lambda>v. list_with v ''functions'' (\<lambda>e. as_str e ''function''))) (\<lambda>functions.
     and_then (opt_with obj ''args'' (\<lambda>v. list_with v ''args'' arg_constraint_from_value)) (\<lambda>args.
     and_then (opt_with obj ''not-after-ledger'' (\<lambda>v. as_u32 v ''not-after-ledger'')) (\<lambda>nal.
     and_then (opt_with obj ''cap'' cap_from_value) (\<lambda>cap.
     Inr \<lparr>r_name = name, r_scope = scp, r_principals = pr, r_functions = functions, r_args = args,
          r_not_after_ledger = nal, r_cap = cap\<rparr>)))))))))"

definition guardian_set_from_fields :: "members \<Rightarrow> guardian_set parsed" where
  "guardian_set_from_fields obj =
     and_then (req_list obj ''guardians'' ''guardians'' (\<lambda>e. as_str e ''guardian address'')) (\<lambda>gs.
     and_then (req_u32 obj ''quorum'' ''guardian quorum'') (\<lambda>q.
     Inr \<lparr>gs_guardians = gs, gs_quorum = q\<rparr>))"

definition zk_factor_from_fields :: "members \<Rightarrow> zk_factor parsed" where
  "zk_factor_from_fields obj =
     and_then (req_str obj ''adapter'' ''zk adapter'') (\<lambda>adapter.
     and_then (req_str obj ''circuit-id'' ''zk circuit-id'') (\<lambda>circuit.
     and_then (req_str obj ''pool'' ''zk pool'') (\<lambda>pool.
     and_then (req_str obj ''enrollment-id'' ''zk enrollment-id'') (\<lambda>enrollment.
     and_then (req_str obj ''commitment'' ''zk commitment'') (\<lambda>commitment.
     Inr \<lparr>zk_adapter = adapter, zk_circuit_id = circuit, zk_pool = pool,
          zk_enrollment_id = enrollment, zk_commitment = commitment\<rparr>)))))"

definition baseline_commitment_from_value :: "json \<Rightarrow> baseline_commitment parsed" where
  "baseline_commitment_from_value v =
     and_then (as_object v ''recovery baseline'') (\<lambda>obj.
     and_then (deny_unknown obj [''doc-hash'']) (\<lambda>_.
     and_then (req_str obj ''doc-hash'' ''baseline doc-hash'') (\<lambda>h. Inr \<lparr>bc_doc_hash = h\<rparr>)))"

definition recovery_profile_from_value :: "json \<Rightarrow> recovery_profile parsed" where
  "recovery_profile_from_value v =
     and_then (as_str v ''recovery profile'') (\<lambda>s.
       if s = ''loss'' then Inr Loss
       else if s = ''protected'' then Inr Protected
       else Inl (Json (Unknown_variant s ''recovery profile'')))"

definition recovery_mode_from_value :: "json \<Rightarrow> recovery_mode parsed" where
  "recovery_mode_from_value v =
     and_then (as_object v ''recovery mode'') (\<lambda>obj.
     and_then (tag obj ''recovery mode type'') (\<lambda>t.
       if t = ''guardian-only''
       then and_then (deny_unknown obj [''type'', ''guardians'', ''quorum'']) (\<lambda>_.
            and_then (guardian_set_from_fields obj) (\<lambda>g. Inr (GuardianOnly g)))
       else if t = ''zk-only''
       then and_then (deny_unknown obj
              [''type'', ''adapter'', ''circuit-id'', ''pool'', ''enrollment-id'', ''commitment'']) (\<lambda>_.
            and_then (zk_factor_from_fields obj) (\<lambda>z. Inr (ZkOnly z)))
       else if t = ''combined''
       then and_then (deny_unknown obj
              [''type'', ''guardians'', ''quorum'', ''adapter'', ''circuit-id'', ''pool'',
               ''enrollment-id'', ''commitment'']) (\<lambda>_.
            and_then (guardian_set_from_fields obj) (\<lambda>g.
            and_then (zk_factor_from_fields obj) (\<lambda>z. Inr (Combined g z))))
       else Inl (Json (Unknown_variant t ''recovery mode type''))))"

definition recovery_from_value :: "json \<Rightarrow> recovery_config parsed" where
  "recovery_from_value v =
     and_then (as_object v ''recovery'') (\<lambda>obj.
     and_then (deny_unknown obj
       [''profile'', ''mode'', ''controller'', ''baseline'', ''replaceable'', ''delay-ledgers'',
        ''expiry-ledgers'', ''max-cancels'']) (\<lambda>_.
     and_then (and_then (req_field obj ''profile'') recovery_profile_from_value) (\<lambda>profile.
     and_then (and_then (req_field obj ''mode'') recovery_mode_from_value) (\<lambda>mode.
     and_then (req_str obj ''controller'' ''recovery controller'') (\<lambda>controller.
     and_then (opt_with obj ''baseline'' baseline_commitment_from_value) (\<lambda>baseline.
     and_then (req_list obj ''replaceable'' ''recovery replaceable'' (\<lambda>e. as_str e ''replaceable signer id'')) (\<lambda>replaceable.
     and_then (req_u32 obj ''delay-ledgers'' ''recovery delay-ledgers'') (\<lambda>delay.
     and_then (req_u32 obj ''expiry-ledgers'' ''recovery expiry-ledgers'') (\<lambda>expiry.
     and_then (req_u32 obj ''max-cancels'' ''recovery max-cancels'') (\<lambda>cancels.
     Inr \<lparr>rc_profile = profile, rc_mode = mode, rc_controller = controller, rc_baseline = baseline,
          rc_replaceable = replaceable, rc_delay_ledgers = delay, rc_expiry_ledgers = expiry,
          rc_max_cancels = cancels\<rparr>))))))))))"

definition doc_from_value :: "json \<Rightarrow> policy_doc parsed" where
  "doc_from_value v =
     and_then (as_object v ''document'') (\<lambda>obj.
     and_then (deny_unknown obj [''version'', ''network'', ''signers'', ''rules'', ''recovery'']) (\<lambda>_.
     and_then (req_u32 obj ''version'' ''version'') (\<lambda>version.
     and_then (opt_with obj ''network'' (\<lambda>v. as_str v ''network'')) (\<lambda>network.
     and_then (req_list obj ''signers'' ''signers'' signer_from_value) (\<lambda>signers.
     and_then (req_list obj ''rules'' ''rules'' rule_from_value) (\<lambda>rules.
     and_then (opt_with obj ''recovery'' recovery_from_value) (\<lambda>recovery.
     Inr \<lparr>d_version = version, d_network = network, d_signers = signers, d_rules = rules,
          d_recovery = recovery\<rparr>)))))))"

text \<open>The early version check: the first integer \<open>version\<close> member other than 1.\<close>

fun version_check :: "members \<Rightarrow> unit parsed" where
  "version_check [] = Inr ()"
| "version_check ((k, v) # entries) =
     (case (k = ''version'', v) of
        (True, J_Number n True) \<Rightarrow>
          (case parse_unsigned n of
             Some ver \<Rightarrow> if ver \<noteq> 1 then Inl (UnsupportedVersion ver) else version_check entries
           | None \<Rightarrow> version_check entries)
      | _ \<Rightarrow> version_check entries)"

text \<open>
  \<open>lexer depth input\<close> is hifijson's \<open>exactly_one\<close> with \<open>parse_bounded\<close>: the single value of the
  text, or \<open>None\<close> for malformed text, trailing content or nesting beyond the depth.
\<close>

definition from_json :: "(nat \<Rightarrow> string \<Rightarrow> json option) \<Rightarrow> string \<Rightarrow> policy_doc parsed" where
  "from_json lexer input =
     and_then (ok_or (lexer MAX_DEPTH input) (Json Malformed)) (\<lambda>value.
     and_then (case value of J_Object entries \<Rightarrow> version_check entries | _ \<Rightarrow> Inr ()) (\<lambda>_.
     doc_from_value value))"

section \<open>Parsing inverts canonicalisation\<close>

text \<open>The value tree that a lexer reads from the text of a canonical value.\<close>

function json_of :: "cv \<Rightarrow> json" where
  "json_of (Cv_Str s) = J_String s"
| "json_of (Cv_U32 u) = J_Number (u32_to_string u) True"
| "json_of (Cv_Arr items) = J_Array (map json_of items)"
| "json_of (Cv_Obj entries) = J_Object (map (\<lambda>(k, v). (k, json_of v)) entries)"
  by pat_completeness auto
termination
  by (relation "measure size") (auto simp: less_Suc_eq_le dest: cv_entry_size intro: size_list_estimation')

definition canonical_tree :: "cv \<Rightarrow> json" where
  "canonical_tree v = json_of (canon_value v)"

definition canonical_members :: "(string \<times> cv) list \<Rightarrow> members" where
  "canonical_members es = map (\<lambda>(k, v). (k, canonical_tree v)) (sort_entries es)"

lemma canonical_tree_simps [simp]:
  "canonical_tree (Cv_Str s) = J_String s"
  "canonical_tree (Cv_U32 u) = J_Number (u32_to_string u) True"
  "canonical_tree (Cv_Arr vs) = J_Array (map canonical_tree vs)"
  "canonical_tree (Cv_Obj es) = J_Object (canonical_members es)"
  by (simp_all add: canonical_tree_def canonical_members_def case_prod_unfold)

lemma as_simps [simp]:
  "as_object (J_Object obj) ctx = Inr obj" "as_array (J_Array a) ctx = Inr a"
  "as_str (J_String t) ctx = Inr t" "as_u32 (J_Number (u32_to_string u) True) ctx = Inr u"
  by (simp_all add: as_object_def as_array_def as_str_def as_u32_def)

lemma canonical_tree_not_Null: "canonical_tree v \<noteq> J_Null"
  by (cases v) auto

lemma field_loop_distinct:
  "distinct (map fst es) \<Longrightarrow> (found \<noteq> None \<Longrightarrow> k \<notin> fst ` set es) \<Longrightarrow>
   field_loop k found es = Inr (case found of None \<Rightarrow> map_of es k | Some v \<Rightarrow> Some v)"
proof (induction es arbitrary: found)
  case (Cons e es)
  then show ?case by (cases e; cases found) (force simp: map_of_eq_None_iff)+
qed (auto split: option.splits)

lemma map_of_canonical_members: "map_of (canonical_members es) k = map_option canonical_tree (map_of (sort_entries es) k)"
  by (simp add: canonical_members_def map_of_map)

lemma distinct_sort_entries [simp]: "distinct (map fst (sort_entries es)) \<longleftrightarrow> distinct (map fst es)"
  by (metis mset_eq_imp_distinct_iff mset_map mset_sort sort_entries_def)

lemma field_canonical:
  assumes "distinct (map fst es)"
  shows "field (canonical_members es) k = Inr (map_option canonical_tree (map_of es k))"
proof -
  have keys: "map fst (canonical_members es) = map fst (sort_entries es)"
    by (simp add: canonical_members_def case_prod_unfold)
  have "map_of (sort_entries es) = map_of es"
    using assms by (simp add: map_of_inject_set)
  then show ?thesis
    using field_loop_distinct [of "canonical_members es" None k] assms
    by (simp add: field_def keys map_of_canonical_members)
qed

lemma deny_unknown_Inr: "deny_unknown obj known = Inr () \<longleftrightarrow> fst ` set obj \<subseteq> set known"
  by (induction obj known rule: deny_unknown.induct) auto

lemma deny_unknown_canonical:
  "fst ` set es \<subseteq> set known \<Longrightarrow> deny_unknown (canonical_members es) known = Inr ()"
  by (auto simp: deny_unknown_Inr canonical_members_def)

lemma collect_strings [simp]:
  "collect_results (\<lambda>e. as_str e ctx) (map canonical_tree (map Cv_Str ss)) = Inr ss"
  by (simp only: map_map) (rule collect_results_map, simp)

lemmas parse_helpers =
  tag_def req_str_def req_u32_def req_list_def
  list_with_def opt_with_def req_field_def opt_field_def field_canonical deny_unknown_canonical
  canonical_tree_not_Null str_arr_def opt_member_def

lemma signer_roundtrip: "signer_from_value (canonical_tree (signer_to_cv s)) = Inr s"
  by (cases s; cases "sd_method s") (auto simp: signer_from_value_def signer_to_cv_def parse_helpers)

lemma scope_roundtrip: "scope_from_value (canonical_tree (scope_to_cv x)) = Inr x"
  by (cases x) (auto simp: scope_from_value_def parse_helpers)

lemma principals_roundtrip: "principals_from_value (canonical_tree (principals_to_cv x)) = Inr x"
  by (cases x) (auto simp: principals_from_value_def parse_helpers simp del: map_map)

lemma pred_roundtrip: "pred_from_value (canonical_tree (pred_to_cv x)) = Inr x"
  by (cases x) (auto simp: pred_from_value_def parse_helpers simp del: map_map)

lemma arg_constraint_roundtrip:
  "arg_constraint_from_value (canonical_tree (arg_constraint_to_cv a)) = Inr a"
  by (cases a) (auto simp: arg_constraint_from_value_def arg_constraint_to_cv_def parse_helpers pred_roundtrip)

lemma cap_roundtrip: "cap_from_value (canonical_tree (cap_to_cv c)) = Inr c"
  by (cases c; cases "cap_token c") (auto simp: cap_from_value_def cap_to_cv_def parse_helpers)

lemma collect_args [simp]:
  "collect_results arg_constraint_from_value (map canonical_tree (map arg_constraint_to_cv as)) = Inr as"
  by (simp only: map_map) (rule collect_results_map, simp add: arg_constraint_roundtrip)

lemma rule_roundtrip: "rule_from_value (canonical_tree (rule_to_cv r)) = Inr r"
  by (cases r; cases "r_functions r"; cases "r_args r"; cases "r_not_after_ledger r"; cases "r_cap r")
    (auto simp: rule_from_value_def rule_to_cv_def parse_helpers scope_roundtrip principals_roundtrip
      cap_roundtrip simp del: map_map)

lemma recovery_mode_roundtrip: "recovery_mode_from_value (canonical_tree (recovery_mode_to_cv m)) = Inr m"
  by (cases m) (auto simp: recovery_mode_from_value_def guardian_fields_def zk_fields_def
      guardian_set_from_fields_def zk_factor_from_fields_def parse_helpers simp del: map_map)

lemma recovery_roundtrip: "recovery_from_value (canonical_tree (recovery_to_cv r)) = Inr r"
proof -
  have profile: "recovery_profile_from_value (J_String (recovery_profile_str p)) = Inr p" for p
    by (cases p) (auto simp: recovery_profile_from_value_def as_str_def)
  show ?thesis
    by (cases r; cases "rc_baseline r")
      (auto simp: recovery_from_value_def recovery_to_cv_def baseline_commitment_from_value_def
        parse_helpers recovery_mode_roundtrip profile simp del: map_map)
qed

lemma collect_signers [simp]:
  "collect_results signer_from_value (map canonical_tree (map signer_to_cv ss)) = Inr ss"
  by (simp only: map_map) (rule collect_results_map, simp add: signer_roundtrip)

lemma collect_rules [simp]:
  "collect_results rule_from_value (map canonical_tree (map rule_to_cv rs)) = Inr rs"
  by (simp only: map_map) (rule collect_results_map, simp add: rule_roundtrip)

lemma doc_roundtrip: "doc_from_value (canonical_tree (doc_to_cv d)) = Inr d"
  by (cases d; cases "d_network d"; cases "d_recovery d")
    (auto simp: doc_from_value_def doc_to_cv_def parse_helpers recovery_roundtrip simp del: map_map)

lemma recovery_to_cv_canon_inject:
  "canon_value (recovery_to_cv r) = canon_value (recovery_to_cv r') \<Longrightarrow> r = r'"
  using recovery_roundtrip [of r] recovery_roundtrip [of r'] by (simp add: canonical_tree_def)

lemma rule_to_cv_canon_inject:
  "canon_value (rule_to_cv r) = canon_value (rule_to_cv r') \<Longrightarrow> r = r'"
  using rule_roundtrip [of r] rule_roundtrip [of r'] by (simp add: canonical_tree_def)

lemma doc_to_cv_canon_inject:
  "canon_value (doc_to_cv d) = canon_value (doc_to_cv d') \<Longrightarrow> d = d'"
  using doc_roundtrip [of d] doc_roundtrip [of d'] by (simp add: canonical_tree_def)

lemma rule_canonical_json_inject: "rule_canonical_json r = rule_canonical_json r' \<longleftrightarrow> r = r'"
  by (auto simp: rule_canonical_json_def dest: write_value_canon_inject rule_to_cv_canon_inject)

lemma recovery_canonical_json_inject: "recovery_canonical_json r = recovery_canonical_json r' \<longleftrightarrow> r = r'"
  by (auto simp: recovery_canonical_json_def dest: write_value_canon_inject recovery_to_cv_canon_inject)

lemma canonical_json_inject: "canonical_json d = canonical_json d' \<longleftrightarrow> d = d'"
  by (auto simp: canonical_json_def dest: write_value_canon_inject doc_to_cv_canon_inject)

section \<open>The version check\<close>

text \<open>An integer \<open>version\<close> member that reads as a number other than 1.\<close>

definition foreign_version :: "string \<times> json \<Rightarrow> bool" where
  "foreign_version e \<longleftrightarrow>
     (\<exists>n ver. e = (''version'', J_Number n True) \<and> parse_unsigned n = Some (ver :: u64) \<and> ver \<noteq> 1)"

lemma version_check_Inr:
  "version_check es = Inr () \<longleftrightarrow> (\<forall>e \<in> set es. \<not> foreign_version e)"
  by (induction es rule: version_check.induct)
    (auto simp: foreign_version_def split: json.splits bool.splits option.splits)

lemma version_check_Inl:
  "version_check es = Inl e \<Longrightarrow> \<exists>ver. e = UnsupportedVersion ver \<and> ver \<noteq> 1"
  by (induction es rule: version_check.induct)
    (auto split: json.splits bool.splits option.splits if_splits)

lemma digits_value_nonneg: "digits_value ds acc = Some n \<Longrightarrow> 0 \<le> acc \<Longrightarrow> 0 \<le> n"
  by (induction ds arbitrary: acc) (auto simp: digit_value_def split: option.splits if_splits)

lemma parse_u32_u64:
  assumes "parse_unsigned n = Some (u :: u32)"
  shows "parse_unsigned n = Some (ucast u :: u64)"
proof -
  define ds where "ds = (case n of c # cs \<Rightarrow> if c = CHR ''+'' then cs else n | [] \<Rightarrow> [])"
  obtain k where k: "ds \<noteq> []" "digits_value ds 0 = Some k" "k < 2 ^ 32" "u = word_of_int k"
    using assms by (auto simp: parse_unsigned_def ds_def [symmetric] Let_def split: if_splits option.splits)
  have "0 \<le> k" using digits_value_nonneg [OF k(2)] by simp
  then have "(ucast u :: u64) = word_of_int k"
    using k by (simp add: unsigned_of_int take_bit_int_eq_self)
  then show ?thesis
    using k by (simp add: parse_unsigned_def ds_def [symmetric] Let_def)
qed

lemma from_json_Inr:
  "from_json lexer input = Inr d \<longleftrightarrow>
     (\<exists>v. lexer MAX_DEPTH input = Some v \<and> doc_from_value v = Inr d \<and>
        (\<forall>es. v = J_Object es \<longrightarrow> (\<forall>e \<in> set es. \<not> foreign_version e)))"
proof (cases "lexer MAX_DEPTH input")
  case (Some v)
  then show ?thesis by (cases v) (auto simp: from_json_def and_then_eq_Inr version_check_Inr)
qed (simp add: from_json_def)

lemma field_Some_mem: "field obj k = Inr (Some v) \<Longrightarrow> (k, v) \<in> set obj"
proof -
  have "field_loop k found obj = Inr (Some v) \<Longrightarrow> found = Some v \<or> (k, v) \<in> set obj" for found
    by (induction k found obj rule: field_loop.induct) (auto split: if_splits)
  then show "field obj k = Inr (Some v) \<Longrightarrow> (k, v) \<in> set obj" by (auto simp: field_def)
qed

lemma accepted_version:
  assumes "from_json lexer input = Inr d"
  shows "d_version d = 1"
proof -
  obtain v where v: "doc_from_value v = Inr d"
    and nf: "\<And>es e. v = J_Object es \<Longrightarrow> e \<in> set es \<Longrightarrow> \<not> foreign_version e"
    using assms by (auto simp: from_json_Inr)
  obtain obj w where obj: "v = J_Object obj" "field obj ''version'' = Inr (Some w)"
    "as_u32 w ''version'' = Inr (d_version d)"
    using v by (auto simp: doc_from_value_def and_then_eq_Inr as_object_def req_u32_def req_field_def
        split: json.splits)
  obtain n where n: "w = J_Number n True" "parse_unsigned n = Some (d_version d)"
    using obj(3) by (auto simp: as_u32_def split: json.splits if_splits)
  have "\<not> foreign_version (''version'', w)"
    using nf [OF obj(1)] field_Some_mem [OF obj(2)] .
  then have "(ucast (d_version d) :: u64) = 1"
    using n parse_u32_u64 [OF n(2)] by (auto simp: foreign_version_def)
  then have "uint (ucast (d_version d) :: u64) = 1" by simp
  then have "uint (d_version d) = 1"
    using unsigned_less [where 'a = int, of "d_version d"]
    by (simp add: unsigned_ucast_eq take_bit_int_eq_self)
  then show ?thesis by (simp add: word_uint_eq_iff)
qed

section \<open>Properties\<close>

text \<open>
  Canonical bytes identify content: two documents have the same canonical JSON only if they
  are equal, and so do two rules and two recovery members. Sorting, omission of absent members,
  escaping and decimal numbers lose nothing, so a collision of \<open>doc_hash\<close>, \<open>rule_hash\<close> or
  \<open>config_hash\<close> is a collision of SHA-256.
\<close>

theorem canonical_json_identifies:
  "(canonical_json d = canonical_json d' \<longleftrightarrow> d = d') \<and>
   (rule_canonical_json r = rule_canonical_json r' \<longleftrightarrow> r = r') \<and>
   (recovery_canonical_json c = recovery_canonical_json c' \<longleftrightarrow> c = c')"
  by (simp add: canonical_json_inject rule_canonical_json_inject recovery_canonical_json_inject)

text \<open>
  C29. Parsing inverts canonicalisation: the value tree of a document's canonical text parses to
  that document, whatever optional members it has. No field, tag or member is lost or renamed
  between the writer and the reader.
\<close>

theorem parse_canonical_roundtrip:
  "doc_from_value (canonical_tree (doc_to_cv d)) = Inr d"
  by (rule doc_roundtrip)

text \<open>
  The version check comes first and is exhaustive: a document that carries an integer
  \<open>version\<close> other than 1 anywhere among its members is refused as an unsupported version
  whatever else is wrong with it, and an accepted document has version 1.
\<close>

theorem version_checked_first:
  assumes "lexer MAX_DEPTH input = Some (J_Object es)"
  shows "(if \<exists>e \<in> set es. foreign_version e
          then \<exists>ver. from_json lexer input = Inl (UnsupportedVersion ver) \<and> ver \<noteq> 1
          else (case from_json lexer input of Inr d \<Rightarrow> d_version d = 1 | Inl _ \<Rightarrow> True))"
proof (cases "\<exists>e \<in> set es. foreign_version e")
  case True
  then obtain e where "version_check es = Inl e"
    using version_check_Inr [of es] by (cases "version_check es") auto
  then show ?thesis
    using True version_check_Inl [of es e] assms by (auto simp: from_json_def)
next
  case False
  then show ?thesis using accepted_version [of lexer input] by (auto split: sum.splits)
qed

text \<open>An instance: a version 2 document with a field of the future.\<close>

theorem version_checked_first_witness:
  "\<exists>ver. from_json (\<lambda>_ _. Some (J_Object [(''magic'', J_Null), (''version'', J_Number ''2'' True)])) ''{}'' =
     Inl (UnsupportedVersion ver) \<and> ver \<noteq> 1"
proof -
  have f: "foreign_version (''version'', J_Number ''2'' True)"
    by (simp add: foreign_version_def parse_unsigned_def digit_value_def char_in_def less_eq_char_def)
  show ?thesis
    using version_checked_first
      [of "\<lambda>_ _. Some (J_Object [(''magic'', J_Null), (''version'', J_Number ''2'' True)])" "''{}''"] f
    by simp
qed

end
