(* ===== verification/Compile.thy ===== *)
theory Compile
  imports Program Ir_Validate Ir_Parse
begin

text \<open>
  The compiler from policy documents to lowered rules (\<open>crates/perch-compile\<close>): \<open>lib.rs\<close> lowers
  each rule to signers, an expiry, an optional interpreter program and an optional cap;
  \<open>analysis.rs\<close> answers questions about the lowered plan; \<open>attenuation.rs\<close> compares two plans;
  \<open>activation.rs\<close> checks a plan against the reviewed document.

  The lemmas show what a lowered program means in terms of the document, the two invariants of
  the crate (no rule passes without signatures, bare rules stay policy-free), soundness of the
  static analysis and of attenuation, and that activation accepts what compilation produces.
\<close>

section \<open>Types\<close>

text \<open>
  The host: SHA-256, the address of a strkey (\<open>Address::from_str\<close>, where \<open>None\<close> is its trap) and
  which names \<open>Symbol::new\<close> takes without a trap; a symbol is its text.
\<close>

record host =
  h_sha256 :: sha256
  h_address :: "string \<Rightarrow> address option"
  h_symbol_ok :: "string \<Rightarrow> bool"

datatype scope_spec = ScopeSpec_Contract string | ScopeSpec_SelfAdmin

datatype signer_spec =
    SignerSpec_External string string
  | SignerSpec_Delegated string

record cap_spec =
  cs_token :: "string option"
  cs_limit :: i128
  cs_period_ledgers :: u32

record lowered_rule =
  lr_name :: string
  lr_scope :: scope_spec
  lr_signers :: "signer_spec list"
  lr_valid_until :: "u32 option"
  lr_install :: "install_params option"
  lr_cap :: "cap_spec option"

record plan =
  pl_rules :: "lowered_rule list"
  pl_interpreter_wasm_hash :: "bytes32 option"

record compile_config =
  cfg_interpreter_wasm_hash :: bytes32

datatype lower_error =
    LE_UnknownSignerRef string string
  | LE_Unsupported string
  | LE_InvalidProgram string program_error
  | LE_InvalidCap string

section \<open>Lowering (lib.rs)\<close>

definition rule_hash_onchain :: "host \<Rightarrow> rule \<Rightarrow> bytes32" where
  "rule_hash_onchain h r =
     (let preimage = str_bytes_of RULE_HASH_DOMAIN
      in h_sha256 h (preimage @ str_bytes_of (rule_canonical_json r)))"

definition doc_hash_onchain :: "host \<Rightarrow> policy_doc \<Rightarrow> bytes32" where
  "doc_hash_onchain h doc = h_sha256 h (str_bytes_of (canonical_json doc))"

text \<open>\<open>Address::from_str\<close> and \<open>Symbol::new\<close>, which trap on text they refuse.\<close>

definition host_address :: "host \<Rightarrow> string \<Rightarrow> lower_error failure + address" where
  "host_address h s = ok_or (h_address h s) Trap"

definition host_symbol :: "host \<Rightarrow> string \<Rightarrow> lower_error failure + string" where
  "host_symbol h s = (if h_symbol_ok h s then Inr s else Inl Trap)"

fun lower_arg_pred :: "host \<Rightarrow> u32 \<Rightarrow> arg_pred \<Rightarrow> lower_error failure + op" where
  "lower_arg_pred h index IsSelf = Inr (Op_ArgAddrIsSelf index)"
| "lower_arg_pred h index (AddressEq address) =
     and_then (host_address h address) (\<lambda>a. Inr (Op_ArgAddrEq index a))"
| "lower_arg_pred h index (U32Eq value) = Inr (Op_ArgU32Eq index value)"
| "lower_arg_pred h index (StringIn strs) = Inr (Op_ArgStrIn index strs)"
| "lower_arg_pred h index (StringPrefix prefix) = Inr (Op_ArgStrPrefix index prefix)"

definition build_program :: "host \<Rightarrow> rule \<Rightarrow> u32 \<Rightarrow> lower_error failure + rpn_program" where
  "build_program h r signer_floor =
     and_then (case r_functions r of
                 None \<Rightarrow> Inr []
               | Some funcs \<Rightarrow> and_then (collect_results (host_symbol h) funcs) (\<lambda>syms. Inr [Op_FnIn syms])) (\<lambda>fns.
     and_then (case r_args r of
                 None \<Rightarrow> Inr []
               | Some args \<Rightarrow> collect_results (\<lambda>c. lower_arg_pred h (ac_index c) (ac_pred c)) args) (\<lambda>args.
     let leaves = Op_MinSigners (max signer_floor 1) # fns @ args;
         program = \<lparr>rp_version = PROGRAM_VERSION,
                    rp_ops = leaves @ [Op_All (word_of_nat (length leaves))]\<rparr>
     in and_then (map_err (\<lambda>err. Failed (LE_InvalidProgram (r_name r) err)) (rpn_validate program)) (\<lambda>_.
        Inr program)))"

fun lower_scope :: "scope \<Rightarrow> scope_spec" where
  "lower_scope (Scope_Contract address) = ScopeSpec_Contract address"
| "lower_scope Scope_SelfAdmin = ScopeSpec_SelfAdmin"

fun lower_method :: "signer_method \<Rightarrow> signer_spec" where
  "lower_method (External verifier key) = SignerSpec_External verifier key"
| "lower_method (Delegated address) = SignerSpec_Delegated address"

fun principal_floor :: "string \<Rightarrow> principals \<Rightarrow> lower_error failure + (string list \<times> u32)" where
  "principal_floor name (P_All signers) = Inr (signers, word_of_nat (length signers))"
| "principal_floor name (P_Threshold signers m) = Inr (signers, m)"
| "principal_floor name (P_SelfAuthenticating _ _ _) = Inl (Failed (LE_Unsupported name))"

definition resolve_signer :: "policy_doc \<Rightarrow> string \<Rightarrow> string \<Rightarrow> lower_error failure + signer_spec" where
  "resolve_signer doc name sid =
     and_then (ok_or (find (\<lambda>s. sd_id s = sid) (d_signers doc)) (Failed (LE_UnknownSignerRef name sid)))
       (\<lambda>decl. Inr (lower_method (sd_method decl)))"

definition lower_cap :: "string \<Rightarrow> cap_constraint option \<Rightarrow> lower_error failure + cap_spec option" where
  "lower_cap name cap =
     (case cap of
        None \<Rightarrow> Inr None
      | Some c \<Rightarrow>
          and_then (ok_or (parse_i128 (cap_limit c)) (Failed (LE_InvalidCap name))) (\<lambda>lim.
          Inr (Some \<lparr>cs_token = cap_token c, cs_limit = lim, cs_period_ledgers = cap_period_ledgers c\<rparr>)))"

fun is_all :: "principals \<Rightarrow> bool" where
  "is_all (P_All _) \<longleftrightarrow> True"
| "is_all _ \<longleftrightarrow> False"

text \<open>\<open>x - 1\<close> traps at zero.\<close>

definition lower_expiry :: "u32 option \<Rightarrow> lower_error failure + u32 option" where
  "lower_expiry nal =
     (case nal of None \<Rightarrow> Inr None | Some x \<Rightarrow> if x = 0 then Inl Trap else Inr (Some (x - 1)))"

definition lower_rule :: "host \<Rightarrow> policy_doc \<Rightarrow> rule \<Rightarrow> lower_error failure + lowered_rule" where
  "lower_rule h doc r =
     and_then (principal_floor (r_name r) (r_principals r)) (\<lambda>(signer_ids, signer_floor).
     and_then (collect_results (resolve_signer doc (r_name r)) signer_ids) (\<lambda>signers.
     and_then (lower_cap (r_name r) (r_cap r)) (\<lambda>cap.
     let constraint_free =
           is_all (r_principals r) \<and> r_functions r = None \<and> r_args r = None \<and> cap = None
     in and_then (if constraint_free then Inr None
                  else and_then (build_program h r signer_floor) (\<lambda>program.
                       Inr (Some \<lparr>ip_program = program, ip_doc_hash = rule_hash_onchain h r\<rparr>))) (\<lambda>install.
        and_then (lower_expiry (r_not_after_ledger r)) (\<lambda>valid_until.
        Inr \<lparr>lr_name = r_name r, lr_scope = lower_scope (r_scope r), lr_signers = signers,
             lr_valid_until = valid_until, lr_install = install, lr_cap = cap\<rparr>)))))"

definition compile :: "host \<Rightarrow> policy_doc \<Rightarrow> compile_config \<Rightarrow> lower_error failure + plan" where
  "compile h doc cfg =
     and_then (collect_results (lower_rule h doc) (d_rules doc)) (\<lambda>rules.
     Inr \<lparr>pl_rules = rules,
          pl_interpreter_wasm_hash =
            (if list_ex (\<lambda>r. lr_install r \<noteq> None) rules then Some (cfg_interpreter_wasm_hash cfg) else None)\<rparr>)"

section \<open>Static analysis (analysis.rs)\<close>

datatype fn_set = Fn_Any | Fn_Only "string list"

record reachable_scope =
  rs_rule :: string
  rs_scope :: scope_spec
  rs_functions :: fn_set

record prog_bounds =
  pb_ops :: u32
  pb_max_stack_depth :: u32

definition fits :: "prog_bounds \<Rightarrow> u32 \<Rightarrow> bool" where
  "fits b max_ops \<longleftrightarrow> pb_ops b \<le> max_ops"

text \<open>Appending the symbols not yet present, in order.\<close>

definition push_new :: "'a list \<Rightarrow> 'a \<Rightarrow> 'a list" where
  "push_new fns s = (if s \<in> set fns then fns else fns @ [s])"

fun collect_fns :: "op list \<Rightarrow> string list \<Rightarrow> bool \<Rightarrow> string list \<times> bool" where
  "collect_fns [] fns saw = (fns, saw)"
| "collect_fns (p # ps) fns saw =
     (case p of
        Op_FnIn syms \<Rightarrow> collect_fns ps (foldl push_new fns syms) True
      | _ \<Rightarrow> collect_fns ps fns saw)"

definition rule_functions :: "lowered_rule \<Rightarrow> fn_set" where
  "rule_functions r =
     (case lr_install r of
        None \<Rightarrow> Fn_Any
      | Some install \<Rightarrow>
          (let (fns, saw_fnin) = collect_fns (rp_ops (ip_program install)) [] False
           in if saw_fnin then Fn_Only fns else Fn_Any))"

definition reachable_calls :: "plan \<Rightarrow> reachable_scope list" where
  "reachable_calls p =
     map (\<lambda>r. \<lparr>rs_rule = lr_name r, rs_scope = lr_scope r, rs_functions = rule_functions r\<rparr>) (pl_rules p)"

fun op_pops :: "op \<Rightarrow> u32" where
  "op_pops (Op_All n) = n"
| "op_pops (Op_Any n) = n"
| "op_pops Op_Not = 1"
| "op_pops _ = 0"

fun bounds_loop :: "op list \<Rightarrow> u32 \<Rightarrow> u32 \<Rightarrow> u32" where
  "bounds_loop [] depth max_depth = max_depth"
| "bounds_loop (p # ps) depth max_depth =
     (let depth' = saturating_add (saturating_sub depth (op_pops p)) 1
      in bounds_loop ps depth' (max max_depth depth'))"

definition program_bounds :: "rpn_program \<Rightarrow> prog_bounds" where
  "program_bounds prog =
     \<lparr>pb_ops = word_of_nat (length (rp_ops prog)), pb_max_stack_depth = bounds_loop (rp_ops prog) 0 0\<rparr>"

type_synonym interval = "verdict \<times> verdict"

fun leaf_interval :: "op \<Rightarrow> interval" where
  "leaf_interval (Op_MinSigners n) = (if n = 0 then (VTrue, VTrue) else (VFalse, VTrue))"
| "leaf_interval (Op_LedgerBefore n) = (if n = 0 then (VFalse, VFalse) else (VFalse, VTrue))"
| "leaf_interval _ = (VFalse, VTrue)"

text \<open>The pop loops: \<open>n\<close> entries from the top, folded into the two bounds.\<close>

definition fold_interval :: "(verdict \<Rightarrow> verdict \<Rightarrow> verdict) \<Rightarrow> verdict \<Rightarrow> interval list \<Rightarrow> interval" where
  "fold_interval f v ivs = foldl (\<lambda>(lo, hi) (l, h). (f lo l, f hi h)) (v, v) ivs"

text \<open>The analyser's stack, top first; \<open>None\<close> is \<open>return Verdict::Unknown\<close>.\<close>

fun interval_step :: "op \<Rightarrow> interval list \<Rightarrow> interval list option" where
  "interval_step (Op_All n) st =
     (if n = 0 \<or> length st < unat n then None
      else Some (fold_interval min VTrue (take (unat n) st) # drop (unat n) st))"
| "interval_step (Op_Any n) st =
     (if n = 0 \<or> length st < unat n then None
      else Some (fold_interval max VFalse (take (unat n) st) # drop (unat n) st))"
| "interval_step Op_Not st =
     (case st of [] \<Rightarrow> None | (lo, hi) # st' \<Rightarrow> Some ((verdict_not hi, verdict_not lo) # st'))"
| "interval_step p st = Some (leaf_interval p # st)"

fun interval_loop :: "op list \<Rightarrow> interval list \<Rightarrow> verdict" where
  "interval_loop [] st = (case st of [(_, hi)] \<Rightarrow> hi | _ \<Rightarrow> VUnknown)"
| "interval_loop (p # ps) st =
     (case interval_step p st of None \<Rightarrow> VUnknown | Some st' \<Rightarrow> interval_loop ps st')"

definition max_verdict :: "rpn_program \<Rightarrow> verdict" where
  "max_verdict prog = interval_loop (rp_ops prog) []"

definition can_ever_authorize :: "rpn_program \<Rightarrow> bool" where
  "can_ever_authorize prog \<longleftrightarrow> max_verdict prog = VTrue"

section \<open>Attenuation (attenuation.rs)\<close>

datatype attenuation_error = NotANarrowing string | Compile_Error "lower_error failure"

record attenuation =
  at_parent_hash :: bytes32
  at_child_hash :: bytes32

fun fn_covers :: "fn_set \<Rightarrow> fn_set \<Rightarrow> bool" where
  "fn_covers Fn_Any _ \<longleftrightarrow> True"
| "fn_covers (Fn_Only _) Fn_Any \<longleftrightarrow> False"
| "fn_covers (Fn_Only p) (Fn_Only c) \<longleftrightarrow> list_all (\<lambda>f. f \<in> set p) c"

fun narrowing_loop :: "reachable_scope list \<Rightarrow> reachable_scope list \<Rightarrow> attenuation_error + unit" where
  "narrowing_loop parent_reach [] = Inr ()"
| "narrowing_loop parent_reach (c # cs) =
     (if list_ex (\<lambda>p. rs_scope p = rs_scope c \<and> fn_covers (rs_functions p) (rs_functions c)) parent_reach
      then narrowing_loop parent_reach cs
      else Inl (NotANarrowing (rs_rule c)))"

definition is_narrowing :: "plan \<Rightarrow> plan \<Rightarrow> attenuation_error + unit" where
  "is_narrowing parent child = narrowing_loop (reachable_calls parent) (reachable_calls child)"

definition attenuate :: "host \<Rightarrow> policy_doc \<Rightarrow> policy_doc \<Rightarrow> compile_config \<Rightarrow> attenuation_error + attenuation" where
  "attenuate h parent child cfg =
     and_then (map_err Compile_Error (compile h parent cfg)) (\<lambda>parent_plan.
     and_then (map_err Compile_Error (compile h child cfg)) (\<lambda>child_plan.
     and_then (is_narrowing parent_plan child_plan) (\<lambda>_.
     Inr \<lparr>at_parent_hash = doc_hash_onchain h parent, at_child_hash = doc_hash_onchain h child\<rparr>)))"

section \<open>Activation (activation.rs)\<close>

datatype activation_error = DocHashMismatch string

fun verify_loop :: "host \<Rightarrow> policy_doc \<Rightarrow> lowered_rule list \<Rightarrow> activation_error + unit" where
  "verify_loop h doc [] = Inr ()"
| "verify_loop h doc (l # ls) =
     (case lr_install l of
        None \<Rightarrow> verify_loop h doc ls
      | Some install \<Rightarrow>
          (let matches = (case find (\<lambda>r. r_name r = lr_name l) (d_rules doc) of
                            None \<Rightarrow> False
                          | Some r \<Rightarrow> rule_hash_onchain h r = ip_doc_hash install)
           in if \<not> matches then Inl (DocHashMismatch (lr_name l)) else verify_loop h doc ls))"

definition verify_plan_matches_doc :: "host \<Rightarrow> policy_doc \<Rightarrow> plan \<Rightarrow> activation_error + unit" where
  "verify_plan_matches_doc h doc p = verify_loop h doc (pl_rules p)"

section \<open>What a lowered program means\<close>

text \<open>The meaning of a rule, read from the document.\<close>

fun signer_floor_of :: "principals \<Rightarrow> u32" where
  "signer_floor_of (P_All signers) = max (word_of_nat (length signers)) 1"
| "signer_floor_of (P_Threshold signers m) = max m 1"
| "signer_floor_of (P_SelfAuthenticating _ _ _) = 1"

fun pred_holds :: "host \<Rightarrow> eval_inputs \<Rightarrow> u32 \<Rightarrow> arg_pred \<Rightarrow> bool" where
  "pred_holds h inp i IsSelf \<longleftrightarrow> arg_val (ei_context inp) i = Some (V_Address (ei_self_addr inp))"
| "pred_holds h inp i (AddressEq a) \<longleftrightarrow>
     (\<exists>x. h_address h a = Some x \<and> arg_val (ei_context inp) i = Some (V_Address x))"
| "pred_holds h inp i (U32Eq n) \<longleftrightarrow> arg_val (ei_context inp) i = Some (V_U32 n)"
| "pred_holds h inp i (StringIn strs) \<longleftrightarrow>
     (\<exists>s \<in> set strs. length s \<le> 256 \<and> arg_val (ei_context inp) i = Some (V_String s))"
| "pred_holds h inp i (StringPrefix p) \<longleftrightarrow>
     length p \<le> 256 \<and> (\<exists>rest. arg_val (ei_context inp) i = Some (V_String (p @ rest)))"

definition rule_allows :: "host \<Rightarrow> rule \<Rightarrow> eval_inputs \<Rightarrow> bool" where
  "rule_allows h r inp \<longleftrightarrow>
     signer_floor_of (r_principals r) \<le> ei_signer_count inp \<and>
     (case r_functions r of None \<Rightarrow> True
      | Some fs \<Rightarrow> \<exists>c. ei_context inp = Ctx_Contract c \<and> cc_fn_name c \<in> set fs) \<and>
     (case r_args r of None \<Rightarrow> True
      | Some acs \<Rightarrow> \<forall>a \<in> set acs. pred_holds h inp (ac_index a) (ac_pred a))"

text \<open>The leaves of a lowered rule.\<close>

definition lowered_leaves :: "host \<Rightarrow> rule \<Rightarrow> u32 \<Rightarrow> op list \<Rightarrow> bool" where
  "lowered_leaves h r n ls \<longleftrightarrow>
     (\<exists>args. ls = Op_MinSigners (max n 1) #
         (case r_functions r of None \<Rightarrow> [] | Some fs \<Rightarrow> [Op_FnIn fs]) @ args \<and>
       list_all2 (\<lambda>a p. lower_arg_pred h (ac_index a) (ac_pred a) = Inr p)
         (case r_args r of None \<Rightarrow> [] | Some acs \<Rightarrow> acs) args)"

lemma host_symbols_Inr: "collect_results (host_symbol h) fs = Inr syms \<Longrightarrow> syms = fs"
proof -
  assume "collect_results (host_symbol h) fs = Inr syms"
  then have "list_all2 (\<lambda>x y. host_symbol h x = Inr y) fs syms"
    by (simp add: collect_results_Inr_iff)
  then have "list_all2 (=) fs syms"
    by (rule list_all2_mono) (auto simp: host_symbol_def split: if_splits)
  then show "syms = fs" by (simp add: list.rel_eq)
qed

lemma build_program_Inr:
  assumes "build_program h r n = Inr prog"
  obtains ls where "lowered_leaves h r n ls"
    "rp_ops prog = ls @ [Op_All (word_of_nat (length ls))]" "rpn_validate prog = Inr ()"
proof -
  obtain fns args where fns: "(case r_functions r of None \<Rightarrow> Inr []
        | Some funcs \<Rightarrow> and_then (collect_results (host_symbol h) funcs) (\<lambda>syms. Inr [Op_FnIn syms])) = Inr fns"
    and args: "(case r_args r of None \<Rightarrow> Inr []
        | Some args \<Rightarrow> collect_results (\<lambda>c. lower_arg_pred h (ac_index c) (ac_pred c)) args) = Inr args"
    and prog: "rpn_validate prog = Inr ()"
      "rp_ops prog = (Op_MinSigners (max n 1) # fns @ args) @
         [Op_All (word_of_nat (length (Op_MinSigners (max n 1) # fns @ args)))]"
    using assms by (auto simp: build_program_def and_then_eq_Inr Let_def)
  have "fns = (case r_functions r of None \<Rightarrow> [] | Some fs \<Rightarrow> [Op_FnIn fs])"
    using fns host_symbols_Inr by (fastforce simp: and_then_eq_Inr split: option.splits)
  moreover have "list_all2 (\<lambda>a p. lower_arg_pred h (ac_index a) (ac_pred a) = Inr p)
      (case r_args r of None \<Rightarrow> [] | Some acs \<Rightarrow> acs) args"
    using args by (auto simp: collect_results_Inr_iff split: option.splits)
  ultimately have "lowered_leaves h r n (Op_MinSigners (max n 1) # fns @ args)"
    by (auto simp: lowered_leaves_def)
  then show thesis using that prog by blast
qed

lemma lower_arg_pred_leaf: "lower_arg_pred h i p = Inr q \<Longrightarrow> pops q = Inr 0"
  by (cases p) (auto simp: and_then_eq_Inr)

lemma lowered_leaves_pops: "lowered_leaves h r n ls \<Longrightarrow> p \<in> set ls \<Longrightarrow> pops p = Inr 0"
proof -
  assume "lowered_leaves h r n ls" and p: "p \<in> set ls"
  then obtain args where ls: "ls = Op_MinSigners (max n 1) #
      (case r_functions r of None \<Rightarrow> [] | Some fs \<Rightarrow> [Op_FnIn fs]) @ args"
    and args: "list_all2 (\<lambda>a p. lower_arg_pred h (ac_index a) (ac_pred a) = Inr p)
      (case r_args r of None \<Rightarrow> [] | Some acs \<Rightarrow> acs) args"
    by (auto simp: lowered_leaves_def)
  have "\<forall>q \<in> set args. pops q = Inr 0"
    using args by (induction rule: list_all2_induct) (auto dest: lower_arg_pred_leaf)
  then show "pops p = Inr 0" using p by (auto simp: ls split: option.splits)
qed

lemma lowered_arg_True:
  assumes "lower_arg_pred h i p = Inr q"
  shows "leaf_value now inp q = VTrue \<longleftrightarrow> pred_holds h inp i p"
  using assms
  by (cases p)
    (auto simp: leaf_value_def arg_addr_is_self_def arg_addr_eq_def arg_u32_eq_def arg_str_in_eq
      arg_str_prefix_eq arg_address_def arg_u32_def arg_string_def decoded_def verdict_of_bool_def
      and_then_eq_Inr host_address_def
      split: option.splits val.splits if_splits)

lemma run_leaves:
  "rpn_run g (ls @ ps) st = Some st' \<Longrightarrow> (\<And>p. p \<in> set ls \<Longrightarrow> pops p = Inr 0) \<Longrightarrow>
   rpn_run g ps (rev (map (\<lambda>p. g p []) ls) @ st) = Some st'"
  by (induction ls arbitrary: st) (auto split: if_splits)

lemma op_value_leaf: "pops p = Inr 0 \<Longrightarrow> op_value now inp p vs = leaf_value now inp p"
  by (cases p) (auto simp: unat_eq_zero split: if_splits)

lemma flat_program_value:
  assumes "rpn_validate prog = Inr ()" "rp_ops prog = ls @ [Op_All (word_of_nat (length ls))]"
    and leaves: "\<And>p. p \<in> set ls \<Longrightarrow> pops p = Inr 0"
  shows "rpn_eval now prog inp = kleene_all (map (leaf_value now inp) ls)"
proof -
  let ?n = "word_of_nat (length ls) :: u32"
  obtain t where t: "rpn_run (op_value now inp) (rp_ops prog) [] = Some [t]"
    and len: "length (rp_ops prog) \<le> 256"
    using assms(1) rpn_validate_run [of prog "op_value now inp"] by (auto simp: MAX_PROGRAM_LEN_def)
  have n: "unat ?n = length ls" using len assms(2) by (simp add: unat_of_nat)
  have vals: "map (\<lambda>p. op_value now inp p []) ls = map (leaf_value now inp) ls"
    using leaves by (simp add: op_value_leaf)
  have "rpn_run (op_value now inp) [Op_All ?n] (rev (map (leaf_value now inp) ls)) = Some [t]"
    using run_leaves [of "op_value now inp" ls "[Op_All ?n]" "[]" "[t]"] t assms(2) leaves vals by simp
  then have "t = kleene_all (map (leaf_value now inp) ls)"
    using n by (auto split: if_splits sum.splits)
  then show ?thesis using t by (simp add: rpn_eval_run single_verdict_def)
qed

lemma kleene_all_True: "kleene_all vs = VTrue \<longleftrightarrow> (\<forall>v \<in> set vs. v = VTrue)"
proof -
  have "v \<noteq> VTrue \<longleftrightarrow> v = VFalse \<or> v = VUnknown" for v by (cases v) auto
  then have "(\<exists>v \<in> set vs. v \<noteq> VTrue) \<longleftrightarrow> VFalse \<in> set vs \<or> VUnknown \<in> set vs" by auto
  then show ?thesis by (auto simp: kleene_all_def)
qed

lemma lowered_leaves_True:
  assumes "lowered_leaves h r n ls" "max n 1 = signer_floor_of (r_principals r)"
  shows "(\<forall>p \<in> set ls. leaf_value now inp p = VTrue) \<longleftrightarrow> rule_allows h r inp"
proof -
  obtain args where ls: "ls = Op_MinSigners (max n 1) #
         (case r_functions r of None \<Rightarrow> [] | Some fs \<Rightarrow> [Op_FnIn fs]) @ args"
    and args: "list_all2 (\<lambda>a p. lower_arg_pred h (ac_index a) (ac_pred a) = Inr p)
         (case r_args r of None \<Rightarrow> [] | Some acs \<Rightarrow> acs) args"
    using assms(1) by (auto simp: lowered_leaves_def)
  have "(\<forall>p \<in> set args. leaf_value now inp p = VTrue) \<longleftrightarrow>
      (\<forall>a \<in> set (case r_args r of None \<Rightarrow> [] | Some acs \<Rightarrow> acs). pred_holds h inp (ac_index a) (ac_pred a))"
    using args by (induction rule: list_all2_induct) (auto simp: lowered_arg_True)
  moreover have "leaf_value now inp (Op_MinSigners (max n 1)) = VTrue \<longleftrightarrow>
      signer_floor_of (r_principals r) \<le> ei_signer_count inp"
    by (simp add: leaf_value_def min_signers_def verdict_of_bool_def assms(2))
  moreover have "leaf_value now inp (Op_FnIn fs) = VTrue \<longleftrightarrow>
      (\<exists>c. ei_context inp = Ctx_Contract c \<and> cc_fn_name c \<in> set fs)" for fs
    by (auto simp: leaf_value_def fn_in_def verdict_of_bool_def list_ex_iff split: auth_context.splits)
  ultimately show ?thesis
    by (auto simp: ls rule_allows_def split: option.splits)
qed

section \<open>Lowered rules\<close>

text \<open>A rule that needs no interpreter: every signer must sign and nothing else is asked.\<close>

definition bare_rule :: "rule \<Rightarrow> bool" where
  "bare_rule r \<longleftrightarrow> is_all (r_principals r) \<and> r_functions r = None \<and> r_args r = None \<and> r_cap r = None"

fun principal_ids :: "principals \<Rightarrow> string list" where
  "principal_ids (P_All ids) = ids"
| "principal_ids (P_Threshold ids m) = ids"
| "principal_ids (P_SelfAuthenticating _ _ _) = []"

lemma principal_floor_Inr:
  "principal_floor name p = Inr (ids, n) \<Longrightarrow> ids = principal_ids p \<and> max n 1 = signer_floor_of p"
  by (cases p) auto

lemma lower_rule_Inr:
  assumes "lower_rule h doc r = Inr l"
  shows "lr_name l = r_name r" "lr_scope l = lower_scope (r_scope r)"
    and "list_all2 (\<lambda>sid spec. \<exists>s. find (\<lambda>s. sd_id s = sid) (d_signers doc) = Some s \<and>
           spec = lower_method (sd_method s)) (principal_ids (r_principals r)) (lr_signers l)"
    and "lr_install l = None \<longleftrightarrow> bare_rule r"
    and "lr_valid_until l = map_option (\<lambda>x. x - 1) (r_not_after_ledger r) \<and> r_not_after_ledger r \<noteq> Some 0"
    and "lr_install l = Some params \<Longrightarrow> ip_doc_hash params = rule_hash_onchain h r \<and>
           (\<exists>n. build_program h r n = Inr (ip_program params) \<and> max n 1 = signer_floor_of (r_principals r))"
proof -
  obtain ids n signers cap install valid where
    floor: "principal_floor (r_name r) (r_principals r) = Inr (ids, n)"
    and signers: "collect_results (resolve_signer doc (r_name r)) ids = Inr signers"
    and cap: "lower_cap (r_name r) (r_cap r) = Inr cap"
    and install: "(if is_all (r_principals r) \<and> r_functions r = None \<and> r_args r = None \<and> cap = None
       then Inr None
       else and_then (build_program h r n) (\<lambda>program.
         Inr (Some \<lparr>ip_program = program, ip_doc_hash = rule_hash_onchain h r\<rparr>))) = Inr install"
    and valid: "lower_expiry (r_not_after_ledger r) = Inr valid"
    and l: "l = \<lparr>lr_name = r_name r, lr_scope = lower_scope (r_scope r), lr_signers = signers,
             lr_valid_until = valid, lr_install = install, lr_cap = cap\<rparr>"
    using assms by (auto simp: lower_rule_def and_then_eq_Inr Let_def split: prod.splits)
  note fl = principal_floor_Inr [OF floor]
  show "lr_name l = r_name r" "lr_scope l = lower_scope (r_scope r)" by (simp_all add: l)
  show "list_all2 (\<lambda>sid spec. \<exists>s. find (\<lambda>s. sd_id s = sid) (d_signers doc) = Some s \<and>
           spec = lower_method (sd_method s)) (principal_ids (r_principals r)) (lr_signers l)"
    using signers fl by (auto simp: l collect_results_Inr_iff resolve_signer_def and_then_eq_Inr
        elim!: list_all2_mono)
  show "lr_install l = None \<longleftrightarrow> bare_rule r"
  proof -
    have "cap = None \<longleftrightarrow> r_cap r = None"
      using cap by (auto simp: lower_cap_def and_then_eq_Inr split: option.splits)
    then show ?thesis using install by (auto simp: l bare_rule_def and_then_eq_Inr split: if_splits)
  qed
  show "lr_valid_until l = map_option (\<lambda>x. x - 1) (r_not_after_ledger r) \<and> r_not_after_ledger r \<noteq> Some 0"
    using valid by (auto simp: l lower_expiry_def split: option.splits if_splits)
  show "ip_doc_hash params = rule_hash_onchain h r \<and>
      (\<exists>n. build_program h r n = Inr (ip_program params) \<and> max n 1 = signer_floor_of (r_principals r))"
    if "lr_install l = Some params"
    using that install fl by (auto simp: l and_then_eq_Inr split: if_splits)
qed

lemma lowered_program_value:
  assumes "lower_rule h doc r = Inr l" "lr_install l = Some params"
  shows "rpn_validate (ip_program params) = Inr ()"
    and "rpn_eval now (ip_program params) inp = VTrue \<longleftrightarrow> rule_allows h r inp"
proof -
  obtain n where n: "build_program h r n = Inr (ip_program params)" "max n 1 = signer_floor_of (r_principals r)"
    using lower_rule_Inr(6) [OF assms] by blast
  obtain ls where ls: "lowered_leaves h r n ls"
    "rp_ops (ip_program params) = ls @ [Op_All (word_of_nat (length ls))]"
    and v: "rpn_validate (ip_program params) = Inr ()"
    using n(1) by (rule build_program_Inr)
  show "rpn_validate (ip_program params) = Inr ()" by (fact v)
  have "rpn_eval now (ip_program params) inp = kleene_all (map (leaf_value now inp) ls)"
    by (rule flat_program_value [OF v ls(2)]) (rule lowered_leaves_pops [OF ls(1)])
  then show "rpn_eval now (ip_program params) inp = VTrue \<longleftrightarrow> rule_allows h r inp"
    using lowered_leaves_True [OF ls(1) n(2), of now inp] by (simp add: kleene_all_True)
qed

lemma compile_Inr:
  "compile h doc cfg = Inr p \<Longrightarrow> list_all2 (\<lambda>r l. lower_rule h doc r = Inr l) (d_rules doc) (pl_rules p)"
  by (auto simp: compile_def and_then_eq_Inr collect_results_Inr_iff)

lemma compile_rule_of:
  assumes "compile h doc cfg = Inr p" "l \<in> set (pl_rules p)"
  obtains r where "r \<in> set (d_rules doc)" "lower_rule h doc r = Inr l"
proof -
  obtain i where "i < length (pl_rules p)" "l = pl_rules p ! i"
    using assms(2) by (auto simp: in_set_conv_nth)
  then show thesis
    using compile_Inr [OF assms(1)] that [of "d_rules doc ! i"] by (simp add: list_all2_conv_all_nth)
qed

section \<open>Compilation succeeds\<close>

text \<open>How many conditions a constrained rule has.\<close>

definition rule_leaves :: "rule \<Rightarrow> nat" where
  "rule_leaves r =
     1 + (case r_functions r of None \<Rightarrow> 0 | Some _ \<Rightarrow> 1) +
     (case r_args r of None \<Rightarrow> 0 | Some acs \<Rightarrow> length acs)"

definition expressible :: "rule \<Rightarrow> bool" where
  "expressible r \<longleftrightarrow>
     (case r_principals r of P_SelfAuthenticating _ _ _ \<Rightarrow> False | _ \<Rightarrow> True) \<and>
     (bare_rule r \<or> rule_leaves r \<le> MAX_STACK_DEPTH)"

text \<open>
  What the compiler relies on of the host: \<open>Symbol::new\<close> takes every name of 1 to 32 characters
  from \<open>[a-zA-Z0-9_]\<close>, and \<open>Address::from_str\<close> decodes every strkey with a valid checksum.
\<close>

definition host_laws :: "host \<Rightarrow> bool" where
  "host_laws h \<longleftrightarrow>
     (\<forall>s. is_valid_symbol s \<longrightarrow> h_symbol_ok h s) \<and>
     (\<forall>s. is_address_shape s \<longrightarrow> h_address h s \<noteq> None)"

lemma validate_loop_leaves:
  assumes "\<And>p. p \<in> set ls \<Longrightarrow> pops p = Inr 0" "d \<le> MAX_STACK_DEPTH"
  shows "validate_loop (ls @ ps) d =
    (if d + length ls \<le> MAX_STACK_DEPTH then validate_loop ps (d + length ls) else Inl StackOverflow)"
  using assms by (induction ls arbitrary: d) auto

lemma flat_program_valid:
  assumes "\<And>p. p \<in> set ls \<Longrightarrow> pops p = Inr 0" "ls \<noteq> []"
  shows "rpn_validate \<lparr>rp_version = PROGRAM_VERSION, rp_ops = ls @ [Op_All (word_of_nat (length ls))]\<rparr> = Inr ()
     \<longleftrightarrow> length ls \<le> MAX_STACK_DEPTH"
proof -
  have one: "validate_loop [Op_All (word_of_nat (length ls))] (length ls) = Inr 1"
    if "length ls \<le> MAX_STACK_DEPTH"
  proof -
    have "unat (word_of_nat (length ls) :: u32) = length ls"
      using that by (simp add: unat_of_nat MAX_STACK_DEPTH_def)
    moreover have "(word_of_nat (length ls) :: u32) \<noteq> 0"
      using calculation assms(2) by (metis length_0_conv unsigned_0)
    ultimately show ?thesis using that by (simp add: MAX_STACK_DEPTH_def)
  qed
  have "validate_loop (ls @ [Op_All (word_of_nat (length ls))]) 0 =
      (if length ls \<le> MAX_STACK_DEPTH then Inr 1 else Inl StackOverflow)"
    using validate_loop_leaves [of ls 0 "[Op_All (word_of_nat (length ls))]"] assms(1) one by auto
  then show ?thesis using assms(2)
    by (auto simp: rpn_validate_def MAX_STACK_DEPTH_def MAX_PROGRAM_LEN_def)
qed

lemma lower_arg_pred_ok:
  "host_laws h \<Longrightarrow> wf_pred p \<Longrightarrow> \<exists>q. lower_arg_pred h i p = Inr q"
  by (cases p) (auto simp: host_laws_def host_address_def and_then_eq_Inr)

lemma build_program_ok:
  assumes "host_laws h" "wf_rule hexd declared r"
  shows "(\<exists>prog. build_program h r n = Inr prog) \<longleftrightarrow> rule_leaves r \<le> MAX_STACK_DEPTH"
proof -
  define fns where "fns = (case r_functions r of None \<Rightarrow> [] | Some fs \<Rightarrow> [Op_FnIn fs])"
  have f: "(case r_functions r of None \<Rightarrow> Inr []
      | Some funcs \<Rightarrow> and_then (collect_results (host_symbol h) funcs) (\<lambda>syms. Inr [Op_FnIn syms])) = Inr fns"
  proof (cases "r_functions r")
    case (Some fs)
    have "collect_results (host_symbol h) (map (\<lambda>x. x) fs) = Inr fs"
      using assms Some by (intro collect_results_map) (auto simp: wf_rule_def host_laws_def host_symbol_def)
    then show ?thesis using Some by (simp add: fns_def)
  qed (simp add: fns_def)
  obtain args where a: "(case r_args r of None \<Rightarrow> Inr []
      | Some args \<Rightarrow> collect_results (\<lambda>c. lower_arg_pred h (ac_index c) (ac_pred c)) args) = Inr args"
    "length args = (case r_args r of None \<Rightarrow> 0 | Some acs \<Rightarrow> length acs)"
    "\<forall>q \<in> set args. pops q = Inr 0"
  proof (cases "r_args r")
    case (Some acs)
    have "\<forall>c \<in> set acs. \<exists>q. lower_arg_pred h (ac_index c) (ac_pred c) = Inr q"
      using assms Some by (auto simp: wf_rule_def intro: lower_arg_pred_ok)
    then obtain args where args: "collect_results (\<lambda>c. lower_arg_pred h (ac_index c) (ac_pred c)) acs = Inr args"
      using collect_results_ex [of "\<lambda>c. lower_arg_pred h (ac_index c) (ac_pred c)" acs] by auto
    have "\<forall>q \<in> set args. pops q = Inr 0"
      using args unfolding collect_results_Inr_iff
      by (induction rule: list_all2_induct) (auto dest: lower_arg_pred_leaf)
    then show thesis using args Some that collect_results_length [OF args] by simp
  qed (use that in simp)
  define ls where "ls = Op_MinSigners (max n 1) # fns @ args"
  have len: "length ls = rule_leaves r"
    using a(2) by (simp add: ls_def rule_leaves_def fns_def split: option.splits)
  have "pops p = Inr 0" if "p \<in> set ls" for p
    using that a(3) by (auto simp: ls_def fns_def split: option.splits)
  then have "rpn_validate \<lparr>rp_version = PROGRAM_VERSION, rp_ops = ls @ [Op_All (word_of_nat (length ls))]\<rparr> = Inr ()
     \<longleftrightarrow> length ls \<le> MAX_STACK_DEPTH"
    by (rule flat_program_valid) (simp_all add: ls_def)
  moreover have "build_program h r n =
      and_then (map_err (\<lambda>err. Failed (LE_InvalidProgram (r_name r) err))
        (rpn_validate \<lparr>rp_version = PROGRAM_VERSION, rp_ops = ls @ [Op_All (word_of_nat (length ls))]\<rparr>))
        (\<lambda>_. Inr \<lparr>rp_version = PROGRAM_VERSION, rp_ops = ls @ [Op_All (word_of_nat (length ls))]\<rparr>)"
    by (simp only: build_program_def f a(1) and_then_simps Let_def ls_def)
  ultimately show ?thesis by (simp add: and_then_eq_Inr len)
qed

lemma find_declared: "sid \<in> declared_ids doc \<Longrightarrow> \<exists>s. find (\<lambda>s. sd_id s = sid) (d_signers doc) = Some s"
  by (cases "find (\<lambda>s. sd_id s = sid) (d_signers doc)") (auto simp: declared_ids_def find_None_iff)

lemma principals_resolve:
  assumes "wf_principals hexd (declared_ids doc) p"
  shows "\<exists>specs. collect_results (resolve_signer doc name) (principal_ids p) = Inr specs"
  unfolding collect_results_ex
proof
  fix sid assume "sid \<in> set (principal_ids p)"
  then have "sid \<in> declared_ids doc" using assms by (cases p) (auto simp: wf_signer_refs_def)
  then show "\<exists>y. resolve_signer doc name sid = Inr y"
    using find_declared by (fastforce simp: resolve_signer_def)
qed

lemma lower_rule_ok_aux:
  assumes "host_laws h" "wf_rule hexd (declared_ids doc) r"
    and floor: "principal_floor (r_name r) (r_principals r) = Inr (ids, n)"
  shows "(\<exists>l. lower_rule h doc r = Inr l) \<longleftrightarrow> expressible r"
proof -
  have wf: "wf_principals hexd (declared_ids doc) (r_principals r)" using assms(2) by (simp add: wf_rule_def)
  obtain specs where specs: "collect_results (resolve_signer doc (r_name r)) ids = Inr specs"
    using principals_resolve [OF wf] principal_floor_Inr [OF floor] by auto
  obtain cap where cap: "lower_cap (r_name r) (r_cap r) = Inr cap" "cap = None \<longleftrightarrow> r_cap r = None"
    using assms(2) by (cases "r_cap r") (auto simp: wf_rule_def wf_cap_def lower_cap_def)
  obtain valid where valid: "lower_expiry (r_not_after_ledger r) = Inr valid"
    using assms(2) by (cases "r_not_after_ledger r") (auto simp: wf_rule_def lower_expiry_def)
  have nsa: "case r_principals r of P_SelfAuthenticating _ _ _ \<Rightarrow> False | _ \<Rightarrow> True"
    using floor by (cases "r_principals r") auto
  show ?thesis
    using build_program_ok [OF assms(1,2), of n] nsa cap(2)
    by (auto simp: lower_rule_def floor specs cap(1) valid Let_def expressible_def bare_rule_def
        and_then_eq_Inr split: if_splits)
qed

lemma lower_rule_ok:
  assumes "host_laws h" "wf_rule hexd (declared_ids doc) r"
  shows "(\<exists>l. lower_rule h doc r = Inr l) \<longleftrightarrow> expressible r"
proof (cases "r_principals r")
  case (P_SelfAuthenticating x y z)
  then show ?thesis by (simp add: lower_rule_def expressible_def)
next
  case (P_All ids)
  show ?thesis using assms lower_rule_ok_aux [OF assms] P_All by simp
next
  case (P_Threshold ids m)
  show ?thesis using assms lower_rule_ok_aux [OF assms] P_Threshold by simp
qed

lemma compile_ok:
  assumes "host_laws h" "well_formed hexd doc"
  shows "(\<exists>p. compile h doc cfg = Inr p) \<longleftrightarrow> (\<forall>r \<in> set (d_rules doc). expressible r)"
proof -
  have "(\<exists>p. compile h doc cfg = Inr p) \<longleftrightarrow> (\<exists>ls. collect_results (lower_rule h doc) (d_rules doc) = Inr ls)"
    by (auto simp: compile_def and_then_eq_Inr)
  also have "\<dots> \<longleftrightarrow> (\<forall>r \<in> set (d_rules doc). \<exists>l. lower_rule h doc r = Inr l)"
    by (rule collect_results_ex)
  also have "\<dots> \<longleftrightarrow> (\<forall>r \<in> set (d_rules doc). expressible r)"
    using assms(2) by (intro ball_cong refl lower_rule_ok [OF assms(1)]) (auto simp: well_formed_def)
  finally show ?thesis .
qed

section \<open>Soundness of the static analysis\<close>

definition within :: "interval \<Rightarrow> verdict \<Rightarrow> bool" where
  "within iv v \<longleftrightarrow> fst iv \<le> v \<and> v \<le> snd iv"

lemma kleene_mono:
  assumes "list_all2 (\<le>) vs ws"
  shows "kleene_all vs \<le> kleene_all ws" "kleene_any vs \<le> kleene_any ws"
  using assms
  by (induction rule: list_all2_induct) (auto simp: kleene_Cons verdict_and_def verdict_or_def
      intro: min.coboundedI1 min.coboundedI2 max.coboundedI1 max.coboundedI2 min.mono max.mono)

lemma fold_interval_eq:
  "fold_interval min v ivs = (verdict_and v (kleene_all (map fst ivs)), verdict_and v (kleene_all (map snd ivs)))"
  "fold_interval max v ivs = (verdict_or v (kleene_any (map fst ivs)), verdict_or v (kleene_any (map snd ivs)))"
proof -
  have "foldl (\<lambda>(lo, hi) (l, h). (f lo l, f hi h)) (a, b) ivs = (foldl f a (map fst ivs), foldl f b (map snd ivs))"
    for f :: "verdict \<Rightarrow> verdict \<Rightarrow> verdict" and a b
    by (induction ivs arbitrary: a b) auto
  moreover have "min = verdict_and" "max = verdict_or"
    by (simp_all add: fun_eq_iff verdict_and_def verdict_or_def)
  ultimately show
    "fold_interval min v ivs = (verdict_and v (kleene_all (map fst ivs)), verdict_and v (kleene_all (map snd ivs)))"
    "fold_interval max v ivs = (verdict_or v (kleene_any (map fst ivs)), verdict_or v (kleene_any (map snd ivs)))"
    by (simp_all only: fold_interval_def foldl_verdict_and foldl_verdict_or)
qed

lemma verdict_not_antimono: "a \<le> b \<Longrightarrow> verdict_not b \<le> verdict_not a"
  by (cases a; cases b) (auto simp: less_eq_verdict_def)

lemma leaf_within: "pops p = Inr 0 \<Longrightarrow> within (leaf_interval p) (leaf_value now inp p)"
  by (cases p) (auto simp: within_def leaf_value_def min_signers_def ledger_before_def
      verdict_of_bool_def unat_eq_zero split: if_splits)

lemma within_kleene:
  assumes "list_all2 within ivs vs"
  shows "within (fold_interval min VTrue ivs) (kleene_all (rev vs))"
    "within (fold_interval max VFalse ivs) (kleene_any (rev vs))"
proof -
  have "list_all2 (\<le>) (map fst ivs) vs" "list_all2 (\<le>) vs (map snd ivs)"
    using assms by (auto simp: list_all2_conv_all_nth within_def)
  then show "within (fold_interval min VTrue ivs) (kleene_all (rev vs))"
    "within (fold_interval max VFalse ivs) (kleene_any (rev vs))"
    by (simp_all add: fold_interval_eq within_def kleene_mono)
qed

lemma interval_step_leaf: "pops p = Inr 0 \<Longrightarrow> interval_step p st = Some (leaf_interval p # st)"
  by (cases p) (auto simp: unat_eq_zero split: if_splits)

lemma interval_step_within:
  assumes "list_all2 within ivs vs" "pops p = Inr k" "k \<le> length vs"
  shows "\<exists>iv. interval_step p ivs = Some (iv # drop k ivs) \<and>
           within iv (op_value now inp p (rev (take k vs)))"
proof -
  have len: "length ivs = length vs" using assms(1) by (rule list_all2_lengthD)
  have tk: "list_all2 within (take k ivs) (take k vs)" using assms(1) by (rule list_all2_takeI)
  consider (leaf) "k = 0" | (all) n where "p = Op_All n" "n \<noteq> 0" "k = unat n"
    | (any) n where "p = Op_Any n" "n \<noteq> 0" "k = unat n" | (neg) "p = Op_Not" "k = 1"
    using assms(2) by (cases p) (auto split: if_splits)
  then show ?thesis
  proof cases
    case leaf
    then show ?thesis using assms(2) interval_step_leaf [of p ivs] leaf_within [of p now inp]
        op_value_leaf [of p now inp] by simp
  next
    case all
    then show ?thesis using assms(3) len within_kleene(1) [OF tk] by auto
  next
    case any
    then show ?thesis using assms(3) len within_kleene(2) [OF tk] by auto
  next
    case neg
    then obtain iv ivs' v vs' where "ivs = iv # ivs'" "vs = v # vs'" "within iv v"
      using assms by (cases ivs; cases vs) auto
    then show ?thesis using neg by (cases iv) (auto simp: within_def verdict_not_antimono)
  qed
qed

lemma interval_loop_sound:
  assumes "list_all2 within ivs vs" "rpn_run (op_value now inp) ops vs = Some [v]"
  shows "v \<le> interval_loop ops ivs"
  using assms
proof (induction ops arbitrary: ivs vs)
  case Nil
  then show ?case by (auto simp: list_all2_Cons2 within_def)
next
  case (Cons p ps)
  then obtain k where k: "pops p = Inr k" "k \<le> length vs"
    and run: "rpn_run (op_value now inp) ps (op_value now inp p (rev (take k vs)) # drop k vs) = Some [v]"
    by (auto split: sum.splits if_splits)
  obtain iv where iv: "interval_step p ivs = Some (iv # drop k ivs)"
    "within iv (op_value now inp p (rev (take k vs)))"
    using interval_step_within [OF Cons.prems(1) k] by blast
  have "list_all2 within (iv # drop k ivs) (op_value now inp p (rev (take k vs)) # drop k vs)"
    using iv(2) Cons.prems(1) by (simp add: list_all2_dropI)
  from Cons.IH [OF this run] show ?case using iv(1) by simp
qed

text \<open>The stack height after each op.\<close>

fun heights :: "op list \<Rightarrow> nat \<Rightarrow> nat list" where
  "heights [] d = []"
| "heights (p # ps) d = (let d' = d - unat (op_pops p) + 1 in d' # heights ps d')"

lemma pops_op_pops: "pops p = Inr k \<Longrightarrow> unat (op_pops p) = k"
  by (cases p) (auto split: if_splits)

lemma bounds_loop_heights:
  assumes "validate_loop ops (unat d) = Inr e" "unat d \<le> MAX_STACK_DEPTH"
  shows "unat (bounds_loop ops d m) = Max (set (unat m # heights ops (unat d)))
     \<and> (\<forall>x \<in> set (heights ops (unat d)). x \<le> MAX_STACK_DEPTH)"
  using assms
proof (induction ops arbitrary: d m)
  case (Cons p ps)
  obtain k where k: "pops p = Inr k" "k \<le> unat d" "unat d - k + 1 \<le> MAX_STACK_DEPTH"
    "validate_loop ps (unat d - k + 1) = Inr e"
    using Cons.prems(1) by (auto simp: and_then_eq_Inr Let_def split: if_splits)
  define d' where "d' = saturating_add (saturating_sub d (op_pops p)) 1"
  have d': "unat d' = unat d - k + 1"
    unfolding d'_def using k pops_op_pops [OF k(1)]
    by (simp add: unat_saturating_add unat_saturating_sub MAX_STACK_DEPTH_def)
  have IH: "unat (bounds_loop ps d' (max m d')) = Max (set (unat (max m d') # heights ps (unat d')))
      \<and> (\<forall>x \<in> set (heights ps (unat d')). x \<le> MAX_STACK_DEPTH)"
    by (rule Cons.IH) (use k d' in auto)
  have mx: "unat (max m d') = max (unat m) (unat d')"
    by (simp add: max_def word_le_nat_alt)
  have "Max (insert (max (unat m) (unat d')) (set (heights ps (unat d')))) =
      Max (insert (unat m) (insert (unat d') (set (heights ps (unat d')))))"
    by (cases "heights ps (unat d') = []") (auto simp: max.assoc)
  then show ?case
    using IH k(3) d' mx pops_op_pops [OF k(1)] by (simp add: Let_def flip: d'_def)
qed simp

lemma rpn_run_height:
  "rpn_run g (take (Suc i) ops) st = Some st' \<Longrightarrow> i < length ops \<Longrightarrow> length st' = heights ops (length st) ! i"
proof (induction ops arbitrary: i st)
  case (Cons p ps)
  then obtain k where k: "pops p = Inr k" "k \<le> length st"
    and run: "rpn_run g (take i ps) (g p (rev (take k st)) # drop k st) = Some st'"
    by (auto split: sum.splits if_splits)
  show ?case
  proof (cases i)
    case 0
    then show ?thesis using run k pops_op_pops [OF k(1)] by (auto simp: Let_def)
  next
    case (Suc j)
    then show ?thesis
      using Cons.IH [of j "g p (rev (take k st)) # drop k st"] run k Cons.prems(2) pops_op_pops [OF k(1)]
      by (simp add: Let_def)
  qed
qed simp

section \<open>Reachable functions\<close>

lemma foldl_push_new: "set (foldl push_new fns syms) = set fns \<union> set syms"
  by (induction syms arbitrary: fns) (auto simp: push_new_def)

lemma collect_fns_no_fnin:
  "(\<And>p syms. p \<in> set ps \<Longrightarrow> p \<noteq> Op_FnIn syms) \<Longrightarrow> collect_fns ps fns saw = (fns, saw)"
  by (induction ps) (auto split: op.splits)

lemma lower_arg_pred_not_fnin: "lower_arg_pred h i p = Inr q \<Longrightarrow> q \<noteq> Op_FnIn syms"
  by (cases p) (auto simp: and_then_eq_Inr)

text \<open>For a compiled rule the analysis is exact.\<close>

lemma rule_functions_compiled:
  assumes "lower_rule h doc r = Inr l"
  shows "case r_functions r of
           None \<Rightarrow> rule_functions l = Fn_Any
         | Some fs \<Rightarrow> \<exists>fns. rule_functions l = Fn_Only fns \<and> set fns = set fs"
proof (cases "lr_install l")
  case None
  then have "r_functions r = None" using lower_rule_Inr(4) [OF assms] by (simp add: bare_rule_def)
  then show ?thesis using None by (simp add: rule_functions_def)
next
  case (Some params)
  obtain n ls where ls: "lowered_leaves h r n ls"
    "rp_ops (ip_program params) = ls @ [Op_All (word_of_nat (length ls))]"
    using lower_rule_Inr(6) [OF assms Some] build_program_Inr by metis
  obtain args where args: "ls = Op_MinSigners (max n 1) #
         (case r_functions r of None \<Rightarrow> [] | Some fs \<Rightarrow> [Op_FnIn fs]) @ args"
    "list_all2 (\<lambda>a p. lower_arg_pred h (ac_index a) (ac_pred a) = Inr p)
         (case r_args r of None \<Rightarrow> [] | Some acs \<Rightarrow> acs) args"
    using ls(1) by (auto simp: lowered_leaves_def)
  have "\<forall>q \<in> set args. \<forall>syms. q \<noteq> Op_FnIn syms"
    using args(2) by (induction rule: list_all2_induct) (auto dest: lower_arg_pred_not_fnin)
  then have "collect_fns (args @ [Op_All x]) fns saw = (fns, saw)" for x fns saw
    by (intro collect_fns_no_fnin) auto
  then show ?thesis
    using Some ls(2) args(1) by (auto simp: rule_functions_def foldl_push_new split: option.splits)
qed

fun fn_mem :: "string \<Rightarrow> fn_set \<Rightarrow> bool" where
  "fn_mem f Fn_Any \<longleftrightarrow> True"
| "fn_mem f (Fn_Only fns) \<longleftrightarrow> f \<in> set fns"

lemma fn_covers_mem: "fn_covers p c \<Longrightarrow> fn_mem f c \<Longrightarrow> fn_mem f p"
  by (cases "(p, c)" rule: fn_covers.cases) (auto simp: list_all_iff)

lemma narrowing_loop_Inr:
  "narrowing_loop ps cs = Inr () \<longleftrightarrow>
     (\<forall>c \<in> set cs. \<exists>p \<in> set ps. rs_scope p = rs_scope c \<and> fn_covers (rs_functions p) (rs_functions c))"
  by (induction cs) (auto simp: list_ex_iff)

text \<open>What the account lets through on one lowered rule, besides the signatures.\<close>

definition lowered_allows :: "lowered_rule \<Rightarrow> ledger_seq \<Rightarrow> eval_inputs \<Rightarrow> bool" where
  "lowered_allows l now inp \<longleftrightarrow>
     (case lr_install l of None \<Rightarrow> True | Some params \<Rightarrow> rpn_eval now (ip_program params) inp = VTrue)"

lemma compiled_allows_reachable:
  assumes "lower_rule h doc r = Inr l" "lowered_allows l now inp" "ei_context inp = Ctx_Contract c"
  shows "fn_mem (cc_fn_name c) (rule_functions l)"
proof (cases "lr_install l")
  case (Some params)
  then have "rule_allows h r inp"
    using assms lowered_program_value(2) [OF assms(1) Some] by (simp add: lowered_allows_def)
  then show ?thesis
    using rule_functions_compiled [OF assms(1)] assms(3) by (auto simp: rule_allows_def split: option.splits)
qed (simp add: rule_functions_def)

section \<open>Activation\<close>

lemma verify_loop_Inr:
  "verify_loop h doc ls = Inr () \<longleftrightarrow>
     (\<forall>l \<in> set ls. \<forall>params. lr_install l = Some params \<longrightarrow>
        (\<exists>r. find (\<lambda>r. r_name r = lr_name l) (d_rules doc) = Some r \<and>
             rule_hash_onchain h r = ip_doc_hash params))"
  by (induction ls) (auto split: option.splits)

lemma find_distinct_name:
  "distinct (map r_name rs) \<Longrightarrow> r \<in> set rs \<Longrightarrow> find (\<lambda>x. r_name x = r_name r) rs = Some r"
  by (induction rs) auto

section \<open>A document to evaluate\<close>

text \<open>An administrator who may do anything to the account, and one payment rule.\<close>

definition demo_hexd :: hex_decode where
  "demo_hexd s = (if s = ''00'' then Some [0] else None)"

definition demo_host :: host where
  "demo_host = \<lparr>h_sha256 = (\<lambda>bs. word_of_nat (length bs)), h_address = (\<lambda>s. Some (ContractId 7)), h_symbol_ok = (\<lambda>s. True)\<rparr>"

definition demo_admin :: rule where
  "demo_admin = \<lparr>r_name = ''admin'', r_scope = Scope_SelfAdmin, r_principals = P_All [''ops''],
     r_functions = None, r_args = None, r_not_after_ledger = None, r_cap = None\<rparr>"

definition demo_pay :: rule where
  "demo_pay = \<lparr>r_name = ''pay'',
     r_scope = Scope_Contract ''CAAAAAAAAAAAAAAAAAAAAAAAAAAAAAAAAAAAAAAAAAAAAAAAAAAAD2KM'',
     r_principals = P_All [''ops''], r_functions = Some [''transfer''],
     r_args = Some [\<lparr>ac_index = 0, ac_pred = IsSelf\<rparr>], r_not_after_ledger = Some 1000, r_cap = None\<rparr>"

definition demo_doc :: policy_doc where
  "demo_doc = \<lparr>d_version = 1, d_network = None,
     d_signers = [\<lparr>sd_id = ''ops'', sd_method = External ''CA7QYNF7SOWQ3GLR2BGMZEHXAVIRZA4KVWLTJJFC7MGXUA74P7UJUWDA'' ''00''\<rparr>],
     d_rules = [demo_admin, demo_pay], d_recovery = None\<rparr>"

definition demo_program :: rpn_program where
  "demo_program = \<lparr>rp_version = 1, rp_ops = [Op_MinSigners 1, Op_FnIn [''transfer''], Op_ArgAddrIsSelf 0, Op_All 3]\<rparr>"

definition demo_plan :: plan where
  "demo_plan = \<lparr>pl_rules =
     [\<lparr>lr_name = ''admin'', lr_scope = ScopeSpec_SelfAdmin,
       lr_signers = [SignerSpec_External ''CA7QYNF7SOWQ3GLR2BGMZEHXAVIRZA4KVWLTJJFC7MGXUA74P7UJUWDA'' ''00''],
       lr_valid_until = None, lr_install = None, lr_cap = None\<rparr>,
      \<lparr>lr_name = ''pay'', lr_scope = ScopeSpec_Contract ''CAAAAAAAAAAAAAAAAAAAAAAAAAAAAAAAAAAAAAAAAAAAAAAAAAAAD2KM'',
       lr_signers = [SignerSpec_External ''CA7QYNF7SOWQ3GLR2BGMZEHXAVIRZA4KVWLTJJFC7MGXUA74P7UJUWDA'' ''00''],
       lr_valid_until = Some 999,
       lr_install = Some \<lparr>ip_program = demo_program, ip_doc_hash = rule_hash_onchain demo_host demo_pay\<rparr>,
       lr_cap = None\<rparr>],
     pl_interpreter_wasm_hash = Some 5\<rparr>"

lemma demo_well_formed: "well_formed demo_hexd demo_doc"
  by (simp add: well_formed_def demo_doc_def demo_admin_def demo_pay_def wf_signers_def wf_rule_def
      wf_signer_refs_def declared_ids_def demo_hexd_def demo_addresses MAX_SIGNER_KEY_LEN_def
      is_valid_symbol_def char_in_def less_eq_char_def)

lemma demo_host_laws: "host_laws demo_host"
  by (simp add: host_laws_def demo_host_def)

lemma demo_build: "build_program demo_host demo_pay 1 = Inr demo_program"
  by (simp add: build_program_def host_symbol_def demo_host_def demo_pay_def demo_program_def
      rpn_validate_def PROGRAM_VERSION_def MAX_PROGRAM_LEN_def MAX_STACK_DEPTH_def)

lemma demo_lower_pay: "lower_rule demo_host demo_doc demo_pay = Inr (pl_rules demo_plan ! 1)"
proof -
  have "principal_floor (r_name demo_pay) (r_principals demo_pay) = Inr ([''ops''], 1)"
    by (simp add: demo_pay_def)
  then show ?thesis
    using demo_build
    by (simp add: lower_rule_def resolve_signer_def demo_doc_def demo_plan_def Let_def)
      (simp add: demo_pay_def lower_cap_def lower_expiry_def)
qed

lemma demo_lower_admin: "lower_rule demo_host demo_doc demo_admin = Inr (pl_rules demo_plan ! 0)"
  by (simp add: lower_rule_def resolve_signer_def demo_doc_def demo_plan_def Let_def demo_admin_def
      lower_cap_def lower_expiry_def)

lemma demo_compile: "compile demo_host demo_doc \<lparr>cfg_interpreter_wasm_hash = 5\<rparr> = Inr demo_plan"
proof -
  have "d_rules demo_doc = [demo_admin, demo_pay]" by (simp add: demo_doc_def)
  then have "collect_results (lower_rule demo_host demo_doc) (d_rules demo_doc) = Inr (pl_rules demo_plan)"
    by (simp add: demo_lower_admin demo_lower_pay) (simp add: demo_plan_def)
  then show ?thesis by (simp add: compile_def) (simp add: demo_plan_def)
qed

section \<open>Properties\<close>

text \<open>
  C4. A compiled program means its rule. For every rule of a document that compiles, the lowered
  rule keeps the name and the scope, and an attached program passes the interpreter's
  validation and evaluates to \<open>True\<close> on exactly the calls the document allows: at least the
  quorum of authenticated signers, a listed function, and every argument predicate decoded and
  satisfied. The expiry is one below the document's, because the account treats it as inclusive.
\<close>

theorem compiled_program_means_rule:
  assumes "compile h doc cfg = Inr p"
  shows "list_all2 (\<lambda>r l. lr_name l = r_name r \<and> lr_scope l = lower_scope (r_scope r) \<and>
     lr_valid_until l = map_option (\<lambda>x. x - 1) (r_not_after_ledger r) \<and>
     (\<forall>params. lr_install l = Some params \<longrightarrow>
        rpn_validate (ip_program params) = Inr () \<and>
        (\<forall>now inp. rpn_eval now (ip_program params) inp = VTrue \<longleftrightarrow> rule_allows h r inp)))
     (d_rules doc) (pl_rules p)"
  using compile_Inr [OF assms]
proof (rule list_all2_mono)
  fix r l assume l: "lower_rule h doc r = Inr l"
  show "lr_name l = r_name r \<and> lr_scope l = lower_scope (r_scope r) \<and>
     lr_valid_until l = map_option (\<lambda>x. x - 1) (r_not_after_ledger r) \<and>
     (\<forall>params. lr_install l = Some params \<longrightarrow>
        rpn_validate (ip_program params) = Inr () \<and>
        (\<forall>now inp. rpn_eval now (ip_program params) inp = VTrue \<longleftrightarrow> rule_allows h r inp))"
    using lower_rule_Inr(1,2,5) [OF l] lowered_program_value [OF l] by blast
qed

text \<open>Witness of C4: the payment rule allows its owner's transfer.\<close>

theorem compiled_program_means_rule_witness:
  "rpn_eval 7 demo_program
     \<lparr>ei_context = Ctx_Contract \<lparr>cc_contract = ContractId 0, cc_fn_name = ''transfer'', cc_args = [V_Address (ContractId 1)]\<rparr>,
      ei_signer_count = 1, ei_self_addr = ContractId 1\<rparr> = VTrue"
proof -
  have "rule_allows demo_host demo_pay
     \<lparr>ei_context = Ctx_Contract \<lparr>cc_contract = ContractId 0, cc_fn_name = ''transfer'', cc_args = [V_Address (ContractId 1)]\<rparr>,
      ei_signer_count = 1, ei_self_addr = ContractId 1\<rparr>"
    by (simp add: rule_allows_def demo_pay_def arg_val_def)
  then show ?thesis
    using compiled_program_means_rule [OF demo_compile]
    by (simp add: demo_plan_def demo_doc_def)
qed

text \<open>
  C20. The two invariants of the compiler. INV-1: on a validated document no lowered rule can be
  satisfied without signatures: a policy-free rule lists at least one signer and lists all of
  the rule's signers (the account then requires every one of them), and an attached program
  authorizes only with at least the quorum of authenticated signers, which is at least one.
  INV-2: a rule is policy-free exactly when it is a bare all-signers rule, so a fault of the
  interpreter cannot lock out a bare administrator.
\<close>

theorem compiled_rules_need_signatures:
  assumes "compile h doc cfg = Inr p" "well_formed hexd doc"
  shows "list_all2 (\<lambda>r l. (lr_install l = None \<longleftrightarrow> bare_rule r) \<and>
     length (lr_signers l) = length (principal_ids (r_principals r)) \<and> lr_signers l \<noteq> [] \<and>
     (\<forall>params now inp. lr_install l = Some params \<longrightarrow> allows (rpn_eval now (ip_program params) inp) \<longrightarrow>
        1 \<le> ei_signer_count inp \<and> signer_floor_of (r_principals r) \<le> ei_signer_count inp))
     (d_rules doc) (pl_rules p)"
proof -
  have each: "(lr_install l = None \<longleftrightarrow> bare_rule r) \<and>
     length (lr_signers l) = length (principal_ids (r_principals r)) \<and> lr_signers l \<noteq> [] \<and>
     (\<forall>params now inp. lr_install l = Some params \<longrightarrow> allows (rpn_eval now (ip_program params) inp) \<longrightarrow>
        1 \<le> ei_signer_count inp \<and> signer_floor_of (r_principals r) \<le> ei_signer_count inp)"
    if l: "lower_rule h doc r = Inr l" and r: "r \<in> set (d_rules doc)" for r l
  proof -
    have wf: "wf_principals hexd (declared_ids doc) (r_principals r)"
      using assms(2) r by (auto simp: well_formed_def wf_rule_def)
    have len: "length (lr_signers l) = length (principal_ids (r_principals r))"
      using lower_rule_Inr(3) [OF l] by (auto dest: list_all2_lengthD)
    have "case r_principals r of P_SelfAuthenticating _ _ _ \<Rightarrow> False | _ \<Rightarrow> True"
      using l by (cases "r_principals r") (auto simp: lower_rule_def)
    then have ne: "principal_ids (r_principals r) \<noteq> []"
      using wf by (cases "r_principals r") (auto simp: wf_signer_refs_def)
    have one: "1 \<le> signer_floor_of (r_principals r)" by (cases "r_principals r") auto
    show ?thesis
      using lower_rule_Inr(4) [OF l] len ne one lowered_program_value(2) [OF l]
      by (auto simp: allows_def rule_allows_def intro: order_trans)
  qed
  show ?thesis
    using compile_Inr [OF assms(1)] each by (auto simp: list_all2_conv_all_nth)
qed

text \<open>Witness of C20: the two rules of the document above.\<close>

theorem compiled_rules_need_signatures_witness:
  "lr_install (pl_rules demo_plan ! 0) = None \<and> lr_signers (pl_rules demo_plan ! 0) \<noteq> [] \<and>
   \<not> allows (rpn_eval 7 demo_program
     \<lparr>ei_context = Ctx_CreateContractHostFn, ei_signer_count = 0, ei_self_addr = ContractId 1\<rparr>)"
  using compiled_rules_need_signatures [OF demo_compile demo_well_formed]
  by (simp add: demo_plan_def demo_doc_def) fastforce

text \<open>
  Compilation of a validated document never traps and never meets an unknown signer or a bad
  cap: it succeeds exactly when no rule is self-authenticating (which program version 1 cannot
  express) and every rule that needs a program has at most 128 conditions.
\<close>

theorem compile_succeeds_iff:
  assumes "host_laws h" "well_formed hexd doc"
  shows "(\<exists>p. compile h doc cfg = Inr p) \<longleftrightarrow> (\<forall>r \<in> set (d_rules doc). expressible r)"
  by (rule compile_ok [OF assms])

text \<open>An instance: the document above.\<close>

theorem compile_succeeds_iff_witness:
  "\<exists>p. compile demo_host demo_doc \<lparr>cfg_interpreter_wasm_hash = 6\<rparr> = Inr p"
  using compile_succeeds_iff [OF demo_host_laws demo_well_formed]
  by (simp add: demo_doc_def demo_admin_def demo_pay_def expressible_def bare_rule_def rule_leaves_def MAX_STACK_DEPTH_def)

text \<open>
  The liveness check is sound: a program that \<open>can_ever_authorize\<close> rejects never evaluates to
  \<open>True\<close>, on any call and any ledger, whether or not it validates. The best-case verdict it
  computes bounds every verdict the evaluator returns for a well-formed stack effect.
\<close>

theorem dead_program_never_authorizes:
  assumes "\<not> can_ever_authorize prog"
  shows "\<not> allows (rpn_eval now prog inp)"
proof
  assume "allows (rpn_eval now prog inp)"
  then have "single_verdict (rpn_run (op_value now inp) (rp_ops prog) []) = VTrue"
    by (simp add: allows_def rpn_eval_run)
  then have "rpn_run (op_value now inp) (rp_ops prog) [] = Some [VTrue]"
    by (auto simp: single_verdict_def split: option.splits list.splits)
  then have "VTrue \<le> max_verdict prog"
    unfolding max_verdict_def by (rule interval_loop_sound [rotated]) simp
  then show False using assms by (simp add: can_ever_authorize_def)
qed

text \<open>An instance: a rule that must run before ledger zero.\<close>

theorem dead_program_never_authorizes_witness:
  "\<not> can_ever_authorize \<lparr>rp_version = 1, rp_ops = [Op_MinSigners 1, Op_LedgerBefore 0, Op_All 2]\<rparr> \<and>
   \<not> allows (rpn_eval 7 \<lparr>rp_version = 1, rp_ops = [Op_MinSigners 1, Op_LedgerBefore 0, Op_All 2]\<rparr>
     \<lparr>ei_context = Ctx_CreateContractHostFn, ei_signer_count = 3, ei_self_addr = ContractId 1\<rparr>)"
proof -
  have d: "\<not> can_ever_authorize \<lparr>rp_version = 1, rp_ops = [Op_MinSigners 1, Op_LedgerBefore 0, Op_All 2]\<rparr>"
    by (simp add: can_ever_authorize_def max_verdict_def fold_interval_def min_def less_eq_verdict_def)
  show ?thesis using d dead_program_never_authorizes [OF d] by blast
qed

text \<open>
  The static bounds of a validated program are exact: the op count is its length, and the
  reported depth is the greatest height the verdict stack reaches after any op, so it lies
  between 1 and \<open>MAX_STACK_DEPTH\<close>.
\<close>

theorem program_bounds_exact:
  assumes "rpn_validate prog = Inr ()"
  shows "unat (pb_ops (program_bounds prog)) = length (rp_ops prog) \<and>
     unat (pb_max_stack_depth (program_bounds prog)) \<le> MAX_STACK_DEPTH \<and>
     (\<forall>i st. i < length (rp_ops prog) \<longrightarrow> rpn_run g (take (Suc i) (rp_ops prog)) [] = Some st \<longrightarrow>
        length st \<le> unat (pb_max_stack_depth (program_bounds prog))) \<and>
     (\<exists>i < length (rp_ops prog). heights (rp_ops prog) 0 ! i = unat (pb_max_stack_depth (program_bounds prog)))"
proof -
  let ?ops = "rp_ops prog" and ?m = "pb_max_stack_depth (program_bounds prog)"
  have len: "length ?ops \<le> 256" and ne: "?ops \<noteq> []" and v: "validate_loop ?ops 0 = Inr 1"
    using assms by (auto simp: rpn_validate_def MAX_PROGRAM_LEN_def and_then_eq_Inr split: if_splits)
  have hl: "length (heights ?ops 0) = length ?ops"
  proof -
    have "length (heights ps d) = length ps" for ps d by (induction ps arbitrary: d) (auto simp: Let_def)
    then show ?thesis .
  qed
  have b: "unat ?m = Max (set (0 # heights ?ops 0))" "\<forall>x \<in> set (heights ?ops 0). x \<le> MAX_STACK_DEPTH"
    using bounds_loop_heights [of ?ops 0 1 0] v by (auto simp: program_bounds_def)
  have "heights ?ops 0 \<noteq> []" using hl ne by auto
  then have max: "unat ?m = Max (set (heights ?ops 0))" using b(1) by simp
  then have "unat ?m \<in> set (heights ?ops 0)" using \<open>heights ?ops 0 \<noteq> []\<close> by (simp add: Max_in)
  then have "\<exists>i < length ?ops. heights ?ops 0 ! i = unat ?m" using hl by (metis in_set_conv_nth)
  moreover have "length st \<le> unat ?m" if "i < length ?ops" "rpn_run g (take (Suc i) ?ops) [] = Some st" for i st
    using rpn_run_height [OF that(2,1)] that(1) hl max by simp
  ultimately show ?thesis
    using len b(2) \<open>unat ?m \<in> set (heights ?ops 0)\<close> by (auto simp: program_bounds_def unat_of_nat)
qed

text \<open>An instance: the payment program reaches height three.\<close>

theorem program_bounds_exact_witness:
  "unat (pb_ops (program_bounds demo_program)) = 4 \<and>
   unat (pb_max_stack_depth (program_bounds demo_program)) \<le> 128"
proof -
  have "rpn_validate demo_program = Inr ()"
    by (simp add: demo_program_def rpn_validate_def PROGRAM_VERSION_def MAX_PROGRAM_LEN_def MAX_STACK_DEPTH_def)
  moreover have "length (rp_ops demo_program) = 4" by (simp add: demo_program_def)
  ultimately show ?thesis
    using program_bounds_exact [of demo_program "\<lambda>_ _. VTrue"] by (simp add: MAX_STACK_DEPTH_def)
qed

text \<open>
  Attenuation is sound on compiled documents: when \<open>attenuate\<close> accepts, every contract call
  that some rule of the child lets through is, by scope and function, within the reach of a
  rule of the parent with the same scope, and the link names the hashes of both documents.
\<close>

theorem attenuation_only_narrows:
  assumes "attenuate h parent child cfg = Inr link" "compile h child cfg = Inr child_plan"
    and "l \<in> set (pl_rules child_plan)" "lowered_allows l now inp" "ei_context inp = Ctx_Contract c"
  shows "\<exists>parent_plan. compile h parent cfg = Inr parent_plan \<and>
     (\<exists>k \<in> set (pl_rules parent_plan). lr_scope k = lr_scope l \<and> fn_mem (cc_fn_name c) (rule_functions k)) \<and>
     at_parent_hash link = doc_hash_onchain h parent \<and> at_child_hash link = doc_hash_onchain h child"
proof -
  obtain parent_plan where p: "compile h parent cfg = Inr parent_plan"
    and n: "is_narrowing parent_plan child_plan = Inr ()"
    and link: "link = \<lparr>at_parent_hash = doc_hash_onchain h parent, at_child_hash = doc_hash_onchain h child\<rparr>"
    using assms(1,2) by (auto simp: attenuate_def and_then_eq_Inr)
  obtain r where "lower_rule h child r = Inr l" using compile_rule_of [OF assms(2,3)] by blast
  then have "fn_mem (cc_fn_name c) (rule_functions l)"
    using compiled_allows_reachable assms(4,5) by blast
  moreover obtain k where "k \<in> set (pl_rules parent_plan)" "lr_scope k = lr_scope l"
    "fn_covers (rule_functions k) (rule_functions l)"
    using n assms(3) by (auto simp: is_narrowing_def narrowing_loop_Inr reachable_calls_def)
  ultimately show ?thesis using p link fn_covers_mem by fastforce
qed

text \<open>An instance: a document narrows itself.\<close>

theorem attenuation_only_narrows_witness:
  "\<exists>k \<in> set (pl_rules demo_plan).
     lr_scope k = ScopeSpec_Contract ''CAAAAAAAAAAAAAAAAAAAAAAAAAAAAAAAAAAAAAAAAAAAAAAAAAAAD2KM'' \<and>
     fn_mem ''transfer'' (rule_functions k)"
proof -
  let ?cfg = "\<lparr>cfg_interpreter_wasm_hash = 5\<rparr>"
  let ?inp = "\<lparr>ei_context = Ctx_Contract \<lparr>cc_contract = ContractId 0, cc_fn_name = ''transfer'', cc_args = [V_Address (ContractId 1)]\<rparr>,
      ei_signer_count = 1, ei_self_addr = ContractId 1\<rparr>"
  obtain link where a: "attenuate demo_host demo_doc demo_doc ?cfg = Inr link"
    by (simp add: attenuate_def demo_compile is_narrowing_def)
      (simp add: demo_plan_def reachable_calls_def rule_functions_def demo_program_def push_new_def)
  have "lr_install (pl_rules demo_plan ! 1) =
      Some \<lparr>ip_program = demo_program, ip_doc_hash = rule_hash_onchain demo_host demo_pay\<rparr>"
    by (simp add: demo_plan_def)
  then have ok: "lowered_allows (pl_rules demo_plan ! 1) 7 ?inp"
    using lowered_program_value(2) [OF demo_lower_pay, of _ 7 ?inp]
    by (simp add: lowered_allows_def rule_allows_def demo_pay_def arg_val_def)
  have "pl_rules demo_plan ! 1 \<in> set (pl_rules demo_plan)" by (simp add: demo_plan_def)
  from attenuation_only_narrows [OF a demo_compile this ok] show ?thesis
    by (auto simp: demo_compile) (auto simp: demo_plan_def)
qed

text \<open>
  Activation accepts exactly what was reviewed: the plan compiled from a document with
  distinct rule names passes the check against that document, and when a plan passes the check
  against another reviewed document, every attached program comes from the rule of that
  document with the same name and the same text, unless SHA-256 collides on two rule preimages.
\<close>

theorem activation_matches_review:
  assumes "compile h doc cfg = Inr p" "distinct (map r_name (d_rules doc))"
    and "\<forall>r \<in> set (d_rules doc). \<forall>r' \<in> set (d_rules reviewed).
           rule_hash_onchain h r = rule_hash_onchain h r' \<longrightarrow> rule_canonical_json r = rule_canonical_json r'"
  shows "verify_plan_matches_doc h doc p = Inr () \<and>
     (verify_plan_matches_doc h reviewed p = Inr () \<longrightarrow>
        (\<forall>r \<in> set (d_rules doc). \<not> bare_rule r \<longrightarrow> r \<in> set (d_rules reviewed)))"
proof -
  have hash: "ip_doc_hash params = rule_hash_onchain h r" "lr_name l = r_name r"
    if "lower_rule h doc r = Inr l" "lr_install l = Some params" for r l params
    using lower_rule_Inr(1) [OF that(1)] lower_rule_Inr(6) [OF that] by auto
  have "verify_plan_matches_doc h doc p = Inr ()"
    unfolding verify_plan_matches_doc_def verify_loop_Inr
  proof (intro ballI allI impI)
    fix l params assume l: "l \<in> set (pl_rules p)" "lr_install l = Some params"
    obtain r where "r \<in> set (d_rules doc)" "lower_rule h doc r = Inr l"
      using compile_rule_of [OF assms(1) l(1)] .
    then show "\<exists>r. find (\<lambda>r. r_name r = lr_name l) (d_rules doc) = Some r \<and>
        rule_hash_onchain h r = ip_doc_hash params"
      using find_distinct_name [OF assms(2)] hash l(2) by metis
  qed
  moreover have "r \<in> set (d_rules reviewed)"
    if v: "verify_plan_matches_doc h reviewed p = Inr ()" and r: "r \<in> set (d_rules doc)" "\<not> bare_rule r" for r
  proof -
    obtain i where "i < length (d_rules doc)" "r = d_rules doc ! i" using r(1) by (auto simp: in_set_conv_nth)
    then obtain l where l: "l \<in> set (pl_rules p)" "lower_rule h doc r = Inr l"
      using compile_Inr [OF assms(1)] by (simp add: list_all2_conv_all_nth) (metis nth_mem)
    obtain params where params: "lr_install l = Some params"
      using lower_rule_Inr(4) [OF l(2)] r(2) by auto
    obtain r' where r': "find (\<lambda>r. r_name r = lr_name l) (d_rules reviewed) = Some r'"
      "rule_hash_onchain h r' = ip_doc_hash params"
      using v l(1) params by (auto simp: verify_plan_matches_doc_def verify_loop_Inr)
    have mem: "r' \<in> set (d_rules reviewed)" using r'(1) by (auto simp: find_Some_iff)
    then have "rule_canonical_json r = rule_canonical_json r'"
      using assms(3) r(1) r'(2) hash(1) [OF l(2) params] by auto
    then show ?thesis using mem by (simp add: rule_canonical_json_inject)
  qed
  ultimately show ?thesis by blast
qed

text \<open>An instance: the compiled plan against its own document.\<close>

theorem activation_matches_review_witness:
  "verify_plan_matches_doc demo_host demo_doc demo_plan = Inr ()"
proof -
  have d: "distinct (map r_name (d_rules demo_doc))"
    by (simp add: demo_doc_def demo_admin_def demo_pay_def)
  have c: "\<forall>r \<in> set (d_rules demo_doc). \<forall>r' \<in> set ([] :: rule list).
      rule_hash_onchain demo_host r = rule_hash_onchain demo_host r' \<longrightarrow> rule_canonical_json r = rule_canonical_json r'"
    by simp
  show ?thesis
    using activation_matches_review [OF demo_compile d, of "demo_doc\<lparr>d_rules := []\<rparr>"] c by simp
qed

text \<open>
  Reachability is exact only for compiled programs. For a hand-built plan the union of the
  \<open>FnIn\<close> lists is not an upper bound, contrary to the comment on \<open>reachable_calls\<close>: under a
  negation the program authorizes every function but the listed one.
\<close>

theorem reachable_calls_misses_negation:
  "let params = \<lparr>ip_program = \<lparr>rp_version = 1, rp_ops = [Op_FnIn [''burn''], Op_Not]\<rparr>, ip_doc_hash = 0\<rparr>;
       l = \<lparr>lr_name = ''x'', lr_scope = ScopeSpec_SelfAdmin, lr_signers = [], lr_valid_until = None,
            lr_install = Some params, lr_cap = None\<rparr>
   in rpn_validate (ip_program params) = Inr () \<and> rule_functions l = Fn_Only [''burn''] \<and>
      rpn_eval 7 (ip_program params)
        \<lparr>ei_context = Ctx_Contract \<lparr>cc_contract = ContractId 0, cc_fn_name = ''mint'', cc_args = []\<rparr>,
         ei_signer_count = 1, ei_self_addr = ContractId 1\<rparr> = VTrue"
  by (simp add: rpn_validate_def PROGRAM_VERSION_def MAX_PROGRAM_LEN_def MAX_STACK_DEPTH_def
      rule_functions_def push_new_def rpn_eval_def fn_in_def verdict_of_bool_def)

end
