(* ===== verification/Conformance.thy ===== *)
theory Conformance
  imports Compile
begin

text \<open>
  The conformance vectors of the evaluator (\<open>crates/perch-conformance/src/lib.rs\<close>): the
  hand-authored table of programs and invocations with the expected outcome of validation and the
  expected verdict, and the code that runs a case. Generated addresses are a parameter. The
  theorem replays the whole table against the model of \<open>rpn.rs\<close>.
\<close>

section \<open>Cases\<close>

datatype val_spec =
    VS_U32 u32 | VS_I128 i128 | VS_Address string | VS_Symbol string | VS_Str string | VS_Bytes bytes | VS_Void

datatype op_spec =
    OS_All u32
  | OS_Any u32
  | OS_Not
  | OS_MinSigners u32
  | OS_FnIn "string list"
  | OS_ArgAddrEq u32 string
  | OS_ArgAddrIsSelf u32
  | OS_ArgSymEq u32 string
  | OS_ArgStrIn u32 "string list"
  | OS_ArgStrPrefix u32 string
  | OS_ArgBytesEq u32 bytes
  | OS_ArgI128Eq u32 i128
  | OS_ArgU32Eq u32 u32
  | OS_ArgCount u32
  | OS_LedgerBefore u32
  | OS_LedgerAtOrAfter u32

datatype ctx_kind = CK_Contract | CK_NonContract

record inv_spec =
  iv_ctx :: ctx_kind
  iv_fn_name :: string
  iv_args :: "val_spec list"
  iv_signer_count :: u32
  iv_ledger :: u32

record conf_case =
  cf_name :: string
  cf_pins :: string
  cf_version :: u32
  cf_ops :: "op_spec list"
  cf_inv :: inv_spec
  cf_expect_valid :: "string + unit"
  cf_expect_verdict :: verdict

fun validation_error_name :: "program_error \<Rightarrow> string" where
  "validation_error_name UnknownVersion = ''unknown-version''"
| "validation_error_name Empty = ''empty''"
| "validation_error_name TooLarge = ''too-large''"
| "validation_error_name ArityMismatch = ''arity-mismatch''"
| "validation_error_name StackUnderflow = ''stack-underflow''"
| "validation_error_name StackOverflow = ''stack-overflow''"
| "validation_error_name NotSingleResult = ''not-single-result''"

fun verdict_name :: "verdict \<Rightarrow> string" where
  "verdict_name VTrue = ''true''"
| "verdict_name VUnknown = ''unknown''"
| "verdict_name VFalse = ''false''"

definition long :: "nat \<Rightarrow> string" where
  "long n = replicate n (CHR ''a'')"

definition default_inv :: inv_spec where
  "default_inv = \<lparr>iv_ctx = CK_Contract, iv_fn_name = ''publish'',
     iv_args = [VS_U32 7, VS_Address ''self'', VS_Symbol ''kind'', VS_Str ''hello'', VS_Bytes [1, 2], VS_I128 (- 42), VS_Void],
     iv_signer_count = 1, iv_ledger = 100\<rparr>"

definition non_contract_inv :: inv_spec where
  "non_contract_inv = \<lparr>iv_ctx = CK_NonContract, iv_fn_name = [], iv_args = [], iv_signer_count = 1, iv_ledger = 100\<rparr>"

definition mk_case :: "string \<Rightarrow> string \<Rightarrow> op_spec list \<Rightarrow> inv_spec \<Rightarrow> string + unit \<Rightarrow> verdict \<Rightarrow> conf_case" where
  "mk_case name pins ops iv expect_valid expect_verdict =
     \<lparr>cf_name = name, cf_pins = pins, cf_version = PROGRAM_VERSION, cf_ops = ops, cf_inv = iv,
      cf_expect_valid = expect_valid, cf_expect_verdict = expect_verdict\<rparr>"

definition sc0 :: inv_spec where "sc0 = default_inv\<lparr>iv_signer_count := 0\<rparr>"
definition arg1_alice :: inv_spec where "arg1_alice = default_inv\<lparr>iv_args := (iv_args default_inv)[1 := VS_Address ''alice'']\<rparr>"
definition arg3_overlong :: inv_spec where "arg3_overlong = default_inv\<lparr>iv_args := (iv_args default_inv)[3 := VS_Str (long 257)]\<rparr>"
definition arg3_max :: inv_spec where "arg3_max = default_inv\<lparr>iv_args := (iv_args default_inv)[3 := VS_Str (long 256)]\<rparr>"

text \<open>The table, in its order.\<close>

definition cases_1 :: "conf_case list" where
  "cases_1 =
    [mk_case ''min-signers-met''
       (''MinSigners is >= on the authenticated-signer count'')
       [OS_MinSigners 1] default_inv (Inr ()) VTrue,
     mk_case ''min-signers-unmet''
       (''one signer does not meet a floor of two'')
       [OS_MinSigners 2] default_inv (Inr ()) VFalse,
     mk_case ''min-signers-zero-floor''
       (''MinSigners(0) is vacuously true even with zero signers'')
       [OS_MinSigners 0] sc0 (Inr ()) VTrue,
     mk_case ''min-signers-non-contract''
       (''MinSigners is context-independent: definite under a non-contract context'')
       [OS_MinSigners 1] non_contract_inv (Inr ()) VTrue,
     mk_case ''fn-in-hit''
       (''invoked function inside the allowlist'')
       [OS_FnIn [''publish'', ''other'']] default_inv (Inr ()) VTrue,
     mk_case ''fn-in-miss''
       (''invoked function outside the allowlist'')
       [OS_FnIn [''other'']] default_inv (Inr ()) VFalse,
     mk_case ''fn-in-empty-is-false''
       (''an empty allowlist is vacuously False (definite), not Unknown'')
       [OS_FnIn []] default_inv (Inr ()) VFalse,
     mk_case ''fn-in-non-contract''
       (''context leaf fails closed to Unknown outside a contract call'')
       [OS_FnIn [''publish'']] non_contract_inv (Inr ()) VUnknown,
     mk_case ''arg-addr-eq-hit''
       (''address equality on a matching argument'')
       [OS_ArgAddrEq 1 ''self''] default_inv (Inr ()) VTrue,
     mk_case ''arg-addr-eq-miss''
       (''address equality on a differing argument'')
       [OS_ArgAddrEq 1 ''alice''] default_inv (Inr ()) VFalse,
     mk_case ''arg-addr-eq-wrong-type''
       (''decode failure (u32 argument read as address) is Unknown, never False'')
       [OS_ArgAddrEq 0 ''alice''] default_inv (Inr ()) VUnknown,
     mk_case ''arg-addr-eq-missing-index''
       (''missing argument index is a decode failure'')
       [OS_ArgAddrEq 9 ''alice''] default_inv (Inr ()) VUnknown,
     mk_case ''arg-addr-is-self-hit''
       (''argument is the protected account'')
       [OS_ArgAddrIsSelf 1] default_inv (Inr ()) VTrue,
     mk_case ''arg-addr-is-self-miss''
       (''argument is some other address'')
       [OS_ArgAddrIsSelf 1] arg1_alice (Inr ()) VFalse,
     mk_case ''arg-sym-eq-hit''
       (''symbol equality hit'')
       [OS_ArgSymEq 2 ''kind''] default_inv (Inr ()) VTrue,
     mk_case ''arg-sym-eq-miss''
       (''symbol equality miss'')
       [OS_ArgSymEq 2 ''other''] default_inv (Inr ()) VFalse,
     mk_case ''arg-sym-eq-wrong-type''
       (''string argument read as symbol is a decode failure'')
       [OS_ArgSymEq 3 ''hello''] default_inv (Inr ()) VUnknown,
     mk_case ''arg-str-in-hit''
       (''string set membership hit'')
       [OS_ArgStrIn 3 [''hello'', ''x'']] default_inv (Inr ()) VTrue]"

definition cases_2 :: "conf_case list" where
  "cases_2 =
    [mk_case ''arg-str-in-miss''
       (''string set membership miss'')
       [OS_ArgStrIn 3 [''x'']] default_inv (Inr ()) VFalse,
     mk_case ''arg-str-in-overlong-arg''
       (''argument longer than MAX_STR_ARG_LEN fails closed even if the set matches textually'')
       [OS_ArgStrIn 3 [long 257]] arg3_overlong (Inr ()) VUnknown,
     mk_case ''arg-str-in-overlong-candidate-skipped''
       (''an over-long *candidate* is skipped, not fatal '' @ [CHR 0xE2, CHR 0x80, CHR 0x94] @ '' a later match still hits'')
       [OS_ArgStrIn 3 [long 257, ''hello'']] default_inv (Inr ()) VTrue,
     mk_case ''arg-str-in-only-overlong-candidates''
       (''a set of only over-long candidates simply never matches: definite False'')
       [OS_ArgStrIn 3 [long 257]] default_inv (Inr ()) VFalse,
     mk_case ''arg-str-in-256-boundary''
       (''exactly MAX_STR_ARG_LEN (256) bytes is still comparable'')
       [OS_ArgStrIn 3 [long 256]] arg3_max (Inr ()) VTrue,
     mk_case ''arg-str-prefix-hit''
       (''prefix hit'')
       [OS_ArgStrPrefix 3 ''he''] default_inv (Inr ()) VTrue,
     mk_case ''arg-str-prefix-exact-equal''
       (''a prefix equal to the whole argument matches (pn == sn)'')
       [OS_ArgStrPrefix 3 ''hello''] default_inv (Inr ()) VTrue,
     mk_case ''arg-str-prefix-longer-than-arg''
       (''a prefix longer than the argument is a definite miss, not Unknown'')
       [OS_ArgStrPrefix 3 ''hello!''] default_inv (Inr ()) VFalse,
     mk_case ''arg-str-prefix-miss''
       (''prefix miss'')
       [OS_ArgStrPrefix 3 ''x''] default_inv (Inr ()) VFalse,
     mk_case ''arg-str-prefix-empty-prefix''
       (''the empty prefix matches any decodable string argument'')
       [OS_ArgStrPrefix 3 []] default_inv (Inr ()) VTrue,
     mk_case ''arg-str-prefix-overlong-arg''
       (''over-long argument is still matched on its prefix: only the first prefix-length bytes are read, not the whole argument'')
       [OS_ArgStrPrefix 3 ''a''] arg3_overlong (Inr ()) VTrue,
     mk_case ''arg-str-prefix-overlong-prefix''
       (''an over-long *prefix* constant also fails closed (both sides are bounded)'')
       [OS_ArgStrPrefix 3 (long 257)] default_inv (Inr ()) VUnknown,
     mk_case ''arg-bytes-eq-hit''
       (''bytes equality hit'')
       [OS_ArgBytesEq 4 [1, 2]] default_inv (Inr ()) VTrue,
     mk_case ''arg-bytes-eq-miss''
       (''bytes equality miss'')
       [OS_ArgBytesEq 4 [9, 9]] default_inv (Inr ()) VFalse,
     mk_case ''arg-bytes-eq-wrong-type''
       (''u32 argument read as bytes is a decode failure'')
       [OS_ArgBytesEq 0 [1, 2]] default_inv (Inr ()) VUnknown,
     mk_case ''arg-i128-eq-hit''
       (''i128 equality hit (negative value)'')
       [OS_ArgI128Eq 5 (- 42)] default_inv (Inr ()) VTrue,
     mk_case ''arg-i128-eq-miss''
       (''i128 equality miss'')
       [OS_ArgI128Eq 5 42] default_inv (Inr ()) VFalse,
     mk_case ''arg-i128-eq-wrong-type''
       (''u32 argument is NOT implicitly widened to i128 '' @ [CHR 0xE2, CHR 0x80, CHR 0x94] @ '' strict decode, Unknown'')
       [OS_ArgI128Eq 0 7] default_inv (Inr ()) VUnknown]"

definition cases_3 :: "conf_case list" where
  "cases_3 =
    [mk_case ''arg-u32-eq-hit''
       (''u32 equality hit'')
       [OS_ArgU32Eq 0 7] default_inv (Inr ()) VTrue,
     mk_case ''arg-u32-eq-miss''
       (''u32 equality miss'')
       [OS_ArgU32Eq 0 8] default_inv (Inr ()) VFalse,
     mk_case ''arg-u32-eq-wrong-type''
       (''i128 argument read as u32 is a decode failure'')
       [OS_ArgU32Eq 5 7] default_inv (Inr ()) VUnknown,
     mk_case ''arg-u32-eq-void-arg''
       (''an undecodable (void) argument is a decode failure'')
       [OS_ArgU32Eq 6 0] default_inv (Inr ()) VUnknown,
     mk_case ''arg-count-exact''
       (''ArgCount is exact equality on the argument count'')
       [OS_ArgCount 7] default_inv (Inr ()) VTrue,
     mk_case ''arg-count-miss''
       (''ArgCount misses on any other count'')
       [OS_ArgCount 3] default_inv (Inr ()) VFalse,
     mk_case ''arg-count-non-contract''
       (''ArgCount inspects the context: Unknown outside a contract call'')
       [OS_ArgCount 0] non_contract_inv (Inr ()) VUnknown,
     mk_case ''ledger-before-true''
       (''strictly-below window is open below the bound'')
       [OS_LedgerBefore 101] default_inv (Inr ()) VTrue,
     mk_case ''ledger-before-boundary-false''
       (''LedgerBefore is strict: closed exactly at the bound'')
       [OS_LedgerBefore 100] default_inv (Inr ()) VFalse,
     mk_case ''ledger-at-or-after-boundary-true''
       (''LedgerAtOrAfter is inclusive at the bound'')
       [OS_LedgerAtOrAfter 100] default_inv (Inr ()) VTrue,
     mk_case ''ledger-at-or-after-false''
       (''LedgerAtOrAfter below the bound is False'')
       [OS_LedgerAtOrAfter 101] default_inv (Inr ()) VFalse,
     mk_case ''ledger-non-contract''
       (''ledger leaves read the env, not the context: definite under non-contract'')
       [OS_LedgerBefore 101] non_contract_inv (Inr ()) VTrue,
     mk_case ''all-true''
       (''All folds True over definite-true leaves'')
       [OS_MinSigners 0, OS_FnIn [''publish''], OS_All 2] default_inv (Inr ()) VTrue,
     mk_case ''all-false-wins''
       (''All with one False is False'')
       [OS_MinSigners 2, OS_FnIn [''publish''], OS_All 2] default_inv (Inr ()) VFalse,
     mk_case ''all-unknown-poisons-true''
       (''All(Unknown, True) is Unknown '' @ [CHR 0xE2, CHR 0x80, CHR 0x94] @ '' a decode failure can never help authorize'')
       [OS_ArgU32Eq 6 0, OS_MinSigners 0, OS_All 2] default_inv (Inr ()) VUnknown,
     mk_case ''all-false-beats-unknown''
       (''All(Unknown, False) is False '' @ [CHR 0xE2, CHR 0x80, CHR 0x94] @ '' min under False < Unknown < True'')
       [OS_ArgU32Eq 6 0, OS_MinSigners 2, OS_All 2] default_inv (Inr ()) VFalse,
     mk_case ''any-true-beats-unknown''
       (''Any(Unknown, True) is True '' @ [CHR 0xE2, CHR 0x80, CHR 0x94] @ '' max under the same order'')
       [OS_ArgU32Eq 6 0, OS_MinSigners 0, OS_Any 2] default_inv (Inr ()) VTrue,
     mk_case ''any-all-false''
       (''Any over definite-false leaves is False'')
       [OS_MinSigners 2, OS_FnIn [''other''], OS_Any 2] default_inv (Inr ()) VFalse]"

definition cases_4 :: "conf_case list" where
  "cases_4 =
    [mk_case ''any-unknown-beats-false''
       (''Any(Unknown, False) is Unknown '' @ [CHR 0xE2, CHR 0x80, CHR 0x94] @ '' an undecodable branch cannot be assumed False'')
       [OS_ArgU32Eq 6 0, OS_MinSigners 2, OS_Any 2] default_inv (Inr ()) VUnknown,
     mk_case ''not-true''
       (''Not(True) is False'')
       [OS_MinSigners 0, OS_Not] default_inv (Inr ()) VFalse,
     mk_case ''not-false''
       (''Not(False) is True'')
       [OS_MinSigners 2, OS_Not] default_inv (Inr ()) VTrue,
     mk_case ''not-unknown-stays-unknown''
       (''THE fail-open trap: a decode failure under Not must deny, not satisfy the guardrail'')
       [OS_ArgU32Eq 6 0, OS_Not] default_inv (Inr ()) VUnknown,
     mk_case ''double-not''
       (''Not is an involution on definite verdicts'')
       [OS_MinSigners 0, OS_Not, OS_Not] default_inv (Inr ()) VTrue,
     mk_case ''ci-publish-shape-allows''
       (''the motivating program: MinSigners + FnIn + ArgAddrIsSelf under All'')
       [OS_MinSigners 1, OS_FnIn [''publish'', ''publish_hash''], OS_ArgAddrIsSelf 1, OS_All 3] default_inv (Inr ()) VTrue,
     mk_case ''ci-publish-shape-denies-zero-signers''
       (''the same program fails closed with zero authenticated signers (INV-1)'')
       [OS_MinSigners 1, OS_FnIn [''publish'', ''publish_hash''], OS_ArgAddrIsSelf 1, OS_All 3] sc0 (Inr ()) VFalse,
     mk_case ''empty-program''
       (''no ops: rejected at install; eval yields no root verdict'')
       [] default_inv (Inl ''empty'') VUnknown,
     mk_case ''underflow-not''
       (''Not with an empty stack underflows'')
       [OS_Not] default_inv (Inl ''stack-underflow'') VUnknown,
     mk_case ''underflow-all''
       (''All(2) over a single pushed verdict underflows'')
       [OS_MinSigners 0, OS_All 2] default_inv (Inl ''stack-underflow'') VUnknown,
     mk_case ''zero-arity-all''
       (''All(0) has no identity element on purpose '' @ [CHR 0xE2, CHR 0x80, CHR 0x94] @ '' rejected, and eval fails closed'')
       [OS_All 0] default_inv (Inl ''arity-mismatch'') VUnknown,
     mk_case ''zero-arity-any''
       (''Any(0) likewise'')
       [OS_Any 0] default_inv (Inl ''arity-mismatch'') VUnknown,
     mk_case ''multi-result''
       (''two verdicts left on the stack is not a program'')
       [OS_MinSigners 0, OS_MinSigners 0] default_inv (Inl ''not-single-result'') VUnknown,
     mk_case ''partial-consume-multi-result''
       (''a fold that consumes only part of the stack still ends multi-result'')
       [OS_MinSigners 0, OS_MinSigners 0, OS_MinSigners 0, OS_Any 2] default_inv (Inl ''not-single-result'') VUnknown]"

definition wrong_version :: conf_case where
  "wrong_version = (mk_case ''wrong-version-eval-is-version-blind''
     ''validate rejects version 2; eval itself never reads the version field''
     [OS_MinSigners 0] default_inv (Inl ''unknown-version'') VTrue)\<lparr>cf_version := 2\<rparr>"

definition cases_5 :: "conf_case list" where
  "cases_5 =
    [wrong_version,
     mk_case ''depth-at-cap-ok'' ''a simulated depth of exactly MAX_STACK_DEPTH validates and evaluates''
       (replicate 128 (OS_MinSigners 0) @ [OS_All 128]) default_inv (Inr ()) VTrue,
     mk_case ''depth-overflow'' ''MAX_STACK_DEPTH + 1 unfolded leaves overflow the verdict stack''
       (replicate 129 (OS_MinSigners 0)) default_inv (Inl ''stack-overflow'') VUnknown,
     mk_case ''program-too-large'' ''MAX_PROGRAM_LEN + 1 ops are rejected at install''
       (replicate 257 (OS_MinSigners 0)) default_inv (Inl ''too-large'') VUnknown]"

definition cases :: "conf_case list" where
  "cases = cases_1 @ cases_2 @ cases_3 @ cases_4 @ cases_5"

section \<open>Running a case\<close>

text \<open>Names to addresses; \<open>gen\<close> is \<open>Address::generate\<close>, the address of each call in turn.\<close>

type_synonym addr_book = "(string \<times> address) list"

definition book_get :: "(nat \<Rightarrow> address) \<Rightarrow> addr_book \<Rightarrow> string \<Rightarrow> address \<times> addr_book" where
  "book_get gen book name =
     (case map_of book name of
        Some a \<Rightarrow> (a, book)
      | None \<Rightarrow> (let a = gen (length book) in (a, book @ [(name, a)])))"

fun spec_val :: "(nat \<Rightarrow> address) \<Rightarrow> addr_book \<Rightarrow> val_spec \<Rightarrow> val \<times> addr_book" where
  "spec_val gen book (VS_U32 n) = (V_U32 n, book)"
| "spec_val gen book (VS_I128 n) = (V_I128 n, book)"
| "spec_val gen book (VS_Address name) = (let (a, book') = book_get gen book name in (V_Address a, book'))"
| "spec_val gen book (VS_Symbol symb) = (V_Symbol symb, book)"
| "spec_val gen book (VS_Str txt) = (V_String txt, book)"
| "spec_val gen book (VS_Bytes b) = (V_Bytes b, book)"
| "spec_val gen book VS_Void = (V_Other 0, book)"

fun spec_op :: "(nat \<Rightarrow> address) \<Rightarrow> addr_book \<Rightarrow> op_spec \<Rightarrow> op \<times> addr_book" where
  "spec_op gen book (OS_All n) = (Op_All n, book)"
| "spec_op gen book (OS_Any n) = (Op_Any n, book)"
| "spec_op gen book OS_Not = (Op_Not, book)"
| "spec_op gen book (OS_MinSigners n) = (Op_MinSigners n, book)"
| "spec_op gen book (OS_FnIn fns) = (Op_FnIn fns, book)"
| "spec_op gen book (OS_ArgAddrEq i name) = (let (a, book') = book_get gen book name in (Op_ArgAddrEq i a, book'))"
| "spec_op gen book (OS_ArgAddrIsSelf i) = (Op_ArgAddrIsSelf i, book)"
| "spec_op gen book (OS_ArgSymEq i symb) = (Op_ArgSymEq i symb, book)"
| "spec_op gen book (OS_ArgStrIn i values) = (Op_ArgStrIn i values, book)"
| "spec_op gen book (OS_ArgStrPrefix i prefix) = (Op_ArgStrPrefix i prefix, book)"
| "spec_op gen book (OS_ArgBytesEq i b) = (Op_ArgBytesEq i b, book)"
| "spec_op gen book (OS_ArgI128Eq i n) = (Op_ArgI128Eq i n, book)"
| "spec_op gen book (OS_ArgU32Eq i n) = (Op_ArgU32Eq i n, book)"
| "spec_op gen book (OS_ArgCount n) = (Op_ArgCount n, book)"
| "spec_op gen book (OS_LedgerBefore n) = (Op_LedgerBefore n, book)"
| "spec_op gen book (OS_LedgerAtOrAfter n) = (Op_LedgerAtOrAfter n, book)"

fun thread_book :: "(addr_book \<Rightarrow> 'a \<Rightarrow> 'b \<times> addr_book) \<Rightarrow> addr_book \<Rightarrow> 'a list \<Rightarrow> 'b list \<times> addr_book" where
  "thread_book f book [] = ([], book)"
| "thread_book f book (x # xs) =
     (let (y, book1) = f book x; (ys, book2) = thread_book f book1 xs in (y # ys, book2))"

definition case_program :: "(nat \<Rightarrow> address) \<Rightarrow> addr_book \<Rightarrow> conf_case \<Rightarrow> rpn_program \<times> addr_book" where
  "case_program gen book c =
     (let (ops, book') = thread_book (spec_op gen) book (cf_ops c)
      in (\<lparr>rp_version = cf_version c, rp_ops = ops\<rparr>, book'))"

text \<open>The ledger sequence the host is set to is returned with the inputs.\<close>

definition materialize :: "(nat \<Rightarrow> address) \<Rightarrow> addr_book \<Rightarrow> conf_case \<Rightarrow> (rpn_program \<times> eval_inputs \<times> ledger_seq) \<times> addr_book" where
  "materialize gen book c =
     (let (p, book1) = case_program gen book c;
          (self, book2) = book_get gen book1 ''self'';
          (ctx, book3) = (case iv_ctx (cf_inv c) of
              CK_Contract \<Rightarrow>
                (let (args, b1) = thread_book (spec_val gen) book2 (iv_args (cf_inv c));
                     (target, b2) = book_get gen b1 ''target-contract''
                 in (Ctx_Contract \<lparr>cc_contract = target, cc_fn_name = iv_fn_name (cf_inv c), cc_args = args\<rparr>, b2))
            | CK_NonContract \<Rightarrow> (Ctx_CreateContractHostFn, book2))
      in ((p, \<lparr>ei_context = ctx, ei_signer_count = iv_signer_count (cf_inv c), ei_self_addr = self\<rparr>, iv_ledger (cf_inv c)), book3))"

definition run_case :: "(nat \<Rightarrow> address) \<Rightarrow> addr_book \<Rightarrow> conf_case \<Rightarrow> ((program_error + unit) \<times> verdict) \<times> addr_book" where
  "run_case gen book c =
     (let ((p, inputs, ledger), book') = materialize gen book c
      in ((rpn_validate p, rpn_eval ledger p inputs), book'))"

text \<open>The loop over the table, as \<open>tests/eval_vectors.rs\<close> runs it, one book for all cases.\<close>

definition as_expected :: "conf_case \<Rightarrow> (program_error + unit) \<times> verdict \<Rightarrow> bool" where
  "as_expected c r =
     ((case (cf_expect_valid c, fst r) of
         (Inr _, Inr _) \<Rightarrow> True
       | (Inl want, Inl got) \<Rightarrow> want = validation_error_name got
       | _ \<Rightarrow> False) \<and> verdict_name (cf_expect_verdict c) = verdict_name (snd r))"

fun conforms :: "(nat \<Rightarrow> address) \<Rightarrow> addr_book \<Rightarrow> conf_case list \<Rightarrow> bool" where
  "conforms gen book [] = True"
| "conforms gen book (c # cs) =
     (let (r, book') = run_case gen book c in as_expected c r \<and> conforms gen book' cs)"

section \<open>Books\<close>

text \<open>The names the table uses; a book holds them in the order of their first use.\<close>

abbreviation table_names :: "string set" where
  "table_names \<equiv> {''self'', ''alice'', ''target-contract''}"

definition book_ok :: "(nat \<Rightarrow> address) \<Rightarrow> addr_book \<Rightarrow> bool" where
  "book_ok gen b \<longleftrightarrow> distinct (map fst b) \<and> fst ` set b \<subseteq> table_names \<and> map snd b = map gen [0..<length b]"

lemma book_length: "book_ok gen b \<Longrightarrow> length b \<le> 3"
proof -
  assume "book_ok gen b"
  then have "length b = card (fst ` set b)" "fst ` set b \<subseteq> table_names"
    using distinct_card [of "map fst b"] by (simp_all add: book_ok_def)
  moreover have "card table_names = 3" by simp
  ultimately show "length b \<le> 3" using card_mono [of table_names "fst ` set b"] by simp
qed

lemma book_get_ok:
  assumes "book_ok gen b" "n \<in> table_names" "book_get gen b n = (a, b')"
  shows "book_ok gen b' \<and> map_of b \<subseteq>\<^sub>m map_of b' \<and> map_of b' n = Some a"
proof (cases "map_of b n")
  case None
  then have b': "b' = b @ [(n, gen (length b))]" "a = gen (length b)" using assms(3) by (auto simp: book_get_def Let_def)
  have "n \<notin> fst ` set b" using None by (simp add: map_of_eq_None_iff)
  then have "book_ok gen b'" using assms(1,2) unfolding book_ok_def b' by simp
  moreover have "map_of b \<subseteq>\<^sub>m map_of b'" unfolding b' using None by (auto simp: map_le_def map_add_def dom_def)
  ultimately show ?thesis unfolding b' using None by (simp add: map_add_def)
qed (use assms in \<open>simp add: book_get_def\<close>)

lemma book_inj:
  assumes ok: "book_ok gen b" and gen: "inj_on gen {..<3}" and m: "map_of b x = Some a" "map_of b y = Some a"
  shows "x = y"
proof -
  obtain i j where i: "i < length b" "b ! i = (x, a)" and j: "j < length b" "b ! j = (y, a)"
    using m [THEN map_of_SomeD] by (auto simp: in_set_conv_nth)
  have s: "snd (b ! k) = gen k" if "k < length b" for k
  proof -
    have "map snd b ! k = map gen [0..<length b] ! k" using ok by (simp add: book_ok_def)
    then show ?thesis using that by simp
  qed
  have "gen i = gen j" using s [OF i(1)] s [OF j(1)] i(2) j(2) by simp
  then have "i = j" using gen i(1) j(1) book_length [OF ok] by (auto simp: inj_on_def)
  then show ?thesis using i(2) j(2) by simp
qed

lemma thread_book_ok:
  assumes step: "\<And>b x y b'. x \<in> set xs \<Longrightarrow> book_ok gen b \<Longrightarrow> f b x = (y, b') \<Longrightarrow>
      book_ok gen b' \<and> map_of b \<subseteq>\<^sub>m map_of b' \<and> (\<forall>m. map_of b' \<subseteq>\<^sub>m m \<longrightarrow> y = g m x)"
  shows "book_ok gen b \<Longrightarrow> thread_book f b xs = (ys, b') \<Longrightarrow>
      book_ok gen b' \<and> map_of b \<subseteq>\<^sub>m map_of b' \<and> (\<forall>m. map_of b' \<subseteq>\<^sub>m m \<longrightarrow> ys = map (g m) xs)"
  using step
proof (induction xs arbitrary: b ys)
  case (Cons x xs)
  obtain y b1 zs where e: "f b x = (y, b1)" "thread_book f b1 xs = (zs, b')" "ys = y # zs"
    using Cons.prems(2) by (auto split: prod.splits)
  have 1: "book_ok gen b1" "map_of b \<subseteq>\<^sub>m map_of b1" "\<And>m. map_of b1 \<subseteq>\<^sub>m m \<Longrightarrow> y = g m x"
    using Cons.prems(3) [OF _ Cons.prems(1) e(1)] by auto
  have 2: "book_ok gen b' \<and> map_of b1 \<subseteq>\<^sub>m map_of b' \<and> (\<forall>m. map_of b' \<subseteq>\<^sub>m m \<longrightarrow> zs = map (g m) xs)"
    by (rule Cons.IH [OF 1(1) e(2)]) (rule Cons.prems(3), auto)
  then show ?case using 1 e(3) by (auto intro: map_le_trans)
qed (auto)

section \<open>The outcome of a case\<close>

text \<open>A case with the addresses of its names given by a map.\<close>

fun val_of :: "(string \<rightharpoonup> address) \<Rightarrow> val_spec \<Rightarrow> val" where
  "val_of m (VS_U32 n) = V_U32 n"
| "val_of m (VS_I128 n) = V_I128 n"
| "val_of m (VS_Address name) = V_Address (the (m name))"
| "val_of m (VS_Symbol symb) = V_Symbol symb"
| "val_of m (VS_Str txt) = V_String txt"
| "val_of m (VS_Bytes b) = V_Bytes b"
| "val_of m VS_Void = V_Other 0"

definition op_of :: "(string \<rightharpoonup> address) \<Rightarrow> op_spec \<Rightarrow> op" where
  "op_of m s = (case s of OS_ArgAddrEq i name \<Rightarrow> Op_ArgAddrEq i (the (m name)) | _ \<Rightarrow> fst (spec_op (\<lambda>_. the (m [])) [] s))"

definition outcome :: "(string \<rightharpoonup> address) \<Rightarrow> conf_case \<Rightarrow> (program_error + unit) \<times> verdict" where
  "outcome m c =
     (let p = \<lparr>rp_version = cf_version c, rp_ops = map (op_of m) (cf_ops c)\<rparr>;
          ctx = (case iv_ctx (cf_inv c) of
              CK_Contract \<Rightarrow> Ctx_Contract \<lparr>cc_contract = the (m ''target-contract''), cc_fn_name = iv_fn_name (cf_inv c),
                cc_args = map (val_of m) (iv_args (cf_inv c))\<rparr>
            | CK_NonContract \<Rightarrow> Ctx_CreateContractHostFn)
      in (rpn_validate p, rpn_eval (iv_ledger (cf_inv c)) p
           \<lparr>ei_context = ctx, ei_signer_count = iv_signer_count (cf_inv c), ei_self_addr = the (m ''self'')\<rparr>))"

fun val_names :: "val_spec \<Rightarrow> string set" where
  "val_names (VS_Address name) = {name}"
| "val_names _ = {}"

fun op_names :: "op_spec \<Rightarrow> string set" where
  "op_names (OS_ArgAddrEq i name) = {name}"
| "op_names _ = {}"

definition named_ok :: "conf_case \<Rightarrow> bool" where
  "named_ok c \<longleftrightarrow> (\<forall>p \<in> set (cf_ops c). op_names p \<subseteq> table_names) \<and> (\<forall>v \<in> set (iv_args (cf_inv c)). val_names v \<subseteq> table_names)"

lemma spec_val_ok:
  assumes "val_names v \<subseteq> table_names" "book_ok gen b" "spec_val gen b v = (y, b')"
  shows "book_ok gen b' \<and> map_of b \<subseteq>\<^sub>m map_of b' \<and> (\<forall>m. map_of b' \<subseteq>\<^sub>m m \<longrightarrow> y = val_of m v)"
proof (cases v)
  case (VS_Address n)
  obtain a where a: "book_get gen b n = (a, b')" "y = V_Address a" using assms(3) VS_Address by (auto split: prod.splits)
  then show ?thesis using book_get_ok [OF assms(2) _ a(1)] assms(1) VS_Address by (auto simp: map_le_def dom_def)
qed (use assms in auto)

lemma spec_op_ok:
  assumes "op_names p \<subseteq> table_names" "book_ok gen b" "spec_op gen b p = (y, b')"
  shows "book_ok gen b' \<and> map_of b \<subseteq>\<^sub>m map_of b' \<and> (\<forall>m. map_of b' \<subseteq>\<^sub>m m \<longrightarrow> y = op_of m p)"
proof (cases p)
  case (OS_ArgAddrEq i n)
  obtain a where a: "book_get gen b n = (a, b')" "y = Op_ArgAddrEq i a" using assms(3) OS_ArgAddrEq by (auto split: prod.splits)
  then show ?thesis using book_get_ok [OF assms(2) _ a(1)] assms(1) OS_ArgAddrEq by (auto simp: map_le_def dom_def op_of_def)
qed (use assms in \<open>auto simp: op_of_def\<close>)

lemma run_case_ok:
  assumes ok: "book_ok gen b" and c: "named_ok c" and r: "run_case gen b c = (r, b')"
  shows "book_ok gen b' \<and> (\<forall>m. map_of b' \<subseteq>\<^sub>m m \<longrightarrow> r = outcome m c)"
proof -
  obtain ops b1 self b2 where p: "thread_book (spec_op gen) b (cf_ops c) = (ops, b1)" "book_get gen b1 ''self'' = (self, b2)"
    by (metis surj_pair)
  have 1: "book_ok gen b1 \<and> map_of b \<subseteq>\<^sub>m map_of b1 \<and> (\<forall>m. map_of b1 \<subseteq>\<^sub>m m \<longrightarrow> ops = map (op_of m) (cf_ops c))"
    by (rule thread_book_ok [OF _ ok p(1)]) (rule spec_op_ok, use c in \<open>auto simp: named_ok_def\<close>)
  have 2: "book_ok gen b2 \<and> map_of b1 \<subseteq>\<^sub>m map_of b2 \<and> map_of b2 ''self'' = Some self"
    using book_get_ok [OF _ _ p(2)] 1 by simp
  show ?thesis
  proof (cases "iv_ctx (cf_inv c)")
    case CK_NonContract
    have b': "b' = b2" using r CK_NonContract by (simp add: run_case_def materialize_def case_program_def p Let_def)
    have "r = outcome m c" if m: "map_of b2 \<subseteq>\<^sub>m m" for m
    proof -
      have "map_of b1 \<subseteq>\<^sub>m m" using m 2 by (meson map_le_trans)
      then have "ops = map (op_of m) (cf_ops c)" using 1 by blast
      moreover have "m ''self'' = Some self" using m 2 by (auto simp: map_le_def dom_def)
      ultimately show ?thesis
        using r CK_NonContract by (simp add: run_case_def materialize_def case_program_def p outcome_def Let_def)
    qed
    then show ?thesis using 2 b' by blast
  next
    case CK_Contract
    obtain args b3 target b4 where q: "thread_book (spec_val gen) b2 (iv_args (cf_inv c)) = (args, b3)" "book_get gen b3 ''target-contract'' = (target, b4)"
      by (metis surj_pair)
    have 3: "book_ok gen b3 \<and> map_of b2 \<subseteq>\<^sub>m map_of b3 \<and> (\<forall>m. map_of b3 \<subseteq>\<^sub>m m \<longrightarrow> args = map (val_of m) (iv_args (cf_inv c)))"
      by (rule thread_book_ok [OF _ _ q(1)]) (rule spec_val_ok, use c 2 in \<open>auto simp: named_ok_def\<close>)
    have 4: "book_ok gen b4 \<and> map_of b3 \<subseteq>\<^sub>m map_of b4 \<and> map_of b4 ''target-contract'' = Some target"
      using book_get_ok [OF _ _ q(2)] 3 by simp
    have b': "b' = b4" using r CK_Contract by (simp add: run_case_def materialize_def case_program_def p q Let_def)
    have "r = outcome m c" if m: "map_of b4 \<subseteq>\<^sub>m m" for m
    proof -
      have le: "map_of b3 \<subseteq>\<^sub>m m" "map_of b2 \<subseteq>\<^sub>m m" "map_of b1 \<subseteq>\<^sub>m m" using m 2 3 4 by (meson map_le_trans)+
      then have "ops = map (op_of m) (cf_ops c)" "args = map (val_of m) (iv_args (cf_inv c))" using 1 3 by blast+
      moreover have "m ''self'' = Some self" "m ''target-contract'' = Some target" using le m 2 4 by (auto simp: map_le_def dom_def)
      ultimately show ?thesis
        using r CK_Contract by (simp add: run_case_def materialize_def case_program_def p q outcome_def Let_def)
    qed
    then show ?thesis using 4 b' by blast
  qed
qed

lemma conforms_if:
  assumes gen: "inj_on gen {..<3}"
    and cs: "\<forall>c \<in> set cs. named_ok c \<and> (\<forall>m. the (m ''self'') \<noteq> the (m ''alice'') \<longrightarrow> as_expected c (outcome m c))"
  shows "book_ok gen b \<Longrightarrow> conforms gen b cs"
  using cs
proof (induction cs arbitrary: b)
  case (Cons c cs)
  obtain r b' where r: "run_case gen b c = (r, b')" by (metis surj_pair)
  have c: "named_ok c" "\<And>m. the (m ''self'') \<noteq> the (m ''alice'') \<Longrightarrow> as_expected c (outcome m c)" using Cons.prems(2) by auto
  have 1: "book_ok gen b'" "\<And>m. map_of b' \<subseteq>\<^sub>m m \<Longrightarrow> r = outcome m c" using run_case_ok [OF Cons.prems(1) c(1) r] by auto
  obtain a1 b1 a2 b2 where g: "book_get gen b' ''self'' = (a1, b1)" "book_get gen b1 ''alice'' = (a2, b2)" by (metis surj_pair)
  have g1: "book_ok gen b1 \<and> map_of b' \<subseteq>\<^sub>m map_of b1 \<and> map_of b1 ''self'' = Some a1" using book_get_ok [OF 1(1) _ g(1)] by simp
  then have g2: "book_ok gen b2 \<and> map_of b1 \<subseteq>\<^sub>m map_of b2 \<and> map_of b2 ''alice'' = Some a2" using book_get_ok [OF _ _ g(2)] by simp
  then have m: "map_of b2 ''self'' = Some a1" "map_of b2 ''alice'' = Some a2" using g1 by (auto simp: map_le_def dom_def)
  have "a1 \<noteq> a2" using book_inj [OF _ gen m(1), of "''alice''"] g2 m(2) by auto
  moreover have "map_of b' \<subseteq>\<^sub>m map_of b2" using g1 g2 by (meson map_le_trans)
  ultimately have "as_expected c r" using c(2) [of "map_of b2"] 1(2) m by simp
  then show ?case using Cons.IH [OF 1(1)] Cons.prems(2) by (simp add: r)
qed simp

section \<open>The table, case by case\<close>

lemmas inv_defs = default_inv_def non_contract_inv_def sc0_def arg1_alice_def arg3_overlong_def arg3_max_def

lemmas leaf_defs = leaf_value_def min_signers_def fn_in_def arg_addr_eq_def arg_addr_is_self_def arg_sym_eq_def arg_str_in_eq
  arg_str_prefix_eq arg_bytes_eq_def arg_i128_eq_def arg_u32_eq_def arg_count_def ledger_before_def ledger_at_or_after_def
  arg_address_def arg_symbol_def arg_string_def arg_bytes_def arg_i128_def arg_u32_def arg_val_def decoded_def verdict_of_bool_def

lemmas case_defs = as_expected_def outcome_def mk_case_def op_of_def PROGRAM_VERSION_def MAX_PROGRAM_LEN_def MAX_STACK_DEPTH_def
  rpn_validate_def rpn_eval_run single_verdict_def kleene_all_def kleene_any_def

lemma long_facts [simp]: "length (long n) = n" "long 257 \<noteq> ''hello''" "''hello'' \<noteq> long 257" "(\<exists>rest. long 257 = CHR ''a'' # rest)"
  by (simp_all add: long_def numeral_eq_Suc)

lemma word_facts [simp]: "\<not> (2 :: u32) \<le> 1" "\<not> (1 :: u32) \<le> 0"
  by (simp_all add: word_le_nat_alt)

lemma cases_1_ok: "the (m ''self'') \<noteq> the (m ''alice'') \<Longrightarrow> list_all (\<lambda>c. as_expected c (outcome m c)) cases_1"
  unfolding cases_1_def list.pred_inject by (intro conjI) (simp_all add: case_defs inv_defs leaf_defs)

lemma cases_2_ok: "the (m ''self'') \<noteq> the (m ''alice'') \<Longrightarrow> list_all (\<lambda>c. as_expected c (outcome m c)) cases_2"
  unfolding cases_2_def list.pred_inject by (intro conjI) (simp_all add: case_defs inv_defs leaf_defs)

lemma cases_3_ok: "the (m ''self'') \<noteq> the (m ''alice'') \<Longrightarrow> list_all (\<lambda>c. as_expected c (outcome m c)) cases_3"
  unfolding cases_3_def list.pred_inject by (intro conjI) (simp_all add: case_defs inv_defs leaf_defs)

lemma cases_4_ok: "the (m ''self'') \<noteq> the (m ''alice'') \<Longrightarrow> list_all (\<lambda>c. as_expected c (outcome m c)) cases_4"
  unfolding cases_4_def list.pred_inject by (intro conjI) (simp_all add: case_defs inv_defs leaf_defs)

text \<open>Runs of one leaf.\<close>

lemma validate_leaves:
  "pops p = Inr 0 \<Longrightarrow> validate_loop (replicate n p @ ps) d = (if n = 0 \<or> d + n \<le> MAX_STACK_DEPTH then validate_loop ps (d + n) else Inl StackOverflow)"
  by (induction n arbitrary: d) (auto simp: Let_def)

lemma run_leaves_replicate:
  "pops p = Inr 0 \<Longrightarrow> (\<And>vs. g p vs = v) \<Longrightarrow> rpn_run g (replicate n p @ ps) st =
     (if n = 0 \<or> length st + n \<le> MAX_STACK_DEPTH then rpn_run g ps (replicate n v @ st) else None)"
  by (induction n arbitrary: st) (auto simp: replicate_app_Cons_same)

lemma cases_5_ok: "list_all (\<lambda>c. as_expected c (outcome m c)) cases_5"
proof -
  have v: "op_value now inp (Op_MinSigners 0) vs = VTrue" for now inp vs by (simp add: leaf_defs)
  have r: "rpn_run (op_value now inp) (replicate n (Op_MinSigners 0) @ ps) st =
      (if n = 0 \<or> length st + n \<le> MAX_STACK_DEPTH then rpn_run (op_value now inp) ps (replicate n VTrue @ st) else None)" for now inp n ps st
    by (rule run_leaves_replicate) (simp_all only: v, simp)
  have l: "validate_loop (replicate n (Op_MinSigners 0) @ ps) d = (if n = 0 \<or> d + n \<le> MAX_STACK_DEPTH then validate_loop ps (d + n) else Inl StackOverflow)" for n ps d
    by (rule validate_leaves) simp
  note run = r l r [of _ _ _ "[]", simplified] l [of _ "[]", simplified]
  show ?thesis
    unfolding cases_5_def wrong_version_def list.pred_inject
    by (intro conjI) (simp_all add: case_defs inv_defs leaf_defs run)
qed

lemma cases_named: "list_all named_ok cases"
  by (simp add: cases_def cases_1_def cases_2_def cases_3_def cases_4_def cases_5_def wrong_version_def named_ok_def mk_case_def inv_defs)

lemma cases_names: "distinct (map cf_name cases)"
  by (simp add: cases_def cases_1_def cases_2_def cases_3_def cases_4_def cases_5_def wrong_version_def mk_case_def)

text \<open>
  C35. The model of the program evaluator passes the repository's conformance suite: with any
  generated addresses, distinct for the three names the table uses, the run of the whole table
  from an empty address book gives for every case the hand-authored outcome of validation and
  the hand-authored verdict, and no two cases have the same name.
\<close>

theorem conformance_table_holds:
  assumes "inj_on gen {..<3}"
  shows "conforms gen [] cases \<and> length cases = 72 \<and> distinct (map cf_name cases)"
proof -
  have "as_expected c (outcome m c)" if "c \<in> set cases" "the (m ''self'') \<noteq> the (m ''alice'')" for c m
    using that cases_1_ok [of m] cases_2_ok [of m] cases_3_ok [of m] cases_4_ok [of m] cases_5_ok [of m]
    by (auto simp: cases_def list_all_iff)
  then have "conforms gen [] cases"
    using cases_named by (intro conforms_if [OF assms]) (auto simp: list_all_iff book_ok_def)
  moreover have "length cases = 72" by (simp add: cases_def cases_1_def cases_2_def cases_3_def cases_4_def cases_5_def)
  ultimately show ?thesis using cases_names by blast
qed

text \<open>Witness of C35: the addresses numbered in the order of their generation.\<close>

theorem conformance_table_holds_witness: "conforms (\<lambda>n. ContractId (word_of_nat n)) [] cases"
proof -
  have "inj_on (\<lambda>n. ContractId (word_of_nat n)) {..<3}"
    by (auto simp: inj_on_def word_unat_eq_iff unat_of_nat)
  then show ?thesis using conformance_table_holds by blast
qed

end
