(* ===== verification/Analyze.thy ===== *)
theory Analyze
  imports Compile
begin

text \<open>
  The SMT-based analyzer (\<open>crates/perch-analyze/src/lib.rs\<close>): the meaning of a rule as a term over
  one symbolic invocation, and the questions asked of z3 about it. The terms and commands the code
  writes as text are datatypes, and \<open>script_text\<close> prints them as the code does; z3 is a parameter, the
  two output texts for the text of the script it reads. The meaning of a script is that of SMT-LIB
  (a printed script can be read in one way only), a string literal standing for what SMT-LIB makes
  of its printed text. The lemmas show that the term of a rule is true of an invocation exactly
  when the rule allows it, so that an answer \<open>unsat\<close> of a sound solver is a statement about the
  compiled programs.
\<close>

section \<open>Texts\<close>

text \<open>\<open>str::lines\<close>: ended by a newline, without the carriage return before it.\<close>

definition strip_cr :: "string \<Rightarrow> string" where
  "strip_cr s = (if s \<noteq> [] \<and> last s = CHR 0x0D then butlast s else s)"

fun lines_from :: "string \<Rightarrow> string \<Rightarrow> string list" where
  "lines_from cur [] = (if cur = [] then [] else [rev cur])"
| "lines_from cur (c # s) = (if c = CHR 0x0A then strip_cr (rev cur) # lines_from [] s else lines_from (c # cur) s)"

definition str_lines :: "string \<Rightarrow> string list" where
  "str_lines s = lines_from [] s"

fun join_strs :: "string \<Rightarrow> string list \<Rightarrow> string" where
  "join_strs sep [] = []"
| "join_strs sep [s] = s"
| "join_strs sep (s # ss) = s @ sep @ join_strs sep ss"

section \<open>Terms and scripts\<close>

datatype smt_const =
    ctx_contract | fn_name | signer_count | arg_count
  | arg_type u32 | arg_addr u32 | arg_u32 u32 | arg_str u32

datatype smt_fn = F_and | F_or | F_not | F_eq | F_ge | F_le | F_lt | F_len | F_prefixof

datatype smt =
    SMT_true | SMT_false | SMT_const smt_const | SMT_int nat | SMT_str string | SMT_app smt_fn "smt list"

datatype smt_sort = S_Bool | S_Int | S_String

datatype smt_cmd = Declare smt_const smt_sort | Assert smt | Check_sat | Get_value "smt_const list"

fun const_text :: "smt_const \<Rightarrow> string" where
  "const_text ctx_contract = ''ctx_contract''"
| "const_text fn_name = ''fn_name''"
| "const_text signer_count = ''signer_count''"
| "const_text arg_count = ''arg_count''"
| "const_text (arg_type i) = ''arg'' @ u32_to_string i @ ''_type''"
| "const_text (arg_addr i) = ''arg'' @ u32_to_string i @ ''_addr''"
| "const_text (arg_u32 i) = ''arg'' @ u32_to_string i @ ''_u32''"
| "const_text (arg_str i) = ''arg'' @ u32_to_string i @ ''_str''"

fun fn_text :: "smt_fn \<Rightarrow> string" where
  "fn_text F_and = ''and''"
| "fn_text F_or = ''or''"
| "fn_text F_not = ''not''"
| "fn_text F_eq = ''=''"
| "fn_text F_ge = ''>=''"
| "fn_text F_le = ''<=''"
| "fn_text F_lt = ''<''"
| "fn_text F_len = ''str.len''"
| "fn_text F_prefixof = ''str.prefixof''"

definition smt_string :: "string \<Rightarrow> string" where
  "smt_string s = [CHR 0x22] @ concat (map (\<lambda>c. if c = CHR 0x22 then [CHR 0x22, CHR 0x22] else [c]) s) @ [CHR 0x22]"

fun smt_text :: "smt \<Rightarrow> string" where
  "smt_text SMT_true = ''true''"
| "smt_text SMT_false = ''false''"
| "smt_text (SMT_const c) = const_text c"
| "smt_text (SMT_int n) = nat_to_string n"
| "smt_text (SMT_str s) = smt_string s"
| "smt_text (SMT_app f ts) = ''('' @ fn_text f @ '' '' @ join_strs '' '' (map smt_text ts) @ '')''"

fun sort_text :: "smt_sort \<Rightarrow> string" where
  "sort_text S_Bool = ''Bool''"
| "sort_text S_Int = ''Int''"
| "sort_text S_String = ''String''"

fun cmd_text :: "smt_cmd \<Rightarrow> string" where
  "cmd_text (Declare c s) = ''(declare-const '' @ const_text c @ '' '' @ sort_text s @ '')'' @ [CHR 0x0A]"
| "cmd_text (Assert t) = ''(assert '' @ smt_text t @ '')'' @ [CHR 0x0A]"
| "cmd_text Check_sat = ''(check-sat)'' @ [CHR 0x0A]"
| "cmd_text (Get_value cs) = ''(get-value ('' @ join_strs '' '' (map const_text cs) @ ''))'' @ [CHR 0x0A]"

definition script_text :: "smt_cmd list \<Rightarrow> string" where
  "script_text cmds = concat (map cmd_text cmds)"

text \<open>The solver: what it prints on its two streams for the text of a script.\<close>

type_synonym z3 = "string \<Rightarrow> string \<times> string"

datatype z3_verdict = Z3_Sat string | Z3_Unsat | Z3_Unknown string

definition run_z3 :: "z3 \<Rightarrow> string \<Rightarrow> z3_verdict" where
  "run_z3 z script =
     (let (out, err) = z script
      in case str_lines out of
           l # ls \<Rightarrow> if l = ''unsat'' then Z3_Unsat
                     else if l = ''sat'' then Z3_Sat (join_strs [CHR 0x0A] ls)
                     else Z3_Unknown (out @ err)
         | [] \<Rightarrow> Z3_Unknown (out @ err))"

section \<open>The encoder\<close>

definition T_ADDR :: nat where "T_ADDR = 0"
definition T_U32 :: nat where "T_U32 = 1"
definition T_STR :: nat where "T_STR = 2"
definition T_OTHER :: nat where "T_OTHER = 3"

text \<open>
  The address ids are only looked up and counted; the argument indexes are read in ascending order.
\<close>

record encoder =
  en_addr_ids :: "(string \<times> u32) list"
  en_arg_indexes :: "u32 list"

definition new_encoder :: encoder where
  "new_encoder = \<lparr>en_addr_ids = [], en_arg_indexes = []\<rparr>"

definition addr_id :: "encoder \<Rightarrow> string \<Rightarrow> u32 \<times> encoder" where
  "addr_id en address =
     (case map_of (en_addr_ids en) address of
        Some i \<Rightarrow> (i, en)
      | None \<Rightarrow> (let i = word_of_nat (length (en_addr_ids en)) + 1
                 in (i, en\<lparr>en_addr_ids := (address, i) # en_addr_ids en\<rparr>)))"

definition conj_term :: "smt list \<Rightarrow> smt" where
  "conj_term parts = (case parts of [] \<Rightarrow> SMT_true | [t] \<Rightarrow> t | _ \<Rightarrow> SMT_app F_and parts)"

definition disj :: "smt list \<Rightarrow> smt" where
  "disj parts = (case parts of [] \<Rightarrow> SMT_false | [t] \<Rightarrow> t | _ \<Rightarrow> SMT_app F_or parts)"

definition const_eq :: "smt_const \<Rightarrow> smt \<Rightarrow> smt" where
  "const_eq c t = SMT_app F_eq [SMT_const c, t]"

fun pred_body :: "encoder \<Rightarrow> u32 \<Rightarrow> arg_pred \<Rightarrow> smt \<times> encoder" where
  "pred_body en i IsSelf =
     (SMT_app F_and [const_eq (arg_type i) (SMT_int T_ADDR), const_eq (arg_addr i) (SMT_int 0)], en)"
| "pred_body en i (AddressEq address) =
     (let (n, en') = addr_id en address
      in (SMT_app F_and [const_eq (arg_type i) (SMT_int T_ADDR), const_eq (arg_addr i) (SMT_int (unat n))], en'))"
| "pred_body en i (U32Eq value) =
     (SMT_app F_and [const_eq (arg_type i) (SMT_int T_U32), const_eq (arg_u32 i) (SMT_int (unat value))], en)"
| "pred_body en i (StringIn values) =
     (SMT_app F_and
        [const_eq (arg_type i) (SMT_int T_STR),
         SMT_app F_le [SMT_app F_len [SMT_const (arg_str i)], SMT_int MAX_STR_ARG_LEN],
         disj (map (\<lambda>v. const_eq (arg_str i) (SMT_str v)) (filter (\<lambda>v. length v \<le> MAX_STR_ARG_LEN) values))], en)"
| "pred_body en i (StringPrefix prefix) =
     (if length prefix > MAX_STR_ARG_LEN then (SMT_false, en)
      else (SMT_app F_and
              [const_eq (arg_type i) (SMT_int T_STR),
               SMT_app F_prefixof [SMT_str prefix, SMT_const (arg_str i)]], en))"

definition enc_pred_holds :: "encoder \<Rightarrow> u32 \<Rightarrow> arg_pred \<Rightarrow> smt \<times> encoder" where
  "enc_pred_holds en i pred =
     (let (body, en') = pred_body (en\<lparr>en_arg_indexes := insort_insert i (en_arg_indexes en)\<rparr>) i pred
      in (SMT_app F_and [SMT_app F_lt [SMT_int (unat i), SMT_const arg_count], body], en'))"

fun enc_args :: "encoder \<Rightarrow> arg_constraint list \<Rightarrow> smt list \<times> encoder" where
  "enc_args en [] = ([], en)"
| "enc_args en (c # cs) =
     (let (t, en1) = enc_pred_holds en (ac_index c) (ac_pred c);
          (ts, en2) = enc_args en1 cs
      in (SMT_const ctx_contract # t # ts, en2))"

fun principals_floor :: "principals \<Rightarrow> nat" where
  "principals_floor (P_All signers) = max (length signers) 1"
| "principals_floor (P_Threshold signers m) = unat (max m 1)"
| "principals_floor (P_SelfAuthenticating _ _ _) = 1"

definition enc_rule_allows :: "encoder \<Rightarrow> rule \<Rightarrow> smt \<times> encoder" where
  "enc_rule_allows en r =
     (let floor = [SMT_app F_ge [SMT_const signer_count, SMT_int (principals_floor (r_principals r))]];
          fns = (case r_functions r of
                   None \<Rightarrow> []
                 | Some fs \<Rightarrow> [SMT_const ctx_contract, disj (map (\<lambda>f. const_eq fn_name (SMT_str f)) fs)]);
          (args, en') = (case r_args r of None \<Rightarrow> ([], en) | Some cs \<Rightarrow> enc_args en cs)
      in (conj_term (floor @ fns @ args), en'))"

definition arg_declarations :: "u32 \<Rightarrow> smt_cmd list" where
  "arg_declarations i =
     [Declare (arg_type i) S_Int,
      Assert (SMT_app F_and [SMT_app F_ge [SMT_const (arg_type i), SMT_int 0],
                             SMT_app F_le [SMT_const (arg_type i), SMT_int T_OTHER]]),
      Declare (arg_addr i) S_Int,
      Declare (arg_u32 i) S_Int,
      Assert (SMT_app F_and [SMT_app F_ge [SMT_const (arg_u32 i), SMT_int 0],
                             SMT_app F_le [SMT_const (arg_u32 i), SMT_int 4294967295]]),
      Declare (arg_str i) S_String]"

definition declarations :: "encoder \<Rightarrow> smt_cmd list" where
  "declarations en =
     [Declare ctx_contract S_Bool, Declare fn_name S_String,
      Declare signer_count S_Int, Assert (SMT_app F_ge [SMT_const signer_count, SMT_int 0]),
      Declare arg_count S_Int, Assert (SMT_app F_ge [SMT_const arg_count, SMT_int 0])]
     @ concat (map arg_declarations (en_arg_indexes en))"

definition witness_query :: "encoder \<Rightarrow> smt_cmd" where
  "witness_query en =
     Get_value ([ctx_contract, fn_name, signer_count, arg_count]
       @ concat (map (\<lambda>i. [arg_type i, arg_addr i, arg_u32 i, arg_str i]) (en_arg_indexes en)))"

text \<open>A query: the declarations, the assertions, the check and the witness.\<close>

definition query :: "encoder \<Rightarrow> smt list \<Rightarrow> smt_cmd list" where
  "query en ts = declarations en @ map Assert ts @ [Check_sat, witness_query en]"

definition ask :: "z3 \<Rightarrow> encoder \<Rightarrow> smt list \<Rightarrow> z3_verdict" where
  "ask z en ts = run_z3 z (script_text (query en ts))"

section \<open>The checks\<close>

record rule_liveness =
  rl_rule :: string
  rl_verdict :: z3_verdict

definition dead_rules :: "z3 \<Rightarrow> policy_doc \<Rightarrow> rule_liveness list" where
  "dead_rules z doc =
     map (\<lambda>r. let (allow, en) = enc_rule_allows new_encoder r
              in \<lparr>rl_rule = r_name r, rl_verdict = ask z en [allow]\<rparr>) (d_rules doc)"

definition on_target :: "string \<Rightarrow> rule \<Rightarrow> bool" where
  "on_target contract r = (case r_scope r of Scope_Contract a \<Rightarrow> a = contract | Scope_SelfAdmin \<Rightarrow> False)"

definition outside_terms :: "string list \<Rightarrow> smt list" where
  "outside_terms allowed = map (\<lambda>f. SMT_app F_not [const_eq fn_name (SMT_str f)]) allowed"

definition only_calls_verdict :: "z3 \<Rightarrow> string list \<Rightarrow> rule \<Rightarrow> z3_verdict" where
  "only_calls_verdict z allowed r =
     (let (allow, en) = enc_rule_allows new_encoder r
      in ask z en [allow, SMT_const ctx_contract, conj_term (outside_terms allowed)])"

definition rule_violation :: "z3 \<Rightarrow> string \<Rightarrow> string list \<Rightarrow> rule \<Rightarrow> rule_liveness list" where
  "rule_violation z contract allowed r =
     (if \<not> on_target contract r then []
      else (case only_calls_verdict z allowed r of
              Z3_Unsat \<Rightarrow> []
            | v \<Rightarrow> [\<lparr>rl_rule = r_name r, rl_verdict = v\<rparr>]))"

definition only_calls :: "z3 \<Rightarrow> policy_doc \<Rightarrow> string \<Rightarrow> string list \<Rightarrow> rule_liveness list" where
  "only_calls z doc contract allowed = concat (map (rule_violation z contract allowed) (d_rules doc))"

definition can_call :: "z3 \<Rightarrow> policy_doc \<Rightarrow> string \<Rightarrow> rule_liveness list" where
  "can_call z doc function =
     concat (map (\<lambda>r. case r_scope r of
                        Scope_SelfAdmin \<Rightarrow> []
                      | Scope_Contract _ \<Rightarrow>
                          (let (allow, en) = enc_rule_allows new_encoder r
                           in [\<lparr>rl_rule = r_name r,
                                rl_verdict = ask z en [allow, SMT_const ctx_contract, const_eq fn_name (SMT_str function)]\<rparr>]))
               (d_rules doc))"

datatype widening_finding =
    AddedRule string
  | ScopeChanged string
  | SemanticWidening string z3_verdict
  | ExpiryExtended string
  | CapLoosened string
  | Undecided string z3_verdict

definition narrows_query :: "rule \<Rightarrow> rule \<Rightarrow> smt_cmd list" where
  "narrows_query prule crule =
     (let (child_allow, en1) = enc_rule_allows new_encoder crule;
          (parent_allow, en2) = enc_rule_allows en1 prule
      in query en2 [child_allow, SMT_app F_not [parent_allow]])"

definition narrows_verdict :: "z3 \<Rightarrow> rule \<Rightarrow> rule \<Rightarrow> z3_verdict" where
  "narrows_verdict z prule crule = run_z3 z (script_text (narrows_query prule crule))"

definition expiry_extended :: "u32 option \<Rightarrow> u32 option \<Rightarrow> bool" where
  "expiry_extended p c =
     (case (p, c) of (Some _, None) \<Rightarrow> True | (Some p, Some c) \<Rightarrow> c > p | (None, _) \<Rightarrow> False)"

definition limit_or_max :: "string \<Rightarrow> int" where
  "limit_or_max s = (case parse_i128 s of Some v \<Rightarrow> v | None \<Rightarrow> 2 ^ 127 - 1)"

definition cap_loosened :: "cap_constraint option \<Rightarrow> cap_constraint option \<Rightarrow> bool" where
  "cap_loosened p c =
     (case (p, c) of
        (Some _, None) \<Rightarrow> True
      | (Some p, Some c) \<Rightarrow>
          cap_token p \<noteq> cap_token c \<or> limit_or_max (cap_limit c) > limit_or_max (cap_limit p) \<or>
          cap_period_ledgers c < cap_period_ledgers p
      | (None, _) \<Rightarrow> False)"

definition rule_findings :: "z3 \<Rightarrow> policy_doc \<Rightarrow> rule \<Rightarrow> widening_finding list" where
  "rule_findings z parent crule =
     (case find (\<lambda>r. r_name r = r_name crule) (d_rules parent) of
        None \<Rightarrow> [AddedRule (r_name crule)]
      | Some prule \<Rightarrow>
          if r_scope prule \<noteq> r_scope crule then [ScopeChanged (r_name crule)]
          else (case narrows_verdict z prule crule of
                  Z3_Unsat \<Rightarrow> []
                | Z3_Sat w \<Rightarrow> [SemanticWidening (r_name crule) (Z3_Sat w)]
                | Z3_Unknown w \<Rightarrow> [Undecided (r_name crule) (Z3_Unknown w)])
               @ (if expiry_extended (r_not_after_ledger prule) (r_not_after_ledger crule)
                  then [ExpiryExtended (r_name crule)] else [])
               @ (if cap_loosened (r_cap prule) (r_cap crule) then [CapLoosened (r_name crule)] else []))"

definition narrows :: "z3 \<Rightarrow> policy_doc \<Rightarrow> policy_doc \<Rightarrow> widening_finding list" where
  "narrows z parent child = concat (map (rule_findings z parent) (d_rules child))"

text \<open>Warnings about constants whose length in characters is not their length in bytes.\<close>

definition is_ascii :: "string \<Rightarrow> bool" where
  "is_ascii s = list_all (\<lambda>c. (of_char c :: nat) < 128) s"

definition chars_count :: "string \<Rightarrow> nat" where
  "chars_count s = length (filter (\<lambda>c. \<not> (128 \<le> (of_char c :: nat) \<and> (of_char c :: nat) < 192)) s)"

fun pred_texts :: "arg_pred \<Rightarrow> string list" where
  "pred_texts (StringIn values) = values"
| "pred_texts (StringPrefix prefix) = [prefix]"
| "pred_texts _ = []"

definition length_warning :: "string \<Rightarrow> string" where
  "length_warning name = ''rule `'' @ name @ ''`: non-ASCII string constant '' @ [CHR 0xE2, CHR 0x80, CHR 0x94] @
     '' SMT char-length vs on-chain byte-length may diverge near the '' @ nat_to_string MAX_STR_ARG_LEN @ '' cap''"

definition encode_doc_warnings :: "policy_doc \<Rightarrow> string list" where
  "encode_doc_warnings doc =
     concat (map (\<lambda>r. concat (map (\<lambda>c.
        map (\<lambda>_. length_warning (r_name r))
          (filter (\<lambda>t. \<not> is_ascii t \<and> chars_count t \<noteq> length t) (pred_texts (ac_pred c))))
        (case r_args r of None \<Rightarrow> [] | Some cs \<Rightarrow> cs))) (d_rules doc))"

section \<open>What the scripts mean\<close>

text \<open>
  String literals are those of SMT-LIB 2.6: between the quotes a doubled quote is a quote, and
  \<open>u\<close> after a backslash, with one to five hexadecimal digits in braces or with four digits, is the
  character with that code.
\<close>

definition smt_hex :: "char \<Rightarrow> nat option" where
  "smt_hex c =
     (let n = of_char c :: nat
      in if 48 \<le> n \<and> n \<le> 57 then Some (n - 48)
         else if 97 \<le> n \<and> n \<le> 102 then Some (n - 87)
         else if 65 \<le> n \<and> n \<le> 70 then Some (n - 55) else None)"

fun braced_code :: "nat \<Rightarrow> nat \<Rightarrow> string \<Rightarrow> (nat \<times> nat) option" where
  "braced_code k acc [] = None"
| "braced_code k acc (c # s) =
     (if c = CHR 0x7D then (if k \<ge> 1 then Some (acc, k + 4) else None)
      else if k \<ge> 5 then None
      else (case smt_hex c of None \<Rightarrow> None | Some d \<Rightarrow> braced_code (Suc k) (16 * acc + d) s))"

definition four_digit_code :: "string \<Rightarrow> (nat \<times> nat) option" where
  "four_digit_code s =
     (case map smt_hex (take 4 s) of
        [Some a, Some b, Some c, Some d] \<Rightarrow> Some (16 * (16 * (16 * a + b) + c) + d, 6)
      | _ \<Rightarrow> None)"

definition escape_at :: "string \<Rightarrow> (nat \<times> nat) option" where
  "escape_at s =
     (if take 2 s \<noteq> [CHR 0x5C, CHR ''u''] then None
      else if take 1 (drop 2 s) = [CHR 0x7B] then braced_code 0 0 (drop 3 s)
      else four_digit_code (drop 2 s))"

fun literal_from :: "nat \<Rightarrow> string \<Rightarrow> nat list" where
  "literal_from k [] = []"
| "literal_from (Suc k) (c # s) = literal_from k s"
| "literal_from 0 (c # s) =
     (case escape_at (c # s) of
        Some (v, n) \<Rightarrow> v # literal_from (n - 1) s
      | None \<Rightarrow> of_char c # literal_from 0 s)"

definition smt_literal :: "string \<Rightarrow> nat list" where
  "smt_literal s = literal_from 0 s"

fun undouble :: "string \<Rightarrow> string" where
  "undouble (c # d # s) = (if c = CHR 0x22 \<and> d = CHR 0x22 then CHR 0x22 # undouble s else c # undouble (d # s))"
| "undouble s = s"

text \<open>The value of a literal, from its text with the quotes around it.\<close>

definition read_literal :: "string \<Rightarrow> nat list" where
  "read_literal t = smt_literal (undouble (butlast (tl t)))"

datatype smt_val = SV_bool bool | SV_int int | SV_str "nat list"

fun smt_apply :: "smt_fn \<Rightarrow> smt_val list \<Rightarrow> smt_val" where
  "smt_apply F_and vs = SV_bool (\<forall>v \<in> set vs. v = SV_bool True)"
| "smt_apply F_or vs = SV_bool (\<exists>v \<in> set vs. v = SV_bool True)"
| "smt_apply F_not vs = SV_bool (vs = [SV_bool False])"
| "smt_apply F_eq vs = SV_bool (case vs of [a, b] \<Rightarrow> a = b | _ \<Rightarrow> False)"
| "smt_apply F_ge vs = SV_bool (case vs of [SV_int a, SV_int b] \<Rightarrow> a \<ge> b | _ \<Rightarrow> False)"
| "smt_apply F_le vs = SV_bool (case vs of [SV_int a, SV_int b] \<Rightarrow> a \<le> b | _ \<Rightarrow> False)"
| "smt_apply F_lt vs = SV_bool (case vs of [SV_int a, SV_int b] \<Rightarrow> a < b | _ \<Rightarrow> False)"
| "smt_apply F_len vs = (case vs of [SV_str s] \<Rightarrow> SV_int (int (length s)) | _ \<Rightarrow> SV_bool False)"
| "smt_apply F_prefixof vs = SV_bool (case vs of [SV_str p, SV_str s] \<Rightarrow> take (length p) s = p | _ \<Rightarrow> False)"

fun smt_eval :: "(smt_const \<Rightarrow> smt_val) \<Rightarrow> smt \<Rightarrow> smt_val" where
  "smt_eval env SMT_true = SV_bool True"
| "smt_eval env SMT_false = SV_bool False"
| "smt_eval env (SMT_const c) = env c"
| "smt_eval env (SMT_int n) = SV_int (int n)"
| "smt_eval env (SMT_str s) = SV_str (read_literal (smt_string s))"
| "smt_eval env (SMT_app f ts) = smt_apply f (map (smt_eval env) ts)"

fun has_sort :: "smt_val \<Rightarrow> smt_sort \<Rightarrow> bool" where
  "has_sort (SV_bool _) s \<longleftrightarrow> s = S_Bool"
| "has_sort (SV_int _) s \<longleftrightarrow> s = S_Int"
| "has_sort (SV_str _) s \<longleftrightarrow> s = S_String"

fun cmd_holds :: "(smt_const \<Rightarrow> smt_val) \<Rightarrow> smt_cmd \<Rightarrow> bool" where
  "cmd_holds env (Declare c s) \<longleftrightarrow> has_sort (env c) s"
| "cmd_holds env (Assert t) \<longleftrightarrow> smt_eval env t = SV_bool True"
| "cmd_holds env _ \<longleftrightarrow> True"

fun smt_lits :: "smt \<Rightarrow> string set" where
  "smt_lits (SMT_str s) = {s}"
| "smt_lits (SMT_app f ts) = \<Union> (set (map smt_lits ts))"
| "smt_lits _ = {}"

fun cmd_lits :: "smt_cmd \<Rightarrow> string set" where
  "cmd_lits (Assert t) = smt_lits t"
| "cmd_lits _ = {}"

text \<open>
  The solver is sound: when its answer to the text of a script with ASCII literals is \<open>unsat\<close>, no
  values of the declared constants meet every assertion.
\<close>

definition solver_sound :: "z3 \<Rightarrow> bool" where
  "solver_sound z \<longleftrightarrow>
     (\<forall>cmds. (\<forall>c \<in> set cmds. \<forall>s \<in> cmd_lits c. is_ascii s) \<and> run_z3 z (script_text cmds) = Z3_Unsat \<longrightarrow>
        \<not> (\<exists>env. list_all (cmd_holds env) cmds))"

text \<open>A constant the literals keep: ASCII without a backslash.\<close>

definition plain :: "string \<Rightarrow> bool" where
  "plain s \<longleftrightarrow> is_ascii s \<and> CHR 0x5C \<notin> set s"

lemma read_printed [simp]: "read_literal (smt_string s) = smt_literal s"
proof -
  let ?dq = "\<lambda>s. concat (map (\<lambda>c. if c = CHR 0x22 then [CHR 0x22, CHR 0x22] else [c]) s)"
  have "undouble (c # s) = c # undouble s" if "c \<noteq> CHR 0x22" for c s using that by (cases s) auto
  then have "undouble (?dq s) = s" by (induction s) auto
  then show ?thesis by (simp add: read_literal_def smt_string_def butlast_append)
qed

lemma literal_plain: "CHR 0x5C \<notin> set s \<Longrightarrow> smt_literal s = map of_char s"
proof -
  have "escape_at s = None" if "CHR 0x5C \<notin> set s" for s
    using that by (cases s) (auto simp: escape_at_def)
  then have "CHR 0x5C \<notin> set s \<Longrightarrow> literal_from 0 s = map of_char s" for s
    by (induction s) auto
  then show "CHR 0x5C \<notin> set s \<Longrightarrow> smt_literal s = map of_char s" by (simp add: smt_literal_def)
qed

lemma map_of_char_inject [simp]: "map (of_char :: char \<Rightarrow> nat) s = map of_char t \<longleftrightarrow> s = t"
  by (rule inj_map_eq_map) (simp add: inj_def)

lemma plain_literal [simp]: "plain s \<Longrightarrow> smt_literal s = map of_char s"
  by (simp add: plain_def literal_plain)

section \<open>Unique readability\<close>

text \<open>
  A script can be read in one way only: the printed texts are those of one command list. Atoms are
  runs of word characters, a literal ends at its first undoubled quote, and an application at its
  own closing parenthesis.
\<close>

definition word_char :: "char \<Rightarrow> bool" where
  "word_char c \<longleftrightarrow> c \<notin> {CHR '' '', CHR ''('', CHR '')'', CHR 0x22, CHR 0x0A}"

definition ends :: "string \<Rightarrow> bool" where
  "ends x \<longleftrightarrow> (case x of [] \<Rightarrow> True | c # _ \<Rightarrow> c = CHR '' '' \<or> c = CHR '')'')"

lemma ends_simps [simp]: "ends []" "ends (CHR '' '' # x)" "ends (CHR '')'' # x)"
  by (simp_all add: ends_def)

lemma span_inject:
  assumes "list_all Q a" "list_all Q b" "x = [] \<or> \<not> Q (hd x)" "y = [] \<or> \<not> Q (hd y)" "a @ x = b @ y"
  shows "a = b \<and> x = y"
proof -
  have s: "takeWhile Q (c @ z) = c" if "list_all Q c" "z = [] \<or> \<not> Q (hd z)" for c z
  proof -
    have "takeWhile Q z = []" using that(2) by (cases z) auto
    then show ?thesis using that(1) by (simp add: list_all_iff)
  qed
  have "a = b" using s [OF assms(1,3)] s [OF assms(2,4)] assms(5) by simp
  then show ?thesis using assms(5) by simp
qed

lemma word_inject:
  assumes "list_all word_char a" "list_all word_char b" "ends x" "ends y" "a @ x = b @ y"
  shows "a = b \<and> x = y"
  using assms by (intro span_inject [of word_char]) (auto simp: ends_def word_char_def split: list.splits)

lemma digit_word: "digit_value c \<noteq> None \<Longrightarrow> word_char c"
  by (auto simp: digit_value_def char_in_def less_eq_char_def word_char_def split: if_splits)

lemma nat_to_string_word: "list_all word_char (nat_to_string n)" "list_all word_char (u32_to_string i)"
  using nat_to_string_digits digit_word unfolding u32_to_string_def list_all_iff by blast+

lemma const_text_word: "list_all word_char (const_text c)"
  by (cases c) (simp_all add: nat_to_string_word, simp_all add: word_char_def)

lemma fn_text_word: "list_all word_char (fn_text f)" "list_all word_char (sort_text s)"
  by (cases f; simp add: word_char_def) (cases s; simp add: word_char_def)

lemma fn_text_inject: "fn_text f = fn_text g \<longleftrightarrow> f = g"
  by (cases f; cases g) simp_all

lemma sort_text_inject: "sort_text s = sort_text t \<longleftrightarrow> s = t"
  by (cases s; cases t) simp_all

lemma nat_to_string_inject: "nat_to_string m = nat_to_string n \<longleftrightarrow> m = n"
  by (metis digits_value_nat of_nat_eq_iff option.inject)

lemma index_text_inject: "u32_to_string i @ CHR ''_'' # x = u32_to_string j @ CHR ''_'' # y \<longleftrightarrow> i = j \<and> x = y"
proof
  assume e: "u32_to_string i @ CHR ''_'' # x = u32_to_string j @ CHR ''_'' # y"
  have d: "list_all (\<lambda>c. digit_value c \<noteq> None) (u32_to_string k)" for k
    using nat_to_string_digits by (simp add: u32_to_string_def)
  have "digit_value (CHR ''_'') = None" by (simp add: digit_value_def char_in_def less_eq_char_def)
  then have "u32_to_string i = u32_to_string j \<and> CHR ''_'' # x = CHR ''_'' # y"
    by (intro span_inject [OF d d _ _ e]) simp_all
  then show "i = j \<and> x = y" by (metis list.inject option.inject parse_unsigned_u32)
qed simp

lemma index_text_start: "u32_to_string i @ x \<noteq> CHR ''_'' # y" "CHR ''_'' # y \<noteq> u32_to_string i @ x"
proof -
  have "digit_value (CHR ''_'') = None" by (simp add: digit_value_def char_in_def less_eq_char_def)
  then show "u32_to_string i @ x \<noteq> CHR ''_'' # y" using digit_start [of i] by auto
  then show "CHR ''_'' # y \<noteq> u32_to_string i @ x" by metis
qed

lemma const_text_inject: "const_text c = const_text d \<longleftrightarrow> c = d"
proof -
  have "u32_to_string i = u32_to_string j \<longleftrightarrow> i = j" for i j by (metis option.inject parse_unsigned_u32)
  then show ?thesis by (cases c; cases d) (simp_all add: index_text_inject index_text_start)
qed

text \<open>Literals.\<close>

definition double_quotes :: "string \<Rightarrow> string" where
  "double_quotes s = concat (map (\<lambda>c. if c = CHR 0x22 then [CHR 0x22, CHR 0x22] else [c]) s)"

lemma doubled_inject:
  "double_quotes s @ CHR 0x22 # x = double_quotes t @ CHR 0x22 # y \<Longrightarrow> ends x \<Longrightarrow> ends y \<Longrightarrow> s = t \<and> x = y"
proof (induction s arbitrary: t)
  case Nil
  then show ?case by (cases t) (auto simp: double_quotes_def ends_def split: if_splits)
next
  case (Cons c s)
  then show ?case
    by (cases t) (auto simp: double_quotes_def ends_def split: if_splits)
qed

lemma smt_string_inject: "smt_string s @ x = smt_string t @ y \<Longrightarrow> ends x \<Longrightarrow> ends y \<Longrightarrow> s = t \<and> x = y"
  using doubled_inject [of s x t y] by (simp add: smt_string_def double_quotes_def)

text \<open>Terms.\<close>

fun atomic :: "smt \<Rightarrow> bool" where
  "atomic (SMT_str _) = False"
| "atomic (SMT_app _ _) = False"
| "atomic _ = True"

lemma atom_text: "atomic t \<Longrightarrow> list_all word_char (smt_text t) \<and> smt_text t \<noteq> []"
  using nat_to_string_digits
  by (cases t) (auto simp: nat_to_string_word const_text_word, auto simp: word_char_def elim: const_text.elims)

lemma digit_not_letter: "nat_to_string n \<noteq> const_text c" "nat_to_string n \<noteq> ''true''" "nat_to_string n \<noteq> ''false''"
proof -
  have nd: "digit_value (CHR ''a'') = None" "digit_value (CHR ''c'') = None" "digit_value (CHR ''f'') = None"
    "digit_value (CHR ''s'') = None" "digit_value (CHR ''t'') = None"
    by (simp_all add: digit_value_def char_in_def less_eq_char_def)
  obtain d ds where s: "nat_to_string n = d # ds" "digit_value d \<noteq> None"
    using nat_to_string_digits [of n] by (cases "nat_to_string n") auto
  then show "nat_to_string n \<noteq> const_text c" "nat_to_string n \<noteq> ''true''" "nat_to_string n \<noteq> ''false''"
    using nd by (cases c; auto)+
qed

lemma letters_not_bool: "const_text c \<noteq> ''true''" "const_text c \<noteq> ''false''"
  by (cases c; simp)+

lemma atom_inject: "atomic t \<Longrightarrow> atomic u \<Longrightarrow> smt_text t = smt_text u \<Longrightarrow> t = u"
  using digit_not_letter letters_not_bool
  by (cases t; cases u) (auto simp: const_text_inject nat_to_string_inject, (metis+)?)

lemma smt_text_start: "\<exists>c cs. smt_text t = c # cs \<and> c \<noteq> CHR '')'' \<and> (atomic t \<longleftrightarrow> word_char c) \<and> (c = CHR 0x22 \<longleftrightarrow> (\<exists>s. t = SMT_str s))"
proof (cases "atomic t")
  case True
  then obtain c cs where "smt_text t = c # cs" "word_char c" using atom_text [of t] by (cases "smt_text t") auto
  moreover have "\<not> (\<exists>s. t = SMT_str s)" using True by auto
  ultimately show ?thesis using True by (auto simp: word_char_def)
qed (cases t; simp add: smt_string_def word_char_def)

lemma atom_text_inject:
  assumes t: "atomic t" and e: "smt_text t @ x = smt_text u @ y" "ends x" "ends y"
  shows "t = u \<and> x = y"
proof -
  have u: "atomic u" using smt_text_start [of t] smt_text_start [of u] e(1) t by auto
  then have "smt_text t = smt_text u \<and> x = y" using atom_text t by (intro word_inject [OF _ _ e(2,3,1)]) blast+
  then show ?thesis using atom_inject [OF t u] by blast
qed

lemma join_strs_Cons: "join_strs sep (x # xs) = x @ (if xs = [] then [] else sep @ join_strs sep xs)"
  by (cases xs) auto

lemma join_inject:
  assumes "\<And>u v x y. u \<in> set us \<Longrightarrow> ends x \<Longrightarrow> ends y \<Longrightarrow> f u @ x = f v @ y \<Longrightarrow> u = v \<and> x = y"
    and "\<And>v. f v \<noteq> [] \<and> hd (f v) \<noteq> CHR '')''"
    and "join_strs '' '' (map f us) @ CHR '')'' # x = join_strs '' '' (map f vs) @ CHR '')'' # y"
  shows "us = vs \<and> x = y"
  using assms(1,3)
proof (induction us arbitrary: vs)
  case Nil
  then show ?case using assms(2) [of "hd vs"] by (cases vs; cases "f (hd vs)") (auto simp: join_strs_Cons)
next
  case (Cons u us)
  show ?case
  proof (cases vs)
    case Nil
    then show ?thesis using Cons.prems(2) assms(2) [of u] by (cases "f u") (auto simp: join_strs_Cons)
  next
    case (Cons v vs')
    let ?rest = "\<lambda>ws z. (if ws = [] then [] else '' '' @ join_strs '' '' (map f ws)) @ CHR '')'' # z"
    have "ends (?rest ws z)" for ws z by simp
    moreover have "f u @ ?rest us x = f v @ ?rest vs' y"
      using Cons.prems(2) Cons by (simp add: join_strs_Cons)
    ultimately have uv: "u = v" and r: "?rest us x = ?rest vs' y"
      using Cons.prems(1) [of u "?rest us x" "?rest vs' y" v] by auto
    show ?thesis
    proof (cases "us = [] \<or> vs' = []")
      case True
      then show ?thesis using r uv Cons by (auto split: if_splits)
    next
      case False
      then have "us = vs' \<and> x = y" using r by (intro Cons.IH Cons.prems(1)) auto
      then show ?thesis using uv Cons by simp
    qed
  qed
qed

lemma smt_text_inject: "smt_text t @ x = smt_text u @ y \<Longrightarrow> ends x \<Longrightarrow> ends y \<Longrightarrow> t = u \<and> x = y"
proof (induction t arbitrary: u x y rule: smt_text.induct)
  case (6 f ts)
  obtain g us where u: "u = SMT_app g us"
    using "6.prems"(1) smt_text_start [of u] by (cases u) (auto simp: word_char_def)
  let ?r = "\<lambda>ts x. CHR '' '' # join_strs '' '' (map smt_text ts) @ CHR '')'' # x"
  have "fn_text f @ ?r ts x = fn_text g @ ?r us y" using "6.prems"(1) u by simp
  then have "fn_text f = fn_text g \<and> ?r ts x = ?r us y" by (intro word_inject fn_text_word) simp_all
  then have fg: "f = g" and j: "join_strs '' '' (map smt_text ts) @ CHR '')'' # x = join_strs '' '' (map smt_text us) @ CHR '')'' # y"
    by (simp_all add: fn_text_inject)
  have "smt_text v \<noteq> [] \<and> hd (smt_text v) \<noteq> CHR '')''" for v using smt_text_start [of v] by auto
  then have "ts = us \<and> x = y" using "6.IH" by (intro join_inject [OF _ _ j]) blast+
  then show ?case using fg u by simp
next
  case (5 s)
  then obtain s' where "u = SMT_str s'" using smt_text_start [of u] by (auto simp: smt_string_def)
  then show ?case using "5.prems" smt_string_inject [of s x s' y] by simp
qed (rule atom_text_inject; simp)+

text \<open>Commands and scripts.\<close>

lemma consts_inject:
  "join_strs '' '' (map const_text cs) @ CHR '')'' # x = join_strs '' '' (map const_text ds) @ CHR '')'' # y \<Longrightarrow> cs = ds \<and> x = y"
proof (rule join_inject)
  fix c show "const_text c \<noteq> [] \<and> hd (const_text c) \<noteq> CHR '')''" by (cases c) simp_all
next
  fix c d x y
  assume "ends x" "ends y" "const_text c @ x = const_text d @ y"
  then show "c = d \<and> x = y" using word_inject [OF const_text_word const_text_word] const_text_inject by blast
qed

lemma cmd_text_inject: "cmd_text c @ x = cmd_text d @ y \<Longrightarrow> c = d \<and> x = y"
proof (cases c)
  case (Declare k s)
  assume e: "cmd_text c @ x = cmd_text d @ y"
  then obtain k' s' where d: "d = Declare k' s'" using Declare by (cases d) auto
  let ?r = "\<lambda>s x. CHR '' '' # sort_text s @ CHR '')'' # CHR 0x0A # x"
  have "const_text k @ ?r s x = const_text k' @ ?r s' y" using e Declare d by simp
  then have k: "const_text k = const_text k' \<and> ?r s x = ?r s' y" by (intro word_inject const_text_word) simp_all
  then have "sort_text s @ CHR '')'' # CHR 0x0A # x = sort_text s' @ CHR '')'' # CHR 0x0A # y" by simp
  then have "sort_text s = sort_text s' \<and> CHR '')'' # CHR 0x0A # x = CHR '')'' # CHR 0x0A # y" by (intro word_inject fn_text_word) simp_all
  then show ?thesis using k Declare d by (simp add: const_text_inject sort_text_inject)
next
  case (Assert t)
  assume e: "cmd_text c @ x = cmd_text d @ y"
  then obtain t' where d: "d = Assert t'" using Assert by (cases d) auto
  then have "smt_text t @ CHR '')'' # CHR 0x0A # x = smt_text t' @ CHR '')'' # CHR 0x0A # y" using e Assert by simp
  then show ?thesis using smt_text_inject Assert d by fastforce
next
  case (Get_value cs)
  assume e: "cmd_text c @ x = cmd_text d @ y"
  then obtain ds where d: "d = Get_value ds" using Get_value by (cases d) auto
  then have "join_strs '' '' (map const_text cs) @ CHR '')'' # CHR '')'' # CHR 0x0A # x =
      join_strs '' '' (map const_text ds) @ CHR '')'' # CHR '')'' # CHR 0x0A # y" using e Get_value by simp
  then show ?thesis using consts_inject Get_value d by fastforce
next
  case Check_sat
  assume "cmd_text c @ x = cmd_text d @ y"
  then show ?thesis using Check_sat by (cases d) auto
qed

lemma script_text_inject: "script_text cmds = script_text cmds' \<Longrightarrow> cmds = cmds'"
proof (induction cmds arbitrary: cmds')
  case Nil
  then show ?case by (cases cmds') (auto simp: script_text_def elim: cmd_text.elims)
next
  case (Cons c cmds)
  then obtain d ds where d: "cmds' = d # ds" by (cases cmds'; cases c) (auto simp: script_text_def)
  then show ?case using Cons cmd_text_inject [of c "script_text cmds" d "script_text ds"] by (simp add: script_text_def)
qed

section \<open>The term of a rule\<close>

lemma eval_conj: "map (smt_eval env) ts = map SV_bool bs \<Longrightarrow> smt_eval env (conj_term ts) = SV_bool (\<forall>b \<in> set bs. b)"
proof -
  assume e: "map (smt_eval env) ts = map SV_bool bs"
  consider "ts = []" | t where "ts = [t]" | t u us where "ts = t # u # us" by (metis neq_Nil_conv)
  then show ?thesis
  proof cases
    case 2
    then show ?thesis using e by (auto simp: conj_term_def map_eq_Cons_conv)
  next
    case 3
    have "smt_eval env (SMT_app F_and ts) = SV_bool (\<forall>b \<in> set bs. b)" by (simp add: e)
    then show ?thesis by (simp add: conj_term_def 3)
  qed (use e in \<open>simp add: conj_term_def\<close>)
qed

lemma eval_disj: "map (smt_eval env) ts = map SV_bool bs \<Longrightarrow> smt_eval env (disj ts) = SV_bool (\<exists>b \<in> set bs. b)"
proof -
  assume e: "map (smt_eval env) ts = map SV_bool bs"
  consider "ts = []" | t where "ts = [t]" | t u us where "ts = t # u # us" by (metis neq_Nil_conv)
  then show ?thesis
  proof cases
    case 2
    then show ?thesis using e by (auto simp: disj_def map_eq_Cons_conv)
  next
    case 3
    have "smt_eval env (SMT_app F_or ts) = SV_bool (\<exists>b \<in> set bs. b)" by (force simp: e)
    then show ?thesis by (simp add: disj_def 3)
  qed (use e in \<open>simp add: disj_def\<close>)
qed

lemma find_in: "find Q xs = Some x \<Longrightarrow> x \<in> set xs \<and> Q x"
  by (auto simp: find_Some_iff)

lemma smt_lits_conj [simp]: "smt_lits (conj_term ts) = \<Union> (smt_lits ` set ts)" "smt_lits (disj ts) = \<Union> (smt_lits ` set ts)"
  by (auto simp: conj_term_def disj_def split: list.split)

text \<open>The address literals of a rule, and when the analyzer reads a rule as it stands.\<close>

definition rule_args :: "rule \<Rightarrow> arg_constraint list" where
  "rule_args r = (case r_args r of None \<Rightarrow> [] | Some cs \<Rightarrow> cs)"

definition address_texts :: "rule \<Rightarrow> string set" where
  "address_texts r = {a. \<exists>c \<in> set (rule_args r). ac_pred c = AddressEq a}"

definition const_texts :: "rule \<Rightarrow> string set" where
  "const_texts r = (case r_functions r of None \<Rightarrow> {} | Some fs \<Rightarrow> set fs) \<union> (\<Union>c \<in> set (rule_args r). set (pred_texts (ac_pred c)))"

definition analyzable :: "host \<Rightarrow> address \<Rightarrow> rule \<Rightarrow> bool" where
  "analyzable h self r \<longleftrightarrow>
     (\<forall>s \<in> const_texts r. plain s) \<and> (\<forall>a \<in> address_texts r. \<exists>x. h_address h a = Some x \<and> x \<noteq> self) \<and>
     length (principal_ids (r_principals r)) < 2 ^ 31 \<and> length (rule_args r) < 2 ^ 31"

definition address_canonical :: "host \<Rightarrow> bool" where
  "address_canonical h \<longleftrightarrow> (\<forall>a b x. h_address h a = Some x \<and> h_address h b = Some x \<longrightarrow> a = b)"

text \<open>Interned address literals.\<close>

definition interned_ok :: "host \<Rightarrow> address \<Rightarrow> (string \<times> u32) list \<Rightarrow> bool" where
  "interned_ok h self ids \<longleftrightarrow>
     inj_on snd (set ids) \<and> distinct (map fst ids) \<and>
     (\<forall>(t, n) \<in> set ids. 0 < unat n \<and> unat n \<le> length ids \<and> (\<exists>x. h_address h t = Some x \<and> x \<noteq> self))"

definition addr_code :: "host \<Rightarrow> (string \<times> u32) list \<Rightarrow> address \<Rightarrow> address \<Rightarrow> nat" where
  "addr_code h ids self a =
     (if a = self then 0
      else case find (\<lambda>(t, n). h_address h t = Some a) ids of Some (t, n) \<Rightarrow> unat n | None \<Rightarrow> 2 ^ 32)"

lemma addr_code_0:
  assumes "interned_ok h self ids"
  shows "addr_code h ids self a = 0 \<longleftrightarrow> a = self"
proof (cases "find (\<lambda>(t, n). h_address h t = Some a) ids")
  case (Some q)
  then have "q \<in> set ids" by (simp add: find_in)
  then have "0 < unat (snd q)" using assms by (cases q) (auto simp: interned_ok_def)
  then show ?thesis using Some by (cases q) (simp add: addr_code_def)
qed (simp add: addr_code_def)

lemma addr_code_id:
  assumes ok: "interned_ok h self ids" "address_canonical h" and m: "(t, n) \<in> set ids" "h_address h t = Some x"
  shows "addr_code h ids self a = unat n \<longleftrightarrow> a = x"
proof -
  have x: "x \<noteq> self" "0 < unat n" "unat n < 2 ^ 32" using ok(1) m unsigned_less [of n, where 'a = nat] by (auto simp: interned_ok_def)
  show ?thesis
  proof (cases "find (\<lambda>(t, n). h_address h t = Some a) ids")
    case None
    then have "a \<noteq> x" using m by (auto simp: find_None_iff)
    then show ?thesis using None x by (auto simp: addr_code_def)
  next
    case (Some q)
    obtain u k where q: "q = (u, k)" by (cases q)
    have u: "(u, k) \<in> set ids" "h_address h u = Some a" using find_in [OF Some] q by auto
    have "k = n \<longleftrightarrow> a = x"
    proof
      assume "k = n"
      moreover have "inj_on snd (set ids)" using ok(1) by (simp add: interned_ok_def)
      ultimately have "(u, k) = (t, n)" using inj_onD [OF _ _ u(1) m(1), of snd] by simp
      then show "a = x" using u(2) m(2) by simp
    next
      assume "a = x"
      then have "u = t" using ok(2) u(2) m(2) by (auto simp: address_canonical_def)
      then show "k = n" using ok(1) u(1) m(1) by (auto simp: interned_ok_def eq_key_imp_eq_value)
    qed
    then show ?thesis using Some q x by (auto simp: addr_code_def word_unat_eq_iff)
  qed
qed

lemma addr_id_ok:
  assumes ok: "interned_ok h self (en_addr_ids en)" and a: "h_address h a = Some x" "x \<noteq> self"
    and len: "length (en_addr_ids en) < 2 ^ 32 - 1" and id: "addr_id en a = (n, en')"
  shows "interned_ok h self (en_addr_ids en') \<and> (a, n) \<in> set (en_addr_ids en') \<and> set (en_addr_ids en) \<subseteq> set (en_addr_ids en') \<and>
    length (en_addr_ids en') \<le> Suc (length (en_addr_ids en)) \<and> en_arg_indexes en' = en_arg_indexes en"
proof -
  let ?ids = "en_addr_ids en" and ?n = "word_of_nat (length (en_addr_ids en)) + 1 :: u32"
  have n: "unat ?n = Suc (length ?ids)"
  proof -
    have "?n = word_of_nat (Suc (length ?ids))" by simp
    then show ?thesis using len by (simp add: unat_of_nat del: of_nat_Suc)
  qed
  have fresh: "k \<noteq> ?n" if "(t, k) \<in> set ?ids" for t k using ok that n by (fastforce simp: interned_ok_def)
  show ?thesis
  proof (cases "map_of ?ids a")
    case None
    have old: "inj_on snd (set ?ids)" "distinct (map fst ?ids)"
      "\<And>t k. (t, k) \<in> set ?ids \<Longrightarrow> 0 < unat k \<and> unat k \<le> length ?ids \<and> (\<exists>x. h_address h t = Some x \<and> x \<noteq> self)"
      using ok by (auto simp: interned_ok_def)
    have "?n \<notin> snd ` set ?ids" using fresh by force
    then have inj: "inj_on snd (set ((a, ?n) # ?ids))" using old(1) by (auto simp: inj_on_insert)
    have "distinct (map fst ((a, ?n) # ?ids))" using old(2) None by (simp add: map_of_eq_None_iff)
    then have "interned_ok h self ((a, ?n) # ?ids)"
      using inj old(3) a n unfolding interned_ok_def by (auto simp: le_SucI)
    then show ?thesis
      using id None by (auto simp: addr_id_def Let_def)
  next
    case (Some k)
    then show ?thesis
      using id ok map_of_SomeD [OF Some] by (auto simp: addr_id_def)
  qed
qed

text \<open>The values an invocation gives to the declared constants.\<close>

fun val_tag :: "val option \<Rightarrow> nat" where
  "val_tag (Some (V_Address _)) = T_ADDR"
| "val_tag (Some (V_U32 _)) = T_U32"
| "val_tag (Some (V_String _)) = T_STR"
| "val_tag _ = T_OTHER"

fun inv_env :: "host \<Rightarrow> (string \<times> u32) list \<Rightarrow> eval_inputs \<Rightarrow> smt_const \<Rightarrow> smt_val" where
  "inv_env h ids inp ctx_contract = SV_bool (\<exists>c. ei_context inp = Ctx_Contract c)"
| "inv_env h ids inp fn_name = SV_str (case ei_context inp of Ctx_Contract c \<Rightarrow> map of_char (cc_fn_name c) | _ \<Rightarrow> [])"
| "inv_env h ids inp signer_count = SV_int (int (unat (ei_signer_count inp)))"
| "inv_env h ids inp arg_count = SV_int (case ei_context inp of Ctx_Contract c \<Rightarrow> int (length (cc_args c)) | _ \<Rightarrow> 0)"
| "inv_env h ids inp (arg_type i) = SV_int (int (val_tag (arg_val (ei_context inp) i)))"
| "inv_env h ids inp (arg_addr i) = SV_int (case arg_val (ei_context inp) i of
     Some (V_Address a) \<Rightarrow> int (addr_code h ids (ei_self_addr inp) a) | _ \<Rightarrow> 0)"
| "inv_env h ids inp (arg_u32 i) = SV_int (case arg_val (ei_context inp) i of Some (V_U32 n) \<Rightarrow> int (unat n) | _ \<Rightarrow> 0)"
| "inv_env h ids inp (arg_str i) = SV_str (case arg_val (ei_context inp) i of Some (V_String t) \<Rightarrow> map of_char t | _ \<Rightarrow> [])"

lemmas tag_defs = T_ADDR_def T_U32_def T_STR_def T_OTHER_def

lemma val_tag_le: "val_tag v \<le> T_OTHER"
  by (cases v rule: val_tag.cases) (simp_all add: tag_defs)

lemma val_tag_iff:
  "val_tag v = T_ADDR \<longleftrightarrow> (\<exists>a. v = Some (V_Address a))" "val_tag v = T_U32 \<longleftrightarrow> (\<exists>n. v = Some (V_U32 n))"
  "val_tag v = T_STR \<longleftrightarrow> (\<exists>s. v = Some (V_String s))"
  by (cases v rule: val_tag.cases; simp add: tag_defs)+

lemma declarations_hold: "list_all (cmd_holds (inv_env h ids inp)) (declarations en)"
proof -
  have "uint n \<le> 4294967295" for n :: u32 using unsigned_less [of n, where 'a = int] by simp
  then have "list_all (cmd_holds (inv_env h ids inp)) (arg_declarations i)" for i
    using val_tag_le by (auto simp: arg_declarations_def of_nat_diff simp flip: of_nat_le_iff split: option.split val.split)
  then show ?thesis by (auto simp: declarations_def list_all_iff split: auth_context.split)
qed

text \<open>One predicate.\<close>

lemma arg_present: "arg_val ctx i = Some v \<Longrightarrow> \<exists>c. ctx = Ctx_Contract c \<and> unat i < length (cc_args c)"
  by (auto simp: arg_val_def split: auth_context.splits if_splits)

lemma eval_const_eq [simp]: "smt_eval env (const_eq c t) = SV_bool (env c = smt_eval env t)"
  by (simp add: const_eq_def)

lemma pred_body_ok:
  assumes can: "address_canonical h" and ok: "interned_ok h self (en_addr_ids en)" and len: "length (en_addr_ids en) < 2 ^ 32 - 1"
    and addr: "\<And>a. p = AddressEq a \<Longrightarrow> \<exists>x. h_address h a = Some x \<and> x \<noteq> self" and pl: "\<forall>s \<in> set (pred_texts p). plain s"
    and enc: "pred_body en i p = (t, en')"
  shows "interned_ok h self (en_addr_ids en') \<and> set (en_addr_ids en) \<subseteq> set (en_addr_ids en') \<and>
    length (en_addr_ids en') \<le> Suc (length (en_addr_ids en)) \<and> en_arg_indexes en' = en_arg_indexes en \<and>
    (\<forall>s \<in> smt_lits t. is_ascii s) \<and>
    (\<forall>ids inp. interned_ok h self ids \<and> set (en_addr_ids en') \<subseteq> set ids \<and> ei_self_addr inp = self \<longrightarrow>
       smt_eval (inv_env h ids inp) t = SV_bool (pred_holds h inp i p))"
proof (cases p)
  case IsSelf
  then show ?thesis using enc ok addr_code_0 by (auto simp: const_eq_def val_tag_iff split: option.split val.split)
next
  case (AddressEq a)
  obtain x where x: "h_address h a = Some x" "x \<noteq> self" using addr AddressEq by blast
  obtain n where n: "addr_id en a = (n, en')"
      "t = SMT_app F_and [const_eq (arg_type i) (SMT_int T_ADDR), const_eq (arg_addr i) (SMT_int (unat n))]"
    using enc AddressEq by (auto split: prod.splits)
  note id = addr_id_ok [OF ok x len n(1)]
  have "smt_eval (inv_env h ids inp) t = SV_bool (pred_holds h inp i p)"
    if "interned_ok h self ids" "set (en_addr_ids en') \<subseteq> set ids" "ei_self_addr inp = self" for ids inp
  proof -
    have "addr_code h ids self b = unat n \<longleftrightarrow> b = x" for b
      using addr_code_id [OF that(1) can _ x(1)] id that(2) by blast
    then show ?thesis using AddressEq x that(3) by (auto simp: n(2) val_tag_iff simp del: of_nat_unat split: option.split val.split)
  qed
  then show ?thesis using id by (auto simp: n(2) const_eq_def)
next
  case (StringIn vs)
  have t: "t = SMT_app F_and
        [const_eq (arg_type i) (SMT_int T_STR),
         SMT_app F_le [SMT_app F_len [SMT_const (arg_str i)], SMT_int MAX_STR_ARG_LEN],
         disj (map (\<lambda>v. const_eq (arg_str i) (SMT_str v)) (filter (\<lambda>v. length v \<le> MAX_STR_ARG_LEN) vs))]" "en' = en"
    using enc StringIn by auto
  have "smt_eval (inv_env h ids inp) t = SV_bool (pred_holds h inp i p)" for ids inp
  proof -
    let ?e = "inv_env h ids inp" and ?vs = "filter (\<lambda>v. length v \<le> MAX_STR_ARG_LEN) vs"
    have "map (smt_eval ?e) (map (\<lambda>v. const_eq (arg_str i) (SMT_str v)) ?vs) = map SV_bool (map (\<lambda>v. ?e (arg_str i) = SV_str (map of_char v)) ?vs)"
      using pl StringIn by auto
    note d = eval_disj [OF this, unfolded MAX_STR_ARG_LEN_def]
    show ?thesis
      unfolding t(1) using StringIn by (auto simp: d val_tag_iff MAX_STR_ARG_LEN_def split: option.split val.split)
  qed
  then show ?thesis using t ok pl StringIn by (auto simp: const_eq_def plain_def)
next
  case (StringPrefix q)
  have "take (length q) (map of_char s) = (map of_char q :: nat list) \<longleftrightarrow> (\<exists>rest. s = q @ rest)" for s
    by (metis append_take_drop_id append_eq_conv_conj map_of_char_inject take_map)
  then show ?thesis
    using enc StringPrefix ok pl
    by (auto simp: const_eq_def val_tag_iff plain_def MAX_STR_ARG_LEN_def split: if_splits option.split val.split)
next
  case (U32Eq n)
  then show ?thesis using enc ok by (auto simp: const_eq_def val_tag_iff word_uint_eq_iff split: option.split val.split)
qed

lemma enc_pred_ok:
  assumes can: "address_canonical h" and ok: "interned_ok h self (en_addr_ids en)" and len: "length (en_addr_ids en) < 2 ^ 32 - 1"
    and addr: "\<And>a. p = AddressEq a \<Longrightarrow> \<exists>x. h_address h a = Some x \<and> x \<noteq> self" and pl: "\<forall>s \<in> set (pred_texts p). plain s"
    and enc: "enc_pred_holds en i p = (t, en')"
  shows "interned_ok h self (en_addr_ids en') \<and> set (en_addr_ids en) \<subseteq> set (en_addr_ids en') \<and>
    length (en_addr_ids en') \<le> Suc (length (en_addr_ids en)) \<and> (\<forall>s \<in> smt_lits t. is_ascii s) \<and>
    (\<forall>ids inp. interned_ok h self ids \<and> set (en_addr_ids en') \<subseteq> set ids \<and> ei_self_addr inp = self \<longrightarrow>
       smt_eval (inv_env h ids inp) t = SV_bool (pred_holds h inp i p))"
proof -
  let ?en = "en\<lparr>en_arg_indexes := insort_insert i (en_arg_indexes en)\<rparr>"
  obtain b where b: "pred_body ?en i p = (b, en')" "t = SMT_app F_and [SMT_app F_lt [SMT_int (unat i), SMT_const arg_count], b]"
    using enc by (auto simp: enc_pred_holds_def split: prod.splits)
  have "interned_ok h self (en_addr_ids ?en)" "length (en_addr_ids ?en) < 2 ^ 32 - 1" using ok len by simp_all
  note bd = pred_body_ok [OF can this addr pl b(1)]
  have present: "pred_holds h inp i p \<Longrightarrow> \<exists>c. ei_context inp = Ctx_Contract c \<and> unat i < length (cc_args c)" for inp
    by (cases p) (auto simp: arg_val_def split: auth_context.splits if_splits)
  have "smt_eval (inv_env h ids inp) t = SV_bool (pred_holds h inp i p)"
    if "interned_ok h self ids" "set (en_addr_ids en') \<subseteq> set ids" "ei_self_addr inp = self" for ids inp
  proof -
    have "smt_eval (inv_env h ids inp) b = SV_bool (pred_holds h inp i p)" using bd that by blast
    then show ?thesis using present [of inp] by (auto simp: b(2) simp del: of_nat_unat split: auth_context.split)
  qed
  moreover have "\<forall>s \<in> smt_lits t. is_ascii s" using bd by (simp add: b(2))
  moreover have "interned_ok h self (en_addr_ids en') \<and> set (en_addr_ids en) \<subseteq> set (en_addr_ids en') \<and>
      length (en_addr_ids en') \<le> Suc (length (en_addr_ids en))" using bd by simp
  ultimately show ?thesis by blast
qed

lemma enc_args_ok:
  assumes can: "address_canonical h"
  shows "interned_ok h self (en_addr_ids en) \<Longrightarrow> length (en_addr_ids en) + length cs < 2 ^ 32 - 1 \<Longrightarrow>
    (\<forall>c \<in> set cs. \<forall>a. ac_pred c = AddressEq a \<longrightarrow> (\<exists>x. h_address h a = Some x \<and> x \<noteq> self)) \<Longrightarrow>
    (\<forall>c \<in> set cs. \<forall>s \<in> set (pred_texts (ac_pred c)). plain s) \<Longrightarrow> enc_args en cs = (ts, en') \<Longrightarrow>
    interned_ok h self (en_addr_ids en') \<and> set (en_addr_ids en) \<subseteq> set (en_addr_ids en') \<and>
    length (en_addr_ids en') \<le> length (en_addr_ids en) + length cs \<and> (\<forall>t \<in> set ts. \<forall>s \<in> smt_lits t. is_ascii s) \<and>
    (\<forall>ids inp. interned_ok h self ids \<and> set (en_addr_ids en') \<subseteq> set ids \<and> ei_self_addr inp = self \<longrightarrow>
       (\<exists>bs. map (smt_eval (inv_env h ids inp)) ts = map SV_bool bs \<and>
          ((\<forall>b \<in> set bs. b) \<longleftrightarrow> (\<forall>c \<in> set cs. pred_holds h inp (ac_index c) (ac_pred c)))))"
proof (induction cs arbitrary: en ts)
  case (Cons c cs)
  obtain t en1 ts1 where e: "enc_pred_holds en (ac_index c) (ac_pred c) = (t, en1)" "enc_args en1 cs = (ts1, en')"
      "ts = SMT_const ctx_contract # t # ts1"
    using Cons.prems(5) by (auto split: prod.splits)
  have h1: "interned_ok h self (en_addr_ids en1) \<and> set (en_addr_ids en) \<subseteq> set (en_addr_ids en1) \<and>
      length (en_addr_ids en1) \<le> Suc (length (en_addr_ids en)) \<and> (\<forall>s \<in> smt_lits t. is_ascii s) \<and>
      (\<forall>ids inp. interned_ok h self ids \<and> set (en_addr_ids en1) \<subseteq> set ids \<and> ei_self_addr inp = self \<longrightarrow>
         smt_eval (inv_env h ids inp) t = SV_bool (pred_holds h inp (ac_index c) (ac_pred c)))"
    using Cons.prems by (intro enc_pred_ok [OF can _ _ _ _ e(1)]) auto
  have IH: "interned_ok h self (en_addr_ids en') \<and> set (en_addr_ids en1) \<subseteq> set (en_addr_ids en') \<and>
      length (en_addr_ids en') \<le> length (en_addr_ids en1) + length cs \<and> (\<forall>t \<in> set ts1. \<forall>s \<in> smt_lits t. is_ascii s) \<and>
      (\<forall>ids inp. interned_ok h self ids \<and> set (en_addr_ids en') \<subseteq> set ids \<and> ei_self_addr inp = self \<longrightarrow>
         (\<exists>bs. map (smt_eval (inv_env h ids inp)) ts1 = map SV_bool bs \<and>
            ((\<forall>b \<in> set bs. b) \<longleftrightarrow> (\<forall>c \<in> set cs. pred_holds h inp (ac_index c) (ac_pred c)))))"
    using Cons.prems h1 by (intro Cons.IH [OF _ _ _ _ e(2)]) auto
  have present: "pred_holds h inp i p \<Longrightarrow> \<exists>k. ei_context inp = Ctx_Contract k" for inp i p
    by (cases p) (auto simp: arg_val_def split: auth_context.splits if_splits)
  have "\<exists>bs. map (smt_eval (inv_env h ids inp)) ts = map SV_bool bs \<and>
      ((\<forall>b \<in> set bs. b) \<longleftrightarrow> (\<forall>c \<in> set (c # cs). pred_holds h inp (ac_index c) (ac_pred c)))"
    if a: "interned_ok h self ids" "set (en_addr_ids en') \<subseteq> set ids" "ei_self_addr inp = self" for ids inp
  proof -
    obtain bs where bs: "map (smt_eval (inv_env h ids inp)) ts1 = map SV_bool bs"
        "(\<forall>b \<in> set bs. b) \<longleftrightarrow> (\<forall>c \<in> set cs. pred_holds h inp (ac_index c) (ac_pred c))"
      using IH a by blast
    have "set (en_addr_ids en1) \<subseteq> set ids" using IH a(2) by blast
    then have "smt_eval (inv_env h ids inp) t = SV_bool (pred_holds h inp (ac_index c) (ac_pred c))"
      using conjunct2 [OF conjunct2 [OF conjunct2 [OF conjunct2 [OF h1]]]] a(1,3) by blast
    then show ?thesis
      using bs present [of inp "ac_index c" "ac_pred c"]
      by (intro exI [of _ "(\<exists>k. ei_context inp = Ctx_Contract k) # pred_holds h inp (ac_index c) (ac_pred c) # bs"]) (auto simp: e(3))
  qed
  moreover have "\<forall>t \<in> set ts. \<forall>s \<in> smt_lits t. is_ascii s" using h1 IH by (auto simp: e(3))
  moreover have "interned_ok h self (en_addr_ids en') \<and> set (en_addr_ids en) \<subseteq> set (en_addr_ids en') \<and>
      length (en_addr_ids en') \<le> length (en_addr_ids en) + length (c # cs)" using h1 IH by auto
  ultimately show ?case by blast
qed auto

text \<open>The term of a rule, and its literals.\<close>

lemma floor_le:
  "length (principal_ids p) < 2 ^ 31 \<Longrightarrow> principals_floor p \<le> unat n \<longleftrightarrow> signer_floor_of p \<le> n"
  by (cases p) (auto simp: word_le_nat_alt max_def unat_of_nat)

lemma enc_rule_ok:
  assumes can: "address_canonical h" and ok: "interned_ok h self (en_addr_ids en)" and len: "length (en_addr_ids en) < 2 ^ 31"
    and r: "analyzable h self r" and enc: "enc_rule_allows en r = (t, en')"
  shows "interned_ok h self (en_addr_ids en') \<and> set (en_addr_ids en) \<subseteq> set (en_addr_ids en') \<and>
    length (en_addr_ids en') \<le> length (en_addr_ids en) + length (rule_args r) \<and> (\<forall>s \<in> smt_lits t. is_ascii s) \<and>
    (\<forall>ids inp. interned_ok h self ids \<and> set (en_addr_ids en') \<subseteq> set ids \<and> ei_self_addr inp = self \<longrightarrow>
       smt_eval (inv_env h ids inp) t = SV_bool (rule_allows h r inp))"
proof -
  let ?fl = "SMT_app F_ge [SMT_const signer_count, SMT_int (principals_floor (r_principals r))]"
    and ?fns = "case r_functions r of None \<Rightarrow> []
      | Some fs \<Rightarrow> [SMT_const ctx_contract, disj (map (\<lambda>f. const_eq fn_name (SMT_str f)) fs)]"
  obtain args where a: "enc_args en (rule_args r) = (args, en')" and t: "t = conj_term (?fl # ?fns @ args)"
    using enc by (auto simp: enc_rule_allows_def rule_args_def Let_def split: prod.splits option.splits)
  note rD = r [unfolded analyzable_def const_texts_def address_texts_def]
  have "length (en_addr_ids en) + length (rule_args r) < 2 ^ 32 - 1" using len rD by simp
  then have args: "interned_ok h self (en_addr_ids en') \<and> set (en_addr_ids en) \<subseteq> set (en_addr_ids en') \<and>
      length (en_addr_ids en') \<le> length (en_addr_ids en) + length (rule_args r) \<and> (\<forall>t \<in> set args. \<forall>s \<in> smt_lits t. is_ascii s) \<and>
      (\<forall>ids inp. interned_ok h self ids \<and> set (en_addr_ids en') \<subseteq> set ids \<and> ei_self_addr inp = self \<longrightarrow>
         (\<exists>bs. map (smt_eval (inv_env h ids inp)) args = map SV_bool bs \<and>
            ((\<forall>b \<in> set bs. b) \<longleftrightarrow> (\<forall>c \<in> set (rule_args r). pred_holds h inp (ac_index c) (ac_pred c)))))"
    using rD by (intro enc_args_ok [OF can ok _ _ _ a]) blast+
  have "smt_eval (inv_env h ids inp) t = SV_bool (rule_allows h r inp)"
    if ids: "interned_ok h self ids" "set (en_addr_ids en') \<subseteq> set ids" "ei_self_addr inp = self" for ids inp
  proof -
    let ?e = "inv_env h ids inp"
    obtain bs where bs: "map (smt_eval ?e) args = map SV_bool bs"
        "(\<forall>b \<in> set bs. b) \<longleftrightarrow> (\<forall>c \<in> set (rule_args r). pred_holds h inp (ac_index c) (ac_pred c))"
      using args ids by blast
    define fb where "fb = (case r_functions r of None \<Rightarrow> []
      | Some fs \<Rightarrow> [\<exists>c. ei_context inp = Ctx_Contract c, \<exists>f \<in> set fs. ?e fn_name = SV_str (map of_char f)])"
    have "map (smt_eval ?e) (map (\<lambda>f. const_eq fn_name (SMT_str f)) fs) = map SV_bool (map (\<lambda>f. ?e fn_name = SV_str (map of_char f)) fs)"
      if "r_functions r = Some fs" for fs
      using that rD by auto
    note d = eval_disj [OF this]
    have "map (smt_eval ?e) ?fns = map SV_bool fb" unfolding fb_def by (auto simp: d split: option.split)
    moreover have "smt_eval ?e ?fl = SV_bool (signer_floor_of (r_principals r) \<le> ei_signer_count inp)"
      using floor_le [of "r_principals r" "ei_signer_count inp"] rD by (simp del: of_nat_unat)
    ultimately have "map (smt_eval ?e) (?fl # ?fns @ args) = map SV_bool ((signer_floor_of (r_principals r) \<le> ei_signer_count inp) # fb @ bs)"
      using bs(1) by simp
    note e = eval_conj [OF this]
    have fbs: "(\<forall>b \<in> set fb. b) \<longleftrightarrow> (case r_functions r of None \<Rightarrow> True
        | Some fs \<Rightarrow> \<exists>c. ei_context inp = Ctx_Contract c \<and> cc_fn_name c \<in> set fs)"
      unfolding fb_def by (auto split: option.split auth_context.split)
    have "(\<forall>c \<in> set (rule_args r). pred_holds h inp (ac_index c) (ac_pred c)) \<longleftrightarrow>
        (case r_args r of None \<Rightarrow> True | Some acs \<Rightarrow> \<forall>a \<in> set acs. pred_holds h inp (ac_index a) (ac_pred a))"
      by (cases "r_args r") (auto simp: rule_args_def)
    then show ?thesis unfolding t e rule_allows_def fbs [symmetric] by (simp add: bs(2) ball_Un)
  qed
  moreover have "\<forall>s \<in> smt_lits t. is_ascii s"
  proof -
    have "\<forall>t \<in> set args. \<forall>s \<in> smt_lits t. is_ascii s" using args by blast
    moreover have "is_ascii f" if "r_functions r = Some fs" "f \<in> set fs" for fs f using rD that by (auto simp: plain_def)
    ultimately show ?thesis unfolding t by (cases "r_functions r") (auto simp: const_eq_def)
  qed
  ultimately show ?thesis using args by blast
qed

section \<open>What an answer says\<close>

lemma new_encoder_interned: "interned_ok h self (en_addr_ids new_encoder)" "length (en_addr_ids new_encoder) < 2 ^ 31"
  by (simp_all add: new_encoder_def interned_ok_def)

lemma ask_unsat:
  assumes "solver_sound z" "ask z en ts = Z3_Unsat" "\<forall>t \<in> set ts. \<forall>s \<in> smt_lits t. is_ascii s"
  shows "\<exists>t \<in> set ts. smt_eval (inv_env h ids inp) t \<noteq> SV_bool True"
proof -
  have "cmd_lits c = {}" if "c \<in> set (declarations en)" for c
    using that by (auto simp: declarations_def arg_declarations_def)
  then have "\<forall>c \<in> set (query en ts). \<forall>s \<in> cmd_lits c. is_ascii s"
    using assms(3) by (auto simp: query_def witness_query_def)
  then have "\<not> list_all (cmd_holds (inv_env h ids inp)) (query en ts)"
    using assms(1,2) unfolding solver_sound_def ask_def by blast
  then show ?thesis using declarations_hold [of h ids inp en] by (auto simp: query_def witness_query_def list_all_iff)
qed

lemma enc_new_rule:
  assumes "address_canonical h" "analyzable h (ei_self_addr inp) r" "enc_rule_allows new_encoder r = (t, en)"
  shows "\<forall>s \<in> smt_lits t. is_ascii s" "smt_eval (inv_env h (en_addr_ids en) inp) t = SV_bool (rule_allows h r inp)"
  using enc_rule_ok [OF assms(1) new_encoder_interned assms(2,3)] by blast+

lemma dead_rule_refuses:
  assumes "solver_sound z" "address_canonical h" "\<lparr>rl_rule = n, rl_verdict = Z3_Unsat\<rparr> \<in> set (dead_rules z doc)"
  shows "\<exists>r \<in> set (d_rules doc). r_name r = n \<and> (\<forall>inp. analyzable h (ei_self_addr inp) r \<longrightarrow> \<not> rule_allows h r inp)"
proof -
  obtain r t en where r: "r \<in> set (d_rules doc)" "r_name r = n" "enc_rule_allows new_encoder r = (t, en)" "ask z en [t] = Z3_Unsat"
    using assms(3) by (auto simp: dead_rules_def split: prod.splits)
  have "\<not> rule_allows h r inp" if "analyzable h (ei_self_addr inp) r" for inp
    using ask_unsat [OF assms(1) r(4), of h "en_addr_ids en" inp] enc_new_rule [OF assms(2) that r(3)] by auto
  then show ?thesis using r by blast
qed

lemma only_calls_rule:
  assumes "solver_sound z" "address_canonical h" "only_calls_verdict z allowed r = Z3_Unsat" "\<forall>f \<in> set allowed. plain f"
    and r: "analyzable h (ei_self_addr inp) r" "rule_allows h r inp" "ei_context inp = Ctx_Contract c"
  shows "cc_fn_name c \<in> set allowed"
proof -
  obtain t en where t: "enc_rule_allows new_encoder r = (t, en)"
      "ask z en [t, SMT_const ctx_contract, conj_term (outside_terms allowed)] = Z3_Unsat"
    using assms(3) by (auto simp: only_calls_verdict_def split: prod.splits)
  note e = enc_new_rule [OF assms(2) r(1) t(1)]
  let ?e = "inv_env h (en_addr_ids en) inp"
  have "map (smt_eval ?e) (outside_terms allowed) = map SV_bool (map (\<lambda>f. f \<noteq> cc_fn_name c) allowed)"
    using assms(4) r(3) by (auto simp: outside_terms_def const_eq_def)
  note out = eval_conj [OF this]
  have "\<forall>s \<in> smt_lits (conj_term (outside_terms allowed)). is_ascii s"
    using assms(4) by (auto simp: outside_terms_def const_eq_def plain_def)
  then show ?thesis
    using ask_unsat [OF assms(1) t(2), of h "en_addr_ids en" inp] e r(2,3) out by auto
qed

lemma narrows_rule:
  assumes "solver_sound z" "address_canonical h" "narrows_verdict z p c = Z3_Unsat"
    and r: "analyzable h (ei_self_addr inp) p" "analyzable h (ei_self_addr inp) c" "rule_allows h c inp"
  shows "rule_allows h p inp"
proof -
  obtain t en u en2 where t: "enc_rule_allows new_encoder c = (t, en)" "enc_rule_allows en p = (u, en2)"
      "ask z en2 [t, SMT_app F_not [u]] = Z3_Unsat"
    using assms(3) by (auto simp: narrows_verdict_def narrows_query_def ask_def split: prod.splits)
  let ?self = "ei_self_addr inp"
  note e1 = enc_rule_ok [OF assms(2) new_encoder_interned r(2) t(1)]
  have l: "interned_ok h ?self (en_addr_ids en)" "length (en_addr_ids en) < 2 ^ 31"
    using e1 r(2) by (auto simp: new_encoder_def analyzable_def)
  note e2 = enc_rule_ok [OF assms(2) l r(1) t(2)]
  have "smt_eval (inv_env h (en_addr_ids en2) inp) t = SV_bool (rule_allows h c inp)"
    "smt_eval (inv_env h (en_addr_ids en2) inp) u = SV_bool (rule_allows h p inp)"
    using e1 e2 by blast+
  moreover have "\<forall>v \<in> set [t, SMT_app F_not [u]]. \<forall>s \<in> smt_lits v. is_ascii s" using e1 e2 by simp
  ultimately show ?thesis
    using ask_unsat [OF assms(1) t(3), of h "en_addr_ids en2" inp] r(3) by auto
qed

section \<open>Properties\<close>

text \<open>
  C24. An empty answer of \<open>only_calls\<close> is a proof about the deployed programs: when the analyzer
  reports no violation for a contract, every compiled rule with that scope carries a program, and
  a program that evaluates to \<open>True\<close> on a contract call only does so for a listed function. The
  solver is sound, address texts are canonical, the constants are ASCII without a backslash and
  no address literal is the account itself.
\<close>

theorem only_calls_proves_allowlist:
  assumes "solver_sound z" "address_canonical h" "compile h doc cfg = Inr p" "only_calls z doc contract allowed = []"
    and "\<forall>f \<in> set allowed. plain f" "\<forall>r \<in> set (d_rules doc). analyzable h self r"
    and "l \<in> set (pl_rules p)" "lr_scope l = ScopeSpec_Contract contract"
  shows "\<exists>params. lr_install l = Some params \<and>
    (\<forall>now inp c. ei_self_addr inp = self \<and> ei_context inp = Ctx_Contract c \<and> rpn_eval now (ip_program params) inp = VTrue \<longrightarrow>
       cc_fn_name c \<in> set allowed)"
proof -
  obtain r where r: "r \<in> set (d_rules doc)" "lower_rule h doc r = Inr l" using compile_rule_of [OF assms(3,7)] by blast
  have "on_target contract r" using lower_rule_Inr(2) [OF r(2)] assms(8) by (cases "r_scope r") (auto simp: on_target_def)
  moreover have "rule_violation z contract allowed r = []" using assms(4) r(1) by (auto simp: only_calls_def)
  ultimately have v: "only_calls_verdict z allowed r = Z3_Unsat" by (auto simp: rule_violation_def split: z3_verdict.splits)
  have an: "analyzable h self r" using assms(6) r(1) by blast
  have only: "cc_fn_name c \<in> set allowed" if "ei_self_addr inp = self" "rule_allows h r inp" "ei_context inp = Ctx_Contract c" for inp c
    using only_calls_rule [OF assms(1,2) v assms(5) _ that(2,3)] an that(1) by simp
  have "\<not> bare_rule r"
  proof
    assume b: "bare_rule r"
    obtain f :: string where f: "f \<notin> set allowed" using ex_new_if_finite [OF infinite_UNIV_listI] by blast
    let ?c = "\<lparr>cc_contract = self, cc_fn_name = f, cc_args = []\<rparr>"
    let ?inp = "\<lparr>ei_context = Ctx_Contract ?c, ei_signer_count = signer_floor_of (r_principals r), ei_self_addr = self\<rparr>"
    have "rule_allows h r ?inp" using b by (simp add: rule_allows_def bare_rule_def)
    then show False using only [of ?inp ?c] f by simp
  qed
  then obtain params where pr: "lr_install l = Some params" using lower_rule_Inr(4) [OF r(2)] by auto
  then show ?thesis using only lowered_program_value(2) [OF r(2) pr] by blast
qed

text \<open>
  C34. An empty answer of \<open>narrows\<close> is a proof of attenuation: every rule of the child has a
  rule of the parent with its name and scope that allows every invocation the child's allows; an
  expiry of the parent is kept or brought forward, and a cap stays on the same token with a limit
  no higher and a window no shorter. The solver is sound, address texts are canonical, the
  constants of both documents are ASCII without a backslash and no address literal is the account
  itself.
\<close>

theorem narrows_proves_attenuation:
  assumes "solver_sound z" "address_canonical h" "narrows z parent child = []"
    and "\<forall>r \<in> set (d_rules parent) \<union> set (d_rules child). analyzable h self r"
  shows "\<forall>c \<in> set (d_rules child). \<exists>p \<in> set (d_rules parent). r_name p = r_name c \<and> r_scope p = r_scope c \<and>
    (\<forall>inp. ei_self_addr inp = self \<and> rule_allows h c inp \<longrightarrow> rule_allows h p inp) \<and>
    (\<forall>x. r_not_after_ledger p = Some x \<longrightarrow> (\<exists>y \<le> x. r_not_after_ledger c = Some y)) \<and>
    (\<forall>k. r_cap p = Some k \<longrightarrow> (\<exists>k'. r_cap c = Some k' \<and> cap_token k' = cap_token k \<and>
       limit_or_max (cap_limit k') \<le> limit_or_max (cap_limit k) \<and> cap_period_ledgers k \<le> cap_period_ledgers k'))"
proof
  fix c assume c: "c \<in> set (d_rules child)"
  then have f: "rule_findings z parent c = []" using assms(3) by (auto simp: narrows_def)
  then obtain p where p: "find (\<lambda>r. r_name r = r_name c) (d_rules parent) = Some p" "r_scope p = r_scope c"
      "narrows_verdict z p c = Z3_Unsat" "\<not> expiry_extended (r_not_after_ledger p) (r_not_after_ledger c)" "\<not> cap_loosened (r_cap p) (r_cap c)"
    by (auto simp: rule_findings_def split: option.splits if_splits z3_verdict.splits)
  have pp: "p \<in> set (d_rules parent)" "r_name p = r_name c" using find_in [OF p(1)] by auto
  have "rule_allows h p inp" if "ei_self_addr inp = self" "rule_allows h c inp" for inp
    using narrows_rule [OF assms(1,2) p(3) _ _ that(2)] assms(4) c pp(1) that(1) by auto
  moreover have "\<forall>x. r_not_after_ledger p = Some x \<longrightarrow> (\<exists>y \<le> x. r_not_after_ledger c = Some y)"
    using p(4) by (auto simp: expiry_extended_def not_less split: option.splits)
  moreover have "\<forall>k. r_cap p = Some k \<longrightarrow> (\<exists>k'. r_cap c = Some k' \<and> cap_token k' = cap_token k \<and>
       limit_or_max (cap_limit k') \<le> limit_or_max (cap_limit k) \<and> cap_period_ledgers k \<le> cap_period_ledgers k')"
    using p(5) by (auto simp: cap_loosened_def not_less split: option.splits)
  ultimately show "\<exists>p \<in> set (d_rules parent). r_name p = r_name c \<and> r_scope p = r_scope c \<and>
    (\<forall>inp. ei_self_addr inp = self \<and> rule_allows h c inp \<longrightarrow> rule_allows h p inp) \<and>
    (\<forall>x. r_not_after_ledger p = Some x \<longrightarrow> (\<exists>y \<le> x. r_not_after_ledger c = Some y)) \<and>
    (\<forall>k. r_cap p = Some k \<longrightarrow> (\<exists>k'. r_cap c = Some k' \<and> cap_token k' = cap_token k \<and>
       limit_or_max (cap_limit k') \<le> limit_or_max (cap_limit k) \<and> cap_period_ledgers k \<le> cap_period_ledgers k'))"
    using pp p(2) by blast
qed

text \<open>The payment document, a host that decodes no address, and a solver that knows its two queries.\<close>

definition ana_host :: host where
  "ana_host = \<lparr>h_sha256 = (\<lambda>bs. word_of_nat (length bs)), h_address = (\<lambda>s. None), h_symbol_ok = (\<lambda>s. True)\<rparr>"

definition ana_only_query :: "smt_cmd list" where
  "ana_only_query = (let (allow, en) = enc_rule_allows new_encoder demo_pay
     in query en [allow, SMT_const ctx_contract, conj_term (outside_terms [''transfer''])])"

definition answers_unsat :: "smt_cmd list list \<Rightarrow> z3" where
  "answers_unsat qs script = (if script \<in> set (map script_text qs) then (''unsat'', []) else ([], []))"

definition ana_z3 :: z3 where
  "ana_z3 = answers_unsat [ana_only_query, narrows_query demo_pay demo_pay, narrows_query demo_admin demo_admin]"

lemma ana_pay_term: "enc_rule_allows new_encoder demo_pay =
    (SMT_app F_and [SMT_app F_ge [SMT_const signer_count, SMT_int 1], SMT_const ctx_contract, const_eq fn_name (SMT_str ''transfer''),
       SMT_const ctx_contract, SMT_app F_and [SMT_app F_lt [SMT_int 0, SMT_const arg_count],
         SMT_app F_and [const_eq (arg_type 0) (SMT_int 0), const_eq (arg_addr 0) (SMT_int 0)]]],
     \<lparr>en_addr_ids = [], en_arg_indexes = [0]\<rparr>)"
  by (simp add: enc_rule_allows_def demo_pay_def new_encoder_def enc_pred_holds_def conj_term_def disj_def T_ADDR_def insort_insert_key_def)

lemma ana_narrow_unsat: "fst (enc_rule_allows new_encoder r) = fst (enc_rule_allows (snd (enc_rule_allows new_encoder r)) r) \<Longrightarrow>
    \<not> list_all (cmd_holds env) (narrows_query r r)"
  by (auto simp: narrows_query_def query_def split: prod.splits)

lemma answers_unsat_verdict: "run_z3 (answers_unsat qs) script = Z3_Unsat \<longleftrightarrow> script \<in> set (map script_text qs)"
  by (auto simp: run_z3_def answers_unsat_def str_lines_def)

lemma answers_unsat_sound: "(\<And>q env. q \<in> set qs \<Longrightarrow> \<not> list_all (cmd_holds env) q) \<Longrightarrow> solver_sound (answers_unsat qs)"
  unfolding solver_sound_def answers_unsat_verdict by (auto dest: script_text_inject)

lemma ana_admin_unsat: "\<not> list_all (cmd_holds env) (narrows_query demo_admin demo_admin)"
  by (rule ana_narrow_unsat) (simp add: enc_rule_allows_def demo_admin_def)

lemma ana_sound: "solver_sound ana_z3"
proof -
  have "\<not> list_all (cmd_holds env) ana_only_query" for env
    by (auto simp: ana_only_query_def ana_pay_term query_def outside_terms_def conj_term_def)
  moreover have "\<not> list_all (cmd_holds env) (narrows_query demo_pay demo_pay)" for env
    by (rule ana_narrow_unsat) (simp add: ana_pay_term, simp add: enc_rule_allows_def demo_pay_def enc_pred_holds_def
        conj_term_def disj_def T_ADDR_def)
  ultimately show ?thesis using ana_admin_unsat unfolding ana_z3_def by (intro answers_unsat_sound) auto
qed

lemma ana_analyzable: "analyzable ana_host (ContractId 1) demo_pay" "analyzable ana_host (ContractId 1) demo_admin" "address_canonical ana_host"
  by (auto simp: analyzable_def const_texts_def address_texts_def rule_args_def demo_pay_def demo_admin_def plain_def is_ascii_def
      address_canonical_def ana_host_def)

definition ana_params :: install_params where
  "ana_params = \<lparr>ip_program = demo_program, ip_doc_hash = rule_hash_onchain ana_host demo_pay\<rparr>"

definition ana_plan :: plan where
  "ana_plan = demo_plan\<lparr>pl_rules := [pl_rules demo_plan ! 0, (pl_rules demo_plan ! 1)\<lparr>lr_install := Some ana_params\<rparr>]\<rparr>"

lemma ana_compile: "compile ana_host demo_doc \<lparr>cfg_interpreter_wasm_hash = 5\<rparr> = Inr ana_plan"
proof -
  have b: "build_program ana_host demo_pay 1 = Inr demo_program"
    by (simp add: build_program_def host_symbol_def ana_host_def demo_pay_def demo_program_def
      rpn_validate_def PROGRAM_VERSION_def MAX_PROGRAM_LEN_def MAX_STACK_DEPTH_def)
  have f: "principal_floor (r_name demo_pay) (r_principals demo_pay) = Inr ([''ops''], 1)" by (simp add: demo_pay_def)
  have "lower_rule ana_host demo_doc demo_pay = Inr (pl_rules ana_plan ! 1)"
    using b f by (simp add: lower_rule_def resolve_signer_def demo_doc_def ana_plan_def ana_params_def demo_plan_def Let_def)
      (simp add: demo_pay_def lower_cap_def lower_expiry_def)
  moreover have "lower_rule ana_host demo_doc demo_admin = Inr (pl_rules ana_plan ! 0)"
    by (simp add: lower_rule_def resolve_signer_def demo_doc_def ana_plan_def demo_plan_def Let_def demo_admin_def lower_cap_def lower_expiry_def)
  moreover have "d_rules demo_doc = [demo_admin, demo_pay]" by (simp add: demo_doc_def)
  ultimately have "collect_results (lower_rule ana_host demo_doc) (d_rules demo_doc) = Inr (pl_rules ana_plan)"
    by simp (simp add: ana_plan_def demo_plan_def)
  then show ?thesis by (simp add: compile_def) (simp add: ana_plan_def demo_plan_def)
qed

lemma ana_verdicts:
  "only_calls ana_z3 demo_doc ''CAAAAAAAAAAAAAAAAAAAAAAAAAAAAAAAAAAAAAAAAAAAAAAAAAAAD2KM'' [''transfer''] = []" "narrows ana_z3 demo_doc demo_doc = []"
proof -
  have q: "run_z3 ana_z3 (script_text q) = Z3_Unsat" if "q = ana_only_query \<or> q = narrows_query demo_pay demo_pay \<or> q = narrows_query demo_admin demo_admin" for q
    using that unfolding ana_z3_def answers_unsat_verdict by auto
  have "only_calls_verdict ana_z3 [''transfer''] demo_pay = Z3_Unsat"
    using q [of ana_only_query] by (simp add: only_calls_verdict_def ask_def ana_only_query_def split: prod.splits)
  then show "only_calls ana_z3 demo_doc ''CAAAAAAAAAAAAAAAAAAAAAAAAAAAAAAAAAAAAAAAAAAAAAAAAAAAD2KM'' [''transfer''] = []"
    by (simp add: only_calls_def demo_doc_def rule_violation_def on_target_def demo_admin_def)
  have "narrows_verdict ana_z3 r r = Z3_Unsat" if "r = demo_pay \<or> r = demo_admin" for r
    using q [of "narrows_query r r"] that by (auto simp: narrows_verdict_def narrows_query_def split: prod.splits)
  then show "narrows ana_z3 demo_doc demo_doc = []"
    by (simp add: narrows_def demo_doc_def rule_findings_def demo_admin_def demo_pay_def expiry_extended_def cap_loosened_def)
qed

text \<open>Witness of C24: the payment rule only ever authorizes transfers.\<close>

theorem only_calls_proves_allowlist_witness:
  "\<exists>params. lr_install (pl_rules ana_plan ! 1) = Some params \<and> rpn_eval 7 (ip_program params)
     \<lparr>ei_context = Ctx_Contract \<lparr>cc_contract = ContractId 0, cc_fn_name = ''burn'', cc_args = [V_Address (ContractId 1)]\<rparr>,
      ei_signer_count = 1, ei_self_addr = ContractId 1\<rparr> \<noteq> VTrue"
proof -
  have "\<forall>f \<in> set [''transfer'']. plain f" "\<forall>r \<in> set (d_rules demo_doc). analyzable ana_host (ContractId 1) r"
    "pl_rules ana_plan ! 1 \<in> set (pl_rules ana_plan)"
    "lr_scope (pl_rules ana_plan ! 1) = ScopeSpec_Contract ''CAAAAAAAAAAAAAAAAAAAAAAAAAAAAAAAAAAAAAAAAAAAAAAAAAAAD2KM''"
    using ana_analyzable(1,2) by (simp_all add: plain_def is_ascii_def demo_doc_def ana_plan_def demo_plan_def)
  from only_calls_proves_allowlist [OF ana_sound ana_analyzable(3) ana_compile ana_verdicts(1) this] show ?thesis by force
qed

text \<open>Witness of C34: the document narrows itself.\<close>

theorem narrows_proves_attenuation_witness:
  "\<exists>p \<in> set (d_rules demo_doc). r_name p = r_name demo_pay \<and> rule_allows ana_host p
     \<lparr>ei_context = Ctx_Contract \<lparr>cc_contract = ContractId 0, cc_fn_name = ''transfer'', cc_args = [V_Address (ContractId 1)]\<rparr>,
      ei_signer_count = 1, ei_self_addr = ContractId 1\<rparr>"
proof -
  let ?inp = "\<lparr>ei_context = Ctx_Contract \<lparr>cc_contract = ContractId 0, cc_fn_name = ''transfer'', cc_args = [V_Address (ContractId 1)]\<rparr>,
      ei_signer_count = 1, ei_self_addr = ContractId 1\<rparr>"
  have a: "\<forall>r \<in> set (d_rules demo_doc) \<union> set (d_rules demo_doc). analyzable ana_host (ContractId 1) r"
    using ana_analyzable by (simp add: demo_doc_def)
  have d: "demo_pay \<in> set (d_rules demo_doc)" by (simp add: demo_doc_def)
  have "rule_allows ana_host demo_pay ?inp" "ei_self_addr ?inp = ContractId 1" by (simp_all add: rule_allows_def demo_pay_def arg_val_def)
  then show ?thesis
    using bspec [OF narrows_proves_attenuation [OF ana_sound ana_analyzable(3) ana_verdicts(2) a] d] by blast
qed

text \<open>Two documents that differ in one string constant, and a solver that knows their queries.\<close>

definition escape_rule :: "string \<Rightarrow> rule" where
  "escape_rule v = demo_pay\<lparr>r_args := Some [\<lparr>ac_index = 0, ac_pred = StringIn [v]\<rparr>]\<rparr>"

definition escaped_A :: string where
  "escaped_A = [CHR 0x5C, CHR ''u'', CHR 0x7B, CHR ''4'', CHR ''1'', CHR 0x7D]"

definition escape_call :: eval_inputs where
  "escape_call = \<lparr>ei_context = Ctx_Contract \<lparr>cc_contract = ContractId 0, cc_fn_name = ''transfer'', cc_args = [V_String escaped_A]\<rparr>,
     ei_signer_count = 1, ei_self_addr = ContractId 1\<rparr>"

definition escape_doc :: "string \<Rightarrow> policy_doc" where
  "escape_doc v = demo_doc\<lparr>d_rules := [demo_admin, escape_rule v]\<rparr>"

definition escape_z3 :: z3 where
  "escape_z3 = answers_unsat [narrows_query (escape_rule ''A'') (escape_rule escaped_A), narrows_query demo_admin demo_admin]"

lemma escape_sound: "solver_sound escape_z3"
proof -
  have "smt_literal escaped_A = smt_literal ''A''"
    by (simp add: smt_literal_def escaped_A_def escape_at_def smt_hex_def numeral_eq_Suc)
  then have "\<not> list_all (cmd_holds env) (narrows_query (escape_rule ''A'') (escape_rule escaped_A))" for env
    by (auto simp: narrows_query_def query_def enc_rule_allows_def escape_rule_def demo_pay_def enc_pred_holds_def
        conj_term_def disj_def const_eq_def MAX_STR_ARG_LEN_def escaped_A_def)
  then show ?thesis using ana_admin_unsat unfolding escape_z3_def by (intro answers_unsat_sound) auto
qed

text \<open>
  C40. The literals are not escaped for the solver: \<open>smt_string\<close> only doubles quotes, but SMT-LIB
  reads \<open>u\<close> with a code in braces after a backslash as one character. A parent that allows the
  string \<open>A\<close> and a child that allows only the six characters spelling its escape print literals
  with the same value; a sound solver answers \<open>unsat\<close> to the printed query, so that \<open>narrows\<close>
  reports nothing, while the child allows an invocation the parent refuses.
\<close>

theorem narrows_misreads_escapes:
  "solver_sound escape_z3 \<and> narrows escape_z3 (escape_doc ''A'') (escape_doc escaped_A) = [] \<and>
   escape_rule escaped_A \<in> set (d_rules (escape_doc escaped_A)) \<and> rule_allows ana_host (escape_rule escaped_A) escape_call \<and>
   filter (\<lambda>r. r_scope r = r_scope (escape_rule escaped_A)) (d_rules (escape_doc ''A'')) = [escape_rule ''A''] \<and>
   \<not> rule_allows ana_host (escape_rule ''A'') escape_call"
proof -
  have v: "narrows_verdict escape_z3 (escape_rule ''A'') (escape_rule escaped_A) = Z3_Unsat" "narrows_verdict escape_z3 demo_admin demo_admin = Z3_Unsat"
    unfolding narrows_verdict_def escape_z3_def answers_unsat_verdict by simp_all
  have n: "r_name demo_admin \<noteq> r_name (escape_rule v)" "r_scope demo_admin \<noteq> r_scope (escape_rule v)"
    "r_name (escape_rule v) = r_name demo_pay" "r_scope (escape_rule v) = r_scope demo_pay" for v
    by (simp_all add: demo_admin_def escape_rule_def demo_pay_def)
  have "narrows escape_z3 (escape_doc ''A'') (escape_doc escaped_A) = []"
    using v n by (simp add: narrows_def escape_doc_def rule_findings_def)
      (simp add: demo_admin_def escape_rule_def demo_pay_def expiry_extended_def cap_loosened_def)
  moreover have "rule_allows ana_host (escape_rule escaped_A) escape_call" "\<not> rule_allows ana_host (escape_rule ''A'') escape_call"
    by (simp_all add: rule_allows_def escape_rule_def demo_pay_def escape_call_def arg_val_def escaped_A_def)
  ultimately show ?thesis using escape_sound n by (simp add: escape_doc_def)
qed

end
