(* ===== verification/Ir_Recovery.thy ===== *)
theory Ir_Recovery
  imports Ir_Doc
begin

text \<open>
  Recovery target derivation (\<open>crates/perch-ir/src/recovery.rs\<close>). The lemmas show that a derived
  target is the source document with exactly the declared credentials replaced, each of the
  same kind, and the account's own recovery member with at most its ZK enrollment rotated.
\<close>

datatype derive_action = LostKey | Compromise

record replacement =
  rp_signer_id :: string
  rp_method :: signer_method

record zk_rotation =
  zr_enrollment_id :: string
  zr_commitment :: string

datatype derive_error =
    DE_NotEnrolled
  | DE_NotCanonical
  | DE_EmptyReplacements
  | DE_NotReplaceable string
  | DE_UndeclaredSigner string
  | DE_KindMismatch string
  | DE_ZkEnrollmentMismatch

text \<open>\<open>windows(2)\<close>: some adjacent pair is not strictly ascending.\<close>

fun not_ascending :: "replacement list \<Rightarrow> bool" where
  "not_ascending (a # b # rs) \<longleftrightarrow> rp_signer_id a \<ge> rp_signer_id b \<or> not_ascending (b # rs)"
| "not_ascending _ \<longleftrightarrow> False"

fun same_kind :: "signer_method \<Rightarrow> signer_method \<Rightarrow> bool" where
  "same_kind (External a _) (External b _) \<longleftrightarrow> a = b"
| "same_kind (Delegated _) (Delegated _) \<longleftrightarrow> True"
| "same_kind _ _ \<longleftrightarrow> False"

text \<open>
  One replacement in the signer list: \<open>iter_mut().find(...)\<close> is the first declaration with the
  id, and only it is written.
\<close>

fun replace_signer :: "replacement \<Rightarrow> signer_decl list \<Rightarrow> derive_error + signer_decl list" where
  "replace_signer r [] = Inl (DE_UndeclaredSigner (rp_signer_id r))"
| "replace_signer r (s # ss) =
     (if sd_id s = rp_signer_id r
      then (if \<not> same_kind (sd_method s) (rp_method r) then Inl (DE_KindMismatch (rp_signer_id r))
            else Inr (s\<lparr>sd_method := rp_method r\<rparr> # ss))
      else and_then (replace_signer r ss) (\<lambda>ss'. Inr (s # ss')))"

fun apply_replacements :: "string list \<Rightarrow> replacement list \<Rightarrow> signer_decl list
    \<Rightarrow> derive_error + signer_decl list" where
  "apply_replacements replaceable [] ss = Inr ss"
| "apply_replacements replaceable (r # rs) ss =
     (if rp_signer_id r \<notin> set replaceable then Inl (DE_NotReplaceable (rp_signer_id r))
      else and_then (replace_signer r ss) (apply_replacements replaceable rs))"

definition rotate :: "zk_rotation \<Rightarrow> zk_factor \<Rightarrow> zk_factor" where
  "rotate rot z = z\<lparr>zk_enrollment_id := zr_enrollment_id rot, zk_commitment := zr_commitment rot\<rparr>"

fun rotate_mode :: "recovery_mode \<Rightarrow> zk_rotation option \<Rightarrow> derive_error + recovery_mode" where
  "rotate_mode (GuardianOnly g) None = Inr (GuardianOnly g)"
| "rotate_mode (ZkOnly z) (Some rot) = Inr (ZkOnly (rotate rot z))"
| "rotate_mode (Combined g z) (Some rot) = Inr (Combined g (rotate rot z))"
| "rotate_mode _ _ = Inl DE_ZkEnrollmentMismatch"

definition derive_target :: "policy_doc \<Rightarrow> policy_doc \<Rightarrow> derive_action \<Rightarrow> replacement list
    \<Rightarrow> zk_rotation option \<Rightarrow> derive_error + policy_doc" where
  "derive_target source current action replacements zk =
     and_then (ok_or (d_recovery current) DE_NotEnrolled) (\<lambda>recovery.
     if not_ascending replacements then Inl DE_NotCanonical
     else if action = LostKey \<and> replacements = [] then Inl DE_EmptyReplacements
     else and_then (apply_replacements (rc_replaceable recovery) replacements (d_signers source)) (\<lambda>signers.
          and_then (rotate_mode (rc_mode recovery) zk) (\<lambda>mode.
          Inr \<lparr>d_version = d_version source, d_network = d_network source, d_signers = signers,
               d_rules = d_rules source, d_recovery = Some (recovery\<lparr>rc_mode := mode\<rparr>)\<rparr>)))"

section \<open>Lemmas\<close>

lemma not_ascending_iff: "\<not> not_ascending rs \<longleftrightarrow> sorted_wrt (<) (map rp_signer_id rs)"
proof (induction rs rule: not_ascending.induct)
  case (1 a b rs)
  then show ?case by (auto simp: not_le intro: less_trans)
qed auto

lemma not_ascending_distinct: "\<not> not_ascending rs \<Longrightarrow> distinct (map rp_signer_id rs)"
  by (simp add: not_ascending_iff strict_sorted_iff)

text \<open>The replaced list as one pass over the source, by id.\<close>

definition with_replacements :: "replacement list \<Rightarrow> signer_decl \<Rightarrow> signer_decl" where
  "with_replacements rs s =
     (case find (\<lambda>r. rp_signer_id r = sd_id s) rs of None \<Rightarrow> s | Some r \<Rightarrow> s\<lparr>sd_method := rp_method r\<rparr>)"

lemma sd_id_with [simp]: "sd_id (with_replacements rs s) = sd_id s"
  by (simp add: with_replacements_def split: option.splits)

lemma replace_signer_Inr:
  assumes "replace_signer r ss = Inr ss'" "distinct (map sd_id ss)"
  shows "ss' = map (with_replacements [r]) ss \<and>
     (\<exists>s \<in> set ss. sd_id s = rp_signer_id r \<and> same_kind (sd_method s) (rp_method r))"
  using assms
proof (induction r ss arbitrary: ss' rule: replace_signer.induct)
  case (2 r s ss)
  have other: "map (with_replacements [r]) ss = ss" if "rp_signer_id r = sd_id s"
    using 2(3) that by (auto simp: with_replacements_def intro!: map_idI)
  show ?case
  proof (cases "sd_id s = rp_signer_id r")
    case True
    then have "ss' = s\<lparr>sd_method := rp_method r\<rparr> # ss" "same_kind (sd_method s) (rp_method r)"
      using 2(2) by (auto split: if_splits)
    moreover have "with_replacements [r] s = s\<lparr>sd_method := rp_method r\<rparr>"
      using True by (simp add: with_replacements_def)
    ultimately show ?thesis using True other by simp
  next
    case False
    then show ?thesis using 2 by (auto simp: and_then_eq_Inr with_replacements_def)
  qed
qed simp

lemma apply_replacements_Inr:
  assumes "apply_replacements replaceable rs ss = Inr ss'" "distinct (map sd_id ss)"
    and "distinct (map rp_signer_id rs)"
  shows "ss' = map (with_replacements rs) ss \<and>
     (\<forall>r \<in> set rs. rp_signer_id r \<in> set replaceable \<and>
        (\<exists>s \<in> set ss. sd_id s = rp_signer_id r \<and> same_kind (sd_method s) (rp_method r)))"
  using assms
proof (induction rs arbitrary: ss)
  case Nil
  then show ?case by (auto simp: with_replacements_def intro: map_idI [symmetric])
next
  case (Cons r rs)
  then obtain ss1 where rep: "rp_signer_id r \<in> set replaceable" "replace_signer r ss = Inr ss1"
    and rest: "apply_replacements replaceable rs ss1 = Inr ss'"
    by (auto simp: and_then_eq_Inr split: if_splits)
  have ss1: "ss1 = map (with_replacements [r]) ss"
    and ex: "\<exists>s \<in> set ss. sd_id s = rp_signer_id r \<and> same_kind (sd_method s) (rp_method r)"
    using replace_signer_Inr [OF rep(2) Cons.prems(2)] by auto
  have "map sd_id ss1 = map sd_id ss" by (simp add: ss1)
  then have IH: "ss' = map (with_replacements rs) ss1"
    "\<forall>q \<in> set rs. rp_signer_id q \<in> set replaceable \<and>
        (\<exists>s \<in> set ss1. sd_id s = rp_signer_id q \<and> same_kind (sd_method s) (rp_method q))"
    using Cons.IH [OF rest] Cons.prems by auto
  have fresh: "find (\<lambda>q. rp_signer_id q = rp_signer_id r) rs = None"
    using Cons.prems(3) by (auto simp: find_None_iff image_iff)
  then have "with_replacements rs (with_replacements [r] s) = with_replacements (r # rs) s" for s
    by (auto simp: with_replacements_def split: option.splits)
  moreover have "\<exists>s \<in> set ss. sd_id s = rp_signer_id q \<and> same_kind (sd_method s) (rp_method q)"
    if q: "q \<in> set rs" for q
  proof -
    obtain s where s: "s \<in> set ss" "sd_id s = rp_signer_id q" "same_kind (sd_method (with_replacements [r] s)) (rp_method q)"
      using bspec [OF IH(2) q] ss1 by auto
    have "rp_signer_id r \<noteq> sd_id s" using s(2) Cons.prems(3) q by auto
    then show ?thesis using s by (auto simp: with_replacements_def)
  qed
  moreover have "rp_signer_id q \<in> set replaceable" if "q \<in> set rs" for q
    using bspec [OF IH(2) that] by simp
  ultimately show ?case using IH(1) ss1 rep(1) ex by auto
qed

lemma rotate_mode_Inr:
  assumes "rotate_mode m zk = Inr m'"
  shows "mode_guardians m' = mode_guardians m \<and>
     mode_zk m' = (case zk of None \<Rightarrow> None | Some rot \<Rightarrow> map_option (rotate rot) (mode_zk m)) \<and>
     (zk = None \<longleftrightarrow> mode_zk m = None)"
  using assms by (cases "(m, zk)" rule: rotate_mode.cases) auto

section \<open>Properties\<close>

text \<open>
  C32. A recovery never installs a document somebody chose. When the signer ids of the source are
  distinct (as validation demands), a derived target has the version, network, rules and signer
  ids of the source in order; a signer's method changes exactly when a replacement names it;
  every replacement names a replaceable, declared signer and keeps the kind of credential and
  the verifier; and the recovery member is the account's current one, with the ZK enrollment id
  and commitment rotated exactly when its mode has a ZK factor. A lost-key target replaces at
  least one credential.
\<close>

theorem derived_target_is_source_with_replacements:
  assumes "derive_target source current action rs zk = Inr target"
    and "distinct (map sd_id (d_signers source))"
  shows "\<exists>rec mode. d_recovery current = Some rec \<and>
     target = source\<lparr>d_signers := map (with_replacements rs) (d_signers source),
                     d_recovery := Some (rec\<lparr>rc_mode := mode\<rparr>)\<rparr> \<and>
     mode_guardians mode = mode_guardians (rc_mode rec) \<and>
     mode_zk mode = (case zk of None \<Rightarrow> None | Some rot \<Rightarrow> map_option (rotate rot) (mode_zk (rc_mode rec))) \<and>
     (zk = None \<longleftrightarrow> mode_zk (rc_mode rec) = None) \<and>
     (\<forall>r \<in> set rs. rp_signer_id r \<in> set (rc_replaceable rec) \<and>
        (\<exists>s \<in> set (d_signers source). sd_id s = rp_signer_id r \<and> same_kind (sd_method s) (rp_method r))) \<and>
     (action = LostKey \<longrightarrow> rs \<noteq> [])"
proof -
  obtain rec signers mode where rec: "d_recovery current = Some rec"
    and asc: "\<not> not_ascending rs" and lk: "action = LostKey \<longrightarrow> rs \<noteq> []"
    and app: "apply_replacements (rc_replaceable rec) rs (d_signers source) = Inr signers"
    and mode: "rotate_mode (rc_mode rec) zk = Inr mode"
    and target: "target = \<lparr>d_version = d_version source, d_network = d_network source,
      d_signers = signers, d_rules = d_rules source, d_recovery = Some (rec\<lparr>rc_mode := mode\<rparr>)\<rparr>"
    using assms(1) by (auto simp: derive_target_def and_then_eq_Inr split: if_splits)
  show ?thesis
    using rec lk target rotate_mode_Inr [OF mode]
      apply_replacements_Inr [OF app assms(2) not_ascending_distinct [OF asc]]
    by (intro exI [of _ rec] exI [of _ mode]) simp
qed

text \<open>Witness of C32: replacing the key of one of two signers.\<close>

definition demo_source :: policy_doc where
  "demo_source = \<lparr>d_version = 1, d_network = None,
     d_signers = [\<lparr>sd_id = ''a'', sd_method = External ''V'' ''00''\<rparr>, \<lparr>sd_id = ''b'', sd_method = Delegated ''D''\<rparr>],
     d_rules = [],
     d_recovery = Some \<lparr>rc_profile = Loss, rc_mode = GuardianOnly \<lparr>gs_guardians = [''G''], gs_quorum = 1\<rparr>,
       rc_controller = ''C'', rc_baseline = None, rc_replaceable = [''a''],
       rc_delay_ledgers = 1, rc_expiry_ledgers = 1, rc_max_cancels = 1\<rparr>\<rparr>"

definition demo_replacement :: replacement where
  "demo_replacement = \<lparr>rp_signer_id = ''a'', rp_method = External ''V'' ''11''\<rparr>"

lemma demo_derive:
  "derive_target demo_source demo_source LostKey [demo_replacement] None =
   Inr (demo_source\<lparr>d_signers := [\<lparr>sd_id = ''a'', sd_method = External ''V'' ''11''\<rparr>,
                                \<lparr>sd_id = ''b'', sd_method = Delegated ''D''\<rparr>]\<rparr>)"
  by (simp add: derive_target_def demo_source_def demo_replacement_def)

theorem derived_target_witness:
  "d_signers (demo_source\<lparr>d_signers := [\<lparr>sd_id = ''a'', sd_method = External ''V'' ''11''\<rparr>,
      \<lparr>sd_id = ''b'', sd_method = Delegated ''D''\<rparr>]\<rparr>) =
   map (with_replacements [demo_replacement]) (d_signers demo_source)"
  using derived_target_is_source_with_replacements [OF demo_derive]
  by (simp add: demo_source_def)

end
