(* ===== verification/Recovery_Interface.thy ===== *)
theory Recovery_Interface
  imports Perch_Prelude
begin

text \<open>
  The types and encodings that the recovery controller, the account, the document compiler and
  the ZK contracts share (\<open>crates/perch-recovery-interface\<close>): address payloads (\<open>encode.rs\<close>), the
  recovery statement (\<open>statement.rs\<close>), credentials and replacement sets (\<open>credential.rs\<close>), the
  compiled configuration (\<open>config.rs\<close>), fragment hashes (\<open>fragment.rs\<close>), account constants and
  upgrade requests (\<open>account.rs\<close>), the ZK projections (\<open>zk.rs\<close>) and the controller's errors and
  outcomes (\<open>controller.rs\<close>). SHA-256 and the host's XDR of an address are parameters.

  The lemmas show that the encodings are injective prefix codes with disjoint domains, so a
  digest identifies one statement, and the bounds of freshness, staleness and freezing.
\<close>

section \<open>Addresses (encode.rs)\<close>

datatype address_kind = Kind_Account | Kind_Contract

definition kind_byte :: "address_kind \<Rightarrow> byte" where
  "kind_byte k = (case k of Kind_Account \<Rightarrow> 0 | Kind_Contract \<Rightarrow> 1)"

definition CONTRACT_HEADER :: bytes where "CONTRACT_HEADER = [0, 0, 0, 18, 0, 0, 0, 1]"
definition ACCOUNT_HEADER :: bytes where "ACCOUNT_HEADER = [0, 0, 0, 18, 0, 0, 0, 0, 0, 0, 0, 0]"

text \<open>\<open>Address::to_xdr\<close>, a parameter.\<close>

type_synonym to_xdr = "address \<Rightarrow> bytes"

definition address_payload :: "to_xdr \<Rightarrow> address \<Rightarrow> (address_kind \<times> bytes) option" where
  "address_payload xdr addr =
     (let x = xdr addr;
          shape = (if length x = 40 then Some (Kind_Contract, 8)
                   else if length x = 44 then Some (Kind_Account, 12) else None)
      in case shape of
           None \<Rightarrow> None
         | Some (kind, header_len) \<Rightarrow>
             let header = take header_len x;
                 expected = (case kind of Kind_Contract \<Rightarrow> CONTRACT_HEADER | Kind_Account \<Rightarrow> ACCOUNT_HEADER)
             in if header \<noteq> expected then None else Some (kind, drop header_len x))"

definition contract_id :: "to_xdr \<Rightarrow> address \<Rightarrow> bytes option" where
  "contract_id xdr addr =
     (case address_payload xdr addr of
        Some (Kind_Contract, i) \<Rightarrow> Some i
      | _ \<Rightarrow> None)"

definition tagged_address :: "to_xdr \<Rightarrow> address \<Rightarrow> bytes option" where
  "tagged_address xdr addr =
     (case address_payload xdr addr of
        None \<Rightarrow> None
      | Some (kind, payload) \<Rightarrow> Some (kind_byte kind # payload))"

text \<open>
  What the code relies on of \<open>to_xdr\<close>: the XDR of a contract address is the contract header and
  its id, that of an account the account header and its key, and no other address has either.
\<close>

definition xdr_laws :: "to_xdr \<Rightarrow> bool" where
  "xdr_laws xdr \<longleftrightarrow>
     (\<forall>c. xdr (ContractId c) = CONTRACT_HEADER @ bytes32_to_array c) \<and>
     (\<forall>k. xdr (AccountId k) = ACCOUNT_HEADER @ bytes32_to_array k) \<and>
     (\<forall>n. take 8 (xdr (OtherAddress n)) \<noteq> CONTRACT_HEADER \<and>
          take 12 (xdr (OtherAddress n)) \<noteq> ACCOUNT_HEADER)"

section \<open>The recovery statement (statement.rs)\<close>

definition STATEMENT_DOMAIN :: bytes where "STATEMENT_DOMAIN = str_bytes_of ''perch/recovery/statement''"
definition STATEMENT_VERSION :: byte where "STATEMENT_VERSION = 2"

datatype recovery_action = RA_LostKey | RA_Compromise | RA_Cancel | RA_Reconfigure | RA_Upgrade

fun action_code :: "recovery_action \<Rightarrow> byte" where
  "action_code RA_LostKey = 1"
| "action_code RA_Compromise = 2"
| "action_code RA_Cancel = 3"
| "action_code RA_Reconfigure = 4"
| "action_code RA_Upgrade = 5"

datatype statement_error =
    SE_AccountNotContract
  | SE_ControllerNotContract
  | SE_UnsupportedAddress
  | SE_ReplacementsNotCanonical
  | SE_EmptyReplacements
  | SE_EvidenceExpired
  | SE_EvidenceWindowTooLong

record config_binding =
  cb_epoch :: u64
  cb_config_hash :: bytes32

record statement_timing =
  tm_delay_ledgers :: u32
  tm_expiry_ledgers :: u32
  tm_valid_until_ledger :: u32

record attempt_subject =
  as_attempt_id :: u64
  as_source_doc_hash :: bytes32
  as_target_doc_hash :: bytes32
  as_replacements_hash :: bytes32

record cancel_subject =
  cs_attempt_id :: u64
  cs_attempt_statement :: bytes32

datatype config_change = Change_Remove | Change_Set bytes32

record upgrade_subject =
  us_request_id :: u64
  us_wasm_hash :: bytes32

datatype statement_subject =
    Subject_LostKey attempt_subject
  | Subject_Compromise attempt_subject
  | Subject_Cancel cancel_subject
  | Subject_Reconfigure config_change
  | Subject_Upgrade upgrade_subject

record recovery_statement =
  st_network_id :: bytes32
  st_account :: address
  st_controller :: address
  st_config :: config_binding
  st_timing :: statement_timing
  st_subject :: statement_subject

definition STATEMENT_PREFIX_LEN :: nat where "STATEMENT_PREFIX_LEN = 174"

fun subject_action :: "statement_subject \<Rightarrow> recovery_action" where
  "subject_action (Subject_LostKey _) = RA_LostKey"
| "subject_action (Subject_Compromise _) = RA_Compromise"
| "subject_action (Subject_Cancel _) = RA_Cancel"
| "subject_action (Subject_Reconfigure _) = RA_Reconfigure"
| "subject_action (Subject_Upgrade _) = RA_Upgrade"

definition statement_action :: "recovery_statement \<Rightarrow> recovery_action" where
  "statement_action s = subject_action (st_subject s)"

definition encode_attempt :: "attempt_subject \<Rightarrow> bytes" where
  "encode_attempt s =
     u64_be (as_attempt_id s) @ bytes32_to_array (as_source_doc_hash s) @
     bytes32_to_array (as_target_doc_hash s) @ bytes32_to_array (as_replacements_hash s)"

fun encode_subject :: "statement_subject \<Rightarrow> bytes" where
  "encode_subject (Subject_LostKey s) = encode_attempt s"
| "encode_subject (Subject_Compromise s) = encode_attempt s"
| "encode_subject (Subject_Cancel s) =
     u64_be (cs_attempt_id s) @ bytes32_to_array (cs_attempt_statement s)"
| "encode_subject (Subject_Reconfigure Change_Remove) = 0 # replicate 32 0"
| "encode_subject (Subject_Reconfigure (Change_Set h)) = 1 # bytes32_to_array h"
| "encode_subject (Subject_Upgrade s) = u64_be (us_request_id s) @ bytes32_to_array (us_wasm_hash s)"

definition statement_encode :: "to_xdr \<Rightarrow> recovery_statement \<Rightarrow> statement_error + bytes" where
  "statement_encode xdr s =
     and_then (ok_or (contract_id xdr (st_account s)) SE_AccountNotContract) (\<lambda>account.
     and_then (ok_or (contract_id xdr (st_controller s)) SE_ControllerNotContract) (\<lambda>controller.
     Inr (STATEMENT_DOMAIN @ [STATEMENT_VERSION] @ [action_code (statement_action s)] @
          bytes32_to_array (st_network_id s) @ account @ controller @
          u64_be (cb_epoch (st_config s)) @ bytes32_to_array (cb_config_hash (st_config s)) @
          u32_be (tm_delay_ledgers (st_timing s)) @ u32_be (tm_expiry_ledgers (st_timing s)) @
          u32_be (tm_valid_until_ledger (st_timing s)) @ encode_subject (st_subject s))))"

definition statement_digest :: "(bytes \<Rightarrow> bytes32) \<Rightarrow> to_xdr \<Rightarrow> recovery_statement \<Rightarrow> statement_error + bytes32"
  where
  "statement_digest sha xdr s = and_then (statement_encode xdr s) (\<lambda>b. Inr (sha b))"

definition check_fresh :: "recovery_statement \<Rightarrow> u32 \<Rightarrow> statement_error + unit" where
  "check_fresh s now =
     (let until = tm_valid_until_ledger (st_timing s)
      in if now > until then Inl SE_EvidenceExpired
         else let provider_chosen =
                (case statement_action s of RA_Reconfigure \<Rightarrow> True | RA_Upgrade \<Rightarrow> True | _ \<Rightarrow> False)
              in if provider_chosen \<and> until - now > tm_expiry_ledgers (st_timing s)
                 then Inl SE_EvidenceWindowTooLong else Inr ())"

section \<open>Credentials and replacement sets (credential.rs)\<close>

definition CREDENTIAL_DOMAIN :: bytes where "CREDENTIAL_DOMAIN = str_bytes_of ''perch/recovery/credential''"
definition REPLACEMENTS_DOMAIN :: bytes where "REPLACEMENTS_DOMAIN = str_bytes_of ''perch/recovery/replacements''"

datatype credential = Cred_Delegated address | Cred_External address bytes

text \<open>A length written as a \<open>u32\<close>.\<close>

definition len_be :: "'a list \<Rightarrow> bytes" where
  "len_be xs = u32_be (word_of_nat (length xs))"

fun credential_encode :: "to_xdr \<Rightarrow> credential \<Rightarrow> statement_error + bytes" where
  "credential_encode xdr (Cred_Delegated addr) =
     and_then (ok_or (tagged_address xdr addr) SE_UnsupportedAddress) (\<lambda>a. Inr (1 # a))"
| "credential_encode xdr (Cred_External verifier key) =
     and_then (ok_or (tagged_address xdr verifier) SE_UnsupportedAddress) (\<lambda>v.
     Inr (2 # v @ len_be key @ key))"

definition fingerprint :: "(bytes \<Rightarrow> bytes32) \<Rightarrow> to_xdr \<Rightarrow> credential \<Rightarrow> statement_error + bytes32" where
  "fingerprint sha xdr c = and_then (credential_encode xdr c) (\<lambda>b. Inr (sha (CREDENTIAL_DOMAIN @ b)))"

record cred_replacement =
  cr_signer_id :: string
  cr_credential :: credential

record zk_enrollment =
  ze_id :: bytes32
  ze_commitment :: bytes32

record replacement_set =
  rs_signers :: "cred_replacement list"
  rs_zk_enrollment :: "zk_enrollment list"

text \<open>Byte-lexicographic comparison, a proper prefix first.\<close>

fun bytes_lt :: "bytes \<Rightarrow> bytes \<Rightarrow> bool" where
  "bytes_lt (x # a) (y # b) = (if x \<noteq> y then x < y else bytes_lt a b)"
| "bytes_lt a b = (length a < length b)"

fun encode_replacements :: "to_xdr \<Rightarrow> bytes option \<Rightarrow> cred_replacement list \<Rightarrow> statement_error + bytes" where
  "encode_replacements xdr prev [] = Inr []"
| "encode_replacements xdr prev (r # rs) =
     (let i = str_bytes_of (cr_signer_id r)
      in if (case prev of None \<Rightarrow> False | Some p \<Rightarrow> \<not> bytes_lt p i) then Inl SE_ReplacementsNotCanonical
         else and_then (credential_encode xdr (cr_credential r)) (\<lambda>c.
              and_then (encode_replacements xdr (Some i) rs) (\<lambda>rest.
              Inr (len_be i @ i @ c @ rest))))"

definition encode_enrollment :: "zk_enrollment list \<Rightarrow> statement_error + bytes" where
  "encode_enrollment zs =
     (case zs of
        [] \<Rightarrow> Inr [0]
      | [z] \<Rightarrow> Inr (1 # bytes32_to_array (ze_id z) @ bytes32_to_array (ze_commitment z))
      | _ \<Rightarrow> Inl SE_ReplacementsNotCanonical)"

definition replacements_encode :: "to_xdr \<Rightarrow> replacement_set \<Rightarrow> statement_error + bytes" where
  "replacements_encode xdr rset =
     and_then (encode_replacements xdr None (rs_signers rset)) (\<lambda>signers.
     and_then (encode_enrollment (rs_zk_enrollment rset)) (\<lambda>zk.
     Inr (len_be (rs_signers rset) @ signers @ zk)))"

definition replacements_hash :: "(bytes \<Rightarrow> bytes32) \<Rightarrow> to_xdr \<Rightarrow> replacement_set \<Rightarrow> statement_error + bytes32"
  where
  "replacements_hash sha xdr rset =
     and_then (replacements_encode xdr rset) (\<lambda>b. Inr (sha (REPLACEMENTS_DOMAIN @ b)))"

text \<open>The two loops that collect fingerprints not seen yet.\<close>

definition revocations :: "bytes32 list \<Rightarrow> bytes32 list \<Rightarrow> bytes32 list \<Rightarrow> bytes32 list" where
  "revocations replaced current target =
     (let out = foldl (\<lambda>out f. if f \<notin> set out then out @ [f] else out) [] replaced
      in foldl (\<lambda>out f. if f \<notin> set target \<and> f \<notin> set out then out @ [f] else out) out current)"

definition replaced_credentials_leave :: "bytes32 list \<Rightarrow> bytes32 list \<Rightarrow> bool" where
  "replaced_credentials_leave replaced target = list_all (\<lambda>f. f \<notin> set target) replaced"

section \<open>The compiled configuration (config.rs) and fragment hashes (fragment.rs)\<close>

definition CONFIG_DOMAIN :: bytes where "CONFIG_DOMAIN = str_bytes_of ''perch/recovery/config''"
definition RULE_DOMAIN :: bytes where "RULE_DOMAIN = str_bytes_of ''perch/rule''"

definition config_hash :: "(bytes \<Rightarrow> bytes32) \<Rightarrow> bytes \<Rightarrow> bytes32" where
  "config_hash sha canonical_recovery_json = sha (CONFIG_DOMAIN @ canonical_recovery_json)"

definition fragment_rule_hash :: "(bytes \<Rightarrow> bytes32) \<Rightarrow> bytes \<Rightarrow> bytes32" where
  "fragment_rule_hash sha canonical_rule_json = sha (RULE_DOMAIN @ canonical_rule_json)"

datatype compiled_profile = CP_Loss | CP_Protected

record compiled_guardian_set =
  cg_guardians :: "address list"
  cg_quorum :: u32

record compiled_zk_factor =
  cz_adapter :: address
  cz_circuit_id :: bytes32
  cz_pool :: address
  cz_enrollment_id :: bytes32
  cz_commitment :: bytes32

record zk_binding =
  zb_pool :: address
  zb_enrollment_id :: bytes32
  zb_circuit_id :: bytes32

definition zk_factor_binding :: "compiled_zk_factor \<Rightarrow> zk_binding" where
  "zk_factor_binding z =
     \<lparr>zb_pool = cz_pool z, zb_enrollment_id = cz_enrollment_id z, zb_circuit_id = cz_circuit_id z\<rparr>"

datatype compiled_recovery_mode =
    CM_GuardianOnly compiled_guardian_set
  | CM_ZkOnly compiled_zk_factor
  | CM_Combined compiled_guardian_set compiled_zk_factor

record compiled_recovery_config =
  cc_config_hash :: bytes32
  cc_profile :: compiled_profile
  cc_mode :: compiled_recovery_mode
  cc_controller :: address
  cc_baseline :: "bytes32 option"
  cc_replaceable :: "string list"
  cc_delay_ledgers :: u32
  cc_expiry_ledgers :: u32
  cc_max_cancels :: u32

definition config_guardians :: "compiled_recovery_config \<Rightarrow> compiled_guardian_set option" where
  "config_guardians c =
     (case cc_mode c of CM_GuardianOnly g \<Rightarrow> Some g | CM_Combined g _ \<Rightarrow> Some g | CM_ZkOnly _ \<Rightarrow> None)"

definition config_zk :: "compiled_recovery_config \<Rightarrow> compiled_zk_factor option" where
  "config_zk c =
     (case cc_mode c of CM_ZkOnly z \<Rightarrow> Some z | CM_Combined _ z \<Rightarrow> Some z | CM_GuardianOnly _ \<Rightarrow> None)"

definition config_binding_at :: "compiled_recovery_config \<Rightarrow> u64 \<Rightarrow> config_binding" where
  "config_binding_at c epoch = \<lparr>cb_epoch = epoch, cb_config_hash = cc_config_hash c\<rparr>"

definition config_timing :: "compiled_recovery_config \<Rightarrow> u32 \<Rightarrow> statement_timing" where
  "config_timing c valid_until_ledger =
     \<lparr>tm_delay_ledgers = cc_delay_ledgers c, tm_expiry_ledgers = cc_expiry_ledgers c,
      tm_valid_until_ledger = valid_until_ledger\<rparr>"

definition zk_factor_transition_ok :: "compiled_zk_factor option \<Rightarrow> compiled_zk_factor option \<Rightarrow> bool" where
  "zk_factor_transition_ok old new =
     (case (old, new) of
        (Some a, Some b) \<Rightarrow> a = b \<or> cz_enrollment_id a \<noteq> cz_enrollment_id b
      | _ \<Rightarrow> True)"

definition leaf_to_insert :: "compiled_zk_factor option \<Rightarrow> compiled_zk_factor option \<Rightarrow> compiled_zk_factor option"
  where
  "leaf_to_insert old new =
     (case new of
        None \<Rightarrow> None
      | Some n \<Rightarrow>
          (case old of
             Some o' \<Rightarrow> if cz_enrollment_id o' = cz_enrollment_id n then None else Some n
           | None \<Rightarrow> Some n))"

section \<open>Account constants and upgrade requests (account.rs)\<close>

definition LEDGERS_PER_DAY_NOMINAL :: u32 where "LEDGERS_PER_DAY_NOMINAL = 17280"
definition ACCOUNT_UPGRADE_DELAY_LEDGERS :: u32 where
  "ACCOUNT_UPGRADE_DELAY_LEDGERS = 7 * LEDGERS_PER_DAY_NOMINAL"

record upgrade_request =
  ur_request_id :: u64
  ur_wasm_hash :: bytes32
  ur_generation :: u64
  ur_controller_epoch :: "u64 option"
  ur_executable_at :: u32

datatype upgrade_readiness = Ready | NotYet | Stale

definition upgrade_schedule :: "u64 \<Rightarrow> bytes32 \<Rightarrow> u64 \<Rightarrow> u64 option \<Rightarrow> u32 \<Rightarrow> upgrade_request option" where
  "upgrade_schedule request_id wasm_hash generation controller_epoch now =
     (case checked_add now ACCOUNT_UPGRADE_DELAY_LEDGERS of
        None \<Rightarrow> None
      | Some at \<Rightarrow> Some \<lparr>ur_request_id = request_id, ur_wasm_hash = wasm_hash, ur_generation = generation,
                       ur_controller_epoch = controller_epoch, ur_executable_at = at\<rparr>)"

definition readiness :: "upgrade_request \<Rightarrow> u32 \<Rightarrow> u64 \<Rightarrow> upgrade_readiness" where
  "readiness r now generation =
     (if generation \<noteq> ur_generation r then Stale
      else if now < ur_executable_at r then NotYet else Ready)"

definition RESERVED_INVOKER_ONLY_FNS :: "string list" where
  "RESERVED_INVOKER_ONLY_FNS =
     [''install'', ''uninstall'', ''enforce'', ''rcv_sync'', ''rcv_cancel'', ''rcv_upgrade'',
      ''rcv_insert'', ''rcv_gate'']"

definition is_reserved_invoker_only :: "string \<Rightarrow> bool" where
  "is_reserved_invoker_only fn_name = list_ex (\<lambda>name. name = fn_name) RESERVED_INVOKER_ONLY_FNS"

definition is_frozen :: "u32 \<Rightarrow> u32 \<Rightarrow> bool" where
  "is_frozen now frozen_until \<longleftrightarrow> now < frozen_until"

section \<open>ZK projections (zk.rs)\<close>

definition BN254_SCALAR_MODULUS :: bytes where
  "BN254_SCALAR_MODULUS =
     [0x30, 0x64, 0x4e, 0x72, 0xe1, 0x31, 0xa0, 0x29, 0xb8, 0x50, 0x45, 0xb6, 0x81, 0x81, 0x58, 0x5d,
      0x28, 0x33, 0xe8, 0x48, 0x79, 0xb9, 0x70, 0x91, 0x43, 0xe1, 0xf5, 0x93, 0xf0, 0x00, 0x00, 0x01]"

definition DOM_AUTH :: bytes where
  "DOM_AUTH =
     [0x04, 0xe4, 0xc9, 0x9c, 0x74, 0x77, 0x37, 0x9c, 0x7e, 0x47, 0xc9, 0x38, 0x01, 0x70, 0xe3, 0xfb,
      0x1e, 0x7c, 0x56, 0x5a, 0xfe, 0x67, 0xdd, 0x56, 0x21, 0x6d, 0xf9, 0x98, 0x61, 0xf1, 0xfb, 0x3c]"

fun field_below :: "bytes \<Rightarrow> bytes \<Rightarrow> bool" where
  "field_below (a # x) (m # ms) = (if a \<noteq> m then a < m else field_below x ms)"
| "field_below _ _ = False"

definition is_canonical_field :: "bytes \<Rightarrow> bool" where
  "is_canonical_field x = field_below x BN254_SCALAR_MODULUS"

definition split_hi_lo :: "bytes \<Rightarrow> bytes \<times> bytes" where
  "split_hi_lo x = (replicate 16 0 @ take 16 x, replicate 16 0 @ drop 16 x)"

record zk_statement_fields =
  zf_account_hi :: bytes
  zf_account_lo :: bytes
  zf_enrollment_hi :: bytes
  zf_enrollment_lo :: bytes
  zf_digest_hi :: bytes
  zf_digest_lo :: bytes

definition auth_preimage :: "zk_statement_fields \<Rightarrow> bytes list" where
  "auth_preimage f =
     [DOM_AUTH, zf_account_hi f, zf_account_lo f, zf_enrollment_hi f, zf_enrollment_lo f,
      zf_digest_hi f, zf_digest_lo f]"

definition statement_fields :: "(bytes \<Rightarrow> bytes32) \<Rightarrow> to_xdr \<Rightarrow> recovery_statement \<Rightarrow> bytes32
    \<Rightarrow> statement_error + zk_statement_fields" where
  "statement_fields sha xdr s enrollment_id =
     and_then (ok_or (contract_id xdr (st_account s)) SE_AccountNotContract) (\<lambda>account.
     and_then (statement_digest sha xdr s) (\<lambda>digest.
     let (account_hi, account_lo) = split_hi_lo account;
         (enrollment_hi, enrollment_lo) = split_hi_lo (bytes32_to_array enrollment_id);
         (digest_hi, digest_lo) = split_hi_lo (bytes32_to_array digest)
     in Inr \<lparr>zf_account_hi = account_hi, zf_account_lo = account_lo,
             zf_enrollment_hi = enrollment_hi, zf_enrollment_lo = enrollment_lo,
             zf_digest_hi = digest_hi, zf_digest_lo = digest_lo\<rparr>))"

definition public_inputs :: "bytes32 \<Rightarrow> bytes32 \<Rightarrow> bytes32 \<Rightarrow> bytes" where
  "public_inputs root nullifier statement_hash =
     bytes32_to_array root @ bytes32_to_array nullifier @ bytes32_to_array statement_hash"

record zk_evidence =
  ev_tree_id :: u32
  ev_root :: bytes32
  ev_nullifier :: bytes32
  ev_proof :: bytes

datatype zk_adapter_error =
    ZE_CircuitMismatch | ZE_InvalidStatement | ZE_NonCanonicalField | ZE_UnknownRoot
  | ZE_PoolUnavailable | ZE_MalformedProof | ZE_ProofRejected | ZE_VerifierUnavailable

section \<open>Controller errors and outcomes (controller.rs)\<close>

datatype (plugins del: quickcheck_random quickcheck_exhaustive quickcheck_bounded_forall
    quickcheck_full_exhaustive quickcheck_narrowing size transfer lifting) recovery_error =
    NotEnrolled | AttemptAuthorized | NoSuchAttempt | AttemptNotLive | AttemptNotCollecting
  | NotExecutableYet | WrongTarget | NotAGuardian | AlreadyCounted | ModeHasNoGuardians | ModeHasNoZk
  | ZkEvidenceRejected | NullifierSpent | EvidenceExpired | InvalidStatement | ConditionNotMet
  | MaxCancelsReached | OwnerCancelRefused | InvalidReplacements | CredentialRevoked
  | EnrollmentIdReused | NoBaseline | BaselineNotPublished | BaselineMismatch | ZkWiringMismatch
  | ZkFactorChangedInPlace | InvalidConfiguration | StaleUpgrade | LedgerOverflow
  | MalformedContextRule | ReplacedCredentialRetained

record completion =
  co_attempt_id :: u64
  co_replaced :: "credential list"

datatype sync_outcome = Sync_Unchanged | Enrolled | Reconfigured | Sync_Removed | Completed completion

definition bumps_generation :: "sync_outcome \<Rightarrow> bool" where
  "bumps_generation r = (case r of Sync_Unchanged \<Rightarrow> False | _ \<Rightarrow> True)"

datatype upgrade_step = Step_Schedule upgrade_subject u32 | Step_Execute u64


section \<open>Addresses and fixed-width fields\<close>

lemma xdr_lawsD:
  assumes "xdr_laws xdr"
  shows "xdr (ContractId c) = CONTRACT_HEADER @ bytes32_to_array c"
    and "xdr (AccountId k) = ACCOUNT_HEADER @ bytes32_to_array k"
    and "take 8 (xdr (OtherAddress n)) \<noteq> CONTRACT_HEADER"
    and "take 12 (xdr (OtherAddress n)) \<noteq> ACCOUNT_HEADER"
  using assms by (auto simp: xdr_laws_def)

lemma address_payload_eq:
  assumes "xdr_laws xdr"
  shows "address_payload xdr a =
    (case a of ContractId c \<Rightarrow> Some (Kind_Contract, bytes32_to_array c)
             | AccountId k \<Rightarrow> Some (Kind_Account, bytes32_to_array k)
             | OtherAddress _ \<Rightarrow> None)"
proof (cases a)
  case (AccountId k)
  then show ?thesis
    using xdr_lawsD(2) [OF assms, of k] by (simp add: address_payload_def ACCOUNT_HEADER_def)
next
  case (ContractId c)
  then show ?thesis
    using xdr_lawsD(1) [OF assms, of c] by (simp add: address_payload_def CONTRACT_HEADER_def)
next
  case (OtherAddress n)
  then show ?thesis
    using xdr_lawsD(3,4) [OF assms, of n] by (simp add: address_payload_def Let_def)
qed

lemma contract_id_eq:
  assumes "xdr_laws xdr"
  shows "contract_id xdr a = (case a of ContractId c \<Rightarrow> Some (bytes32_to_array c) | _ \<Rightarrow> None)"
  by (cases a) (simp_all add: contract_id_def address_payload_eq [OF assms])

lemma tagged_address_eq:
  assumes "xdr_laws xdr"
  shows "tagged_address xdr a =
    (case a of ContractId c \<Rightarrow> Some (1 # bytes32_to_array c)
             | AccountId k \<Rightarrow> Some (0 # bytes32_to_array k)
             | OtherAddress _ \<Rightarrow> None)"
  by (cases a) (simp_all add: tagged_address_def address_payload_eq [OF assms] kind_byte_def)

lemma contract_id_inject:
  assumes "xdr_laws xdr" "contract_id xdr a = Some i" "contract_id xdr b = Some i"
  shows "a = b"
  using assms(2,3) by (cases a; cases b) (auto simp: contract_id_eq [OF assms(1)])

lemma length_contract_id:
  assumes "xdr_laws xdr" "contract_id xdr a = Some i"
  shows "length i = 32"
  using assms(2) by (cases a) (auto simp: contract_id_eq [OF assms(1)])

lemma length_tagged_address:
  assumes "xdr_laws xdr" "tagged_address xdr a = Some i"
  shows "length i = 33"
  using assms(2) by (cases a) (auto simp: tagged_address_eq [OF assms(1)])

lemma tagged_address_inject:
  assumes "xdr_laws xdr" "tagged_address xdr a = Some i" "tagged_address xdr b = Some i"
  shows "a = b"
  using assms(2,3) by (cases a; cases b) (auto simp: tagged_address_eq [OF assms(1)])

lemma fixed_prefix [encode_simps]:
  "u32_be a @ x = u32_be a' @ x' \<longleftrightarrow> a = a' \<and> x = x'"
  "u64_be b @ x = u64_be b' @ x' \<longleftrightarrow> b = b' \<and> x = x'"
  "bytes32_to_array c @ x = bytes32_to_array c' @ x' \<longleftrightarrow> c = c' \<and> x = x'"
  by (simp_all add: append_eq_split)

lemma length_attempt [simp]: "length (encode_attempt s) = 104"
  by (simp add: encode_attempt_def)

lemma encode_attempt_inject: "encode_attempt s = encode_attempt t \<longleftrightarrow> s = t"
  by (cases s; cases t) (simp add: encode_attempt_def encode_simps)

lemma action_code_inject [simp]: "action_code a = action_code b \<longleftrightarrow> a = b"
  by (cases a; cases b) simp_all

text \<open>The subject is decodable once the action before it is known.\<close>

lemma encode_subject_inject:
  assumes "subject_action s = subject_action t" "encode_subject s = encode_subject t"
  shows "s = t"
proof (cases s)
  case (Subject_LostKey a)
  then show ?thesis using assms by (cases t) (auto simp: encode_attempt_inject)
next
  case (Subject_Compromise a)
  then show ?thesis using assms by (cases t) (auto simp: encode_attempt_inject)
next
  case (Subject_Cancel c)
  then show ?thesis using assms by (cases t; cases c) (auto simp: encode_simps)
next
  case (Subject_Reconfigure c)
  then obtain d where t: "t = Subject_Reconfigure d" using assms(1) by (cases t) auto
  show ?thesis using assms(2) Subject_Reconfigure t by (cases c; cases d) auto
next
  case (Subject_Upgrade u)
  then show ?thesis using assms by (cases t; cases u) (auto simp: encode_simps)
qed

lemma statement_encode_Inr:
  "statement_encode xdr s = Inr b \<longleftrightarrow>
     (\<exists>account controller. contract_id xdr (st_account s) = Some account \<and>
        contract_id xdr (st_controller s) = Some controller \<and>
        b = STATEMENT_DOMAIN @ [STATEMENT_VERSION] @ [action_code (statement_action s)] @
          bytes32_to_array (st_network_id s) @ account @ controller @
          u64_be (cb_epoch (st_config s)) @ bytes32_to_array (cb_config_hash (st_config s)) @
          u32_be (tm_delay_ledgers (st_timing s)) @ u32_be (tm_expiry_ledgers (st_timing s)) @
          u32_be (tm_valid_until_ledger (st_timing s)) @ encode_subject (st_subject s))"
  by (auto simp: statement_encode_def result_simps)

lemma statement_encode_inject:
  assumes "xdr_laws xdr" "statement_encode xdr s = Inr b" "statement_encode xdr t = Inr b"
  shows "s = t"
proof -
  obtain a c where s: "contract_id xdr (st_account s) = Some a" "contract_id xdr (st_controller s) = Some c"
    and bs: "b = STATEMENT_DOMAIN @ [STATEMENT_VERSION] @ [action_code (statement_action s)] @
          bytes32_to_array (st_network_id s) @ a @ c @
          u64_be (cb_epoch (st_config s)) @ bytes32_to_array (cb_config_hash (st_config s)) @
          u32_be (tm_delay_ledgers (st_timing s)) @ u32_be (tm_expiry_ledgers (st_timing s)) @
          u32_be (tm_valid_until_ledger (st_timing s)) @ encode_subject (st_subject s)"
    using assms(2) statement_encode_Inr [of xdr s b] by auto
  obtain a' c' where t: "contract_id xdr (st_account t) = Some a'" "contract_id xdr (st_controller t) = Some c'"
    and bt: "b = STATEMENT_DOMAIN @ [STATEMENT_VERSION] @ [action_code (statement_action t)] @
          bytes32_to_array (st_network_id t) @ a' @ c' @
          u64_be (cb_epoch (st_config t)) @ bytes32_to_array (cb_config_hash (st_config t)) @
          u32_be (tm_delay_ledgers (st_timing t)) @ u32_be (tm_expiry_ledgers (st_timing t)) @
          u32_be (tm_valid_until_ledger (st_timing t)) @ encode_subject (st_subject t)"
    using assms(3) statement_encode_Inr [of xdr t b] by auto
  have len: "length a = length a'" "length c = length c'"
    using length_contract_id [OF assms(1)] s t by auto
  have e: "statement_action s = statement_action t" "st_network_id s = st_network_id t" "a = a'" "c = c'"
    "cb_epoch (st_config s) = cb_epoch (st_config t)"
    "cb_config_hash (st_config s) = cb_config_hash (st_config t)"
    "tm_delay_ledgers (st_timing s) = tm_delay_ledgers (st_timing t)"
    "tm_expiry_ledgers (st_timing s) = tm_expiry_ledgers (st_timing t)"
    "tm_valid_until_ledger (st_timing s) = tm_valid_until_ledger (st_timing t)"
    "encode_subject (st_subject s) = encode_subject (st_subject t)"
    using bs bt len by (auto simp: append_eq_split encode_simps)
  have "st_subject s = st_subject t"
    using encode_subject_inject e(1,10) by (simp add: statement_action_def)
  moreover have "st_account s = st_account t" "st_controller s = st_controller t"
    using contract_id_inject [OF assms(1)] s t e(3,4) by auto
  ultimately show ?thesis using e(2,5-9) by (cases s; cases t) simp
qed

lemma length_STATEMENT_DOMAIN: "length STATEMENT_DOMAIN = 24"
  by (simp add: STATEMENT_DOMAIN_def)

lemma length_encode_subject:
  "length (encode_subject j) =
     (case subject_action j of RA_LostKey \<Rightarrow> 104 | RA_Compromise \<Rightarrow> 104 | RA_Cancel \<Rightarrow> 40
        | RA_Reconfigure \<Rightarrow> 33 | RA_Upgrade \<Rightarrow> 40)"
  by (cases j rule: encode_subject.cases) auto

lemma statement_encode_length:
  assumes "xdr_laws xdr" "statement_encode xdr s = Inr b"
  shows "length b = STATEMENT_PREFIX_LEN + length (encode_subject (st_subject s))"
  using assms(2) length_contract_id [OF assms(1)]
  by (auto simp: statement_encode_Inr STATEMENT_PREFIX_LEN_def length_STATEMENT_DOMAIN)

lemma statement_encode_ex:
  assumes "xdr_laws xdr"
  shows "(\<exists>b. statement_encode xdr s = Inr b) \<longleftrightarrow>
           (\<exists>a c. st_account s = ContractId a \<and> st_controller s = ContractId c)"
  by (cases "st_account s"; cases "st_controller s")
     (auto simp: statement_encode_Inr contract_id_eq [OF assms])


section \<open>Credentials and replacement sets are prefix codes\<close>

text \<open>
  What a reader of a byte stream relies on: an item is determined by any stream that starts
  with its encoding, and so is the rest of the stream.
\<close>

locale prefix_code =
  fixes enc :: "'a \<Rightarrow> 'e + bytes"
    and valid :: "'a \<Rightarrow> bool"
  assumes prefix_free: "valid a \<Longrightarrow> valid b \<Longrightarrow> enc a = Inr x \<Longrightarrow> enc b = Inr y \<Longrightarrow>
    x @ u = y @ v \<Longrightarrow> a = b \<and> u = v"
begin

lemma code_inject: "valid a \<Longrightarrow> valid b \<Longrightarrow> enc a = Inr x \<Longrightarrow> enc b = Inr x \<Longrightarrow> a = b"
  using prefix_free [of a b x x "[]" "[]"] by simp

lemma code_stream:
  assumes "list_all valid as'" "list_all valid bs" "length as' = length bs"
    "collect_results enc as' = Inr xs" "collect_results enc bs = Inr ys"
    "concat xs @ u = concat ys @ v"
  shows "as' = bs \<and> u = v"
  using assms
proof (induction as' arbitrary: bs xs ys)
  case (Cons a as')
  obtain b bs' where bs: "bs = b # bs'" using Cons.prems(3) by (cases bs) auto
  obtain x xs' where x: "enc a = Inr x" "collect_results enc as' = Inr xs'" "xs = x # xs'"
    using Cons.prems(4) by (auto simp: result_simps)
  obtain y ys' where y: "enc b = Inr y" "collect_results enc bs' = Inr ys'" "ys = y # ys'"
    using Cons.prems(5) bs by (auto simp: result_simps)
  have "a = b \<and> concat xs' @ u = concat ys' @ v"
    using prefix_free [OF _ _ x(1) y(1)] Cons.prems(1,2,6) bs x(3) y(3) by simp
  then show ?case using Cons.IH [of bs' xs' ys'] Cons.prems bs x y by simp
qed simp

end

text \<open>A host byte string or string is shorter than \<open>2 ^ 32\<close> bytes.\<close>

definition host_sized :: "'a list \<Rightarrow> bool" where
  "host_sized xs \<longleftrightarrow> length xs < 2 ^ 32"

lemma length_len_be [simp]: "length (len_be xs) = 4"
  by (simp add: len_be_def)

lemma len_be_prefix:
  assumes "host_sized xs" "host_sized ys"
  shows "len_be xs @ u = len_be ys @ v \<longleftrightarrow> length xs = length ys \<and> u = v"
proof -
  have "(word_of_nat (length xs) :: u32) = word_of_nat (length ys) \<longleftrightarrow> length xs = length ys"
    using assms by (simp add: host_sized_def word_of_nat_eq_iff take_bit_nat_eq_self)
  then show ?thesis by (simp add: len_be_def fixed_prefix)
qed

lemma sized_bytes_prefix:
  assumes "host_sized xs" "host_sized ys" "len_be xs @ xs @ u = len_be ys @ ys @ v"
  shows "xs = ys \<and> u = v"
  using assms(3) by (auto simp: len_be_prefix [OF assms(1,2)] append_eq_split)

fun sized_credential :: "credential \<Rightarrow> bool" where
  "sized_credential (Cred_Delegated _) = True"
| "sized_credential (Cred_External _ key) = host_sized key"

lemma tagged_prefix:
  assumes "xdr_laws xdr" "tagged_address xdr a = Some x" "tagged_address xdr b = Some y" "x @ u = y @ v"
  shows "a = b \<and> u = v"
  using assms length_tagged_address [OF assms(1)] tagged_address_inject [OF assms(1,2)]
  by (auto simp: append_eq_split)

interpretation credential_code: prefix_code "credential_encode xdr" "\<lambda>a. xdr_laws xdr \<and> sized_credential a" for xdr
proof
  fix c d x y u v
  assume sz': "xdr_laws xdr \<and> sized_credential c" "xdr_laws xdr \<and> sized_credential d"
    and enc: "credential_encode xdr c = Inr x" "credential_encode xdr d = Inr y"
    and eq: "x @ u = y @ v"
  note assms = sz' [THEN conjunct1] and sz = sz' [THEN conjunct2]
  show "c = d \<and> u = v"
  proof (cases c; cases d)
    fix a b assume cd: "c = Cred_Delegated a" "d = Cred_Delegated b"
    then obtain s t where st: "tagged_address xdr a = Some s" "tagged_address xdr b = Some t"
      and xy: "x = 1 # s" "y = 1 # t"
      using enc by (auto simp: result_simps)
    show ?thesis using tagged_prefix [OF assms(1) st] eq xy cd by simp
  next
    fix a b k l assume cd: "c = Cred_External a k" "d = Cred_External b l"
    then obtain s t where st: "tagged_address xdr a = Some s" "tagged_address xdr b = Some t"
      and xy: "x = 2 # s @ len_be k @ k" "y = 2 # t @ len_be l @ l"
      using enc by (auto simp: result_simps)
    have "a = b \<and> len_be k @ k @ u = len_be l @ l @ v"
      using tagged_prefix [OF assms(1) st] eq xy by simp
    then show ?thesis using sized_bytes_prefix [of k l u v] sz cd by simp
  qed (use enc eq in \<open>auto simp: result_simps\<close>)
qed

definition sized_replacement :: "cred_replacement \<Rightarrow> bool" where
  "sized_replacement r \<longleftrightarrow> host_sized (cr_signer_id r) \<and> sized_credential (cr_credential r)"

definition replacement_encode :: "to_xdr \<Rightarrow> cred_replacement \<Rightarrow> statement_error + bytes" where
  "replacement_encode xdr r =
     and_then (credential_encode xdr (cr_credential r)) (\<lambda>c.
       Inr (len_be (str_bytes_of (cr_signer_id r)) @ str_bytes_of (cr_signer_id r) @ c))"

lemma replacement_encode_Inr:
  "replacement_encode xdr r = Inr b \<longleftrightarrow>
     (\<exists>c. credential_encode xdr (cr_credential r) = Inr c \<and>
        b = len_be (str_bytes_of (cr_signer_id r)) @ str_bytes_of (cr_signer_id r) @ c)"
  by (auto simp: replacement_encode_def result_simps)

lemma host_sized_str [simp]: "host_sized (str_bytes_of s) = host_sized s"
  by (simp add: host_sized_def)

interpretation replacement_code: prefix_code "replacement_encode xdr" "\<lambda>a. xdr_laws xdr \<and> sized_replacement a" for xdr
proof
  fix r t x y u v
  assume sz': "xdr_laws xdr \<and> sized_replacement r" "xdr_laws xdr \<and> sized_replacement t"
    and enc: "replacement_encode xdr r = Inr x" "replacement_encode xdr t = Inr y"
    and eq: "x @ u = y @ v"
  note assms = sz' [THEN conjunct1] and sz = sz' [THEN conjunct2]
  obtain c d where c: "credential_encode xdr (cr_credential r) = Inr c"
      "x = len_be (str_bytes_of (cr_signer_id r)) @ str_bytes_of (cr_signer_id r) @ c"
    and d: "credential_encode xdr (cr_credential t) = Inr d"
      "y = len_be (str_bytes_of (cr_signer_id t)) @ str_bytes_of (cr_signer_id t) @ d"
    using enc by (auto simp: replacement_encode_Inr)
  have "str_bytes_of (cr_signer_id r) = str_bytes_of (cr_signer_id t) \<and> c @ u = d @ v"
    using sized_bytes_prefix [of "str_bytes_of (cr_signer_id r)" "str_bytes_of (cr_signer_id t)" "c @ u" "d @ v"]
      sz eq c(2) d(2) by (simp add: sized_replacement_def)
  moreover from this have "cr_credential r = cr_credential t \<and> u = v"
    using credential_code.prefix_free [OF _ _ c(1) d(1), of u v] sz'
    by (simp add: sized_replacement_def)
  ultimately show "r = t \<and> u = v" by (cases r; cases t) simp
qed

text \<open>The encoder's loop is the item encoder on each element, behind the order check.\<close>

definition ids_ascending :: "bytes option \<Rightarrow> cred_replacement list \<Rightarrow> bool" where
  "ids_ascending prev rs \<longleftrightarrow>
     sorted_wrt bytes_lt ((case prev of None \<Rightarrow> [] | Some p \<Rightarrow> [p]) @ map (str_bytes_of \<circ> cr_signer_id) rs)"

lemma Nil_less_iff: "[] < (b :: bytes) \<longleftrightarrow> b \<noteq> []"
  by (cases b) auto

lemma bytes_lt_iff_less: "bytes_lt a b \<longleftrightarrow> a < b"
  by (induction a b rule: bytes_lt.induct) (auto simp: Nil_less_iff)

lemma ids_ascending_Cons:
  "ids_ascending prev (r # rs) \<longleftrightarrow>
     (case prev of None \<Rightarrow> True | Some p \<Rightarrow> bytes_lt p (str_bytes_of (cr_signer_id r))) \<and>
     ids_ascending (Some (str_bytes_of (cr_signer_id r))) rs"
  by (auto simp: ids_ascending_def bytes_lt_iff_less split: option.splits intro: order.strict_trans)

lemma encode_replacements_eq:
  "encode_replacements xdr prev rs = Inr b \<longleftrightarrow>
     ids_ascending prev rs \<and> (\<exists>bs. collect_results (replacement_encode xdr) rs = Inr bs \<and> b = concat bs)"
proof (induction rs arbitrary: prev b)
  case Nil
  then show ?case by (auto simp: ids_ascending_def split: option.splits)
next
  case (Cons r rs)
  show ?case
    by (cases prev) (auto simp: Let_def result_simps Cons.IH ids_ascending_Cons replacement_encode_Inr)
qed

definition sized_set :: "replacement_set \<Rightarrow> bool" where
  "sized_set r \<longleftrightarrow> host_sized (rs_signers r) \<and> list_all sized_replacement (rs_signers r)"

lemma encode_enrollment_prefix:
  assumes "encode_enrollment z = Inr x" "encode_enrollment z' = Inr y" "x @ u = y @ v"
  shows "z = z' \<and> u = v"
proof -
  have cases: "z = [] \<and> x = [0] \<or> (\<exists>e. z = [e] \<and> x = 1 # bytes32_to_array (ze_id e) @ bytes32_to_array (ze_commitment e))"
    if "encode_enrollment z = Inr x" for z x
    using that by (auto simp: encode_enrollment_def split: list.splits)
  show ?thesis using cases [OF assms(1)] cases [OF assms(2)] assms(3) by (auto simp: encode_simps)
qed

interpretation replacements_code: prefix_code "replacements_encode xdr" "\<lambda>a. xdr_laws xdr \<and> sized_set a" for xdr
proof
  fix r t x y u v
  assume sz': "xdr_laws xdr \<and> sized_set r" "xdr_laws xdr \<and> sized_set t"
    and enc: "replacements_encode xdr r = Inr x" "replacements_encode xdr t = Inr y"
    and eq: "x @ u = y @ v"
  note assms = sz' [THEN conjunct1] and sz = sz' [THEN conjunct2]
  obtain bs z where r: "collect_results (replacement_encode xdr) (rs_signers r) = Inr bs"
      "encode_enrollment (rs_zk_enrollment r) = Inr z" "x = len_be (rs_signers r) @ concat bs @ z"
    using enc(1) by (auto simp: replacements_encode_def result_simps encode_replacements_eq)
  obtain bs' z' where t: "collect_results (replacement_encode xdr) (rs_signers t) = Inr bs'"
      "encode_enrollment (rs_zk_enrollment t) = Inr z'" "y = len_be (rs_signers t) @ concat bs' @ z'"
    using enc(2) by (auto simp: replacements_encode_def result_simps encode_replacements_eq)
  have len: "length (rs_signers r) = length (rs_signers t)" "concat bs @ z @ u = concat bs' @ z' @ v"
    using len_be_prefix [of "rs_signers r" "rs_signers t" "concat bs @ z @ u" "concat bs' @ z' @ v"]
      eq r(3) t(3) sz by (simp_all add: sized_set_def)
  have "rs_signers r = rs_signers t \<and> z @ u = z' @ v"
    using replacement_code.code_stream [OF _ _ len(1) r(1) t(1) len(2)] sz'
    by (simp add: sized_set_def list_all_iff)
  moreover from this have "rs_zk_enrollment r = rs_zk_enrollment t \<and> u = v"
    using encode_enrollment_prefix [OF r(2) t(2), of u v] by simp
  ultimately show "r = t \<and> u = v" by (cases r; cases t) simp
qed


section \<open>Digest domains, revocations and field elements\<close>

definition digest_domains :: "bytes list" where
  "digest_domains = [STATEMENT_DOMAIN, CREDENTIAL_DOMAIN, REPLACEMENTS_DOMAIN, CONFIG_DOMAIN, RULE_DOMAIN]"

lemma domains_prefix_free:
  assumes "d \<in> set digest_domains" "e \<in> set digest_domains" "d @ x = e @ y"
  shows "d = e \<and> x = y"
  using assms
  by (auto simp: digest_domains_def STATEMENT_DOMAIN_def CREDENTIAL_DOMAIN_def REPLACEMENTS_DOMAIN_def
      CONFIG_DOMAIN_def RULE_DOMAIN_def str_bytes_of_def)

lemma collect_new:
  "set (foldl (\<lambda>out f. if P f \<and> f \<notin> set out then out @ [f] else out) out xs) = set out \<union> {f \<in> set xs. P f}"
  "distinct (foldl (\<lambda>out f. if P f \<and> f \<notin> set out then out @ [f] else out) out xs) = distinct out"
  by (induction xs arbitrary: out) auto

lemma revocations_set:
  "set (revocations replaced current target) = set replaced \<union> (set current - set target)"
  "distinct (revocations replaced current target)"
  using collect_new [of "\<lambda>_. True" "[]" replaced]
    collect_new [of "\<lambda>f. f \<notin> set target" _ current]
  by (auto simp: revocations_def Let_def)

lemma bytes_number_bound: "bytes_number bs n < (n + 1) * 256 ^ length bs"
proof (induction bs arbitrary: n)
  case (Cons b bs)
  have "unat b < 256" using unsigned_less [where 'a = nat, of b] by simp
  then have "256 * n + unat b + 1 \<le> (n + 1) * 256" by simp
  then have "(256 * n + unat b + 1) * 256 ^ length bs \<le> (n + 1) * 256 * 256 ^ length bs"
    by (rule mult_le_mono1)
  moreover have "(n + 1) * 256 ^ length (b # bs) = (n + 1) * 256 * 256 ^ length bs"
    by (simp add: algebra_simps)
  ultimately show ?case using Cons [of "256 * n + unat b"] by (simp only: bytes_number.simps)
qed simp

lemma bytes_number_ge: "n * 256 ^ length bs \<le> bytes_number bs n"
proof (induction bs arbitrary: n)
  case (Cons b bs)
  have "n * 256 * 256 ^ length bs \<le> (256 * n + unat b) * 256 ^ length bs"
    by (rule mult_le_mono1) simp
  moreover have "n * 256 ^ length (b # bs) = n * 256 * 256 ^ length bs" by simp
  ultimately show ?case using Cons [of "256 * n + unat b"] by (simp only: bytes_number.simps)
qed simp

lemma bytes_number_less:
  assumes "m < n" "length xs = length ys"
  shows "bytes_number xs m < bytes_number ys n"
proof -
  have "(m + 1) * 256 ^ length xs \<le> n * 256 ^ length ys" using assms by (intro mult_le_mono) auto
  then show ?thesis using bytes_number_bound [of xs m] bytes_number_ge [of n ys] by linarith
qed

lemma field_below_iff:
  "length x = length m \<Longrightarrow> field_below x m \<longleftrightarrow> bytes_number x n < bytes_number m n"
proof (induction x m arbitrary: n rule: field_below.induct)
  case (1 a x c ms)
  have l: "length x = length ms" using 1 by simp
  show ?case
  proof (cases "a = c")
    case True
    then show ?thesis using 1 by simp
  next
    case False
    consider "a < c" | "c < a" using False by (cases a c rule: linorder_cases) auto
    then show ?thesis
    proof cases
      case 1
      then have "256 * n + unat a < 256 * n + unat c" by (simp add: word_less_nat_alt)
      then show ?thesis using 1 False bytes_number_less [OF _ l] by simp
    next
      case 2
      then have "256 * n + unat c < 256 * n + unat a" by (simp add: word_less_nat_alt)
      then show ?thesis using 2 False bytes_number_less [OF _ l [symmetric], of "256 * n + unat c" "256 * n + unat a"]
        by simp
    qed
  qed
qed (auto split: list.splits)

lemma be_bytes_Suc: "be_bytes (Suc n) w = be_bytes n (drop_bit 8 w) @ [ucast w]"
proof (rule nth_equalityI)
  fix i assume "i < length (be_bytes (Suc n) w)"
  then consider "i < n" | "i = n" by fastforce
  then show "be_bytes (Suc n) w ! i = (be_bytes n (drop_bit 8 w) @ [ucast w]) ! i"
  proof cases
    case 1
    then have "8 * (n - i) = 8 * (n - Suc i) + 8" by simp
    then show ?thesis using 1 by (simp add: be_bytes_def nth_append drop_bit_drop_bit del: upt_Suc)
  qed (simp add: be_bytes_def nth_append del: upt_Suc)
qed simp

lemma bytes_number_be:
  fixes w :: "'a::len word"
  shows "bytes_number (be_bytes n w) 0 = unat w mod 256 ^ n"
proof (induction n arbitrary: w)
  case 0
  then show ?case by (simp add: be_bytes_def)
next
  case (Suc n)
  have "unat (ucast w :: byte) = unat w mod 256" by (simp add: unsigned_ucast_eq take_bit_eq_mod)
  moreover have "unat (drop_bit 8 w) = unat w div 256" by (rule trans [OF unat_drop_bit_eq]) (simp add: drop_bit_eq_div)
  ultimately have "bytes_number (be_bytes (Suc n) w) 0 = 256 * (unat w div 256 mod 256 ^ n) + unat w mod 256"
    by (simp add: be_bytes_Suc bytes_number_snoc Suc)
  then show ?case by (simp add: mod_mult2_eq)
qed

lemma bytes_number_array [simp]: "bytes_number (bytes32_to_array w) 0 = unat w"
proof -
  have "unat w < 256 ^ 32" using unsigned_less [where 'a = nat, of w] by simp
  then show ?thesis by (simp add: bytes32_to_array_def bytes_number_be)
qed

definition bn254_scalar_order :: nat where
  "bn254_scalar_order = 21888242871839275222246405745257275088548364400416034343698204186575808495617"

lemma modulus_number: "bytes_number BN254_SCALAR_MODULUS 0 = bn254_scalar_order"
  by (simp add: BN254_SCALAR_MODULUS_def bn254_scalar_order_def)

lemma is_canonical_field_iff:
  "length x = 32 \<Longrightarrow> is_canonical_field x \<longleftrightarrow> bytes_number x 0 < bn254_scalar_order"
  by (simp add: is_canonical_field_def field_below_iff [of _ _ 0] modulus_number BN254_SCALAR_MODULUS_def [THEN arg_cong [of _ _ length]])

lemma split_hi_lo_canonical:
  assumes "length x = 32" "split_hi_lo x = (hi, lo)"
  shows "is_canonical_field hi \<and> is_canonical_field lo \<and> drop 16 hi @ drop 16 lo = x"
proof -
  have "replicate 16 (0 :: byte) @ y = 0 # replicate 15 0 @ y" for y by (simp add: numeral_eq_Suc)
  then have "is_canonical_field (replicate 16 0 @ y)" for y
    by (simp add: is_canonical_field_def BN254_SCALAR_MODULUS_def)
  then show ?thesis using assms by (auto simp: split_hi_lo_def)
qed


section \<open>Properties\<close>

text \<open>A host whose XDR obeys the laws, and a statement on it, for the witnesses.\<close>

definition demo_xdr :: to_xdr where
  "demo_xdr a =
     (case a of ContractId c \<Rightarrow> CONTRACT_HEADER @ bytes32_to_array c
              | AccountId k \<Rightarrow> ACCOUNT_HEADER @ bytes32_to_array k
              | OtherAddress _ \<Rightarrow> [])"

lemma demo_xdr_laws: "xdr_laws demo_xdr"
  by (simp add: xdr_laws_def demo_xdr_def CONTRACT_HEADER_def ACCOUNT_HEADER_def)

definition demo_statement :: recovery_statement where
  "demo_statement =
     \<lparr>st_network_id = 7, st_account = ContractId 1, st_controller = ContractId 2,
      st_config = \<lparr>cb_epoch = 3, cb_config_hash = 4\<rparr>,
      st_timing = \<lparr>tm_delay_ledgers = 10, tm_expiry_ledgers = 20, tm_valid_until_ledger = 30\<rparr>,
      st_subject = Subject_Reconfigure Change_Remove\<rparr>"

definition demo_set :: replacement_set where
  "demo_set =
     \<lparr>rs_signers = [\<lparr>cr_signer_id = ''alice'', cr_credential = Cred_External (ContractId 5) [1, 2]\<rparr>,
                    \<lparr>cr_signer_id = ''bob'', cr_credential = Cred_Delegated (AccountId 6)\<rparr>],
      rs_zk_enrollment = [\<lparr>ze_id = 8, ze_commitment = 9\<rparr>]\<rparr>"

text \<open>
  C27. A statement's preimage identifies it: on a host that obeys the XDR laws, two statements
  with the same encoding are equal in every field (network, account, controller, epoch,
  configuration, timing, action and subject), so evidence for one can be taken for no other;
  the encoding succeeds exactly when the account and the controller are contracts, and its
  length is the fixed prefix of 174 bytes and the subject's.
\<close>

theorem statement_encoding_identifies:
  assumes "xdr_laws xdr"
  shows "(\<forall>b s t. statement_encode xdr s = Inr b \<and> statement_encode xdr t = Inr b \<longrightarrow> s = t) \<and>
    (\<forall>s. (\<exists>b. statement_encode xdr s = Inr b) \<longleftrightarrow>
       (\<exists>a c. st_account s = ContractId a \<and> st_controller s = ContractId c)) \<and>
    (\<forall>b s. statement_encode xdr s = Inr b \<longrightarrow>
       length b = STATEMENT_PREFIX_LEN +
         (case statement_action s of RA_LostKey \<Rightarrow> 104 | RA_Compromise \<Rightarrow> 104 | RA_Cancel \<Rightarrow> 40
            | RA_Reconfigure \<Rightarrow> 33 | RA_Upgrade \<Rightarrow> 40))"
  using statement_encode_inject [OF assms] statement_encode_ex [OF assms]
    statement_encode_length [OF assms]
  by (simp add: length_encode_subject statement_action_def)

text \<open>Witness of C27: the demo host obeys the laws, and the demo statement encodes to 207 bytes.\<close>

theorem statement_encoding_identifies_witness:
  "xdr_laws demo_xdr \<and> (\<exists>b. statement_encode demo_xdr demo_statement = Inr b \<and> length b = 207)"
proof -
  have "\<exists>b. statement_encode demo_xdr demo_statement = Inr b"
    using statement_encoding_identifies [OF demo_xdr_laws] by (simp add: demo_statement_def)
  then obtain b where b: "statement_encode demo_xdr demo_statement = Inr b" by (rule exE)
  then have "length b = 207"
    using statement_encoding_identifies [OF demo_xdr_laws]
    by (simp add: demo_statement_def statement_action_def STATEMENT_PREFIX_LEN_def)
  then show ?thesis using demo_xdr_laws b by (intro conjI exI)
qed

text \<open>
  Replacement sets are canonical: a set that encodes has strictly ascending ids, so the
  same replacements have one accepted order, and two sets of host size with the same encoding
  are equal, so the hash in a statement names one assignment of credentials to signer ids and
  at most one ZK enrollment.
\<close>

theorem replacements_encoding_canonical:
  assumes "xdr_laws xdr" "replacements_encode xdr r = Inr x" "replacements_encode xdr t = Inr y"
  shows "sorted_wrt (<) (map (str_bytes_of \<circ> cr_signer_id) (rs_signers r)) \<and>
    length (rs_zk_enrollment r) \<le> 1 \<and>
    (set (rs_signers r) = set (rs_signers t) \<longrightarrow> rs_signers r = rs_signers t) \<and>
    (sized_set r \<and> sized_set t \<and> x = y \<longrightarrow> r = t)"
proof -
  have asc: "sorted_wrt (<) (map (str_bytes_of \<circ> cr_signer_id) (rs_signers q))"
    and one: "length (rs_zk_enrollment q) \<le> 1"
    if "replacements_encode xdr q = Inr z" for q z
    using that
    by (auto simp: replacements_encode_def result_simps encode_replacements_eq ids_ascending_def
        encode_enrollment_def bytes_lt_iff_less sorted_wrt_map split: list.splits)
  have "rs_signers r = rs_signers t" if "set (rs_signers r) = set (rs_signers t)"
    using asc [OF assms(2)] asc [OF assms(3)] that
    by (intro map_sorted_distinct_set_unique [where f = "str_bytes_of \<circ> cr_signer_id"])
       (auto simp: strict_sorted_iff distinct_map)
  then show ?thesis
    using asc [OF assms(2)] one [OF assms(2)] replacements_code.code_inject [of xdr r t x] assms by simp
qed

text \<open>An instance: the demo set with two replaced signers and an enrollment encodes.\<close>

theorem replacements_encoding_canonical_witness:
  "\<exists>x. replacements_encode demo_xdr demo_set = Inr x \<and> sized_set demo_set \<and>
     sorted_wrt (<) (map (str_bytes_of \<circ> cr_signer_id) (rs_signers demo_set))"
proof -
  have e: "\<exists>x. replacements_encode demo_xdr demo_set = Inr x"
    by (simp add: replacements_encode_def demo_set_def result_simps tagged_address_eq [OF demo_xdr_laws]
        encode_enrollment_def str_bytes_of_def Let_def)
  then obtain x where x: "replacements_encode demo_xdr demo_set = Inr x" by (rule exE)
  have "sized_set demo_set" by (simp add: sized_set_def demo_set_def host_sized_def sized_replacement_def)
  then show ?thesis using replacements_encoding_canonical [OF demo_xdr_laws x x] x by (intro exI [of _ x]) simp
qed

text \<open>
  The revocation list of a completion holds every fingerprint once: those of the replaced
  credentials and of the current ones that the target does not keep. With the rule that every
  replaced credential leaves, no credential of the target is revoked, and everything revoked
  was a replaced or a current credential.
\<close>

theorem revocations_are_leavers:
  "distinct (revocations replaced current target) \<and>
   set (revocations replaced current target) = set replaced \<union> (set current - set target) \<and>
   (replaced_credentials_leave replaced target \<longleftrightarrow>
      set (revocations replaced current target) \<inter> set target = {})"
proof -
  have "replaced_credentials_leave replaced target \<longleftrightarrow> set replaced \<inter> set target = {}"
    by (auto simp: replaced_credentials_leave_def list_all_iff)
  then show ?thesis by (auto simp: revocations_set)
qed

text \<open>
  The ZK projection of a statement is faithful: its six fields are canonical elements of
  the BN254 scalar field, the check of canonicity is comparison with the field's order, and
  the fields give back the account's contract id, the enrollment id and the digest.
\<close>

theorem zk_projection_faithful:
  assumes "xdr_laws xdr" "statement_fields sha xdr s enrollment_id = Inr f"
  shows "list_all is_canonical_field [zf_account_hi f, zf_account_lo f, zf_enrollment_hi f,
           zf_enrollment_lo f, zf_digest_hi f, zf_digest_lo f] \<and>
    (\<exists>c. st_account s = ContractId c \<and> drop 16 (zf_account_hi f) @ drop 16 (zf_account_lo f) = bytes32_to_array c) \<and>
    drop 16 (zf_enrollment_hi f) @ drop 16 (zf_enrollment_lo f) = bytes32_to_array enrollment_id \<and>
    (\<exists>d. statement_digest sha xdr s = Inr d \<and>
       drop 16 (zf_digest_hi f) @ drop 16 (zf_digest_lo f) = bytes32_to_array d) \<and>
    (\<forall>w. is_canonical_field (bytes32_to_array w) \<longleftrightarrow> unat w < bn254_scalar_order)"
proof -
  obtain c where c: "st_account s = ContractId c" "contract_id xdr (st_account s) = Some (bytes32_to_array c)"
    using assms by (cases "st_account s") (auto simp: statement_fields_def result_simps contract_id_eq [OF assms(1)])
  obtain d where d: "statement_digest sha xdr s = Inr d"
    using assms(2) by (auto simp: statement_fields_def result_simps)
  obtain ah al eh el dh dl where sp: "split_hi_lo (bytes32_to_array c) = (ah, al)"
      "split_hi_lo (bytes32_to_array enrollment_id) = (eh, el)"
      "split_hi_lo (bytes32_to_array d) = (dh, dl)"
    by (meson surj_pair)
  have f: "f = \<lparr>zf_account_hi = ah, zf_account_lo = al, zf_enrollment_hi = eh, zf_enrollment_lo = el,
             zf_digest_hi = dh, zf_digest_lo = dl\<rparr>"
    using assms(2) by (simp add: statement_fields_def c(2) d sp)
  show ?thesis
    using split_hi_lo_canonical [OF _ sp(1)] split_hi_lo_canonical [OF _ sp(2)]
      split_hi_lo_canonical [OF _ sp(3)] c(1) d
    by (simp add: f is_canonical_field_iff)
qed

text \<open>An instance: the demo statement on the demo host, with a constant digest.\<close>

theorem zk_projection_faithful_witness:
  "\<exists>f. statement_fields (\<lambda>_. - 1) demo_xdr demo_statement 5 = Inr f \<and>
     drop 16 (zf_enrollment_hi f) @ drop 16 (zf_enrollment_lo f) = bytes32_to_array 5 \<and>
     is_canonical_field (zf_digest_hi f) \<and> \<not> is_canonical_field (bytes32_to_array (- 1))"
proof -
  have "\<exists>f. statement_fields (\<lambda>_. - 1) demo_xdr demo_statement 5 = Inr f"
    by (simp add: statement_fields_def statement_digest_def statement_encode_def demo_statement_def
        contract_id_eq [OF demo_xdr_laws] split: prod.splits)
  then obtain f where f: "statement_fields (\<lambda>_. - 1) demo_xdr demo_statement 5 = Inr f" by (rule exE)
  show ?thesis
    using zk_projection_faithful [OF demo_xdr_laws f] f 
    by (simp add: bn254_scalar_order_def unsigned_minus_1_eq_mask mask_eq_exp_minus_1 exI [of _ f])
qed

end
