(* ===== verification/Compiled_Doc.thy ===== *)
theory Compiled_Doc
  imports Program Recovery_Interface
begin

text \<open>
  The wire forms of compiled documents and derived targets that the document compiler returns
  (\<open>crates/perch-doc-compiler/src/lib.rs\<close>) and that the account and the recovery controller
  consume, with the anti-brick check the three share.
\<close>

datatype rule_scope = RS_SelfAdmin | RS_Contract address

record compiled_cap =
  kc_spending_limit :: i128
  kc_period_ledgers :: u32

record compiled_rule =
  cr_name :: string
  cr_scope :: rule_scope
  cr_signers :: "signer list"
  cr_valid_until :: "u32 option"
  cr_install :: "install_params list"
  cr_cap :: "compiled_cap list"

record compiled_doc =
  cd_doc_hash :: bytes32
  cd_canonical :: bytes
  cd_fingerprints :: "bytes32 list"
  cd_rules :: "compiled_rule list"
  cd_recovery :: "compiled_recovery_config list"

record derived_target =
  dt_canonical :: bytes
  dt_doc_hash :: bytes32
  dt_config_hash :: bytes32
  dt_fingerprints :: "bytes32 list"
  dt_replaced :: "credential list"

text \<open>OpenZeppelin's scope of a context rule.\<close>

datatype context_rule_type = CR_Default | CR_CallContract address | CR_CreateContract bytes32

definition admin_survives :: "compiled_rule list \<Rightarrow> bool" where
  "admin_survives rules =
     list_ex (\<lambda>r. cr_scope r = RS_SelfAdmin \<and> cr_valid_until r = None \<and> cr_signers r \<noteq> [] \<and>
                  cr_install r = [] \<and> cr_cap r = []) rules"

lemma admin_survivesE:
  assumes "admin_survives rules"
  obtains r where "r \<in> set rules" "cr_scope r = RS_SelfAdmin" "cr_valid_until r = None"
    "cr_signers r \<noteq> []" "cr_install r = []" "cr_cap r = []"
  using assms by (auto simp: admin_survives_def list_ex_iff)

end
