(* ===== verification/Doc_Compiler.thy ===== *)
theory Doc_Compiler
  imports Compile Ir_Recovery Compiled_Doc
begin

text \<open>
  The stateless document compiler contract (\<open>crates/perch-doc-compiler/src/lib.rs\<close>): UTF-8 and
  JSON to a validated, network-bound, capped document, compiled to the rules an account
  installs, with its canonical identity, the fingerprints of its credentials and its recovery
  configuration; and the derivation of recovery targets. The verifiers' key canonicalisers, the
  \<open>hex\<close> crate's encoder and the host's strkeys are parameters.
\<close>

section \<open>Types\<close>

definition MAX_DOC_SIGNERS :: u32 where "MAX_DOC_SIGNERS = 8"
definition MAX_DOC_RULES :: u32 where "MAX_DOC_RULES = 11"
definition MAX_DOC_CANONICAL_BYTES :: u32 where "MAX_DOC_CANONICAL_BYTES = 8192"

datatype (plugins del: quickcheck_random quickcheck_exhaustive quickcheck_bounded_forall
    quickcheck_full_exhaustive quickcheck_narrowing size transfer lifting) doc_compiler_error =
    DC_DocNotUtf8 | DC_DocParse | DC_DocInvalid | DC_WrongNetwork | DC_DocCompile | DC_DocTooLarge
  | DC_KeyNotCanonicalizable | DC_NotEnrolled | DC_ReplacementRefused | DC_ZkEnrollmentMismatch
  | DC_AdminLockout

text \<open>
  What the contract is given: the host of the rule compiler, the JSON lexer and the hex decoder
  of the document crates, the chain's network id, \<open>Address::to_xdr\<close> and \<open>Address::to_string\<close>, the
  hex encoder, OZ's limit on rule names, and each verifier's \<open>batch_canonicalize_key\<close>, where
  \<open>None\<close> is a failed call.
\<close>

record compiler_env =
  de_host :: host
  de_lexer :: "nat \<Rightarrow> string \<Rightarrow> json option"
  de_hexd :: hex_decode
  de_network_id :: bytes32
  de_xdr :: to_xdr
  de_strkey :: "address \<Rightarrow> string"
  de_hex_encode :: "bytes \<Rightarrow> string"
  de_max_name_size :: u32
  de_canonicalize :: "address \<Rightarrow> bytes list \<Rightarrow> bytes list option"

section \<open>UTF-8\<close>

text \<open>
  \<open>core::str::from_utf8\<close> and \<open>String::from_utf8_lossy\<close>. \<open>utf8_lead\<close> gives the range of the second
  byte and the number of bytes after the first; \<open>utf8_step\<close> the bytes of the next character, or of
  the longest valid prefix of one, and whether the character is complete.
\<close>

definition utf8_lead :: "byte \<Rightarrow> (byte \<times> byte \<times> nat) option" where
  "utf8_lead b =
     (if b < 0xC2 then None
      else if b \<le> 0xDF then Some (0x80, 0xBF, 1)
      else if b = 0xE0 then Some (0xA0, 0xBF, 2)
      else if b = 0xED then Some (0x80, 0x9F, 2)
      else if b \<le> 0xEF then Some (0x80, 0xBF, 2)
      else if b = 0xF0 then Some (0x90, 0xBF, 3)
      else if b \<le> 0xF3 then Some (0x80, 0xBF, 3)
      else if b = 0xF4 then Some (0x80, 0x8F, 3)
      else None)"

definition utf8_step :: "byte \<Rightarrow> bytes \<Rightarrow> nat \<times> bool" where
  "utf8_step b bs =
     (if b < 0x80 then (0, True)
      else case utf8_lead b of
             None \<Rightarrow> (0, False)
           | Some (lo, hi, extra) \<Rightarrow>
               (case bs of
                  [] \<Rightarrow> (0, False)
                | c # cs \<Rightarrow>
                    if c < lo \<or> hi < c then (0, False)
                    else let k = length (takeWhile (\<lambda>x. 0x80 \<le> x \<and> x \<le> 0xBF) (take (extra - 1) cs))
                         in (1 + k, k = extra - 1)))"

function utf8_valid :: "bytes \<Rightarrow> bool" where
  "utf8_valid [] = True"
| "utf8_valid (b # bs) = (let (n, ok) = utf8_step b bs in ok \<and> utf8_valid (drop n bs))"
  by pat_completeness auto
termination by (relation "measure length") auto

function utf8_lossy :: "bytes \<Rightarrow> bytes" where
  "utf8_lossy [] = []"
| "utf8_lossy (b # bs) =
     (let (n, ok) = utf8_step b bs
      in (if ok then b # take n bs else [0xEF, 0xBF, 0xBD]) @ utf8_lossy (drop n bs))"
  by pat_completeness auto
termination by (relation "measure length") auto

definition bytes_str :: "bytes \<Rightarrow> string" where
  "bytes_str bs = map (\<lambda>b. char_of (unat b)) bs"

definition to_std_string :: "string \<Rightarrow> string" where
  "to_std_string s = bytes_str (utf8_lossy (str_bytes_of s))"

section \<open>Hex and addresses\<close>

definition nib :: "char \<Rightarrow> doc_compiler_error + byte" where
  "nib c =
     (if char_in (CHR ''0'') (CHR ''9'') c then Inr (word_of_nat (of_char c - of_char (CHR ''0'')))
      else if char_in (CHR ''a'') (CHR ''f'') c then Inr (word_of_nat (of_char c - of_char (CHR ''a'') + 10))
      else if char_in (CHR ''A'') (CHR ''F'') c then Inr (word_of_nat (of_char c - of_char (CHR ''A'') + 10))
      else Inl DC_DocInvalid)"

fun hex_pairs :: "string \<Rightarrow> doc_compiler_error + bytes" where
  "hex_pairs [] = Inr []"
| "hex_pairs [_] = Inl DC_DocInvalid"
| "hex_pairs (h # l # s) =
     and_then (nib h) (\<lambda>hi. and_then (nib l) (\<lambda>lo. and_then (hex_pairs s) (\<lambda>rest.
     Inr (or (push_bit 4 hi) lo # rest))))"

definition hex_bytes :: "string \<Rightarrow> doc_compiler_error + bytes" where
  "hex_bytes s = (if odd (length s) then Inl DC_DocInvalid else hex_pairs s)"

text \<open>A 32-byte array as the 256-bit word it denotes.\<close>

definition bytes32_of :: "bytes \<Rightarrow> bytes32" where
  "bytes32_of bs = word_of_nat (bytes_number bs 0)"

definition hex_bytes_32 :: "string \<Rightarrow> doc_compiler_error + bytes32" where
  "hex_bytes_32 s =
     (if length s \<noteq> 64 then Inl DC_DocInvalid else and_then (hex_pairs s) (\<lambda>out. Inr (bytes32_of out)))"

text \<open>\<open>Address::from_str\<close> traps on text it refuses; a typed error ends the call with it.\<close>

definition dc_address :: "compiler_env \<Rightarrow> string \<Rightarrow> doc_compiler_error failure + address" where
  "dc_address e s = ok_or (h_address (de_host e) s) Trap"

definition typed :: "'e + 'a \<Rightarrow> 'e failure + 'a" where
  "typed m = map_err Failed m"

section \<open>Credentials\<close>

text \<open>
  The first loop: one slot per signer, and the external keys batched by verifier. The batches
  are kept in the order their verifiers are first named; \<open>Map\<close> iterates in the order of the
  addresses, which the outcome does not depend on since the second loop has one error.
\<close>

type_synonym batches = "(address \<times> bytes list) list"

fun batch_of :: "batches \<Rightarrow> address \<Rightarrow> bytes list" where
  "batch_of [] v = []"
| "batch_of ((w, ks) # bs) v = (if w = v then ks else batch_of bs v)"

fun set_batch :: "batches \<Rightarrow> address \<Rightarrow> bytes list \<Rightarrow> batches" where
  "set_batch [] v ks = [(v, ks)]"
| "set_batch ((w, ls) # bs) v ks = (if w = v then (w, ks) # bs else (w, ls) # set_batch bs v ks)"

fun credential_slots :: "compiler_env \<Rightarrow> signer_decl list \<Rightarrow> batches
    \<Rightarrow> doc_compiler_error failure + ((address \<times> nat option) list \<times> batches)" where
  "credential_slots e [] bs = Inr ([], bs)"
| "credential_slots e (s # ss) bs =
     (case sd_method s of
        Delegated address \<Rightarrow>
          and_then (dc_address e address) (\<lambda>a.
          and_then (credential_slots e ss bs) (\<lambda>(slots, bs'). Inr ((a, None) # slots, bs')))
      | External verifier key \<Rightarrow>
          and_then (dc_address e verifier) (\<lambda>v.
          let batch = batch_of bs v
          in and_then (typed (hex_bytes key)) (\<lambda>k.
             and_then (credential_slots e ss (set_batch bs v (batch @ [k]))) (\<lambda>(slots, bs').
             Inr ((v, Some (length batch)) # slots, bs')))))"

definition canonicalize_batch :: "compiler_env \<Rightarrow> address \<times> bytes list
    \<Rightarrow> doc_compiler_error failure + (address \<times> bytes list)" where
  "canonicalize_batch e b =
     (case de_canonicalize e (fst b) (snd b) of
        None \<Rightarrow> Inl (Failed DC_KeyNotCanonicalizable)
      | Some keys \<Rightarrow>
          if length keys \<noteq> length (snd b) then Inl (Failed DC_KeyNotCanonicalizable)
          else if list_ex (\<lambda>i. snd b ! i \<noteq> keys ! i) [0..<length (snd b)]
          then Inl (Failed DC_KeyNotCanonicalizable)
          else Inr (fst b, keys))"

definition slot_credential :: "batches \<Rightarrow> address \<times> nat option \<Rightarrow> doc_compiler_error failure + credential" where
  "slot_credential canonical slot =
     (case snd slot of
        None \<Rightarrow> Inr (Cred_Delegated (fst slot))
      | Some i \<Rightarrow>
          let keys = batch_of canonical (fst slot)
          in if i < length keys then Inr (Cred_External (fst slot) (keys ! i))
             else Inl (Failed DC_KeyNotCanonicalizable))"

definition canonical_credentials :: "compiler_env \<Rightarrow> signer_decl list
    \<Rightarrow> doc_compiler_error failure + credential list" where
  "canonical_credentials e signers =
     and_then (credential_slots e signers []) (\<lambda>(slots, batches).
     and_then (collect_results (canonicalize_batch e) batches) (\<lambda>canonical.
     collect_results (slot_credential canonical) slots))"

definition fingerprints :: "compiler_env \<Rightarrow> credential list \<Rightarrow> doc_compiler_error failure + bytes32 list" where
  "fingerprints e credentials =
     collect_results (\<lambda>c. map_err (\<lambda>_. Failed DC_DocInvalid)
       (fingerprint (h_sha256 (de_host e)) (de_xdr e) c)) credentials"

section \<open>Wire forms\<close>

definition to_compiled_guardian_set :: "compiler_env \<Rightarrow> guardian_set
    \<Rightarrow> doc_compiler_error failure + compiled_guardian_set" where
  "to_compiled_guardian_set e g =
     and_then (collect_results (dc_address e) (gs_guardians g)) (\<lambda>guardians.
     Inr \<lparr>cg_guardians = guardians, cg_quorum = gs_quorum g\<rparr>)"

definition to_compiled_zk :: "compiler_env \<Rightarrow> zk_factor \<Rightarrow> doc_compiler_error failure + compiled_zk_factor" where
  "to_compiled_zk e z =
     and_then (dc_address e (zk_adapter z)) (\<lambda>adapter.
     and_then (typed (hex_bytes_32 (zk_circuit_id z))) (\<lambda>circuit.
     and_then (dc_address e (zk_pool z)) (\<lambda>pool.
     and_then (typed (hex_bytes_32 (zk_enrollment_id z))) (\<lambda>enrollment.
     and_then (typed (hex_bytes_32 (zk_commitment z))) (\<lambda>commitment.
     Inr \<lparr>cz_adapter = adapter, cz_circuit_id = circuit, cz_pool = pool,
          cz_enrollment_id = enrollment, cz_commitment = commitment\<rparr>)))))"

fun to_compiled_mode :: "compiler_env \<Rightarrow> recovery_mode \<Rightarrow> doc_compiler_error failure + compiled_recovery_mode" where
  "to_compiled_mode e (GuardianOnly g) =
     and_then (to_compiled_guardian_set e g) (\<lambda>cg. Inr (CM_GuardianOnly cg))"
| "to_compiled_mode e (ZkOnly z) = and_then (to_compiled_zk e z) (\<lambda>cz. Inr (CM_ZkOnly cz))"
| "to_compiled_mode e (Combined g z) =
     and_then (to_compiled_guardian_set e g) (\<lambda>cg.
     and_then (to_compiled_zk e z) (\<lambda>cz. Inr (CM_Combined cg cz)))"

definition to_compiled_recovery :: "compiler_env \<Rightarrow> recovery_config
    \<Rightarrow> doc_compiler_error failure + compiled_recovery_config" where
  "to_compiled_recovery e r =
     (let profile = (case rc_profile r of Loss \<Rightarrow> CP_Loss | Protected \<Rightarrow> CP_Protected)
      in and_then (to_compiled_mode e (rc_mode r)) (\<lambda>mode.
         and_then (case rc_baseline r of
                     Some b \<Rightarrow> and_then (typed (hex_bytes_32 (bc_doc_hash b))) (\<lambda>h. Inr (Some h))
                   | None \<Rightarrow> Inr None) (\<lambda>baseline.
         let canonical = str_bytes_of (recovery_canonical_json r)
         in and_then (dc_address e (rc_controller r)) (\<lambda>controller.
            Inr \<lparr>cc_config_hash = config_hash (h_sha256 (de_host e)) canonical, cc_profile = profile,
                 cc_mode = mode, cc_controller = controller, cc_baseline = baseline,
                 cc_replaceable = rc_replaceable r, cc_delay_ledgers = rc_delay_ledgers r,
                 cc_expiry_ledgers = rc_expiry_ledgers r, cc_max_cancels = rc_max_cancels r\<rparr>))))"

fun to_signer :: "compiler_env \<Rightarrow> signer_spec \<Rightarrow> doc_compiler_error failure + signer" where
  "to_signer e (SignerSpec_Delegated address) =
     and_then (dc_address e address) (\<lambda>a. Inr (Signer_Delegated a))"
| "to_signer e (SignerSpec_External verifier key_hex) =
     and_then (dc_address e verifier) (\<lambda>v.
     and_then (typed (hex_bytes key_hex)) (\<lambda>k. Inr (Signer_External v k)))"

definition to_compiled :: "compiler_env \<Rightarrow> lowered_rule \<Rightarrow> doc_compiler_error failure + compiled_rule" where
  "to_compiled e rl =
     and_then (case lr_scope rl of
                 ScopeSpec_SelfAdmin \<Rightarrow> Inr RS_SelfAdmin
               | ScopeSpec_Contract addr \<Rightarrow> and_then (dc_address e addr) (\<lambda>a. Inr (RS_Contract a))) (\<lambda>scope.
     and_then (collect_results (to_signer e) (lr_signers rl)) (\<lambda>signers.
     let install = (case lr_install rl of Some params \<Rightarrow> [params] | None \<Rightarrow> []);
         cap = (case lr_cap rl of
                  Some c \<Rightarrow> [\<lparr>kc_spending_limit = cs_limit c, kc_period_ledgers = cs_period_ledgers c\<rparr>]
                | None \<Rightarrow> [])
     in Inr \<lparr>cr_name = lr_name rl, cr_scope = scope, cr_signers = signers,
             cr_valid_until = lr_valid_until rl, cr_install = install, cr_cap = cap\<rparr>))"

section \<open>compile\_doc and derive\_target\<close>

definition dc_parse :: "compiler_env \<Rightarrow> bytes \<Rightarrow> doc_compiler_error failure + policy_doc" where
  "dc_parse e doc_json =
     and_then (require (utf8_valid doc_json) (Failed DC_DocNotUtf8)) (\<lambda>_.
     map_err (\<lambda>_. Failed DC_DocParse) (from_json (de_lexer e) (bytes_str doc_json)))"

definition lower_failure :: "lower_error failure \<Rightarrow> doc_compiler_error failure" where
  "lower_failure err = (case err of Unauthorized \<Rightarrow> Unauthorized | Trap \<Rightarrow> Trap | Failed _ \<Rightarrow> Failed DC_DocCompile)"

definition compile_parsed :: "compiler_env \<Rightarrow> policy_doc \<Rightarrow> doc_compiler_error failure + compiled_doc" where
  "compile_parsed e doc =
     and_then (map_err (\<lambda>_. Failed DC_DocInvalid) (validate (de_hexd e) doc)) (\<lambda>_.
     and_then (ok_or (d_network doc) (Failed DC_WrongNetwork)) (\<lambda>net.
     let named = h_sha256 (de_host e) (str_bytes_of net)
     in if named \<noteq> de_network_id e then Inl (Failed DC_WrongNetwork)
     else if length (d_signers doc) > unat MAX_DOC_SIGNERS \<or> length (d_rules doc) > unat MAX_DOC_RULES \<or>
             list_ex (\<lambda>r. length (r_name r) > unat (de_max_name_size e)) (d_rules doc)
     then Inl (Failed DC_DocTooLarge)
     else and_then (map_err lower_failure (compile (de_host e) doc \<lparr>cfg_interpreter_wasm_hash = 0\<rparr>)) (\<lambda>plan.
     and_then (collect_results (to_compiled e) (pl_rules plan)) (\<lambda>rules.
     let canonical_text = canonical_json doc
     in if length canonical_text > unat MAX_DOC_CANONICAL_BYTES then Inl (Failed DC_DocTooLarge)
     else let canonical = str_bytes_of canonical_text; hash = h_sha256 (de_host e) canonical
     in and_then (case d_recovery doc of
                    Some r \<Rightarrow> and_then (to_compiled_recovery e r) (\<lambda>c. Inr [c])
                  | None \<Rightarrow> Inr []) (\<lambda>recovery.
        and_then (canonical_credentials e (d_signers doc)) (\<lambda>credentials.
        and_then (fingerprints e credentials) (\<lambda>prints.
        Inr \<lparr>cd_doc_hash = hash, cd_canonical = canonical, cd_fingerprints = prints,
             cd_rules = rules, cd_recovery = recovery\<rparr>)))))))"

definition compile_doc :: "compiler_env \<Rightarrow> bytes \<Rightarrow> doc_compiler_error failure + compiled_doc" where
  "compile_doc e doc_json = and_then (dc_parse e doc_json) (compile_parsed e)"

fun to_signer_method :: "compiler_env \<Rightarrow> credential \<Rightarrow> signer_method" where
  "to_signer_method e (Cred_Delegated address) = Delegated (to_std_string (de_strkey e address))"
| "to_signer_method e (Cred_External verifier key) =
     External (to_std_string (de_strkey e verifier)) (de_hex_encode e key)"

definition derive_refusal :: "derive_error \<Rightarrow> doc_compiler_error" where
  "derive_refusal err =
     (case err of DE_NotEnrolled \<Rightarrow> DC_NotEnrolled
                | DE_ZkEnrollmentMismatch \<Rightarrow> DC_ZkEnrollmentMismatch
                | _ \<Rightarrow> DC_ReplacementRefused)"

definition declared_replacements :: "compiler_env \<Rightarrow> replacement_set \<Rightarrow> replacement list" where
  "declared_replacements e rset =
     map (\<lambda>r. \<lparr>rp_signer_id = to_std_string (cr_signer_id r),
               rp_method = to_signer_method e (cr_credential r)\<rparr>) (rs_signers rset)"

definition declared_rotation :: "compiler_env \<Rightarrow> replacement_set \<Rightarrow> doc_compiler_error failure + zk_rotation option" where
  "declared_rotation e rset =
     (case rs_zk_enrollment rset of
        [] \<Rightarrow> Inr None
      | [z] \<Rightarrow> Inr (Some \<lparr>zr_enrollment_id = de_hex_encode e (bytes32_to_array (ze_id z)),
                          zr_commitment = de_hex_encode e (bytes32_to_array (ze_commitment z))\<rparr>)
      | _ \<Rightarrow> Inl (Failed DC_ZkEnrollmentMismatch))"

definition contract_derive_target :: "compiler_env \<Rightarrow> bytes \<Rightarrow> bytes \<Rightarrow> recovery_action \<Rightarrow> replacement_set
    \<Rightarrow> doc_compiler_error failure + derived_target" where
  "contract_derive_target e source_json current_json action rset =
     and_then (case action of
                 RA_LostKey \<Rightarrow> Inr LostKey
               | RA_Compromise \<Rightarrow> Inr Compromise
               | _ \<Rightarrow> Inl (Failed DC_ReplacementRefused)) (\<lambda>action.
     and_then (dc_parse e source_json) (\<lambda>source.
     and_then (dc_parse e current_json) (\<lambda>current.
     let declared = declared_replacements e rset
     in and_then (declared_rotation e rset) (\<lambda>rotation.
        and_then (map_err (\<lambda>err. Failed (derive_refusal err))
                    (derive_target source current action declared rotation)) (\<lambda>target.
        and_then (compile_parsed e target) (\<lambda>compiled.
        and_then (require (admin_survives (cd_rules compiled)) (Failed DC_AdminLockout)) (\<lambda>_.
        let replaced_slots =
              [s \<leftarrow> d_signers source. list_ex (\<lambda>r. rp_signer_id r = sd_id s) declared]
        in and_then (ok_or (case cd_recovery compiled of [] \<Rightarrow> None | r # _ \<Rightarrow> Some (cc_config_hash r))
                       (Failed DC_NotEnrolled)) (\<lambda>config_hash.
           and_then (canonical_credentials e replaced_slots) (\<lambda>replaced.
           Inr \<lparr>dt_canonical = cd_canonical compiled, dt_doc_hash = cd_doc_hash compiled,
                dt_config_hash = config_hash, dt_fingerprints = cd_fingerprints compiled,
                dt_replaced = replaced\<rparr>)))))))))"


section \<open>Views\<close>

record flat_doc_limits =
  fl_max_signers :: u32
  fl_max_rules :: u32
  fl_max_canonical_bytes :: u32
  fl_max_rule_name_bytes :: u32

datatype doc_limits_version = DocLimits_V1 flat_doc_limits

definition doc_limits :: "compiler_env \<Rightarrow> flat_doc_limits" where
  "doc_limits e =
     \<lparr>fl_max_signers = MAX_DOC_SIGNERS, fl_max_rules = MAX_DOC_RULES,
      fl_max_canonical_bytes = MAX_DOC_CANONICAL_BYTES, fl_max_rule_name_bytes = de_max_name_size e\<rparr>"

definition dc_limits :: "compiler_env \<Rightarrow> doc_limits_version" where
  "dc_limits e = DocLimits_V1 (doc_limits e)"

record compiler_capabilities =
  ca_canon_version :: u32
  ca_rule_hash_tag :: bytes
  ca_config_hash_tag :: bytes

definition capabilities :: compiler_capabilities where
  "capabilities =
     \<lparr>ca_canon_version = CANON_VERSION, ca_rule_hash_tag = RULE_DOMAIN, ca_config_hash_tag = CONFIG_DOMAIN\<rparr>"

section \<open>Credentials are the declared ones\<close>

lemma typed_Inr [simp]: "typed m = Inr a \<longleftrightarrow> m = Inr a"
  by (simp add: typed_def)

lemma dc_address_Inr [simp]: "dc_address e s = Inr a \<longleftrightarrow> h_address (de_host e) s = Some a"
  by (simp add: dc_address_def)

lemma batch_of_set_batch: "batch_of (set_batch bs v ks) w = (if w = v then ks else batch_of bs w)"
  by (induction bs v ks rule: set_batch.induct) auto

text \<open>A credential is what a declaration says: its address, or its verifier and key bytes.\<close>

fun declares :: "compiler_env \<Rightarrow> signer_method \<Rightarrow> credential \<Rightarrow> bool" where
  "declares e (Delegated address) c \<longleftrightarrow> (\<exists>a. h_address (de_host e) address = Some a \<and> c = Cred_Delegated a)"
| "declares e (External verifier key) c \<longleftrightarrow>
     (\<exists>v k. h_address (de_host e) verifier = Some v \<and> hex_bytes key = Inr k \<and> c = Cred_External v k)"

lemma declares_unique: "declares e m c \<Longrightarrow> declares e m d \<Longrightarrow> c = d"
  by (cases m) auto

definition slot_ok :: "compiler_env \<Rightarrow> batches \<Rightarrow> signer_decl \<Rightarrow> address \<times> nat option \<Rightarrow> bool" where
  "slot_ok e bs s slot \<longleftrightarrow>
     (case snd slot of
        None \<Rightarrow> declares e (sd_method s) (Cred_Delegated (fst slot))
      | Some i \<Rightarrow> i < length (batch_of bs (fst slot)) \<and>
                 declares e (sd_method s) (Cred_External (fst slot) (batch_of bs (fst slot) ! i)))"

lemma credential_slots_ok:
  assumes "credential_slots e ss bs = Inr (slots, bs')"
  shows "list_all2 (slot_ok e bs') ss slots \<and> (\<forall>v. \<exists>ks. batch_of bs' v = batch_of bs v @ ks)"
  using assms
proof (induction ss arbitrary: bs slots)
  case (Cons s ss)
  show ?case
  proof (cases "sd_method s")
    case (Delegated address)
    then show ?thesis
      using Cons.prems Cons.IH [of bs] by (auto simp: result_simps slot_ok_def split: prod.splits)
  next
    case (External verifier key)
    then obtain v k slots' where v: "h_address (de_host e) verifier = Some v" "hex_bytes key = Inr k"
      and rest: "credential_slots e ss (set_batch bs v (batch_of bs v @ [k])) = Inr (slots', bs')"
      and slots: "slots = (v, Some (length (batch_of bs v))) # slots'"
      using Cons.prems by (auto simp: result_simps Let_def split: prod.splits)
    note IH = Cons.IH [OF rest]
    obtain ks where ks: "batch_of bs' v = (batch_of bs v @ [k]) @ ks"
      using IH by (metis batch_of_set_batch)
    have "slot_ok e bs' s (v, Some (length (batch_of bs v)))"
      using v External by (simp add: slot_ok_def ks nth_append)
    moreover have "\<exists>ks. batch_of bs' w = batch_of bs w @ ks" for w
      using IH [THEN conjunct2, THEN spec, of w] ks by (cases "w = v") (simp_all add: batch_of_set_batch)
    ultimately show ?thesis using IH slots by simp
  qed
qed simp

lemma canonicalize_batch_Inr:
  "canonicalize_batch e b = Inr c \<longleftrightarrow> c = b \<and> de_canonicalize e (fst b) (snd b) = Some (snd b)"
proof (cases "de_canonicalize e (fst b) (snd b)")
  case (Some keys)
  have "keys = snd b \<longleftrightarrow> length keys = length (snd b) \<and> \<not> list_ex (\<lambda>i. snd b ! i \<noteq> keys ! i) [0..<length (snd b)]"
    unfolding list_ex_iff list_eq_iff_nth_eq by fastforce
  then show ?thesis using Some by (cases b) (auto simp: canonicalize_batch_def)
qed (simp add: canonicalize_batch_def)

lemma canonicalize_batches:
  "collect_results (canonicalize_batch e) bs = Inr cs \<Longrightarrow>
     cs = bs \<and> (\<forall>b \<in> set bs. de_canonicalize e (fst b) (snd b) = Some (snd b))"
  by (induction bs arbitrary: cs) (auto simp: result_simps canonicalize_batch_Inr)

lemma batch_of_mem: "batch_of bs v \<noteq> [] \<Longrightarrow> (v, batch_of bs v) \<in> set bs"
  by (induction bs v rule: batch_of.induct) auto

definition verifier_canonical :: "compiler_env \<Rightarrow> credential \<Rightarrow> bool" where
  "verifier_canonical e c \<longleftrightarrow>
     (case c of Cred_Delegated _ \<Rightarrow> True
      | Cred_External v k \<Rightarrow> (\<exists>ks. k \<in> set ks \<and> de_canonicalize e v ks = Some ks))"

lemma slot_credential_Inr:
  assumes "slot_ok e bs s slot" "slot_credential bs slot = Inr c"
    "\<forall>b \<in> set bs. de_canonicalize e (fst b) (snd b) = Some (snd b)"
  shows "declares e (sd_method s) c \<and> verifier_canonical e c"
proof (cases "snd slot")
  case None
  then show ?thesis using assms by (auto simp: slot_ok_def slot_credential_def verifier_canonical_def)
next
  case (Some i)
  let ?ks = "batch_of bs (fst slot)"
  have i: "i < length ?ks" and c: "c = Cred_External (fst slot) (?ks ! i)" "declares e (sd_method s) c"
    using Some assms(1,2) by (auto simp: slot_ok_def slot_credential_def Let_def split: if_splits)
  have "(fst slot, ?ks) \<in> set bs" using i by (intro batch_of_mem) auto
  then have "de_canonicalize e (fst slot) ?ks = Some ?ks" using assms(3) by force
  then show ?thesis using c i by (auto simp: verifier_canonical_def intro!: exI [of _ ?ks])
qed

lemma canonical_credentials_declared:
  assumes "canonical_credentials e ss = Inr cs"
  shows "list_all2 (\<lambda>s c. declares e (sd_method s) c \<and> verifier_canonical e c) ss cs"
proof -
  obtain slots bs where slots: "credential_slots e ss [] = Inr (slots, bs)"
    and can: "\<forall>b \<in> set bs. de_canonicalize e (fst b) (snd b) = Some (snd b)"
    and cs: "collect_results (slot_credential bs) slots = Inr cs"
    using assms by (auto simp: canonical_credentials_def result_simps dest!: canonicalize_batches)
  have "list_all2 (slot_ok e bs) ss slots" using credential_slots_ok [OF slots] by simp
  moreover have "list_all2 (\<lambda>slot c. slot_credential bs slot = Inr c) slots cs"
    using cs by (simp add: collect_results_Inr_iff)
  ultimately show ?thesis
    by (rule list_all2_trans [rotated]) (rule slot_credential_Inr [OF _ _ can])
qed


section \<open>What a compiled document is\<close>

lemma compile_parsed_Inr:
  assumes "compile_parsed e doc = Inr c"
  shows "well_formed (de_hexd e) doc"
    and "\<exists>net. d_network doc = Some net \<and> h_sha256 (de_host e) (str_bytes_of net) = de_network_id e"
    and "length (d_signers doc) \<le> 8 \<and> length (d_rules doc) \<le> 11 \<and> length (cd_canonical c) \<le> 8192 \<and>
         (\<forall>r \<in> set (d_rules doc). length (r_name r) \<le> unat (de_max_name_size e))"
    and "cd_canonical c = str_bytes_of (canonical_json doc)"
    and "cd_doc_hash c = h_sha256 (de_host e) (cd_canonical c)"
    and "\<exists>plan. compile (de_host e) doc \<lparr>cfg_interpreter_wasm_hash = 0\<rparr> = Inr plan \<and>
           list_all2 (\<lambda>l r. to_compiled e l = Inr r) (pl_rules plan) (cd_rules c)"
    and "\<exists>cs. canonical_credentials e (d_signers doc) = Inr cs \<and> fingerprints e cs = Inr (cd_fingerprints c)"
    and "list_all2 (\<lambda>r cc. to_compiled_recovery e r = Inr cc) (case d_recovery doc of None \<Rightarrow> [] | Some r \<Rightarrow> [r])
           (cd_recovery c)"
proof -
  have v: "validate (de_hexd e) doc = Inr ()"
    using assms by (cases "validate (de_hexd e) doc") (auto simp: compile_parsed_def)
  obtain net where net: "d_network doc = Some net"
    using assms v by (cases "d_network doc") (auto simp: compile_parsed_def)
  have named: "h_sha256 (de_host e) (str_bytes_of net) = de_network_id e"
    using assms v net by (auto simp: compile_parsed_def Let_def split: if_splits)
  have caps: "\<not> (length (d_signers doc) > unat MAX_DOC_SIGNERS \<or> length (d_rules doc) > unat MAX_DOC_RULES \<or>
             list_ex (\<lambda>r. length (r_name r) > unat (de_max_name_size e)) (d_rules doc))"
  proof
    assume "length (d_signers doc) > unat MAX_DOC_SIGNERS \<or> length (d_rules doc) > unat MAX_DOC_RULES \<or>
             list_ex (\<lambda>r. length (r_name r) > unat (de_max_name_size e)) (d_rules doc)"
    then have "compile_parsed e doc = Inl (Failed DC_DocTooLarge)"
      by (simp add: compile_parsed_def v net named)
    then show False using assms by simp
  qed
  obtain plan where plan: "compile (de_host e) doc \<lparr>cfg_interpreter_wasm_hash = 0\<rparr> = Inr plan"
    using assms by (cases "compile (de_host e) doc \<lparr>cfg_interpreter_wasm_hash = 0\<rparr>")
       (simp_all only: compile_parsed_def v net named caps map_err_simps and_then_simps ok_or_simps Let_def if_False, simp)
  have len: "\<not> length (canonical_json doc) > unat MAX_DOC_CANONICAL_BYTES"
    using assms caps by (auto simp: compile_parsed_def v net named plan result_simps Let_def split: if_splits)
  have rest: "list_all2 (\<lambda>l r. to_compiled e l = Inr r) (pl_rules plan) (cd_rules c)"
    "\<exists>cs. canonical_credentials e (d_signers doc) = Inr cs \<and> fingerprints e cs = Inr (cd_fingerprints c)"
    "(case d_recovery doc of Some r \<Rightarrow> and_then (to_compiled_recovery e r) (\<lambda>c. Inr [c]) | None \<Rightarrow> Inr []) = Inr (cd_recovery c)"
    "cd_canonical c = str_bytes_of (canonical_json doc)"
    "cd_doc_hash c = h_sha256 (de_host e) (cd_canonical c)"
    using assms unfolding compile_parsed_def v net plan Let_def
    by (auto simp: named caps len result_simps collect_results_Inr_iff)
  show "well_formed (de_hexd e) doc" using v by (simp add: validate_def Let_def validation_errors_Nil split: if_splits)
  show "\<exists>net. d_network doc = Some net \<and> h_sha256 (de_host e) (str_bytes_of net) = de_network_id e"
    using net named by simp
  show "length (d_signers doc) \<le> 8 \<and> length (d_rules doc) \<le> 11 \<and> length (cd_canonical c) \<le> 8192 \<and>
         (\<forall>r \<in> set (d_rules doc). length (r_name r) \<le> unat (de_max_name_size e))"
    using caps len rest(4)
    by (auto simp: MAX_DOC_SIGNERS_def MAX_DOC_RULES_def MAX_DOC_CANONICAL_BYTES_def list_ex_iff not_less)
  show "list_all2 (\<lambda>r cc. to_compiled_recovery e r = Inr cc) (case d_recovery doc of None \<Rightarrow> [] | Some r \<Rightarrow> [r])
           (cd_recovery c)"
    using rest(3) by (auto simp: result_simps dest!: sym [of _ "cd_recovery c"] split: option.splits)
  show "\<exists>plan. compile (de_host e) doc \<lparr>cfg_interpreter_wasm_hash = 0\<rparr> = Inr plan \<and>
           list_all2 (\<lambda>l r. to_compiled e l = Inr r) (pl_rules plan) (cd_rules c)"
    using plan rest(1) by simp
  show "\<exists>cs. canonical_credentials e (d_signers doc) = Inr cs \<and> fingerprints e cs = Inr (cd_fingerprints c)"
    by (fact rest(2))
  show "cd_canonical c = str_bytes_of (canonical_json doc)" "cd_doc_hash c = h_sha256 (de_host e) (cd_canonical c)"
    by (fact rest)+
qed


text \<open>An installed signer as a credential.\<close>

fun signer_credential :: "signer \<Rightarrow> credential" where
  "signer_credential (Signer_Delegated a) = Cred_Delegated a"
| "signer_credential (Signer_External v k) = Cred_External v k"

lemma to_signer_declares: "to_signer e (lower_method m) = Inr s \<Longrightarrow> declares e m (signer_credential s)"
  by (cases m) (auto simp: result_simps)

lemma to_compiled_Inr:
  assumes "to_compiled e l = Inr r"
  shows "cr_name r = lr_name l \<and> cr_valid_until r = lr_valid_until l \<and>
    list_all2 (\<lambda>spec s. to_signer e spec = Inr s) (lr_signers l) (cr_signers r) \<and>
    (cr_scope r = RS_SelfAdmin \<longleftrightarrow> lr_scope l = ScopeSpec_SelfAdmin) \<and>
    cr_install r = (case lr_install l of None \<Rightarrow> [] | Some params \<Rightarrow> [params]) \<and>
    (cr_cap r = [] \<longleftrightarrow> lr_cap l = None)"
  using assms
  by (auto simp: to_compiled_def result_simps Let_def collect_results_Inr_iff split: scope_spec.splits option.splits)

lemma fingerprints_mem:
  assumes "fingerprints e cs = Inr fs" "c \<in> set cs"
  obtains f where "f \<in> set fs" "fingerprint (h_sha256 (de_host e)) (de_xdr e) c = Inr f"
proof -
  have "list_all2 (\<lambda>c f. fingerprint (h_sha256 (de_host e)) (de_xdr e) c = Inr f) cs fs"
    using assms(1) by (simp add: fingerprints_def collect_results_Inr_iff)
  then show thesis using assms(2) that by (rule list_all2_leftE)
qed

lemma rule_signer_declared:
  assumes "compile_parsed e doc = Inr c" "r \<in> set (cd_rules c)" "s \<in> set (cr_signers r)"
  obtains d where "d \<in> set (d_signers doc)" "declares e (sd_method d) (signer_credential s)"
proof -
  obtain plan where plan: "compile (de_host e) doc \<lparr>cfg_interpreter_wasm_hash = 0\<rparr> = Inr plan"
      "list_all2 (\<lambda>l r. to_compiled e l = Inr r) (pl_rules plan) (cd_rules c)"
    using compile_parsed_Inr(6) [OF assms(1)] by (elim exE conjE)
  obtain l where l: "l \<in> set (pl_rules plan)" "to_compiled e l = Inr r"
    using plan(2) assms(2) by (rule list_all2_rightE)
  obtain rl where rl: "lower_rule (de_host e) doc rl = Inr l"
    using compile_rule_of [OF plan(1) l(1)] by metis
  have "list_all2 (\<lambda>spec s. to_signer e spec = Inr s) (lr_signers l) (cr_signers r)"
    using to_compiled_Inr [OF l(2)] by simp
  then obtain spec where spec: "spec \<in> set (lr_signers l)" "to_signer e spec = Inr s"
    using assms(3) by (rule list_all2_rightE)
  obtain sid where "\<exists>d. find (\<lambda>s. sd_id s = sid) (d_signers doc) = Some d \<and> spec = lower_method (sd_method d)"
    using lower_rule_Inr(3) [OF rl] spec(1) by (rule list_all2_rightE)
  then obtain d where d: "d \<in> set (d_signers doc)" "spec = lower_method (sd_method d)"
    by (metis find_Some_iff nth_mem)
  then show thesis using that [of d] spec(2) to_signer_declares by simp
qed


text \<open>A rule's signer is a declared credential, returned unchanged by its verifier, and has its fingerprint in the list.\<close>

lemma signer_fingerprinted:
  assumes "compile_parsed e doc = Inr c" "r \<in> set (cd_rules c)" "s \<in> set (cr_signers r)"
  shows "(\<exists>d \<in> set (d_signers doc). declares e (sd_method d) (signer_credential s)) \<and>
    (\<exists>f \<in> set (cd_fingerprints c). fingerprint (h_sha256 (de_host e)) (de_xdr e) (signer_credential s) = Inr f) \<and>
    verifier_canonical e (signer_credential s)"
proof -
  obtain d where d: "d \<in> set (d_signers doc)" "declares e (sd_method d) (signer_credential s)"
    using assms by (rule rule_signer_declared)
  obtain cs where cs: "canonical_credentials e (d_signers doc) = Inr cs" "fingerprints e cs = Inr (cd_fingerprints c)"
    using compile_parsed_Inr(7) [OF assms(1)] by (elim exE conjE)
  obtain k where k: "k \<in> set cs" "declares e (sd_method d) k \<and> verifier_canonical e k"
    using canonical_credentials_declared [OF cs(1)] d(1) by (rule list_all2_leftE)
  have "k = signer_credential s" using k(2) d(2) declares_unique by blast
  then show ?thesis using d k fingerprints_mem [OF cs(2), of k] by metis
qed

text \<open>The canonical text is what the lexer reads back: the value tree of the document.\<close>

definition reads_canonical :: "compiler_env \<Rightarrow> policy_doc \<Rightarrow> bool" where
  "reads_canonical e doc \<longleftrightarrow>
     utf8_valid (str_bytes_of (canonical_json doc)) \<and>
     de_lexer e MAX_DEPTH (canonical_json doc) = Some (canonical_tree (doc_to_cv doc))"

lemma bytes_str_inverse [simp]: "bytes_str (str_bytes_of s) = s"
proof -
  have "char_of (unat (word_of_nat (of_char c) :: byte)) = c" for c :: char
    by (simp add: unsigned_of_nat take_bit_nat_eq_self)
  then show ?thesis by (simp add: bytes_str_def str_bytes_of_def comp_def)
qed

lemma canonical_version:
  assumes "d_version doc = 1" "canonical_tree (doc_to_cv doc) = J_Object es" "e \<in> set es"
  shows "\<not> foreign_version e"
proof -
  have "parse_unsigned (u32_to_string 1) = Some (1 :: u64)"
    using parse_u32_u64 [OF parse_unsigned_u32, of 1] by simp
  then show ?thesis
    using assms
    by (auto simp: doc_to_cv_def canonical_members_def foreign_version_def opt_member_def split: option.splits)
qed

lemma compile_canonical:
  assumes "compile_parsed e doc = Inr c" "reads_canonical e doc" "d_version doc = 1"
  shows "compile_doc e (cd_canonical c) = Inr c"
proof -
  have "from_json (de_lexer e) (canonical_json doc) = Inr doc"
    using assms(2) canonical_version [OF assms(3)] by (simp add: reads_canonical_def from_json_Inr doc_roundtrip)
  then have "dc_parse e (cd_canonical c) = Inr doc"
    using assms(2) compile_parsed_Inr(4) [OF assms(1)] by (simp add: dc_parse_def reads_canonical_def)
  then show ?thesis by (simp add: compile_doc_def assms(1))
qed


section \<open>ASCII text\<close>

lemma utf8_ascii:
  assumes "list_all (\<lambda>b. b < 0x80) bs"
  shows "utf8_valid bs" "utf8_lossy bs = bs"
  using assms by (induction bs) (simp_all add: utf8_step_def)

definition ascii :: "string \<Rightarrow> bool" where
  "ascii s \<longleftrightarrow> list_all (\<lambda>c. of_char c < (128 :: nat)) s"

lemma ascii_bytes: "ascii s \<Longrightarrow> list_all (\<lambda>b. b < 0x80) (str_bytes_of s)"
  by (auto simp: ascii_def str_bytes_of_def list_all_iff word_less_nat_alt unsigned_of_nat take_bit_nat_eq_self)

lemma to_std_string_ascii: "ascii s \<Longrightarrow> to_std_string s = s"
  by (simp add: to_std_string_def utf8_ascii [OF ascii_bytes])

section \<open>A document with recovery, and a target\<close>

definition demo_verifier :: string where
  "demo_verifier = ''CA7QYNF7SOWQ3GLR2BGMZEHXAVIRZA4KVWLTJJFC7MGXUA74P7UJUWDA''"

definition enrolled_doc :: "string \<Rightarrow> policy_doc" where
  "enrolled_doc key = \<lparr>d_version = 1, d_network = Some ''net'',
     d_signers = [\<lparr>sd_id = ''ops'', sd_method = External demo_verifier key\<rparr>],
     d_rules = [demo_admin],
     d_recovery = Some \<lparr>rc_profile = Loss,
       rc_mode = GuardianOnly \<lparr>gs_guardians = [''GAAAAAAAAAAAAAAAAAAAAAAAAAAAAAAAAAAAAAAAAAAAAAAAAAAAAWHF''], gs_quorum = 1\<rparr>,
       rc_controller = ''CAAAAAAAAAAAAAAAAAAAAAAAAAAAAAAAAAAAAAAAAAAAAAAAAAAAD2KM'', rc_baseline = None,
       rc_replaceable = [''ops''], rc_delay_ledgers = 1, rc_expiry_ledgers = 1, rc_max_cancels = 1\<rparr>\<rparr>"

definition demo_env :: compiler_env where
  "demo_env = \<lparr>de_host = demo_host,
     de_lexer = (\<lambda>_ s. Some (canonical_tree (doc_to_cv (enrolled_doc
                   (if s = canonical_json (enrolled_doc ''01'') then ''01'' else ''00''))))),
     de_hexd = (\<lambda>s. if s = ''00'' then Some [0] else if s = ''01'' then Some [1] else None),
     de_network_id = 3, de_xdr = demo_xdr, de_strkey = (\<lambda>_. demo_verifier),
     de_hex_encode = (\<lambda>_. ''01''), de_max_name_size = 20, de_canonicalize = (\<lambda>_ ks. Some ks)\<rparr>"

lemma demo_canonical_text:
  "(let t = canonical_json (enrolled_doc ''01'') in ascii t \<and> length t \<le> 8192 \<and> t \<noteq> [])"
  by code_simp

lemma demo_reads: "reads_canonical demo_env (enrolled_doc ''01'')"
  using demo_canonical_text utf8_ascii(1) [OF ascii_bytes]
  by (simp add: reads_canonical_def demo_env_def Let_def)

lemma demo_enrolled_well_formed:
  "k \<in> {''00'', ''01''} \<Longrightarrow> well_formed (de_hexd demo_env) (enrolled_doc k)"
  by (auto simp: well_formed_def enrolled_doc_def demo_admin_def wf_signers_def wf_rule_def
      wf_signer_refs_def declared_ids_def demo_env_def demo_addresses MAX_SIGNER_KEY_LEN_def demo_verifier_def
      wf_recovery_def wf_guardian_set_def)

lemma demo_env_simps:
  "de_host demo_env = demo_host" "de_network_id demo_env = 3" "de_xdr demo_env = demo_xdr"
  "de_max_name_size demo_env = 20" "de_canonicalize demo_env v ks = Some ks"
  "h_address demo_host t = Some (ContractId 7)" "h_sha256 demo_host bs = word_of_nat (length bs)"
  by (simp_all add: demo_env_def demo_host_def)

lemma demo_key: "hex_bytes ''01'' = Inr [1]" "hex_bytes ''00'' = Inr [0]"
  by (simp_all add: hex_bytes_def nib_def char_in_def less_eq_char_def)

lemma demo_credentials:
  "canonical_credentials demo_env (d_signers (enrolled_doc ''01'')) = Inr [Cred_External (ContractId 7) [1]]"
  "canonical_credentials demo_env (d_signers (enrolled_doc ''00'')) = Inr [Cred_External (ContractId 7) [0]]"
  by (simp_all add: canonical_credentials_def enrolled_doc_def dc_address_def demo_env_simps demo_key typed_def
      canonicalize_batch_def slot_credential_def)

lemma demo_recovery_compiles:
  "\<exists>rc cc. d_recovery (enrolled_doc ''01'') = Some rc \<and> to_compiled_recovery demo_env rc = Inr cc"
  by (simp add: enrolled_doc_def to_compiled_recovery_def to_compiled_guardian_set_def dc_address_def
      demo_env_simps Let_def)

lemma demo_enrolled_plan:
  "compile demo_host (enrolled_doc ''01'') \<lparr>cfg_interpreter_wasm_hash = 0\<rparr> =
     Inr \<lparr>pl_rules = [\<lparr>lr_name = ''admin'', lr_scope = ScopeSpec_SelfAdmin,
       lr_signers = [SignerSpec_External demo_verifier ''01''],
       lr_valid_until = None, lr_install = None, lr_cap = None\<rparr>], pl_interpreter_wasm_hash = None\<rparr>"
  by (simp add: compile_def lower_rule_def resolve_signer_def enrolled_doc_def demo_admin_def
      lower_cap_def lower_expiry_def)

lemma demo_enrolled_compiles:
  "\<exists>c. compile_parsed demo_env (enrolled_doc ''01'') = Inr c \<and> admin_survives (cd_rules c) \<and> cd_recovery c \<noteq> []"
proof -
  have v: "validate (de_hexd demo_env) (enrolled_doc ''01'') = Inr ()"
    using demo_enrolled_well_formed [of "''01''"] by (simp add: validate_def Let_def validation_errors_Nil)
  have l: "\<not> length (canonical_json (enrolled_doc ''01'')) > unat MAX_DOC_CANONICAL_BYTES"
    using demo_canonical_text by (simp add: Let_def MAX_DOC_CANONICAL_BYTES_def)
  have d: "d_network (enrolled_doc ''01'') = Some ''net''" "length (d_signers (enrolled_doc ''01'')) = 1"
    "d_rules (enrolled_doc ''01'') = [demo_admin]" "length (r_name demo_admin) = 5"
    by (simp_all add: enrolled_doc_def demo_admin_def)
  obtain rc cc where rc: "d_recovery (enrolled_doc ''01'') = Some rc" "to_compiled_recovery demo_env rc = Inr cc"
    using demo_recovery_compiles by (elim exE conjE)
  obtain fs where fp: "fingerprints demo_env [Cred_External (ContractId 7) [1]] = Inr fs"
    by (simp add: fingerprints_def fingerprint_def demo_env_simps tagged_address_eq [OF demo_xdr_laws])
  have r: "to_compiled demo_env \<lparr>lr_name = ''admin'', lr_scope = ScopeSpec_SelfAdmin,
       lr_signers = [SignerSpec_External demo_verifier ''01''],
       lr_valid_until = None, lr_install = None, lr_cap = None\<rparr> =
     Inr \<lparr>cr_name = ''admin'', cr_scope = RS_SelfAdmin, cr_signers = [Signer_External (ContractId 7) [1]],
          cr_valid_until = None, cr_install = [], cr_cap = []\<rparr>"
    by (simp add: to_compiled_def dc_address_def typed_def demo_env_simps demo_key)
  show ?thesis
    by (simp add: compile_parsed_def v d l rc fp r demo_env_simps demo_enrolled_plan demo_credentials
        MAX_DOC_SIGNERS_def MAX_DOC_RULES_def admin_survives_def Let_def)
qed

lemma demo_parse: "dc_parse demo_env [] = Inr (enrolled_doc ''00'')"
proof -
  have "de_lexer demo_env MAX_DEPTH [] = Some (canonical_tree (doc_to_cv (enrolled_doc ''00'')))"
    using demo_canonical_text by (auto simp: demo_env_def Let_def)
  moreover have "d_version (enrolled_doc ''00'') = 1" by (simp add: enrolled_doc_def)
  ultimately have "from_json (de_lexer demo_env) [] = Inr (enrolled_doc ''00'')"
    using canonical_version [of "enrolled_doc ''00''"] by (auto simp: from_json_Inr doc_roundtrip)
  then show ?thesis by (simp add: dc_parse_def bytes_str_def)
qed


section \<open>Properties\<close>

text \<open>
  C31. A compiled document is the submitted one. A successful compilation has parsed the bytes to
  a document of version 1 that is well formed, names this chain and keeps the caps; its
  canonical bytes are that document's canonical text and its identity their digest; two
  submissions with the same canonical bytes compile to the same result, whatever their
  formatting; and where the lexer reads the canonical text back, submitting the canonical bytes
  again gives the same result.
\<close>

theorem compiled_document_identity:
  assumes "compile_doc e json = Inr c"
  shows "\<exists>doc. dc_parse e json = Inr doc \<and> d_version doc = 1 \<and> well_formed (de_hexd e) doc \<and>
    (\<exists>net. d_network doc = Some net \<and> h_sha256 (de_host e) (str_bytes_of net) = de_network_id e) \<and>
    length (d_signers doc) \<le> 8 \<and> length (d_rules doc) \<le> 11 \<and> length (cd_canonical c) \<le> 8192 \<and>
    cd_canonical c = str_bytes_of (canonical_json doc) \<and>
    cd_doc_hash c = h_sha256 (de_host e) (cd_canonical c) \<and>
    (\<forall>json' c'. compile_doc e json' = Inr c' \<and> cd_canonical c' = cd_canonical c \<longrightarrow> c' = c) \<and>
    (reads_canonical e doc \<longrightarrow> compile_doc e (cd_canonical c) = Inr c)"
proof -
  obtain doc where doc: "dc_parse e json = Inr doc" "compile_parsed e doc = Inr c"
    using assms by (auto simp: compile_doc_def result_simps)
  note facts = compile_parsed_Inr [OF doc(2)]
  have version: "d_version doc = 1"
    using doc(1) accepted_version by (auto simp: dc_parse_def result_simps)
  have same: "c' = c" if c': "compile_doc e json' = Inr c'" "cd_canonical c' = cd_canonical c" for json' c'
  proof -
    obtain doc' where doc': "compile_parsed e doc' = Inr c'"
      using c'(1) by (auto simp: compile_doc_def result_simps)
    then have "canonical_json doc' = canonical_json doc"
      using c'(2) facts(4) compile_parsed_Inr(4) [OF doc'] by simp
    then have "doc' = doc" by (simp add: canonical_json_inject)
    then show ?thesis using doc(2) doc' by simp
  qed
  show ?thesis
    using doc(1) version facts(1-5) same compile_canonical [OF doc(2) _ version]
    by (intro exI [of _ doc] conjI) auto
qed

text \<open>Witness of C31: the canonical text of a document with recovery compiles.\<close>

theorem compiled_document_identity_witness:
  "\<exists>c. compile_doc demo_env (str_bytes_of (canonical_json (enrolled_doc ''01''))) = Inr c \<and>
     length (cd_canonical c) \<le> 8192 \<and> cd_doc_hash c = h_sha256 demo_host (cd_canonical c)"
proof -
  obtain c where c: "compile_parsed demo_env (enrolled_doc ''01'') = Inr c"
    using demo_enrolled_compiles by (elim exE conjE)
  have "compile_doc demo_env (cd_canonical c) = Inr c"
    by (rule compile_canonical [OF c demo_reads]) (simp add: enrolled_doc_def)
  then show ?thesis
    using compiled_document_identity [of demo_env "cd_canonical c" c] compile_parsed_Inr(4) [OF c]
    by (auto simp: demo_env_simps)
qed

text \<open>
  Nothing signs that is not fingerprinted. Every signer of every compiled rule is a
  credential the document declares, its fingerprint is among those the compiler returns, and an
  external key among the declared credentials is one its verifier returned unchanged. So
  comparing the fingerprints with the revoked set decides for all rules at once.
\<close>

theorem rule_signers_are_fingerprinted:
  assumes "compile_parsed e doc = Inr c" "r \<in> set (cd_rules c)" "s \<in> set (cr_signers r)"
  shows "(\<exists>d \<in> set (d_signers doc). declares e (sd_method d) (signer_credential s)) \<and>
    (\<exists>f \<in> set (cd_fingerprints c). fingerprint (h_sha256 (de_host e)) (de_xdr e) (signer_credential s) = Inr f) \<and>
    verifier_canonical e (signer_credential s)"
  using assms by (rule signer_fingerprinted)

text \<open>An instance: the administrator's key of the demo document.\<close>

theorem rule_signers_are_fingerprinted_witness:
  "\<exists>c. compile_parsed demo_env (enrolled_doc ''01'') = Inr c \<and>
     (\<exists>r \<in> set (cd_rules c). \<exists>s \<in> set (cr_signers r).
        \<exists>f \<in> set (cd_fingerprints c). fingerprint (h_sha256 demo_host) demo_xdr (signer_credential s) = Inr f)"
proof -
  obtain c where c: "compile_parsed demo_env (enrolled_doc ''01'') = Inr c" "admin_survives (cd_rules c)"
    using demo_enrolled_compiles by (elim exE conjE)
  obtain r where r: "r \<in> set (cd_rules c)" "cr_signers r \<noteq> []"
    using c(2) by (auto simp: admin_survives_def list_ex_iff)
  then obtain s where s: "s \<in> set (cr_signers r)" by (cases "cr_signers r") auto
  show ?thesis
    using rule_signers_are_fingerprinted [OF c(1) r(1) s] c(1) r(1) s by (auto simp: demo_env_simps)
qed

text \<open>
  C30. A derived recovery target is applicable. The target is derived from the parsed source and
  the parsed current document, compiles with its administrator kept, and the returned identity,
  configuration hash and fingerprints are those of that compilation; the credentials returned
  as replaced are the ones the source declares in the replaced slots. Where the lexer reads the
  target's canonical text back, submitting the returned bytes compiles to the same identity, so
  the bytes an attempt is authorized for can complete it.
\<close>

theorem derived_target_is_applicable:
  assumes "contract_derive_target e source_json current_json action rset = Inr d"
  shows "\<exists>source current target act rot c.
    dc_parse e source_json = Inr source \<and> dc_parse e current_json = Inr current \<and>
    (action, act) \<in> {(RA_LostKey, LostKey), (RA_Compromise, Compromise)} \<and> declared_rotation e rset = Inr rot \<and>
    derive_target source current act (declared_replacements e rset) rot = Inr target \<and>
    compile_parsed e target = Inr c \<and> admin_survives (cd_rules c) \<and>
    dt_canonical d = cd_canonical c \<and> dt_doc_hash d = cd_doc_hash c \<and> dt_fingerprints d = cd_fingerprints c \<and>
    (\<exists>cc ccs. cd_recovery c = cc # ccs \<and> dt_config_hash d = cc_config_hash cc) \<and>
    list_all2 (\<lambda>s k. declares e (sd_method s) k)
      [s \<leftarrow> d_signers source. sd_id s \<in> (\<lambda>r. to_std_string (cr_signer_id r)) ` set (rs_signers rset)] (dt_replaced d) \<and>
    (reads_canonical e target \<longrightarrow> compile_doc e (dt_canonical d) = Inr c)"
proof -
  obtain act source current rot target c hash replaced where
    src: "dc_parse e source_json = Inr source" "dc_parse e current_json = Inr current"
    and act: "(action, act) \<in> {(RA_LostKey, LostKey), (RA_Compromise, Compromise)}"
    and rot: "declared_rotation e rset = Inr rot"
    and tgt: "derive_target source current act (declared_replacements e rset) rot = Inr target"
    and c: "compile_parsed e target = Inr c" "admin_survives (cd_rules c)"
    and hash: "(case cd_recovery c of [] \<Rightarrow> None | r # _ \<Rightarrow> Some (cc_config_hash r)) = Some hash"
    and rep: "canonical_credentials e [s \<leftarrow> d_signers source. list_ex (\<lambda>r. rp_signer_id r = sd_id s)
                (declared_replacements e rset)] = Inr replaced"
    and d: "d = \<lparr>dt_canonical = cd_canonical c, dt_doc_hash = cd_doc_hash c, dt_config_hash = hash,
                dt_fingerprints = cd_fingerprints c, dt_replaced = replaced\<rparr>"
    using assms by (auto simp: contract_derive_target_def result_simps Let_def split: recovery_action.splits)
  have sel: "(\<lambda>s. list_ex (\<lambda>r. rp_signer_id r = sd_id s) (declared_replacements e rset)) =
    (\<lambda>s. sd_id s \<in> (\<lambda>r. to_std_string (cr_signer_id r)) ` set (rs_signers rset))"
    unfolding fun_eq_iff declared_replacements_def list_ex_iff image_iff by (auto; metis)
  have "list_all2 (\<lambda>s k. declares e (sd_method s) k)
      [s \<leftarrow> d_signers source. sd_id s \<in> (\<lambda>r. to_std_string (cr_signer_id r)) ` set (rs_signers rset)] replaced"
    by (rule list_all2_mono [OF canonical_credentials_declared [OF rep, unfolded sel]]) simp
  moreover have "d_version target = 1" using compile_parsed_Inr(1) [OF c(1)] by (simp add: well_formed_def)
  then have "reads_canonical e target \<longrightarrow> compile_doc e (cd_canonical c) = Inr c"
    using compile_canonical [OF c(1)] by simp
  moreover have "\<exists>cc ccs. cd_recovery c = cc # ccs \<and> hash = cc_config_hash cc"
    using hash by (auto split: list.splits)
  ultimately show ?thesis
    using src act rot tgt c d by (intro exI [of _ source] exI [of _ current] exI [of _ target] exI [of _ act]
        exI [of _ rot] exI [of _ c]) simp
qed

text \<open>Witness of C30: replacing the key of the demo document's only signer.\<close>

definition demo_replacements :: replacement_set where
  "demo_replacements =
     \<lparr>rs_signers = [\<lparr>cr_signer_id = ''ops'', cr_credential = Cred_External (ContractId 7) [1]\<rparr>],
      rs_zk_enrollment = []\<rparr>"

lemma demo_rotation: "declared_rotation demo_env demo_replacements = Inr None"
  by (simp add: declared_rotation_def demo_replacements_def)

lemma demo_declared:
  "declared_replacements demo_env demo_replacements = [\<lparr>rp_signer_id = ''ops'', rp_method = External demo_verifier ''01''\<rparr>]"
proof -
  have a: "to_std_string ''ops'' = ''ops''" "to_std_string demo_verifier = demo_verifier"
    by (rule to_std_string_ascii, simp add: ascii_def demo_verifier_def)+
  show ?thesis by (simp add: declared_replacements_def demo_replacements_def a) (simp add: demo_env_def a)
qed

lemma demo_target:
  "derive_target (enrolled_doc ''00'') (enrolled_doc ''00'') LostKey
     (declared_replacements demo_env demo_replacements) None = Inr (enrolled_doc ''01'')"
  unfolding demo_declared by (simp add: derive_target_def enrolled_doc_def)

lemma demo_derives:
  "\<exists>d. contract_derive_target demo_env [] [] RA_LostKey demo_replacements = Inr d \<and>
     dt_replaced d = [Cred_External (ContractId 7) [0]]"
proof -
  obtain c where c: "compile_parsed demo_env (enrolled_doc ''01'') = Inr c" "admin_survives (cd_rules c)"
      "cd_recovery c \<noteq> []"
    using demo_enrolled_compiles by (elim exE conjE)
  have s: "[s \<leftarrow> d_signers (enrolled_doc ''00''). list_ex (\<lambda>r. rp_signer_id r = sd_id s)
      (declared_replacements demo_env demo_replacements)] = d_signers (enrolled_doc ''00'')"
    by (simp add: demo_declared enrolled_doc_def)
  show ?thesis
    using c
    by (cases "cd_recovery c") (simp_all add: contract_derive_target_def s demo_parse demo_target demo_rotation demo_credentials Let_def)
qed

theorem derived_target_is_applicable_witness:
  "\<exists>d c. contract_derive_target demo_env [] [] RA_LostKey demo_replacements = Inr d \<and>
     dt_replaced d = [Cred_External (ContractId 7) [0]] \<and> admin_survives (cd_rules c) \<and>
     compile_parsed demo_env (enrolled_doc ''01'') = Inr c \<and> compile_doc demo_env (dt_canonical d) = Inr c"
proof -
  obtain d where d: "contract_derive_target demo_env [] [] RA_LostKey demo_replacements = Inr d"
      "dt_replaced d = [Cred_External (ContractId 7) [0]]"
    using demo_derives by (elim exE conjE)
  obtain target c where t: "derive_target (enrolled_doc ''00'') (enrolled_doc ''00'') LostKey
        (declared_replacements demo_env demo_replacements) None = Inr target"
    and c: "compile_parsed demo_env target = Inr c" "admin_survives (cd_rules c)"
      "reads_canonical demo_env target \<longrightarrow> compile_doc demo_env (dt_canonical d) = Inr c"
    using derived_target_is_applicable [OF d(1)] by (auto simp: demo_parse demo_rotation)
  have "target = enrolled_doc ''01''" using t by (simp add: demo_target)
  then show ?thesis using d c demo_reads by (intro exI [of _ d] exI [of _ c]) simp
qed

end
