(* ===== verification/Controller.thy ===== *)
theory Controller
  imports Compiled_Doc
begin

text \<open>
  The recovery controller (\<open>crates/perch-recovery\<close>): its state records (\<open>types.rs\<close>), its storage
  (\<open>storage.rs\<close>) and its entry points (\<open>contract.rs\<close>), each with every guard in the order of the
  code. An entry point takes the environment of its invocation and the controller's state and
  returns a failure, which rolls the state back, or a result and the new state.

  Other contracts (the account's views, the document compiler, the ZK adapter, the pool) are
  functions of the environment, where \<open>None\<close> is a failed call. Events and the calls of the
  account's \<open>rcv_gate\<close> are appended to the list of effects. Lifetimes of storage entries are not
  kept; a temporary entry may be lost at any moment, which the step relation of the next theory
  allows.
\<close>

section \<open>State (types.rs, storage.rs)\<close>

datatype evidence_domain = Initiate | Cancel

record activity_gate =
  ag_authorized_attempt :: "u64 option"
  ag_frozen :: bool
  ag_until :: u32

datatype attempt_state = St_Collecting | St_Authorized | St_Completed | St_Cancelled | St_Invalidated

record attempt =
  at_id :: u64
  at_action :: recovery_action
  at_epoch :: u64
  at_created_at :: u32
  at_evidence_deadline :: u32
  at_cancel_until :: u32
  at_authorized_at :: u32
  at_executable_after :: u32
  at_expires_at :: u32
  at_source_doc_hash :: bytes32
  at_target_doc_hash :: bytes32
  at_target_bytes_hash :: bytes32
  at_target_config_hash :: bytes32
  at_replacements_hash :: bytes32
  at_replaced :: "credential list"
  at_state :: attempt_state
  at_guardians :: "address list"
  at_zk_nullifier :: "bytes32 option"
  at_cancel_guardians :: "address list"
  at_cancel_zk :: bool

record change_approval =
  ca_guardians :: "address list"
  ca_zk :: bool

definition empty_approval :: change_approval where
  "empty_approval = \<lparr>ca_guardians = [], ca_zk = False\<rparr>"

record completion_marker =
  cm_attempt_id :: u64
  cm_target_doc_hash :: bytes32
  cm_ledger :: u32

datatype recovery_effect =
    Ev_AttemptBegun address u64 recovery_action bytes32
  | Ev_AttemptAuthorized address u64 u32 u32
  | Ev_AttemptInvalidated address u64
  | Ev_AttemptCancelled address u64 bool
  | Ev_RecoveryCompleted address u64 bytes32
  | Ev_EpochAdvanced address u64 "bytes32 option"
  | Ev_ChangeEvidenceRecorded address bytes32
  | Call_rcv_gate address u64 u32

record recovery_storage =
  rs_config :: "address \<rightharpoonup> compiled_recovery_config"
  rs_epoch :: "address \<rightharpoonup> u64"
  rs_next_attempt :: "address \<rightharpoonup> u64"
  rs_invalidate_below :: "address \<rightharpoonup> u64"
  rs_authorized :: "address \<rightharpoonup> u64"
  rs_cancels :: "address \<rightharpoonup> u32"
  rs_attempt :: "address \<times> u64 \<rightharpoonup> attempt"
  rs_collecting :: "address \<times> u64 \<rightharpoonup> attempt"
  rs_completing :: "address \<rightharpoonup> completion_marker"
  rs_nullifier :: "address \<times> bytes32 \<rightharpoonup> bool"
  rs_approval :: "address \<times> bytes32 \<rightharpoonup> change_approval"
  rs_baseline :: "address \<times> bytes32 \<rightharpoonup> bytes"
  rs_effects :: "recovery_effect list"

definition initial_storage :: recovery_storage where
  "initial_storage =
     \<lparr>rs_config = Map.empty, rs_epoch = Map.empty, rs_next_attempt = Map.empty,
      rs_invalidate_below = Map.empty, rs_authorized = Map.empty, rs_cancels = Map.empty,
      rs_attempt = Map.empty, rs_collecting = Map.empty, rs_completing = Map.empty,
      rs_nullifier = Map.empty, rs_approval = Map.empty, rs_baseline = Map.empty, rs_effects = []\<rparr>"

section \<open>The environment\<close>

text \<open>What does not change between invocations: the chain and the contract's own address.\<close>

record recovery_chain =
  rn_sha256 :: "bytes \<Rightarrow> bytes32"
  rn_xdr :: to_xdr
  rn_network_id :: bytes32
  rn_self :: address
  rn_max_ttl :: u32

text \<open>The account's views and its gate; \<open>None\<close> is a failed call.\<close>

record account_view =
  av_applied_doc :: "bytes option option"
  av_applied_doc_hash :: "bytes32 option option"
  av_doc_compiler :: "address option"
  av_is_revoked :: "bytes32 \<Rightarrow> bool option"
  av_is_enrolled_id :: "bytes32 \<Rightarrow> bool option"
  av_rcv_gate :: "u64 \<Rightarrow> u32 \<Rightarrow> unit option"

record recovery_env =
  ce_chain :: recovery_chain
  ce_now :: u32
  ce_auth :: "address \<Rightarrow> bool"
  ce_auth_for_args :: "address \<Rightarrow> bytes32 \<Rightarrow> bool"
  ce_account :: "address \<Rightarrow> account_view"
  ce_compile_doc :: "address \<Rightarrow> bytes \<Rightarrow> compiled_doc option"
  ce_derive_target :: "address \<Rightarrow> bytes \<Rightarrow> bytes \<Rightarrow> recovery_action \<Rightarrow> replacement_set \<Rightarrow> derived_target option"
  ce_verify :: "address \<Rightarrow> recovery_statement \<Rightarrow> zk_binding \<Rightarrow> zk_evidence \<Rightarrow> unit option"
  ce_circuit_id :: "address \<Rightarrow> bytes32 option"
  ce_tree_depth :: "address \<Rightarrow> u32 option"
  ce_pool_depth :: "address \<Rightarrow> u32 option"

type_synonym 'a rcv = "recovery_error failure + 'a"

definition fail :: "recovery_error \<Rightarrow> 'a rcv" where
  "fail err = Inl (Failed err)"

definition invoke :: "'a option \<Rightarrow> 'a rcv" where
  "invoke r = ok_or r Trap"

definition rcv_require_auth :: "recovery_env \<Rightarrow> address \<Rightarrow> unit rcv" where
  "rcv_require_auth e a = require (ce_auth e a) Unauthorized"

section \<open>State helpers\<close>

definition add_effect :: "recovery_effect \<Rightarrow> recovery_storage \<Rightarrow> recovery_storage" where
  "add_effect ev s = s\<lparr>rs_effects := rs_effects s @ [ev]\<rparr>"

definition add_ledgers :: "u32 \<Rightarrow> u32 \<Rightarrow> u32 rcv" where
  "add_ledgers a b = ok_or (checked_add a b) (Failed LedgerOverflow)"

definition require_config :: "recovery_storage \<Rightarrow> address \<Rightarrow> compiled_recovery_config rcv" where
  "require_config s account = ok_or (rs_config s account) (Failed NotEnrolled)"

definition or_default :: "'a \<Rightarrow> 'a option \<Rightarrow> 'a" where
  "or_default d x = (case x of None \<Rightarrow> d | Some v \<Rightarrow> v)"

definition epoch_of :: "recovery_storage \<Rightarrow> address \<Rightarrow> u64" where
  "epoch_of s account = or_default 0 (rs_epoch s account)"

definition bump_epoch :: "recovery_storage \<Rightarrow> address \<Rightarrow> (u64 \<times> recovery_storage) rcv" where
  "bump_epoch s account =
     and_then (invoke (checked_add (epoch_of s account) 1)) (\<lambda>n.
     Inr (n, s\<lparr>rs_epoch := (rs_epoch s)(account \<mapsto> n)\<rparr>))"

definition store_config :: "recovery_storage \<Rightarrow> address \<Rightarrow> compiled_recovery_config \<Rightarrow> recovery_storage rcv" where
  "store_config s account config =
     and_then (bump_epoch (s\<lparr>rs_config := (rs_config s)(account \<mapsto> config)\<rparr>) account) (\<lambda>(epoch, s').
     Inr (add_effect (Ev_EpochAdvanced account epoch (Some (cc_config_hash config))) s'))"

definition store_approval :: "recovery_storage \<Rightarrow> address \<Rightarrow> bytes32 \<Rightarrow> change_approval \<Rightarrow> recovery_storage" where
  "store_approval s account dig entry =
     add_effect (Ev_ChangeEvidenceRecorded account dig)
       (s\<lparr>rs_approval := (rs_approval s)((account, dig) \<mapsto> entry)\<rparr>)"

definition load_attempt :: "recovery_storage \<Rightarrow> address \<Rightarrow> u64 \<Rightarrow> attempt option" where
  "load_attempt s account i =
     (case rs_attempt s (account, i) of Some a \<Rightarrow> Some a | None \<Rightarrow> rs_collecting s (account, i))"

definition is_live :: "recovery_env \<Rightarrow> recovery_storage \<Rightarrow> address \<Rightarrow> attempt \<Rightarrow> bool" where
  "is_live e s account a =
     (if at_epoch a \<noteq> epoch_of s account then False
      else let now = ce_now e
           in case at_state a of
                St_Collecting \<Rightarrow>
                  or_default 0 (rs_invalidate_below s account) \<le> at_id a \<and> now \<le> at_evidence_deadline a
              | St_Authorized \<Rightarrow> rs_authorized s account = Some (at_id a) \<and> now < at_expires_at a
              | _ \<Rightarrow> False)"

definition load_live :: "recovery_env \<Rightarrow> recovery_storage \<Rightarrow> address \<Rightarrow> u64 \<Rightarrow> attempt rcv" where
  "load_live e s account i =
     and_then (ok_or (load_attempt s account i) (Failed NoSuchAttempt)) (\<lambda>a.
     if \<not> is_live e s account a then fail AttemptNotLive else Inr a)"

definition authorized_live :: "recovery_env \<Rightarrow> recovery_storage \<Rightarrow> address \<Rightarrow> attempt option" where
  "authorized_live e s account =
     (case rs_authorized s account of
        None \<Rightarrow> None
      | Some i \<Rightarrow>
          (case rs_attempt s (account, i) of
             None \<Rightarrow> None
           | Some a \<Rightarrow> if is_live e s account a then Some a else None))"

definition refuse_in_window :: "recovery_env \<Rightarrow> recovery_storage \<Rightarrow> address \<Rightarrow> unit rcv" where
  "refuse_in_window e s account =
     (case authorized_live e s account of Some _ \<Rightarrow> fail AttemptAuthorized | None \<Rightarrow> Inr ())"

definition save_attempt :: "recovery_env \<Rightarrow> recovery_storage \<Rightarrow> address \<Rightarrow> attempt \<Rightarrow> recovery_storage" where
  "save_attempt e s account a =
     (let key = (account, at_id a);
          evidence_window = saturating_add (saturating_sub (at_evidence_deadline a) (ce_now e)) 1;
          persistent = (at_state a = St_Authorized \<or> at_state a = St_Completed \<or>
                        evidence_window > rn_max_ttl (ce_chain e) \<or> rs_attempt s key \<noteq> None)
      in if persistent
         then s\<lparr>rs_collecting := (rs_collecting s)(key := None), rs_attempt := (rs_attempt s)(key \<mapsto> a)\<rparr>
         else s\<lparr>rs_collecting := (rs_collecting s)(key \<mapsto> a)\<rparr>)"

text \<open>OZ's context rule, as far as the controller reads it.\<close>

record context_rule =
  xr_signers :: "signer list"
  xr_context_type :: context_rule_type

definition assert_recovery_rule :: "context_rule \<Rightarrow> address \<Rightarrow> unit rcv" where
  "assert_recovery_rule rl account =
     (if xr_signers rl \<noteq> [] \<or> xr_context_type rl \<noteq> CR_CallContract account
      then fail MalformedContextRule else Inr ())"

section \<open>Conditions and statements\<close>

text \<open>\<open>Option::is_none_or\<close>.\<close>

definition is_none_or :: "('a \<Rightarrow> bool) \<Rightarrow> 'a option \<Rightarrow> bool" where
  "is_none_or P x = (case x of None \<Rightarrow> True | Some v \<Rightarrow> P v)"

definition initiation_met :: "compiled_recovery_config \<Rightarrow> attempt \<Rightarrow> bool" where
  "initiation_met config a \<longleftrightarrow>
     is_none_or (\<lambda>g. unat (cg_quorum g) \<le> length (at_guardians a)) (config_guardians config) \<and>
     is_none_or (\<lambda>_. at_zk_nullifier a \<noteq> None) (config_zk config)"

definition cancellation_met :: "compiled_recovery_config \<Rightarrow> attempt \<Rightarrow> bool" where
  "cancellation_met config a \<longleftrightarrow>
     is_none_or (\<lambda>g. unat (cg_quorum g) \<le> length (at_cancel_guardians a)) (config_guardians config) \<and>
     is_none_or (\<lambda>_. at_cancel_zk a) (config_zk config)"

definition make_statement :: "recovery_chain \<Rightarrow> address \<Rightarrow> compiled_recovery_config \<Rightarrow> u64 \<Rightarrow> u32
    \<Rightarrow> statement_subject \<Rightarrow> recovery_statement" where
  "make_statement n account config epoch valid_until_ledger subject =
     \<lparr>st_network_id = rn_network_id n, st_account = account, st_controller = rn_self n,
      st_config = \<lparr>cb_epoch = epoch, cb_config_hash = cc_config_hash config\<rparr>,
      st_timing = \<lparr>tm_delay_ledgers = cc_delay_ledgers config, tm_expiry_ledgers = cc_expiry_ledgers config,
                   tm_valid_until_ledger = valid_until_ledger\<rparr>,
      st_subject = subject\<rparr>"

definition initiation_statement :: "recovery_chain \<Rightarrow> address \<Rightarrow> compiled_recovery_config \<Rightarrow> attempt
    \<Rightarrow> recovery_statement" where
  "initiation_statement n account config a =
     (let subject = \<lparr>as_attempt_id = at_id a, as_source_doc_hash = at_source_doc_hash a,
                     as_target_doc_hash = at_target_doc_hash a,
                     as_replacements_hash = at_replacements_hash a\<rparr>;
          subject' = (case at_action a of RA_Compromise \<Rightarrow> Subject_Compromise subject
                                        | _ \<Rightarrow> Subject_LostKey subject)
      in make_statement n account config (at_epoch a) (at_evidence_deadline a) subject')"

definition convert_statement_error :: "statement_error \<Rightarrow> recovery_error" where
  "convert_statement_error err =
     (case err of SE_EvidenceExpired \<Rightarrow> EvidenceExpired
                | SE_EvidenceWindowTooLong \<Rightarrow> EvidenceExpired
                | _ \<Rightarrow> InvalidStatement)"

definition rcv_digest :: "recovery_chain \<Rightarrow> recovery_statement \<Rightarrow> bytes32 rcv" where
  "rcv_digest n st = map_err (\<lambda>err. Failed (convert_statement_error err)) (statement_digest (rn_sha256 n) (rn_xdr n) st)"

definition rcv_check_fresh :: "recovery_env \<Rightarrow> recovery_statement \<Rightarrow> unit rcv" where
  "rcv_check_fresh e st = map_err (\<lambda>err. Failed (convert_statement_error err)) (check_fresh st (ce_now e))"

definition attempt_statement :: "recovery_chain \<Rightarrow> address \<Rightarrow> compiled_recovery_config \<Rightarrow> attempt
    \<Rightarrow> evidence_domain \<Rightarrow> recovery_statement rcv" where
  "attempt_statement n account config a domain =
     (let initiation = initiation_statement n account config a
      in case domain of
           Initiate \<Rightarrow> Inr initiation
         | Cancel \<Rightarrow>
             and_then (rcv_digest n initiation) (\<lambda>d.
             Inr (make_statement n account config (at_epoch a) (at_cancel_until a)
                    (Subject_Cancel \<lparr>cs_attempt_id = at_id a, cs_attempt_statement = d\<rparr>))))"

definition change_statement_for :: "recovery_chain \<Rightarrow> recovery_storage \<Rightarrow> address \<Rightarrow> compiled_recovery_config
    \<Rightarrow> statement_subject \<Rightarrow> u32 \<Rightarrow> recovery_statement rcv" where
  "change_statement_for n s account config subject valid_until =
     (if (case subject of Subject_Reconfigure _ \<Rightarrow> True | Subject_Upgrade _ \<Rightarrow> True | _ \<Rightarrow> False)
      then Inr (make_statement n account config (epoch_of s account) valid_until subject)
      else fail InvalidStatement)"

definition require_condition :: "recovery_env \<Rightarrow> recovery_storage \<Rightarrow> address \<Rightarrow> compiled_recovery_config
    \<Rightarrow> statement_subject \<Rightarrow> u32 \<Rightarrow> unit rcv" where
  "require_condition e s account config subject valid_until =
     and_then (change_statement_for (ce_chain e) s account config subject valid_until) (\<lambda>st.
     and_then (rcv_check_fresh e st) (\<lambda>_.
     and_then (rcv_digest (ce_chain e) st) (\<lambda>d.
     and_then (ok_or (rs_approval s (account, d)) (Failed ConditionNotMet)) (\<lambda>rec.
     and_then (case config_guardians config of
                 None \<Rightarrow> Inr ()
               | Some g \<Rightarrow>
                   let counted = (word_of_nat (length [x \<leftarrow> ca_guardians rec. x \<in> set (cg_guardians g)]) :: u32)
                   in if counted < cg_quorum g then fail ConditionNotMet else Inr ()) (\<lambda>_.
     if config_zk config \<noteq> None \<and> \<not> ca_zk rec then fail ConditionNotMet else Inr ())))))"

definition verify_zk :: "recovery_env \<Rightarrow> recovery_storage \<Rightarrow> address \<Rightarrow> compiled_zk_factor
    \<Rightarrow> recovery_statement \<Rightarrow> zk_evidence \<Rightarrow> unit rcv" where
  "verify_zk e s account factor st ev =
     and_then (ok_or (ce_verify e (cz_adapter factor) st (zk_factor_binding factor) ev) (Failed ZkEvidenceRejected)) (\<lambda>_.
     if rs_nullifier s (account, ev_nullifier ev) \<noteq> None then fail NullifierSpent else Inr ())"

definition check_config :: "address \<Rightarrow> compiled_recovery_config \<Rightarrow> unit rcv" where
  "check_config account config =
     (if cc_delay_ledgers config = 0 \<or> cc_expiry_ledgers config = 0 \<or> cc_max_cancels config = 0
      then fail InvalidConfiguration
      else case config_guardians config of
             None \<Rightarrow> Inr ()
           | Some g \<Rightarrow>
               if account \<in> set (cg_guardians g) \<or> cg_quorum g = 0 \<or> unat (cg_quorum g) > length (cg_guardians g)
               then fail InvalidConfiguration else Inr ())"

definition check_zk_wiring :: "recovery_env \<Rightarrow> compiled_zk_factor option \<Rightarrow> compiled_zk_factor option \<Rightarrow> unit rcv"
  where
  "check_zk_wiring e old new =
     (if \<not> zk_factor_transition_ok old new then fail ZkFactorChangedInPlace
      else case new of
             None \<Rightarrow> Inr ()
           | Some z \<Rightarrow>
               if old = Some z then Inr ()
               else let circuit_ok = (ce_circuit_id e (cz_adapter z) = Some (cz_circuit_id z));
                        adapter_depth = ce_tree_depth e (cz_adapter z);
                        pool_depth = ce_pool_depth e (cz_pool z)
                    in if \<not> circuit_ok \<or> adapter_depth = None \<or> adapter_depth \<noteq> pool_depth
                       then fail ZkWiringMismatch else Inr ())"

section \<open>Transitions\<close>

fun check_revoked :: "account_view \<Rightarrow> bytes32 list \<Rightarrow> unit rcv" where
  "check_revoked v [] = Inr ()"
| "check_revoked v (f # fs) =
     and_then (invoke (av_is_revoked v f)) (\<lambda>r. if r then fail CredentialRevoked else check_revoked v fs)"

text \<open>T1: the target is derived and checked (\<open>derive\<close>), then the attempt is opened.\<close>

definition begin_source :: "recovery_env \<Rightarrow> recovery_storage \<Rightarrow> address \<Rightarrow> compiled_recovery_config
    \<Rightarrow> recovery_action \<Rightarrow> (bytes \<times> bytes \<times> bytes32) rcv" where
  "begin_source e s account config action =
     (let v = ce_account e account
      in and_then (invoke (av_applied_doc v)) (\<lambda>doc.
         and_then (ok_or doc (Failed NotEnrolled)) (\<lambda>current.
         and_then (case action of
                     RA_Compromise \<Rightarrow>
                       and_then (ok_or (cc_baseline config) (Failed NoBaseline)) (\<lambda>hash.
                       ok_or (rs_baseline s (account, hash)) (Failed BaselineNotPublished))
                   | _ \<Rightarrow> Inr current) (\<lambda>source.
         and_then (case action of
                     RA_Compromise \<Rightarrow> ok_or (cc_baseline config) (Failed NoBaseline)
                   | _ \<Rightarrow> and_then (invoke (av_applied_doc_hash v)) (\<lambda>h. ok_or h (Failed NotEnrolled))) (\<lambda>source_hash.
         Inr (current, source, source_hash))))))"

definition begin_derive :: "recovery_env \<Rightarrow> address \<Rightarrow> recovery_action \<Rightarrow> replacement_set \<Rightarrow> bytes \<Rightarrow> bytes
    \<Rightarrow> derived_target rcv" where
  "begin_derive e account action rset current source =
     (let v = ce_account e account; n = ce_chain e
      in and_then (invoke (av_doc_compiler v)) (\<lambda>compiler.
         and_then (ok_or (ce_derive_target e compiler source current action rset) (Failed InvalidReplacements)) (\<lambda>derived.
         and_then (case rs_zk_enrollment rset of
                     [] \<Rightarrow> Inr ()
                   | z # _ \<Rightarrow> and_then (invoke (av_is_enrolled_id v (ze_id z))) (\<lambda>used.
                               if used then fail EnrollmentIdReused else Inr ())) (\<lambda>_.
         and_then (check_revoked v (dt_fingerprints derived)) (\<lambda>_.
         and_then (collect_results (\<lambda>c. map_err (\<lambda>_. Failed InvalidReplacements)
                     (fingerprint (rn_sha256 n) (rn_xdr n) c)) (dt_replaced derived)) (\<lambda>replaced.
         if \<not> replaced_credentials_leave replaced (dt_fingerprints derived) then fail ReplacedCredentialRetained
         else Inr derived))))))"

definition open_attempt :: "recovery_env \<Rightarrow> recovery_storage \<Rightarrow> address \<Rightarrow> compiled_recovery_config \<Rightarrow> recovery_action
    \<Rightarrow> bytes32 \<Rightarrow> bytes32 \<Rightarrow> derived_target \<Rightarrow> (u64 \<times> recovery_storage) rcv" where
  "open_attempt e s account config action rhash source_hash derived =
     (let target_bytes_hash = rn_sha256 (ce_chain e) (dt_canonical derived);
          i = or_default 0 (rs_next_attempt s account)
      in and_then (invoke (checked_add i 1)) (\<lambda>next.
         let s1 = s\<lparr>rs_next_attempt := (rs_next_attempt s)(account \<mapsto> next)\<rparr>;
             now = ce_now e
         in and_then (add_ledgers now (cc_expiry_ledgers config)) (\<lambda>evidence_deadline.
            and_then (add_ledgers evidence_deadline (cc_delay_ledgers config)) (\<lambda>d.
            and_then (add_ledgers d (cc_expiry_ledgers config)) (\<lambda>cancel_until.
            let a = \<lparr>at_id = i, at_action = action, at_epoch = epoch_of s1 account, at_created_at = now,
                     at_evidence_deadline = evidence_deadline, at_cancel_until = cancel_until,
                     at_authorized_at = 0, at_executable_after = 0, at_expires_at = 0,
                     at_source_doc_hash = source_hash, at_target_doc_hash = dt_doc_hash derived,
                     at_target_bytes_hash = target_bytes_hash,
                     at_target_config_hash = dt_config_hash derived, at_replacements_hash = rhash,
                     at_replaced = dt_replaced derived, at_state = St_Collecting, at_guardians = [],
                     at_zk_nullifier = None, at_cancel_guardians = [], at_cancel_zk = False\<rparr>
            in Inr (i, add_effect (Ev_AttemptBegun account i action (dt_doc_hash derived))
                         (save_attempt e s1 account a)))))))"

definition begin_attempt :: "recovery_env \<Rightarrow> recovery_storage \<Rightarrow> address \<Rightarrow> recovery_action \<Rightarrow> replacement_set
    \<Rightarrow> (u64 \<times> recovery_storage) rcv" where
  "begin_attempt e s account action rset =
     (let n = ce_chain e
      in and_then (require_config s account) (\<lambda>config.
         if authorized_live e s account \<noteq> None then fail AttemptAuthorized
         else and_then (map_err (\<lambda>_. Failed InvalidReplacements) (replacements_hash (rn_sha256 n) (rn_xdr n) rset)) (\<lambda>rhash.
         if (config_zk config \<noteq> None) \<noteq> (length (rs_zk_enrollment rset) = 1) then fail InvalidReplacements
         else and_then (begin_source e s account config action) (\<lambda>(current, source, source_hash).
         and_then (begin_derive e account action rset current source) (\<lambda>derived.
         open_attempt e s account config action rhash source_hash derived)))))"

text \<open>T4. Under \<open>Protected\<close> the account is frozen. Returns the attempt as it is to be saved.\<close>

definition freeze :: "recovery_env \<Rightarrow> recovery_storage \<Rightarrow> address \<Rightarrow> compiled_recovery_config \<Rightarrow> u64 \<Rightarrow> u32
    \<Rightarrow> recovery_storage rcv" where
  "freeze e s account config i expires_at =
     (if cc_profile config = CP_Protected
      then and_then (invoke (av_rcv_gate (ce_account e account) i expires_at)) (\<lambda>_.
           Inr (add_effect (Call_rcv_gate account i expires_at) s))
      else Inr s)"

definition promote :: "recovery_env \<Rightarrow> recovery_storage \<Rightarrow> address \<Rightarrow> compiled_recovery_config \<Rightarrow> attempt
    \<Rightarrow> (attempt \<times> recovery_storage) rcv" where
  "promote e s account config a =
     (if authorized_live e s account \<noteq> None then fail AttemptAuthorized
      else let v = ce_account e account
           in and_then (if at_action a = RA_LostKey
                        then and_then (invoke (av_applied_doc_hash v)) (\<lambda>h. Inr (h \<noteq> Some (at_source_doc_hash a)))
                        else Inr False) (\<lambda>stale.
              if stale
              then Inr (a\<lparr>at_state := St_Invalidated\<rparr>, add_effect (Ev_AttemptInvalidated account (at_id a)) s)
              else let now = ce_now e
                   in and_then (add_ledgers now (cc_delay_ledgers config)) (\<lambda>executable_after.
                      and_then (add_ledgers executable_after (cc_expiry_ledgers config)) (\<lambda>expires_at.
                      let a' = a\<lparr>at_state := St_Authorized, at_authorized_at := now,
                                 at_executable_after := executable_after, at_expires_at := expires_at\<rparr>;
                          next = or_default 0 (rs_next_attempt s account);
                          s1 = s\<lparr>rs_invalidate_below := (rs_invalidate_below s)(account \<mapsto> next),
                                 rs_authorized := (rs_authorized s)(account \<mapsto> at_id a)\<rparr>
                      in and_then (freeze e s1 account config (at_id a) expires_at) (\<lambda>s2.
                         Inr (a', add_effect (Ev_AttemptAuthorized account (at_id a) executable_after expires_at) s2))))))"

text \<open>T6 (counted) and T7: the count, and clearing what the authorization set.\<close>

definition count_cancel :: "recovery_storage \<Rightarrow> address \<Rightarrow> compiled_recovery_config \<Rightarrow> bool \<Rightarrow> recovery_storage rcv"
  where
  "count_cancel s account config counts =
     (if counts
      then let used = or_default 0 (rs_cancels s account)
           in if used \<ge> cc_max_cancels config then fail MaxCancelsReached
              else Inr (s\<lparr>rs_cancels := (rs_cancels s)(account \<mapsto> used + 1)\<rparr>)
      else Inr s)"

definition clear_authorized :: "recovery_env \<Rightarrow> recovery_storage \<Rightarrow> address \<Rightarrow> compiled_recovery_config \<Rightarrow> u64
    \<Rightarrow> bool \<Rightarrow> recovery_storage rcv" where
  "clear_authorized e s account config i was_authorized =
     (if was_authorized
      then let s1 = s\<lparr>rs_authorized := (rs_authorized s)(account := None)\<rparr>
           in if cc_profile config = CP_Protected
              then and_then (invoke (av_rcv_gate (ce_account e account) i 0)) (\<lambda>_.
                   Inr (add_effect (Call_rcv_gate account i 0) s1))
              else Inr s1
      else Inr s)"

definition cancel_attempt :: "recovery_env \<Rightarrow> recovery_storage \<Rightarrow> address \<Rightarrow> compiled_recovery_config \<Rightarrow> attempt
    \<Rightarrow> bool \<Rightarrow> recovery_storage rcv" where
  "cancel_attempt e s account config a counted =
     (let was_authorized = (at_state a = St_Authorized);
          counts = (counted \<and> was_authorized)
      in and_then (count_cancel s account config counts) (\<lambda>s1.
         and_then (clear_authorized e (save_attempt e s1 account (a\<lparr>at_state := St_Cancelled\<rparr>)) account config
                     (at_id a) was_authorized) (\<lambda>s2.
         Inr (add_effect (Ev_AttemptCancelled account (at_id a) counts) s2))))"

definition after_evidence :: "recovery_env \<Rightarrow> recovery_storage \<Rightarrow> address \<Rightarrow> compiled_recovery_config \<Rightarrow> attempt
    \<Rightarrow> evidence_domain \<Rightarrow> recovery_storage rcv" where
  "after_evidence e s account config a domain =
     (case domain of
        Initiate \<Rightarrow>
          and_then (if initiation_met config a then promote e s account config a else Inr (a, s)) (\<lambda>(a', s').
          Inr (save_attempt e s' account a'))
      | Cancel \<Rightarrow>
          if cancellation_met config a then cancel_attempt e s account config a True
          else Inr (save_attempt e s account a))"

text \<open>The \<open>enforce\<close> half of T5.\<close>

definition first_bytes :: "val list \<Rightarrow> bytes option" where
  "first_bytes args = (case args of V_Bytes b # _ \<Rightarrow> Some b | _ \<Rightarrow> None)"

definition authorize_completion :: "recovery_env \<Rightarrow> recovery_storage \<Rightarrow> auth_context \<Rightarrow> address
    \<Rightarrow> recovery_storage rcv" where
  "authorize_completion e s ctx account =
     (case ctx of
        Ctx_Contract c \<Rightarrow>
          if cc_contract c \<noteq> account \<or> cc_fn_name c \<noteq> ''apply_doc'' then fail WrongTarget
          else and_then (ok_or (first_bytes (cc_args c)) (Failed WrongTarget)) (\<lambda>target.
               and_then (require_config s account) (\<lambda>_.
               and_then (ok_or (authorized_live e s account) (Failed AttemptNotLive)) (\<lambda>a.
               if ce_now e < at_executable_after a then fail NotExecutableYet
               else if rn_sha256 (ce_chain e) target \<noteq> at_target_bytes_hash a then fail WrongTarget
               else Inr (s\<lparr>rs_completing := (rs_completing s)(account \<mapsto>
                            \<lparr>cm_attempt_id = at_id a, cm_target_doc_hash = at_target_doc_hash a,
                             cm_ledger = ce_now e\<rparr>)\<rparr>))))
      | _ \<Rightarrow> fail WrongTarget)"

text \<open>The \<open>rcv_sync\<close> half of T5.\<close>

definition complete :: "recovery_env \<Rightarrow> recovery_storage \<Rightarrow> address \<Rightarrow> completion_marker
    \<Rightarrow> compiled_recovery_config option \<Rightarrow> bytes32 \<Rightarrow> (sync_outcome \<times> recovery_storage) rcv" where
  "complete e s account marker new doc_hash =
     and_then (ok_or (authorized_live e s account) (Failed AttemptNotLive)) (\<lambda>a.
     if at_id a \<noteq> cm_attempt_id marker \<or> at_target_doc_hash a \<noteq> cm_target_doc_hash marker \<or>
        doc_hash \<noteq> at_target_doc_hash a
     then fail WrongTarget
     else and_then (ok_or new (Failed WrongTarget)) (\<lambda>new.
     if cc_controller new \<noteq> rn_self (ce_chain e) \<or> cc_config_hash new \<noteq> at_target_config_hash a
     then fail WrongTarget
     else and_then (case at_zk_nullifier a of
                      None \<Rightarrow> Inr s
                    | Some nullifier \<Rightarrow>
                        if rs_nullifier s (account, nullifier) \<noteq> None then fail NullifierSpent
                        else Inr (s\<lparr>rs_nullifier := (rs_nullifier s)((account, nullifier) \<mapsto> True)\<rparr>)) (\<lambda>s1.
     let a' = a\<lparr>at_state := St_Completed\<rparr>;
         s2 = save_attempt e s1 account a';
         s3 = s2\<lparr>rs_authorized := (rs_authorized s2)(account := None)\<rparr>
     in and_then (store_config s3 account new) (\<lambda>s4.
        Inr (Completed \<lparr>co_attempt_id = at_id a, co_replaced = at_replaced a\<rparr>,
             add_effect (Ev_RecoveryCompleted account (at_id a) (at_target_doc_hash a)) s4)))))"

section \<open>Invoker-only hooks\<close>

definition rcv_install :: "recovery_env \<Rightarrow> recovery_storage \<Rightarrow> bytes32 \<Rightarrow> context_rule \<Rightarrow> address
    \<Rightarrow> recovery_storage rcv" where
  "rcv_install e s install_params rl account =
     and_then (rcv_require_auth e account) (\<lambda>_.
     and_then (assert_recovery_rule rl account) (\<lambda>_.
     and_then (require_config s account) (\<lambda>config.
     if cc_config_hash config \<noteq> install_params then fail InvalidConfiguration else Inr s)))"

definition rcv_enforce :: "recovery_env \<Rightarrow> recovery_storage \<Rightarrow> auth_context \<Rightarrow> signer list \<Rightarrow> context_rule
    \<Rightarrow> address \<Rightarrow> recovery_storage rcv" where
  "rcv_enforce e s ctx authenticated_signers rl account =
     and_then (rcv_require_auth e account) (\<lambda>_.
     if authenticated_signers \<noteq> [] then fail MalformedContextRule
     else and_then (assert_recovery_rule rl account) (\<lambda>_. authorize_completion e s ctx account))"

definition rcv_uninstall :: "recovery_env \<Rightarrow> recovery_storage \<Rightarrow> address \<Rightarrow> recovery_storage rcv" where
  "rcv_uninstall e s account = and_then (rcv_require_auth e account) (\<lambda>_. Inr s)"

text \<open>
  \<open>rcv_sync\<close>: completion, then the classification of a change by the stored configuration and
  the new one (\<open>sync_change\<close>).
\<close>

definition sync_change :: "recovery_env \<Rightarrow> recovery_storage \<Rightarrow> address \<Rightarrow> compiled_recovery_config option
    \<Rightarrow> compiled_recovery_config option \<Rightarrow> u32 \<Rightarrow> (sync_outcome \<times> recovery_storage) rcv" where
  "sync_change e s account stored_opt new_opt approval_valid_until =
     (let here = rn_self (ce_chain e)
      in case stored_opt of
           None \<Rightarrow>
             (case new_opt of
                None \<Rightarrow> Inr (Sync_Unchanged, s)
              | Some new \<Rightarrow>
                  if cc_controller new \<noteq> here then fail InvalidConfiguration
                  else and_then (check_config account new) (\<lambda>_.
                       and_then (check_zk_wiring e None (config_zk new)) (\<lambda>_.
                       and_then (store_config s account new) (\<lambda>s'. Inr (Enrolled, s')))))
         | Some stored \<Rightarrow>
             if (case new_opt of
                   Some n \<Rightarrow> cc_controller n = here \<and> cc_config_hash n = cc_config_hash stored
                 | None \<Rightarrow> False)
             then Inr (Sync_Unchanged, s)
             else let change = (case new_opt of Some n \<Rightarrow> Change_Set (cc_config_hash n) | None \<Rightarrow> Change_Remove)
                  in and_then (if cc_profile stored = CP_Protected
                               then require_condition e s account stored (Subject_Reconfigure change) approval_valid_until
                               else Inr ()) (\<lambda>_.
                     case (case new_opt of Some n \<Rightarrow> if cc_controller n = here then Some n else None | None \<Rightarrow> None) of
                       Some n \<Rightarrow>
                         and_then (check_config account n) (\<lambda>_.
                         and_then (check_zk_wiring e (config_zk stored) (config_zk n)) (\<lambda>_.
                         and_then (store_config s account n) (\<lambda>s'. Inr (Reconfigured, s'))))
                     | None \<Rightarrow>
                         let s1 = s\<lparr>rs_config := (rs_config s)(account := None),
                                    rs_authorized := (rs_authorized s)(account := None)\<rparr>
                         in and_then (bump_epoch s1 account) (\<lambda>(epoch, s2).
                            Inr (Sync_Removed, add_effect (Ev_EpochAdvanced account epoch None) s2))))"

definition marker_current :: "recovery_env \<Rightarrow> recovery_storage \<Rightarrow> address \<Rightarrow> completion_marker \<Rightarrow> bytes32 \<Rightarrow> bool"
  where
  "marker_current e s account marker doc_hash \<longleftrightarrow>
     cm_target_doc_hash marker = doc_hash \<and> cm_ledger marker = ce_now e \<and>
     (case authorized_live e s account of Some a \<Rightarrow> at_id a = cm_attempt_id marker | None \<Rightarrow> False)"

definition rcv_sync :: "recovery_env \<Rightarrow> recovery_storage \<Rightarrow> address \<Rightarrow> bytes32 \<Rightarrow> compiled_recovery_config list
    \<Rightarrow> u32 \<Rightarrow> (sync_outcome \<times> recovery_storage) rcv" where
  "rcv_sync e s account doc_hash recovery approval_valid_until =
     and_then (rcv_require_auth e account) (\<lambda>_.
     let new = (case recovery of [] \<Rightarrow> None | c # _ \<Rightarrow> Some c);
         stored = rs_config s account;
         s1 = s\<lparr>rs_completing := (rs_completing s)(account := None)\<rparr>
     in case rs_completing s account of
          Some marker \<Rightarrow>
            if marker_current e s1 account marker doc_hash
            then complete e s1 account marker new doc_hash
            else if authorized_live e s1 account \<noteq> None then fail AttemptAuthorized
            else sync_change e s1 account stored new approval_valid_until
        | None \<Rightarrow>
            if authorized_live e s account \<noteq> None then fail AttemptAuthorized
            else sync_change e s account stored new approval_valid_until)"

definition rcv_cancel :: "recovery_env \<Rightarrow> recovery_storage \<Rightarrow> address \<Rightarrow> u64 \<Rightarrow> recovery_storage rcv" where
  "rcv_cancel e s account i =
     and_then (rcv_require_auth e account) (\<lambda>_.
     and_then (require_config s account) (\<lambda>config.
     if cc_profile config \<noteq> CP_Loss then fail OwnerCancelRefused
     else and_then (load_live e s account i) (\<lambda>a. cancel_attempt e s account config a False)))"

definition rcv_upgrade :: "recovery_env \<Rightarrow> recovery_storage \<Rightarrow> address \<Rightarrow> upgrade_step
    \<Rightarrow> (u64 \<times> recovery_storage) rcv" where
  "rcv_upgrade e s account step =
     and_then (rcv_require_auth e account) (\<lambda>_.
     and_then (require_config s account) (\<lambda>config.
     if authorized_live e s account \<noteq> None then fail AttemptAuthorized
     else case step of
            Step_Schedule subject approval_valid_until \<Rightarrow>
              and_then (if cc_profile config = CP_Protected
                        then require_condition e s account config (Subject_Upgrade subject) approval_valid_until
                        else Inr ()) (\<lambda>_. Inr (epoch_of s account, s))
          | Step_Execute recorded_epoch \<Rightarrow>
              if recorded_epoch \<noteq> epoch_of s account then fail StaleUpgrade
              else and_then (bump_epoch s account) (\<lambda>(epoch, s').
                   Inr (epoch, add_effect (Ev_EpochAdvanced account epoch (Some (cc_config_hash config))) s'))))"

section \<open>Attempts and evidence\<close>

definition begin_lost_key :: "recovery_env \<Rightarrow> recovery_storage \<Rightarrow> address \<Rightarrow> replacement_set
    \<Rightarrow> (u64 \<times> recovery_storage) rcv" where
  "begin_lost_key e s account rset = begin_attempt e s account RA_LostKey rset"

definition begin_compromise :: "recovery_env \<Rightarrow> recovery_storage \<Rightarrow> address \<Rightarrow> replacement_set
    \<Rightarrow> (u64 \<times> recovery_storage) rcv" where
  "begin_compromise e s account rset = begin_attempt e s account RA_Compromise rset"

text \<open>The list of the domain with one more guardian.\<close>

definition count_guardian :: "evidence_domain \<Rightarrow> address \<Rightarrow> attempt \<Rightarrow> attempt rcv" where
  "count_guardian domain guardian a =
     (case domain of
        Initiate \<Rightarrow>
          if at_state a \<noteq> St_Collecting then fail AttemptNotCollecting
          else if guardian \<in> set (at_guardians a) then fail AlreadyCounted
          else Inr (a\<lparr>at_guardians := at_guardians a @ [guardian]\<rparr>)
      | Cancel \<Rightarrow>
          if guardian \<in> set (at_cancel_guardians a) then fail AlreadyCounted
          else Inr (a\<lparr>at_cancel_guardians := at_cancel_guardians a @ [guardian]\<rparr>))"

definition submit_guardian :: "recovery_env \<Rightarrow> recovery_storage \<Rightarrow> address \<Rightarrow> u64 \<Rightarrow> evidence_domain \<Rightarrow> address
    \<Rightarrow> recovery_storage rcv" where
  "submit_guardian e s account i domain guardian =
     and_then (require_config s account) (\<lambda>config.
     and_then (ok_or (config_guardians config) (Failed ModeHasNoGuardians)) (\<lambda>g.
     if guardian \<notin> set (cg_guardians g) then fail NotAGuardian
     else and_then (load_live e s account i) (\<lambda>a.
     and_then (count_guardian domain guardian a) (\<lambda>a'.
     and_then (attempt_statement (ce_chain e) account config a' domain) (\<lambda>st.
     and_then (rcv_check_fresh e st) (\<lambda>_.
     and_then (rcv_digest (ce_chain e) st) (\<lambda>d.
     and_then (require (ce_auth_for_args e guardian d) Unauthorized) (\<lambda>_.
     after_evidence e s account config a' domain))))))))"

definition proof_uncounted :: "evidence_domain \<Rightarrow> attempt \<Rightarrow> unit rcv" where
  "proof_uncounted domain a =
     (case domain of
        Initiate \<Rightarrow>
          if at_state a \<noteq> St_Collecting then fail AttemptNotCollecting
          else if at_zk_nullifier a \<noteq> None then fail AlreadyCounted else Inr ()
      | Cancel \<Rightarrow> if at_cancel_zk a then fail AlreadyCounted else Inr ())"

definition count_proof :: "evidence_domain \<Rightarrow> zk_evidence \<Rightarrow> attempt \<Rightarrow> attempt" where
  "count_proof domain ev a =
     (case domain of Initiate \<Rightarrow> a\<lparr>at_zk_nullifier := Some (ev_nullifier ev)\<rparr>
                   | Cancel \<Rightarrow> a\<lparr>at_cancel_zk := True\<rparr>)"

definition submit_zk :: "recovery_env \<Rightarrow> recovery_storage \<Rightarrow> address \<Rightarrow> u64 \<Rightarrow> evidence_domain \<Rightarrow> zk_evidence
    \<Rightarrow> recovery_storage rcv" where
  "submit_zk e s account i domain ev =
     and_then (require_config s account) (\<lambda>config.
     and_then (ok_or (config_zk config) (Failed ModeHasNoZk)) (\<lambda>factor.
     and_then (load_live e s account i) (\<lambda>a.
     and_then (proof_uncounted domain a) (\<lambda>_.
     and_then (attempt_statement (ce_chain e) account config a domain) (\<lambda>st.
     and_then (rcv_check_fresh e st) (\<lambda>_.
     and_then (verify_zk e s account factor st ev) (\<lambda>_.
     after_evidence e s account config (count_proof domain ev a) domain)))))))"

definition approve_change :: "recovery_env \<Rightarrow> recovery_storage \<Rightarrow> address \<Rightarrow> statement_subject \<Rightarrow> u32 \<Rightarrow> address
    \<Rightarrow> recovery_storage rcv" where
  "approve_change e s account subject valid_until guardian =
     and_then (require_config s account) (\<lambda>config.
     and_then (ok_or (config_guardians config) (Failed ModeHasNoGuardians)) (\<lambda>g.
     if guardian \<notin> set (cg_guardians g) then fail NotAGuardian
     else and_then (refuse_in_window e s account) (\<lambda>_.
     and_then (change_statement_for (ce_chain e) s account config subject valid_until) (\<lambda>st.
     and_then (rcv_check_fresh e st) (\<lambda>_.
     and_then (rcv_digest (ce_chain e) st) (\<lambda>d.
     let rec = or_default empty_approval (rs_approval s (account, d))
     in if guardian \<in> set (ca_guardians rec) then fail AlreadyCounted
        else and_then (require (ce_auth_for_args e guardian d) Unauthorized) (\<lambda>_.
             Inr (store_approval s account d (rec\<lparr>ca_guardians := ca_guardians rec @ [guardian]\<rparr>)))))))))"

definition submit_zk_change :: "recovery_env \<Rightarrow> recovery_storage \<Rightarrow> address \<Rightarrow> statement_subject \<Rightarrow> u32
    \<Rightarrow> zk_evidence \<Rightarrow> recovery_storage rcv" where
  "submit_zk_change e s account subject valid_until ev =
     and_then (require_config s account) (\<lambda>config.
     and_then (ok_or (config_zk config) (Failed ModeHasNoZk)) (\<lambda>factor.
     and_then (refuse_in_window e s account) (\<lambda>_.
     and_then (change_statement_for (ce_chain e) s account config subject valid_until) (\<lambda>st.
     and_then (rcv_check_fresh e st) (\<lambda>_.
     and_then (rcv_digest (ce_chain e) st) (\<lambda>d.
     let rec = or_default empty_approval (rs_approval s (account, d))
     in if ca_zk rec then fail AlreadyCounted
        else and_then (verify_zk e s account factor st ev) (\<lambda>_.
             Inr (store_approval s account d (rec\<lparr>ca_zk := True\<rparr>)))))))))"

definition publish_baseline :: "recovery_env \<Rightarrow> recovery_storage \<Rightarrow> address \<Rightarrow> bytes \<Rightarrow> recovery_storage rcv" where
  "publish_baseline e s account doc_json =
     and_then (require_config s account) (\<lambda>config.
     and_then (ok_or (cc_baseline config) (Failed NoBaseline)) (\<lambda>baseline.
     and_then (invoke (av_doc_compiler (ce_account e account))) (\<lambda>compiler.
     and_then (ok_or (ce_compile_doc e compiler doc_json) (Failed BaselineMismatch)) (\<lambda>compiled.
     if cd_doc_hash compiled \<noteq> baseline \<or> \<not> admin_survives (cd_rules compiled) then fail BaselineMismatch
     else Inr (s\<lparr>rs_baseline := (rs_baseline s)((account, baseline) \<mapsto> cd_canonical compiled)\<rparr>)))))"

section \<open>Views\<close>

definition next_attempt_id :: "recovery_storage \<Rightarrow> address \<Rightarrow> u64" where
  "next_attempt_id s account = or_default 0 (rs_next_attempt s account)"

definition attempt_live :: "recovery_env \<Rightarrow> recovery_storage \<Rightarrow> address \<Rightarrow> u64 \<Rightarrow> bool" where
  "attempt_live e s account i =
     (case load_attempt s account i of Some a \<Rightarrow> is_live e s account a | None \<Rightarrow> False)"

definition get_activity_gate :: "recovery_env \<Rightarrow> recovery_storage \<Rightarrow> address \<Rightarrow> activity_gate" where
  "get_activity_gate e s account =
     (let frozen_profile = (case rs_config s account of Some c \<Rightarrow> cc_profile c = CP_Protected | None \<Rightarrow> False)
      in case authorized_live e s account of
           Some a \<Rightarrow> \<lparr>ag_authorized_attempt = Some (at_id a), ag_frozen = frozen_profile, ag_until = at_expires_at a\<rparr>
         | None \<Rightarrow> \<lparr>ag_authorized_attempt = None, ag_frozen = False, ag_until = 0\<rparr>)"

definition statement_view :: "recovery_env \<Rightarrow> recovery_storage \<Rightarrow> address \<Rightarrow> u64 \<Rightarrow> evidence_domain
    \<Rightarrow> recovery_statement rcv" where
  "statement_view e s account i domain =
     and_then (require_config s account) (\<lambda>config.
     and_then (ok_or (load_attempt s account i) (Failed NoSuchAttempt)) (\<lambda>a.
     attempt_statement (ce_chain e) account config a domain))"

definition change_statement :: "recovery_env \<Rightarrow> recovery_storage \<Rightarrow> address \<Rightarrow> statement_subject \<Rightarrow> u32
    \<Rightarrow> recovery_statement rcv" where
  "change_statement e s account subject valid_until =
     and_then (require_config s account) (\<lambda>config.
     change_statement_for (ce_chain e) s account config subject valid_until)"

definition change_evidence :: "recovery_storage \<Rightarrow> address \<Rightarrow> bytes32 \<Rightarrow> change_approval" where
  "change_evidence s account dig = or_default empty_approval (rs_approval s (account, dig))"

definition nullifier_spent :: "recovery_storage \<Rightarrow> address \<Rightarrow> bytes32 \<Rightarrow> bool" where
  "nullifier_spent s account nullifier \<longleftrightarrow> rs_nullifier s (account, nullifier) \<noteq> None"

definition baseline_view :: "recovery_storage \<Rightarrow> address \<Rightarrow> bytes option" where
  "baseline_view s account =
     (case rs_config s account of
        None \<Rightarrow> None
      | Some c \<Rightarrow> (case cc_baseline c of None \<Rightarrow> None | Some hash \<Rightarrow> rs_baseline s (account, hash)))"

end
