(* ===== verification/Controller_Steps.thy ===== *)
theory Controller_Steps
  imports Controller
begin

text \<open>
  The calls of the recovery controller as a step relation: \<open>rcv_exec\<close> runs one call, \<open>rcv_reach\<close>
  holds of the states a history of successful calls and losses of temporary entries leads to.
  The per-account part of the storage is the tenant's \<open>slice\<close>; a call writes the slice of one
  account. The characteristic lemmas of the entry points are shared by the safety proofs.
\<close>

section \<open>Calls\<close>

datatype (plugins del: quickcheck_random quickcheck_exhaustive quickcheck_bounded_forall
    quickcheck_full_exhaustive quickcheck_narrowing size transfer lifting) rcv_call =
    C_install bytes32 context_rule address
  | C_enforce auth_context "signer list" context_rule address
  | C_uninstall address
  | C_sync address bytes32 "compiled_recovery_config list" u32
  | C_cancel address u64
  | C_upgrade address upgrade_step
  | C_begin_lost_key address replacement_set
  | C_begin_compromise address replacement_set
  | C_submit_guardian address u64 evidence_domain address
  | C_submit_zk address u64 evidence_domain zk_evidence
  | C_approve_change address statement_subject u32 address
  | C_submit_zk_change address statement_subject u32 zk_evidence
  | C_publish_baseline address bytes

definition drop_result :: "('a \<times> recovery_storage) rcv \<Rightarrow> recovery_storage rcv" where
  "drop_result m = and_then m (\<lambda>(_, s). Inr s)"

fun rcv_exec :: "recovery_env \<Rightarrow> recovery_storage \<Rightarrow> rcv_call \<Rightarrow> recovery_storage rcv" where
  "rcv_exec e s (C_install p rl a) = rcv_install e s p rl a"
| "rcv_exec e s (C_enforce ctx sg rl a) = rcv_enforce e s ctx sg rl a"
| "rcv_exec e s (C_uninstall a) = rcv_uninstall e s a"
| "rcv_exec e s (C_sync a h cs u) = drop_result (rcv_sync e s a h cs u)"
| "rcv_exec e s (C_cancel a i) = rcv_cancel e s a i"
| "rcv_exec e s (C_upgrade a st) = drop_result (rcv_upgrade e s a st)"
| "rcv_exec e s (C_begin_lost_key a rset) = drop_result (begin_lost_key e s a rset)"
| "rcv_exec e s (C_begin_compromise a rset) = drop_result (begin_compromise e s a rset)"
| "rcv_exec e s (C_submit_guardian a i d g) = submit_guardian e s a i d g"
| "rcv_exec e s (C_submit_zk a i d ev) = submit_zk e s a i d ev"
| "rcv_exec e s (C_approve_change a sj u g) = approve_change e s a sj u g"
| "rcv_exec e s (C_submit_zk_change a sj u ev) = submit_zk_change e s a sj u ev"
| "rcv_exec e s (C_publish_baseline a b) = publish_baseline e s a b"

fun call_account :: "rcv_call \<Rightarrow> address" where
  "call_account (C_install p rl a) = a"
| "call_account (C_enforce ctx sg rl a) = a"
| "call_account (C_uninstall a) = a"
| "call_account (C_sync a h cs u) = a"
| "call_account (C_cancel a i) = a"
| "call_account (C_upgrade a st) = a"
| "call_account (C_begin_lost_key a rset) = a"
| "call_account (C_begin_compromise a rset) = a"
| "call_account (C_submit_guardian a i d g) = a"
| "call_account (C_submit_zk a i d ev) = a"
| "call_account (C_approve_change a sj u g) = a"
| "call_account (C_submit_zk_change a sj u ev) = a"
| "call_account (C_publish_baseline a b) = a"

type_synonym history = "(recovery_env \<times> rcv_call) list"

text \<open>
  The states a history leads to: the newest call first, all in one chain. Losing a temporary
  entry is not a call.
\<close>

inductive rcv_reach :: "recovery_chain \<Rightarrow> history \<Rightarrow> recovery_storage \<Rightarrow> bool" for n where
  reach_init: "rcv_reach n [] initial_storage"
| reach_call: "rcv_reach n h s \<Longrightarrow> ce_chain e = n \<Longrightarrow> rcv_exec e s c = Inr s' \<Longrightarrow> rcv_reach n ((e, c) # h) s'"
| reach_lose_collecting: "rcv_reach n h s \<Longrightarrow> rcv_reach n h (s\<lparr>rs_collecting := (rs_collecting s)(k := None)\<rparr>)"
| reach_lose_marker: "rcv_reach n h s \<Longrightarrow> rcv_reach n h (s\<lparr>rs_completing := (rs_completing s)(a := None)\<rparr>)"

section \<open>The slice of an account\<close>

record slice =
  sl_config :: "compiled_recovery_config option"
  sl_epoch :: u64
  sl_next :: u64
  sl_below :: u64
  sl_authorized :: "u64 option"
  sl_cancels :: u32
  sl_attempt :: "u64 \<rightharpoonup> attempt"
  sl_collecting :: "u64 \<rightharpoonup> attempt"
  sl_completing :: "completion_marker option"
  sl_nullifier :: "bytes32 \<Rightarrow> bool"
  sl_approval :: "bytes32 \<rightharpoonup> change_approval"
  sl_baseline :: "bytes32 \<rightharpoonup> bytes"

definition slice_of :: "recovery_storage \<Rightarrow> address \<Rightarrow> slice" where
  "slice_of s a =
     \<lparr>sl_config = rs_config s a, sl_epoch = epoch_of s a, sl_next = next_attempt_id s a,
      sl_below = or_default 0 (rs_invalidate_below s a), sl_authorized = rs_authorized s a,
      sl_cancels = or_default 0 (rs_cancels s a), sl_attempt = (\<lambda>i. rs_attempt s (a, i)),
      sl_collecting = (\<lambda>i. rs_collecting s (a, i)), sl_completing = rs_completing s a,
      sl_nullifier = (\<lambda>x. rs_nullifier s (a, x) \<noteq> None), sl_approval = (\<lambda>d. rs_approval s (a, d)),
      sl_baseline = (\<lambda>d. rs_baseline s (a, d))\<rparr>"

lemma slice_of_simps [simp]:
  "sl_config (slice_of s a) = rs_config s a" "sl_epoch (slice_of s a) = epoch_of s a"
  "sl_next (slice_of s a) = next_attempt_id s a"
  "sl_below (slice_of s a) = or_default 0 (rs_invalidate_below s a)"
  "sl_authorized (slice_of s a) = rs_authorized s a" "sl_cancels (slice_of s a) = or_default 0 (rs_cancels s a)"
  "sl_attempt (slice_of s a) i = rs_attempt s (a, i)" "sl_collecting (slice_of s a) i = rs_collecting s (a, i)"
  "sl_completing (slice_of s a) = rs_completing s a"
  "sl_nullifier (slice_of s a) x \<longleftrightarrow> rs_nullifier s (a, x) \<noteq> None"
  "sl_approval (slice_of s a) d = rs_approval s (a, d)" "sl_baseline (slice_of s a) d = rs_baseline s (a, d)"
  by (simp_all add: slice_of_def)

lemma slice_add_effect [simp]: "slice_of (add_effect ev s) a = slice_of s a"
  by (simp add: slice_of_def add_effect_def epoch_of_def next_attempt_id_def)

text \<open>A state that only differs in what account \<open>b\<close> sees.\<close>

definition only_writes :: "address \<Rightarrow> recovery_storage \<Rightarrow> recovery_storage \<Rightarrow> bool" where
  "only_writes b s s' \<longleftrightarrow> (\<forall>a. a \<noteq> b \<longrightarrow> slice_of s' a = slice_of s a)"

lemma only_writes_trans: "only_writes b s s' \<Longrightarrow> only_writes b s' s'' \<Longrightarrow> only_writes b s s''"
  by (simp add: only_writes_def)

lemma only_writes_refl [simp]: "only_writes b s s"
  by (simp add: only_writes_def)

lemma only_writes_effect [simp]: "only_writes b s (add_effect ev s') \<longleftrightarrow> only_writes b s s'"
  by (simp add: only_writes_def)

lemma only_writes_updates:
  "only_writes b s (s\<lparr>rs_config := (rs_config s)(b := x1)\<rparr>)"
  "only_writes b s (s\<lparr>rs_epoch := (rs_epoch s)(b := x2)\<rparr>)"
  "only_writes b s (s\<lparr>rs_next_attempt := (rs_next_attempt s)(b := x3)\<rparr>)"
  "only_writes b s (s\<lparr>rs_authorized := (rs_authorized s)(b := x4)\<rparr>)"
  "only_writes b s (s\<lparr>rs_cancels := (rs_cancels s)(b := x5)\<rparr>)"
  "only_writes b s (s\<lparr>rs_completing := (rs_completing s)(b := x6)\<rparr>)"
  "only_writes b s (s\<lparr>rs_nullifier := (rs_nullifier s)((b, k) := x7)\<rparr>)"
  "only_writes b s (s\<lparr>rs_approval := (rs_approval s)((b, k) := x8)\<rparr>)"
  "only_writes b s (s\<lparr>rs_baseline := (rs_baseline s)((b, k) := x9)\<rparr>)"
  "only_writes b s (s\<lparr>rs_invalidate_below := (rs_invalidate_below s)(b := x10),
                      rs_authorized := (rs_authorized s)(b := x11)\<rparr>)"
  "only_writes b s (s\<lparr>rs_config := (rs_config s)(b := x1), rs_authorized := (rs_authorized s)(b := x4)\<rparr>)"
  by (simp_all add: only_writes_def slice_of_def epoch_of_def next_attempt_id_def)

lemma only_writes_save: "only_writes b s (save_attempt e s b x)"
  by (simp add: only_writes_def slice_of_def save_attempt_def epoch_of_def next_attempt_id_def Let_def)

lemma bump_epoch_Inr:
  "bump_epoch s a = Inr (n, s') \<longleftrightarrow>
     unat n = unat (epoch_of s a) + 1 \<and> s' = s\<lparr>rs_epoch := (rs_epoch s)(a \<mapsto> n)\<rparr>"
proof
  assume "bump_epoch s a = Inr (n, s')"
  then show "unat n = unat (epoch_of s a) + 1 \<and> s' = s\<lparr>rs_epoch := (rs_epoch s)(a \<mapsto> n)\<rparr>"
    by (auto simp: bump_epoch_def invoke_def result_simps dest: checked_add_SomeD)
next
  assume r: "unat n = unat (epoch_of s a) + 1 \<and> s' = s\<lparr>rs_epoch := (rs_epoch s)(a \<mapsto> n)\<rparr>"
  have "unat n < 2 ^ 64" using unsigned_less [where 'a = nat, of n] by simp
  then have c: "checked_add (epoch_of s a) 1 = Some (epoch_of s a + 1)" using r by (simp add: checked_add_def)
  then have "n = epoch_of s a + 1"
    using r checked_add_SomeD [OF c] by (simp add: word_unat_eq_iff)
  then show "bump_epoch s a = Inr (n, s')" using r c by (simp add: bump_epoch_def invoke_def)
qed


section \<open>The abstract tenant\<close>

text \<open>
  The controller as a client of one account sees it: one map of attempts, whichever storage holds
  them, the spent nullifiers as a set, and no effects.
\<close>

record tenant =
  t_config :: "compiled_recovery_config option"
  t_epoch :: u64
  t_next :: u64
  t_below :: u64
  t_authorized :: "u64 option"
  t_cancels :: u32
  t_attempts :: "u64 \<rightharpoonup> attempt"
  t_completing :: "completion_marker option"
  t_spent :: "bytes32 set"
  t_approval :: "bytes32 \<rightharpoonup> change_approval"
  t_baseline :: "bytes32 \<rightharpoonup> bytes"

definition tenant_of :: "recovery_storage \<Rightarrow> address \<Rightarrow> tenant" where
  "tenant_of s a =
     \<lparr>t_config = rs_config s a, t_epoch = epoch_of s a, t_next = next_attempt_id s a,
      t_below = or_default 0 (rs_invalidate_below s a), t_authorized = rs_authorized s a,
      t_cancels = or_default 0 (rs_cancels s a), t_attempts = load_attempt s a,
      t_completing = rs_completing s a, t_spent = {x. rs_nullifier s (a, x) \<noteq> None},
      t_approval = (\<lambda>d. rs_approval s (a, d)), t_baseline = (\<lambda>d. rs_baseline s (a, d))\<rparr>"

lemma tenant_of_simps [simp]:
  "t_config (tenant_of s a) = rs_config s a" "t_epoch (tenant_of s a) = epoch_of s a"
  "t_next (tenant_of s a) = next_attempt_id s a"
  "t_below (tenant_of s a) = or_default 0 (rs_invalidate_below s a)"
  "t_authorized (tenant_of s a) = rs_authorized s a" "t_cancels (tenant_of s a) = or_default 0 (rs_cancels s a)"
  "t_attempts (tenant_of s a) = load_attempt s a" "t_completing (tenant_of s a) = rs_completing s a"
  "t_spent (tenant_of s a) = {x. rs_nullifier s (a, x) \<noteq> None}"
  "t_approval (tenant_of s a) d = rs_approval s (a, d)" "t_baseline (tenant_of s a) d = rs_baseline s (a, d)"
  by (simp_all add: tenant_of_def)

lemma tenant_of_slice: "slice_of s a = slice_of s' a \<Longrightarrow> tenant_of s a = tenant_of s' a"
  by (simp add: slice_of_def tenant_of_def load_attempt_def fun_eq_iff split: option.split)

lemma tenant_add_effect [simp]: "tenant_of (add_effect ev s) a = tenant_of s a"
  by (rule tenant_of_slice) simp

lemma tenant_save:
  "tenant_of (save_attempt e s a x) a =
     (tenant_of s a)\<lparr>t_attempts := (load_attempt s a)(at_id x \<mapsto> x)\<rparr>"
  by (auto simp: tenant_of_def save_attempt_def Let_def epoch_of_def next_attempt_id_def load_attempt_def
      fun_eq_iff split: option.splits)

lemma tenant_updates:
  "tenant_of (s\<lparr>rs_config := (rs_config s)(a := x1)\<rparr>) a = (tenant_of s a)\<lparr>t_config := x1\<rparr>"
  "tenant_of (s\<lparr>rs_epoch := (rs_epoch s)(a := Some x2)\<rparr>) a = (tenant_of s a)\<lparr>t_epoch := x2\<rparr>"
  "tenant_of (s\<lparr>rs_next_attempt := (rs_next_attempt s)(a := Some x3)\<rparr>) a = (tenant_of s a)\<lparr>t_next := x3\<rparr>"
  "tenant_of (s\<lparr>rs_authorized := (rs_authorized s)(a := x4)\<rparr>) a = (tenant_of s a)\<lparr>t_authorized := x4\<rparr>"
  "tenant_of (s\<lparr>rs_cancels := (rs_cancels s)(a := Some x5)\<rparr>) a = (tenant_of s a)\<lparr>t_cancels := x5\<rparr>"
  "tenant_of (s\<lparr>rs_completing := (rs_completing s)(a := x6)\<rparr>) a = (tenant_of s a)\<lparr>t_completing := x6\<rparr>"
  "tenant_of (s\<lparr>rs_nullifier := (rs_nullifier s)((a, k) := Some x7)\<rparr>) a =
     (tenant_of s a)\<lparr>t_spent := insert k (t_spent (tenant_of s a))\<rparr>"
  "tenant_of (s\<lparr>rs_approval := (rs_approval s)((a, k) := x8)\<rparr>) a =
     (tenant_of s a)\<lparr>t_approval := (t_approval (tenant_of s a))(k := x8)\<rparr>"
  "tenant_of (s\<lparr>rs_baseline := (rs_baseline s)((a, k) := x9)\<rparr>) a =
     (tenant_of s a)\<lparr>t_baseline := (t_baseline (tenant_of s a))(k := x9)\<rparr>"
  "tenant_of (s\<lparr>rs_invalidate_below := (rs_invalidate_below s)(a := Some x10),
                rs_authorized := (rs_authorized s)(a := x11)\<rparr>) a =
     (tenant_of s a)\<lparr>t_below := x10, t_authorized := x11\<rparr>"
  "tenant_of (s\<lparr>rs_config := (rs_config s)(a := x1), rs_authorized := (rs_authorized s)(a := x4)\<rparr>) a =
     (tenant_of s a)\<lparr>t_config := x1, t_authorized := x4\<rparr>"
  by (simp_all add: tenant_of_def epoch_of_def next_attempt_id_def load_attempt_def or_default_def fun_eq_iff
      set_eq_iff split: option.split)

section \<open>Storage of attempts\<close>

text \<open>
  Where attempts are kept: under their own id, temporary storage holds none that was authorized,
  and the attempt named as authorized is in persistent storage and past collecting.
\<close>

definition placed :: "recovery_storage \<Rightarrow> address \<Rightarrow> bool" where
  "placed s a \<longleftrightarrow>
     (\<forall>i x. load_attempt s a i = Some x \<longrightarrow> at_id x = i) \<and>
     (\<forall>i x. rs_collecting s (a, i) = Some x \<longrightarrow> at_state x \<noteq> St_Authorized \<and> at_state x \<noteq> St_Completed) \<and>
     (\<forall>i. rs_authorized s a = Some i \<longrightarrow> (\<exists>x. rs_attempt s (a, i) = Some x \<and> at_state x \<noteq> St_Collecting))"

definition t_live :: "recovery_env \<Rightarrow> tenant \<Rightarrow> attempt \<Rightarrow> bool" where
  "t_live e t x \<longleftrightarrow>
     at_epoch x = t_epoch t \<and>
     (case at_state x of
        St_Collecting \<Rightarrow> t_below t \<le> at_id x \<and> ce_now e \<le> at_evidence_deadline x
      | St_Authorized \<Rightarrow> t_authorized t = Some (at_id x) \<and> ce_now e < at_expires_at x
      | _ \<Rightarrow> False)"

definition t_authorized_live :: "recovery_env \<Rightarrow> tenant \<Rightarrow> attempt option" where
  "t_authorized_live e t =
     (case t_authorized t of
        None \<Rightarrow> None
      | Some i \<Rightarrow> (case t_attempts t i of
                     Some x \<Rightarrow> if t_live e t x then Some x else None
                   | None \<Rightarrow> None))"

lemma is_live_tenant: "is_live e s a x \<longleftrightarrow> t_live e (tenant_of s a) x"
  by (simp add: is_live_def t_live_def Let_def split: attempt_state.split)

lemma authorized_live_tenant:
  assumes "placed s a"
  shows "authorized_live e s a = t_authorized_live e (tenant_of s a)"
proof (cases "rs_authorized s a")
  case (Some i)
  then obtain x where "rs_attempt s (a, i) = Some x" using assms by (auto simp: placed_def)
  then show ?thesis using Some
    by (simp add: authorized_live_def t_authorized_live_def is_live_tenant load_attempt_def)
qed (simp add: authorized_live_def t_authorized_live_def)

lemma authorized_live_Some:
  assumes "authorized_live e s a = Some x" "placed s a"
  shows "rs_authorized s a = Some (at_id x)" "rs_attempt s (a, at_id x) = Some x" "at_state x = St_Authorized"
    "at_epoch x = epoch_of s a" "ce_now e < at_expires_at x" "load_attempt s a (at_id x) = Some x"
proof -
  obtain i where i: "rs_authorized s a = Some i" "rs_attempt s (a, i) = Some x" "is_live e s a x"
    using assms(1) by (auto simp: authorized_live_def split: option.splits if_splits)
  then have l: "load_attempt s a i = Some x" by (simp add: load_attempt_def)
  then have "at_id x = i" "at_state x \<noteq> St_Collecting" using assms(2) i by (auto simp: placed_def)
  then show "rs_authorized s a = Some (at_id x)" "rs_attempt s (a, at_id x) = Some x" "at_state x = St_Authorized"
    "at_epoch x = epoch_of s a" "ce_now e < at_expires_at x" "load_attempt s a (at_id x) = Some x"
    using i l by (auto simp: is_live_tenant t_live_def split: attempt_state.splits)
qed

lemma load_live_Inr:
  "load_live e s a i = Inr x \<longleftrightarrow> load_attempt s a i = Some x \<and> t_live e (tenant_of s a) x"
  by (auto simp: load_live_def result_simps is_live_tenant fail_def)

lemma load_save: "load_attempt (save_attempt e s a x) a = (load_attempt s a)(at_id x \<mapsto> x)"
  using arg_cong [OF tenant_save [of e s a x], of t_attempts] by simp

lemma save_frame [simp]:
  "rs_authorized (save_attempt e s a x) = rs_authorized s" "rs_config (save_attempt e s a x) = rs_config s"
  "epoch_of (save_attempt e s a x) b = epoch_of s b" "rs_nullifier (save_attempt e s a x) = rs_nullifier s"
  by (simp_all add: save_attempt_def Let_def epoch_of_def)

lemma placed_save:
  assumes at: "\<forall>i y. load_attempt s a i = Some y \<longrightarrow> at_id y = i"
    and tmp: "\<forall>i y. rs_collecting s (a, i) = Some y \<longrightarrow> at_state y \<noteq> St_Authorized \<and> at_state y \<noteq> St_Completed"
    and other: "\<forall>i. rs_authorized s a = Some i \<and> i \<noteq> at_id x \<longrightarrow>
                  (\<exists>y. rs_attempt s (a, i) = Some y \<and> at_state y \<noteq> St_Collecting)"
    and self: "rs_authorized s a = Some (at_id x) \<Longrightarrow> at_state x \<noteq> St_Collecting \<and>
                  (at_state x = St_Authorized \<or> at_state x = St_Completed \<or> rs_attempt s (a, at_id x) \<noteq> None)"
  shows "placed (save_attempt e s a x) a"
  unfolding placed_def
proof (intro conjI allI impI)
  fix i y assume "load_attempt (save_attempt e s a x) a i = Some y"
  then show "at_id y = i" using at by (auto simp: load_save split: if_splits)
next
  fix i y assume "rs_collecting (save_attempt e s a x) (a, i) = Some y"
  then have "rs_collecting s (a, i) = Some y \<or> y = x \<and> at_state x \<noteq> St_Authorized \<and> at_state x \<noteq> St_Completed"
    by (auto simp: save_attempt_def Let_def split: if_splits)
  then have "at_state y \<noteq> St_Authorized \<and> at_state y \<noteq> St_Completed" using tmp by auto
  then show "at_state y \<noteq> St_Authorized" "at_state y \<noteq> St_Completed" by auto
next
  fix i assume "rs_authorized (save_attempt e s a x) a = Some i"
  then have i: "rs_authorized s a = Some i" by simp
  show "\<exists>y. rs_attempt (save_attempt e s a x) (a, i) = Some y \<and> at_state y \<noteq> St_Collecting"
  proof (cases "i = at_id x")
    case True
    then show ?thesis using i self by (auto simp: save_attempt_def Let_def)
  next
    case False
    then show ?thesis using i other by (simp add: save_attempt_def Let_def)
  qed
qed

lemma load_frame [simp]:
  "load_attempt (s\<lparr>rs_config := x1\<rparr>) a = load_attempt s a" "load_attempt (s\<lparr>rs_epoch := x2\<rparr>) a = load_attempt s a"
  "load_attempt (s\<lparr>rs_completing := x3\<rparr>) a = load_attempt s a"
  "load_attempt (s\<lparr>rs_nullifier := x4\<rparr>) a = load_attempt s a"
  "load_attempt (s\<lparr>rs_approval := x5\<rparr>) a = load_attempt s a"
  "load_attempt (s\<lparr>rs_baseline := x6\<rparr>) a = load_attempt s a"
  "load_attempt (s\<lparr>rs_cancels := x7\<rparr>) a = load_attempt s a"
  "load_attempt (s\<lparr>rs_next_attempt := x8\<rparr>) a = load_attempt s a"
  "load_attempt (s\<lparr>rs_effects := x9\<rparr>) a = load_attempt s a"
  "load_attempt (s\<lparr>rs_authorized := x10\<rparr>) a = load_attempt s a"
  "load_attempt (s\<lparr>rs_invalidate_below := x11\<rparr>) a = load_attempt s a"
  "load_attempt (add_effect ev s) a = load_attempt s a"
  by (simp_all add: load_attempt_def add_effect_def fun_eq_iff split: option.split)

lemma placed_updates:
  assumes "placed s a"
  shows "placed (s\<lparr>rs_config := x1\<rparr>) a" "placed (s\<lparr>rs_epoch := x2\<rparr>) a" "placed (s\<lparr>rs_completing := x3\<rparr>) a"
    "placed (s\<lparr>rs_nullifier := x4\<rparr>) a" "placed (s\<lparr>rs_approval := x5\<rparr>) a" "placed (s\<lparr>rs_baseline := x6\<rparr>) a"
    "placed (s\<lparr>rs_cancels := x7\<rparr>) a" "placed (s\<lparr>rs_next_attempt := x8\<rparr>) a" "placed (s\<lparr>rs_effects := x9\<rparr>) a"
    "placed (s\<lparr>rs_authorized := (rs_authorized s)(a := None)\<rparr>) a"
    "placed (s\<lparr>rs_config := x1, rs_authorized := (rs_authorized s)(a := None)\<rparr>) a"
  using assms by (simp_all add: placed_def)

lemma placed_effect [simp]: "placed (add_effect ev s) a = placed s a"
  by (simp add: placed_def) (simp add: add_effect_def)

lemma placed_slice: "slice_of s a = slice_of s' a \<Longrightarrow> placed s a = placed s' a"
  using tenant_of_slice [of s a s'] by (simp add: placed_def slice_of_def tenant_of_def fun_eq_iff)

end
