(* ===== verification/Controller_Spec.thy ===== *)
theory Controller_Spec
  imports Controller_Steps
begin

text \<open>
  The recovery state machine of one account as a specification: the transitions T1 to T9 on the
  abstract tenant, with what each needs, and the invariant that every reachable tenant keeps.
  The next theory shows that the entry points of the controller refine it.
\<close>

section \<open>Evidence\<close>

text \<open>
  One piece of evidence for an attempt in a domain: an enrolled guardian's authorization of the
  digest of the statement, or a proof the enrolled adapter accepts for it, each counted once.
\<close>

inductive adds_evidence :: "recovery_env \<Rightarrow> address \<Rightarrow> tenant \<Rightarrow> compiled_recovery_config \<Rightarrow> evidence_domain
    \<Rightarrow> attempt \<Rightarrow> attempt \<Rightarrow> bool" for e a t c where
  guardian_initiates:
    "config_guardians c = Some gs \<Longrightarrow> g \<in> set (cg_guardians gs) \<Longrightarrow> g \<notin> set (at_guardians x) \<Longrightarrow>
     at_state x = St_Collecting \<Longrightarrow> rcv_digest (ce_chain e) (initiation_statement (ce_chain e) a c x) = Inr d \<Longrightarrow>
     ce_auth_for_args e g d \<Longrightarrow>
     adds_evidence e a t c Initiate x (x\<lparr>at_guardians := at_guardians x @ [g]\<rparr>)"
| guardian_cancels:
    "config_guardians c = Some gs \<Longrightarrow> g \<in> set (cg_guardians gs) \<Longrightarrow> g \<notin> set (at_cancel_guardians x) \<Longrightarrow>
     attempt_statement (ce_chain e) a c x Cancel = Inr st \<Longrightarrow> rcv_digest (ce_chain e) st = Inr d \<Longrightarrow>
     ce_auth_for_args e g d \<Longrightarrow>
     adds_evidence e a t c Cancel x (x\<lparr>at_cancel_guardians := at_cancel_guardians x @ [g]\<rparr>)"
| proof_initiates:
    "config_zk c = Some z \<Longrightarrow> at_state x = St_Collecting \<Longrightarrow> at_zk_nullifier x = None \<Longrightarrow>
     ce_verify e (cz_adapter z) (initiation_statement (ce_chain e) a c x) (zk_factor_binding z) ev = Some () \<Longrightarrow>
     ev_nullifier ev \<notin> t_spent t \<Longrightarrow>
     adds_evidence e a t c Initiate x (x\<lparr>at_zk_nullifier := Some (ev_nullifier ev)\<rparr>)"
| proof_cancels:
    "config_zk c = Some z \<Longrightarrow> attempt_statement (ce_chain e) a c x Cancel = Inr st \<Longrightarrow>
     ce_verify e (cz_adapter z) st (zk_factor_binding z) ev = Some () \<Longrightarrow>
     adds_evidence e a t c Cancel x (x\<lparr>at_cancel_zk := True\<rparr>)"

text \<open>The evidence on record satisfies the condition of a configuration for a digest.\<close>

definition condition_recorded :: "tenant \<Rightarrow> compiled_recovery_config \<Rightarrow> bytes32 \<Rightarrow> bool" where
  "condition_recorded t c d \<longleftrightarrow>
     (\<exists>r. t_approval t d = Some r \<and>
        (\<forall>gs. config_guardians c = Some gs \<longrightarrow>
           cg_quorum gs \<le> (word_of_nat (length [g \<leftarrow> ca_guardians r. g \<in> set (cg_guardians gs)]) :: u32)) \<and>
        (config_zk c \<noteq> None \<longrightarrow> ca_zk r))"

text \<open>Under \<open>Protected\<close>, a change needs the recorded condition for its own statement.\<close>

definition change_allowed :: "recovery_env \<Rightarrow> address \<Rightarrow> tenant \<Rightarrow> compiled_recovery_config \<Rightarrow> statement_subject \<Rightarrow> bool"
  where
  "change_allowed e a t c subject \<longleftrightarrow>
     (cc_profile c = CP_Protected \<longrightarrow>
        (\<exists>u d. ce_now e \<le> u \<and>
           rcv_digest (ce_chain e) (make_statement (ce_chain e) a c (t_epoch t) u subject) = Inr d \<and>
           condition_recorded t c d))"

section \<open>Transitions\<close>

text \<open>
  An attempt is for a target that the account's document compiler derived when it was opened, and
  every credential it replaces leaves that target.
\<close>

definition derived_attempt :: "recovery_env \<Rightarrow> attempt \<Rightarrow> bool" where
  "derived_attempt e x \<longleftrightarrow>
     (\<exists>compiler source current rset d.
        ce_derive_target e compiler source current (at_action x) rset = Some d \<and>
        at_target_doc_hash x = dt_doc_hash d \<and> at_target_config_hash x = dt_config_hash d \<and>
        at_target_bytes_hash x = rn_sha256 (ce_chain e) (dt_canonical d) \<and> at_replaced x = dt_replaced d \<and>
        (\<forall>cr \<in> set (dt_replaced d). \<exists>f. fingerprint (rn_sha256 (ce_chain e)) (rn_xdr (ce_chain e)) cr = Inr f \<and>
           f \<notin> set (dt_fingerprints d)))"

definition fresh_attempt :: "recovery_env \<Rightarrow> tenant \<Rightarrow> compiled_recovery_config \<Rightarrow> attempt \<Rightarrow> bool" where
  "fresh_attempt e t c x \<longleftrightarrow>
     at_id x = t_next t \<and> at_epoch x = t_epoch t \<and> at_state x = St_Collecting \<and> at_created_at x = ce_now e \<and>
     at_action x \<in> {RA_LostKey, RA_Compromise} \<and> derived_attempt e x \<and>
     unat (at_evidence_deadline x) = unat (ce_now e) + unat (cc_expiry_ledgers c) \<and>
     unat (at_cancel_until x) = unat (at_evidence_deadline x) + unat (cc_delay_ledgers c) + unat (cc_expiry_ledgers c) \<and>
     at_guardians x = [] \<and> at_zk_nullifier x = None \<and> at_cancel_guardians x = [] \<and> \<not> at_cancel_zk x"

text \<open>The configuration after a change: set by this controller, or none.\<close>

definition change_of :: "compiled_recovery_config option \<Rightarrow> statement_subject" where
  "change_of new = Subject_Reconfigure (case new of Some c \<Rightarrow> Change_Set (cc_config_hash c) | None \<Rightarrow> Change_Remove)"

inductive tenant_step :: "recovery_env \<Rightarrow> address \<Rightarrow> tenant \<Rightarrow> tenant \<Rightarrow> bool" for e a t where
  stay: "tenant_step e a t t"
| open_attempt:
    "t_config t = Some c \<Longrightarrow> t_authorized_live e t = None \<Longrightarrow> fresh_attempt e t c x \<Longrightarrow>
     unat m = unat (t_next t) + 1 \<Longrightarrow>
     tenant_step e a t (t\<lparr>t_next := m, t_attempts := (t_attempts t)(at_id x \<mapsto> x)\<rparr>)"
| collect:
    "t_config t = Some c \<Longrightarrow> t_attempts t i = Some x \<Longrightarrow> t_live e t x \<Longrightarrow> adds_evidence e a t c domain x x' \<Longrightarrow>
     tenant_step e a t (t\<lparr>t_attempts := (t_attempts t)(i \<mapsto> x')\<rparr>)"
| authorize:
    "t_config t = Some c \<Longrightarrow> t_attempts t i = Some x \<Longrightarrow> t_live e t x \<Longrightarrow> adds_evidence e a t c Initiate x x' \<Longrightarrow>
     initiation_met c x' \<Longrightarrow> t_authorized_live e t = None \<Longrightarrow>
     unat ex = unat (ce_now e) + unat (cc_delay_ledgers c) \<Longrightarrow> unat xp = unat ex + unat (cc_expiry_ledgers c) \<Longrightarrow>
     tenant_step e a t (t\<lparr>t_below := t_next t, t_authorized := Some i,
       t_attempts := (t_attempts t)(i \<mapsto> x'\<lparr>at_state := St_Authorized, at_authorized_at := ce_now e,
                                           at_executable_after := ex, at_expires_at := xp\<rparr>)\<rparr>)"
| invalidate:
    "t_config t = Some c \<Longrightarrow> t_attempts t i = Some x \<Longrightarrow> t_live e t x \<Longrightarrow> adds_evidence e a t c Initiate x x' \<Longrightarrow>
     at_action x = RA_LostKey \<Longrightarrow>
     tenant_step e a t (t\<lparr>t_attempts := (t_attempts t)(i \<mapsto> x'\<lparr>at_state := St_Invalidated\<rparr>)\<rparr>)"
| cancel_by_evidence:
    "t_config t = Some c \<Longrightarrow> t_attempts t i = Some x \<Longrightarrow> t_live e t x \<Longrightarrow> adds_evidence e a t c Cancel x x' \<Longrightarrow>
     cancellation_met c x' \<Longrightarrow>
     (if at_state x = St_Authorized
      then t_cancels t < cc_max_cancels c \<and> k = t_cancels t + 1 \<and> au = None
      else k = t_cancels t \<and> au = t_authorized t) \<Longrightarrow>
     tenant_step e a t (t\<lparr>t_authorized := au, t_cancels := k,
                          t_attempts := (t_attempts t)(i \<mapsto> x'\<lparr>at_state := St_Cancelled\<rparr>)\<rparr>)"
| cancel_by_owner:
    "t_config t = Some c \<Longrightarrow> t_attempts t i = Some x \<Longrightarrow> t_live e t x \<Longrightarrow> ce_auth e a \<Longrightarrow> cc_profile c = CP_Loss \<Longrightarrow>
     au = (if at_state x = St_Authorized then None else t_authorized t) \<Longrightarrow>
     tenant_step e a t (t\<lparr>t_authorized := au, t_attempts := (t_attempts t)(i \<mapsto> x\<lparr>at_state := St_Cancelled\<rparr>)\<rparr>)"
| mark:
    "ce_auth e a \<Longrightarrow> t_authorized_live e t = Some x \<Longrightarrow> at_executable_after x \<le> ce_now e \<Longrightarrow>
     tenant_step e a t (t\<lparr>t_completing := Some \<lparr>cm_attempt_id = at_id x, cm_target_doc_hash = at_target_doc_hash x,
                                               cm_ledger = ce_now e\<rparr>\<rparr>)"
| unmark: "ce_auth e a \<Longrightarrow> tenant_step e a t (t\<lparr>t_completing := None\<rparr>)"
| complete_attempt:
    "ce_auth e a \<Longrightarrow> t_completing t = Some m \<Longrightarrow> cm_ledger m = ce_now e \<Longrightarrow> t_authorized_live e t = Some x \<Longrightarrow>
     cm_attempt_id m = at_id x \<Longrightarrow> cm_target_doc_hash m = at_target_doc_hash x \<Longrightarrow>
     cc_controller new = rn_self (ce_chain e) \<Longrightarrow> cc_config_hash new = at_target_config_hash x \<Longrightarrow>
     set_option (at_zk_nullifier x) \<inter> t_spent t = {} \<Longrightarrow> unat ep = unat (t_epoch t) + 1 \<Longrightarrow>
     tenant_step e a t (t\<lparr>t_completing := None, t_spent := t_spent t \<union> set_option (at_zk_nullifier x),
       t_attempts := (t_attempts t)(at_id x \<mapsto> x\<lparr>at_state := St_Completed\<rparr>), t_authorized := None,
       t_config := Some new, t_epoch := ep\<rparr>)"
| enroll:
    "ce_auth e a \<Longrightarrow> t_config t = None \<Longrightarrow> t_authorized_live e t = None \<Longrightarrow> check_config a new = Inr () \<Longrightarrow>
     cc_controller new = rn_self (ce_chain e) \<Longrightarrow> unat ep = unat (t_epoch t) + 1 \<Longrightarrow>
     tenant_step e a t (t\<lparr>t_completing := None, t_config := Some new, t_epoch := ep\<rparr>)"
| reconfigure:
    "ce_auth e a \<Longrightarrow> t_config t = Some c \<Longrightarrow> t_authorized_live e t = None \<Longrightarrow>
     change_allowed e a t c (change_of (Some new)) \<Longrightarrow> check_config a new = Inr () \<Longrightarrow>
     zk_factor_transition_ok (config_zk c) (config_zk new) \<Longrightarrow>
     cc_controller new = rn_self (ce_chain e) \<Longrightarrow> unat ep = unat (t_epoch t) + 1 \<Longrightarrow>
     tenant_step e a t (t\<lparr>t_completing := None, t_config := Some new, t_epoch := ep\<rparr>)"
| remove:
    "ce_auth e a \<Longrightarrow> t_config t = Some c \<Longrightarrow> t_authorized_live e t = None \<Longrightarrow>
     change_allowed e a t c (change_of new) \<Longrightarrow>
     (\<forall>n. new = Some n \<longrightarrow> cc_controller n \<noteq> rn_self (ce_chain e)) \<Longrightarrow> unat ep = unat (t_epoch t) + 1 \<Longrightarrow>
     tenant_step e a t (t\<lparr>t_completing := None, t_config := None, t_authorized := None, t_epoch := ep\<rparr>)"
| upgrade:
    "ce_auth e a \<Longrightarrow> t_config t = Some c \<Longrightarrow> t_authorized_live e t = None \<Longrightarrow> unat ep = unat (t_epoch t) + 1 \<Longrightarrow>
     tenant_step e a t (t\<lparr>t_epoch := ep\<rparr>)"
| approve_by_guardian:
    "t_config t = Some c \<Longrightarrow> t_authorized_live e t = None \<Longrightarrow> config_guardians c = Some gs \<Longrightarrow>
     g \<in> set (cg_guardians gs) \<Longrightarrow> r = or_default empty_approval (t_approval t d) \<Longrightarrow> g \<notin> set (ca_guardians r) \<Longrightarrow>
     ce_auth_for_args e g d \<Longrightarrow>
     tenant_step e a t (t\<lparr>t_approval := (t_approval t)(d \<mapsto> r\<lparr>ca_guardians := ca_guardians r @ [g]\<rparr>)\<rparr>)"
| approve_by_proof:
    "t_config t = Some c \<Longrightarrow> t_authorized_live e t = None \<Longrightarrow> config_zk c = Some z \<Longrightarrow>
     r = or_default empty_approval (t_approval t d) \<Longrightarrow> st = make_statement (ce_chain e) a c (t_epoch t) u subject \<Longrightarrow>
     rcv_digest (ce_chain e) st = Inr d \<Longrightarrow>
     ce_verify e (cz_adapter z) st (zk_factor_binding z) ev = Some () \<Longrightarrow>
     tenant_step e a t (t\<lparr>t_approval := (t_approval t)(d \<mapsto> r\<lparr>ca_zk := True\<rparr>)\<rparr>)"
| publish: "tenant_step e a t (t\<lparr>t_baseline := b\<rparr>)"

text \<open>Reachable tenants, with the environments of the calls so far, newest first.\<close>

definition initial_tenant :: tenant where
  "initial_tenant = \<lparr>t_config = None, t_epoch = 0, t_next = 0, t_below = 0, t_authorized = None, t_cancels = 0,
     t_attempts = Map.empty, t_completing = None, t_spent = {}, t_approval = Map.empty, t_baseline = Map.empty\<rparr>"

inductive tenant_reach :: "recovery_chain \<Rightarrow> address \<Rightarrow> recovery_env list \<Rightarrow> tenant \<Rightarrow> bool" for n a where
  t_init: "tenant_reach n a [] initial_tenant"
| t_step: "tenant_reach n a h t \<Longrightarrow> ce_chain e = n \<Longrightarrow> tenant_step e a t t' \<Longrightarrow> tenant_reach n a (e # h) t'"
| t_lose_attempt:
    "tenant_reach n a h t \<Longrightarrow> t_attempts t i = Some x \<Longrightarrow> at_state x \<noteq> St_Authorized \<Longrightarrow> at_state x \<noteq> St_Completed \<Longrightarrow>
     t_authorized t \<noteq> Some i \<Longrightarrow> tenant_reach n a h (t\<lparr>t_attempts := (t_attempts t)(i := None)\<rparr>)"
| t_lose_marker: "tenant_reach n a h t \<Longrightarrow> tenant_reach n a h (t\<lparr>t_completing := None\<rparr>)"


section \<open>The invariant\<close>

definition approved :: "recovery_env list \<Rightarrow> address \<Rightarrow> bytes32 \<Rightarrow> bool" where
  "approved h g d \<longleftrightarrow> (\<exists>e \<in> set h. ce_auth_for_args e g d)"

definition proved :: "recovery_env list \<Rightarrow> compiled_zk_factor \<Rightarrow> recovery_statement \<Rightarrow> bytes32 \<Rightarrow> bool" where
  "proved h z st k \<longleftrightarrow>
     (\<exists>e \<in> set h. \<exists>ev. ce_verify e (cz_adapter z) st (zk_factor_binding z) ev = Some () \<and> ev_nullifier ev = k)"

definition enrolled_guardian :: "compiled_recovery_config \<Rightarrow> address \<Rightarrow> bool" where
  "enrolled_guardian c g \<longleftrightarrow> (\<exists>gs. config_guardians c = Some gs \<and> g \<in> set (cg_guardians gs))"

text \<open>All evidence counted for an attempt is of enrolled factors, for its own statements.\<close>

definition evidence_ok :: "recovery_chain \<Rightarrow> address \<Rightarrow> recovery_env list \<Rightarrow> compiled_recovery_config \<Rightarrow> attempt \<Rightarrow> bool"
  where
  "evidence_ok n a h c x \<longleftrightarrow>
     distinct (at_guardians x) \<and> distinct (at_cancel_guardians x) \<and>
     (\<forall>g \<in> set (at_guardians x). enrolled_guardian c g \<and>
        (\<exists>d. rcv_digest n (initiation_statement n a c x) = Inr d \<and> approved h g d)) \<and>
     (\<forall>k. at_zk_nullifier x = Some k \<longrightarrow>
        (\<exists>z. config_zk c = Some z \<and> proved h z (initiation_statement n a c x) k)) \<and>
     (\<forall>g \<in> set (at_cancel_guardians x). enrolled_guardian c g \<and>
        (\<exists>st d. attempt_statement n a c x Cancel = Inr st \<and> rcv_digest n st = Inr d \<and> approved h g d)) \<and>
     (at_cancel_zk x \<longrightarrow>
        (\<exists>z st k. config_zk c = Some z \<and> attempt_statement n a c x Cancel = Inr st \<and> proved h z st k))"

text \<open>An authorized attempt met its condition before its deadline, and its windows follow from then.\<close>

definition window_ok :: "recovery_env list \<Rightarrow> compiled_recovery_config \<Rightarrow> attempt \<Rightarrow> bool" where
  "window_ok h c x \<longleftrightarrow>
     (at_state x = St_Authorized \<longrightarrow>
        initiation_met c x \<and> at_authorized_at x \<le> at_evidence_deadline x \<and>
        (\<exists>e \<in> set h. ce_now e = at_authorized_at x) \<and>
        unat (at_executable_after x) = unat (at_authorized_at x) + unat (cc_delay_ledgers c) \<and>
        unat (at_expires_at x) = unat (at_executable_after x) + unat (cc_expiry_ledgers c))"

definition attempt_ok :: "recovery_chain \<Rightarrow> address \<Rightarrow> recovery_env list \<Rightarrow> compiled_recovery_config option \<Rightarrow> u64 \<Rightarrow> u64
    \<Rightarrow> u64 \<Rightarrow> attempt \<Rightarrow> bool" where
  "attempt_ok n a h cfg ep nx i x \<longleftrightarrow>
     at_id x = i \<and> i < nx \<and> at_epoch x \<le> ep \<and> (\<exists>e \<in> set h. ce_chain e = n \<and> derived_attempt e x) \<and>
     (at_epoch x = ep \<longrightarrow> (\<exists>c. cfg = Some c \<and> evidence_ok n a h c x \<and> window_ok h c x))"

definition marker_ok :: "u64 \<Rightarrow> (u64 \<rightharpoonup> attempt) \<Rightarrow> completion_marker option \<Rightarrow> bool" where
  "marker_ok nx attempts mk \<longleftrightarrow>
     (\<forall>m. mk = Some m \<longrightarrow> cm_attempt_id m < nx \<and>
        (\<forall>x. attempts (cm_attempt_id m) = Some x \<longrightarrow>
           at_state x \<noteq> St_Collecting \<and> at_executable_after x \<le> cm_ledger m))"

definition pointer_ok :: "u64 \<Rightarrow> (u64 \<rightharpoonup> attempt) \<Rightarrow> u64 option \<Rightarrow> bool" where
  "pointer_ok nx attempts au \<longleftrightarrow>
     (\<forall>i. au = Some i \<longrightarrow> i < nx \<and> (\<forall>x. attempts i = Some x \<longrightarrow> at_state x \<noteq> St_Collecting))"

text \<open>
  A proof recorded for a change was accepted under the factor of a configuration of the account, for
  a change statement of that configuration and of its epoch; in the present epoch that is the
  present configuration.
\<close>

definition change_proved :: "recovery_chain \<Rightarrow> address \<Rightarrow> recovery_env list \<Rightarrow> compiled_recovery_config option \<Rightarrow> u64 \<Rightarrow> bytes32 \<Rightarrow> bool"
  where
  "change_proved n a h cfg ep d \<longleftrightarrow>
     (\<exists>c ep' u subject z k. ep' \<le> ep \<and> (ep' = ep \<longrightarrow> cfg = Some c) \<and> config_zk c = Some z \<and>
        rcv_digest n (make_statement n a c ep' u subject) = Inr d \<and> proved h z (make_statement n a c ep' u subject) k)"

definition approvals_ok :: "recovery_chain \<Rightarrow> address \<Rightarrow> recovery_env list \<Rightarrow> compiled_recovery_config option \<Rightarrow> u64
    \<Rightarrow> (bytes32 \<rightharpoonup> change_approval) \<Rightarrow> bool" where
  "approvals_ok n a h cfg ep ap \<longleftrightarrow>
     (\<forall>d r. ap d = Some r \<longrightarrow> distinct (ca_guardians r) \<and> (\<forall>g \<in> set (ca_guardians r). approved h g d) \<and>
        (ca_zk r \<longrightarrow> change_proved n a h cfg ep d))"

definition tenant_inv :: "recovery_chain \<Rightarrow> address \<Rightarrow> recovery_env list \<Rightarrow> tenant \<Rightarrow> bool" where
  "tenant_inv n a h t \<longleftrightarrow>
     (\<forall>i x. t_attempts t i = Some x \<longrightarrow> attempt_ok n a h (t_config t) (t_epoch t) (t_next t) i x) \<and>
     marker_ok (t_next t) (t_attempts t) (t_completing t) \<and>
     pointer_ok (t_next t) (t_attempts t) (t_authorized t) \<and>
     approvals_ok n a h (t_config t) (t_epoch t) (t_approval t) \<and> t_below t \<le> t_next t"

text \<open>More history keeps evidence.\<close>

lemma approved_mono: "approved h g d \<Longrightarrow> approved (e # h) g d"
  by (auto simp: approved_def)

lemma proved_mono: "proved h z st k \<Longrightarrow> proved (e # h) z st k"
  by (auto simp: proved_def)

lemma evidence_ok_mono: "evidence_ok n a h c x \<Longrightarrow> evidence_ok n a (e # h) c x"
  unfolding evidence_ok_def by (meson approved_mono proved_mono)

lemma window_ok_mono: "window_ok h c x \<Longrightarrow> window_ok (e # h) c x"
  by (auto simp: window_ok_def)

lemma attempt_ok_mono: "attempt_ok n a h cfg ep nx i x \<Longrightarrow> attempt_ok n a (e # h) cfg ep nx i x"
  by (auto simp: attempt_ok_def intro: evidence_ok_mono window_ok_mono)

lemma change_proved_mono: "change_proved n a h cfg ep d \<Longrightarrow> change_proved n a (e # h) cfg ep d"
  using proved_mono unfolding change_proved_def by blast

lemma approvals_ok_mono: "approvals_ok n a h cfg ep ap \<Longrightarrow> approvals_ok n a (e # h) cfg ep ap"
  unfolding approvals_ok_def by (meson approved_mono change_proved_mono)

lemma approvals_ok_bump:
  assumes "approvals_ok n a h cfg ep ap" "unat ep' = unat ep + 1"
  shows "approvals_ok n a h cfg' ep' ap"
proof -
  have lt: "k < ep'" if "k \<le> ep" for k using that assms(2) by (simp add: word_le_nat_alt word_less_nat_alt)
  have "change_proved n a h cfg' ep' d" if p: "change_proved n a h cfg ep d" for d
  proof -
    obtain c k u subject z nl where "k \<le> ep" "config_zk c = Some z" "rcv_digest n (make_statement n a c k u subject) = Inr d"
        "proved h z (make_statement n a c k u subject) nl"
      using p unfolding change_proved_def by blast
    then show ?thesis using lt [of k] unfolding change_proved_def
      by (intro exI [of _ c] exI [of _ k] exI [of _ u] exI [of _ subject] exI [of _ z] exI [of _ nl]) auto
  qed
  then show ?thesis using assms(1) unfolding approvals_ok_def by blast
qed

lemma tenant_inv_mono:
  assumes "tenant_inv n a h t"
  shows "tenant_inv n a (e # h) t"
  using assms unfolding tenant_inv_def by (meson approvals_ok_mono attempt_ok_mono)

text \<open>Statements do not depend on the evidence fields.\<close>

lemma statement_frame [simp]:
  "initiation_statement n a c (x\<lparr>at_guardians := y1\<rparr>) = initiation_statement n a c x"
  "initiation_statement n a c (x\<lparr>at_cancel_guardians := y1\<rparr>) = initiation_statement n a c x"
  "initiation_statement n a c (x\<lparr>at_zk_nullifier := y2\<rparr>) = initiation_statement n a c x"
  "initiation_statement n a c (x\<lparr>at_cancel_zk := y3\<rparr>) = initiation_statement n a c x"
  "initiation_statement n a c (x\<lparr>at_state := y4\<rparr>) = initiation_statement n a c x"
  "initiation_statement n a c (x\<lparr>at_state := y4, at_authorized_at := y5, at_executable_after := y6,
     at_expires_at := y7\<rparr>) = initiation_statement n a c x"
  by (simp_all add: initiation_statement_def)

lemma attempt_statement_frame [simp]:
  "attempt_statement n a c (x\<lparr>at_guardians := y1\<rparr>) dm = attempt_statement n a c x dm"
  "attempt_statement n a c (x\<lparr>at_cancel_guardians := y1\<rparr>) dm = attempt_statement n a c x dm"
  "attempt_statement n a c (x\<lparr>at_zk_nullifier := y2\<rparr>) dm = attempt_statement n a c x dm"
  "attempt_statement n a c (x\<lparr>at_cancel_zk := y3\<rparr>) dm = attempt_statement n a c x dm"
  "attempt_statement n a c (x\<lparr>at_state := y4\<rparr>) dm = attempt_statement n a c x dm"
  "attempt_statement n a c (x\<lparr>at_state := y4, at_authorized_at := y5, at_executable_after := y6,
     at_expires_at := y7\<rparr>) dm = attempt_statement n a c x dm"
  by (cases dm; simp add: attempt_statement_def)+

lemma evidence_ok_state [simp]:
  "evidence_ok n a h c (x\<lparr>at_state := y4\<rparr>) = evidence_ok n a h c x"
  "evidence_ok n a h c (x\<lparr>at_state := y4, at_authorized_at := y5, at_executable_after := y6,
     at_expires_at := y7\<rparr>) = evidence_ok n a h c x"
  by (simp_all add: evidence_ok_def)

text \<open>What a piece of evidence leaves alone.\<close>

definition same_target :: "attempt \<Rightarrow> attempt \<Rightarrow> bool" where
  "same_target x y \<longleftrightarrow>
     at_action y = at_action x \<and> at_target_doc_hash y = at_target_doc_hash x \<and> at_target_config_hash y = at_target_config_hash x \<and>
     at_target_bytes_hash y = at_target_bytes_hash x \<and> at_replaced y = at_replaced x"

lemma same_target_derived: "same_target x y \<Longrightarrow> derived_attempt e x \<Longrightarrow> derived_attempt e y"
  by (simp add: same_target_def derived_attempt_def)

lemma same_target_state [simp]:
  "same_target x (y\<lparr>at_state := y4\<rparr>) = same_target x y"
  "same_target x (y\<lparr>at_state := y4, at_authorized_at := y5, at_executable_after := y6, at_expires_at := y7\<rparr>) = same_target x y"
  "same_target x x"
  by (simp_all add: same_target_def)

definition same_attempt :: "attempt \<Rightarrow> attempt \<Rightarrow> bool" where
  "same_attempt x y \<longleftrightarrow>
     at_id y = at_id x \<and> at_epoch y = at_epoch x \<and> at_state y = at_state x \<and>
     at_evidence_deadline y = at_evidence_deadline x \<and> at_authorized_at y = at_authorized_at x \<and>
     at_executable_after y = at_executable_after x \<and> at_expires_at y = at_expires_at x \<and> same_target x y"

lemma same_attempt_target: "same_attempt x y \<Longrightarrow> same_target x y"
  by (simp add: same_attempt_def)

lemma adds_evidence_same: "adds_evidence e a t c dm x x' \<Longrightarrow> same_attempt x x'"
  by (induction rule: adds_evidence.induct) (simp_all add: same_attempt_def same_target_def)

lemma adds_evidence_ok:
  assumes "adds_evidence e a t c dm x x'" "evidence_ok (ce_chain e) a h c x"
  shows "evidence_ok (ce_chain e) a (e # h) c x'"
  using assms(1) evidence_ok_mono [OF assms(2), of e]
proof (induction rule: adds_evidence.induct)
  case (guardian_initiates gs g x d)
  then have "approved (e # h) g d" "enrolled_guardian c g" by (auto simp: approved_def enrolled_guardian_def)
  then show ?case using guardian_initiates by (auto simp: evidence_ok_def)
next
  case (guardian_cancels gs g x st d)
  then have "approved (e # h) g d" "enrolled_guardian c g" by (auto simp: approved_def enrolled_guardian_def)
  then show ?case using guardian_cancels by (auto simp: evidence_ok_def)
next
  case (proof_initiates z x ev)
  then have "proved (e # h) z (initiation_statement (ce_chain e) a c x) (ev_nullifier ev)"
    by (auto simp: proved_def)
  then show ?case using proof_initiates by (auto simp: evidence_ok_def)
next
  case (proof_cancels z x st ev)
  then have "proved (e # h) z st (ev_nullifier ev)" by (auto simp: proved_def)
  then show ?case using proof_cancels by (auto simp: evidence_ok_def)
qed


section \<open>Every transition keeps the invariant\<close>

lemma tenant_invD:
  assumes "tenant_inv n a h t"
  shows "t_attempts t i = Some x \<Longrightarrow> attempt_ok n a h (t_config t) (t_epoch t) (t_next t) i x"
    and "marker_ok (t_next t) (t_attempts t) (t_completing t)"
    and "pointer_ok (t_next t) (t_attempts t) (t_authorized t)"
    and "approvals_ok n a h (t_config t) (t_epoch t) (t_approval t)" and "t_below t \<le> t_next t"
  using assms by (auto simp: tenant_inv_def)

text \<open>An attempt past collecting stays so, with its window.\<close>

definition keeps_window :: "(u64 \<rightharpoonup> attempt) \<Rightarrow> u64 \<Rightarrow> attempt \<Rightarrow> bool" where
  "keeps_window attempts i x' \<longleftrightarrow>
     (\<forall>x. attempts i = Some x \<and> at_state x \<noteq> St_Collecting \<longrightarrow>
        at_state x' \<noteq> St_Collecting \<and> at_executable_after x' = at_executable_after x)"

lemma marker_ok_upd:
  "marker_ok nx attempts mk \<Longrightarrow> keeps_window attempts i x' \<Longrightarrow>
   (attempts i = None \<Longrightarrow> nx \<le> i) \<Longrightarrow> marker_ok nx (attempts(i \<mapsto> x')) mk"
  by (cases "attempts i") (auto simp: marker_ok_def keeps_window_def)

lemma pointer_ok_upd:
  "pointer_ok nx attempts au \<Longrightarrow> keeps_window attempts i x' \<Longrightarrow>
   (attempts i = None \<Longrightarrow> nx \<le> i) \<Longrightarrow> pointer_ok nx (attempts(i \<mapsto> x')) au"
  by (cases "attempts i") (auto simp: pointer_ok_def keeps_window_def)

lemma marker_ok_mono: "marker_ok nx attempts mk \<Longrightarrow> nx \<le> nx' \<Longrightarrow> marker_ok nx' attempts mk"
  by (auto simp: marker_ok_def)

lemma pointer_ok_mono: "pointer_ok nx attempts au \<Longrightarrow> nx \<le> nx' \<Longrightarrow> pointer_ok nx' attempts au"
  by (auto simp: pointer_ok_def)

lemma attempt_ok_next: "attempt_ok n a h cfg ep nx i x \<Longrightarrow> nx \<le> nx' \<Longrightarrow> attempt_ok n a h cfg ep nx' i x"
  by (auto simp: attempt_ok_def)

lemma attempt_ok_bump:
  "attempt_ok n a h cfg ep nx i x \<Longrightarrow> unat ep' = unat ep + 1 \<Longrightarrow> attempt_ok n a h cfg' ep' nx i x"
  by (auto simp: attempt_ok_def word_le_nat_alt)

lemma marker_ok_None [simp]: "marker_ok nx attempts None"
  by (simp add: marker_ok_def)

lemma pointer_ok_None [simp]: "pointer_ok nx attempts None"
  by (simp add: pointer_ok_def)

text \<open>The next id is above every id in use.\<close>

lemma unused_next: "tenant_inv n a h t \<Longrightarrow> t_attempts t (t_next t) = None"
  using tenant_invD(1) [of n a h t "t_next t"] by (cases "t_attempts t (t_next t)") (auto simp: attempt_ok_def)

text \<open>Replacing an attempt of the present epoch.\<close>

lemma tenant_inv_upd:
  assumes inv: "tenant_inv n a h t" and x: "t_attempts t i = Some x" "at_epoch x = t_epoch t" "t_config t = Some c"
    and x': "at_id x' = at_id x" "at_epoch x' = at_epoch x" "evidence_ok n a h c x'" "window_ok h c x'"
    and kw: "keeps_window (t_attempts t) i x'" and au: "au = t_authorized t \<or> au = None \<or> au = Some i \<and> at_state x' \<noteq> St_Collecting"
    and bl: "bl \<le> t_next t" and tg: "same_target x x'"
  shows "tenant_inv n a h (t\<lparr>t_below := bl, t_authorized := au, t_cancels := k, t_attempts := (t_attempts t)(i \<mapsto> x')\<rparr>)"
proof -
  have i: "i < t_next t" "at_id x = i" using tenant_invD(1) [OF inv x(1)] by (auto simp: attempt_ok_def)
  have ok: "attempt_ok n a h (t_config t) (t_epoch t) (t_next t) i x'"
    using i x x' tenant_invD(1) [OF inv x(1)] same_target_derived [OF tg] by (auto simp: attempt_ok_def)
  have some: "t_attempts t i = None \<Longrightarrow> t_next t \<le> i" using x by simp
  have "pointer_ok (t_next t) ((t_attempts t)(i \<mapsto> x')) au"
    using au pointer_ok_upd [OF tenant_invD(3) [OF inv] kw some] i by (auto simp: pointer_ok_def)
  then show ?thesis
    using ok tenant_invD(1) [OF inv] marker_ok_upd [OF tenant_invD(2) [OF inv] kw some]
      tenant_invD(4) [OF inv] bl
    by (auto simp: tenant_inv_def)
qed

lemma live_epoch: "t_live e t x \<Longrightarrow> at_epoch x = t_epoch t"
  by (simp add: t_live_def)

lemma attempt_evidence:
  assumes "tenant_inv n a h t" "t_attempts t i = Some x" "t_live e t x" "t_config t = Some c"
  shows "evidence_ok n a h c x" "window_ok h c x" "at_id x = i"
  using tenant_invD(1) [OF assms(1,2)] live_epoch [OF assms(3)] assms(4) by (auto simp: attempt_ok_def)

lemma authorized_live_SomeD:
  assumes "tenant_inv n a h t" "t_authorized_live e t = Some x"
  shows "t_attempts t (at_id x) = Some x" "t_authorized t = Some (at_id x)" "at_state x = St_Authorized"
    "t_live e t x" "at_epoch x = t_epoch t" "ce_now e < at_expires_at x"
proof -
  obtain i where i: "t_authorized t = Some i" "t_attempts t i = Some x" "t_live e t x"
    using assms(2) by (auto simp: t_authorized_live_def split: option.splits if_splits)
  have "at_id x = i" using tenant_invD(1) [OF assms(1) i(2)] by (simp add: attempt_ok_def)
  moreover have "at_state x \<noteq> St_Collecting" using tenant_invD(3) [OF assms(1)] i by (simp add: pointer_ok_def)
  ultimately show "t_attempts t (at_id x) = Some x" "t_authorized t = Some (at_id x)" "at_state x = St_Authorized"
    "t_live e t x" "at_epoch x = t_epoch t" "ce_now e < at_expires_at x"
    using i by (auto simp: t_live_def split: attempt_state.splits)
qed

text \<open>Bumping the epoch, whatever configuration follows.\<close>

lemma tenant_inv_bump:
  assumes inv: "tenant_inv n a h t" and ep: "unat ep = unat (t_epoch t) + 1" and au: "au = t_authorized t \<or> au = None"
    and mk: "mk = t_completing t \<or> mk = None"
  shows "tenant_inv n a h (t\<lparr>t_completing := mk, t_config := cfg, t_authorized := au, t_epoch := ep\<rparr>)"
proof -
  have "attempt_ok n a h cfg ep (t_next t) i x" if "t_attempts t i = Some x" for i x
    by (rule attempt_ok_bump [OF tenant_invD(1) [OF inv that] ep])
  then show ?thesis
    using tenant_invD(2,3,5) [OF inv] approvals_ok_bump [OF tenant_invD(4) [OF inv] ep] au mk by (auto simp: tenant_inv_def)
qed


lemma tenant_inv_complete:
  assumes inv: "tenant_inv n a h t" and x: "t_authorized_live e t = Some x" and ep: "unat ep = unat (t_epoch t) + 1"
  shows "tenant_inv n a h (t\<lparr>t_completing := None, t_spent := sp, t_attempts := (t_attempts t)(at_id x \<mapsto> x\<lparr>at_state := St_Completed\<rparr>),
           t_authorized := None, t_config := cfg, t_epoch := ep\<rparr>)"
proof -
  note xD = authorized_live_SomeD [OF inv x]
  have old: "attempt_ok n a h cfg ep (t_next t) i y" if "t_attempts t i = Some y" for i y
    by (rule attempt_ok_bump [OF tenant_invD(1) [OF inv that] ep])
  have "attempt_ok n a h cfg ep (t_next t) (at_id x) (x\<lparr>at_state := St_Completed\<rparr>)"
    using tenant_invD(1) [OF inv xD(1)] ep same_target_derived [of x "x\<lparr>at_state := St_Completed\<rparr>"]
    by (auto simp: attempt_ok_def word_le_nat_alt)
  moreover have "approvals_ok n a h cfg ep (t_approval t)" by (rule approvals_ok_bump [OF tenant_invD(4) [OF inv] ep])
  moreover have "marker_ok (t_next t) ((t_attempts t)(at_id x \<mapsto> x\<lparr>at_state := St_Completed\<rparr>)) None"
    "pointer_ok (t_next t) ((t_attempts t)(at_id x \<mapsto> x\<lparr>at_state := St_Completed\<rparr>)) None"
    by (simp_all add: marker_ok_def pointer_ok_def)
  ultimately show ?thesis using old tenant_invD(5) [OF inv] by (auto simp: tenant_inv_def)
qed

lemma tenant_inv_approval:
  assumes inv: "tenant_inv n a h t"
    and r: "distinct (ca_guardians r)" "\<forall>g \<in> set (ca_guardians r). approved h g d"
      "ca_zk r \<Longrightarrow> change_proved n a h (t_config t) (t_epoch t) d"
  shows "tenant_inv n a h (t\<lparr>t_approval := (t_approval t)(d \<mapsto> r)\<rparr>)"
  using tenant_invD [OF inv] r by (auto simp: tenant_inv_def approvals_ok_def)

lemma approval_default:
  assumes "tenant_inv n a h t" "r = or_default empty_approval (t_approval t d)"
  shows "distinct (ca_guardians r)" "\<forall>g \<in> set (ca_guardians r). approved h g d"
    "ca_zk r \<Longrightarrow> change_proved n a h (t_config t) (t_epoch t) d"
  using tenant_invD(4) [OF assms(1)] assms(2)
  by (cases "t_approval t d"; simp add: approvals_ok_def or_default_def empty_approval_def)+

lemma tenant_inv_open:
  assumes inv: "tenant_inv n a h t" and c: "t_config t = Some c" and x: "fresh_attempt e t c x"
    and m: "unat m = unat (t_next t) + 1" and e: "e \<in> set h" "ce_chain e = n"
  shows "tenant_inv n a h (t\<lparr>t_next := m, t_attempts := (t_attempts t)(at_id x \<mapsto> x)\<rparr>)"
proof -
  have le: "t_next t \<le> m" "t_next t < m" using m by (simp_all add: word_le_nat_alt word_less_nat_alt)
  have old: "attempt_ok n a h (t_config t) (t_epoch t) m i y" if "t_attempts t i = Some y" for i y
    by (rule attempt_ok_next [OF tenant_invD(1) [OF inv that] le(1)])
  have new: "attempt_ok n a h (t_config t) (t_epoch t) m (at_id x) x"
    using x c le(2) e by (auto simp: fresh_attempt_def attempt_ok_def evidence_ok_def window_ok_def)
  have fresh: "t_attempts t (at_id x) = None" "at_id x = t_next t"
    using x unused_next [OF inv] by (auto simp: fresh_attempt_def)
  have "marker_ok m ((t_attempts t)(at_id x \<mapsto> x)) (t_completing t)"
    "pointer_ok m ((t_attempts t)(at_id x \<mapsto> x)) (t_authorized t)"
    using tenant_invD(2,3) [OF inv] fresh le by (auto simp: marker_ok_def pointer_ok_def)
  then show ?thesis using old new tenant_invD(4,5) [OF inv] le by (auto simp: tenant_inv_def)
qed

text \<open>A live attempt with one more piece of evidence.\<close>

lemma evidence_added:
  assumes inv: "tenant_inv (ce_chain e) a h t" and c: "t_config t = Some c"
    and x: "t_attempts t i = Some x" "t_live e t x" and add: "adds_evidence e a t c dm x x'"
  shows "evidence_ok (ce_chain e) a (e # h) c x'" "window_ok (e # h) c x'" "same_attempt x x'" "at_id x = i"
    "keeps_window (t_attempts t) i x'"
proof -
  note ev = attempt_evidence [OF inv x c]
  show "evidence_ok (ce_chain e) a (e # h) c x'" by (rule adds_evidence_ok [OF add ev(1)])
  show sm: "same_attempt x x'" by (rule adds_evidence_same [OF add])
  have "initiation_met c x'" if "initiation_met c x"
    using add that by (cases rule: adds_evidence.cases) (auto simp: initiation_met_def is_none_or_def split: option.splits)
  then show "window_ok (e # h) c x'"
    using window_ok_mono [OF ev(2), of e] sm by (auto simp: window_ok_def same_attempt_def)
  show "at_id x = i" by (rule ev(3))
  show "keeps_window (t_attempts t) i x'" using sm x by (auto simp: keeps_window_def same_attempt_def)
qed

lemma tenant_step_inv:
  assumes "tenant_step e a t t'" "tenant_inv (ce_chain e) a h t"
  shows "tenant_inv (ce_chain e) a (e # h) t'"
proof -
  note inv = tenant_inv_mono [OF assms(2), of e]
  show ?thesis using assms(1)
  proof (cases rule: tenant_step.cases)
    case stay
    then show ?thesis using inv by simp
  next
    case (open_attempt c x m)
    then show ?thesis using tenant_inv_open [OF inv] by simp
  next
    case (collect c i x domain x')
    note ea = evidence_added [OF assms(2) collect(2-5)]
    show ?thesis
      using tenant_inv_upd [OF inv collect(3) live_epoch [OF collect(4)] collect(2) _ _ ea(1,2,5), of "t_authorized t" "t_below t" "t_cancels t"]
        ea(3) tenant_invD(5) [OF inv] collect(1) by (simp add: same_attempt_def)
  next
    case (authorize c i x x' ex xp)
    let ?y = "x'\<lparr>at_state := St_Authorized, at_authorized_at := ce_now e, at_executable_after := ex, at_expires_at := xp\<rparr>"
    note ea = evidence_added [OF assms(2) authorize(2-5)]
    have st: "at_state x = St_Collecting" using authorize(5) by (auto elim: adds_evidence.cases)
    have "ce_now e \<le> at_evidence_deadline x'"
      using authorize(4) st ea(3) by (simp add: t_live_def same_attempt_def)
    then have w: "window_ok (e # h) c ?y"
      using authorize(6,8,9) by (simp add: window_ok_def initiation_met_def)
    have kw: "keeps_window (t_attempts t) i ?y" using st authorize(3) by (simp add: keeps_window_def)
    show ?thesis
      using tenant_inv_upd [OF inv authorize(3) live_epoch [OF authorize(4)] authorize(2) _ _ _ w kw, of "Some i" "t_next t" "t_cancels t"]
        ea(1,3) authorize(1) by (simp add: same_attempt_def)
  next
    case (invalidate c i x x')
    note ea = evidence_added [OF assms(2) invalidate(2-5)]
    have "window_ok (e # h) c (x'\<lparr>at_state := St_Invalidated\<rparr>)" by (simp add: window_ok_def)
    moreover have "keeps_window (t_attempts t) i (x'\<lparr>at_state := St_Invalidated\<rparr>)"
      using ea(5) invalidate(3) by (simp add: keeps_window_def)
    ultimately show ?thesis
      using tenant_inv_upd [OF inv invalidate(3) live_epoch [OF invalidate(4)] invalidate(2),
          of "x'\<lparr>at_state := St_Invalidated\<rparr>" "t_authorized t" "t_below t" "t_cancels t"]
        ea(1,3) tenant_invD(5) [OF inv] invalidate(1) by (simp add: same_attempt_def)
  next
    case (cancel_by_evidence c i x x' k au)
    note ea = evidence_added [OF assms(2) cancel_by_evidence(2-5)]
    have "window_ok (e # h) c (x'\<lparr>at_state := St_Cancelled\<rparr>)" by (simp add: window_ok_def)
    moreover have "keeps_window (t_attempts t) i (x'\<lparr>at_state := St_Cancelled\<rparr>)"
      using ea(5) cancel_by_evidence(3) by (simp add: keeps_window_def)
    ultimately show ?thesis
      using tenant_inv_upd [OF inv cancel_by_evidence(3) live_epoch [OF cancel_by_evidence(4)] cancel_by_evidence(2),
          of "x'\<lparr>at_state := St_Cancelled\<rparr>" au "t_below t" k]
        ea(1,3) tenant_invD(5) [OF inv] cancel_by_evidence(1,7) by (simp add: same_attempt_def split: if_splits)
  next
    case (cancel_by_owner c i x au)
    note ev = attempt_evidence [OF inv cancel_by_owner(3,4,2)]
    have "window_ok (e # h) c (x\<lparr>at_state := St_Cancelled\<rparr>)" by (simp add: window_ok_def)
    moreover have "keeps_window (t_attempts t) i (x\<lparr>at_state := St_Cancelled\<rparr>)"
      using cancel_by_owner(3) by (simp add: keeps_window_def)
    ultimately show ?thesis
      using tenant_inv_upd [OF inv cancel_by_owner(3) live_epoch [OF cancel_by_owner(4)] cancel_by_owner(2),
          of "x\<lparr>at_state := St_Cancelled\<rparr>" au "t_below t" "t_cancels t"]
        ev tenant_invD(5) [OF inv] cancel_by_owner(1,7) by (simp split: if_splits)
  next
    case (mark x)
    note xD = authorized_live_SomeD [OF inv mark(3)]
    have "at_id x < t_next t" using tenant_invD(1) [OF inv xD(1)] by (simp add: attempt_ok_def)
    then have "marker_ok (t_next t) (t_attempts t) (Some \<lparr>cm_attempt_id = at_id x,
        cm_target_doc_hash = at_target_doc_hash x, cm_ledger = ce_now e\<rparr>)"
      using xD mark(4) by (simp add: marker_ok_def)
    then show ?thesis using inv mark(1) by (simp add: tenant_inv_def)
  next
    case unmark
    then show ?thesis using inv by (simp add: tenant_inv_def)
  next
    case (complete_attempt m x new ep)
    then show ?thesis using tenant_inv_complete [OF inv complete_attempt(5,11)] by simp
  next
    case (enroll new ep)
    then show ?thesis
      using tenant_inv_bump [OF inv enroll(7), of "t_authorized t" None "Some new"] by simp
  next
    case (reconfigure c new ep)
    then show ?thesis
      using tenant_inv_bump [OF inv reconfigure(9), of "t_authorized t" None "Some new"] by simp
  next
    case (remove c new ep)
    then show ?thesis using tenant_inv_bump [OF inv remove(7), of None None None] by simp
  next
    case (upgrade c ep)
    show ?thesis
      using tenant_inv_bump [OF inv upgrade(5), of "t_authorized t" "t_completing t" "t_config t"] upgrade(1) by simp
  next
    case (approve_by_guardian c gs g r d)
    have "approved (e # h) g d" using approve_by_guardian(8) by (simp add: approved_def)
    then show ?thesis
      using tenant_inv_approval [OF inv, of "r\<lparr>ca_guardians := ca_guardians r @ [g]\<rparr>" d]
        approval_default [OF inv approve_by_guardian(6)] approve_by_guardian(1,7) by auto
  next
    case (approve_by_proof c z r d st u subject ev)
    have "proved (e # h) z st (ev_nullifier ev)" using approve_by_proof(8) by (auto simp: proved_def)
    then have "change_proved (ce_chain e) a (e # h) (t_config t) (t_epoch t) d"
      using approve_by_proof(2,4,6,7) unfolding change_proved_def by blast
    then show ?thesis
      using tenant_inv_approval [OF inv, of "r\<lparr>ca_zk := True\<rparr>" d]
        approval_default(1,2) [OF inv approve_by_proof(5)] approve_by_proof(1) by auto
  next
    case (publish b)
    then show ?thesis using inv by (simp add: tenant_inv_def)
  qed
qed


lemma tenant_reach_inv: "tenant_reach n a h t \<Longrightarrow> tenant_inv n a h t"
proof (induction rule: tenant_reach.induct)
  case t_init
  then show ?case by (simp add: tenant_inv_def initial_tenant_def marker_ok_def pointer_ok_def approvals_ok_def)
next
  case (t_step h t e t')
  then show ?case using tenant_step_inv by blast
next
  case (t_lose_attempt h t i x)
  then show ?case by (auto simp: tenant_inv_def marker_ok_def pointer_ok_def)
next
  case (t_lose_marker h t)
  then show ?case by (simp add: tenant_inv_def)
qed

text \<open>Epochs and attempt ids only grow, and spent nullifiers stay spent.\<close>

lemma tenant_step_mono:
  assumes "tenant_step e a t t'"
  shows "t_epoch t \<le> t_epoch t' \<and> t_next t \<le> t_next t' \<and> t_spent t \<subseteq> t_spent t'"
  using assms by (cases rule: tenant_step.cases) (auto simp: word_le_nat_alt)

end
