(* ===== verification/Controller_Refines.thy ===== *)
theory Controller_Refines
  imports Controller_Spec
begin

text \<open>
  Every successful call of the controller is a transition of the specification for the account it
  names, and leaves every other account's storage alone. Reachable states of the controller are
  reachable tenants for each account.
\<close>

section \<open>Small steps\<close>

definition refines :: "recovery_env \<Rightarrow> address \<Rightarrow> recovery_storage \<Rightarrow> recovery_storage \<Rightarrow> bool" where
  "refines e a s s' \<longleftrightarrow>
     tenant_step e a (tenant_of s a) (tenant_of s' a) \<and> placed s' a \<and> only_writes a s s'"

lemma refines_stay: "placed s a \<Longrightarrow> refines e a s s"
  by (simp add: refines_def tenant_step.stay)

lemma refines_effect [simp]: "refines e a s (add_effect ev s') \<longleftrightarrow> refines e a s s'"
  by (simp add: refines_def)

lemma store_config_Inr:
  assumes "store_config s a c = Inr s'" "placed s a"
  shows "\<exists>ep. unat ep = unat (epoch_of s a) + 1 \<and>
    tenant_of s' a = (tenant_of s a)\<lparr>t_config := Some c, t_epoch := ep\<rparr> \<and> placed s' a \<and> only_writes a s s'"
proof -
  let ?s = "s\<lparr>rs_config := (rs_config s)(a \<mapsto> c)\<rparr>"
  obtain ep s2 where b: "bump_epoch ?s a = Inr (ep, s2)"
    and s': "s' = add_effect (Ev_EpochAdvanced a ep (Some (cc_config_hash c))) s2"
    using assms(1) by (auto simp: store_config_def result_simps)
  have ep: "unat ep = unat (epoch_of s a) + 1" "s2 = ?s\<lparr>rs_epoch := (rs_epoch ?s)(a \<mapsto> ep)\<rparr>"
    using b by (auto simp: bump_epoch_Inr epoch_of_def)
  have "only_writes a s s2"
    unfolding ep(2) by (rule only_writes_trans [OF only_writes_updates(1) only_writes_updates(2)])
  moreover have "tenant_of s2 a = (tenant_of s a)\<lparr>t_config := Some c, t_epoch := ep\<rparr>"
    unfolding ep(2) tenant_updates(2) tenant_updates(1) ..
  moreover have "placed s2 a" unfolding ep(2) by (intro placed_updates assms(2))
  ultimately show ?thesis using ep(1) s' by (intro exI [of _ ep]) simp
qed

lemma placed_save_live:
  assumes "placed s a" "load_attempt s a i = Some x" "at_id y = i"
    "at_state y = at_state x \<or> at_state y \<noteq> St_Collecting"
  shows "placed (save_attempt e s a y) a"
proof (rule placed_save)
  show "\<forall>i y. load_attempt s a i = Some y \<longrightarrow> at_id y = i"
    "\<forall>i y. rs_collecting s (a, i) = Some y \<longrightarrow> at_state y \<noteq> St_Authorized \<and> at_state y \<noteq> St_Completed"
    "\<forall>i. rs_authorized s a = Some i \<and> i \<noteq> at_id y \<longrightarrow> (\<exists>y. rs_attempt s (a, i) = Some y \<and> at_state y \<noteq> St_Collecting)"
    using assms(1) by (auto simp: placed_def)
  assume "rs_authorized s a = Some (at_id y)"
  then obtain z where z: "rs_attempt s (a, i) = Some z" "at_state z \<noteq> St_Collecting"
    using assms(1,3) by (auto simp: placed_def)
  then have "z = x" using assms(2) by (simp add: load_attempt_def)
  then show "at_state y \<noteq> St_Collecting \<and>
      (at_state y = St_Authorized \<or> at_state y = St_Completed \<or> rs_attempt s (a, at_id y) \<noteq> None)"
    using z assms(3,4) by auto
qed

lemma live_indep [simp]: "t_live e (t\<lparr>t_completing := mk\<rparr>) x = t_live e t x"
  by (simp add: t_live_def split: attempt_state.split)

lemma authorized_live_indep [simp]: "t_authorized_live e (t\<lparr>t_completing := mk\<rparr>) = t_authorized_live e t"
  by (simp add: t_authorized_live_def split: option.split)

section \<open>Evidence\<close>

lemma count_cancel_Inr:
  assumes "count_cancel s a c counts = Inr s1" "placed s a"
  shows "counts \<Longrightarrow> t_cancels (tenant_of s a) < cc_max_cancels c"
    and "tenant_of s1 a = (tenant_of s a)\<lparr>t_cancels := (if counts then t_cancels (tenant_of s a) + 1 else t_cancels (tenant_of s a))\<rparr>"
    and "load_attempt s1 a = load_attempt s a" "placed s1 a" "only_writes a s s1"
  using assms by (auto simp: count_cancel_def Let_def fail_def tenant_updates placed_updates only_writes_updates
      split: if_splits)

lemma clear_authorized_Inr:
  assumes "clear_authorized e s a c i auth = Inr s1" "placed s a"
  shows "tenant_of s1 a = (tenant_of s a)\<lparr>t_authorized := (if auth then None else t_authorized (tenant_of s a))\<rparr>"
    "placed s1 a" "only_writes a s s1"
  using assms by (auto simp: clear_authorized_def Let_def result_simps tenant_updates placed_updates
      only_writes_updates split: if_splits)

lemma cancel_refines:
  assumes pl: "placed s a" and c: "rs_config s a = Some c"
    and x: "load_attempt s a i = Some x" "t_live e (tenant_of s a) x" "at_id x = i"
    and x': "same_attempt x x'" and ok: "cancel_attempt e s a c x' counted = Inr s'"
    and why: "counted \<and> adds_evidence e a (tenant_of s a) c Cancel x x' \<and> cancellation_met c x' \<or>
              \<not> counted \<and> x' = x \<and> ce_auth e a \<and> cc_profile c = CP_Loss"
  shows "refines e a s s'"
proof -
  let ?t = "tenant_of s a" and ?y = "x'\<lparr>at_state := St_Cancelled\<rparr>"
  define auth where "auth = (at_state x = St_Authorized)"
  define k where "k = (if counted \<and> auth then t_cancels ?t + 1 else t_cancels ?t)"
  have sx: "at_state x' = at_state x" "at_id x' = i" using x' x(3) by (auto simp: same_attempt_def)
  obtain s1 s2 where s1: "count_cancel s a c (counted \<and> auth) = Inr s1"
    and s2: "clear_authorized e (save_attempt e s1 a ?y) a c i auth = Inr s2"
    and s': "s' = add_effect (Ev_AttemptCancelled a i (counted \<and> auth)) s2"
    using ok by (auto simp: cancel_attempt_def Let_def result_simps sx auth_def)
  note c1 = count_cancel_Inr [OF s1 pl]
  have p2: "placed (save_attempt e s1 a ?y) a"
    by (rule placed_save_live [OF c1(4)]) (use c1(3) x sx in auto)
  note c2 = clear_authorized_Inr [OF s2 p2]
  have t': "tenant_of s' a = ?t\<lparr>t_authorized := (if auth then None else t_authorized ?t), t_cancels := k,
               t_attempts := (t_attempts ?t)(i \<mapsto> ?y)\<rparr>"
    by (rule tenant.equality) (simp_all add: s' c2(1) tenant_save c1(2,3) sx k_def del: tenant_of_simps, simp_all)
  have "tenant_step e a ?t (tenant_of s' a)"
  proof (cases counted)
    case True
    have cond: "if at_state x = St_Authorized
      then t_cancels ?t < cc_max_cancels c \<and> k = t_cancels ?t + 1 \<and> (if auth then None else t_authorized ?t) = None
      else k = t_cancels ?t \<and> (if auth then None else t_authorized ?t) = t_authorized ?t"
      using True c1(1) by (auto simp: k_def auth_def)
    show ?thesis unfolding t'
      by (rule tenant_step.cancel_by_evidence [of ?t c i x e a x', OF _ _ x(2) _ _ cond]) (use True why c x(1) in auto)
  next
    case False
    then have "tenant_of s' a = ?t\<lparr>t_authorized := (if auth then None else t_authorized ?t),
        t_attempts := (t_attempts ?t)(i \<mapsto> x\<lparr>at_state := St_Cancelled\<rparr>)\<rparr>"
      using t' why by (simp add: k_def)
    then show ?thesis
      using tenant_step.cancel_by_owner [of ?t c i x e a "if auth then None else t_authorized ?t"] False why c x
      by (simp add: auth_def)
  qed
  moreover have "only_writes a s s2"
    by (rule only_writes_trans [OF c1(5) only_writes_trans [OF only_writes_save c2(3)]])
  ultimately show ?thesis using s' c2(2) by (simp add: refines_def)
qed


lemma add_ledgers_Inr: "add_ledgers x y = Inr z \<Longrightarrow> unat z = unat x + unat y"
  by (auto simp: add_ledgers_def dest: checked_add_SomeD)

lemma freeze_Inr: "freeze e s a c i xp = Inr s' \<Longrightarrow> s' = s \<or> (\<exists>ev. s' = add_effect ev s)"
  by (auto simp: freeze_def result_simps split: if_splits)

lemma promote_Inr:
  assumes "promote e s a c x = Inr (y, s')"
  shows "authorized_live e s a = None \<and>
    (at_action x = RA_LostKey \<and> y = x\<lparr>at_state := St_Invalidated\<rparr> \<and> (\<exists>ev. s' = add_effect ev s) \<or>
     (\<exists>ex xp s1. unat ex = unat (ce_now e) + unat (cc_delay_ledgers c) \<and> unat xp = unat ex + unat (cc_expiry_ledgers c) \<and>
        y = x\<lparr>at_state := St_Authorized, at_authorized_at := ce_now e, at_executable_after := ex, at_expires_at := xp\<rparr> \<and>
        s1 = s\<lparr>rs_invalidate_below := (rs_invalidate_below s)(a \<mapsto> next_attempt_id s a),
               rs_authorized := (rs_authorized s)(a \<mapsto> at_id x)\<rparr> \<and>
        (\<exists>ev ev'. s' = add_effect ev s1 \<or> s' = add_effect ev (add_effect ev' s1))))"
proof -
  have none: "authorized_live e s a = None"
    using assms by (auto simp: promote_def fail_def split: if_splits)
  obtain stale where stale: "(if at_action x = RA_LostKey
      then and_then (invoke (av_applied_doc_hash (ce_account e a))) (\<lambda>h. Inr (h \<noteq> Some (at_source_doc_hash x)))
      else Inr False) = Inr stale"
    using assms none by (auto simp: promote_def Let_def result_simps)
  show ?thesis
  proof (cases stale)
    case True
    then have "at_action x = RA_LostKey" using stale by (auto split: if_splits)
    then show ?thesis using assms none stale True by (auto simp: promote_def Let_def result_simps)
  next
    case False
    obtain ex xp s2 where w: "add_ledgers (ce_now e) (cc_delay_ledgers c) = Inr ex" "add_ledgers ex (cc_expiry_ledgers c) = Inr xp"
      and f: "freeze e (s\<lparr>rs_invalidate_below := (rs_invalidate_below s)(a \<mapsto> next_attempt_id s a),
               rs_authorized := (rs_authorized s)(a \<mapsto> at_id x)\<rparr>) a c (at_id x) xp = Inr s2"
      and y: "y = x\<lparr>at_state := St_Authorized, at_authorized_at := ce_now e, at_executable_after := ex, at_expires_at := xp\<rparr>"
        "s' = add_effect (Ev_AttemptAuthorized a (at_id x) ex xp) s2"
      using assms none stale False by (auto simp: promote_def Let_def result_simps next_attempt_id_def)
    show ?thesis using none freeze_Inr [OF f] add_ledgers_Inr [OF w(1)] add_ledgers_Inr [OF w(2)] y by blast
  qed
qed

lemma authorize_refines:
  assumes pl: "placed s a" and c: "rs_config s a = Some c"
    and x: "load_attempt s a i = Some x" "t_live e (tenant_of s a) x" "at_id x = i"
    and add: "adds_evidence e a (tenant_of s a) c Initiate x x'" and met: "initiation_met c x'"
    and none: "t_authorized_live e (tenant_of s a) = None"
    and w: "unat ex = unat (ce_now e) + unat (cc_delay_ledgers c)" "unat xp = unat ex + unat (cc_expiry_ledgers c)"
    and y: "y = x'\<lparr>at_state := St_Authorized, at_authorized_at := ce_now e, at_executable_after := ex, at_expires_at := xp\<rparr>"
    and s1: "s1 = s\<lparr>rs_invalidate_below := (rs_invalidate_below s)(a \<mapsto> next_attempt_id s a),
               rs_authorized := (rs_authorized s)(a \<mapsto> at_id x')\<rparr>"
    and s2: "slice_of s2 = slice_of s1"
  shows "refines e a s (save_attempt e s2 a y)"
proof -
  let ?t = "tenant_of s a"
  have i: "at_id x' = i" using adds_evidence_same [OF add] x(3) by (simp add: same_attempt_def)
  have sl: "tenant_of s2 a = tenant_of s1 a" "only_writes a s s2"
    using tenant_of_slice [of s2 a s1] s2 only_writes_updates(10) [of a s] by (simp_all add: only_writes_def s1)
  have fld: "rs_authorized s2 a = Some i" "load_attempt s2 a = load_attempt s a"
    "rs_collecting s2 (a, j) = rs_collecting s (a, j)" for j
    using arg_cong [OF sl(1), of t_authorized] arg_cong [OF sl(1), of t_attempts]
      arg_cong [OF fun_cong [OF s2, of a], of "\<lambda>q. sl_collecting q j"] by (simp_all add: s1 i)
  have "placed (save_attempt e s2 a y) a"
  proof (rule placed_save)
    show "\<forall>i y. load_attempt s2 a i = Some y \<longrightarrow> at_id y = i"
      "\<forall>i y. rs_collecting s2 (a, i) = Some y \<longrightarrow> at_state y \<noteq> St_Authorized \<and> at_state y \<noteq> St_Completed"
      using pl by (auto simp: fld placed_def)
    show "\<forall>j. rs_authorized s2 a = Some j \<and> j \<noteq> at_id y \<longrightarrow> (\<exists>z. rs_attempt s2 (a, j) = Some z \<and> at_state z \<noteq> St_Collecting)"
      by (simp add: fld y i)
  qed (simp add: y)
  moreover have "tenant_of (save_attempt e s2 a y) a =
      ?t\<lparr>t_below := t_next ?t, t_authorized := Some i, t_attempts := (t_attempts ?t)(i \<mapsto> y)\<rparr>"
    by (simp add: tenant_save fld sl(1) y i) (simp add: s1 i tenant_updates)
  then have "tenant_step e a ?t (tenant_of (save_attempt e s2 a y) a)"
    using tenant_step.authorize [OF _ _ x(2) add met none w, of i] c x(1) y by simp
  ultimately show ?thesis
    using only_writes_trans [OF sl(2) only_writes_save] by (simp add: refines_def)
qed

lemma after_evidence_refines:
  assumes pl: "placed s a" and c: "rs_config s a = Some c"
    and x: "load_attempt s a i = Some x" "t_live e (tenant_of s a) x" "at_id x = i"
    and add: "adds_evidence e a (tenant_of s a) c dm x x'"
    and ok: "after_evidence e s a c x' dm = Inr s'"
  shows "refines e a s s'"
proof -
  let ?t = "tenant_of s a"
  have same: "same_attempt x x'" by (rule adds_evidence_same [OF add])
  have collect: "refines e a s (save_attempt e s a x')"
  proof -
    have "placed (save_attempt e s a x') a"
      by (rule placed_save_live [OF pl x(1)]) (use same x(3) in \<open>auto simp: same_attempt_def\<close>)
    then show ?thesis
      using tenant_step.collect [OF _ _ x(2) add, of i] c x(1,3) same only_writes_save
      by (simp add: refines_def tenant_save same_attempt_def)
  qed
  show ?thesis
  proof (cases dm)
    case Cancel
    then show ?thesis
      using ok collect cancel_refines [OF pl c x same, of True s'] add
      by (auto simp: after_evidence_def split: if_splits)
  next
    case Initiate
    show ?thesis
    proof (cases "initiation_met c x'")
      case False
      then show ?thesis using ok collect Initiate by (simp add: after_evidence_def)
    next
      case True
      then obtain y s1 where p: "promote e s a c x' = Inr (y, s1)" and s': "s' = save_attempt e s1 a y"
        using ok Initiate by (auto simp: after_evidence_def result_simps)
      note pr = promote_Inr [OF p]
      have none: "t_authorized_live e ?t = None" using pr authorized_live_tenant [OF pl] by simp
      consider (inv) ev where "at_action x' = RA_LostKey" "y = x'\<lparr>at_state := St_Invalidated\<rparr>" "s1 = add_effect ev s"
        | (auth) ex xp s2 where "unat ex = unat (ce_now e) + unat (cc_delay_ledgers c)"
            "unat xp = unat ex + unat (cc_expiry_ledgers c)"
            "y = x'\<lparr>at_state := St_Authorized, at_authorized_at := ce_now e, at_executable_after := ex, at_expires_at := xp\<rparr>"
            "s2 = s\<lparr>rs_invalidate_below := (rs_invalidate_below s)(a \<mapsto> next_attempt_id s a),
               rs_authorized := (rs_authorized s)(a \<mapsto> at_id x')\<rparr>" "slice_of s1 = slice_of s2"
        using pr by (auto simp: fun_eq_iff)
      then show ?thesis
      proof cases
        case inv
        have i: "at_id y = i" "at_action x = RA_LostKey"
          using inv same x(3) add Initiate by (auto simp: same_attempt_def elim: adds_evidence.cases)
        have "placed (save_attempt e s1 a y) a"
          by (rule placed_save_live [of s1 a i x]) (use inv pl x(1) i(1) in auto)
        then show ?thesis
          using tenant_step.invalidate [OF _ _ x(2) add [unfolded Initiate], of i] c x(1) i inv s'
            only_writes_trans [OF _ only_writes_save, of a s s1 e y]
          by (simp add: refines_def tenant_save)
      next
        case auth
        then show ?thesis
          using authorize_refines [OF pl c x add [unfolded Initiate] True none auth] s' by simp
      qed
    qed
  qed
qed


lemma require_config_Inr [simp]: "require_config s a = Inr c \<longleftrightarrow> rs_config s a = Some c"
  by (simp add: require_config_def)

lemma fail_Inr [simp]: "fail err \<noteq> Inr z"
  by (simp add: fail_def)

lemma initiate_statement [simp]: "attempt_statement n a c x Initiate = Inr (initiation_statement n a c x)"
  by (simp add: attempt_statement_def Let_def)

lemma placed_id: "placed s a \<Longrightarrow> load_attempt s a i = Some x \<Longrightarrow> at_id x = i"
  by (simp add: placed_def)

lemma submit_guardian_refines:
  assumes "submit_guardian e s a i dm g = Inr s'" "placed s a"
  shows "refines e a s s'"
proof -
  obtain c gs x x' st d where c: "rs_config s a = Some c" "config_guardians c = Some gs" "g \<in> set (cg_guardians gs)"
    and x: "load_attempt s a i = Some x" "t_live e (tenant_of s a) x"
    and x': "count_guardian dm g x = Inr x'"
    and st: "attempt_statement (ce_chain e) a c x' dm = Inr st" "rcv_digest (ce_chain e) st = Inr d"
    and au: "ce_auth_for_args e g d" and ok: "after_evidence e s a c x' dm = Inr s'"
    using assms(1) by (auto simp: submit_guardian_def result_simps load_live_Inr split: if_splits)
  have "adds_evidence e a (tenant_of s a) c dm x x'"
  proof (cases dm)
    case Initiate
    then show ?thesis
      using adds_evidence.guardian_initiates [OF c(2,3), of x e a d "tenant_of s a"] x' st au by (auto simp: count_guardian_def split: if_splits)
  next
    case Cancel
    then show ?thesis
      using adds_evidence.guardian_cancels [OF c(2,3), of x e a st d "tenant_of s a"] x' st au by (auto simp: count_guardian_def split: if_splits)
  qed
  then show ?thesis by (rule after_evidence_refines [OF assms(2) c(1) x placed_id [OF assms(2) x(1)] _ ok])
qed

lemma verify_zk_Inr:
  "verify_zk e s a z st ev = Inr u \<longleftrightarrow>
     ce_verify e (cz_adapter z) st (zk_factor_binding z) ev = Some () \<and> ev_nullifier ev \<notin> t_spent (tenant_of s a)"
  by (auto simp: verify_zk_def result_simps split: if_splits)

lemma submit_zk_refines:
  assumes "submit_zk e s a i dm ev = Inr s'" "placed s a"
  shows "refines e a s s'"
proof -
  obtain c z x st where c: "rs_config s a = Some c" "config_zk c = Some z"
    and x: "load_attempt s a i = Some x" "t_live e (tenant_of s a) x"
    and g: "proof_uncounted dm x = Inr ()"
    and st: "attempt_statement (ce_chain e) a c x dm = Inr st" "verify_zk e s a z st ev = Inr ()"
    and ok: "after_evidence e s a c (count_proof dm ev x) dm = Inr s'"
    using assms(1) by (auto simp: submit_zk_def result_simps load_live_Inr)
  have "adds_evidence e a (tenant_of s a) c dm x (count_proof dm ev x)"
  proof (cases dm)
    case Initiate
    then show ?thesis
      using adds_evidence.proof_initiates [OF c(2), of x e a ev "tenant_of s a"] g st
      by (auto simp: verify_zk_Inr count_proof_def proof_uncounted_def split: if_splits)
  next
    case Cancel
    then show ?thesis
      using adds_evidence.proof_cancels [OF c(2), of e a x st ev "tenant_of s a"] st
      by (simp add: verify_zk_Inr count_proof_def)
  qed
  then show ?thesis by (rule after_evidence_refines [OF assms(2) c(1) x placed_id [OF assms(2) x(1)] _ ok])
qed

lemma refuse_in_window_Inr: "refuse_in_window e s a = Inr u \<longleftrightarrow> authorized_live e s a = None"
  by (auto simp: refuse_in_window_def split: option.splits)

lemma store_approval_refines:
  assumes "placed s a"
    and "tenant_step e a (tenant_of s a) ((tenant_of s a)\<lparr>t_approval := (t_approval (tenant_of s a))(d \<mapsto> r)\<rparr>)"
  shows "refines e a s (store_approval s a d r)"
  using assms by (simp add: refines_def store_approval_def tenant_updates placed_updates only_writes_updates)

lemma approve_change_refines:
  assumes "approve_change e s a sj u g = Inr s'" "placed s a"
  shows "refines e a s s'"
proof -
  let ?t = "tenant_of s a"
  obtain c gs d where c: "rs_config s a = Some c" "config_guardians c = Some gs" "g \<in> set (cg_guardians gs)"
    and none: "authorized_live e s a = None"
    and g: "g \<notin> set (ca_guardians (or_default empty_approval (rs_approval s (a, d))))" "ce_auth_for_args e g d"
    and s': "s' = store_approval s a d ((or_default empty_approval (rs_approval s (a, d)))
        \<lparr>ca_guardians := ca_guardians (or_default empty_approval (rs_approval s (a, d))) @ [g]\<rparr>)"
    using assms(1) by (auto simp: approve_change_def result_simps Let_def refuse_in_window_Inr split: if_splits)
  show ?thesis unfolding s'
    by (rule store_approval_refines [OF assms(2)], rule tenant_step.approve_by_guardian [of _ c e gs g])
       (use c none g authorized_live_tenant [OF assms(2), of e] in simp_all)
qed

lemma submit_zk_change_refines:
  assumes "submit_zk_change e s a sj u ev = Inr s'" "placed s a"
  shows "refines e a s s'"
proof -
  obtain c z st d where c: "rs_config s a = Some c" "config_zk c = Some z"
    and none: "authorized_live e s a = None"
    and st: "rcv_digest (ce_chain e) st = Inr d" "verify_zk e s a z st ev = Inr ()" "st = make_statement (ce_chain e) a c (epoch_of s a) u sj"
    and s': "s' = store_approval s a d ((or_default empty_approval (rs_approval s (a, d)))\<lparr>ca_zk := True\<rparr>)"
    using assms(1) by (auto simp: submit_zk_change_def change_statement_for_def result_simps Let_def refuse_in_window_Inr split: if_splits)
  show ?thesis unfolding s'
    by (rule store_approval_refines [OF assms(2)], rule tenant_step.approve_by_proof [of _ c e z _ d st a u sj ev])
       (use c none st authorized_live_tenant [OF assms(2), of e] in \<open>simp_all add: verify_zk_Inr\<close>)
qed

lemma publish_baseline_refines:
  assumes "publish_baseline e s a b = Inr s'" "placed s a"
  shows "refines e a s s'"
proof -
  obtain k v where "s' = s\<lparr>rs_baseline := (rs_baseline s)((a, k) \<mapsto> v)\<rparr>"
    using assms(1) by (auto simp: publish_baseline_def result_simps split: if_splits)
  then show ?thesis
    using assms(2) by (simp add: refines_def tenant_updates placed_updates only_writes_updates tenant_step.publish)
qed


section \<open>Opening an attempt\<close>

lemma begin_derive_Inr:
  assumes "begin_derive e a action rset current source = Inr d"
  shows "\<exists>compiler. ce_derive_target e compiler source current action rset = Some d"
    and "cr \<in> set (dt_replaced d) \<Longrightarrow>
      \<exists>f. fingerprint (rn_sha256 (ce_chain e)) (rn_xdr (ce_chain e)) cr = Inr f \<and> f \<notin> set (dt_fingerprints d)"
proof -
  let ?fp = "fingerprint (rn_sha256 (ce_chain e)) (rn_xdr (ce_chain e))"
  obtain compiler fs where d: "ce_derive_target e compiler source current action rset = Some d"
    and fs: "collect_results (\<lambda>c. map_err (\<lambda>_. Failed InvalidReplacements) (?fp c)) (dt_replaced d) = Inr fs"
      "replaced_credentials_leave fs (dt_fingerprints d)"
    using assms by (auto simp: begin_derive_def Let_def result_simps split: if_splits)
  show "\<exists>compiler. ce_derive_target e compiler source current action rset = Some d" using d by blast
  show "\<exists>f. ?fp cr = Inr f \<and> f \<notin> set (dt_fingerprints d)" if cr: "cr \<in> set (dt_replaced d)"
  proof -
    have l: "list_all2 (\<lambda>c f. ?fp c = Inr f) (dt_replaced d) fs" using fs(1) by (simp add: collect_results_Inr_iff)
    obtain i where i: "i < length (dt_replaced d)" "cr = dt_replaced d ! i" using cr by (auto simp: in_set_conv_nth)
    then have "?fp cr = Inr (fs ! i)" "fs ! i \<in> set fs" using list_all2_nthD [OF l] list_all2_lengthD [OF l] by simp_all
    then show ?thesis using fs(2) by (auto simp: replaced_credentials_leave_def list_all_iff)
  qed
qed

lemma open_attempt_Inr:
  assumes "open_attempt e s a c action rhash src d = Inr (i, s')" "begin_derive e a action rset current source = Inr d"
  shows "\<exists>x m. at_action x = action \<and> i = at_id x \<and>
    (action \<in> {RA_LostKey, RA_Compromise} \<longrightarrow> fresh_attempt e (tenant_of s a) c x) \<and>
    at_source_doc_hash x = src \<and> at_target_doc_hash x = dt_doc_hash d \<and>
    at_target_bytes_hash x = rn_sha256 (ce_chain e) (dt_canonical d) \<and> at_target_config_hash x = dt_config_hash d \<and>
    at_replacements_hash x = rhash \<and> at_replaced x = dt_replaced d \<and>
    unat m = unat (next_attempt_id s a) + 1 \<and>
    (\<exists>ev. s' = add_effect ev (save_attempt e (s\<lparr>rs_next_attempt := (rs_next_attempt s)(a \<mapsto> m)\<rparr>) a x))"
proof -
  obtain m dl u cu where m: "checked_add (next_attempt_id s a) 1 = Some m"
    and w: "add_ledgers (ce_now e) (cc_expiry_ledgers c) = Inr dl" "add_ledgers dl (cc_delay_ledgers c) = Inr u"
      "add_ledgers u (cc_expiry_ledgers c) = Inr cu"
    using assms(1) by (auto simp: open_attempt_def Let_def result_simps invoke_def next_attempt_id_def)
  define x where "x = \<lparr>at_id = next_attempt_id s a, at_action = action, at_epoch = epoch_of s a, at_created_at = ce_now e,
    at_evidence_deadline = dl, at_cancel_until = cu, at_authorized_at = 0, at_executable_after = 0, at_expires_at = 0,
    at_source_doc_hash = src, at_target_doc_hash = dt_doc_hash d,
    at_target_bytes_hash = rn_sha256 (ce_chain e) (dt_canonical d), at_target_config_hash = dt_config_hash d,
    at_replacements_hash = rhash, at_replaced = dt_replaced d, at_state = St_Collecting, at_guardians = [],
    at_zk_nullifier = None, at_cancel_guardians = [], at_cancel_zk = False\<rparr>"
  have ep: "epoch_of (s\<lparr>rs_next_attempt := z\<rparr>) a = epoch_of s a" for z by (simp add: epoch_of_def)
  have i: "i = at_id x" and s': "s' = add_effect (Ev_AttemptBegun a i action (dt_doc_hash d))
      (save_attempt e (s\<lparr>rs_next_attempt := (rs_next_attempt s)(a \<mapsto> m)\<rparr>) a x)"
    using assms(1) m w by (auto simp: open_attempt_def Let_def invoke_def ep next_attempt_id_def x_def)
  have "derived_attempt e x"
    using begin_derive_Inr [OF assms(2)] unfolding derived_attempt_def x_def by (simp, metis)
  then have "fresh_attempt e (tenant_of s a) c x" if "action \<in> {RA_LostKey, RA_Compromise}"
    using that add_ledgers_Inr [OF w(1)] add_ledgers_Inr [OF w(2)] add_ledgers_Inr [OF w(3)]
    by (simp add: fresh_attempt_def x_def)
  then show ?thesis using i s' checked_add_SomeD [OF m] by (intro exI [of _ x] exI [of _ m]) (auto simp: x_def)
qed

lemma begin_attempt_Inr:
  assumes "begin_attempt e s a action rset = Inr (i, s')"
  shows "\<exists>c x m. rs_config s a = Some c \<and> authorized_live e s a = None \<and> at_action x = action \<and> i = at_id x \<and>
    (action \<in> {RA_LostKey, RA_Compromise} \<longrightarrow> fresh_attempt e (tenant_of s a) c x) \<and>
    unat m = unat (next_attempt_id s a) + 1 \<and>
    (\<exists>ev. s' = add_effect ev (save_attempt e (s\<lparr>rs_next_attempt := (rs_next_attempt s)(a \<mapsto> m)\<rparr>) a x))"
proof -
  obtain c rhash current source src d where "rs_config s a = Some c" "authorized_live e s a = None"
    and d: "begin_derive e a action rset current source = Inr d" and o: "open_attempt e s a c action rhash src d = Inr (i, s')"
    using assms by (auto simp: begin_attempt_def Let_def result_simps split: if_splits)
  then show ?thesis using open_attempt_Inr [OF o d] by blast
qed

lemma begin_refines:
  assumes "begin_attempt e s a action rset = Inr (i, s')" "action \<in> {RA_LostKey, RA_Compromise}" "placed s a"
    "rs_authorized s a \<noteq> Some (next_attempt_id s a)"
  shows "refines e a s s'"
proof -
  let ?t = "tenant_of s a"
  obtain c x m ev where c: "rs_config s a = Some c" "authorized_live e s a = None"
    and x: "fresh_attempt e ?t c x" and m: "unat m = unat (next_attempt_id s a) + 1"
    and s': "s' = add_effect ev (save_attempt e (s\<lparr>rs_next_attempt := (rs_next_attempt s)(a \<mapsto> m)\<rparr>) a x)"
    using begin_attempt_Inr [OF assms(1)] assms(2) by blast
  let ?s = "s\<lparr>rs_next_attempt := (rs_next_attempt s)(a \<mapsto> m)\<rparr>"
  have "placed (save_attempt e ?s a x) a"
  proof (rule placed_save)
    show "\<forall>i y. load_attempt ?s a i = Some y \<longrightarrow> at_id y = i"
      "\<forall>i y. rs_collecting ?s (a, i) = Some y \<longrightarrow> at_state y \<noteq> St_Authorized \<and> at_state y \<noteq> St_Completed"
      "\<forall>i. rs_authorized ?s a = Some i \<and> i \<noteq> at_id x \<longrightarrow> (\<exists>y. rs_attempt ?s (a, i) = Some y \<and> at_state y \<noteq> St_Collecting)"
      using assms(3) by (auto simp: placed_def)
  qed (use x assms(4) in \<open>simp add: fresh_attempt_def\<close>)
  moreover have "tenant_step e a ?t (?t\<lparr>t_next := m, t_attempts := (t_attempts ?t)(at_id x \<mapsto> x)\<rparr>)"
    using tenant_step.open_attempt [of ?t c e x m a] c x m authorized_live_tenant [OF assms(3), of e] by simp
  moreover have "only_writes a s (save_attempt e ?s a x)"
    by (rule only_writes_trans [OF only_writes_updates(3) only_writes_save])
  ultimately show ?thesis by (simp add: s' refines_def tenant_save tenant_updates)
qed

section \<open>Hooks\<close>

lemma require_auth_Inr [simp]: "rcv_require_auth e a = Inr u \<longleftrightarrow> ce_auth e a"
  by (simp add: rcv_require_auth_def)

lemma enforce_refines:
  assumes "rcv_enforce e s ctx sg rl a = Inr s'" "placed s a"
  shows "refines e a s s'"
proof -
  obtain x where au: "ce_auth e a" and x: "authorized_live e s a = Some x" "at_executable_after x \<le> ce_now e"
    and s': "s' = s\<lparr>rs_completing := (rs_completing s)(a \<mapsto>
        \<lparr>cm_attempt_id = at_id x, cm_target_doc_hash = at_target_doc_hash x, cm_ledger = ce_now e\<rparr>)\<rparr>"
    using assms(1)
    by (auto simp: rcv_enforce_def authorize_completion_def result_simps not_less split: auth_context.splits if_splits)
  show ?thesis
    using tenant_step.mark [OF au, of "tenant_of s a" x] x authorized_live_tenant [OF assms(2), of e] assms(2)
    by (simp add: s' refines_def tenant_updates placed_updates only_writes_updates)
qed

lemma complete_Inr:
  assumes "complete e s a m new dh = Inr (out, s')" "placed s a"
  shows "\<exists>x c ep. authorized_live e s a = Some x \<and> at_id x = cm_attempt_id m \<and>
    at_target_doc_hash x = cm_target_doc_hash m \<and> dh = at_target_doc_hash x \<and> new = Some c \<and>
    cc_controller c = rn_self (ce_chain e) \<and> cc_config_hash c = at_target_config_hash x \<and>
    set_option (at_zk_nullifier x) \<inter> t_spent (tenant_of s a) = {} \<and> unat ep = unat (epoch_of s a) + 1 \<and>
    out = Completed \<lparr>co_attempt_id = at_id x, co_replaced = at_replaced x\<rparr> \<and>
    tenant_of s' a = (tenant_of s a)\<lparr>t_spent := t_spent (tenant_of s a) \<union> set_option (at_zk_nullifier x),
       t_attempts := (t_attempts (tenant_of s a))(at_id x \<mapsto> x\<lparr>at_state := St_Completed\<rparr>), t_authorized := None,
       t_config := Some c, t_epoch := ep\<rparr> \<and> placed s' a \<and> only_writes a s s'"
proof -
  let ?t = "tenant_of s a"
  obtain x c s1 s4 where x: "authorized_live e s a = Some x" "at_id x = cm_attempt_id m"
      "at_target_doc_hash x = cm_target_doc_hash m" "dh = at_target_doc_hash x"
    and c: "new = Some c" "cc_controller c = rn_self (ce_chain e)" "cc_config_hash c = at_target_config_hash x"
    and s1: "(case at_zk_nullifier x of None \<Rightarrow> Inr s
              | Some k \<Rightarrow> if rs_nullifier s (a, k) \<noteq> None then fail NullifierSpent
                          else Inr (s\<lparr>rs_nullifier := (rs_nullifier s)((a, k) \<mapsto> True)\<rparr>)) = Inr s1"
    and s4: "store_config ((save_attempt e s1 a (x\<lparr>at_state := St_Completed\<rparr>))\<lparr>rs_authorized :=
        (rs_authorized (save_attempt e s1 a (x\<lparr>at_state := St_Completed\<rparr>)))(a := None)\<rparr>) a c = Inr s4"
    and out: "out = Completed \<lparr>co_attempt_id = at_id x, co_replaced = at_replaced x\<rparr>"
      "s' = add_effect (Ev_RecoveryCompleted a (at_id x) (at_target_doc_hash x)) s4"
    using assms(1) by (auto simp: complete_def result_simps Let_def split: if_splits)
  note xD = authorized_live_Some [OF x(1) assms(2)]
  have f1: "set_option (at_zk_nullifier x) \<inter> t_spent ?t = {}" "placed s1 a" "only_writes a s s1"
    "load_attempt s1 a = load_attempt s a" "epoch_of s1 a = epoch_of s a"
    "tenant_of s1 a = ?t\<lparr>t_spent := t_spent ?t \<union> set_option (at_zk_nullifier x)\<rparr>"
    using s1 assms(2)
    by (auto simp: placed_updates only_writes_updates tenant_updates epoch_of_def split: option.splits if_splits)
  define s2 where "s2 = save_attempt e s1 a (x\<lparr>at_state := St_Completed\<rparr>)"
  define s3 where "s3 = s2\<lparr>rs_authorized := (rs_authorized s2)(a := None)\<rparr>"
  have p2: "placed s2 a" unfolding s2_def
    by (rule placed_save_live [OF f1(2), of "at_id x" x]) (use xD f1(4) in auto)
  have p3: "placed s3 a" unfolding s3_def by (rule placed_updates(10) [OF p2])
  have w3: "only_writes a s s3" unfolding s3_def s2_def
    by (rule only_writes_trans [OF f1(3) only_writes_trans [OF only_writes_save only_writes_updates(4)]])
  have e3: "epoch_of s3 a = epoch_of s a" using f1(5) by (simp add: s3_def s2_def epoch_of_def [of "_\<lparr>rs_authorized := _\<rparr>"] flip: epoch_of_def)
  obtain ep where ep: "unat ep = unat (epoch_of s a) + 1"
      "tenant_of s4 a = (tenant_of s3 a)\<lparr>t_config := Some c, t_epoch := ep\<rparr>" "placed s4 a" "only_writes a s3 s4"
    using store_config_Inr [OF s4 [folded s2_def, folded s3_def] p3] e3 by auto
  have "tenant_of s3 a = ?t\<lparr>t_spent := t_spent ?t \<union> set_option (at_zk_nullifier x),
       t_attempts := (t_attempts ?t)(at_id x \<mapsto> x\<lparr>at_state := St_Completed\<rparr>), t_authorized := None\<rparr>"
    unfolding s3_def tenant_updates(4) unfolding s2_def tenant_save f1(4,6)
    by (rule tenant.equality) simp_all
  then show ?thesis
    using x c f1(1) ep out only_writes_trans [OF w3 ep(4)] by (intro exI [of _ x] exI [of _ c] exI [of _ ep]) simp
qed


section \<open>Changes of the configuration\<close>

lemma require_condition_Inr:
  assumes "require_condition e s a c subject u = Inr ()"
  shows "\<exists>d. ce_now e \<le> u \<and> rcv_digest (ce_chain e) (make_statement (ce_chain e) a c (epoch_of s a) u subject) = Inr d \<and>
           condition_recorded (tenant_of s a) c d"
proof -
  let ?st = "make_statement (ce_chain e) a c (epoch_of s a) u subject"
  obtain d r where f: "rcv_check_fresh e ?st = Inr ()" and d: "rcv_digest (ce_chain e) ?st = Inr d"
    and r: "rs_approval s (a, d) = Some r"
      "\<forall>g. config_guardians c = Some g \<longrightarrow>
         \<not> (word_of_nat (length [x \<leftarrow> ca_guardians r. x \<in> set (cg_guardians g)]) :: u32) < cg_quorum g"
      "config_zk c = None \<or> ca_zk r"
    using assms
    by (auto simp: require_condition_def change_statement_for_def result_simps Let_def split: if_splits option.splits)
  have "ce_now e \<le> u"
    using f by (auto simp: rcv_check_fresh_def check_fresh_def make_statement_def Let_def not_less split: if_splits)
  moreover have "condition_recorded (tenant_of s a) c d"
    using r by (auto simp: condition_recorded_def not_less split: option.splits if_splits)
  ultimately show ?thesis using d by blast
qed

lemma change_allowed_epoch:
  assumes "if cc_profile c = CP_Protected then require_condition e s a c (Subject_Reconfigure ch) u = Inr () else True"
  shows "change_allowed e a (tenant_of s a) c (Subject_Reconfigure ch)"
  using assms require_condition_Inr [of e s a c "Subject_Reconfigure ch" u] by (auto simp: change_allowed_def)

lemma check_zk_wiring_Inr: "check_zk_wiring e old new = Inr () \<Longrightarrow> zk_factor_transition_ok old new"
  by (auto simp: check_zk_wiring_def fail_def split: if_splits)

lemma spec_epoch_indep [simp]:
  "change_allowed e a (t\<lparr>t_completing := mk\<rparr>) c sj = change_allowed e a t c sj"
  by (simp add: change_allowed_def condition_recorded_def)

text \<open>A change, after the marker of the account is taken away.\<close>

lemma sync_change_step:
  assumes ok: "sync_change e s a (rs_config s a) new u = Inr (out, s')" and pl: "placed s a" and au: "ce_auth e a"
    and none: "authorized_live e s a = None" and t: "tenant_of s a = t\<lparr>t_completing := None\<rparr>"
  shows "tenant_step e a t (tenant_of s' a) \<and> placed s' a \<and> only_writes a s s' \<and> (\<forall>co. out \<noteq> Completed co)"
proof -
  have tD: "t_config t = rs_config s a" "t_epoch t = epoch_of s a" "t_authorized_live e t = None"
    using arg_cong [OF t, of t_config] arg_cong [OF t, of t_epoch] arg_cong [OF t, of "t_authorized_live e"]
      none authorized_live_tenant [OF pl, of e] by auto
  have unmark: "tenant_step e a t (tenant_of s a)" unfolding t by (rule tenant_step.unmark [OF au])
  show ?thesis
  proof (cases "rs_config s a")
    case None
    show ?thesis
    proof (cases new)
      case (Some c)
      then obtain s2 where c: "cc_controller c = rn_self (ce_chain e)" "check_config a c = Inr ()"
        and s2: "store_config s a c = Inr s2" and o: "out = Enrolled" "s' = s2"
        using ok None by (auto simp: sync_change_def Let_def result_simps split: if_splits)
      obtain ep where ep: "unat ep = unat (epoch_of s a) + 1"
        "tenant_of s2 a = (tenant_of s a)\<lparr>t_config := Some c, t_epoch := ep\<rparr>" "placed s2 a" "only_writes a s s2"
        using store_config_Inr [OF s2 pl] by auto
      have "tenant_step e a t (t\<lparr>t_completing := None, t_config := Some c, t_epoch := ep\<rparr>)"
        by (rule tenant_step.enroll [OF au]) (use None tD c ep in simp_all)
      then show ?thesis using ep t o by simp
    qed (use ok None pl unmark in \<open>simp add: sync_change_def\<close>)
  next
    case (Some old)
    let ?here = "rn_self (ce_chain e)"
    consider "out = Sync_Unchanged" "s' = s"
      | c where "new = Some c" "cc_controller c = ?here" "change_allowed e a (tenant_of s a) old (change_of new)"
          "check_config a c = Inr ()" "zk_factor_transition_ok (config_zk old) (config_zk c)"
          "store_config s a c = Inr s'" "out = Reconfigured"
      | ep s2 where "\<forall>n. new = Some n \<longrightarrow> cc_controller n \<noteq> ?here" "change_allowed e a (tenant_of s a) old (change_of new)"
          "bump_epoch (s\<lparr>rs_config := (rs_config s)(a := None), rs_authorized := (rs_authorized s)(a := None)\<rparr>) a
             = Inr (ep, s2)" "s' = add_effect (Ev_EpochAdvanced a ep None) s2" "out = Sync_Removed"
      using ok Some change_allowed_epoch [of old e s a _ u]
      by (auto simp: sync_change_def Let_def change_of_def result_simps dest: check_zk_wiring_Inr
          split: if_splits option.splits)
    then show ?thesis
    proof cases
      case 1
      then show ?thesis using unmark pl by simp
    next
      case (2 c)
      obtain ep where ep: "unat ep = unat (epoch_of s a) + 1"
        "tenant_of s' a = (tenant_of s a)\<lparr>t_config := Some c, t_epoch := ep\<rparr>" "placed s' a" "only_writes a s s'"
        using store_config_Inr [OF 2(6) pl] by auto
      have "tenant_step e a t (t\<lparr>t_completing := None, t_config := Some c, t_epoch := ep\<rparr>)"
        by (rule tenant_step.reconfigure [OF au, of _ old]) (use Some tD 2 ep t in simp_all)
      then show ?thesis using ep t 2(7) by simp
    next
      case (3 ep s2)
      let ?s = "s\<lparr>rs_config := (rs_config s)(a := None), rs_authorized := (rs_authorized s)(a := None)\<rparr>"
      have ep: "unat ep = unat (epoch_of s a) + 1" "s2 = ?s\<lparr>rs_epoch := (rs_epoch ?s)(a \<mapsto> ep)\<rparr>"
        using 3(3) by (auto simp: bump_epoch_Inr epoch_of_def)
      have "tenant_of s2 a = t\<lparr>t_completing := None, t_config := None, t_authorized := None, t_epoch := ep\<rparr>"
        unfolding ep(2) tenant_updates(2) tenant_updates(11) t by simp
      moreover have "only_writes a s s2"
        unfolding ep(2) by (rule only_writes_trans [OF only_writes_updates(11) only_writes_updates(2)])
      moreover have "placed s2 a" unfolding ep(2) by (intro placed_updates pl)
      moreover have "tenant_step e a t (t\<lparr>t_completing := None, t_config := None, t_authorized := None, t_epoch := ep\<rparr>)"
        by (rule tenant_step.remove [OF au, of _ old new]) (use Some tD 3 ep t in simp_all)
      ultimately show ?thesis using 3(4,5) by simp
    qed
  qed
qed


text \<open>A synchronisation that completes, and one that does not.\<close>

lemma rcv_sync_cases:
  assumes ok: "rcv_sync e s a dh cs u = Inr (out, s')" and pl: "placed s a"
  shows "ce_auth e a \<and>
    ((\<exists>m. rs_completing s a = Some m \<and> cm_target_doc_hash m = dh \<and> cm_ledger m = ce_now e \<and>
        complete e (s\<lparr>rs_completing := (rs_completing s)(a := None)\<rparr>) a m (case cs of [] \<Rightarrow> None | c # _ \<Rightarrow> Some c) dh
          = Inr (out, s')) \<or>
     (\<forall>co. out \<noteq> Completed co) \<and> refines e a s s')"
proof -
  let ?s = "s\<lparr>rs_completing := (rs_completing s)(a := None)\<rparr>" and ?new = "case cs of [] \<Rightarrow> None | c # _ \<Rightarrow> Some c"
  have au: "ce_auth e a" using ok by (auto simp: rcv_sync_def result_simps)
  have p1: "placed ?s a" by (rule placed_updates(3) [OF pl])
  have t1: "tenant_of ?s a = (tenant_of s a)\<lparr>t_completing := None\<rparr>" by (rule tenant_updates(6))
  have al: "authorized_live e ?s a = authorized_live e s a"
    using authorized_live_tenant [OF pl, of e] authorized_live_tenant [OF p1, of e] t1 by simp
  have same: "rs_completing s a = None \<Longrightarrow> ?s = s" by (simp add: fun_upd_idem)
  consider m where "rs_completing s a = Some m" "cm_target_doc_hash m = dh" "cm_ledger m = ce_now e"
      "complete e ?s a m ?new dh = Inr (out, s')"
    | "authorized_live e ?s a = None" "sync_change e ?s a (rs_config ?s a) ?new u = Inr (out, s')"
    using ok al same
    by (auto simp: rcv_sync_def marker_current_def Let_def result_simps split: option.splits if_splits)
  then show ?thesis
  proof cases
    case 2
    note sc = sync_change_step [OF 2(2) p1 au 2(1) t1]
    then show ?thesis
      using au only_writes_trans [OF only_writes_updates(6)] by (simp add: refines_def) blast
  qed (use au in blast)
qed

lemma complete_refines:
  assumes c: "complete e (s\<lparr>rs_completing := (rs_completing s)(a := None)\<rparr>) a m new dh = Inr (out, s')"
    and m: "rs_completing s a = Some m" "cm_ledger m = ce_now e" and pl: "placed s a" and au: "ce_auth e a"
  shows "refines e a s s'"
proof -
  let ?s = "s\<lparr>rs_completing := (rs_completing s)(a := None)\<rparr>" and ?t = "tenant_of s a"
  have p1: "placed ?s a" by (rule placed_updates(3) [OF pl])
  have t1: "tenant_of ?s a = ?t\<lparr>t_completing := None\<rparr>" by (rule tenant_updates(6))
  obtain x c ep where x: "authorized_live e ?s a = Some x" "at_id x = cm_attempt_id m"
      "at_target_doc_hash x = cm_target_doc_hash m" "cc_controller c = rn_self (ce_chain e)"
      "cc_config_hash c = at_target_config_hash x" "set_option (at_zk_nullifier x) \<inter> t_spent ?t = {}"
      "unat ep = unat (t_epoch ?t) + 1"
    and t': "tenant_of s' a = ?t\<lparr>t_completing := None, t_spent := t_spent ?t \<union> set_option (at_zk_nullifier x),
       t_attempts := (t_attempts ?t)(at_id x \<mapsto> x\<lparr>at_state := St_Completed\<rparr>), t_authorized := None,
       t_config := Some c, t_epoch := ep\<rparr>" and r: "placed s' a" "only_writes a ?s s'"
    using complete_Inr [OF c p1] unfolding t1 by (auto simp: epoch_of_def)
  have "t_authorized_live e ?t = Some x" using x(1) authorized_live_tenant [OF p1, of e] t1 by simp
  then have "tenant_step e a ?t (tenant_of s' a)"
    unfolding t' by (intro tenant_step.complete_attempt [OF au, of _ m]) (use m x in auto)
  then show ?thesis
    using r only_writes_trans [OF only_writes_updates(6)] by (auto simp: refines_def)
qed

lemma rcv_sync_refines:
  assumes "rcv_sync e s a dh cs u = Inr (out, s')" "placed s a"
  shows "refines e a s s'"
  using rcv_sync_cases [OF assms] complete_refines [OF _ _ _ assms(2)] by blast

lemma rcv_cancel_refines:
  assumes "rcv_cancel e s a i = Inr s'" "placed s a"
  shows "refines e a s s'"
proof -
  obtain c x where c: "rs_config s a = Some c" "cc_profile c = CP_Loss" "ce_auth e a"
    and x: "load_attempt s a i = Some x" "t_live e (tenant_of s a) x"
    and ok: "cancel_attempt e s a c x False = Inr s'"
    using assms(1) by (auto simp: rcv_cancel_def require_config_def load_live_Inr result_simps split: if_splits)
  have "at_id x = i" using assms(2) x(1) by (simp add: placed_def)
  then show ?thesis
    by (rule cancel_refines [OF assms(2) c(1) x _ _ ok]) (use c in \<open>auto simp: same_attempt_def\<close>)
qed

lemma rcv_upgrade_refines:
  assumes "rcv_upgrade e s a st = Inr (ep, s')" "placed s a"
  shows "refines e a s s'"
proof -
  obtain c where c: "rs_config s a = Some c" "ce_auth e a" "authorized_live e s a = None"
    and "s' = s \<or> (\<exists>s2. bump_epoch s a = Inr (ep, s2) \<and> (\<exists>ev. s' = add_effect ev s2))"
    using assms(1) by (cases st) (auto simp: rcv_upgrade_def require_config_def result_simps split: if_splits)
  then consider "s' = s" | s2 ev where "bump_epoch s a = Inr (ep, s2)" "s' = add_effect ev s2" by blast
  then show ?thesis
  proof cases
    case 2
    then have ep: "unat ep = unat (epoch_of s a) + 1" "s2 = s\<lparr>rs_epoch := (rs_epoch s)(a \<mapsto> ep)\<rparr>"
      by (auto simp: bump_epoch_Inr)
    have "tenant_step e a (tenant_of s a) ((tenant_of s a)\<lparr>t_epoch := ep\<rparr>)"
      by (rule tenant_step.upgrade [OF c(2)]) (use c ep authorized_live_tenant [OF assms(2), of e] in simp_all)
    then show ?thesis
      using assms(2) by (simp add: 2(2) ep(2) refines_def tenant_updates placed_updates only_writes_updates)
  qed (simp add: refines_stay [OF assms(2)])
qed

lemma hook_refines:
  "rcv_install e s p rl a = Inr s' \<Longrightarrow> placed s a \<Longrightarrow> refines e a s s'"
  "rcv_uninstall e s a = Inr s' \<Longrightarrow> placed s a \<Longrightarrow> refines e a s s'"
  by (auto simp: rcv_install_def rcv_uninstall_def result_simps refines_stay split: if_splits)

section \<open>Calls and histories\<close>

text \<open>
  A call on behalf of an account refines the specification. The only use of the invariant: the id
  of a new attempt is not the one named as authorized.
\<close>

lemma rcv_exec_refines:
  assumes ok: "rcv_exec e s c = Inr s'" and pl: "placed s a" and a: "call_account c = a"
    and inv: "tenant_inv n a h (tenant_of s a)"
  shows "refines e a s s'"
proof -
  have fresh: "rs_authorized s a \<noteq> Some (next_attempt_id s a)"
    using tenant_invD(3) [OF inv] by (auto simp: pointer_ok_def)
  show ?thesis
    using ok a
    by (cases c)
       (auto simp: drop_result_def result_simps begin_lost_key_def begin_compromise_def
          intro: hook_refines [OF _ pl] enforce_refines [OF _ pl] rcv_sync_refines [OF _ pl] rcv_cancel_refines [OF _ pl]
            rcv_upgrade_refines [OF _ pl] begin_refines [OF _ _ pl fresh] submit_guardian_refines [OF _ pl]
            submit_zk_refines [OF _ pl] approve_change_refines [OF _ pl] submit_zk_change_refines [OF _ pl]
            publish_baseline_refines [OF _ pl])
qed

end
