(* ===== verification/Controller_Safety.thy ===== *)
theory Controller_Safety
  imports Controller_Refines
begin

text \<open>
  Histories of calls of the recovery controller refine the specification for every account, and
  what follows for a client: what a completed recovery rests on, which attempts a transition
  ends, what a change of a protected configuration needs, and that nullifiers are spent once.
\<close>

section \<open>Losses and frames\<close>

text \<open>Losing a temporary entry of attempts is losing an attempt that was not authorized, or nothing.\<close>

lemma tenant_collecting:
  "tenant_of (s\<lparr>rs_collecting := f\<rparr>) a = (tenant_of s a)\<lparr>t_attempts := load_attempt (s\<lparr>rs_collecting := f\<rparr>) a\<rparr>"
  unfolding tenant_of_def epoch_of_def next_attempt_id_def by simp

lemma lose_collecting_tenant:
  assumes "placed s a" and s': "s' = s\<lparr>rs_collecting := (rs_collecting s)(k := None)\<rparr>"
  shows "placed s' a"
    and "tenant_of s' a = tenant_of s a \<or>
      (\<exists>i x. t_attempts (tenant_of s a) i = Some x \<and> at_state x \<noteq> St_Authorized \<and> at_state x \<noteq> St_Completed \<and>
         t_authorized (tenant_of s a) \<noteq> Some i \<and>
         tenant_of s' a = (tenant_of s a)\<lparr>t_attempts := (t_attempts (tenant_of s a))(i := None)\<rparr>)"
proof -
  obtain b i where k: "k = (b, i)" by (cases k)
  have sub: "load_attempt s' a i = Some x \<Longrightarrow> load_attempt s a i = Some x" for i x
    by (cases "rs_attempt s (a, i)") (simp_all add: s' load_attempt_def split: if_splits)
  have tmp: "rs_collecting s' (a, i) = Some x \<Longrightarrow> rs_collecting s (a, i) = Some x" for i x
    by (simp add: s' split: if_splits)
  have rest: "rs_attempt s' = rs_attempt s" "rs_authorized s' = rs_authorized s" by (simp_all add: s')
  note pD = assms(1) [unfolded placed_def]
  show "placed s' a" unfolding placed_def rest
    by (intro conjI allI impI) (use pD sub tmp in blast)+
  have t': "tenant_of s' a = (tenant_of s a)\<lparr>t_attempts := load_attempt s' a\<rparr>"
    unfolding s' by (rule tenant_collecting)
  show "tenant_of s' a = tenant_of s a \<or>
      (\<exists>i x. t_attempts (tenant_of s a) i = Some x \<and> at_state x \<noteq> St_Authorized \<and> at_state x \<noteq> St_Completed \<and>
         t_authorized (tenant_of s a) \<noteq> Some i \<and>
         tenant_of s' a = (tenant_of s a)\<lparr>t_attempts := (t_attempts (tenant_of s a))(i := None)\<rparr>)"
  proof (cases "b = a \<and> rs_attempt s (a, i) = None \<and> rs_collecting s (a, i) \<noteq> None")
    case True
    then obtain x where x: "rs_collecting s (a, i) = Some x" by auto
    then have "load_attempt s a i = Some x" "load_attempt s' a = (load_attempt s a)(i := None)"
      using True by (auto simp: s' k load_attempt_def fun_eq_iff split: option.splits)
    moreover have "at_state x \<noteq> St_Authorized" "at_state x \<noteq> St_Completed" "rs_authorized s a \<noteq> Some i"
      using assms(1) x True by (auto simp: placed_def)
    ultimately show ?thesis using t' by auto
  next
    case False
    then have "load_attempt s' a = load_attempt s a"
      by (auto simp: s' k load_attempt_def fun_eq_iff split: option.splits)
    then show ?thesis using t' by (simp add: tenant_of_def)
  qed
qed

lemma lose_marker_tenant:
  "tenant_of (s\<lparr>rs_completing := (rs_completing s)(b := None)\<rparr>) a =
     (if b = a then (tenant_of s a)\<lparr>t_completing := None\<rparr> else tenant_of s a)"
proof (cases "b = a")
  case False
  then have "slice_of (s\<lparr>rs_completing := (rs_completing s)(b := None)\<rparr>) a = slice_of s a"
    using only_writes_updates(6) [of b s None] unfolding only_writes_def by simp
  then show ?thesis unfolding if_not_P [OF False] by (rule tenant_of_slice)
qed (simp add: tenant_updates(6))

text \<open>A call for one account leaves the rest of the storage alone, whatever the state.\<close>

lemma frame_bump: "bump_epoch s a = Inr (ep, s1) \<Longrightarrow> only_writes a s s1"
  by (auto simp: bump_epoch_Inr only_writes_updates)

lemma frame_parts:
  "store_config s a c = Inr s1 \<Longrightarrow> only_writes a s s1"
  "count_cancel s a c b = Inr s1 \<Longrightarrow> only_writes a s s1"
  "clear_authorized e s a c i b = Inr s1 \<Longrightarrow> only_writes a s s1"
  "freeze e s a c i x = Inr s1 \<Longrightarrow> only_writes a s s1"
  by (auto simp: store_config_def count_cancel_def clear_authorized_def freeze_def result_simps Let_def
      only_writes_updates split: if_splits intro: only_writes_trans [OF only_writes_updates(1) frame_bump])

lemma frame_evidence:
  "promote e s a c x = Inr (y, s1) \<Longrightarrow> only_writes a s s1"
  "cancel_attempt e s a c x b = Inr s1 \<Longrightarrow> only_writes a s s1"
  by (auto simp: promote_def cancel_attempt_def result_simps Let_def split: if_splits
      intro: only_writes_trans [OF only_writes_updates(10) frame_parts(4)]
        only_writes_trans [OF frame_parts(2) only_writes_trans [OF only_writes_save frame_parts(3)]])

lemma frame_after_evidence: "after_evidence e s a c x dm = Inr s1 \<Longrightarrow> only_writes a s s1"
  by (cases dm) (auto simp: after_evidence_def result_simps only_writes_save split: if_splits
      intro: only_writes_trans [OF frame_evidence(1) only_writes_save] frame_evidence(2))

lemma frame_complete:
  assumes "complete e s a m new dh = Inr (out, s1)"
  shows "only_writes a s s1"
proof -
  obtain x c s2 s4 where s2: "(case at_zk_nullifier x of None \<Rightarrow> Inr s
              | Some k \<Rightarrow> if rs_nullifier s (a, k) \<noteq> None then fail NullifierSpent
                          else Inr (s\<lparr>rs_nullifier := (rs_nullifier s)((a, k) \<mapsto> True)\<rparr>)) = Inr s2"
    and s4: "store_config ((save_attempt e s2 a (x\<lparr>at_state := St_Completed\<rparr>))\<lparr>rs_authorized :=
        (rs_authorized (save_attempt e s2 a (x\<lparr>at_state := St_Completed\<rparr>)))(a := None)\<rparr>) a c = Inr s4"
    and s1: "only_writes a s4 s1"
    using assms by (auto simp: complete_def result_simps Let_def split: if_splits)
  have "only_writes a s s2" using s2 by (auto simp: only_writes_updates split: option.splits if_splits)
  moreover have "only_writes a s2 s4"
    by (rule only_writes_trans [OF only_writes_save only_writes_trans [OF only_writes_updates(4) frame_parts(1) [OF s4]]])
  ultimately show ?thesis using s1 only_writes_trans by blast
qed

lemma frame_sync_change: "sync_change e s a st new u = Inr (out, s1) \<Longrightarrow> only_writes a s s1"
  by (auto simp: sync_change_def result_simps Let_def split: if_splits option.splits
      intro: frame_parts(1) only_writes_trans [OF only_writes_updates(11) frame_bump])


lemma rcv_upgrade_frame: "rcv_upgrade e s a st = Inr (ep, s1) \<Longrightarrow> only_writes a s s1"
  by (cases st) (auto simp: rcv_upgrade_def result_simps intro: frame_bump split: if_splits)

lemma begin_frame: "begin_attempt e s a action rset = Inr (i, s1) \<Longrightarrow> only_writes a s s1"
  using only_writes_trans [OF only_writes_updates(3) only_writes_save]
  by (fastforce dest!: begin_attempt_Inr)

lemma rcv_sync_frame: "rcv_sync e s a dh cs u = Inr (out, s1) \<Longrightarrow> only_writes a s s1"
  by (auto simp: rcv_sync_def Let_def result_simps split: option.splits if_splits
      intro: frame_sync_change only_writes_trans [OF only_writes_updates(6) frame_sync_change]
        only_writes_trans [OF only_writes_updates(6) frame_complete])

lemma hook_frame:
  "rcv_install e s p rl a = Inr s1 \<Longrightarrow> only_writes a s s1"
  "rcv_enforce e s ctx sg rl a = Inr s1 \<Longrightarrow> only_writes a s s1"
  "rcv_uninstall e s a = Inr s1 \<Longrightarrow> only_writes a s s1"
  "rcv_cancel e s a i = Inr s1 \<Longrightarrow> only_writes a s s1"
  by (auto simp: rcv_install_def rcv_enforce_def authorize_completion_def rcv_uninstall_def rcv_cancel_def result_simps
      only_writes_updates split: if_splits auth_context.splits intro: frame_evidence(2))

lemma evidence_frame:
  "submit_guardian e s a i dm g = Inr s1 \<Longrightarrow> only_writes a s s1"
  "submit_zk e s a i dm ev = Inr s1 \<Longrightarrow> only_writes a s s1"
  by (auto simp: submit_guardian_def submit_zk_def result_simps split: if_splits intro: frame_after_evidence)

lemma approval_frame:
  "approve_change e s a sj u g = Inr s1 \<Longrightarrow> only_writes a s s1"
  "submit_zk_change e s a sj u ev = Inr s1 \<Longrightarrow> only_writes a s s1"
  "publish_baseline e s a b = Inr s1 \<Longrightarrow> only_writes a s s1"
  by (auto simp: approve_change_def submit_zk_change_def publish_baseline_def store_approval_def result_simps Let_def
      only_writes_updates split: if_splits)

lemma rcv_exec_frame:
  assumes "rcv_exec e s c = Inr s'"
  shows "only_writes (call_account c) s s'"
  using assms
  by (cases c)
     (auto simp: drop_result_def and_then_eq_Inr begin_lost_key_def begin_compromise_def
        intro: hook_frame rcv_sync_frame rcv_upgrade_frame begin_frame evidence_frame approval_frame)

interpretation rcv_tenants: tenant_store rcv_exec call_account slice_of
proof unfold_locales
  fix e s c s' k
  assume "rcv_exec e s c = Inr s'" "k \<noteq> call_account c"
  then show "slice_of s' k = slice_of s k" using rcv_exec_frame [of e s c s'] by (simp add: only_writes_def)
qed

text \<open>The reachable states of the controller are reachable tenants of the specification.\<close>

lemma reach_refines:
  "rcv_reach n h s \<Longrightarrow> placed s a \<and> tenant_reach n a (map fst h) (tenant_of s a)"
proof (induction rule: rcv_reach.induct)
  case reach_init
  have "tenant_of initial_storage a = initial_tenant"
    by (simp add: tenant_of_def initial_storage_def initial_tenant_def epoch_of_def next_attempt_id_def or_default_def
        load_attempt_def fun_eq_iff)
  then show ?case by (auto simp: placed_def initial_storage_def load_attempt_def intro: tenant_reach.t_init)
next
  case (reach_call h s e c s')
  show ?case
  proof (cases "call_account c = a")
    case True
    have "refines e a s s'"
      using rcv_exec_refines [OF reach_call.hyps(3) _ True] tenant_reach_inv reach_call.IH by blast
    then show ?thesis
      using reach_call.IH reach_call.hyps(2) by (auto simp: refines_def intro: tenant_reach.t_step)
  next
    case False
    then have sl: "slice_of s' a = slice_of s a"
      using rcv_exec_frame [OF reach_call.hyps(3)] by (auto simp: only_writes_def)
    show ?thesis
      using reach_call.IH reach_call.hyps(2) placed_slice [OF sl] tenant_of_slice [OF sl]
      by (auto intro: tenant_reach.t_step tenant_step.stay)
  qed
next
  case (reach_lose_collecting h s k)
  let ?s = "s\<lparr>rs_collecting := (rs_collecting s)(k := None)\<rparr>"
  note lost = lose_collecting_tenant [OF conjunct1 [OF reach_lose_collecting.IH] refl, of k]
  from lost(2) have "tenant_reach n a (map fst h) (tenant_of ?s a)"
  proof (elim disjE exE conjE)
    fix i x
    assume "t_attempts (tenant_of s a) i = Some x" "at_state x \<noteq> St_Authorized" "at_state x \<noteq> St_Completed"
      "t_authorized (tenant_of s a) \<noteq> Some i"
      and t: "tenant_of ?s a = (tenant_of s a)\<lparr>t_attempts := (t_attempts (tenant_of s a))(i := None)\<rparr>"
    then show ?thesis
      unfolding t using reach_lose_collecting.IH by (intro tenant_reach.t_lose_attempt) blast+
  qed (use reach_lose_collecting.IH in simp)
  then show ?case using lost(1) by blast
next
  case (reach_lose_marker h s b)
  then show ?case
    by (auto simp: lose_marker_tenant placed_updates intro: tenant_reach.t_lose_marker)
qed


section \<open>A concrete recovery\<close>

text \<open>
  Histories that run, newest call first, and one of them: an account under \<open>Protected\<close> with a
  guardian and a ZK factor, whose lost-key attempt is authorized and completed. The theorems
  below are applied to it.
\<close>

fun rcv_run :: "history \<Rightarrow> recovery_storage rcv" where
  "rcv_run [] = Inr initial_storage"
| "rcv_run ((e, c) # h) = and_then (rcv_run h) (\<lambda>s. rcv_exec e s c)"

lemma reach_run: "rcv_run h = Inr s \<Longrightarrow> \<forall>(e, c) \<in> set h. ce_chain e = n \<Longrightarrow> rcv_reach n h s"
proof (induction h arbitrary: s)
  case (Cons a h)
  then show ?case by (cases a) (auto simp: and_then_eq_Inr intro: rcv_reach.reach_call)
qed (simp add: rcv_reach.reach_init)

definition demo_chain :: recovery_chain where
  "demo_chain = \<lparr>rn_sha256 = (\<lambda>_. 9), rn_xdr = demo_xdr, rn_network_id = 3, rn_self = ContractId 2, rn_max_ttl = 1000\<rparr>"

definition demo_env_with :: "(address \<Rightarrow> recovery_statement \<Rightarrow> zk_binding \<Rightarrow> zk_evidence \<Rightarrow> unit option) \<Rightarrow> u32 \<Rightarrow> recovery_env"
  where
  "demo_env_with vf now =
     \<lparr>ce_chain = demo_chain, ce_now = now, ce_auth = (\<lambda>_. True), ce_auth_for_args = (\<lambda>_ _. True),
      ce_account = (\<lambda>_. \<lparr>av_applied_doc = Some (Some [1]), av_applied_doc_hash = Some (Some 5),
        av_doc_compiler = Some (ContractId 40), av_is_revoked = (\<lambda>_. Some False), av_is_enrolled_id = (\<lambda>_. Some False),
        av_rcv_gate = (\<lambda>_ _. Some ())\<rparr>),
      ce_compile_doc = (\<lambda>_ _. None),
      ce_derive_target = (\<lambda>_ _ _ _ _. Some \<lparr>dt_canonical = [2], dt_doc_hash = 6, dt_config_hash = 51,
        dt_fingerprints = [7], dt_replaced = [Cred_Delegated (ContractId 60)]\<rparr>),
      ce_verify = vf, ce_circuit_id = (\<lambda>_. Some 9), ce_tree_depth = (\<lambda>_. Some 20),
      ce_pool_depth = (\<lambda>_. Some 20)\<rparr>"

abbreviation demo_rcv_env :: "u32 \<Rightarrow> recovery_env" where
  "demo_rcv_env \<equiv> demo_env_with (\<lambda>_ _ _ _. Some ())"

definition demo_config :: "bytes32 \<Rightarrow> compiled_recovery_config" where
  "demo_config hash =
     \<lparr>cc_config_hash = hash, cc_profile = CP_Protected,
      cc_mode = CM_Combined \<lparr>cg_guardians = [ContractId 20], cg_quorum = 1\<rparr>
        \<lparr>cz_adapter = ContractId 30, cz_circuit_id = 9, cz_pool = ContractId 32, cz_enrollment_id = hash, cz_commitment = 34\<rparr>,
      cc_controller = ContractId 2, cc_baseline = None, cc_replaceable = [],
      cc_delay_ledgers = 10, cc_expiry_ledgers = 100, cc_max_cancels = 3\<rparr>"

definition demo_evidence :: zk_evidence where "demo_evidence = \<lparr>ev_tree_id = 0, ev_root = 71, ev_nullifier = 70, ev_proof = []\<rparr>"

definition demo_attempt :: attempt where
  "demo_attempt = \<lparr>at_id = 0, at_action = RA_LostKey, at_epoch = 1, at_created_at = 101,
    at_evidence_deadline = 201, at_cancel_until = 311, at_authorized_at = 0, at_executable_after = 0, at_expires_at = 0,
    at_source_doc_hash = 5, at_target_doc_hash = 6, at_target_bytes_hash = 9, at_target_config_hash = 51,
    at_replacements_hash = 9, at_replaced = [Cred_Delegated (ContractId 60)], at_state = St_Collecting, at_guardians = [],
    at_zk_nullifier = None, at_cancel_guardians = [], at_cancel_zk = False\<rparr>"

definition demo_s1 :: recovery_storage where
  "demo_s1 = initial_storage\<lparr>rs_config := [ContractId 1 \<mapsto> demo_config 50], rs_epoch := [ContractId 1 \<mapsto> 1],
     rs_effects := [Ev_EpochAdvanced (ContractId 1) 1 (Some 50)]\<rparr>"

lemmas demo_simps = demo_chain_def demo_env_with_def demo_config_def initial_storage_def or_default_def epoch_of_def
  require_config_def rcv_require_auth_def Let_def invoke_def checked_add_def add_effect_def

lemma demo_sync: "rcv_sync (demo_env_with vf 100) initial_storage (ContractId 1) 5 [demo_config 50] 0 = Inr (Enrolled, demo_s1)"
  by (simp add: demo_simps rcv_sync_def sync_change_def authorized_live_def check_config_def config_guardians_def
     config_zk_def check_zk_wiring_def zk_factor_transition_ok_def store_config_def bump_epoch_def demo_s1_def)

definition demo_s2 :: recovery_storage where
  "demo_s2 = demo_s1\<lparr>rs_next_attempt := [ContractId 1 \<mapsto> 1], rs_collecting := [(ContractId 1, 0) \<mapsto> demo_attempt],
     rs_effects := rs_effects demo_s1 @ [Ev_AttemptBegun (ContractId 1) 0 RA_LostKey 6]\<rparr>"

definition demo_rset :: replacement_set where
  "demo_rset = \<lparr>rs_signers = [], rs_zk_enrollment = [\<lparr>ze_id = 51, ze_commitment = 1\<rparr>]\<rparr>"

lemma demo_begin: "begin_lost_key (demo_env_with vf 101) demo_s1 (ContractId 1) demo_rset = Inr (0, demo_s2)"
  by (simp add: demo_simps begin_lost_key_def begin_attempt_def demo_s1_def demo_s2_def authorized_live_def replacements_hash_def
    replacements_encode_def encode_enrollment_def demo_rset_def config_zk_def begin_source_def begin_derive_def open_attempt_def
    add_ledgers_def fingerprint_def tagged_address_eq [OF demo_xdr_laws] replaced_credentials_leave_def save_attempt_def
    saturating_add_def saturating_sub_def demo_attempt_def)

definition demo_attempt2 :: attempt where "demo_attempt2 = demo_attempt\<lparr>at_guardians := [ContractId 20]\<rparr>"

definition demo_s3 :: recovery_storage where
  "demo_s3 = demo_s2\<lparr>rs_collecting := [(ContractId 1, 0) \<mapsto> demo_attempt2]\<rparr>"

lemma demo_guardian: "submit_guardian (demo_env_with vf 102) demo_s2 (ContractId 1) 0 Initiate (ContractId 20) = Inr demo_s3"
  by (simp add: demo_simps submit_guardian_def demo_s2_def demo_s1_def demo_s3_def config_guardians_def config_zk_def load_live_def
   load_attempt_def is_live_def demo_attempt_def demo_attempt2_def count_guardian_def attempt_statement_def initiation_statement_def
   rcv_digest_def statement_digest_def statement_encode_def contract_id_eq [OF demo_xdr_laws] rcv_check_fresh_def check_fresh_def make_statement_def statement_action_def after_evidence_def initiation_met_def is_none_or_def
   save_attempt_def saturating_add_def saturating_sub_def)

definition demo_attempt3 :: attempt where
  "demo_attempt3 = demo_attempt2\<lparr>at_zk_nullifier := Some 70, at_state := St_Authorized, at_authorized_at := 103,
     at_executable_after := 113, at_expires_at := 213\<rparr>"

definition demo_s4 :: recovery_storage where
  "demo_s4 = demo_s3\<lparr>rs_invalidate_below := [ContractId 1 \<mapsto> 1], rs_authorized := [ContractId 1 \<mapsto> 0],
     rs_collecting := Map.empty, rs_attempt := [(ContractId 1, 0) \<mapsto> demo_attempt3],
     rs_effects := rs_effects demo_s3 @ [Call_rcv_gate (ContractId 1) 0 213, Ev_AttemptAuthorized (ContractId 1) 0 113 213]\<rparr>"

lemmas demo_states = demo_s1_def demo_s2_def demo_s3_def demo_s4_def demo_attempt_def demo_attempt2_def demo_attempt3_def

lemmas demo_evidence_simps = config_guardians_def config_zk_def load_live_def load_attempt_def is_live_def
  attempt_statement_def initiation_statement_def make_statement_def rcv_digest_def statement_digest_def
  statement_encode_def contract_id_eq [OF demo_xdr_laws] rcv_check_fresh_def check_fresh_def statement_action_def
  after_evidence_def initiation_met_def is_none_or_def save_attempt_def saturating_add_def saturating_sub_def
  authorized_live_def

lemma demo_proof:
  assumes "\<And>st b. st_account st = ContractId 1 \<Longrightarrow> st_controller st = ContractId 2 \<Longrightarrow> zb_circuit_id b = 9 \<Longrightarrow> vf (ContractId 30) st b ev = Some ()"
    and "ev_nullifier ev = 70"
  shows "submit_zk (demo_env_with vf 103) demo_s3 (ContractId 1) 0 Initiate ev = Inr demo_s4"
  using assms
  by (simp add: demo_simps demo_states demo_evidence_simps submit_zk_def proof_uncounted_def verify_zk_def zk_factor_binding_def count_proof_def promote_def
      add_ledgers_def freeze_def)

definition demo_ctx :: auth_context where
  "demo_ctx = Ctx_Contract \<lparr>cc_contract = ContractId 1, cc_fn_name = ''apply_doc'', cc_args = [V_Bytes [2]]\<rparr>"

definition demo_rule :: context_rule where
  "demo_rule = \<lparr>xr_signers = [], xr_context_type = CR_CallContract (ContractId 1)\<rparr>"

definition demo_s5 :: recovery_storage where
  "demo_s5 = demo_s4\<lparr>rs_completing := [ContractId 1 \<mapsto> \<lparr>cm_attempt_id = 0, cm_target_doc_hash = 6, cm_ledger = 120\<rparr>]\<rparr>"

lemma demo_enforce: "rcv_enforce (demo_env_with vf 120) demo_s4 demo_ctx [] demo_rule (ContractId 1) = Inr demo_s5"
  by (simp add: demo_simps demo_states demo_s5_def demo_ctx_def demo_rule_def rcv_enforce_def assert_recovery_rule_def
      authorize_completion_def first_bytes_def authorized_live_def is_live_def)

lemma demo_completed:
  "\<exists>s'. rcv_sync (demo_env_with vf 120) demo_s5 (ContractId 1) 6 [demo_config 51] 0 =
     Inr (Completed \<lparr>co_attempt_id = 0, co_replaced = [Cred_Delegated (ContractId 60)]\<rparr>, s')"
  by (simp add: demo_simps demo_states demo_s5_def rcv_sync_def marker_current_def authorized_live_def is_live_def
      complete_def store_config_def bump_epoch_def save_attempt_def)

definition demo_history_with :: "(address \<Rightarrow> recovery_statement \<Rightarrow> zk_binding \<Rightarrow> zk_evidence \<Rightarrow> unit option)
    \<Rightarrow> zk_evidence \<Rightarrow> history" where
  "demo_history_with vf ev =
     [(demo_env_with vf 120, C_enforce demo_ctx [] demo_rule (ContractId 1)),
      (demo_env_with vf 103, C_submit_zk (ContractId 1) 0 Initiate ev),
      (demo_env_with vf 102, C_submit_guardian (ContractId 1) 0 Initiate (ContractId 20)),
      (demo_env_with vf 101, C_begin_lost_key (ContractId 1) demo_rset),
      (demo_env_with vf 100, C_sync (ContractId 1) 5 [demo_config 50] 0)]"

abbreviation demo_history :: history where
  "demo_history \<equiv> demo_history_with (\<lambda>_ _ _ _. Some ()) demo_evidence"

lemma demo_proof_plain: "submit_zk (demo_rcv_env 103) demo_s3 (ContractId 1) 0 Initiate demo_evidence = Inr demo_s4"
  by (rule demo_proof) (simp_all add: demo_evidence_def)

lemma demo_reach_with:
  assumes "\<And>st b. st_account st = ContractId 1 \<Longrightarrow> st_controller st = ContractId 2 \<Longrightarrow> zb_circuit_id b = 9 \<Longrightarrow> vf (ContractId 30) st b ev = Some ()"
    and "ev_nullifier ev = 70"
  shows "rcv_reach demo_chain (drop 4 (demo_history_with vf ev)) demo_s1" "rcv_reach demo_chain (drop 2 (demo_history_with vf ev)) demo_s3"
    "rcv_reach demo_chain (tl (demo_history_with vf ev)) demo_s4" "rcv_reach demo_chain (demo_history_with vf ev) demo_s5"
proof -
  have pr: "submit_zk (demo_env_with vf 103) demo_s3 (ContractId 1) 0 Initiate ev = Inr demo_s4"
    by (rule demo_proof) (simp_all add: assms)
  show "rcv_reach demo_chain (drop 4 (demo_history_with vf ev)) demo_s1" "rcv_reach demo_chain (drop 2 (demo_history_with vf ev)) demo_s3"
    "rcv_reach demo_chain (tl (demo_history_with vf ev)) demo_s4" "rcv_reach demo_chain (demo_history_with vf ev) demo_s5"
    by (auto intro!: reach_run simp: demo_history_with_def drop_result_def demo_sync demo_begin demo_guardian pr
        demo_enforce) (auto simp: demo_env_with_def)
qed

lemma demo_reach:
  "rcv_reach demo_chain (drop 4 demo_history) demo_s1" "rcv_reach demo_chain (drop 2 demo_history) demo_s3"
  "rcv_reach demo_chain (tl demo_history) demo_s4" "rcv_reach demo_chain demo_history demo_s5"
  by (rule demo_reach_with; simp add: demo_evidence_def)+

section \<open>Properties of the controller\<close>

text \<open>Facts of a reachable state, as the theorems use them.\<close>

lemma reach_facts:
  assumes "rcv_reach n h s"
  shows "placed s a" "tenant_inv n a (map fst h) (tenant_of s a)"
  using reach_refines [OF assms, of a] tenant_reach_inv by blast+

text \<open>What the invariant says of the authorized attempt: its evidence and its window.\<close>

lemma authorized_evidence:
  assumes inv: "tenant_inv n a h t" and x: "t_authorized_live e t = Some x"
  shows "\<exists>c. t_config t = Some c \<and> at_authorized_at x \<le> at_evidence_deadline x \<and>
    unat (at_executable_after x) = unat (at_authorized_at x) + unat (cc_delay_ledgers c) \<and>
    (\<forall>gs. config_guardians c = Some gs \<longrightarrow>
       (\<exists>G \<subseteq> set (cg_guardians gs). unat (cg_quorum gs) \<le> card G \<and>
          (\<forall>g \<in> G. \<exists>d. rcv_digest n (initiation_statement n a c x) = Inr d \<and> approved h g d))) \<and>
    (\<forall>z. config_zk c = Some z \<longrightarrow>
       (\<exists>k. at_zk_nullifier x = Some k \<and> proved h z (initiation_statement n a c x) k))"
proof -
  note xD = authorized_live_SomeD [OF inv x]
  obtain c where c: "t_config t = Some c" and ev: "evidence_ok n a h c x" and w: "window_ok h c x"
    using tenant_invD(1) [OF inv xD(1)] xD(5) by (auto simp: attempt_ok_def)
  have met: "initiation_met c x" using w xD(3) by (simp add: window_ok_def)
  have "\<exists>G \<subseteq> set (cg_guardians gs). unat (cg_quorum gs) \<le> card G \<and>
          (\<forall>g \<in> G. \<exists>d. rcv_digest n (initiation_statement n a c x) = Inr d \<and> approved h g d)"
    if "config_guardians c = Some gs" for gs
    using that ev met
    by (intro exI [of _ "set (at_guardians x)"])
       (auto simp: evidence_ok_def initiation_met_def is_none_or_def enrolled_guardian_def distinct_card)
  moreover have "\<exists>k. at_zk_nullifier x = Some k \<and> proved h z (initiation_statement n a c x) k"
    if "config_zk c = Some z" for z
    using that ev met by (auto simp: evidence_ok_def initiation_met_def is_none_or_def)
  ultimately show ?thesis using c w xD(3) by (auto simp: window_ok_def)
qed

lemma completion_epoch:
  assumes "rcv_reach n h s" "rcv_sync e s a dh cs u = Inr (Completed co, s')"
  shows "unat (epoch_of s' a) = unat (epoch_of s a) + 1"
proof -
  let ?s = "s\<lparr>rs_completing := (rs_completing s)(a := None)\<rparr>"
  note pl = reach_facts(1) [OF assms(1), of a]
  obtain m where cp: "complete e ?s a m (case cs of [] \<Rightarrow> None | c # _ \<Rightarrow> Some c) dh = Inr (Completed co, s')"
    using rcv_sync_cases [OF assms(2) pl] by auto
  obtain x c ep where "unat ep = unat (epoch_of ?s a) + 1" and t': "tenant_of s' a = (tenant_of ?s a)\<lparr>
       t_spent := t_spent (tenant_of ?s a) \<union> set_option (at_zk_nullifier x),
       t_attempts := (t_attempts (tenant_of ?s a))(at_id x \<mapsto> x\<lparr>at_state := St_Completed\<rparr>), t_authorized := None,
       t_config := Some c, t_epoch := ep\<rparr>"
    using complete_Inr [OF cp placed_updates(3) [OF pl]] by auto
  moreover have "epoch_of s' a = ep" using arg_cong [OF t', of t_epoch] by simp
  ultimately show ?thesis by (simp add: epoch_of_def)
qed

lemma completion_core:
  assumes "rcv_reach n h s" "ce_chain e = n" "rcv_sync e s a dh cs u = Inr (Completed co, s')"
  shows "\<exists>x c new rest. rs_config s a = Some c \<and> cs = new # rest \<and>
    load_attempt s a (co_attempt_id co) = Some x \<and> at_state x = St_Authorized \<and> at_epoch x = epoch_of s a \<and>
    co_replaced co = at_replaced x \<and> dh = at_target_doc_hash x \<and> cc_config_hash new = at_target_config_hash x \<and>
    cc_controller new = rn_self n \<and>
    at_executable_after x \<le> ce_now e \<and> ce_now e < at_expires_at x \<and> at_authorized_at x \<le> at_evidence_deadline x \<and>
    unat (at_executable_after x) = unat (at_authorized_at x) + unat (cc_delay_ledgers c) \<and>
    (\<forall>gs. config_guardians c = Some gs \<longrightarrow>
       (\<exists>G \<subseteq> set (cg_guardians gs). unat (cg_quorum gs) \<le> card G \<and>
          (\<forall>g \<in> G. \<exists>d. rcv_digest n (initiation_statement n a c x) = Inr d \<and> approved (map fst h) g d))) \<and>
    (\<forall>z. config_zk c = Some z \<longrightarrow>
       (\<exists>k. proved (map fst h) z (initiation_statement n a c x) k \<and>
          \<not> nullifier_spent s a k \<and> nullifier_spent s' a k)) \<and>
    rs_config s' a = Some new \<and> unat (epoch_of s' a) = unat (epoch_of s a) + 1 \<and> rs_authorized s' a = None"
proof -
  let ?s = "s\<lparr>rs_completing := (rs_completing s)(a := None)\<rparr>" and ?t = "tenant_of s a" and ?h = "map fst h"
  note pl = reach_facts(1) [OF assms(1), of a] and inv = reach_facts(2) [OF assms(1), of a]
  have p1: "placed ?s a" by (rule placed_updates(3) [OF pl])
  obtain m where m: "rs_completing s a = Some m" "cm_ledger m = ce_now e"
    and cp: "complete e ?s a m (case cs of [] \<Rightarrow> None | c # _ \<Rightarrow> Some c) dh = Inr (Completed co, s')"
    using rcv_sync_cases [OF assms(3) pl] by auto
  obtain x new ep where x: "authorized_live e ?s a = Some x" "at_id x = cm_attempt_id m" "dh = at_target_doc_hash x"
      "(case cs of [] \<Rightarrow> None | c # _ \<Rightarrow> Some c) = Some new" "cc_controller new = rn_self (ce_chain e)"
      "cc_config_hash new = at_target_config_hash x" "set_option (at_zk_nullifier x) \<inter> t_spent (tenant_of ?s a) = {}"
      "unat ep = unat (epoch_of ?s a) + 1" "co = \<lparr>co_attempt_id = at_id x, co_replaced = at_replaced x\<rparr>"
    and t': "tenant_of s' a = (tenant_of ?s a)\<lparr>t_spent := t_spent (tenant_of ?s a) \<union> set_option (at_zk_nullifier x),
       t_attempts := (t_attempts (tenant_of ?s a))(at_id x \<mapsto> x\<lparr>at_state := St_Completed\<rparr>), t_authorized := None,
       t_config := Some new, t_epoch := ep\<rparr>"
    using complete_Inr [OF cp p1] by auto
  have live: "t_authorized_live e ?t = Some x"
    using x(1) authorized_live_tenant [OF p1, of e] tenant_updates(6) [of s a None] by simp
  note xD = authorized_live_SomeD [OF inv live]
  obtain c where c: "rs_config s a = Some c" and ev: "at_authorized_at x \<le> at_evidence_deadline x"
    "unat (at_executable_after x) = unat (at_authorized_at x) + unat (cc_delay_ledgers c)"
    "\<forall>gs. config_guardians c = Some gs \<longrightarrow>
       (\<exists>G \<subseteq> set (cg_guardians gs). unat (cg_quorum gs) \<le> card G \<and>
          (\<forall>g \<in> G. \<exists>d. rcv_digest n (initiation_statement n a c x) = Inr d \<and> approved ?h g d))"
    "\<forall>z. config_zk c = Some z \<longrightarrow>
       (\<exists>k. at_zk_nullifier x = Some k \<and> proved ?h z (initiation_statement n a c x) k)"
    using authorized_evidence [OF inv live] by auto
  have ex: "at_executable_after x \<le> ce_now e"
    using tenant_invD(2) [OF inv] m x(2) xD(1) by (auto simp: marker_ok_def)
  obtain rest where cs: "cs = new # rest" using x(4) by (cases cs) auto
  have sp: "nullifier_spent s' a k \<and> \<not> nullifier_spent s a k" if "at_zk_nullifier x = Some k" for k
    using that x(7) arg_cong [OF t', of t_spent] by (auto simp: nullifier_spent_def set_eq_iff)
  have post: "rs_config s' a = Some new" "epoch_of s' a = ep" "rs_authorized s' a = None" "epoch_of ?s a = epoch_of s a"
    using arg_cong [OF t', of t_config] arg_cong [OF t', of t_epoch] arg_cong [OF t', of t_authorized]
    by (simp_all add: epoch_of_def)
  show ?thesis
    by (rule exI [of _ x], rule exI [of _ c], rule exI [of _ new], rule exI [of _ rest], intro conjI)
       (use c ex cs post x xD assms(2) ev(1,2) in \<open>simp; fail\<close> | use ev(3) in \<open>blast; fail\<close> | use ev(4) sp in blast)+
qed


text \<open>
  C6. A recovery completes only for an attempt that was authorized: the submitted document is the
  target the attempt froze and the configuration the one it carries; the call falls in the window
  that opens a full delay after the authorization; at least a quorum of distinct enrolled
  guardians authorized the digest of the attempt's own statement, and the enrolled adapter accepted
  a proof for it with a nullifier that was unspent and is spent by the completion.
\<close>

theorem completion_is_authorized:
  assumes "rcv_reach n h s" "ce_chain e = n" "rcv_sync e s a dh cs u = Inr (Completed co, s')"
  shows "\<exists>x c new rest. rs_config s a = Some c \<and> cs = new # rest \<and>
    load_attempt s a (co_attempt_id co) = Some x \<and> at_state x = St_Authorized \<and> at_epoch x = epoch_of s a \<and>
    co_replaced co = at_replaced x \<and> dh = at_target_doc_hash x \<and> cc_config_hash new = at_target_config_hash x \<and>
    cc_controller new = rn_self n \<and>
    at_executable_after x \<le> ce_now e \<and> ce_now e < at_expires_at x \<and> at_authorized_at x \<le> at_evidence_deadline x \<and>
    unat (at_executable_after x) = unat (at_authorized_at x) + unat (cc_delay_ledgers c) \<and>
    (\<forall>gs. config_guardians c = Some gs \<longrightarrow>
       (\<exists>G \<subseteq> set (cg_guardians gs). unat (cg_quorum gs) \<le> card G \<and>
          (\<forall>g \<in> G. \<exists>d. rcv_digest n (initiation_statement n a c x) = Inr d \<and> approved (map fst h) g d))) \<and>
    (\<forall>z. config_zk c = Some z \<longrightarrow>
       (\<exists>k. proved (map fst h) z (initiation_statement n a c x) k \<and>
          \<not> nullifier_spent s a k \<and> nullifier_spent s' a k)) \<and>
    rs_config s' a = Some new \<and> unat (epoch_of s' a) = unat (epoch_of s a) + 1 \<and> rs_authorized s' a = None"
  by (rule completion_core [OF assms])

text \<open>Witness of C6: the demo recovery completes in its window.\<close>

theorem completion_is_authorized_witness:
  "\<exists>x. rcv_reach demo_chain demo_history demo_s5 \<and> load_attempt demo_s5 (ContractId 1) 0 = Some x \<and>
     at_executable_after x \<le> 120 \<and> 120 < at_expires_at x"
proof -
  obtain s' where r: "rcv_sync (demo_rcv_env 120) demo_s5 (ContractId 1) 6 [demo_config 51] 0 =
     Inr (Completed \<lparr>co_attempt_id = 0, co_replaced = [Cred_Delegated (ContractId 60)]\<rparr>, s')"
    using demo_completed by (rule exE)
  have "ce_chain (demo_rcv_env 120) = demo_chain" "ce_now (demo_rcv_env 120) = 120" by (simp_all add: demo_env_with_def)
  then show ?thesis using completion_is_authorized [OF demo_reach(4) _ r] demo_reach(4) by auto
qed

text \<open>
  C5. Every successful call is a transition of the specification for the account it names, from
  every reachable state, and leaves what every other account sees as it was.
\<close>

theorem controller_refines_spec:
  assumes "rcv_reach n h s" "ce_chain e = n" "rcv_exec e s c = Inr s'"
  shows "tenant_step e (call_account c) (tenant_of s (call_account c)) (tenant_of s' (call_account c)) \<and>
    (\<forall>b. b \<noteq> call_account c \<longrightarrow> slice_of s' b = slice_of s b)"
proof -
  note f = reach_facts [OF assms(1), of "call_account c"]
  show ?thesis
    using rcv_exec_refines [OF assms(3) f(1) refl f(2)] rcv_tenants.frame [OF assms(3)] by (simp add: refines_def)
qed

text \<open>Witness of C5: the call that authorizes the demo attempt.\<close>

theorem controller_refines_spec_witness:
  "tenant_step (demo_rcv_env 103) (ContractId 1) (tenant_of demo_s3 (ContractId 1)) (tenant_of demo_s4 (ContractId 1)) \<and>
   slice_of demo_s4 (ContractId 2) = slice_of demo_s3 (ContractId 2)"
  using controller_refines_spec [OF demo_reach(2), of "demo_rcv_env 103" "C_submit_zk (ContractId 1) 0 Initiate demo_evidence" demo_s4]
    demo_proof_plain by (simp add: demo_env_with_def)

text \<open>
  C19. In every reachable state, for every account: each attempt is kept under its own id below the
  next id and at most at the present epoch; the evidence counted for an attempt of the present
  epoch is of distinct enrolled guardians and of the enrolled adapter, over the attempt's own
  statements, and was given in a call of the history; an authorized attempt met its condition by
  its deadline and has the windows the configuration says; the attempt named as authorized is in
  persistent storage; a completion marker names an attempt whose delay had passed.
\<close>

theorem controller_invariant:
  assumes "rcv_reach n h s"
  shows "tenant_inv n a (map fst h) (tenant_of s a) \<and> placed s a"
  using reach_facts [OF assms] by blast

text \<open>Witness of C19: the state after the demo recovery was marked for completion.\<close>

theorem controller_invariant_witness:
  "tenant_inv demo_chain (ContractId 1) (map fst demo_history) (tenant_of demo_s5 (ContractId 1)) \<and>
   placed demo_s5 (ContractId 1)"
  using controller_invariant [OF demo_reach(4)] by blast

text \<open>A transition that moves the epoch leaves no attempt at the new one.\<close>

lemma tenant_step_epoch:
  assumes "tenant_step e a t t'" "tenant_inv n a h t" "t_epoch t' \<noteq> t_epoch t" "t_attempts t' i = Some x"
  shows "at_epoch x < t_epoch t'"
proof -
  have old: "at_epoch y \<le> t_epoch t" if "t_attempts t j = Some y" for j y
    using tenant_invD(1) [OF assms(2) that] by (simp add: attempt_ok_def)
  have "t_epoch t < t_epoch t'" using tenant_step_mono [OF assms(1)] assms(3) by auto
  moreover have "at_epoch x \<le> t_epoch t"
    using assms(1)
  proof (cases rule: tenant_step.cases)
    case (complete_attempt m y new ep)
    then show ?thesis
      using assms(4) old authorized_live_SomeD [OF assms(2) complete_attempt(5)] by (auto split: if_splits)
  qed (use assms(3,4) old in auto)
  ultimately show ?thesis by simp
qed

text \<open>
  Whatever advances the epoch of an account (enrollment, reconfiguration, removal, an
  executed upgrade, a completion) ends every attempt begun before: none is live afterwards, at any
  ledger.
\<close>

theorem epoch_ends_attempts:
  assumes "rcv_reach n h s" "ce_chain e = n" "rcv_exec e s c = Inr s'" "epoch_of s' a \<noteq> epoch_of s a"
  shows "\<not> attempt_live e' s' a i"
proof -
  note f = reach_facts [OF assms(1), of a]
  have a: "call_account c = a"
    using rcv_tenants.frame [OF assms(3), of a] assms(4) slice_of_simps(2) by metis
  have step: "tenant_step e a (tenant_of s a) (tenant_of s' a)"
    using rcv_exec_refines [OF assms(3) f(1) a f(2)] by (simp add: refines_def)
  have "at_epoch x < epoch_of s' a" if "load_attempt s' a i = Some x" for x
    using tenant_step_epoch [OF step f(2), of i x] that assms(4) by simp
  then show ?thesis by (cases "load_attempt s' a i") (auto simp: attempt_live_def is_live_def)
qed

text \<open>An instance: enrolling the demo account, and the attempt id used later.\<close>

theorem epoch_ends_attempts_witness: "epoch_of demo_s1 (ContractId 1) = 1 \<and> \<not> attempt_live (demo_rcv_env 100) demo_s1 (ContractId 1) 0"
proof -
  have ep: "epoch_of demo_s1 (ContractId 1) = 1" "epoch_of initial_storage (ContractId 1) = 0"
    by (simp_all add: epoch_of_def demo_s1_def initial_storage_def or_default_def)
  have "\<not> attempt_live (demo_rcv_env 100) demo_s1 (ContractId 1) 0"
    by (rule epoch_ends_attempts [OF rcv_reach.reach_init, of "demo_rcv_env 100" demo_chain
          "C_sync (ContractId 1) 5 [demo_config 50] 0"])
       (use ep demo_sync in \<open>simp_all add: demo_env_with_def drop_result_def\<close>)
  then show ?thesis using ep by simp
qed

text \<open>The transition that authorizes an attempt is the only one after which one is authorized that was not.\<close>

lemma tenant_step_authorizes:
  assumes step: "tenant_step e a t t'" and inv: "tenant_inv n a h t"
    and before: "t_authorized_live e t = None" and after: "t_authorized_live e t' = Some x"
  shows "t_below t' = t_next t' \<and> t_authorized t' = Some (at_id x)"
proof -
  obtain j where j: "t_authorized t' = Some j" "t_attempts t' j = Some x" "t_live e t' x"
    using after by (auto simp: t_authorized_live_def split: option.splits if_splits)
  have ep: "t_epoch t' = t_epoch t"
    using tenant_step_epoch [OF step inv _ j(2)] live_epoch [OF j(3)] by auto
  have none: "\<not> (t_attempts t j = Some y \<and> t_live e t y)" if "t_authorized t = Some j" for y
    using before that by (auto simp: t_authorized_live_def)
  have ptr: "j < t_next t" if "t_authorized t = Some j"
    using tenant_invD(3) [OF inv] that by (simp add: pointer_ok_def)
  from step show ?thesis
  proof (cases rule: tenant_step.cases)
    case (open_attempt c y m)
    then have "at_id y = t_next t" "t_authorized t = Some j" using j by (auto simp: fresh_attempt_def)
    then show ?thesis using j open_attempt none [of x] ptr by (auto simp: t_live_def split: attempt_state.splits if_splits)
  next
    case (collect c i y dm y')
    then show ?thesis
      using j none [of x] none [of y] by (cases "i = j") (auto simp: t_live_def split: attempt_state.splits)
  next
    case (authorize c i y y' ex xp)
    have "at_id y = i" using tenant_invD(1) [OF inv authorize(3)] by (simp add: attempt_ok_def)
    then show ?thesis
      using j authorize adds_evidence_same [OF authorize(5)] by (auto simp: same_attempt_def)
  next
    case (invalidate c i y y')
    then show ?thesis using j none [of x] by (cases "i = j") (auto simp: t_live_def split: attempt_state.splits)
  next
    case (cancel_by_evidence c i y y' k au)
    then show ?thesis
      using j none [of x] by (cases "i = j") (auto simp: t_live_def split: attempt_state.splits if_splits)
  next
    case (cancel_by_owner c i y au)
    then show ?thesis
      using j none [of x] by (cases "i = j") (auto simp: t_live_def split: attempt_state.splits if_splits)
  qed (use j none [of x] ep before in \<open>auto simp: t_live_def split: attempt_state.splits\<close>)
qed

text \<open>
  The first attempt that is authorized ends its siblings: when a call leaves an authorized
  attempt where there was none, that attempt is the only one live, at that ledger and later.
\<close>

theorem authorization_ends_siblings:
  assumes "rcv_reach n h s" "ce_chain e = n" "rcv_exec e s c = Inr s'" "call_account c = a"
    and "authorized_live e s a = None" "authorized_live e s' a = Some x" "attempt_live e' s' a i"
  shows "i = at_id x"
proof -
  note f = reach_facts [OF assms(1), of a]
  have r: "refines e a s s'" by (rule rcv_exec_refines [OF assms(3) f(1) assms(4) f(2)])
  then have step: "tenant_step e a (tenant_of s a) (tenant_of s' a)" and pl: "placed s' a" by (simp_all add: refines_def)
  have inv: "tenant_inv n a (e # map fst h) (tenant_of s' a)" using tenant_step_inv [OF step] f(2) assms(2) by simp
  have ws: "t_below (tenant_of s' a) = t_next (tenant_of s' a)" "t_authorized (tenant_of s' a) = Some (at_id x)"
    using tenant_step_authorizes [OF step f(2) assms(5) [unfolded authorized_live_tenant [OF f(1)]]
      assms(6) [unfolded authorized_live_tenant [OF pl]]] by auto
  obtain y where y: "t_attempts (tenant_of s' a) i = Some y" "t_live e' (tenant_of s' a) y"
    using assms(7) by (auto simp: attempt_live_def is_live_tenant split: option.splits)
  have "at_id y = i" "i < t_next (tenant_of s' a)" using tenant_invD(1) [OF inv y(1)] by (auto simp: attempt_ok_def)
  then show ?thesis using y(2) ws by (auto simp: t_live_def split: attempt_state.splits)
qed


text \<open>An instance: the proof that authorizes the demo attempt.\<close>

theorem authorization_ends_siblings_witness:
  "authorized_live (demo_rcv_env 103) demo_s4 (ContractId 1) = Some demo_attempt3 \<and>
   {i. attempt_live (demo_rcv_env 150) demo_s4 (ContractId 1) i} \<subseteq> {0}"
proof -
  have a: "authorized_live (demo_rcv_env 103) demo_s3 (ContractId 1) = None"
    "authorized_live (demo_rcv_env 103) demo_s4 (ContractId 1) = Some demo_attempt3" "at_id demo_attempt3 = 0"
    by (simp_all add: authorized_live_def is_live_def demo_simps demo_states)
  have "i = at_id demo_attempt3" if "attempt_live (demo_rcv_env 150) demo_s4 (ContractId 1) i" for i
    by (rule authorization_ends_siblings [OF demo_reach(2), of "demo_rcv_env 103" "C_submit_zk (ContractId 1) 0 Initiate demo_evidence"])
       (use a demo_proof_plain that in \<open>simp_all add: demo_env_with_def\<close>)
  then show ?thesis using a by auto
qed

text \<open>
  While an attempt is authorized, nothing but its completion changes the configuration or the
  epoch of the account: the completion marker of that ledger names it, and the configuration
  after is the one its target carries.
\<close>

theorem window_only_completes:
  assumes "rcv_reach n h s" "ce_chain e = n" "rcv_exec e s c = Inr s'" "authorized_live e s a = Some x"
    and "rs_config s' a \<noteq> rs_config s a \<or> epoch_of s' a \<noteq> epoch_of s a"
  shows "\<exists>m new. rs_completing s a = Some m \<and> cm_attempt_id m = at_id x \<and> cm_ledger m = ce_now e \<and>
    rs_config s' a = Some new \<and> cc_config_hash new = at_target_config_hash x \<and>
    load_attempt s' a (at_id x) = Some (x\<lparr>at_state := St_Completed\<rparr>)"
proof -
  note f = reach_facts [OF assms(1), of a]
  have a: "call_account c = a"
    using rcv_tenants.frame [OF assms(3), of a] assms(5) slice_of_simps(1,2) by metis
  have live: "t_authorized_live e (tenant_of s a) = Some x" using assms(4) authorized_live_tenant [OF f(1)] by simp
  have "tenant_step e a (tenant_of s a) (tenant_of s' a)"
    using rcv_exec_refines [OF assms(3) f(1) a f(2)] by (simp add: refines_def)
  then show ?thesis
  proof (cases rule: tenant_step.cases)
    case (complete_attempt m y new ep)
    have y: "y = x" using complete_attempt(5) live by simp
    have "load_attempt s' a (at_id x) = Some (x\<lparr>at_state := St_Completed\<rparr>)" "rs_config s' a = Some new"
      using arg_cong [OF complete_attempt(1), of t_attempts] arg_cong [OF complete_attempt(1), of t_config] y by auto
    then show ?thesis using complete_attempt y by (intro exI [of _ m] exI [of _ new]) simp
  qed (use live assms(5) tenant_of_simps(1,2) [of s' a] in \<open>auto simp del: tenant_of_simps(1,2) simp: tenant_of_simps(1,2) [of s a]\<close>)
qed


text \<open>An instance: the demo completion moves the epoch.\<close>

theorem window_only_completes_witness:
  "\<exists>s' new. rcv_exec (demo_rcv_env 120) demo_s5 (C_sync (ContractId 1) 6 [demo_config 51] 0) = Inr s' \<and>
     rs_config s' (ContractId 1) = Some new \<and> cc_config_hash new = 51"
proof -
  obtain s' where r: "rcv_sync (demo_rcv_env 120) demo_s5 (ContractId 1) 6 [demo_config 51] 0 =
     Inr (Completed \<lparr>co_attempt_id = 0, co_replaced = [Cred_Delegated (ContractId 60)]\<rparr>, s')"
    using demo_completed by (rule exE)
  have x: "authorized_live (demo_rcv_env 120) demo_s5 (ContractId 1) = Some demo_attempt3"
    "at_target_config_hash demo_attempt3 = 51" "ce_chain (demo_rcv_env 120) = demo_chain"
    by (simp_all add: authorized_live_def is_live_def demo_simps demo_states demo_s5_def)
  have ep: "epoch_of s' (ContractId 1) \<noteq> epoch_of demo_s5 (ContractId 1)"
    using completion_epoch [OF demo_reach(4) r] by auto
  show ?thesis
    using window_only_completes [OF demo_reach(4) x(3) _ x(1), of "C_sync (ContractId 1) 6 [demo_config 51] 0" s'] r x(2) ep
    by (auto simp: drop_result_def)
qed

text \<open>Only synchronisation writes an account's configuration.\<close>

lemma add_effect_config [simp]: "rs_config (add_effect f s) = rs_config s"
  by (simp add: add_effect_def)

lemma freeze_config: "freeze e s a c i xp = Inr s' \<Longrightarrow> rs_config s' = rs_config s"
  by (drule freeze_Inr) auto

lemma cancel_config: "cancel_attempt e s a c x b = Inr s' \<Longrightarrow> rs_config s' = rs_config s"
  by (auto simp: cancel_attempt_def clear_authorized_def count_cancel_def result_simps Let_def split: if_splits)

lemma promote_config: "promote e s a c x = Inr (y, s') \<Longrightarrow> rs_config s' = rs_config s"
  by (auto simp: promote_def result_simps Let_def split: if_splits dest!: freeze_config)

lemma after_evidence_config: "after_evidence e s a c x d = Inr s' \<Longrightarrow> rs_config s' = rs_config s"
  by (auto simp: after_evidence_def result_simps Let_def split: if_splits evidence_domain.splits dest!: cancel_config promote_config)

lemma begin_config: "begin_attempt e s a x y = Inr (i, s') \<Longrightarrow> rs_config s' = rs_config s"
  by (drule begin_attempt_Inr) auto

lemma upgrade_config: "rcv_upgrade e s a st = Inr (ep, s') \<Longrightarrow> rs_config s' = rs_config s"
  by (cases st) (auto simp: rcv_upgrade_def bump_epoch_Inr result_simps split: if_splits)

lemma only_sync_configures:
  assumes "rcv_exec e s call = Inr s'" "rs_config s' a \<noteq> rs_config s a" "call_account call = a"
  shows "\<exists>dh cs u out. call = C_sync a dh cs u \<and> rcv_sync e s a dh cs u = Inr (out, s')"
proof (cases call)
  case (C_sync b dh cs u)
  then show ?thesis using assms(1,3) by (auto simp: drop_result_def result_simps)
next
  case (C_submit_guardian b i d g)
  then show ?thesis using assms by (auto simp: submit_guardian_def result_simps Let_def split: if_splits dest!: after_evidence_config)
next
  case (C_submit_zk b i d ev)
  then show ?thesis using assms by (auto simp: submit_zk_def result_simps Let_def split: if_splits dest!: after_evidence_config)
next
  case (C_cancel b i)
  then show ?thesis using assms by (auto simp: rcv_cancel_def result_simps split: if_splits dest!: cancel_config)
next
  case (C_upgrade b st)
  then show ?thesis using assms by (auto simp: drop_result_def result_simps dest!: upgrade_config)
next
  case (C_begin_lost_key b r)
  then show ?thesis using assms by (auto simp: drop_result_def begin_lost_key_def result_simps dest!: begin_config)
next
  case (C_begin_compromise b r)
  then show ?thesis using assms by (auto simp: drop_result_def begin_compromise_def result_simps dest!: begin_config)
next
  case (C_enforce ctx sg rl b)
  then show ?thesis using assms by (auto simp: rcv_enforce_def authorize_completion_def result_simps Let_def split: if_splits auth_context.splits)
qed (use assms in \<open>auto simp: rcv_install_def rcv_uninstall_def approve_change_def submit_zk_change_def publish_baseline_def
       store_approval_def result_simps Let_def split: if_splits\<close>)

text \<open>The configuration a synchronised list asks of this controller.\<close>

definition asked_config :: "compiled_recovery_config list \<Rightarrow> compiled_recovery_config option" where
  "asked_config cs = (case cs of [] \<Rightarrow> None | k # _ \<Rightarrow> Some k)"

definition kept_config :: "recovery_chain \<Rightarrow> compiled_recovery_config option \<Rightarrow> compiled_recovery_config option" where
  "kept_config n new = (case new of Some k \<Rightarrow> if cc_controller k = rn_self n then Some k else None | None \<Rightarrow> None)"

lemma sync_configures:
  assumes ok: "rcv_sync e s a dh cs u = Inr (out, s')" and pl: "placed s a"
    and c: "rs_config s a = Some c" "cc_profile c = CP_Protected" "rs_config s' a \<noteq> Some c"
  shows "(\<exists>x k. authorized_live e s a = Some x \<and> asked_config cs = Some k \<and> rs_config s' a = Some k \<and>
            cc_config_hash k = at_target_config_hash x \<and> dh = at_target_doc_hash x) \<or>
    require_condition e s a c (change_of (asked_config cs)) u = Inr () \<and> rs_config s' a = kept_config (ce_chain e) (asked_config cs)"
proof -
  let ?s = "s\<lparr>rs_completing := (rs_completing s)(a := None)\<rparr>"
  have p1: "placed ?s a" by (rule placed_updates(3) [OF pl])
  have al: "authorized_live e ?s a = authorized_live e s a"
    using authorized_live_tenant [OF pl, of e] authorized_live_tenant [OF p1, of e] tenant_updates(6) [of s a None] by simp
  have rc: "require_condition e ?s = require_condition e s"
    by (intro ext) (simp add: require_condition_def change_statement_for_def epoch_of_def)
  have same: "rs_completing s a = None \<Longrightarrow> ?s = s" by (simp add: fun_upd_idem)
  consider m where "complete e ?s a m (asked_config cs) dh = Inr (out, s')"
    | "sync_change e ?s a (Some c) (asked_config cs) u = Inr (out, s')"
    using ok al same c(1)
    by (auto simp: rcv_sync_def marker_current_def asked_config_def Let_def result_simps split: option.splits if_splits)
  then show ?thesis
  proof cases
    case (1 m)
    from complete_Inr [OF 1 p1] obtain x k ep where x: "authorized_live e ?s a = Some x" "dh = at_target_doc_hash x"
        "asked_config cs = Some k" "cc_config_hash k = at_target_config_hash x"
      and t: "tenant_of s' a = (tenant_of ?s a)\<lparr>t_spent := t_spent (tenant_of ?s a) \<union> set_option (at_zk_nullifier x),
         t_attempts := (t_attempts (tenant_of ?s a))(at_id x \<mapsto> x\<lparr>at_state := St_Completed\<rparr>), t_authorized := None,
         t_config := Some k, t_epoch := ep\<rparr>"
      by blast
    have "rs_config s' a = Some k" using arg_cong [OF t, of t_config] by simp
    then show ?thesis using x unfolding al by auto
  next
    case 2
    then show ?thesis
      using c(2,3) rc c(1)
      by (auto simp: sync_change_def store_config_def bump_epoch_Inr kept_config_def change_of_def result_simps Let_def
          split: if_splits option.splits)
  qed
qed

text \<open>The recorded condition of a change, as approvals in the history.\<close>

lemma change_evidence_recorded:
  assumes inv: "tenant_inv n a h t" and rec: "condition_recorded t c d" and c: "t_config t = Some c"
  shows "(\<forall>gs. config_guardians c = Some gs \<longrightarrow>
       (\<exists>G \<subseteq> set (cg_guardians gs). unat (cg_quorum gs) \<le> card G \<and> (\<forall>g \<in> G. approved h g d))) \<and>
    (config_zk c \<noteq> None \<longrightarrow> change_proved n a h (Some c) (t_epoch t) d)"
proof -
  obtain r where r: "t_approval t d = Some r"
    "\<And>gs. config_guardians c = Some gs \<Longrightarrow>
       cg_quorum gs \<le> (word_of_nat (length [g \<leftarrow> ca_guardians r. g \<in> set (cg_guardians gs)]) :: u32)"
    "config_zk c \<noteq> None \<longrightarrow> ca_zk r"
    using rec by (auto simp: condition_recorded_def)
  have ok: "distinct (ca_guardians r)" "\<forall>g \<in> set (ca_guardians r). approved h g d"
    "ca_zk r \<longrightarrow> change_proved n a h (Some c) (t_epoch t) d"
    using tenant_invD(4) [OF inv] r(1) c by (auto simp: approvals_ok_def)
  have "\<exists>G \<subseteq> set (cg_guardians gs). unat (cg_quorum gs) \<le> card G \<and> (\<forall>g \<in> G. approved h g d)"
    if gs: "config_guardians c = Some gs" for gs
  proof -
    let ?l = "[g \<leftarrow> ca_guardians r. g \<in> set (cg_guardians gs)]"
    have "unat (cg_quorum gs) \<le> unat (word_of_nat (length ?l) :: u32)"
      using r(2) [OF gs] by (simp add: word_le_nat_alt)
    also have "\<dots> \<le> length ?l" by (simp add: unat_of_nat)
    also have "\<dots> = card (set ?l)" by (rule distinct_card [symmetric]) (simp add: ok(1))
    finally show ?thesis using ok(2) by (intro exI [of _ "set ?l"]) auto
  qed
  then show ?thesis using r(3) ok(3) by blast
qed

text \<open>
  Approvals are stored under the digest of a statement. A proof stored under the digest of a
  statement of the present epoch is a proof of that statement under the enrolled factor, or of an
  earlier statement of the account that collides with it.
\<close>

definition digest_collision :: "recovery_chain \<Rightarrow> recovery_statement \<Rightarrow> recovery_statement \<Rightarrow> bool" where
  "digest_collision n st st' \<longleftrightarrow> st \<noteq> st' \<and> (\<exists>d. rcv_digest n st = Inr d \<and> rcv_digest n st' = Inr d)"

lemma change_proved_exact:
  assumes p: "change_proved n a h (Some c) ep d" and z: "config_zk c = Some z"
    and st: "rcv_digest n (make_statement n a c ep u subject) = Inr d"
  shows "(\<exists>k. proved h z (make_statement n a c ep u subject) k) \<or>
    (\<exists>st' z' k. digest_collision n (make_statement n a c ep u subject) st' \<and> st_account st' = a \<and> proved h z' st' k)"
proof -
  let ?st = "make_statement n a c ep u subject"
  obtain c' ep' u' sj z' k where c': "ep' = ep \<longrightarrow> c = c'" "config_zk c' = Some z'"
    and pr: "rcv_digest n (make_statement n a c' ep' u' sj) = Inr d" "proved h z' (make_statement n a c' ep' u' sj) k"
    using p unfolding change_proved_def option.inject by blast
  show ?thesis
  proof (cases "make_statement n a c' ep' u' sj = ?st")
    case True
    then have "ep' = ep" by (simp add: make_statement_def)
    then show ?thesis using True c' pr(2) z by auto
  next
    case False
    have "digest_collision n ?st (make_statement n a c' ep' u' sj)" using False st pr(1) by (auto simp: digest_collision_def)
    moreover have "st_account (make_statement n a c' ep' u' sj) = a" by (simp add: make_statement_def)
    ultimately show ?thesis using pr(2) by blast
  qed
qed

text \<open>
  C13. Under \<open>Protected\<close> the configuration of an account changes by its own synchronisation only,
  and in two ways: by completing an authorized attempt, to the configuration of its target, or by
  exactly the change that was authorized. The statement is that of the configuration the call
  brings (\<open>Remove\<close> when it brings none, \<open>Set\<close> with its hash otherwise, also when that names another
  controller and this one forgets the account), of the present configuration and epoch and the
  call's deadline, which has not passed. A quorum of distinct enrolled guardians authorized its
  digest and, with a ZK factor enrolled, a proof of that statement was accepted under that factor,
  unless a proof was accepted for another statement of the account with the same digest.
\<close>

theorem protected_change_needs_evidence:
  assumes "rcv_reach n h s" "ce_chain e = n" "rcv_exec e s call = Inr s'"
    and "rs_config s a = Some c" "cc_profile c = CP_Protected" "rs_config s' a \<noteq> Some c"
  shows "\<exists>dh cs u. call = C_sync a dh cs u \<and>
    ((\<exists>x new. authorized_live e s a = Some x \<and> asked_config cs = Some new \<and> rs_config s' a = Some new \<and>
        cc_config_hash new = at_target_config_hash x \<and> dh = at_target_doc_hash x) \<or>
     (\<exists>st d. st = make_statement n a c (epoch_of s a) u (change_of (asked_config cs)) \<and>
        rs_config s' a = kept_config n (asked_config cs) \<and> ce_now e \<le> u \<and> rcv_digest n st = Inr d \<and>
        (\<forall>gs. config_guardians c = Some gs \<longrightarrow>
           (\<exists>G \<subseteq> set (cg_guardians gs). unat (cg_quorum gs) \<le> card G \<and> (\<forall>g \<in> G. approved (map fst h) g d))) \<and>
        (\<forall>z. config_zk c = Some z \<longrightarrow> (\<exists>k. proved (map fst h) z st k) \<or>
           (\<exists>st' z' k. digest_collision n st st' \<and> st_account st' = a \<and> proved (map fst h) z' st' k))))"
proof -
  note f = reach_facts [OF assms(1), of a]
  have a: "call_account call = a"
    using rcv_tenants.frame [OF assms(3), of a] assms(4,6) slice_of_simps(1) by metis
  obtain dh cs u out where call: "call = C_sync a dh cs u" "rcv_sync e s a dh cs u = Inr (out, s')"
    using only_sync_configures [OF assms(3) _ a] assms(4,6) by auto
  from sync_configures [OF call(2) f(1) assms(4-6)] show ?thesis
  proof
    assume r: "require_condition e s a c (change_of (asked_config cs)) u = Inr () \<and> rs_config s' a = kept_config (ce_chain e) (asked_config cs)"
    let ?st = "make_statement n a c (epoch_of s a) u (change_of (asked_config cs))"
    obtain d where d: "ce_now e \<le> u" "rcv_digest n ?st = Inr d" "condition_recorded (tenant_of s a) c d"
      using require_condition_Inr [OF conjunct1 [OF r]] assms(2) by auto
    note ev = change_evidence_recorded [OF f(2) d(3)]
    have "change_proved n a (map fst h) (Some c) (epoch_of s a) d" if "config_zk c \<noteq> None" using ev assms(4) that by simp
    then have "\<forall>z. config_zk c = Some z \<longrightarrow> (\<exists>k. proved (map fst h) z ?st k) \<or>
           (\<exists>st' z' k. digest_collision n ?st st' \<and> st_account st' = a \<and> proved (map fst h) z' st' k)"
      using change_proved_exact [OF _ _ d(2)] by blast
    then show ?thesis using call(1) r assms(2,4) d(1,2) ev by auto
  qed (use call(1) in auto)
qed


text \<open>
  Witness of CX: the demo account changes its configuration after the guardian and a proof
  approved the change.
\<close>

definition demo_approval_history :: history where
  "demo_approval_history =
     [(demo_rcv_env 106, C_submit_zk_change (ContractId 1) (change_of (Some (demo_config 52))) 150 demo_evidence),
      (demo_rcv_env 105, C_approve_change (ContractId 1) (change_of (Some (demo_config 52))) 150 (ContractId 20)),
      (demo_rcv_env 100, C_sync (ContractId 1) 5 [demo_config 50] 0)]"

definition demo_approved :: recovery_storage where
  "demo_approved = demo_s1\<lparr>rs_approval := [(ContractId 1, 9) \<mapsto> \<lparr>ca_guardians = [ContractId 20], ca_zk = True\<rparr>],
     rs_effects := rs_effects demo_s1 @ [Ev_ChangeEvidenceRecorded (ContractId 1) 9, Ev_ChangeEvidenceRecorded (ContractId 1) 9]\<rparr>"

lemma demo_approve:
  "approve_change (demo_rcv_env 105) demo_s1 (ContractId 1) (change_of (Some (demo_config 52))) 150 (ContractId 20) =
     Inr (store_approval demo_s1 (ContractId 1) 9 \<lparr>ca_guardians = [ContractId 20], ca_zk = False\<rparr>)"
  "submit_zk_change (demo_rcv_env 106) (store_approval demo_s1 (ContractId 1) 9 \<lparr>ca_guardians = [ContractId 20], ca_zk = False\<rparr>)
     (ContractId 1) (change_of (Some (demo_config 52))) 150 demo_evidence = Inr demo_approved"
  by (simp_all add: approve_change_def submit_zk_change_def demo_simps demo_states demo_evidence_simps demo_approved_def
        change_of_def change_statement_for_def refuse_in_window_def verify_zk_def store_approval_def empty_approval_def)

lemma demo_approved_reach: "rcv_reach demo_chain demo_approval_history demo_approved"
  by (rule reach_run; simp add: demo_approval_history_def drop_result_def demo_sync demo_approve)
     (simp add: demo_env_with_def)

lemma demo_reconfigured:
  "\<exists>s'. rcv_sync (demo_rcv_env 110) demo_approved (ContractId 1) 8 [demo_config 52] 150 = Inr (Reconfigured, s') \<and>
     rs_config s' (ContractId 1) = Some (demo_config 52)"
  by (simp add: demo_simps demo_states demo_evidence_simps demo_approved_def rcv_sync_def sync_change_def
      require_condition_def change_statement_for_def check_config_def check_zk_wiring_def zk_factor_transition_ok_def
      store_config_def bump_epoch_def)

theorem protected_change_needs_evidence_witness:
  "\<exists>d. rcv_digest demo_chain (make_statement demo_chain (ContractId 1) (demo_config 50) 1 150 (change_of (Some (demo_config 52)))) = Inr d \<and>
     approved (map fst demo_approval_history) (ContractId 20) d"
proof -
  obtain s' where s': "rcv_exec (demo_rcv_env 110) demo_approved (C_sync (ContractId 1) 8 [demo_config 52] 150) = Inr s'"
    "rs_config s' (ContractId 1) = Some (demo_config 52)"
    using demo_reconfigured by (auto simp: drop_result_def)
  have c: "rs_config demo_approved (ContractId 1) = Some (demo_config 50)" "cc_profile (demo_config 50) = CP_Protected"
    "demo_config 52 \<noteq> demo_config 50" "authorized_live (demo_rcv_env 110) demo_approved (ContractId 1) = None"
    "epoch_of demo_approved (ContractId 1) = 1" "ce_chain (demo_rcv_env 110) = demo_chain" "ce_now (demo_rcv_env 110) = 110"
    "config_guardians (demo_config 50) = Some \<lparr>cg_guardians = [ContractId 20], cg_quorum = 1\<rparr>"
    by (simp_all add: demo_simps demo_states demo_approved_def authorized_live_def config_guardians_def)
  obtain d G where d: "rcv_digest demo_chain (make_statement demo_chain (ContractId 1) (demo_config 50) 1 150
            (change_of (Some (demo_config 52)))) = Inr d"
    and G: "G \<subseteq> {ContractId 20}" "1 \<le> card G" "\<forall>g \<in> G. approved (map fst demo_approval_history) g d"
    using protected_change_needs_evidence [OF demo_approved_reach c(6) s'(1) c(1,2)] s'(2) c by (auto simp: asked_config_def)
  then have "ContractId 20 \<in> G" by (cases "G = {}") auto
  then show ?thesis using d G(3) by blast
qed

lemma tenant_step_cancels:
  assumes "tenant_step e a t t'"
  shows "t_cancels t \<le> t_cancels t'"
  using assms
proof (cases rule: tenant_step.cases)
  case (cancel_by_evidence c i x x' k au)
  have "t_cancels t \<le> k" if "t_cancels t < cc_max_cancels c" "k = t_cancels t + 1"
  proof -
    have "unat (cc_max_cancels c) < 2 ^ 32" using unsigned_less [where 'a = nat, of "cc_max_cancels c"] by simp
    then have "unat (t_cancels t + 1) = unat (t_cancels t) + 1"
      using that(1) by (simp add: word_less_nat_alt unat_word_ariths)
    then show ?thesis using that(2) by (simp add: word_le_nat_alt)
  qed
  then show ?thesis using cancel_by_evidence(1,7) by (auto split: if_splits)
qed auto

text \<open>
  What an account's controller state never gives back: epochs and attempt ids only grow, a
  spent nullifier stays spent, and the count of evidence-based cancellations only grows, for every
  account and every call.
\<close>

theorem controller_monotone:
  assumes "rcv_reach n h s" "ce_chain e = n" "rcv_exec e s c = Inr s'"
  shows "epoch_of s a \<le> epoch_of s' a \<and> next_attempt_id s a \<le> next_attempt_id s' a \<and>
    or_default 0 (rs_cancels s a) \<le> or_default 0 (rs_cancels s' a) \<and>
    (nullifier_spent s a k \<longrightarrow> nullifier_spent s' a k)"
proof (cases "call_account c = a")
  case True
  note f = reach_facts [OF assms(1), of a]
  have step: "tenant_step e a (tenant_of s a) (tenant_of s' a)"
    using rcv_exec_refines [OF assms(3) f(1) True f(2)] by (simp add: refines_def)
  show ?thesis
    using tenant_step_mono [OF step] tenant_step_cancels [OF step] by (auto simp: nullifier_spent_def)
next
  case False
  then have "slice_of s' a = slice_of s a" by (intro rcv_tenants.frame [OF assms(3)]) simp
  then show ?thesis by (simp add: slice_of_def nullifier_spent_def fun_eq_iff)
qed

text \<open>An instance: enrolling the demo account.\<close>

theorem controller_monotone_witness:
  "epoch_of initial_storage (ContractId 1) \<le> epoch_of demo_s1 (ContractId 1) \<and> epoch_of demo_s1 (ContractId 1) = 1"
  using controller_monotone [OF rcv_reach.reach_init [of demo_chain], of "demo_rcv_env 100" "C_sync (ContractId 1) 5 [demo_config 50] 0" demo_s1 "ContractId 1" 0]
    demo_sync by (simp add: drop_result_def) (simp add: demo_env_with_def epoch_of_def demo_s1_def or_default_def)


text \<open>Proofs counted for attempts of the present epoch are of unspent nullifiers.\<close>

definition unspent :: "tenant \<Rightarrow> bool" where
  "unspent t \<longleftrightarrow> (\<forall>i x. t_attempts t i = Some x \<and> at_epoch x = t_epoch t \<longrightarrow>
     set_option (at_zk_nullifier x) \<inter> t_spent t = {})"

lemma adds_evidence_unspent:
  "adds_evidence e a t c dm x x' \<Longrightarrow> set_option (at_zk_nullifier x) \<inter> t_spent t = {} \<Longrightarrow>
   set_option (at_zk_nullifier x') \<inter> t_spent t = {}"
  by (induction rule: adds_evidence.induct) auto

lemma tenant_step_unspent:
  assumes step: "tenant_step e a t t'" and inv: "tenant_inv n a h t" and un: "unspent t"
  shows "unspent t'"
proof (cases "t_epoch t' = t_epoch t")
  case False
  then show ?thesis using tenant_step_epoch [OF step inv False] unfolding unspent_def by (metis less_irrefl)
next
  case True
  have old: "set_option (at_zk_nullifier x) \<inter> t_spent t = {}" if "t_attempts t i = Some x" "t_live e t x" for i x
    using un that live_epoch by (auto simp: unspent_def)
  from step show ?thesis
  proof (cases rule: tenant_step.cases)
    case (open_attempt c x m)
    then show ?thesis using un by (auto simp: unspent_def fresh_attempt_def)
  next
    case (collect c i x dm x')
    then show ?thesis using un adds_evidence_unspent [OF collect(5) old [OF collect(3,4)]] by (auto simp: unspent_def)
  next
    case (authorize c i x x' ex xp)
    then show ?thesis using un adds_evidence_unspent [OF authorize(5) old [OF authorize(3,4)]] by (auto simp: unspent_def)
  next
    case (invalidate c i x x')
    then show ?thesis using un adds_evidence_unspent [OF invalidate(5) old [OF invalidate(3,4)]] by (auto simp: unspent_def)
  next
    case (cancel_by_evidence c i x x' k au)
    then show ?thesis
      using un adds_evidence_unspent [OF cancel_by_evidence(5) old [OF cancel_by_evidence(3,4)]] by (auto simp: unspent_def)
  next
    case (cancel_by_owner c i x au)
    then show ?thesis using un old [OF cancel_by_owner(3,4)] by (auto simp: unspent_def)
  qed (use un True in \<open>auto simp: unspent_def\<close>)
qed

lemma tenant_reach_unspent: "tenant_reach n a h t \<Longrightarrow> unspent t"
proof (induction rule: tenant_reach.induct)
  case (t_step h t e t')
  then show ?case using tenant_step_unspent tenant_reach_inv by blast
qed (auto simp: unspent_def initial_tenant_def)

text \<open>
  C28. An authorized attempt can be completed throughout its window: with the account's
  authorization, \<open>enforce\<close> accepts the application of the target's bytes once the delay has passed,
  and the synchronisation that follows in the same ledger with the target's identity and
  configuration completes it. No nullifier can stand in the way.
\<close>

theorem authorized_attempt_completes:
  assumes "rcv_reach n h s" "ce_chain e = n" "authorized_live e s a = Some x" "at_executable_after x \<le> ce_now e"
    and "ce_auth e a" "rn_sha256 n target = at_target_bytes_hash x"
    and "cc_controller new = rn_self n" "cc_config_hash new = at_target_config_hash x" "unat (epoch_of s a) + 1 < 2 ^ 64"
  shows "\<exists>s1 s2. rcv_enforce e s (Ctx_Contract \<lparr>cc_contract = a, cc_fn_name = ''apply_doc'', cc_args = V_Bytes target # args\<rparr>)
       [] \<lparr>xr_signers = [], xr_context_type = CR_CallContract a\<rparr> a = Inr s1 \<and>
     rcv_sync e s1 a (at_target_doc_hash x) (new # rest) u =
       Inr (Completed \<lparr>co_attempt_id = at_id x, co_replaced = at_replaced x\<rparr>, s2)"
proof -
  let ?m = "\<lparr>cm_attempt_id = at_id x, cm_target_doc_hash = at_target_doc_hash x, cm_ledger = ce_now e\<rparr>"
  define s1 where "s1 = s\<lparr>rs_completing := (rs_completing s)(a \<mapsto> ?m)\<rparr>"
  define s0 where "s0 = s\<lparr>rs_completing := (rs_completing s)(a := None)\<rparr>"
  note f = reach_facts [OF assms(1), of a]
  have live: "t_authorized_live e (tenant_of s a) = Some x" using assms(3) authorized_live_tenant [OF f(1)] by simp
  note xD = authorized_live_SomeD [OF f(2) live]
  obtain c where c: "rs_config s a = Some c" using authorized_evidence [OF f(2) live] by auto
  have "unspent (tenant_of s a)" using reach_refines [OF assms(1)] tenant_reach_unspent by blast
  then have "set_option (at_zk_nullifier x) \<inter> t_spent (tenant_of s a) = {}" using xD(1,5) unfolding unspent_def by blast
  then have un: "at_zk_nullifier x = Some k \<Longrightarrow> rs_nullifier s (a, k) = None" for k by auto
  have live0: "authorized_live e s0 a = Some x"
    using live authorized_live_tenant [OF placed_updates(3) [OF f(1)], of e] tenant_updates(6) [of s a None]
    by (simp add: s0_def)
  have s0: "s1\<lparr>rs_completing := (rs_completing s1)(a := None)\<rparr> = s0" by (simp add: s0_def s1_def)
  have ep: "checked_add (epoch_of s a) 1 = Some (epoch_of s a + 1)" using assms(9) by (simp add: checked_add_def)
  have enf: "rcv_enforce e s (Ctx_Contract \<lparr>cc_contract = a, cc_fn_name = ''apply_doc'', cc_args = V_Bytes target # args\<rparr>)
       [] \<lparr>xr_signers = [], xr_context_type = CR_CallContract a\<rparr> a = Inr s1"
    using assms c by (simp add: rcv_enforce_def rcv_require_auth_def assert_recovery_rule_def authorize_completion_def first_bytes_def
        require_config_def s1_def)
  have "\<exists>s2. complete e s0 a ?m (Some new) (at_target_doc_hash x) =
       Inr (Completed \<lparr>co_attempt_id = at_id x, co_replaced = at_replaced x\<rparr>, s2)"
    using live0 assms(2,7,8) un ep
    by (auto simp: complete_def store_config_def bump_epoch_def invoke_def Let_def s0_def epoch_of_def save_attempt_def split: option.split)
  moreover have "rcv_sync e s1 a (at_target_doc_hash x) (new # rest) u = complete e s0 a ?m (Some new) (at_target_doc_hash x)"
    using assms(5) live0 by (simp add: rcv_sync_def rcv_require_auth_def marker_current_def s0 [symmetric] s1_def)
  ultimately show ?thesis using enf by auto
qed


text \<open>Witness of C28: the demo attempt at ledger 120.\<close>

theorem authorized_attempt_completes_witness:
  "\<exists>s1 s2. rcv_enforce (demo_rcv_env 120) demo_s4
       (Ctx_Contract \<lparr>cc_contract = ContractId 1, cc_fn_name = ''apply_doc'', cc_args = [V_Bytes [2]]\<rparr>)
       [] \<lparr>xr_signers = [], xr_context_type = CR_CallContract (ContractId 1)\<rparr> (ContractId 1) = Inr s1 \<and>
     rcv_sync (demo_rcv_env 120) s1 (ContractId 1) 6 [demo_config 51] 0 =
       Inr (Completed \<lparr>co_attempt_id = 0, co_replaced = [Cred_Delegated (ContractId 60)]\<rparr>, s2)"
proof -
  have x: "authorized_live (demo_rcv_env 120) demo_s4 (ContractId 1) = Some demo_attempt3"
    "ce_chain (demo_rcv_env 120) = demo_chain" "epoch_of demo_s4 (ContractId 1) = 1"
    by (simp_all add: authorized_live_def is_live_def demo_simps demo_states)
  have "\<exists>s1 s2. rcv_enforce (demo_rcv_env 120) demo_s4
       (Ctx_Contract \<lparr>cc_contract = ContractId 1, cc_fn_name = ''apply_doc'', cc_args = [V_Bytes [2]]\<rparr>)
       [] \<lparr>xr_signers = [], xr_context_type = CR_CallContract (ContractId 1)\<rparr> (ContractId 1) = Inr s1 \<and>
     rcv_sync (demo_rcv_env 120) s1 (ContractId 1) (at_target_doc_hash demo_attempt3) [demo_config 51] 0 =
       Inr (Completed \<lparr>co_attempt_id = at_id demo_attempt3, co_replaced = at_replaced demo_attempt3\<rparr>, s2)"
    by (rule authorized_attempt_completes [OF demo_reach(3) x(2,1)])
       (use x(3) in \<open>simp_all add: demo_chain_def demo_env_with_def demo_config_def demo_states\<close>)
  then show ?thesis by (simp add: demo_states)
qed

end
