(* ===== verification/Zk_Pool.thy ===== *)
theory Zk_Pool
  imports Recovery_Interface
begin

text \<open>
  The membership pool of ZK recovery: the hashing formulas (\<open>crates/perch-zk-primitives\<close>), the
  storage-backed incremental Merkle trees (\<open>merkle.rs\<close>) and the contract (\<open>contract.rs\<close>) of
  \<open>crates/perch-zk-pool\<close>. Poseidon2 is a parameter, \<open>None\<close> a trap of the host.
\<close>

unbundle bit_operations_syntax

section \<open>Hashing (perch-zk-primitives)\<close>

definition DOM_LEAF :: bytes where
  "DOM_LEAF =
     [0x19, 0x81, 0xde, 0x3e, 0x07, 0x70, 0x96, 0x13, 0x86, 0x22, 0x72, 0xed, 0xb5, 0xff, 0x4f, 0xab,
      0x54, 0x57, 0x37, 0x38, 0x2d, 0x14, 0x05, 0xfe, 0x8d, 0x09, 0x70, 0xdc, 0x7d, 0x4d, 0x7e, 0xd6]"

definition DOM_BIND :: bytes where
  "DOM_BIND =
     [0x20, 0xae, 0x61, 0x72, 0xaf, 0x8b, 0xed, 0x19, 0xc9, 0x21, 0xe9, 0x1e, 0x21, 0x64, 0x11, 0x98,
      0x66, 0x10, 0x35, 0x61, 0x6a, 0x6a, 0x4d, 0x73, 0x33, 0x46, 0x85, 0x35, 0x01, 0xfd, 0x07, 0xc5]"

definition DOM_NULLIFIER :: bytes where
  "DOM_NULLIFIER =
     [0x02, 0x80, 0xc3, 0x17, 0x0f, 0x4a, 0xbb, 0x83, 0x89, 0x83, 0x8a, 0x5c, 0x28, 0x0d, 0xbd, 0xac,
      0x8b, 0xfd, 0x7c, 0x75, 0xfc, 0xb7, 0x80, 0xa9, 0x48, 0x5d, 0x93, 0xaf, 0x55, 0x3a, 0xb8, 0x40]"

definition MAX_TREE_DEPTH :: nat where "MAX_TREE_DEPTH = 32"

definition ZERO_HASHES :: "bytes32 list" where
  "ZERO_HASHES =
     [0,
      0xb63a53787021a4a962a452c2921b3663aff1ffd8d5510540f8e659e782956f1,
      0xe34ac2c09f45a503d2908bcb12f1cbae5fa4065759c88d501c097506a8b2290,
      0x21f9172d72fdcdafc312eee05cf5092980dda821da5b760a9fb8dbdf607c8a20,
      0x2373ea368857ec7af97e7b470d705848e2bf93ed7bef142a490f2119bcf82d8e,
      0x120157cfaaa49ce3da30f8b47879114977c24b266d58b0ac18b325d878aafddf,
      0x1c28fe1059ae0237b72334700697bdf465e03df03986fe05200cadeda66bd76,
      0x2d78ed82f93b61ba718b17c2dfe5b52375b4d37cbbed6f1fc98b47614b0cf21b,
      0x67243231eddf4222f3911defbba7705aff06ed45960b27f6f91319196ef97e1,
      0x1849b85f3c693693e732dfc4577217acc18295193bede09ce8b97ad910310972,
      0x2a775ea761d20435b31fa2c33ff07663e24542ffb9e7b293dfce3042eb104686,
      0xf320b0703439a8114f81593de99cd0b8f3b9bf854601abb5b2ea0e8a3dda4a7,
      0xd07f6e7a8a0e9199d6d92801fff867002ff5b4808962f9da2ba5ce1bdd26a73,
      0x1c4954081e324939350febc2b918a293ebcdaead01be95ec02fcbe8d2c1635d1,
      0x197f2171ef99c2d053ee1fb5ff5ab288d56b9b41b4716c9214a4d97facc4c4a,
      0x2b9cdd484c5ba1e4d6efcc3f18734b5ac4c4a0b9102e2aeb48521a661d3feee9,
      0x14f44d672eb357739e42463497f9fdac46623af863eea4d947ca00a497dcdeb3,
      0x71d7627ae3b2eabda8a810227bf04206370ac78dbf6c372380182dbd3711fe3,
      0x2fdc08d9fe075ac58cb8c00f98697861a13b3ab6f9d41a4e768f75e477475bf5,
      0x20165fe405652104dceaeeca92950aa5adc571b8cafe192878cba58ff1be49c5,
      0x1c8c3ca0b3a3d75850fcd4dc7bf1e3445cd0cfff3ca510630fd90b47e8a24755,
      0x1f0c1a8fb16b0d2ac9a146d7ae20d8d179695a92a79ed66fc45d9da4532459b3,
      0x38146ec5a2573e1c30d2fb32c66c8440f426fbd108082df41c7bebd1d521c30,
      0x17d3d12b17fe762de4b835b2180b012e808816a7f2ff69ecb9d65188235d8fd4,
      0xe1a6b7d63a6e5a9e54e8f391dd4e9d49cdfedcbc87f02cd34d4641d2eb30491,
      0x9244eec34977ff795fc41036996ce974136377f521ac8eb9e04642d204783d2,
      0x1646d6f544ec36df9dc41f778a7ef1690a53c730b501471b6acd202194a7e8e9,
      0x64769603ba3f6c41f664d266ecb9a3a0f6567cd3e48b40f34d4894ee4c361b3,
      0x1595bb3cd19f84619dc2e368175a88d8627a7439eda9397202cdb1167531fd3f,
      0x2a529be462b81ca30265b558763b1498289c9d88277ab14f0838cb1fce4b472c,
      0xc08da612363088ad0bbc78abd233e8ace4c05a56fdabdd5e5e9b05e428bdaee,
      0x14748d0241710ef47f54b931ac5a58082b1d56b0f0c30d55fb71a6e8c9a6be14,
      0xb59baa35b9dc267744f0ccb4e3b0255c1fc512460d91130c6bc19fb2668568d]"

text \<open>The sponge; \<open>None\<close> is a trap, on an input that is not canonical.\<close>

type_synonym sponge = "bytes list \<Rightarrow> bytes32 option"

definition is_canonical :: "bytes32 \<Rightarrow> bool" where
  "is_canonical v = is_canonical_field (bytes32_to_array v)"

datatype pool_error =
    NonCanonicalCommitment | AccountNotContract | EnrollmentIdTaken | UnknownTree | PageTooLarge | TreeIdOverflow

type_synonym 'a pool_result = "pool_error failure + 'a"

definition hash_fields :: "sponge \<Rightarrow> bytes list \<Rightarrow> 'e failure + bytes32" where
  "hash_fields P inputs = ok_or (P inputs) Trap"

definition node :: "sponge \<Rightarrow> bytes32 \<Rightarrow> bytes32 \<Rightarrow> bytes32 pool_result" where
  "node P left right = hash_fields P [bytes32_to_array left, bytes32_to_array right]"

definition commitment :: "sponge \<Rightarrow> bytes32 \<Rightarrow> 'e failure + bytes32" where
  "commitment P secret = hash_fields P [DOM_LEAF, bytes32_to_array secret]"

definition leaf_fields :: "bytes \<Rightarrow> bytes32 \<Rightarrow> bytes32 \<Rightarrow> bytes list" where
  "leaf_fields account_id enrollment_id inner =
     (let (a_hi, a_lo) = split_hi_lo account_id;
          (n_hi, n_lo) = split_hi_lo (bytes32_to_array enrollment_id)
      in [DOM_BIND, a_hi, a_lo, n_hi, n_lo, bytes32_to_array inner])"

definition leaf_hash :: "sponge \<Rightarrow> bytes \<Rightarrow> bytes32 \<Rightarrow> bytes32 \<Rightarrow> bytes32 pool_result" where
  "leaf_hash P account_id enrollment_id inner = hash_fields P (leaf_fields account_id enrollment_id inner)"

definition nullifier :: "sponge \<Rightarrow> bytes \<Rightarrow> bytes32 \<Rightarrow> bytes32 \<Rightarrow> 'e failure + bytes32" where
  "nullifier P account_id enrollment_id secret =
     (let (a_hi, a_lo) = split_hi_lo account_id;
          (n_hi, n_lo) = split_hi_lo (bytes32_to_array enrollment_id)
      in hash_fields P [DOM_NULLIFIER, a_hi, a_lo, n_hi, n_lo, bytes32_to_array secret])"

definition statement_hash :: "sponge \<Rightarrow> zk_statement_fields \<Rightarrow> 'e failure + bytes32" where
  "statement_hash P f = hash_fields P (auth_preimage f)"

fun zero_hashes_from :: "sponge \<Rightarrow> bytes32 \<Rightarrow> nat \<Rightarrow> 'e failure + bytes32 list" where
  "zero_hashes_from P cur 0 = Inr []"
| "zero_hashes_from P cur (Suc n) =
     and_then (hash_fields P [bytes32_to_array cur, bytes32_to_array cur]) (\<lambda>next.
     and_then (zero_hashes_from P next n) (\<lambda>rest. Inr (next # rest)))"

definition zero_hashes :: "sponge \<Rightarrow> nat \<Rightarrow> 'e failure + bytes32 list" where
  "zero_hashes P depth = and_then (zero_hashes_from P 0 depth) (\<lambda>out. Inr (0 # out))"

section \<open>Trees (merkle.rs)\<close>

definition VERSION :: u32 where "VERSION = 1"
definition TREE_DEPTH :: nat where "TREE_DEPTH = 32"
definition MAX_PAGE :: u32 where "MAX_PAGE = 64"

record insertion =
  in_tree_id :: u32
  in_index :: u64
  in_leaf :: bytes32
  in_root :: bytes32

record leaf_position =
  lp_tree_id :: u32
  lp_index :: u64

record tree_info =
  ti_tree_id :: u32
  ti_size :: u64
  ti_capacity :: u64
  ti_root :: bytes32
  ti_sealed :: bool

record tree_state =
  ts_size :: u64
  ts_root :: bytes32
  ts_frontier :: "bytes32 list"

datatype pool_event = LeafInserted address u32 bytes32 u64 bytes32 bytes32

text \<open>The storage: one map for each kind of \<open>PoolKey\<close>.\<close>

record pool_storage =
  ps_current_tree :: "u32 option"
  ps_tree :: "u32 \<rightharpoonup> tree_state"
  ps_root :: "u32 \<times> bytes32 \<rightharpoonup> u64"
  ps_leaf :: "u32 \<times> u64 \<rightharpoonup> bytes32"
  ps_enrollment :: "address \<times> bytes32 \<rightharpoonup> leaf_position"
  ps_events :: "pool_event list"

definition initial_pool :: pool_storage where
  "initial_pool = \<lparr>ps_current_tree = None, ps_tree = Map.empty, ps_root = Map.empty, ps_leaf = Map.empty,
     ps_enrollment = Map.empty, ps_events = []\<rparr>"

definition capacity :: "nat \<Rightarrow> u64" where
  "capacity depth = push_bit depth 1"

text \<open>Indexing the constant table traps past its end.\<close>

definition zero :: "nat \<Rightarrow> bytes32 pool_result" where
  "zero level = (if level < length ZERO_HASHES then Inr (ZERO_HASHES ! level) else Inl Trap)"

definition current_tree :: "pool_storage \<Rightarrow> u32" where
  "current_tree s = (case ps_current_tree s of None \<Rightarrow> 0 | Some t \<Rightarrow> t)"

definition require_opened :: "pool_storage \<Rightarrow> u32 \<Rightarrow> unit pool_result" where
  "require_opened s tree_id = (if tree_id > current_tree s then Inl (Failed UnknownTree) else Inr ())"

definition empty_tree :: "nat \<Rightarrow> tree_state pool_result" where
  "empty_tree depth =
     and_then (collect_results zero [0..<depth]) (\<lambda>frontier.
     and_then (zero depth) (\<lambda>root. Inr \<lparr>ts_size = 0, ts_root = root, ts_frontier = frontier\<rparr>))"

text \<open>The loop over the levels: the node so far and the frontier. \<open>set\<close> and \<open>get_unchecked\<close> trap out of range.\<close>

fun append_levels :: "sponge \<Rightarrow> u64 \<Rightarrow> nat list \<Rightarrow> bytes32 \<Rightarrow> bytes32 list \<Rightarrow> (bytes32 \<times> bytes32 list) pool_result" where
  "append_levels P index [] cur frontier = Inr (cur, frontier)"
| "append_levels P index (level # levels) cur frontier =
     (if \<not> level < length frontier then Inl Trap
      else if drop_bit level index AND 1 = 0
      then and_then (zero level) (\<lambda>z.
           and_then (node P cur z) (\<lambda>n. append_levels P index levels n (frontier[level := cur])))
      else and_then (node P (frontier ! level) cur) (\<lambda>n. append_levels P index levels n frontier))"

definition append_leaf :: "sponge \<Rightarrow> nat \<Rightarrow> pool_storage \<Rightarrow> bytes32 \<Rightarrow> (insertion \<times> pool_storage) pool_result" where
  "append_leaf P depth s leaf =
     (let tree_id = current_tree s
      in and_then (case ps_tree s tree_id of Some st \<Rightarrow> Inr st | None \<Rightarrow> empty_tree depth) (\<lambda>st.
         let index = ts_size st
         in and_then (append_levels P index [0..<depth] leaf (ts_frontier st)) (\<lambda>(cur, frontier).
            and_then (ok_or (checked_add (ts_size st) 1) Trap) (\<lambda>size.
            let st' = \<lparr>ts_size = size, ts_root = cur, ts_frontier = frontier\<rparr>;
                s1 = s\<lparr>ps_tree := (ps_tree s)(tree_id \<mapsto> st'), ps_leaf := (ps_leaf s)((tree_id, index) \<mapsto> leaf),
                       ps_root := (ps_root s)((tree_id, cur) \<mapsto> size)\<rparr>
            in and_then (if size = capacity depth
                         then and_then (ok_or (checked_add tree_id 1) (Failed TreeIdOverflow)) (\<lambda>next.
                              Inr (s1\<lparr>ps_current_tree := Some next\<rparr>))
                         else Inr s1) (\<lambda>s2.
               Inr (\<lparr>in_tree_id = tree_id, in_index = index, in_leaf = leaf, in_root = cur\<rparr>, s2))))))"

definition is_known_root :: "pool_storage \<Rightarrow> u32 \<Rightarrow> bytes32 \<Rightarrow> bool" where
  "is_known_root s tree_id root \<longleftrightarrow> ps_root s (tree_id, root) \<noteq> None"

definition get_tree_info :: "nat \<Rightarrow> pool_storage \<Rightarrow> u32 \<Rightarrow> tree_info pool_result" where
  "get_tree_info depth s tree_id =
     and_then (require_opened s tree_id) (\<lambda>_.
     and_then (case ps_tree s tree_id of
                 None \<Rightarrow> and_then (zero depth) (\<lambda>z. Inr (0, z))
               | Some st \<Rightarrow> Inr (ts_size st, ts_root st)) (\<lambda>(size, root).
     Inr \<lparr>ti_tree_id = tree_id, ti_size = size, ti_capacity = capacity depth, ti_root = root,
          ti_sealed = (size = capacity depth)\<rparr>))"

text \<open>The last cast narrows to \<open>u32\<close>.\<close>

definition page :: "pool_storage \<Rightarrow> u32 \<Rightarrow> u64 \<Rightarrow> u32 \<Rightarrow> (u64 \<times> u32) pool_result" where
  "page s tree_id start count =
     and_then (require_opened s tree_id) (\<lambda>_.
     if count > MAX_PAGE then Inl (Failed PageTooLarge)
     else let size = (case ps_tree s tree_id of None \<Rightarrow> 0 | Some st \<Rightarrow> ts_size st);
              end_ix = min (saturating_add start (ucast count)) size;
              start' = min start end_ix
          in Inr (start', ucast (end_ix - start')))"

definition leaves :: "pool_storage \<Rightarrow> u32 \<Rightarrow> u64 \<Rightarrow> u32 \<Rightarrow> bytes32 list pool_result" where
  "leaves s tree_id start count =
     and_then (page s tree_id start count) (\<lambda>(start', n).
     collect_results (\<lambda>i. and_then (ok_or (checked_add start' (word_of_nat i)) Trap) (\<lambda>j.
                          ok_or (ps_leaf s (tree_id, j)) Trap)) [0..<unat n])"

definition claim_enrollment :: "pool_storage \<Rightarrow> address \<Rightarrow> bytes32 \<Rightarrow> (address \<times> bytes32) pool_result" where
  "claim_enrollment s account enrollment_id =
     (if ps_enrollment s (account, enrollment_id) \<noteq> None then Inl (Failed EnrollmentIdTaken)
      else Inr (account, enrollment_id))"

definition record_enrollment :: "pool_storage \<Rightarrow> address \<times> bytes32 \<Rightarrow> insertion \<Rightarrow> pool_storage" where
  "record_enrollment s key at =
     s\<lparr>ps_enrollment := (ps_enrollment s)(key \<mapsto> \<lparr>lp_tree_id = in_tree_id at, lp_index = in_index at\<rparr>)\<rparr>"

definition enrollment :: "pool_storage \<Rightarrow> address \<Rightarrow> bytes32 \<Rightarrow> leaf_position option" where
  "enrollment s account enrollment_id = ps_enrollment s (account, enrollment_id)"

section \<open>The contract (contract.rs)\<close>

record pool_env =
  pe_auth :: "address \<Rightarrow> bool"
  pe_xdr :: to_xdr
  pe_sponge :: sponge

definition rcv_insert :: "pool_env \<Rightarrow> pool_storage \<Rightarrow> address \<Rightarrow> bytes32 \<Rightarrow> bytes32 \<Rightarrow> pool_storage pool_result" where
  "rcv_insert e s account enrollment_id commit =
     and_then (require (pe_auth e account) Unauthorized) (\<lambda>_.
     and_then (ok_or (contract_id (pe_xdr e) account) (Failed AccountNotContract)) (\<lambda>account_id.
     if \<not> is_canonical commit then Inl (Failed NonCanonicalCommitment)
     else and_then (claim_enrollment s account enrollment_id) (\<lambda>claim.
     and_then (leaf_hash (pe_sponge e) account_id enrollment_id commit) (\<lambda>leaf.
     and_then (append_leaf (pe_sponge e) TREE_DEPTH s leaf) (\<lambda>(at, s1).
     let s2 = record_enrollment s1 claim at
     in Inr (s2\<lparr>ps_events := ps_events s2 @
          [LeafInserted account (in_tree_id at) enrollment_id (in_index at) (in_leaf at) (in_root at)]\<rparr>))))))"

end
