(* ===== verification/Zk_Merkle.thy ===== *)
theory Zk_Merkle
  imports Zk_Pool
begin

text \<open>
  Correctness of the membership pool. The reference is the Merkle root of a list of leaves, padded
  with empty leaves; the frontier of a tree holds the complete left siblings on the path of the
  next leaf. The theory shows that an insertion keeps a tree in step with the reference, that a
  reachable pool is a function of its history, and what a client of the pool relies on.
\<close>

unbundle bit_operations_syntax

section \<open>The reference: Merkle roots of lists\<close>

text \<open>
  The root of a list of leaves at a depth, padded with the empty leaf; \<open>H\<close> is the hash where it
  does not trap.
\<close>

fun merkle_root :: "(bytes list \<Rightarrow> bytes32) \<Rightarrow> nat \<Rightarrow> bytes32 list \<Rightarrow> bytes32" where
  "merkle_root H 0 xs = (case xs of [] \<Rightarrow> 0 | x # _ \<Rightarrow> x)"
| "merkle_root H (Suc d) xs =
     H [bytes32_to_array (merkle_root H d (take (2 ^ d) xs)), bytes32_to_array (merkle_root H d (drop (2 ^ d) xs))]"

text \<open>
  What the code relies on of the sponge: canonical inputs hash to a canonical value, and the
  constant table holds the roots of empty trees.
\<close>

definition sponge_laws :: "sponge \<Rightarrow> (bytes list \<Rightarrow> bytes32) \<Rightarrow> bool" where
  "sponge_laws P H \<longleftrightarrow>
     (\<forall>xs. list_all is_canonical_field xs \<longrightarrow> P xs = Some (H xs) \<and> is_canonical (H xs)) \<and>
     (\<forall>l < MAX_TREE_DEPTH.
        H [bytes32_to_array (ZERO_HASHES ! l), bytes32_to_array (ZERO_HASHES ! l)] = ZERO_HASHES ! Suc l)"

lemma sponge_lawsD:
  assumes "sponge_laws P H"
  shows "list_all is_canonical_field xs \<Longrightarrow> P xs = Some (H xs)" "list_all is_canonical_field xs \<Longrightarrow> is_canonical (H xs)"
    "l < 32 \<Longrightarrow> H [bytes32_to_array (ZERO_HASHES ! l), bytes32_to_array (ZERO_HASHES ! l)] = ZERO_HASHES ! Suc l"
  using assms by (auto simp: sponge_laws_def MAX_TREE_DEPTH_def)

lemma is_canonical_0 [simp]: "is_canonical 0"
  by (simp add: is_canonical_def is_canonical_field_iff bn254_scalar_order_def)

lemma zero_hashes_basic [simp]: "length ZERO_HASHES = 33" "ZERO_HASHES ! 0 = 0"
  by (simp_all add: ZERO_HASHES_def)

lemma zero_root: "sponge_laws P H \<Longrightarrow> l \<le> 32 \<Longrightarrow> merkle_root H l [] = ZERO_HASHES ! l"
  by (induction l) (simp_all add: sponge_lawsD)

lemma list_all_take_drop: "list_all Q xs \<Longrightarrow> list_all Q (take n xs)" "list_all Q xs \<Longrightarrow> list_all Q (drop n xs)"
  unfolding list_all_iff by (meson in_set_takeD in_set_dropD)+

lemma merkle_root_canonical:
  "sponge_laws P H \<Longrightarrow> list_all is_canonical xs \<Longrightarrow> is_canonical (merkle_root H d xs)"
proof (induction d arbitrary: xs)
  case (Suc d)
  have "is_canonical (merkle_root H d (take (2 ^ d) xs))" "is_canonical (merkle_root H d (drop (2 ^ d) xs))"
    using Suc.IH [OF Suc.prems(1)] list_all_take_drop [OF Suc.prems(2)] by blast+
  then show ?case using sponge_lawsD(2) [OF Suc.prems(1)] by (simp add: is_canonical_def [symmetric])
qed (auto split: list.split)

text \<open>The constant table is what the recomputation of the empty roots gives.\<close>

lemma zero_hashes_from_eq:
  assumes "sponge_laws P H"
  shows "l + n = 32 \<Longrightarrow> zero_hashes_from P (ZERO_HASHES ! l) n = Inr (drop (Suc l) ZERO_HASHES)"
proof (induction n arbitrary: l)
  case (Suc n)
  have "is_canonical (ZERO_HASHES ! l)"
    using zero_root [OF assms, of l] merkle_root_canonical [OF assms, of "[]" l] Suc.prems by simp
  then have "P [bytes32_to_array (ZERO_HASHES ! l), bytes32_to_array (ZERO_HASHES ! l)] = Some (ZERO_HASHES ! Suc l)"
    using sponge_lawsD(1,3) [OF assms] Suc.prems by (simp add: is_canonical_def)
  moreover have "drop (Suc l) ZERO_HASHES = ZERO_HASHES ! Suc l # drop (Suc (Suc l)) ZERO_HASHES"
    using Suc.prems by (simp add: Cons_nth_drop_Suc)
  ultimately show ?case using Suc.IH [of "Suc l"] Suc.prems by (simp add: hash_fields_def)
qed simp

lemma zero_hashes_table:
  assumes "sponge_laws P H"
  shows "zero_hashes P MAX_TREE_DEPTH = (Inr ZERO_HASHES :: 'e failure + bytes32 list)"
proof -
  have "zero_hashes_from P 0 32 = (Inr (drop (Suc 0) ZERO_HASHES) :: 'e failure + bytes32 list)"
    by (rule zero_hashes_from_eq [OF assms, of 0 32, simplified])
  then show ?thesis using Cons_nth_drop_Suc [of 0 ZERO_HASHES] by (simp add: zero_hashes_def MAX_TREE_DEPTH_def)
qed

lemma node_eq:
  "sponge_laws P H \<Longrightarrow> is_canonical a \<Longrightarrow> is_canonical b \<Longrightarrow> node P a b = Inr (H [bytes32_to_array a, bytes32_to_array b])"
  by (simp add: node_def hash_fields_def sponge_lawsD(1) is_canonical_def)

section \<open>One insertion into a tree\<close>

text \<open>The start of the block of a level that the next leaf falls in.\<close>

definition block :: "nat \<Rightarrow> nat \<Rightarrow> nat" where
  "block i l = (i div 2 ^ l) * 2 ^ l"

lemma block_0 [simp]: "block i 0 = i"
  by (simp add: block_def)

lemma block_le: "block i l \<le> i" "i < block i l + 2 ^ l"
proof -
  have "i = block i l + i mod 2 ^ l" by (simp only: block_def div_mult_mod_eq)
  moreover have "i mod 2 ^ l < 2 ^ l" by simp
  ultimately show "block i l \<le> i" "i < block i l + 2 ^ l" by linarith+
qed

lemma block_Suc:
  "even (i div 2 ^ l) \<Longrightarrow> block i (Suc l) = block i l"
  "odd (i div 2 ^ l) \<Longrightarrow> block i l = block i (Suc l) + 2 ^ l"
proof -
  let ?q = "i div 2 ^ l"
  have s: "block i (Suc l) = (?q div 2) * 2 * 2 ^ l"
    by (simp add: block_def div_mult2_eq [symmetric] mult.commute mult.left_commute)
  show "block i (Suc l) = block i l" if "even ?q" using that s by (simp add: block_def)
  show "block i l = block i (Suc l) + 2 ^ l" if "odd ?q"
  proof -
    have "?q = (?q div 2) * 2 + 1" using odd_two_times_div_two_succ [OF that] by (simp add: mult.commute)
    then have "?q * 2 ^ l = (?q div 2) * 2 * 2 ^ l + 2 ^ l" by (metis add_mult_distrib mult_1)
    then show ?thesis using s by (simp add: block_def)
  qed
qed

lemma block_top: "i < 2 ^ d \<Longrightarrow> block i d = 0"
  by (simp add: block_def)

text \<open>The node of each level on the path of the new leaf.\<close>

definition path_node :: "(bytes list \<Rightarrow> bytes32) \<Rightarrow> bytes32 list \<Rightarrow> bytes32 \<Rightarrow> nat \<Rightarrow> bytes32" where
  "path_node H L x l = merkle_root H l (drop (block (length L) l) (L @ [x]))"

text \<open>The complete left sibling, which the frontier keeps.\<close>

definition left_node :: "(bytes list \<Rightarrow> bytes32) \<Rightarrow> bytes32 list \<Rightarrow> nat \<Rightarrow> bytes32" where
  "left_node H L l = merkle_root H l (take (2 ^ l) (drop (block (length L) (Suc l)) L))"

lemma path_node_0: "path_node H L x 0 = x"
  by (simp add: path_node_def)

lemma path_node_even:
  assumes "even (length L div 2 ^ l)" "sponge_laws P H" "l \<le> 32"
  shows "path_node H L x (Suc l) = H [bytes32_to_array (path_node H L x l), bytes32_to_array (ZERO_HASHES ! l)]"
proof -
  let ?D = "drop (block (length L) l) (L @ [x])"
  have "length ?D \<le> 2 ^ l" using block_le [of "length L" l] by simp
  then have "take (2 ^ l) ?D = ?D" "drop (2 ^ l) ?D = []" by simp_all
  then show ?thesis
    using zero_root [OF assms(2,3)] by (simp add: path_node_def block_Suc(1) [OF assms(1)])
qed

lemma path_node_odd:
  assumes "odd (length L div 2 ^ l)"
  shows "path_node H L x (Suc l) = H [bytes32_to_array (left_node H L l), bytes32_to_array (path_node H L x l)]"
proof -
  let ?b = "block (length L) (Suc l)"
  have le: "?b + 2 ^ l \<le> length L" using block_Suc(2) [OF assms] block_le(1) [of "length L" l] by simp
  then have "take (2 ^ l) (drop ?b (L @ [x])) = take (2 ^ l) (drop ?b L)" by simp
  moreover have "drop (2 ^ l) (drop ?b (L @ [x])) = drop (block (length L) l) (L @ [x])"
    unfolding drop_drop block_Suc(2) [OF assms] by (simp only: add.commute)
  ultimately show ?thesis unfolding path_node_def left_node_def merkle_root.simps(2) by (simp only:)
qed

text \<open>The frontier after the insertion.\<close>

lemma div_Suc_cases:
  fixes i l :: nat
  shows "Suc i div 2 ^ l = i div 2 ^ l \<or> Suc i div 2 ^ l = Suc (i div 2 ^ l) \<and> Suc i mod 2 ^ l = 0"
  by (metis div_Suc mod_Suc_eq mod_0 mod_Suc)

lemma left_node_insert:
  assumes "odd (Suc (length L) div 2 ^ l)"
  shows "left_node H (L @ [x]) l = (if even (length L div 2 ^ l) then path_node H L x l else left_node H L l)"
proof (cases "even (length L div 2 ^ l)")
  case True
  let ?i = "length L"
  have q: "Suc ?i div 2 ^ l = Suc (?i div 2 ^ l)" "Suc ?i mod 2 ^ l = 0" using assms True div_Suc_cases [of ?i l] by auto
  have b: "block (Suc ?i) (Suc l) + 2 ^ l = block (Suc ?i) l" using block_Suc(2) [OF assms] by simp
  have top: "block (Suc ?i) l = Suc ?i" using q(2) by (simp add: block_def mod_0_imp_dvd)
  have "block (Suc ?i) l = block ?i l + 2 ^ l" using q(1) by (simp add: block_def)
  then have e: "block (Suc ?i) (Suc l) = block ?i l" using b by simp
  then have "length (drop (block ?i l) (L @ [x])) = 2 ^ l" using b top by simp
  then show ?thesis using True e by (simp add: left_node_def path_node_def)
next
  case False
  let ?i = "length L"
  have q: "Suc ?i div 2 ^ l = ?i div 2 ^ l" using assms False div_Suc_cases [of ?i l] by auto
  then have e: "block (Suc ?i) (Suc l) = block ?i (Suc l)"
    by (simp add: block_def power_Suc2 div_mult2_eq del: power_Suc)
  have "block ?i (Suc l) + 2 ^ l \<le> ?i" using block_Suc(2) [OF False] block_le(1) [of ?i l] by simp
  then show ?thesis using False e by (simp add: left_node_def)
qed

lemma level_bit: "l < 64 \<Longrightarrow> drop_bit l index AND 1 = (0 :: u64) \<longleftrightarrow> even (unat index div 2 ^ l)"
proof -
  assume l: "l < 64"
  have "drop_bit l index AND 1 = 0 \<longleftrightarrow> \<not> bit index l"
    by (simp add: bit_iff_odd_drop_bit and_one_eq flip: even_iff_mod_2_eq_zero)
  also have "\<dots> \<longleftrightarrow> \<not> bit (unat index) l" using l by (simp add: bit_unsigned_iff)
  also have "\<dots> \<longleftrightarrow> even (unat index div 2 ^ l)" by (simp add: bit_iff_odd)
  finally show ?thesis .
qed

definition frontier_ok :: "(bytes list \<Rightarrow> bytes32) \<Rightarrow> nat \<Rightarrow> bytes32 list \<Rightarrow> bytes32 list \<Rightarrow> bool" where
  "frontier_ok H d L f \<longleftrightarrow>
     length f = d \<and> (\<forall>l < d. odd (length L div 2 ^ l) \<longrightarrow> f ! l = left_node H L l)"

definition tree_ok :: "(bytes list \<Rightarrow> bytes32) \<Rightarrow> nat \<Rightarrow> bytes32 list \<Rightarrow> tree_state \<Rightarrow> bool" where
  "tree_ok H d L st \<longleftrightarrow>
     unat (ts_size st) = length L \<and> ts_root st = merkle_root H d L \<and> frontier_ok H d L (ts_frontier st) \<and>
     list_all is_canonical L"

lemma canonical_parts:
  assumes "sponge_laws P H" "list_all is_canonical L" "is_canonical x"
  shows "is_canonical (path_node H L x l)" "is_canonical (left_node H L l)"
proof -
  have "list_all is_canonical (L @ [x])" using assms(2,3) by simp
  then show "is_canonical (path_node H L x l)" "is_canonical (left_node H L l)"
    unfolding path_node_def left_node_def
    using assms(2) by (blast intro: merkle_root_canonical [OF assms(1)] list_all_take_drop)+
qed

text \<open>The loop from a level on: the root, and a frontier written at the even levels only.\<close>

lemma append_levels_ok:
  assumes laws: "sponge_laws P H" and L: "list_all is_canonical L" "is_canonical x" and d: "d \<le> 32"
    and i: "unat index = length L"
  shows "l \<le> d \<Longrightarrow> length f = d \<Longrightarrow> (\<forall>k. l \<le> k \<and> k < d \<and> odd (length L div 2 ^ k) \<longrightarrow> f ! k = left_node H L k) \<Longrightarrow>
    \<exists>g. append_levels P index [l..<d] (path_node H L x l) f = Inr (path_node H L x d, g) \<and> length g = d \<and>
      (\<forall>k < l. g ! k = f ! k) \<and>
      (\<forall>k. l \<le> k \<and> k < d \<longrightarrow> g ! k = (if even (length L div 2 ^ k) then path_node H L x k else f ! k))"
proof (induction "d - l" arbitrary: l f)
  case 0
  then show ?case by auto
next
  case (Suc n)
  then have l: "l < d" "[l..<d] = l # [Suc l..<d]" "Suc l \<le> d" "n = d - Suc l" by (auto simp: upt_conv_Cons)
  note canon = canonical_parts [OF laws L]
  have z: "zero l = Inr (ZERO_HASHES ! l)" "is_canonical (ZERO_HASHES ! l)"
    using l(1) d zero_root [OF laws, of l] merkle_root_canonical [OF laws, of "[]" l] by (simp_all add: zero_def)
  have bit: "drop_bit l index AND 1 = 0 \<longleftrightarrow> even (length L div 2 ^ l)" using level_bit [of l index] l(1) d i by simp
  show ?case
  proof (cases "even (length L div 2 ^ l)")
    case True
    have f: "\<forall>k. Suc l \<le> k \<and> k < d \<and> odd (length L div 2 ^ k) \<longrightarrow> (f[l := path_node H L x l]) ! k = left_node H L k"
      using Suc.prems(3) by auto
    obtain g where g: "append_levels P index [Suc l..<d] (path_node H L x (Suc l)) (f[l := path_node H L x l]) =
          Inr (path_node H L x d, g)" "length g = d" "\<forall>k < Suc l. g ! k = (f[l := path_node H L x l]) ! k"
        "\<forall>k. Suc l \<le> k \<and> k < d \<longrightarrow> g ! k = (if even (length L div 2 ^ k) then path_node H L x k else (f[l := path_node H L x l]) ! k)"
      using Suc.hyps(1) [OF l(4,3) _ f] Suc.prems(2) by auto
    have "append_levels P index [l..<d] (path_node H L x l) f = Inr (path_node H L x d, g)"
      using g(1) z bit True l(1) Suc.prems(2) path_node_even [OF True laws] d node_eq [OF laws canon(1) z(2)]
      by (simp add: l(2))
    moreover have "g ! k = (if even (length L div 2 ^ k) then path_node H L x k else f ! k)" if "l \<le> k" "k < d" for k
      using g(3,4) that True Suc.prems(2) by (cases "k = l") auto
    moreover have "g ! k = f ! k" if "k < l" for k using g(3) that by simp
    ultimately show ?thesis using g(2) by (intro exI [of _ g]) blast
  next
    case False
    have f: "\<forall>k. Suc l \<le> k \<and> k < d \<and> odd (length L div 2 ^ k) \<longrightarrow> f ! k = left_node H L k"
      using Suc.prems(3) by auto
    obtain g where g: "append_levels P index [Suc l..<d] (path_node H L x (Suc l)) f = Inr (path_node H L x d, g)"
        "length g = d" "\<forall>k < Suc l. g ! k = f ! k"
        "\<forall>k. Suc l \<le> k \<and> k < d \<longrightarrow> g ! k = (if even (length L div 2 ^ k) then path_node H L x k else f ! k)"
      using Suc.hyps(1) [OF l(4,3) Suc.prems(2) f] by auto
    have "f ! l = left_node H L l" using Suc.prems(3) False l(1) by auto
    then have "append_levels P index [l..<d] (path_node H L x l) f = Inr (path_node H L x d, g)"
      using g(1) bit False l(1) Suc.prems(2) path_node_odd [OF False] node_eq [OF laws canon(2,1)]
      by (simp add: l(2))
    moreover have "g ! k = (if even (length L div 2 ^ k) then path_node H L x k else f ! k)" if "l \<le> k" "k < d" for k
      using g(3,4) that False by (cases "k = l") auto
    moreover have "g ! k = f ! k" if "k < l" for k using g(3) that by simp
    ultimately show ?thesis using g(2) by (intro exI [of _ g]) blast
  qed
qed

text \<open>So a tree that is right for its leaves is right for one more.\<close>

lemma insert_tree_ok:
  assumes laws: "sponge_laws P H" and d: "d \<le> 32" and st: "tree_ok H d L st" and x: "is_canonical x"
    and room: "length L < 2 ^ d"
  shows "\<exists>g sz. append_levels P (ts_size st) [0..<d] x (ts_frontier st) = Inr (merkle_root H d (L @ [x]), g) \<and>
    checked_add (ts_size st) 1 = Some sz \<and>
    tree_ok H d (L @ [x]) \<lparr>ts_size = sz, ts_root = merkle_root H d (L @ [x]), ts_frontier = g\<rparr>"
proof -
  have stD: "unat (ts_size st) = length L" "frontier_ok H d L (ts_frontier st)" "list_all is_canonical L"
    using st by (auto simp: tree_ok_def)
  obtain g where g: "append_levels P (ts_size st) [0..<d] (path_node H L x 0) (ts_frontier st) = Inr (path_node H L x d, g)"
      "length g = d" "\<forall>k < d. g ! k = (if even (length L div 2 ^ k) then path_node H L x k else ts_frontier st ! k)"
    using append_levels_ok [OF laws stD(3) x d stD(1), of 0 "ts_frontier st"] stD(2) by (auto simp: frontier_ok_def)
  have root: "path_node H L x d = merkle_root H d (L @ [x])" using block_top [OF room] by (simp add: path_node_def)
  have "(2 :: nat) ^ d \<le> 2 ^ 32" using d by (rule power_increasing) simp
  then have "unat (ts_size st) + 1 < 2 ^ 64" using room stD(1) by simp
  then have c: "checked_add (ts_size st) 1 = Some (ts_size st + 1)" by (simp add: checked_add_def)
  have "g ! k = left_node H (L @ [x]) k" if "k < d" "odd (Suc (length L) div 2 ^ k)" for k
    using g(3) that left_node_insert [OF that(2)] stD(2) by (auto simp: frontier_ok_def)
  then have "frontier_ok H d (L @ [x]) g" using g(2) by (simp add: frontier_ok_def)
  then show ?thesis
    using g(1) root c checked_add_SomeD [OF c] stD(1,3) x by (auto simp: path_node_0 tree_ok_def)
qed

lemma empty_tree_ok:
  assumes "sponge_laws P H" "d \<le> 32"
  shows "\<exists>st. empty_tree d = Inr st \<and> tree_ok H d [] st"
proof -
  have "collect_results zero [0..<d] = Inr (map ((!) ZERO_HASHES) [0..<d])"
    using assms(2) by (auto simp: collect_results_Inr_iff list_all2_conv_all_nth zero_def)
  then show ?thesis using assms zero_root [OF assms(1), of d]
    by (auto simp: empty_tree_def zero_def tree_ok_def frontier_ok_def)
qed

section \<open>The pool as the list of its leaves\<close>

text \<open>
  Every insertion of the pool in order; tree \<open>t\<close> holds the \<open>t\<close>-th chunk of the size of a tree.
\<close>

definition chunk :: "nat \<Rightarrow> bytes32 list \<Rightarrow> u32 \<Rightarrow> bytes32 list" where
  "chunk d ls t = take (2 ^ d) (drop (unat t * 2 ^ d) ls)"

definition pool_ok :: "(bytes list \<Rightarrow> bytes32) \<Rightarrow> nat \<Rightarrow> bytes32 list \<Rightarrow> pool_storage \<Rightarrow> bool" where
  "pool_ok H d ls s \<longleftrightarrow>
     unat (current_tree s) = length ls div 2 ^ d \<and>
     (\<forall>t. if chunk d ls t = [] then ps_tree s t = None
          else \<exists>st. ps_tree s t = Some st \<and> tree_ok H d (chunk d ls t) st) \<and>
     (\<forall>t i. ps_leaf s (t, i) = (if unat i < length (chunk d ls t) then Some (chunk d ls t ! unat i) else None)) \<and>
     (\<forall>t r. ps_root s (t, r) \<noteq> None \<longleftrightarrow>
        (\<exists>k > 0. k \<le> length (chunk d ls t) \<and> r = merkle_root H d (take k (chunk d ls t))))"

lemma chunk_append:
  assumes "unat t = length ls div 2 ^ d"
  shows "chunk d (ls @ [x]) t = chunk d ls t @ [x]" "length (chunk d ls t) = length ls mod 2 ^ d"
proof -
  have le: "unat t * 2 ^ d \<le> length ls" "length ls - unat t * 2 ^ d = length ls mod 2 ^ d"
    using assms by (auto simp: minus_div_mult_eq_mod)
  have lt: "length ls mod 2 ^ d < 2 ^ d" by simp
  show "length (chunk d ls t) = length ls mod 2 ^ d" using le lt by (simp add: chunk_def)
  have "length (drop (unat t * 2 ^ d) ls) < 2 ^ d" using le lt by simp
  then show "chunk d (ls @ [x]) t = chunk d ls t @ [x]" using le(1) by (simp add: chunk_def)
qed

lemma chunk_other:
  assumes "unat t = length ls div 2 ^ d" "u \<noteq> t"
  shows "chunk d (ls @ [x]) u = chunk d ls u"
proof -
  have "unat u \<noteq> unat t" using assms(2) by (simp add: word_unat_eq_iff)
  then consider "unat u < unat t" | "unat t < unat u" by linarith
  then show ?thesis
  proof cases
    case 1
    then have "(unat u + 1) * 2 ^ d \<le> unat t * 2 ^ d" by (intro mult_le_mono1) simp
    also have "\<dots> \<le> length ls" using assms(1) by simp
    finally show ?thesis by (simp add: chunk_def)
  next
    case 2
    have "length ls = unat t * 2 ^ d + length ls mod 2 ^ d" unfolding assms(1) by (simp only: div_mult_mod_eq)
    moreover have "length ls mod 2 ^ d < 2 ^ d" by simp
    ultimately have "length ls < (unat t + 1) * 2 ^ d" unfolding add_mult_distrib by linarith
    also have "\<dots> \<le> unat u * 2 ^ d" using 2 by (intro mult_le_mono1) simp
    finally show ?thesis by (simp add: chunk_def)
  qed
qed

lemma capacity_unat: "d \<le> 32 \<Longrightarrow> unat (capacity d) = 2 ^ d"
proof -
  assume "d \<le> 32"
  then have "(2 :: nat) ^ d < 2 ^ 64" by (intro power_strict_increasing) auto
  then have "(2 :: nat) ^ d mod 2 ^ LENGTH(64) = 2 ^ d" by (simp del: power_strict_increasing_iff)
  then have "unat (word_of_nat (2 ^ d) :: u64) = 2 ^ d" unfolding unat_of_nat .
  moreover have "capacity d = word_of_nat (2 ^ d)" by (simp add: capacity_def push_bit_eq_mult)
  ultimately show ?thesis by simp
qed

text \<open>An insertion of the pool: what is written, and when the next tree is opened.\<close>

lemma append_leaf_eq:
  assumes laws: "sponge_laws P H" and d: "d \<le> 32" and ok: "pool_ok H d ls s" and x: "is_canonical x"
  defines "t \<equiv> current_tree s" and "r \<equiv> merkle_root H d (chunk d ls (current_tree s) @ [x])"
  shows "\<exists>st i. unat i = length ls mod 2 ^ d \<and> unat (ts_size st) = length ls mod 2 ^ d + 1 \<and>
    tree_ok H d (chunk d ls t @ [x]) st \<and>
    append_leaf P d s x =
      (let s1 = s\<lparr>ps_tree := (ps_tree s)(t \<mapsto> st), ps_leaf := (ps_leaf s)((t, i) \<mapsto> x),
                  ps_root := (ps_root s)((t, r) \<mapsto> ts_size st)\<rparr>
       in and_then (if length ls mod 2 ^ d + 1 = 2 ^ d
                    then and_then (ok_or (checked_add t 1) (Failed TreeIdOverflow)) (\<lambda>next.
                         Inr (s1\<lparr>ps_current_tree := Some next\<rparr>))
                    else Inr s1) (\<lambda>s2.
          Inr (\<lparr>in_tree_id = t, in_index = i, in_leaf = x, in_root = r\<rparr>, s2)))"
proof -
  let ?L = "chunk d ls t"
  have cur: "unat t = length ls div 2 ^ d" using ok by (simp add: pool_ok_def t_def)
  note ch = chunk_append [OF cur]
  have tr: "if ?L = [] then ps_tree s t = None else \<exists>st. ps_tree s t = Some st \<and> tree_ok H d ?L st"
    using ok unfolding pool_ok_def by blast
  obtain st where st: "(case ps_tree s t of Some st \<Rightarrow> Inr st | None \<Rightarrow> empty_tree d) = Inr st" "tree_ok H d ?L st"
    using tr empty_tree_ok [OF laws d] by (auto split: if_splits)
  have room: "length ?L < 2 ^ d" using ch(2) by simp
  obtain g sz where a: "append_levels P (ts_size st) [0..<d] x (ts_frontier st) = Inr (merkle_root H d (?L @ [x]), g)"
      "checked_add (ts_size st) 1 = Some sz"
      "tree_ok H d (?L @ [x]) \<lparr>ts_size = sz, ts_root = merkle_root H d (?L @ [x]), ts_frontier = g\<rparr>"
    using insert_tree_ok [OF laws d st(2) x room] by blast
  let ?st = "\<lparr>ts_size = sz, ts_root = merkle_root H d (?L @ [x]), ts_frontier = g\<rparr>"
  have sz: "unat sz = length ls mod 2 ^ d + 1" "unat (ts_size st) = length ls mod 2 ^ d"
    using a(3) st(2) ch(2) by (simp_all add: tree_ok_def)
  have "sz = capacity d \<longleftrightarrow> length ls mod 2 ^ d + 1 = 2 ^ d"
    using sz(1) capacity_unat [OF d] by (simp add: word_unat_eq_iff)
  note full = this
  have "append_leaf P d s x =
      (let s1 = s\<lparr>ps_tree := (ps_tree s)(t \<mapsto> ?st), ps_leaf := (ps_leaf s)((t, ts_size st) \<mapsto> x),
                  ps_root := (ps_root s)((t, r) \<mapsto> ts_size ?st)\<rparr>
       in and_then (if length ls mod 2 ^ d + 1 = 2 ^ d
                    then and_then (ok_or (checked_add t 1) (Failed TreeIdOverflow)) (\<lambda>next.
                         Inr (s1\<lparr>ps_current_tree := Some next\<rparr>))
                    else Inr s1) (\<lambda>s2.
          Inr (\<lparr>in_tree_id = t, in_index = ts_size st, in_leaf = x, in_root = r\<rparr>, s2)))"
    using st(1) a(1,2) by (simp add: append_leaf_def t_def [symmetric] Let_def r_def full)
  then show ?thesis using sz a(3) by (intro exI [of _ ?st] exI [of _ "ts_size st"]) simp
qed

lemma pool_ok_insert:
  assumes ok: "pool_ok H d ls s" and t: "unat t = length ls div 2 ^ d" and i: "unat i = length ls mod 2 ^ d"
    and st: "tree_ok H d (chunk d ls t @ [x]) st"
    and s': "ps_tree s' = (ps_tree s)(t \<mapsto> st)" "ps_leaf s' = (ps_leaf s)((t, i) \<mapsto> x)"
      "ps_root s' = (ps_root s)((t, merkle_root H d (chunk d ls t @ [x])) \<mapsto> sz)"
      "unat (current_tree s') = length (ls @ [x]) div 2 ^ d"
  shows "pool_ok H d (ls @ [x]) s'"
proof -
  let ?L = "chunk d ls t"
  have ch: "chunk d (ls @ [x]) u = (if u = t then ?L @ [x] else chunk d ls u)" for u
    using chunk_append(1) [OF t] chunk_other [OF t] by simp
  have len: "length ?L = unat i" using chunk_append(2) [OF t] i by simp
  have "if chunk d (ls @ [x]) u = [] then ps_tree s' u = None
        else \<exists>st. ps_tree s' u = Some st \<and> tree_ok H d (chunk d (ls @ [x]) u) st" for u
  proof (cases "u = t")
    case False
    have "if chunk d ls u = [] then ps_tree s u = None else \<exists>st. ps_tree s u = Some st \<and> tree_ok H d (chunk d ls u) st"
      using ok unfolding pool_ok_def by blast
    then show ?thesis using False by (simp add: ch s')
  qed (simp add: ch s' st)
  moreover have "ps_leaf s' (u, j) =
      (if unat j < length (chunk d (ls @ [x]) u) then Some (chunk d (ls @ [x]) u ! unat j) else None)" for u j
  proof -
    have o: "ps_leaf s (u, j) = (if unat j < length (chunk d ls u) then Some (chunk d ls u ! unat j) else None)"
      using ok by (simp add: pool_ok_def)
    show ?thesis
    proof (cases "u = t \<and> j = i")
      case False
      then have "u = t \<Longrightarrow> unat j \<noteq> length ?L" using len by (simp add: word_unat_eq_iff)
      then show ?thesis using o False by (auto simp: ch s' nth_append)
    qed (simp add: ch s' len [symmetric])
  qed
  moreover have "ps_root s' (u, r) \<noteq> None \<longleftrightarrow>
      (\<exists>k > 0. k \<le> length (chunk d (ls @ [x]) u) \<and> r = merkle_root H d (take k (chunk d (ls @ [x]) u)))" for u r
  proof -
    have o: "ps_root s (u, r) \<noteq> None \<longleftrightarrow> (\<exists>k > 0. k \<le> length (chunk d ls u) \<and> r = merkle_root H d (take k (chunk d ls u)))"
      using ok by (simp add: pool_ok_def)
    show ?thesis
    proof (cases "u = t")
      case True
      have "(\<exists>k > 0. k \<le> length (?L @ [x]) \<and> r = merkle_root H d (take k (?L @ [x]))) \<longleftrightarrow>
          (\<exists>k > 0. k \<le> length ?L \<and> r = merkle_root H d (take k ?L)) \<or> r = merkle_root H d (?L @ [x])"
        by (auto simp: le_Suc_eq)
      then show ?thesis using o True by (simp add: ch s')
    qed (use o in \<open>simp add: ch s'\<close>)
  qed
  ultimately show ?thesis using s'(4) by (simp only: pool_ok_def) blast
qed

lemma append_leaf_ok:
  assumes laws: "sponge_laws P H" and d: "d \<le> 32" and ok: "pool_ok H d ls s" and x: "is_canonical x"
    and a: "append_leaf P d s x = Inr (at, s')"
  shows "pool_ok H d (ls @ [x]) s'" "in_tree_id at = current_tree s" "unat (in_index at) = length ls mod 2 ^ d"
    "ps_enrollment s' = ps_enrollment s"
proof -
  let ?t = "current_tree s" and ?m = "length ls" and ?r = "merkle_root H d (chunk d ls (current_tree s) @ [x])"
  have t: "unat ?t = ?m div 2 ^ d" using ok by (simp add: pool_ok_def)
  obtain st i where i: "unat i = ?m mod 2 ^ d" and st: "tree_ok H d (chunk d ls ?t @ [x]) st"
    and eq: "append_leaf P d s x =
      (let s1 = s\<lparr>ps_tree := (ps_tree s)(?t \<mapsto> st), ps_leaf := (ps_leaf s)((?t, i) \<mapsto> x),
                  ps_root := (ps_root s)((?t, ?r) \<mapsto> ts_size st)\<rparr>
       in and_then (if ?m mod 2 ^ d + 1 = 2 ^ d
                    then and_then (ok_or (checked_add ?t 1) (Failed TreeIdOverflow)) (\<lambda>next.
                         Inr (s1\<lparr>ps_current_tree := Some next\<rparr>))
                    else Inr s1) (\<lambda>s2.
          Inr (\<lparr>in_tree_id = ?t, in_index = i, in_leaf = x, in_root = ?r\<rparr>, s2)))"
    using append_leaf_eq [OF laws d ok x] by blast
  have at: "in_tree_id at = ?t" "in_index at = i" "ps_enrollment s' = ps_enrollment s"
    "ps_tree s' = (ps_tree s)(?t \<mapsto> st)" "ps_leaf s' = (ps_leaf s)((?t, i) \<mapsto> x)"
    "ps_root s' = (ps_root s)((?t, ?r) \<mapsto> ts_size st)"
    using a eq by (auto simp: Let_def result_simps split: if_splits)
  have cur: "if ?m mod 2 ^ d + 1 = 2 ^ d then checked_add ?t 1 = Some (current_tree s') else current_tree s' = ?t"
    using a eq by (auto simp: Let_def result_simps current_tree_def split: if_splits)
  have "unat (current_tree s') = length (ls @ [x]) div 2 ^ d"
    using cur t checked_add_SomeD [of ?t 1] div_Suc [of ?m "2 ^ d"] by (auto simp: mod_Suc split: if_splits)
  then show "pool_ok H d (ls @ [x]) s'" by (rule pool_ok_insert [OF ok t i st at(4-6)])
  show "in_tree_id at = current_tree s" "unat (in_index at) = length ls mod 2 ^ d" "ps_enrollment s' = ps_enrollment s"
    using at i by simp_all
qed

lemma append_leaf_succeeds:
  assumes "sponge_laws P H" "d \<le> 32" "pool_ok H d ls s" "is_canonical x" "unat (current_tree s) + 1 < 2 ^ 32"
  shows "\<exists>at s'. append_leaf P d s x = Inr (at, s')"
  using append_leaf_eq [OF assms(1-4)] assms(5) by (auto simp: Let_def checked_add_def)

section \<open>The contract\<close>

text \<open>
  Histories of insertions, newest first: the account, the enrollment id and the commitment of
  each. The host and the sponge do not change.
\<close>

type_synonym pool_history = "(address \<times> bytes32 \<times> bytes32) list"

inductive pool_reach :: "to_xdr \<Rightarrow> sponge \<Rightarrow> pool_history \<Rightarrow> pool_storage \<Rightarrow> bool" for xdr P where
  pool_init: "pool_reach xdr P [] initial_pool"
| pool_insert: "pool_reach xdr P h s \<Longrightarrow> pe_xdr e = xdr \<Longrightarrow> pe_sponge e = P \<Longrightarrow> rcv_insert e s a n c = Inr s' \<Longrightarrow>
    pool_reach xdr P ((a, n, c) # h) s'"

text \<open>The leaf of an insertion, bound to the account and the enrollment.\<close>

definition bound_leaf :: "to_xdr \<Rightarrow> (bytes list \<Rightarrow> bytes32) \<Rightarrow> address \<times> bytes32 \<times> bytes32 \<Rightarrow> bytes32" where
  "bound_leaf xdr H = (\<lambda>(a, n, c). H (leaf_fields (case contract_id xdr a of Some i \<Rightarrow> i | None \<Rightarrow> []) n c))"

definition history_leaves :: "to_xdr \<Rightarrow> (bytes list \<Rightarrow> bytes32) \<Rightarrow> pool_history \<Rightarrow> bytes32 list" where
  "history_leaves xdr H h = map (bound_leaf xdr H) (rev h)"

text \<open>Where the insertion with a number landed.\<close>

definition position_of :: "nat \<Rightarrow> leaf_position" where
  "position_of j = \<lparr>lp_tree_id = word_of_nat (j div 2 ^ TREE_DEPTH), lp_index = word_of_nat (j mod 2 ^ TREE_DEPTH)\<rparr>"

lemma leaf_fields_canonical:
  assumes "length account_id = 32" "is_canonical c"
  shows "list_all is_canonical_field (leaf_fields account_id n c)"
proof -
  obtain ah al nh nl where sp: "split_hi_lo account_id = (ah, al)" "split_hi_lo (bytes32_to_array n) = (nh, nl)"
    by (metis surj_pair)
  have "is_canonical_field DOM_BIND" by (simp add: is_canonical_field_def DOM_BIND_def BN254_SCALAR_MODULUS_def)
  then show ?thesis
    using split_hi_lo_canonical [OF assms(1) sp(1)] split_hi_lo_canonical [OF _ sp(2)] assms(2)
    by (simp add: leaf_fields_def sp is_canonical_def)
qed

lemma rcv_insert_Inr:
  assumes laws: "xdr_laws xdr" "sponge_laws P H" and e: "pe_xdr e = xdr" "pe_sponge e = P"
    and r: "rcv_insert e s a n c = Inr s'"
  shows "\<exists>i at s1. contract_id xdr a = Some i \<and> pe_auth e a \<and> is_canonical c \<and> ps_enrollment s (a, n) = None \<and>
    is_canonical (bound_leaf xdr H (a, n, c)) \<and> append_leaf P TREE_DEPTH s (bound_leaf xdr H (a, n, c)) = Inr (at, s1) \<and>
    s' = (s1\<lparr>ps_enrollment := (ps_enrollment s1)((a, n) \<mapsto> \<lparr>lp_tree_id = in_tree_id at, lp_index = in_index at\<rparr>)\<rparr>)
           \<lparr>ps_events := ps_events s1 @ [LeafInserted a (in_tree_id at) n (in_index at) (in_leaf at) (in_root at)]\<rparr>"
proof -
  obtain i l at s1 where r: "contract_id xdr a = Some i" "pe_auth e a" "is_canonical c" "ps_enrollment s (a, n) = None"
      "leaf_hash P i n c = Inr l" "append_leaf P TREE_DEPTH s l = Inr (at, s1)"
      "s' = (s1\<lparr>ps_enrollment := (ps_enrollment s1)((a, n) \<mapsto> \<lparr>lp_tree_id = in_tree_id at, lp_index = in_index at\<rparr>)\<rparr>)
           \<lparr>ps_events := ps_events s1 @ [LeafInserted a (in_tree_id at) n (in_index at) (in_leaf at) (in_root at)]\<rparr>"
    using r e by (auto simp: rcv_insert_def claim_enrollment_def record_enrollment_def Let_def result_simps split: if_splits)
  note cf = leaf_fields_canonical [OF length_contract_id [OF laws(1) r(1)] r(3), of n]
  have "l = bound_leaf xdr H (a, n, c)" "is_canonical l"
    using r(1,5) sponge_lawsD(1,2) [OF laws(2) cf] by (simp_all add: bound_leaf_def leaf_hash_def hash_fields_def)
  then show ?thesis using r by blast
qed

text \<open>The state of a reachable pool is a function of its history.\<close>

definition history_ok :: "to_xdr \<Rightarrow> (bytes list \<Rightarrow> bytes32) \<Rightarrow> pool_history \<Rightarrow> pool_storage \<Rightarrow> bool" where
  "history_ok xdr H h s \<longleftrightarrow>
     pool_ok H TREE_DEPTH (history_leaves xdr H h) s \<and> distinct (map (\<lambda>(a, n, c). (a, n)) h) \<and>
     (\<forall>(a, n, c) \<in> set h. is_canonical c \<and> contract_id xdr a \<noteq> None) \<and>
     (\<forall>a n. ps_enrollment s (a, n) = None \<longleftrightarrow> (a, n) \<notin> set (map (\<lambda>(a, n, c). (a, n)) h)) \<and>
     (\<forall>j < length h. case rev h ! j of (a, n, c) \<Rightarrow> ps_enrollment s (a, n) = Some (position_of j))"

lemma pool_ok_enrollment [simp]:
  "pool_ok H d ls (s\<lparr>ps_enrollment := x\<rparr>) = pool_ok H d ls s" "pool_ok H d ls (s\<lparr>ps_events := y\<rparr>) = pool_ok H d ls s"
  by (simp_all add: pool_ok_def current_tree_def)

lemma pool_reach_ok:
  assumes laws: "xdr_laws xdr" "sponge_laws P H"
  shows "pool_reach xdr P h s \<Longrightarrow> history_ok xdr H h s"
proof (induction rule: pool_reach.induct)
  case pool_init
  show ?case
    by (simp add: history_ok_def pool_ok_def initial_pool_def current_tree_def chunk_def history_leaves_def)
next
  case (pool_insert h s e a n c s')
  let ?ls = "history_leaves xdr H h" and ?x = "bound_leaf xdr H (a, n, c)"
  note IH = pool_insert.IH [unfolded history_ok_def]
  obtain i at s1 where r: "contract_id xdr a = Some i" "is_canonical c" "ps_enrollment s (a, n) = None"
      "is_canonical ?x" "append_leaf P TREE_DEPTH s ?x = Inr (at, s1)"
      "s' = (s1\<lparr>ps_enrollment := (ps_enrollment s1)((a, n) \<mapsto> \<lparr>lp_tree_id = in_tree_id at, lp_index = in_index at\<rparr>)\<rparr>)
           \<lparr>ps_events := ps_events s1 @ [LeafInserted a (in_tree_id at) n (in_index at) (in_leaf at) (in_root at)]\<rparr>"
    using rcv_insert_Inr [OF laws pool_insert.hyps(2-4)] by blast
  have d: "TREE_DEPTH \<le> 32" by (simp add: TREE_DEPTH_def)
  note ap = append_leaf_ok [OF laws(2) d conjunct1 [OF IH] r(4,5)]
  have len: "length ?ls = length h" by (simp add: history_leaves_def)
  have t: "unat (current_tree s) = length h div 2 ^ TREE_DEPTH" using IH len by (simp add: pool_ok_def)
  have ix: "length h mod 2 ^ TREE_DEPTH = unat (in_index at)" using ap(3) len by simp
  have pos: "\<lparr>lp_tree_id = in_tree_id at, lp_index = in_index at\<rparr> = position_of (length h)"
    unfolding position_of_def ix t [symmetric] using ap(2) by simp
  have fresh: "(a, n) \<notin> set (map (\<lambda>(a, n, c). (a, n)) h)" using IH r(3) by blast
  have en: "ps_enrollment s' = (ps_enrollment s)((a, n) \<mapsto> position_of (length h))" using r(6) ap(4) pos by simp
  have "case rev ((a, n, c) # h) ! j of (b, m, k) \<Rightarrow> ps_enrollment s' (b, m) = Some (position_of j)"
    if j: "j < length ((a, n, c) # h)" for j
  proof (cases "j = length h")
    case True
    then show ?thesis using en by (simp add: nth_append)
  next
    case False
    then have "j < length h" using j by simp
    then obtain b m k where bm: "rev h ! j = (b, m, k)" "ps_enrollment s (b, m) = Some (position_of j)" using IH by auto
    have "(b, m, k) \<in> set h" using bm(1) \<open>j < length h\<close> by (metis length_rev nth_mem set_rev)
    then have "(b, m) \<noteq> (a, n)" using fresh by force
    then show ?thesis using bm en \<open>j < length h\<close> by (auto simp: nth_append)
  qed
  moreover have "pool_ok H TREE_DEPTH (history_leaves xdr H ((a, n, c) # h)) s'"
    using ap(1) r(6) by (simp add: history_leaves_def)
  moreover have "ps_enrollment s' (b, m) = None \<longleftrightarrow> (b, m) \<notin> set (map (\<lambda>(a, n, c). (a, n)) ((a, n, c) # h))" for b m
    using IH en by auto
  ultimately show ?case using IH fresh r(1,2) unfolding history_ok_def by simp
qed

text \<open>The leaf of the insertion with a number, in its tree.\<close>

lemma position_leaf:
  assumes pk: "pool_ok H TREE_DEPTH ls s" and j: "j < length ls"
  shows "unat (lp_index (position_of j)) < length (chunk TREE_DEPTH ls (lp_tree_id (position_of j)))"
    and "chunk TREE_DEPTH ls (lp_tree_id (position_of j)) ! unat (lp_index (position_of j)) = ls ! j"
    and "ps_leaf s (lp_tree_id (position_of j), lp_index (position_of j)) = Some (ls ! j)"
proof -
  let ?t = "word_of_nat (j div 2 ^ TREE_DEPTH) :: u32" and ?i = "word_of_nat (j mod 2 ^ TREE_DEPTH) :: u64"
  have "length ls div 2 ^ TREE_DEPTH = unat (current_tree s)" using pk by (simp add: pool_ok_def)
  then have "length ls div 2 ^ TREE_DEPTH < 2 ^ 32" using unsigned_less [where 'a = nat, of "current_tree s"] by simp
  moreover have "j div 2 ^ TREE_DEPTH \<le> length ls div 2 ^ TREE_DEPTH" using j by (intro div_le_mono) simp
  ultimately have t: "unat ?t = j div 2 ^ TREE_DEPTH" by (simp add: unat_of_nat)
  have "j mod 2 ^ TREE_DEPTH < 2 ^ 32" by (simp add: TREE_DEPTH_def)
  then have i: "unat ?i = j mod 2 ^ TREE_DEPTH" by (simp add: unat_of_nat)
  have jd: "j = (j div 2 ^ TREE_DEPTH) * 2 ^ TREE_DEPTH + j mod 2 ^ TREE_DEPTH" by (simp only: div_mult_mod_eq)
  have "unat ?i < length (chunk TREE_DEPTH ls ?t)" "chunk TREE_DEPTH ls ?t ! unat ?i = ls ! j"
    using jd j by (simp_all add: chunk_def t i)
  then show "unat (lp_index (position_of j)) < length (chunk TREE_DEPTH ls (lp_tree_id (position_of j)))"
    "chunk TREE_DEPTH ls (lp_tree_id (position_of j)) ! unat (lp_index (position_of j)) = ls ! j"
    "ps_leaf s (lp_tree_id (position_of j), lp_index (position_of j)) = Some (ls ! j)"
    using pk by (simp_all add: pool_ok_def position_of_def)
qed

lemma rcv_insert_succeeds:
  assumes "xdr_laws xdr" "sponge_laws P H" "pool_reach xdr P h s" "pe_xdr e = xdr" "pe_sponge e = P"
    and "pe_auth e a" "unat (current_tree s) + 1 < 2 ^ 32"
    and i: "contract_id xdr a = Some i" and c: "is_canonical c" "enrollment s a n = None"
  shows "\<exists>s' pos r. rcv_insert e s a n c = Inr s' \<and> enrollment s' a n = Some pos \<and> is_known_root s' (lp_tree_id pos) r"
proof -
  have ok: "pool_ok H TREE_DEPTH (history_leaves xdr H h) s"
    using pool_reach_ok [OF assms(1-3)] by (simp add: history_ok_def)
  have d: "TREE_DEPTH \<le> 32" by (simp add: TREE_DEPTH_def)
  note cf = leaf_fields_canonical [OF length_contract_id [OF assms(1) i] c(1), of n]
  let ?l = "H (leaf_fields i n c)"
  have l: "leaf_hash P i n c = Inr ?l" "is_canonical ?l"
    using sponge_lawsD(1,2) [OF assms(2) cf] by (simp_all add: leaf_hash_def hash_fields_def)
  obtain at s1 where at: "append_leaf P TREE_DEPTH s ?l = Inr (at, s1)"
    using append_leaf_succeeds [OF assms(2) d ok l(2) assms(7)] by blast
  have "\<exists>r. is_known_root s1 (in_tree_id at) r"
    using at by (auto simp: append_leaf_def Let_def result_simps is_known_root_def split: if_splits)
  then obtain r where r: "is_known_root s1 (in_tree_id at) r" ..
  show ?thesis using assms(4-6) i c l(1) at r
    by (auto simp: rcv_insert_def claim_enrollment_def record_enrollment_def enrollment_def is_known_root_def Let_def)
qed

text \<open>The pages of leaves a reachable pool returns, clamped to the tree's size.\<close>

lemma tree_size:
  assumes "pool_ok H d ls s"
  shows "unat (case ps_tree s t of None \<Rightarrow> 0 | Some st \<Rightarrow> ts_size st) = length (chunk d ls t)"
proof -
  have "if chunk d ls t = [] then ps_tree s t = None else \<exists>st. ps_tree s t = Some st \<and> tree_ok H d (chunk d ls t) st"
    using assms unfolding pool_ok_def by blast
  then show ?thesis by (auto simp: tree_ok_def split: if_splits)
qed

lemma leaves_page:
  assumes ok: "pool_ok H d ls s" and t: "t \<le> current_tree s" and c: "count \<le> MAX_PAGE"
  shows "leaves s t start count = Inr (take (unat count) (drop (unat start) (chunk d ls t)))"
proof -
  let ?L = "chunk d ls t" and ?size = "case ps_tree s t of None \<Rightarrow> 0 | Some st \<Rightarrow> ts_size st"
  define stop where "stop = min (saturating_add start (ucast count)) ?size"
  define from_ix where "from_ix = min start stop"
  have size: "unat ?size = length ?L" by (rule tree_size [OF ok])
  have cnt: "unat count \<le> 64" "unat (ucast count :: u64) = unat count"
    using c unsigned_less [where 'a = nat, of count]
    by (simp_all add: MAX_PAGE_def word_le_nat_alt unsigned_ucast_eq take_bit_nat_eq_self)
  have um: "unat (min a b) = min (unat a) (unat b)" for a b :: u64 by (simp add: min_def word_le_nat_alt)
  have sz: "length ?L < 2 ^ 64" using size unsigned_less [where 'a = nat, of ?size] by simp
  have stop: "unat stop = min (unat start + unat count) (length ?L)"
  proof (cases "unat start + unat count < 2 ^ 64")
    case True
    then show ?thesis using unat_saturating_add [of start "ucast count"] size cnt(2) by (simp add: stop_def um)
  next
    case False
    then have "saturating_add start (ucast count) = - 1" using cnt(2) by (simp add: saturating_add_def checked_add_def)
    then have "stop = ?size" by (simp add: stop_def min_absorb2)
    then show ?thesis using False sz size by simp
  qed
  have "from_ix \<le> stop" by (simp add: from_ix_def)
  then have "unat (stop - from_ix) = unat stop - unat from_ix" by (simp add: word_le_nat_alt unat_sub)
  moreover have fr: "unat from_ix = min (unat start) (unat stop)" by (simp add: from_ix_def um)
  ultimately have d: "unat (stop - from_ix) = min (unat count) (length ?L - unat start)" using stop by (auto simp: min_def)
  have n: "unat (ucast (stop - from_ix) :: u32) = min (unat count) (length ?L - unat start)"
    using d cnt(1) by (simp add: unsigned_ucast_eq take_bit_nat_eq_self)
  have pg: "page s t start count = Inr (from_ix, ucast (stop - from_ix))"
    using t c by (simp add: page_def require_opened_def Let_def stop_def from_ix_def not_less)
  have leaf: "and_then (ok_or (checked_add from_ix (word_of_nat i)) Trap) (\<lambda>j. ok_or (ps_leaf s (t, j)) Trap) =
      (Inr (?L ! (unat start + i)) :: bytes32 pool_result)" if i: "i < min (unat count) (length ?L - unat start)" for i
  proof -
    have il: "i + unat start < length ?L" using i by (simp add: less_diff_conv)
    then have "unat start \<le> unat stop" using stop by simp
    then have f: "from_ix = start" by (simp add: from_ix_def min_def word_le_nat_alt)
    have iw: "unat (word_of_nat i :: u64) = i" using i cnt(1) by (simp add: unat_of_nat)
    then have "unat start + unat (word_of_nat i :: u64) < 2 ^ LENGTH(64)" using il sz by simp
    then have c: "checked_add start (word_of_nat i) = Some (start + word_of_nat i)"
      by (simp only: checked_add_def if_True)
    have "ps_leaf s (t, start + word_of_nat i) = Some (?L ! (unat start + i))"
      using ok il checked_add_SomeD [OF c] iw unfolding pool_ok_def by simp
    then show ?thesis using f c by simp
  qed
  have "collect_results (\<lambda>i. and_then (ok_or (checked_add from_ix (word_of_nat i)) Trap) (\<lambda>j. ok_or (ps_leaf s (t, j)) Trap))
      [0..<unat (ucast (stop - from_ix) :: u32)] =
      (Inr (take (unat count) (drop (unat start) ?L)) :: bytes32 list pool_result)"
    using leaf n by (auto simp: collect_results_Inr_iff list_all2_conv_all_nth)
  then show ?thesis using pg by (simp add: leaves_def)
qed

section \<open>A concrete sponge\<close>

text \<open>A function that obeys the laws, and a pool with one enrollment.\<close>

definition demo_hash :: "bytes list \<Rightarrow> bytes32" where
  "demo_hash xs =
     (case find (\<lambda>l. xs = [bytes32_to_array (ZERO_HASHES ! l), bytes32_to_array (ZERO_HASHES ! l)]) [0..<32] of
        Some l \<Rightarrow> ZERO_HASHES ! Suc l | None \<Rightarrow> 7)"

definition demo_sponge :: sponge where
  "demo_sponge xs = Some (demo_hash xs)"

lemma is_canonical_iff: "is_canonical w \<longleftrightarrow> unat w < bn254_scalar_order"
  by (simp add: is_canonical_def is_canonical_field_iff)

lemma zero_hashes_canonical: "list_all is_canonical ZERO_HASHES"
  by (simp add: ZERO_HASHES_def is_canonical_iff bn254_scalar_order_def)

lemma zero_hashes_distinct: "distinct ZERO_HASHES"
proof -
  have "distinct (map unat ZERO_HASHES)" by (simp add: ZERO_HASHES_def)
  then show ?thesis unfolding distinct_map by blast
qed

lemma find_unique:
  assumes "l < n" "Q l" "\<And>k. k < n \<Longrightarrow> Q k \<Longrightarrow> k = l"
  shows "find Q [0..<n] = Some l"
proof -
  have none: "\<not> Q j" if "j < l" for j using assms(1) assms(3) [of j] that by auto
  show ?thesis unfolding find_Some_iff by (rule exI [of _ l]) (use none assms(1,2) in simp)
qed

lemma demo_sponge_laws: "sponge_laws demo_sponge demo_hash"
proof -
  have "is_canonical (demo_hash xs)" for xs
    using zero_hashes_canonical
    by (auto simp: demo_hash_def is_canonical_iff bn254_scalar_order_def list_all_length find_Some_iff split: option.split)
  moreover have "demo_hash [bytes32_to_array (ZERO_HASHES ! l), bytes32_to_array (ZERO_HASHES ! l)] = ZERO_HASHES ! Suc l"
    if l: "l < 32" for l
  proof -
    have "k = l" if "k < 32" "bytes32_to_array (ZERO_HASHES ! l) = bytes32_to_array (ZERO_HASHES ! k)" for k
      using that l nth_eq_iff_index_eq [OF zero_hashes_distinct, of k l] by simp
    then have "find (\<lambda>k. [bytes32_to_array (ZERO_HASHES ! l), bytes32_to_array (ZERO_HASHES ! l)] =
        [bytes32_to_array (ZERO_HASHES ! k), bytes32_to_array (ZERO_HASHES ! k)]) [0..<32] = Some l"
      using l by (intro find_unique) auto
    then show ?thesis unfolding demo_hash_def by simp
  qed
  ultimately show ?thesis by (simp add: sponge_laws_def demo_sponge_def MAX_TREE_DEPTH_def)
qed

definition demo_pool_env :: pool_env where
  "demo_pool_env = \<lparr>pe_auth = (\<lambda>_. True), pe_xdr = demo_xdr, pe_sponge = demo_sponge\<rparr>"

lemma demo_pool_of:
  assumes "is_canonical c"
  shows "\<exists>s. pool_reach demo_xdr demo_sponge [(ContractId 1, 5, c)] s"
proof -
  have "\<exists>s' pos r. rcv_insert demo_pool_env initial_pool (ContractId 1) 5 c = Inr s' \<and>
      enrollment s' (ContractId 1) 5 = Some pos \<and> is_known_root s' (lp_tree_id pos) r"
    by (rule rcv_insert_succeeds [OF demo_xdr_laws demo_sponge_laws pool_reach.pool_init, of _ _ "bytes32_to_array 1"])
       (simp_all add: demo_pool_env_def initial_pool_def current_tree_def enrollment_def contract_id_eq [OF demo_xdr_laws] assms)
  then obtain s' where "rcv_insert demo_pool_env initial_pool (ContractId 1) 5 c = Inr s'" by blast
  then show ?thesis
    by (intro exI [of _ s'] pool_reach.pool_insert [OF pool_reach.pool_init, of demo_pool_env]) (simp_all add: demo_pool_env_def)
qed

lemma demo_pool: "\<exists>s. pool_reach demo_xdr demo_sponge [(ContractId 1, 5, 0)] s"
  by (rule demo_pool_of) simp

section \<open>Properties of the pool\<close>

text \<open>
  C22. The incremental trees compute Merkle roots: after any history of insertions, tree \<open>t\<close> holds
  the \<open>t\<close>-th run of \<open>2 ^ 32\<close> leaves in order of insertion, its root is the Merkle root of those
  leaves padded with empty leaves, and the roots the pool accepts for it are exactly the Merkle
  roots of the nonempty prefixes of its leaves, every historical one included.
\<close>

theorem pool_roots_are_merkle_roots:
  assumes "xdr_laws xdr" "sponge_laws P H" "pool_reach xdr P h s"
  defines "L \<equiv> \<lambda>t. take (2 ^ 32) (drop (unat t * 2 ^ 32) (map (bound_leaf xdr H) (rev h)))"
  shows "(\<forall>t r. is_known_root s t r \<longleftrightarrow> (\<exists>k > 0. k \<le> length (L t) \<and> r = merkle_root H 32 (take k (L t)))) \<and>
    (\<forall>t. L t \<noteq> [] \<longrightarrow> (\<exists>st. ps_tree s t = Some st \<and> ts_root st = merkle_root H 32 (L t) \<and>
       unat (ts_size st) = length (L t))) \<and>
    unat (current_tree s) = length h div 2 ^ 32"
proof -
  have L: "L t = chunk TREE_DEPTH (history_leaves xdr H h) t" for t
    by (simp add: L_def chunk_def TREE_DEPTH_def history_leaves_def)
  have ok: "pool_ok H TREE_DEPTH (history_leaves xdr H h) s"
    using pool_reach_ok [OF assms(1-3)] by (simp add: history_ok_def)
  have "\<exists>st. ps_tree s t = Some st \<and> ts_root st = merkle_root H 32 (L t) \<and> unat (ts_size st) = length (L t)"
    if "L t \<noteq> []" for t
  proof -
    have "if L t = [] then ps_tree s t = None else \<exists>st. ps_tree s t = Some st \<and> tree_ok H TREE_DEPTH (L t) st"
      using ok unfolding pool_ok_def L by blast
    then show ?thesis using that by (auto simp: tree_ok_def TREE_DEPTH_def)
  qed
  moreover have "is_known_root s t r \<longleftrightarrow> (\<exists>k > 0. k \<le> length (L t) \<and> r = merkle_root H 32 (take k (L t)))" for t r
    using ok by (simp add: pool_ok_def L is_known_root_def TREE_DEPTH_def)
  moreover have "unat (current_tree s) = length h div 2 ^ 32"
    using ok by (simp add: pool_ok_def TREE_DEPTH_def history_leaves_def)
  ultimately show ?thesis by blast
qed

text \<open>Witness of C22: the root of the demo pool's one leaf is known.\<close>

theorem pool_roots_are_merkle_roots_witness:
  "\<exists>s. pool_reach demo_xdr demo_sponge [(ContractId 1, 5, 0)] s \<and>
     is_known_root s 0 (merkle_root demo_hash 32 [bound_leaf demo_xdr demo_hash (ContractId 1, 5, 0)])"
proof -
  obtain s where s: "pool_reach demo_xdr demo_sponge [(ContractId 1, 5, 0)] s" using demo_pool by blast
  show ?thesis
    using pool_roots_are_merkle_roots [OF demo_xdr_laws demo_sponge_laws s] s by (intro exI [of _ s]) (auto intro!: exI [of _ "1 :: nat"])
qed

text \<open>
  An account enrolls an id at most once, only itself, and a leaf's position is final: the
  enrollments on record are those of the history, without repetition, each with the place of its
  insertion, where the tree holds the leaf that binds the account, the id and the commitment.
\<close>

theorem enrollments_are_unique_and_bound:
  assumes "xdr_laws xdr" "sponge_laws P H" "pool_reach xdr P h s"
  shows "distinct (map (\<lambda>(a, n, c). (a, n)) h) \<and>
    (\<forall>a n pos. enrollment s a n = Some pos \<longleftrightarrow>
       (\<exists>j c. j < length h \<and> rev h ! j = (a, n, c) \<and> pos = position_of j)) \<and>
    (\<forall>j a n c. j < length h \<and> rev h ! j = (a, n, c) \<longrightarrow>
       is_canonical c \<and> contract_id xdr a \<noteq> None \<and>
       ps_leaf s (lp_tree_id (position_of j), lp_index (position_of j)) = Some (bound_leaf xdr H (a, n, c)))"
proof -
  note ok = pool_reach_ok [OF assms, unfolded history_ok_def]
  have pk: "pool_ok H TREE_DEPTH (history_leaves xdr H h) s" using ok by blast
  have en: "enrollment s a n = Some (position_of j)" if "j < length h" "rev h ! j = (a, n, c)" for j a n c
    using ok that by (fastforce simp: enrollment_def)
  have "\<exists>j c. j < length h \<and> rev h ! j = (a, n, c) \<and> pos = position_of j" if "enrollment s a n = Some pos" for a n pos
  proof -
    have "(a, n) \<in> set (map (\<lambda>(a, n, c). (a, n)) h)" using ok that by (metis enrollment_def option.distinct(1))
    then obtain c where "(a, n, c) \<in> set (rev h)" by auto
    then obtain j where "j < length h" "rev h ! j = (a, n, c)" by (metis in_set_conv_nth length_rev)
    then show ?thesis using en that by fastforce
  qed
  moreover have "is_canonical c \<and> contract_id xdr a \<noteq> None \<and>
       ps_leaf s (lp_tree_id (position_of j), lp_index (position_of j)) = Some (bound_leaf xdr H (a, n, c))"
    if j: "j < length h" "rev h ! j = (a, n, c)" for j a n c
  proof -
    have "(a, n, c) \<in> set h" using j by (metis length_rev nth_mem set_rev)
    then have c: "is_canonical c" "contract_id xdr a \<noteq> None" using ok by auto
    have "history_leaves xdr H h ! j = bound_leaf xdr H (a, n, c)" using j by (simp add: history_leaves_def)
    then show ?thesis using c position_leaf [OF pk, of j] j(1) by (simp add: history_leaves_def)
  qed
  ultimately show ?thesis using ok en by blast
qed

text \<open>An instance: the demo enrollment is at the first place of tree 0.\<close>

theorem enrollments_are_unique_and_bound_witness:
  "\<exists>s. pool_reach demo_xdr demo_sponge [(ContractId 1, 5, 0)] s \<and> enrollment s (ContractId 1) 5 = Some (position_of 0) \<and>
     ps_leaf s (0, 0) = Some (bound_leaf demo_xdr demo_hash (ContractId 1, 5, 0))"
proof -
  obtain s where s: "pool_reach demo_xdr demo_sponge [(ContractId 1, 5, 0)] s" using demo_pool by blast
  have "position_of 0 = \<lparr>lp_tree_id = 0, lp_index = 0\<rparr>" by (simp add: position_of_def)
  then show ?thesis
    using enrollments_are_unique_and_bound [OF demo_xdr_laws demo_sponge_laws s] s by (intro exI [of _ s]) force
qed

text \<open>
  Enrollment is never blocked: for a contract account that authorizes the call, a canonical
  commitment and an id it did not use, the insertion succeeds in every reachable state until the
  tree counter is exhausted, and afterwards the root it produced is known. The refusals are
  exactly the documented ones.
\<close>

theorem enrollment_never_blocked:
  assumes "xdr_laws xdr" "sponge_laws P H" "pool_reach xdr P h s" "pe_xdr e = xdr" "pe_sponge e = P"
    and "pe_auth e a" "unat (current_tree s) + 1 < 2 ^ 32"
  shows "case contract_id xdr a of
      None \<Rightarrow> rcv_insert e s a n c = Inl (Failed AccountNotContract)
    | Some i \<Rightarrow>
        if \<not> is_canonical c then rcv_insert e s a n c = Inl (Failed NonCanonicalCommitment)
        else if enrollment s a n \<noteq> None then rcv_insert e s a n c = Inl (Failed EnrollmentIdTaken)
        else \<exists>s' pos r. rcv_insert e s a n c = Inr s' \<and> enrollment s' a n = Some pos \<and>
               is_known_root s' (lp_tree_id pos) r"
  using rcv_insert_succeeds [OF assms, of _ c n] assms(4-6)
  by (auto simp: rcv_insert_def claim_enrollment_def enrollment_def split: option.split)

text \<open>An instance: the first insertion of the demo pool.\<close>

theorem enrollment_never_blocked_witness:
  "(\<exists>s'. rcv_insert demo_pool_env initial_pool (ContractId 1) 5 0 = Inr s') \<and>
   rcv_insert demo_pool_env initial_pool (ContractId 1) 5 21888242871839275222246405745257275088548364400416034343698204186575808495617 = Inl (Failed NonCanonicalCommitment)"
  using enrollment_never_blocked [OF demo_xdr_laws demo_sponge_laws pool_reach.pool_init, of demo_pool_env "ContractId 1" 5 0]
    enrollment_never_blocked [OF demo_xdr_laws demo_sponge_laws pool_reach.pool_init, of demo_pool_env "ContractId 1" 5 21888242871839275222246405745257275088548364400416034343698204186575808495617]
  by (auto simp: demo_pool_env_def initial_pool_def current_tree_def enrollment_def contract_id_eq [OF demo_xdr_laws]
      is_canonical_iff bn254_scalar_order_def)

end
