(* ===== verification/Zk_Adapter.thy ===== *)
theory Zk_Adapter
  imports Zk_Merkle
begin

text \<open>
  The ZK adapter (\<open>crates/perch-zk-adapter\<close>): the checks around the proof verifier, in order. The
  verification key, the verifier of \<open>vendor/ultrahonk-soroban-verifier\<close> and the pool it calls are
  parameters. A locale states what a client relies on of a membership pool, that roots are never
  forgotten; the pool of \<open>Zk_Pool\<close> provides it.
\<close>

section \<open>The contract\<close>

definition PROOF_BYTES :: nat where "PROOF_BYTES = 507 * 32"
definition CIRCUIT_DEPTH :: nat where "CIRCUIT_DEPTH = 32"

datatype proof_verifier_error = VkParseError | ProofParseError | VerificationFailed

text \<open>
  \<open>ae_verifier\<close> is \<open>UltraHonkZkVerifier::new\<close> followed by \<open>verify\<close> on a proof and public inputs;
  \<open>ae_known_root\<close> the call of a pool, \<open>None\<close> when it fails.
\<close>

record adapter_env =
  ae_sha256 :: "bytes \<Rightarrow> bytes32"
  ae_xdr :: to_xdr
  ae_sponge :: sponge
  ae_vk :: bytes
  ae_verifier :: "bytes \<Rightarrow> (bytes \<Rightarrow> bytes \<Rightarrow> bool) option"
  ae_known_root :: "address \<Rightarrow> u32 \<Rightarrow> bytes32 \<Rightarrow> bool option"

definition circuit_id :: "adapter_env \<Rightarrow> bytes32" where
  "circuit_id e = ae_sha256 e (ae_vk e)"

definition adapter_verify :: "adapter_env \<Rightarrow> recovery_statement \<Rightarrow> zk_binding \<Rightarrow> zk_evidence
    \<Rightarrow> zk_adapter_error failure + unit" where
  "adapter_verify e st b ev =
     (if zb_circuit_id b \<noteq> circuit_id e then Inl (Failed ZE_CircuitMismatch)
      else and_then (map_err (\<lambda>_. Failed ZE_InvalidStatement)
                       (statement_fields (ae_sha256 e) (ae_xdr e) st (zb_enrollment_id b))) (\<lambda>fields.
           if \<not> is_canonical_field (bytes32_to_array (ev_root ev)) \<or>
              \<not> is_canonical_field (bytes32_to_array (ev_nullifier ev)) then Inl (Failed ZE_NonCanonicalField)
           else if length (ev_proof ev) \<noteq> PROOF_BYTES then Inl (Failed ZE_MalformedProof)
           else and_then (case ae_known_root e (zb_pool b) (ev_tree_id ev) (ev_root ev) of
                            Some True \<Rightarrow> Inr ()
                          | Some False \<Rightarrow> Inl (Failed ZE_UnknownRoot)
                          | None \<Rightarrow> Inl (Failed ZE_PoolUnavailable)) (\<lambda>_.
           and_then (statement_hash (ae_sponge e) fields) (\<lambda>hash.
           let inputs = public_inputs (ev_root ev) (ev_nullifier ev) hash
           in and_then (ok_or (ae_verifier e (ae_vk e)) (Failed ZE_VerifierUnavailable)) (\<lambda>verify.
              if verify (ev_proof ev) inputs then Inr () else Inl (Failed ZE_ProofRejected))))))"

definition verify_proof :: "adapter_env \<Rightarrow> bytes \<Rightarrow> bytes \<Rightarrow> proof_verifier_error + unit" where
  "verify_proof e inputs proof_bytes =
     (if length proof_bytes \<noteq> PROOF_BYTES then Inl ProofParseError
      else and_then (ok_or (ae_verifier e (ae_vk e)) VkParseError) (\<lambda>verify.
           if verify proof_bytes inputs then Inr () else Inl VerificationFailed))"

section \<open>What a client relies on of a pool\<close>

locale membership_pool =
  fixes inserted :: "'s \<Rightarrow> 's \<Rightarrow> bool"
    and known :: "'s \<Rightarrow> u32 \<Rightarrow> bytes32 \<Rightarrow> bool"
  assumes append_only: "inserted s s' \<Longrightarrow> known s t r \<Longrightarrow> known s' t r"
begin

lemma known_forever: "inserted\<^sup>*\<^sup>* s s' \<Longrightarrow> known s t r \<Longrightarrow> known s' t r"
  by (induction rule: rtranclp_induct) (auto intro: append_only)

end

definition pool_step :: "pool_storage \<Rightarrow> pool_storage \<Rightarrow> bool" where
  "pool_step s s' \<longleftrightarrow> (\<exists>e a n c. rcv_insert e s a n c = Inr s')"

interpretation zk_pool: membership_pool pool_step is_known_root
proof unfold_locales
  fix s s' t r
  assume "pool_step s s'" and r: "is_known_root s t r"
  then obtain e a n c where "rcv_insert e s a n c = Inr s'" by (auto simp: pool_step_def)
  then obtain P l at s1 where a: "append_leaf P TREE_DEPTH s l = Inr (at, s1)" and s': "ps_root s' = ps_root s1"
    by (auto simp: rcv_insert_def record_enrollment_def Let_def result_simps split: if_splits)
  obtain k v where "ps_root s1 = (ps_root s)(k \<mapsto> v)"
    using a by (auto simp: append_leaf_def Let_def result_simps split: if_splits)
  then show "is_known_root s' t r" using r s' by (simp add: is_known_root_def)
qed

section \<open>Accepted evidence\<close>

lemma statement_fields_canonical:
  assumes "xdr_laws xdr" "statement_fields sha xdr st n = Inr f"
  shows "list_all is_canonical_field (auth_preimage f)"
proof -
  obtain c d where c: "contract_id xdr (st_account st) = Some c" "statement_digest sha xdr st = Inr d"
    using assms(2) by (auto simp: statement_fields_def result_simps)
  obtain ah al eh el dh dl where sp: "split_hi_lo c = (ah, al)" "split_hi_lo (bytes32_to_array n) = (eh, el)"
      "split_hi_lo (bytes32_to_array d) = (dh, dl)"
    by (metis surj_pair)
  have "is_canonical_field DOM_AUTH" by (simp add: is_canonical_field_def DOM_AUTH_def BN254_SCALAR_MODULUS_def)
  then show ?thesis
    using assms(2) c sp split_hi_lo_canonical [OF length_contract_id [OF assms(1) c(1)] sp(1)]
      split_hi_lo_canonical [OF _ sp(2)] split_hi_lo_canonical [OF _ sp(3)]
    by (auto simp: statement_fields_def auth_preimage_def)
qed

lemma statement_hash_eq:
  assumes "xdr_laws xdr" "sponge_laws P H" "statement_fields sha xdr st n = Inr f"
  shows "statement_hash P f = Inr (H (auth_preimage f))"
  using sponge_lawsD(1) [OF assms(2) statement_fields_canonical [OF assms(1,3)]]
  by (simp add: statement_hash_def hash_fields_def)

text \<open>The roots of a reachable pool, for the adapter.\<close>

lemma known_root_iff:
  assumes "xdr_laws xdr" "sponge_laws P H" "pool_reach xdr P h s"
  shows "is_known_root s t r \<longleftrightarrow>
    (\<exists>k > 0. k \<le> length (chunk 32 (history_leaves xdr H h) t) \<and> r = merkle_root H 32 (take k (chunk 32 (history_leaves xdr H h) t)))"
  using pool_reach_ok [OF assms] by (simp add: history_ok_def pool_ok_def is_known_root_def TREE_DEPTH_def)

lemma adapter_ok_iff:
  fixes ev :: zk_evidence
  assumes "xdr_laws xdr" "sponge_laws P H" "pool_reach xdr P h s"
    and "ae_xdr e = xdr" "ae_sponge e = P" "\<forall>t r. ae_known_root e (zb_pool b) t r = Some (is_known_root s t r)"
  defines "L \<equiv> chunk 32 (history_leaves xdr H h) (ev_tree_id ev)"
  shows "adapter_verify e st b ev = Inr () \<longleftrightarrow>
    zb_circuit_id b = circuit_id e \<and> is_canonical (ev_root ev) \<and> is_canonical (ev_nullifier ev) \<and>
    length (ev_proof ev) = 16224 \<and> (\<exists>k > 0. k \<le> length L \<and> ev_root ev = merkle_root H 32 (take k L)) \<and>
    (\<exists>f v. statement_fields (ae_sha256 e) xdr st (zb_enrollment_id b) = Inr f \<and> ae_verifier e (ae_vk e) = Some v \<and>
       v (ev_proof ev) (public_inputs (ev_root ev) (ev_nullifier ev) (H (auth_preimage f))))"
proof -
  have known: "is_known_root s (ev_tree_id ev) (ev_root ev) \<longleftrightarrow> (\<exists>k > 0. k \<le> length L \<and> ev_root ev = merkle_root H 32 (take k L))"
    unfolding L_def by (rule known_root_iff [OF assms(1-3)])
  show ?thesis
    unfolding known [symmetric]
    using assms(4-6)
    by (cases "statement_fields (ae_sha256 e) xdr st (zb_enrollment_id b)")
       (auto simp: adapter_verify_def result_simps Let_def is_canonical_def PROOF_BYTES_def
          statement_hash_eq [OF assms(1,2)] split: if_splits bool.splits option.splits)
qed

text \<open>
  C33. Against a pool in a reachable state, the adapter accepts evidence exactly when the binding
  names its circuit, the statement projects onto the circuit's fields, root and nullifier are
  canonical, the proof has its length, the root is the Merkle root of a nonempty prefix of the
  leaves of that tree, and the verifier accepts the proof for the public inputs made of the root,
  the nullifier and the hash of the account, the enrollment and the digest of the statement.
\<close>

theorem adapter_accepts_iff:
  fixes ev :: zk_evidence
  assumes "xdr_laws xdr" "sponge_laws P H" "pool_reach xdr P h s"
    and "ae_xdr e = xdr" "ae_sponge e = P" "\<forall>t r. ae_known_root e (zb_pool b) t r = Some (is_known_root s t r)"
  defines "L \<equiv> chunk 32 (history_leaves xdr H h) (ev_tree_id ev)"
  shows "adapter_verify e st b ev = Inr () \<longleftrightarrow>
    zb_circuit_id b = circuit_id e \<and> is_canonical (ev_root ev) \<and> is_canonical (ev_nullifier ev) \<and>
    length (ev_proof ev) = 16224 \<and> (\<exists>k > 0. k \<le> length L \<and> ev_root ev = merkle_root H 32 (take k L)) \<and>
    (\<exists>f v. statement_fields (ae_sha256 e) xdr st (zb_enrollment_id b) = Inr f \<and> ae_verifier e (ae_vk e) = Some v \<and>
       v (ev_proof ev) (public_inputs (ev_root ev) (ev_nullifier ev) (H (auth_preimage f))))"
  using adapter_ok_iff [OF assms(1-6)] unfolding L_def .

text \<open>The demo statement, pool and sponge, with a verifier that accepts everything.\<close>

definition demo_adapter_env :: "pool_storage \<Rightarrow> adapter_env" where
  "demo_adapter_env s =
     \<lparr>ae_sha256 = (\<lambda>_. 8), ae_xdr = demo_xdr, ae_sponge = demo_sponge, ae_vk = [], ae_verifier = (\<lambda>_. Some (\<lambda>_ _. True)),
      ae_known_root = (\<lambda>_ t r. Some (is_known_root s t r))\<rparr>"

definition demo_binding :: zk_binding where
  "demo_binding = \<lparr>zb_pool = ContractId 32, zb_enrollment_id = 5, zb_circuit_id = 8\<rparr>"

definition demo_root :: bytes32 where
  "demo_root = merkle_root demo_hash 32 [bound_leaf demo_xdr demo_hash (ContractId 1, 5, 0)]"

definition demo_membership :: zk_evidence where
  "demo_membership = \<lparr>ev_tree_id = 0, ev_root = demo_root, ev_nullifier = 3, ev_proof = replicate 16224 0\<rparr>"

lemma demo_fields: "\<exists>f. statement_fields (\<lambda>_. 8) demo_xdr demo_statement 5 = Inr f"
  by (simp add: statement_fields_def statement_digest_def statement_encode_def demo_statement_def
      contract_id_eq [OF demo_xdr_laws] split: prod.splits)

lemma demo_root_canonical: "is_canonical demo_root"
proof -
  have "is_canonical (bound_leaf demo_xdr demo_hash (ContractId 1, 5, 0))"
    using sponge_lawsD(2) [OF demo_sponge_laws leaf_fields_canonical [of "bytes32_to_array 1" 0 5]]
    by (simp add: bound_leaf_def contract_id_eq [OF demo_xdr_laws])
  then show ?thesis unfolding demo_root_def by (intro merkle_root_canonical [OF demo_sponge_laws]) simp
qed

lemma demo_root_known:
  assumes "pool_reach demo_xdr demo_sponge [(ContractId 1, 5, 0)] s"
  shows "is_known_root s 0 demo_root"
  unfolding known_root_iff [OF demo_xdr_laws demo_sponge_laws assms]
  by (rule exI [of _ 1]) (simp add: demo_root_def history_leaves_def chunk_def)

text \<open>Witness of C33: the adapter accepts the demo evidence against the demo pool.\<close>

theorem adapter_accepts_iff_witness:
  "\<exists>s. pool_reach demo_xdr demo_sponge [(ContractId 1, 5, 0)] s \<and>
     adapter_verify (demo_adapter_env s) demo_statement demo_binding demo_membership = Inr ()"
proof -
  obtain s where s: "pool_reach demo_xdr demo_sponge [(ContractId 1, 5, 0)] s" using demo_pool by blast
  obtain f where f: "statement_fields (\<lambda>_. 8) demo_xdr demo_statement 5 = Inr f" using demo_fields by blast
  have "is_canonical 3" by (simp add: is_canonical_iff bn254_scalar_order_def)
  then have "adapter_verify (demo_adapter_env s) demo_statement demo_binding demo_membership = Inr ()"
    using adapter_accepts_iff [OF demo_xdr_laws demo_sponge_laws s, of "demo_adapter_env s" demo_binding demo_statement demo_membership]
      demo_root_known [OF s, unfolded known_root_iff [OF demo_xdr_laws demo_sponge_laws s]] demo_root_canonical f
    by (simp add: demo_adapter_env_def demo_binding_def demo_membership_def circuit_id_def)
  then show ?thesis using s by blast
qed

text \<open>
  Evidence the adapter accepts stays acceptable whatever is inserted into the pool meanwhile:
  nobody can push out the root a proof was made against.
\<close>

theorem accepted_evidence_survives:
  assumes "adapter_verify e st b ev = Inr ()" "\<forall>t r. ae_known_root e (zb_pool b) t r = Some (is_known_root s t r)"
    and "pool_step\<^sup>*\<^sup>* s s'"
  shows "adapter_verify (e\<lparr>ae_known_root := (ae_known_root e)(zb_pool b := (\<lambda>t r. Some (is_known_root s' t r)))\<rparr>) st b ev = Inr ()"
proof -
  have "is_known_root s (ev_tree_id ev) (ev_root ev)"
    using assms(1,2) by (auto simp: adapter_verify_def result_simps split: if_splits bool.splits option.splits)
  then have "is_known_root s' (ev_tree_id ev) (ev_root ev)" by (rule zk_pool.known_forever [OF assms(3)])
  then show ?thesis
    using assms(1,2) by (auto simp: adapter_verify_def circuit_id_def result_simps Let_def split: if_splits bool.splits option.splits)
qed


text \<open>An instance: the demo evidence, with no insertion in between.\<close>

theorem accepted_evidence_survives_witness:
  "\<exists>s s'. pool_step\<^sup>*\<^sup>* s s' \<and> adapter_verify ((demo_adapter_env s)\<lparr>ae_known_root :=
     (ae_known_root (demo_adapter_env s))(ContractId 32 := (\<lambda>t r. Some (is_known_root s' t r)))\<rparr>)
     demo_statement demo_binding demo_membership = Inr ()"
proof -
  obtain s where s: "pool_reach demo_xdr demo_sponge [(ContractId 1, 5, 0)] s" using demo_pool by blast
  obtain f where f: "statement_fields (\<lambda>_. 8) demo_xdr demo_statement 5 = Inr f" using demo_fields by blast
  have "is_canonical_field (bytes32_to_array 3)" "is_canonical_field (bytes32_to_array demo_root)"
    using demo_root_canonical by (simp_all add: is_canonical_def [symmetric] is_canonical_iff bn254_scalar_order_def)
  then have ok: "adapter_verify (demo_adapter_env s) demo_statement demo_binding demo_membership = Inr ()"
    using f demo_root_known [OF s]
    by (simp add: adapter_verify_def demo_adapter_env_def demo_binding_def demo_membership_def circuit_id_def PROOF_BYTES_def
        statement_hash_def hash_fields_def demo_sponge_def Let_def)
  have pool: "zb_pool demo_binding = ContractId 32" "\<forall>t r. ae_known_root (demo_adapter_env s) (zb_pool demo_binding) t r = Some (is_known_root s t r)"
    by (simp_all add: demo_binding_def demo_adapter_env_def)
  show ?thesis
    using accepted_evidence_survives [OF ok pool(2) rtranclp.rtrancl_refl] pool(1) by (intro exI [of _ s]) simp
qed

end
