(* ===== verification/Zk_Prover.thy ===== *)
theory Zk_Prover
  imports Zk_Adapter
begin

text \<open>
  The native prover helpers (\<open>crates/perch-zk-prover\<close>): the witness trees of \<open>tree.rs\<close>, which follow
  a pool leaf by leaf with a frontier and the roots of completed subtrees, and the circuit inputs of
  \<open>lib.rs\<close>. The store of subtree roots is a trait in the source; its operations are the record
  \<open>node_ops\<close>, its contract the locale \<open>node_store\<close>. A failed assertion, a panic of a store lookup and
  a trap of the host's hash are \<open>Trap\<close>.
\<close>

unbundle bit_operations_syntax

section \<open>Trees (tree.rs)\<close>

definition CHUNK_LEVEL :: nat where "CHUNK_LEVEL = 16"

record 's node_ops =
  nd_get :: "'s \<Rightarrow> nat \<Rightarrow> u64 \<Rightarrow> bytes32 option"
  nd_set :: "'s \<Rightarrow> nat \<Rightarrow> u64 \<Rightarrow> bytes32 \<Rightarrow> 's"

type_synonym memory_nodes = "nat \<times> u64 \<rightharpoonup> bytes32"

definition memory_node_store :: "memory_nodes node_ops" where
  "memory_node_store = \<lparr>nd_get = (\<lambda>s level index. s (level, index)), nd_set = (\<lambda>s level index v. s((level, index) \<mapsto> v))\<rparr>"

record inc_state =
  is_size :: u64
  is_frontier :: "bytes32 list"

record merkle_path =
  mp_root :: bytes32
  mp_siblings :: "bytes32 list"

record 's inc_tree =
  it_depth :: nat
  it_chunk_level :: nat
  it_nodes :: 's
  it_state :: inc_state

definition nth_or :: "'a \<Rightarrow> 'a list \<Rightarrow> nat \<Rightarrow> 'a" where
  "nth_or z xs i = (if i < length xs then xs ! i else z)"

text \<open>One level of \<open>subtree\<close>: every second position from 0 below the length, at least one.\<close>

definition next_level :: "sponge \<Rightarrow> bytes32 \<Rightarrow> bytes32 list \<Rightarrow> bytes32 list pool_result" where
  "next_level P z cur =
     collect_results (\<lambda>i. node P (nth_or z cur (2 * i)) (nth_or z cur (2 * i + 1)))
       [0..<(max (length cur) 1 + 1) div 2]"

fun subtree_from :: "sponge \<Rightarrow> nat list \<Rightarrow> bytes32 list \<Rightarrow> bytes32 list list pool_result" where
  "subtree_from P [] cur = Inr [cur]"
| "subtree_from P (level # levels) cur =
     and_then (zero level) (\<lambda>z.
     and_then (next_level P z cur) (\<lambda>next.
     and_then (subtree_from P levels next) (\<lambda>rest. Inr (cur # rest))))"

definition subtree :: "sponge \<Rightarrow> bytes32 list \<Rightarrow> nat \<Rightarrow> bytes32 list list pool_result" where
  "subtree P ls height = subtree_from P [0..<height] ls"

definition with_store_tree :: "nat \<Rightarrow> nat \<Rightarrow> 's \<Rightarrow> inc_state option \<Rightarrow> 's inc_tree pool_result" where
  "with_store_tree depth chunk_level nodes state =
     (if \<not> depth \<le> MAX_TREE_DEPTH then Inl Trap
      else Inr \<lparr>it_depth = depth, it_chunk_level = min chunk_level depth, it_nodes = nodes,
                it_state = (case state of Some st \<Rightarrow> st | None \<Rightarrow> \<lparr>is_size = 0, is_frontier = take depth ZERO_HASHES\<rparr>)\<rparr>)"

definition new_tree :: "nat \<Rightarrow> nat \<Rightarrow> memory_nodes inc_tree pool_result" where
  "new_tree depth chunk_level = with_store_tree depth chunk_level Map.empty None"

definition it_size :: "'s inc_tree \<Rightarrow> u64" where
  "it_size t = is_size (it_state t)"

definition it_capacity :: "'s inc_tree \<Rightarrow> u64" where
  "it_capacity t = push_bit (it_depth t) 1"

definition it_sealed :: "'s inc_tree \<Rightarrow> bool" where
  "it_sealed t \<longleftrightarrow> it_size t = it_capacity t"

text \<open>The loop of \<open>append\<close>: it breaks at the first level where the new node is a left child.\<close>

fun inc_levels :: "'s node_ops \<Rightarrow> sponge \<Rightarrow> nat \<Rightarrow> u64 \<Rightarrow> nat list \<Rightarrow> bytes32 \<Rightarrow> bytes32 list \<Rightarrow> 's
    \<Rightarrow> (bytes32 list \<times> 's) pool_result" where
  "inc_levels N P chunk_level index [] cur frontier nodes = Inr (frontier, nodes)"
| "inc_levels N P chunk_level index (level # levels) cur frontier nodes =
     (if \<not> level < length frontier then Inl Trap
      else if drop_bit level index AND 1 = 0 then Inr (frontier[level := cur], nodes)
      else and_then (node P (frontier ! level) cur) (\<lambda>n.
           inc_levels N P chunk_level index levels n frontier
             (if level + 1 \<ge> chunk_level then nd_set N nodes (level + 1) (drop_bit (level + 1) index) n else nodes)))"

definition inc_append :: "'s node_ops \<Rightarrow> sponge \<Rightarrow> 's inc_tree \<Rightarrow> bytes32 \<Rightarrow> 's inc_tree pool_result" where
  "inc_append N P t leaf =
     (if it_sealed t then Inl Trap
      else let index = it_size t;
               nodes = (if it_chunk_level t = 0 then nd_set N (it_nodes t) 0 index leaf else it_nodes t)
           in and_then (inc_levels N P (it_chunk_level t) index [0..<it_depth t] leaf (is_frontier (it_state t)) nodes)
                (\<lambda>(frontier, nodes').
              and_then (ok_or (checked_add index 1) Trap) (\<lambda>size.
              Inr (t\<lparr>it_nodes := nodes', it_state := \<lparr>is_size = size, is_frontier = frontier\<rparr>\<rparr>))))"

text \<open>The caller's access to the leaves; a slice out of range panics.\<close>

type_synonym leaf_reader = "u64 \<Rightarrow> nat \<Rightarrow> bytes32 list pool_result"

definition index_list :: "'a list \<Rightarrow> nat \<Rightarrow> 'a pool_result" where
  "index_list xs i = (if i < length xs then Inr (xs ! i) else Inl Trap)"

text \<open>
  Positions are computed in \<open>u128\<close>; a level is at most 32, so shifts and sums of positions stay in
  range. Doubling the index is checked.
\<close>

function inc_value :: "'s node_ops \<Rightarrow> sponge \<Rightarrow> 's inc_tree \<Rightarrow> leaf_reader \<Rightarrow> nat \<Rightarrow> u64 \<Rightarrow> bytes32 pool_result" where
  "inc_value N P t rd level index =
     (let start = push_bit level (ucast index :: 128 word);
          span = push_bit level (1 :: 128 word);
          size = ucast (it_size t) :: 128 word;
          complete = start + span \<le> size
      in if start \<ge> size then zero level
         else if complete \<and> level \<ge> it_chunk_level t
         then ok_or (nd_get N (it_nodes t) level index) Trap
         else if level \<le> it_chunk_level t
         then let last = (if complete then start + span else size)
              in and_then (rd (ucast start) (unat (last - start))) (\<lambda>ls.
                 and_then (subtree P ls level) (\<lambda>levels.
                 and_then (index_list levels level) (\<lambda>top. index_list top 0)))
         else if unat index * 2 + 1 \<ge> 2 ^ 64 then Inl Trap
         else and_then (inc_value N P t rd (level - 1) (index * 2)) (\<lambda>l.
              and_then (inc_value N P t rd (level - 1) (index * 2 + 1)) (\<lambda>r. node P l r)))"
  by pat_completeness auto
termination
  by (relation "measure (\<lambda>(_, _, _, _, level, _). level)") auto

declare inc_value.simps [simp del]

definition inc_root :: "'s node_ops \<Rightarrow> sponge \<Rightarrow> 's inc_tree \<Rightarrow> leaf_reader \<Rightarrow> bytes32 pool_result" where
  "inc_root N P t rd = inc_value N P t rd (it_depth t) 0"

definition chunk_sibling :: "bytes32 list list \<Rightarrow> u64 \<Rightarrow> nat \<Rightarrow> bytes32 pool_result" where
  "chunk_sibling levels offset level =
     (let sib = unat (drop_bit level offset XOR 1)
      in and_then (index_list levels level) (\<lambda>row.
         if sib < length row then Inr (row ! sib) else zero level))"

definition witness :: "'s node_ops \<Rightarrow> sponge \<Rightarrow> 's inc_tree \<Rightarrow> leaf_reader \<Rightarrow> u64 \<Rightarrow> merkle_path pool_result" where
  "witness N P t rd index =
     (if \<not> index < it_size t then Inl Trap
      else let height = it_chunk_level t;
               chunk_start = push_bit height (drop_bit height index);
               chunk_end = min (ucast chunk_start + push_bit height (1 :: 128 word)) (ucast (it_size t))
           in and_then (rd chunk_start (unat (chunk_end - ucast chunk_start))) (\<lambda>ls.
              and_then (subtree P ls height) (\<lambda>levels.
              and_then (collect_results (chunk_sibling levels (index - chunk_start)) [0..<height]) (\<lambda>low.
              and_then (collect_results (\<lambda>level. inc_value N P t rd level (drop_bit level index XOR 1)) [height..<it_depth t]) (\<lambda>high.
              and_then (inc_value N P t rd (it_depth t) 0) (\<lambda>root.
              Inr \<lparr>mp_root = root, mp_siblings = low @ high\<rparr>))))))"

text \<open>The witnesses of every tree of a pool.\<close>

record pool_insertion =
  pi_tree_id :: u32
  pi_index :: u64
  pi_leaf :: bytes32

record witness_index =
  wi_depth :: nat
  wi_chunk_level :: nat
  wi_trees :: "u32 \<rightharpoonup> memory_nodes inc_tree"
  wi_current :: u32

definition new_index :: "nat \<Rightarrow> nat \<Rightarrow> witness_index" where
  "new_index depth chunk_level = \<lparr>wi_depth = depth, wi_chunk_level = chunk_level, wi_trees = Map.empty, wi_current = 0\<rparr>"

datatype ingest_error = OutOfOrder (oo_tree: u32) (oo_index: u64) (oo_got_tree: u32) (oo_got_index: u64)

text \<open>A refusal keeps the tree that \<open>or_insert_with\<close> opened.\<close>

definition ingest :: "sponge \<Rightarrow> witness_index \<Rightarrow> pool_insertion \<Rightarrow> ((ingest_error + unit) \<times> witness_index) pool_result" where
  "ingest P x at =
     and_then (case wi_trees x (wi_current x) of Some t \<Rightarrow> Inr t | None \<Rightarrow> new_tree (wi_depth x) (wi_chunk_level x)) (\<lambda>t.
     if pi_tree_id at \<noteq> wi_current x \<or> pi_index at \<noteq> it_size t
     then Inr (Inl (OutOfOrder (wi_current x) (it_size t) (pi_tree_id at) (pi_index at)),
               x\<lparr>wi_trees := (wi_trees x)(wi_current x \<mapsto> t)\<rparr>)
     else and_then (inc_append memory_node_store P t (pi_leaf at)) (\<lambda>t'.
          let x' = x\<lparr>wi_trees := (wi_trees x)(wi_current x \<mapsto> t')\<rparr>
          in if it_sealed t'
             then and_then (ok_or (checked_add (wi_current x) 1) Trap) (\<lambda>next. Inr (Inr (), x'\<lparr>wi_current := next\<rparr>))
             else Inr (Inr (), x')))"

text \<open>A tree over a slice of leaves.\<close>

record leaf_tree =
  lt_tree :: "memory_nodes inc_tree"
  lt_leaves :: "bytes32 list"

fun append_all :: "'s node_ops \<Rightarrow> sponge \<Rightarrow> bytes32 list \<Rightarrow> 's inc_tree \<Rightarrow> 's inc_tree pool_result" where
  "append_all N P [] t = Inr t"
| "append_all N P (x # xs) t = and_then (inc_append N P t x) (append_all N P xs)"

definition leaf_tree_new :: "sponge \<Rightarrow> nat \<Rightarrow> bytes32 list \<Rightarrow> leaf_tree pool_result" where
  "leaf_tree_new P depth ls =
     and_then (new_tree depth (min CHUNK_LEVEL depth)) (\<lambda>t.
     and_then (append_all memory_node_store P ls t) (\<lambda>t'. Inr \<lparr>lt_tree = t', lt_leaves = ls\<rparr>))"

definition reader :: "bytes32 list \<Rightarrow> leaf_reader" where
  "reader ls start count =
     (if unat start + count \<le> length ls then Inr (take count (drop (unat start) ls)) else Inl Trap)"

definition leaf_tree_root :: "sponge \<Rightarrow> leaf_tree \<Rightarrow> bytes32 pool_result" where
  "leaf_tree_root P x = inc_root memory_node_store P (lt_tree x) (reader (lt_leaves x))"

definition leaf_tree_path :: "sponge \<Rightarrow> leaf_tree \<Rightarrow> u64 \<Rightarrow> bytes32 list pool_result" where
  "leaf_tree_path P x index =
     and_then (witness memory_node_store P (lt_tree x) (reader (lt_leaves x)) index) (\<lambda>w. Inr (mp_siblings w))"

section \<open>Circuit inputs (lib.rs)\<close>

text \<open>The shift by the level is checked.\<close>

fun root_from_levels :: "sponge \<Rightarrow> u64 \<Rightarrow> nat \<Rightarrow> bytes32 \<Rightarrow> bytes32 list \<Rightarrow> bytes32 pool_result" where
  "root_from_levels P index level cur [] = Inr cur"
| "root_from_levels P index level cur (sib # sibs) =
     (if level \<ge> 64 then Inl Trap
      else and_then (if drop_bit level index AND 1 = 0 then node P cur sib else node P sib cur) (\<lambda>n.
           root_from_levels P index (Suc level) n sibs))"

definition root_from_path :: "sponge \<Rightarrow> bytes32 \<Rightarrow> u64 \<Rightarrow> bytes32 list \<Rightarrow> bytes32 pool_result" where
  "root_from_path P leaf index siblings = root_from_levels P index 0 leaf siblings"

record circuit_inputs =
  ci_root :: bytes32
  ci_nullifier :: bytes32
  ci_statement_hash :: bytes32
  ci_secret :: bytes32
  ci_account_id :: bytes32
  ci_enrollment_id :: bytes32
  ci_digest :: bytes32
  ci_leaf_index :: u64
  ci_siblings :: "bytes32 list"

definition input_fields :: "bytes32 \<Rightarrow> bytes32 \<Rightarrow> bytes32 \<Rightarrow> zk_statement_fields" where
  "input_fields account_id enrollment_id digest =
     (let (account_hi, account_lo) = split_hi_lo (bytes32_to_array account_id);
          (enrollment_hi, enrollment_lo) = split_hi_lo (bytes32_to_array enrollment_id);
          (digest_hi, digest_lo) = split_hi_lo (bytes32_to_array digest)
      in \<lparr>zf_account_hi = account_hi, zf_account_lo = account_lo,
          zf_enrollment_hi = enrollment_hi, zf_enrollment_lo = enrollment_lo,
          zf_digest_hi = digest_hi, zf_digest_lo = digest_lo\<rparr>)"

definition inputs_new :: "sponge \<Rightarrow> bytes32 \<Rightarrow> bytes32 \<Rightarrow> bytes32 \<Rightarrow> bytes32 \<Rightarrow> u64 \<Rightarrow> bytes32 list \<Rightarrow> circuit_inputs pool_result" where
  "inputs_new P secret account_id enrollment_id digest leaf_index siblings =
     and_then (commitment P secret) (\<lambda>inner.
     and_then (leaf_hash P (bytes32_to_array account_id) enrollment_id inner) (\<lambda>leaf.
     and_then (root_from_path P leaf leaf_index siblings) (\<lambda>root.
     and_then (nullifier P (bytes32_to_array account_id) enrollment_id secret) (\<lambda>nul.
     and_then (statement_hash P (input_fields account_id enrollment_id digest)) (\<lambda>sh.
     Inr \<lparr>ci_root = root, ci_nullifier = nul, ci_statement_hash = sh, ci_secret = secret, ci_account_id = account_id,
          ci_enrollment_id = enrollment_id, ci_digest = digest, ci_leaf_index = leaf_index, ci_siblings = siblings\<rparr>)))))"

definition leaf_of_commitment :: "sponge \<Rightarrow> bytes32 \<Rightarrow> bytes32 \<Rightarrow> bytes32 \<Rightarrow> bytes32 pool_result" where
  "leaf_of_commitment P account_id enrollment_id commit = leaf_hash P (bytes32_to_array account_id) enrollment_id commit"

definition secret_leaf :: "sponge \<Rightarrow> bytes32 \<Rightarrow> bytes32 \<Rightarrow> bytes32 \<Rightarrow> bytes32 pool_result" where
  "secret_leaf P account_id enrollment_id secret =
     and_then (commitment P secret) (\<lambda>c. leaf_of_commitment P account_id enrollment_id c)"

definition inputs_leaf :: "sponge \<Rightarrow> circuit_inputs \<Rightarrow> bytes32 pool_result" where
  "inputs_leaf P i = secret_leaf P (ci_account_id i) (ci_enrollment_id i) (ci_secret i)"

definition inputs_public :: "circuit_inputs \<Rightarrow> bytes" where
  "inputs_public i = public_inputs (ci_root i) (ci_nullifier i) (ci_statement_hash i)"

text \<open>Texts: hex, and the file the circuit's compiler reads. \<open>from_str_radix\<close> also takes a leading plus sign.\<close>

definition hex_digit_char :: "nat \<Rightarrow> char" where
  "hex_digit_char n = (if n < 10 then char_of (48 + n) else char_of (87 + n))"

definition hex_digit_value :: "char \<Rightarrow> nat option" where
  "hex_digit_value c =
     (let n = of_char c :: nat
      in if 48 \<le> n \<and> n \<le> 57 then Some (n - 48)
         else if 97 \<le> n \<and> n \<le> 102 then Some (n - 87)
         else if 65 \<le> n \<and> n \<le> 70 then Some (n - 55) else None)"

fun hex_digits :: "bytes \<Rightarrow> string" where
  "hex_digits [] = []"
| "hex_digits (x # xs) = hex_digit_char (unat x div 16) # hex_digit_char (unat x mod 16) # hex_digits xs"

definition hex :: "bytes \<Rightarrow> string" where
  "hex b = ''0x'' @ hex_digits b"

definition radix_pair :: "char \<Rightarrow> char \<Rightarrow> byte option" where
  "radix_pair a b =
     (case (if a = CHR ''+'' then Some 0 else hex_digit_value a, hex_digit_value b) of
        (Some x, Some y) \<Rightarrow> Some (word_of_nat (16 * x + y))
      | _ \<Rightarrow> None)"

text \<open>A text is its UTF-8 bytes; a slice that starts or ends inside a character panics.\<close>

definition inside_char :: "string \<Rightarrow> bool" where
  "inside_char s = (case s of [] \<Rightarrow> False | c # _ \<Rightarrow> 128 \<le> (of_char c :: nat) \<and> (of_char c :: nat) < 192)"

fun radix_pairs :: "string \<Rightarrow> bytes option pool_result" where
  "radix_pairs (a # b # s) =
     (if inside_char (a # b # s) \<or> inside_char s then Inl Trap
      else (case radix_pair a b of
              None \<Rightarrow> Inr None
            | Some x \<Rightarrow> and_then (radix_pairs s) (\<lambda>r. Inr (case r of None \<Rightarrow> None | Some xs \<Rightarrow> Some (x # xs)))))"
| "radix_pairs s = Inr (Some [])"

definition parse32 :: "string \<Rightarrow> bytes option pool_result" where
  "parse32 s =
     (let s' = (if take 2 s = ''0x'' then drop 2 s else s)
      in if length s' \<noteq> 64 then Inr None else radix_pairs s')"

definition toml_line :: "string \<Rightarrow> bytes \<Rightarrow> string" where
  "toml_line k v = k @ '' = '' @ [CHR 0x22] @ hex v @ [CHR 0x22, CHR 0x0A]"

fun join_strings :: "string \<Rightarrow> string list \<Rightarrow> string" where
  "join_strings sep [] = []"
| "join_strings sep [s] = s"
| "join_strings sep (s # ss) = s @ sep @ join_strings sep ss"

definition prover_toml :: "circuit_inputs \<Rightarrow> string" where
  "prover_toml i =
     (let f = input_fields (ci_account_id i) (ci_enrollment_id i) (ci_digest i);
          index = replicate 24 0 @ u64_be (ci_leaf_index i);
          siblings = map (\<lambda>s. [CHR 0x22] @ hex (bytes32_to_array s) @ [CHR 0x22]) (ci_siblings i)
      in concat (map (\<lambda>(k, v). toml_line k v)
           [(''root'', bytes32_to_array (ci_root i)), (''nullifier'', bytes32_to_array (ci_nullifier i)),
            (''statement_hash'', bytes32_to_array (ci_statement_hash i)), (''secret'', bytes32_to_array (ci_secret i)),
            (''acct_hi'', zf_account_hi f), (''acct_lo'', zf_account_lo f),
            (''enr_hi'', zf_enrollment_hi f), (''enr_lo'', zf_enrollment_lo f),
            (''digest_hi'', zf_digest_hi f), (''digest_lo'', zf_digest_lo f), (''leaf_index'', index)])
         @ ''siblings = ['' @ join_strings '', '' siblings @ '']'' @ [CHR 0x0A])"

section \<open>Nodes of a list of leaves\<close>

text \<open>The node at a level and an index: the root of its block of leaves.\<close>

definition node_at :: "(bytes list \<Rightarrow> bytes32) \<Rightarrow> bytes32 list \<Rightarrow> nat \<Rightarrow> nat \<Rightarrow> bytes32" where
  "node_at H L l i = merkle_root H l (take (2 ^ l) (drop (i * 2 ^ l) L))"

lemma node_at_Suc:
  "node_at H L (Suc l) i = H [bytes32_to_array (node_at H L l (2 * i)), bytes32_to_array (node_at H L l (2 * i + 1))]"
proof -
  have "take (2 ^ l) (take (2 ^ Suc l) (drop (i * 2 ^ Suc l) L)) = take (2 ^ l) (drop (2 * i * 2 ^ l) L)"
    by (simp add: ac_simps)
  moreover have "drop (2 ^ l) (take (2 ^ Suc l) (drop (i * 2 ^ Suc l) L)) = take (2 ^ l) (drop ((2 * i + 1) * 2 ^ l) L)"
    by (simp add: drop_take ac_simps)
  ultimately show ?thesis unfolding node_at_def by (simp only: merkle_root.simps)
qed

lemma node_at_0: "i < length L \<Longrightarrow> node_at H L 0 i = L ! i"
  by (simp add: node_at_def take_Suc_conv_app_nth hd_drop_conv_nth split: list.split)

lemma node_at_empty:
  assumes "sponge_laws P H" "l \<le> 32" "length L \<le> i * 2 ^ l"
  shows "node_at H L l i = ZERO_HASHES ! l"
  using assms zero_root by (simp add: node_at_def)

lemma node_at_top: "length L \<le> 2 ^ d \<Longrightarrow> node_at H L d 0 = merkle_root H d L"
  by (simp add: node_at_def)

lemma node_at_canonical: "sponge_laws P H \<Longrightarrow> list_all is_canonical L \<Longrightarrow> is_canonical (node_at H L l i)"
  unfolding node_at_def by (intro merkle_root_canonical list_all_take_drop)

lemma node_at_append: "(i + 1) * 2 ^ l \<le> length L \<Longrightarrow> node_at H (L @ M) l i = node_at H L l i"
  by (simp add: node_at_def)

lemma node_at_block:
  assumes "l \<le> h" "j < 2 ^ (h - l)"
  shows "node_at H (take (2 ^ h) (drop (c * 2 ^ h) L)) l j = node_at H L l (c * 2 ^ (h - l) + j)"
proof -
  have h: "(2 :: nat) ^ h = 2 ^ (h - l) * 2 ^ l" using assms(1) by (simp flip: power_add)
  have "(j + 1) * 2 ^ l \<le> 2 ^ (h - l) * 2 ^ l" using assms(2) by (intro mult_right_mono) simp_all
  then have "2 ^ l \<le> 2 ^ h - j * 2 ^ l" using h by simp
  then have "take (2 ^ l) (drop (j * 2 ^ l) (take (2 ^ h) (drop (c * 2 ^ h) L))) = take (2 ^ l) (drop (c * 2 ^ h + j * 2 ^ l) L)"
    by (simp add: drop_take ac_simps min_def)
  moreover have "c * 2 ^ h + j * 2 ^ l = (c * 2 ^ (h - l) + j) * 2 ^ l" unfolding h by (simp add: algebra_simps)
  ultimately show ?thesis unfolding node_at_def by simp
qed

section \<open>Subtrees\<close>

definition row_ok :: "(bytes list \<Rightarrow> bytes32) \<Rightarrow> bytes32 list \<Rightarrow> nat \<Rightarrow> bytes32 list \<Rightarrow> bool" where
  "row_ok H L l row \<longleftrightarrow> (\<forall>i. nth_or (ZERO_HASHES ! l) row i = node_at H L l i)"

lemma next_level_ok:
  assumes laws: "sponge_laws P H" and L: "list_all is_canonical L" and l: "l < 32" and row: "row_ok H L l row"
  shows "\<exists>row'. next_level P (ZERO_HASHES ! l) row = Inr row' \<and> row_ok H L (Suc l) row' \<and> row' \<noteq> []"
proof -
  let ?m = "(max (length row) 1 + 1) div 2" and ?row' = "map (node_at H L (Suc l)) [0..<(max (length row) 1 + 1) div 2]"
  have n: "node P (nth_or (ZERO_HASHES ! l) row (2 * i)) (nth_or (ZERO_HASHES ! l) row (2 * i + 1)) = Inr (node_at H L (Suc l) i)" for i
    using row node_eq [OF laws node_at_canonical [OF laws L] node_at_canonical [OF laws L]]
    by (simp add: row_ok_def node_at_Suc)
  have "next_level P (ZERO_HASHES ! l) row = Inr ?row'"
    unfolding next_level_def by (auto simp: collect_results_Inr_iff list_all2_conv_all_nth n [simplified] simp del: upt_Suc)
  moreover have "nth_or (ZERO_HASHES ! Suc l) ?row' i = node_at H L (Suc l) i" for i
  proof (cases "i < ?m")
    case False
    then have "length row \<le> 2 * i" by linarith
    then have "node_at H L l (2 * i) = ZERO_HASHES ! l" "node_at H L l (2 * i + 1) = ZERO_HASHES ! l"
      using row [unfolded row_ok_def, rule_format, of "2 * i"] row [unfolded row_ok_def, rule_format, of "2 * i + 1"]
      by (simp_all add: nth_or_def)
    then show ?thesis using False sponge_lawsD(3) [OF laws l] by (simp add: nth_or_def node_at_Suc)
  qed (simp add: nth_or_def del: upt_Suc)
  moreover have "?row' \<noteq> []" by simp
  ultimately show ?thesis unfolding row_ok_def by blast
qed

lemma subtree_from_ok:
  assumes laws: "sponge_laws P H" and L: "list_all is_canonical L" and h: "h \<le> 32"
  shows "l \<le> h \<Longrightarrow> row_ok H L l row \<Longrightarrow> \<exists>rows. subtree_from P [l..<h] row = Inr rows \<and> length rows = Suc (h - l) \<and>
    (\<forall>k \<le> h - l. row_ok H L (l + k) (rows ! k)) \<and> (l < h \<or> row \<noteq> [] \<longrightarrow> rows ! (h - l) \<noteq> [])"
proof (induction "h - l" arbitrary: l row)
  case 0
  then show ?case by auto
next
  case (Suc n)
  then have u: "[l..<h] = l # [Suc l..<h]" "n = h - Suc l" "Suc l \<le> h" by (auto simp: upt_conv_Cons)
  have z: "zero l = Inr (ZERO_HASHES ! l)" using u(3) h by (simp add: zero_def)
  obtain row' where r: "next_level P (ZERO_HASHES ! l) row = Inr row'" "row_ok H L (Suc l) row'" "row' \<noteq> []"
    using next_level_ok [OF laws L _ Suc.prems(2)] u(3) h by auto
  obtain rows where rs: "subtree_from P [Suc l..<h] row' = Inr rows" "length rows = Suc (h - Suc l)"
      "\<forall>k \<le> h - Suc l. row_ok H L (Suc l + k) (rows ! k)" "rows ! (h - Suc l) \<noteq> []"
    using Suc.hyps(1) [OF u(2,3) r(2)] r(3) by auto
  have "row_ok H L (l + k) ((row # rows) ! k)" if "k \<le> h - l" for k
    using that Suc.prems(2) rs(3) by (cases k) auto
  moreover have "h - l = Suc (h - Suc l)" using u(3) by simp
  ultimately show ?case using rs r(1) z u(1) by (intro exI [of _ "row # rows"]) simp
qed

lemma row_ok_leaves: "row_ok H L 0 L"
proof -
  have "nth_or 0 L i = node_at H L 0 i" for i
    by (cases "i < length L") (simp_all add: nth_or_def node_at_0, simp add: node_at_def)
  then show ?thesis by (simp add: row_ok_def)
qed

lemma subtree_ok:
  assumes "sponge_laws P H" "list_all is_canonical L" "h \<le> 32"
  obtains rows where "subtree P L h = Inr rows" "length rows = Suc h" "\<And>l. l \<le> h \<Longrightarrow> row_ok H L l (rows ! l)"
    "0 < h \<or> L \<noteq> [] \<Longrightarrow> rows ! h \<noteq> []"
  using subtree_from_ok [OF assms, of 0 L] row_ok_leaves by (auto simp: subtree_def)

lemma subtree_top:
  assumes "sponge_laws P H" "list_all is_canonical L" "h \<le> 32" "L \<noteq> []"
  shows "and_then (subtree P L h) (\<lambda>levels. and_then (index_list levels h) (\<lambda>top. index_list top 0)) = Inr (node_at H L h 0)"
proof -
  obtain rows where r: "subtree P L h = Inr rows" "length rows = Suc h" "\<And>l. l \<le> h \<Longrightarrow> row_ok H L l (rows ! l)" "rows ! h \<noteq> []"
    using subtree_ok [OF assms(1-3)] assms(4) by metis
  moreover have "rows ! h ! 0 = node_at H L h 0"
    using r(3) [of h] r(4) unfolding row_ok_def nth_or_def by (metis order_refl length_greater_0_conv)
  ultimately show ?thesis by (simp add: index_list_def)
qed

section \<open>One insertion\<close>

lemma unat_shift: "unat (drop_bit l w) = unat w div 2 ^ l" for w :: "'a :: len word"
  unfolding unat_drop_bit_eq by (simp add: drop_bit_eq_div)

lemma unat_ucast_u128: "unat (ucast w :: 128 word) = unat w" for w :: u64
proof -
  have "unat w < 2 ^ 64" using unsigned_less [of w] by simp
  then have "unat w < 2 ^ 128" by (rule order.strict_trans) simp
  then show ?thesis by (simp add: unsigned_ucast_eq take_bit_nat_eq_self)
qed

text \<open>The positions of a block in \<open>u128\<close>.\<close>

lemma block_words:
  fixes i :: u64 and m :: u64
  assumes "(unat i + 1) * 2 ^ l \<le> 2 ^ 32"
  defines "start \<equiv> push_bit l (ucast i :: 128 word)" and "span \<equiv> (2 :: 128 word) ^ l"
  shows "unat start = unat i * 2 ^ l" "unat (start + span) = (unat i + 1) * 2 ^ l" "unat (ucast start :: u64) = unat i * 2 ^ l"
    "start \<ge> ucast m \<longleftrightarrow> unat m \<le> unat i * 2 ^ l" "start + span \<le> ucast m \<longleftrightarrow> (unat i + 1) * 2 ^ l \<le> unat m"
    "unat span = 2 ^ l" "unat m > unat i * 2 ^ l \<Longrightarrow> unat (ucast m - start) = unat m - unat i * 2 ^ l"
proof -
  note u = unat_ucast_u128
  have lt: "unat i * 2 ^ l + 2 ^ l \<le> 2 ^ 32" using assms(1) by (simp add: algebra_simps)
  have "(2 :: nat) ^ l \<le> 2 ^ 32" using lt by simp
  then have l: "l \<le> 32" by (rule power_le_imp_le_exp [rotated]) simp
  show a: "unat start = unat i * 2 ^ l"
    unfolding start_def unsigned_push_bit_eq u using lt by (simp add: push_bit_eq_mult take_bit_nat_eq_self)
  show b: "unat span = 2 ^ l"
    unfolding span_def push_bit_of_1 [symmetric] unsigned_push_bit_eq using l by (simp add: push_bit_eq_mult take_bit_nat_eq_self)
  have "(unat i + 1) * 2 ^ l < 2 ^ LENGTH(128)" by (rule order.strict_trans1 [OF assms(1)]) simp
  then show c: "unat (start + span) = (unat i + 1) * 2 ^ l"
    unfolding unat_word_ariths(1) a b by (simp only: add_mult_distrib mult_1 mod_less)
  show "unat (ucast start :: u64) = unat i * 2 ^ l" using lt by (simp add: unsigned_ucast_eq unsigned_take_bit_eq a take_bit_nat_eq_self)
  show "start \<ge> ucast m \<longleftrightarrow> unat m \<le> unat i * 2 ^ l" by (simp add: word_le_nat_alt a u)
  show "start + span \<le> ucast m \<longleftrightarrow> (unat i + 1) * 2 ^ l \<le> unat m" by (simp only: word_le_nat_alt c u)
  show "unat (ucast m - start) = unat m - unat i * 2 ^ l" if "unat m > unat i * 2 ^ l"
    using that unat_sub [of start "ucast m"] by (simp add: word_le_nat_alt a u)
qed

lemma double_words:
  fixes i :: u64
  assumes "2 * unat i + 1 < 2 ^ 64"
  shows "unat (i * 2) = 2 * unat i" "unat (i * 2 + 1) = 2 * unat i + 1"
  using assms by (simp_all add: unat_word_ariths)

text \<open>The sibling of a node, and the chunk of a leaf.\<close>

definition sibling :: "nat \<Rightarrow> nat" where
  "sibling k = (if even k then Suc k else k - 1)"

definition sibling_nodes :: "(bytes list \<Rightarrow> bytes32) \<Rightarrow> bytes32 list \<Rightarrow> nat \<Rightarrow> nat \<Rightarrow> bytes32 list" where
  "sibling_nodes H L i d = map (\<lambda>l. node_at H L l (sibling (i div 2 ^ l))) [0..<d]"

lemma unat_sibling: "unat (w XOR 1) = sibling (unat w)" for w :: u64
  unfolding unsigned_xor_eq by (simp add: sibling_def xor_Suc_0_eq)

lemma sibling_less:
  assumes "k < 2 ^ m" "0 < m"
  shows "sibling k < 2 ^ m"
proof -
  obtain q where "(2 :: nat) ^ m = 2 * q" using assms(2) by (cases m) simp_all
  then show ?thesis using assms(1) by (auto simp: sibling_def elim!: evenE)
qed

lemma div_pow_less: "i < 2 ^ d \<Longrightarrow> l \<le> d \<Longrightarrow> i div 2 ^ l < 2 ^ (d - l)" for i :: nat
  by (rule less_mult_imp_div_less) (simp flip: power_add)

lemma sibling_block:
  assumes "l < h"
  shows "i div 2 ^ h * 2 ^ (h - l) + sibling (i mod 2 ^ h div 2 ^ l) = sibling (i div 2 ^ l)"
proof -
  have h: "(2 :: nat) ^ h = 2 ^ (h - l) * 2 ^ l" "even (i div 2 ^ h * 2 ^ (h - l))" using assms by (simp_all flip: power_add)
  have "i = i mod 2 ^ h + i div 2 ^ h * 2 ^ (h - l) * 2 ^ l"
    using mod_div_mult_eq [of i "2 ^ h"] h(1) by (simp add: ac_simps)
  then have "i div 2 ^ l = (i mod 2 ^ h + i div 2 ^ h * 2 ^ (h - l) * 2 ^ l) div 2 ^ l" by simp
  also have "\<dots> = i div 2 ^ h * 2 ^ (h - l) + i mod 2 ^ h div 2 ^ l" by (rule div_mult_self1) simp
  finally show ?thesis using h(2) by (auto simp: sibling_def elim!: oddE)
qed

lemma chunk_words:
  fixes index :: u64
  shows "unat (push_bit h (drop_bit h index)) = unat index div 2 ^ h * 2 ^ h"
    and "unat (index - push_bit h (drop_bit h index)) = unat index mod 2 ^ h"
proof -
  have "unat index div 2 ^ h * 2 ^ h < 2 ^ 64"
    using order.strict_trans1 [OF div_times_less_eq_dividend unsigned_less [of index]] by simp
  then show a: "unat (push_bit h (drop_bit h index)) = unat index div 2 ^ h * 2 ^ h"
    unfolding unsigned_push_bit_eq unat_shift by (simp add: push_bit_eq_mult take_bit_nat_eq_self)
  show "unat (index - push_bit h (drop_bit h index)) = unat index mod 2 ^ h"
    using unat_sub [of "push_bit h (drop_bit h index)" index] by (simp add: word_le_nat_alt a minus_div_mult_eq_mod)
qed

lemma chunk_span:
  fixes index :: u64 and m :: u64
  assumes "unat index < unat m" "(unat index div 2 ^ h + 1) * 2 ^ h \<le> 2 ^ 32"
  defines "start \<equiv> push_bit h (drop_bit h index)"
  shows "unat (min (ucast start + push_bit h (1 :: 128 word)) (ucast m) - ucast start) = min (2 ^ h) (unat m - unat start)"
proof -
  have s: "ucast start = push_bit h (ucast (drop_bit h index) :: 128 word)"
    using block_words(1) [of "drop_bit h index" h] assms(2)
    by (intro word_unat_eq_iff [THEN iffD2]) (simp add: unat_ucast_u128 start_def chunk_words(1) unat_shift)
  have "unat (drop_bit h index) * 2 ^ h < unat m"
    using order.strict_trans1 [OF div_times_less_eq_dividend assms(1)] by (simp add: unat_shift)
  then show ?thesis
    using block_words [of "drop_bit h index" h] block_words(7) [of "drop_bit h index" h m] assms(2)
    unfolding s by (auto simp: min_def unat_shift start_def chunk_words(1) push_bit_of_1)
qed

text \<open>Hashing a leaf with its siblings gives the root.\<close>

lemma root_from_levels_ok:
  assumes laws: "sponge_laws P H" and L: "list_all is_canonical L" and d: "d \<le> 32"
  shows "l \<le> d \<Longrightarrow> root_from_levels P index l (node_at H L l (unat index div 2 ^ l))
      (map (\<lambda>k. node_at H L k (sibling (unat index div 2 ^ k))) [l..<d]) = Inr (node_at H L d (unat index div 2 ^ d))"
proof (induction "d - l" arbitrary: l)
  case (Suc n)
  let ?k = "unat index div 2 ^ l"
  have l: "[l..<d] = l # [Suc l..<d]" "n = d - Suc l" "Suc l \<le> d" "l < 64" using Suc.hyps(2) d by (auto simp: upt_conv_Cons)
  have nd: "node P (node_at H L l a) (node_at H L l b) =
      Inr (H [bytes32_to_array (node_at H L l a), bytes32_to_array (node_at H L l b)])" for a b
    by (rule node_eq [OF laws node_at_canonical [OF laws L] node_at_canonical [OF laws L]])
  have "unat index div 2 ^ Suc l = ?k div 2" by (simp only: power_Suc2 div_mult2_eq)
  then have "(if even ?k then node P (node_at H L l ?k) (node_at H L l (sibling ?k)) else node P (node_at H L l (sibling ?k)) (node_at H L l ?k))
      = Inr (node_at H L (Suc l) (unat index div 2 ^ Suc l))"
    unfolding node_at_Suc nd by (auto simp: sibling_def elim!: evenE oddE)
  then show ?case
    using Suc.hyps(1) [OF l(2,3)] level_bit [OF l(4), of index] l(4) by (simp add: l(1) del: upt_Suc power_Suc split: if_splits)
qed simp

lemma root_from_siblings:
  assumes "sponge_laws P H" "list_all is_canonical L" "d \<le> 32" "length L \<le> 2 ^ d" "unat index < length L"
  shows "root_from_path P (L ! unat index) index (sibling_nodes H L (unat index) d) = Inr (merkle_root H d L)"
  using root_from_levels_ok [OF assms(1-3), of 0 index] node_at_0 [OF assms(5), of H] node_at_top [OF assms(4), of H] assms(4,5)
  by (simp add: root_from_path_def sibling_nodes_def)

text \<open>A reader of the leaves, as the caller of a tree provides it.\<close>

definition reads :: "leaf_reader \<Rightarrow> bytes32 list \<Rightarrow> bool" where
  "reads rd L \<longleftrightarrow> (\<forall>start count. unat start + count \<le> length L \<longrightarrow> rd start count = Inr (take count (drop (unat start) L)))"

lemma reads_block:
  assumes "reads rd L" "unat s \<le> length L"
  shows "rd s (min k (length L - unat s)) = Inr (take k (drop (unat s) L))"
proof -
  have "take (min k (length L - unat s)) (drop (unat s) L) = take k (drop (unat s) L)" by (cases "k \<le> length L - unat s") simp_all
  then show ?thesis using assms by (simp add: reads_def)
qed

lemma reader_reads: "reads (reader L) L"
  by (simp add: reads_def reader_def)

text \<open>The store of subtree roots, as the trees use it.\<close>

locale node_store =
  fixes N :: "'s node_ops"
  assumes get_set: "nd_get N (nd_set N s l i v) l' i' = (if l' = l \<and> i' = i then Some v else nd_get N s l' i')"
begin

lemma inc_levels_ok:
  assumes laws: "sponge_laws P H" and L: "list_all is_canonical L" "is_canonical x" and d: "d \<le> 32"
    and i: "unat index = length L"
  shows "l \<le> d \<Longrightarrow> 2 ^ l dvd Suc (length L) \<Longrightarrow> length f = d \<Longrightarrow>
    (\<forall>k. l \<le> k \<and> k < d \<and> odd (length L div 2 ^ k) \<longrightarrow> f ! k = left_node H L k) \<Longrightarrow>
    \<exists>g s'. inc_levels N P c index [l..<d] (path_node H L x l) f s = Inr (g, s') \<and> length g = d \<and>
      (\<forall>k < d. g ! k = (if l \<le> k \<and> even (length L div 2 ^ k) \<and> 2 ^ k dvd Suc (length L) then path_node H L x k else f ! k)) \<and>
      (\<forall>k j. nd_get N s' k j = (if l < k \<and> c \<le> k \<and> k \<le> d \<and> 2 ^ k dvd Suc (length L) \<and> j = drop_bit k index
         then Some (path_node H L x k) else nd_get N s k j))"
proof (induction "d - l" arbitrary: l f s)
  case 0
  then show ?case by auto
next
  case (Suc n)
  then have l: "l < d" "[l..<d] = l # [Suc l..<d]" "Suc l \<le> d" "n = d - Suc l" by (auto simp: upt_conv_Cons)
  note canon = canonical_parts [OF laws L]
  have bit: "drop_bit l index AND 1 = 0 \<longleftrightarrow> even (length L div 2 ^ l)" using level_bit [of l index] l(1) d i by simp
  obtain q where q: "Suc (length L) = 2 ^ l * q" using Suc.prems(2) by (auto simp: dvd_def)
  have "0 < q" using q by (cases q) simp_all
  then have dv: "length L div 2 ^ l = q - 1"
  proof -
    have "length L = (2 ^ l - 1) + 2 ^ l * (q - 1)" using q \<open>0 < q\<close> by (cases q) simp_all
    moreover have "((2 :: nat) ^ l - 1 + 2 ^ l * (q - 1)) div 2 ^ l = (q - 1) + (2 ^ l - 1) div 2 ^ l"
      by (rule div_mult_self2) simp
    ultimately show ?thesis by simp
  qed
  have ev: "2 ^ Suc l dvd Suc (length L) \<longleftrightarrow> odd (length L div 2 ^ l)"
    using dv \<open>0 < q\<close> unfolding q power_Suc2 by simp
  show ?case
  proof (cases "even (length L div 2 ^ l)")
    case True
    have up: "\<not> 2 ^ k dvd Suc (length L)" if "l < k" for k
      using ev True dvd_trans [OF le_imp_power_dvd [of "Suc l" k "2 :: nat"]] that by auto
    show ?thesis
      using up True l(1,2) bit Suc.prems(2,3)
      by (intro exI [of _ "f[l := path_node H L x l]"] exI [of _ s])
         (auto simp: nth_list_update dest: le_neq_implies_less)
  next
    case False
    define s1 where "s1 = (if l + 1 \<ge> c then nd_set N s (l + 1) (drop_bit (l + 1) index) (path_node H L x (Suc l)) else s)"
    have f: "\<forall>k. Suc l \<le> k \<and> k < d \<and> odd (length L div 2 ^ k) \<longrightarrow> f ! k = left_node H L k" using Suc.prems(4) by auto
    have dvd: "2 ^ Suc l dvd Suc (length L)" using ev False by simp
    obtain g s' where g: "inc_levels N P c index [Suc l..<d] (path_node H L x (Suc l)) f s1 = Inr (g, s')" "length g = d"
        "\<forall>k < d. g ! k = (if Suc l \<le> k \<and> even (length L div 2 ^ k) \<and> 2 ^ k dvd Suc (length L) then path_node H L x k else f ! k)"
        "\<forall>k j. nd_get N s' k j = (if Suc l < k \<and> c \<le> k \<and> k \<le> d \<and> 2 ^ k dvd Suc (length L) \<and> j = drop_bit k index
           then Some (path_node H L x k) else nd_get N s1 k j)"
      using Suc.hyps(1) [OF l(4,3) dvd Suc.prems(3) f, of s1] by auto
    have "f ! l = left_node H L l" using Suc.prems(4) False l(1) by auto
    then have nd: "node P (f ! l) (path_node H L x l) = Inr (path_node H L x (Suc l))"
      using node_eq [OF laws canon(2,1)] path_node_odd [OF False] by simp
    have "inc_levels N P c index [l..<d] (path_node H L x l) f s = Inr (g, s')"
      using g(1) bit False l(1) Suc.prems(3) unfolding s1_def by (simp add: l(2) nd)
    moreover have "\<forall>k < d. g ! k = (if l \<le> k \<and> even (length L div 2 ^ k) \<and> 2 ^ k dvd Suc (length L) then path_node H L x k else f ! k)"
      using g(3) False by (auto simp: Suc_le_eq le_less)
    moreover have "nd_get N s' k j = (if l < k \<and> c \<le> k \<and> k \<le> d \<and> 2 ^ k dvd Suc (length L) \<and> j = drop_bit k index
           then Some (path_node H L x k) else nd_get N s k j)" for k j
      using g(4) dvd l(3) by (cases "k = Suc l") (auto simp: s1_def get_set)
    ultimately show ?thesis using g(2) by (intro exI [of _ g] exI [of _ s']) blast
  qed
qed

text \<open>A tree in step with the leaves appended to it.\<close>

definition inc_ok :: "(bytes list \<Rightarrow> bytes32) \<Rightarrow> bytes32 list \<Rightarrow> 's inc_tree \<Rightarrow> bool" where
  "inc_ok H L t \<longleftrightarrow> it_depth t \<le> 32 \<and> it_chunk_level t \<le> it_depth t \<and> unat (it_size t) = length L \<and> length L \<le> 2 ^ it_depth t \<and>
     list_all is_canonical L \<and> frontier_ok H (it_depth t) L (is_frontier (it_state t)) \<and>
     (\<forall>l i. it_chunk_level t \<le> l \<and> l \<le> it_depth t \<and> (unat i + 1) * 2 ^ l \<le> length L \<longrightarrow>
        nd_get N (it_nodes t) l i = Some (node_at H L l (unat i)))"

lemma path_node_at: "path_node H L x l = node_at H (L @ [x]) l (length L div 2 ^ l)"
proof -
  have "length (drop (block (length L) l) (L @ [x])) \<le> 2 ^ l" using block_le [of "length L" l] by simp
  then show ?thesis by (simp add: path_node_def node_at_def block_def)
qed

lemma completed_block:
  assumes "(i + 1) * 2 ^ l \<le> Suc n" "\<not> (i + 1) * 2 ^ l \<le> n"
  shows "2 ^ l dvd Suc n" "n div 2 ^ l = i"
proof -
  have e: "(i + 1) * 2 ^ l = Suc n" using assms by simp
  then show "2 ^ l dvd Suc n" by (metis dvd_triv_right)
  have "n = (2 ^ l - 1) + 2 ^ l * i" using e by (simp add: mult.commute)
  moreover have "((2 :: nat) ^ l - 1 + 2 ^ l * i) div 2 ^ l = i + (2 ^ l - 1) div 2 ^ l" by (rule div_mult_self2) simp
  ultimately show "n div 2 ^ l = i" by simp
qed

lemma inc_append_ok:
  assumes laws: "sponge_laws P H" and t: "inc_ok H L t" and x: "is_canonical x" and room: "length L < 2 ^ it_depth t"
  shows "\<exists>t'. inc_append N P t x = Inr t' \<and> inc_ok H (L @ [x]) t' \<and> it_depth t' = it_depth t \<and> it_chunk_level t' = it_chunk_level t"
proof -
  let ?d = "it_depth t" and ?c = "it_chunk_level t" and ?i = "it_size t"
  let ?s = "if ?c = 0 then nd_set N (it_nodes t) 0 ?i x else it_nodes t"
  have tD: "?d \<le> 32" "?c \<le> ?d" "unat ?i = length L" "list_all is_canonical L" "frontier_ok H ?d L (is_frontier (it_state t))"
    "\<And>l i. ?c \<le> l \<Longrightarrow> l \<le> ?d \<Longrightarrow> (unat i + 1) * 2 ^ l \<le> length L \<Longrightarrow> nd_get N (it_nodes t) l i = Some (node_at H L l (unat i))"
    using t unfolding inc_ok_def by blast+
  obtain g s' where g: "inc_levels N P ?c ?i [0..<?d] (path_node H L x 0) (is_frontier (it_state t)) ?s = Inr (g, s')" "length g = ?d"
      "\<forall>k < ?d. g ! k = (if even (length L div 2 ^ k) \<and> 2 ^ k dvd Suc (length L) then path_node H L x k else is_frontier (it_state t) ! k)"
      "\<forall>k j. nd_get N s' k j = (if 0 < k \<and> ?c \<le> k \<and> k \<le> ?d \<and> 2 ^ k dvd Suc (length L) \<and> j = drop_bit k ?i
         then Some (path_node H L x k) else nd_get N ?s k j)"
    using inc_levels_ok [OF laws tD(4) x tD(1,3), of 0 "is_frontier (it_state t)" ?c ?s] tD(5) by (auto simp: frontier_ok_def)
  have "(2 :: nat) ^ ?d \<le> 2 ^ 32" using tD(1) by (rule power_increasing) simp
  then have lt: "length L + 1 < 2 ^ 64" using room by simp
  then have c: "checked_add ?i 1 = Some (?i + 1)" "unat (?i + 1) = length L + 1" using tD(3) by (simp_all add: checked_add_def unat_word_ariths)
  have "g ! k = left_node H (L @ [x]) k" if k: "k < ?d" "odd (Suc (length L) div 2 ^ k)" for k
  proof (cases "even (length L div 2 ^ k)")
    case True
    then have "2 ^ k dvd Suc (length L)" using div_Suc_cases [of "length L" k] k(2) by auto
    then show ?thesis using g(3) k(1) True left_node_insert [OF k(2), of H x] by simp
  next
    case False
    then show ?thesis using g(3) k(1) left_node_insert [OF k(2), of H x] tD(5) by (simp add: frontier_ok_def)
  qed
  then have fr: "frontier_ok H ?d (L @ [x]) g" using g(2) by (simp add: frontier_ok_def)
  have nodes: "nd_get N s' l j = Some (node_at H (L @ [x]) l (unat j))"
    if l: "?c \<le> l" "l \<le> ?d" "(unat j + 1) * 2 ^ l \<le> length (L @ [x])" for l j
  proof (cases "(unat j + 1) * 2 ^ l \<le> length L")
    case True
    have old: "nd_get N (it_nodes t) l j = Some (node_at H (L @ [x]) l (unat j))"
      using tD(6) [OF l(1,2) True] node_at_append [OF True, of H "[x]"] by simp
    have "j \<noteq> drop_bit l ?i" if "2 ^ l dvd Suc (length L)"
    proof
      assume "j = drop_bit l ?i"
      then have "unat j = length L div 2 ^ l" using tD(3) by (simp add: unat_shift)
      then have "(unat j + 1) * 2 ^ l > length L" using dividend_less_div_times [of "2 ^ l" "length L"] by (simp add: algebra_simps)
      then show False using True by simp
    qed
    moreover have "\<not> (l = 0 \<and> j = ?i)" using True tD(3) by auto
    ultimately show ?thesis using g(4) old by (auto simp: get_set)
  next
    case False
    note cb = completed_block [of "unat j" l "length L"]
    have b: "2 ^ l dvd Suc (length L)" "length L div 2 ^ l = unat j" using cb l(3) False by simp_all
    have j: "j = drop_bit l ?i" by (rule word_unat_eq_iff [THEN iffD2]) (simp add: unat_shift tD(3) b(2))
    show ?thesis
    proof (cases "l = 0")
      case True
      then show ?thesis using g(4) l(1) j b(2) path_node_at [of H L x 0] by (simp add: get_set path_node_0)
    next
      case False
      then show ?thesis using g(4) l(1,2) b j path_node_at [of H L x l] by simp
    qed
  qed
  have sl: "\<not> it_sealed t"
  proof
    assume "it_sealed t"
    then have "unat ?i = 2 ^ ?d" using capacity_unat [OF tD(1)] by (simp add: it_sealed_def it_capacity_def capacity_def)
    then show False using room tD(3) by simp
  qed
  let ?t = "t\<lparr>it_nodes := s', it_state := \<lparr>is_size = ?i + 1, is_frontier = g\<rparr>\<rparr>"
  have "inc_append N P t x = Inr ?t"
    unfolding inc_append_def Let_def using g(1) c(1) sl by (simp add: path_node_0)
  moreover have "inc_ok H (L @ [x]) ?t"
    unfolding inc_ok_def using tD(1,2,4) x room fr nodes c(2) by (simp add: it_size_def)
  ultimately show ?thesis by (intro exI [of _ ?t]) simp
qed

lemma inc_value_ok:
  assumes laws: "sponge_laws P H" and t: "inc_ok H L t" and rd: "reads rd L"
  shows "l \<le> it_depth t \<Longrightarrow> unat i < 2 ^ (it_depth t - l) \<Longrightarrow> inc_value N P t rd l i = Inr (node_at H L l (unat i))"
proof (induction l arbitrary: i rule: less_induct)
  case (less l)
  let ?d = "it_depth t" and ?c = "it_chunk_level t" and ?m = "it_size t"
  have tD: "?d \<le> 32" "?c \<le> ?d" "unat ?m = length L" "list_all is_canonical L"
    "\<And>l i. ?c \<le> l \<Longrightarrow> l \<le> ?d \<Longrightarrow> (unat i + 1) * 2 ^ l \<le> length L \<Longrightarrow> nd_get N (it_nodes t) l i = Some (node_at H L l (unat i))"
    using t unfolding inc_ok_def by blast+
  have "(unat i + 1) * 2 ^ l \<le> 2 ^ (?d - l) * 2 ^ l" using less.prems(2) by (intro mult_right_mono) simp_all
  also have "\<dots> = 2 ^ ?d" using less.prems(1) by (simp flip: power_add)
  also have "\<dots> \<le> 2 ^ 32" using tD(1) by (rule power_increasing) simp
  finally have le: "(unat i + 1) * 2 ^ l \<le> 2 ^ 32" .
  note w = block_words [OF le]
  let ?B = "take (2 ^ l) (drop (unat i * 2 ^ l) L)"
  have z: "zero l = Inr (ZERO_HASHES ! l)" using less.prems(1) tD(1) by (simp add: zero_def)
  consider "length L \<le> unat i * 2 ^ l"
    | "unat i * 2 ^ l < length L" "(unat i + 1) * 2 ^ l \<le> length L" "?c \<le> l"
    | "unat i * 2 ^ l < length L" "\<not> ((unat i + 1) * 2 ^ l \<le> length L \<and> ?c \<le> l)" "l \<le> ?c"
    | "unat i * 2 ^ l < length L" "\<not> ((unat i + 1) * 2 ^ l \<le> length L \<and> ?c \<le> l)" "?c < l"
    by linarith
  then show ?case
  proof cases
    case 1
    then show ?thesis
      using node_at_empty [OF laws, of l L "unat i"] less.prems(1) tD(1,3) z by (subst inc_value.simps) (simp add: w Let_def)
  next
    case 2
    then show ?thesis
      using tD(5) [OF 2(3) less.prems(1) 2(2)] tD(3) by (subst inc_value.simps) (simp add: w Let_def)
  next
    case 3
    define last :: "128 word" where "last = (if push_bit l (ucast i :: 128 word) + 2 ^ l \<le> ucast ?m then push_bit l (ucast i) + 2 ^ l else ucast ?m)"
    have n: "unat (last - push_bit l (ucast i)) = min (2 ^ l) (length L - unat i * 2 ^ l)"
      using 3(1) tD(3) w(7) [of ?m] unfolding last_def by (auto simp: w(1-6) min_def)
    have "rd (ucast (push_bit l (ucast i :: 128 word))) (unat (last - push_bit l (ucast i))) = Inr ?B"
      using reads_block [OF rd, of "ucast (push_bit l (ucast i :: 128 word))" "2 ^ l"] 3(1) by (simp add: w n)
    moreover have "and_then (subtree P ?B l) (\<lambda>levels. and_then (index_list levels l) (\<lambda>top. index_list top 0)) = Inr (node_at H L l (unat i))"
      using subtree_top [OF laws list_all_take_drop(1) [OF list_all_take_drop(2) [OF tD(4)]], of l "2 ^ l" "unat i * 2 ^ l"]
        less.prems(1) tD(1) 3(1) by (simp add: node_at_def)
    ultimately show ?thesis
      using 3 tD(3) unfolding last_def by (subst inc_value.simps) (auto simp: w Let_def)
  next
    case 4
    then obtain m where m: "l = Suc m" by (cases l) auto
    then have "l - 1 = m" by simp
    have p: "2 ^ (?d - m) = (2 :: nat) * 2 ^ (?d - l)" using less.prems(1) m by (simp add: Suc_diff_Suc flip: power_Suc)
    have big: "2 * unat i + 1 < 2 ^ 64"
    proof -
      have "(unat i + 1) * 1 \<le> (unat i + 1) * 2 ^ l" by (rule mult_left_mono) simp_all
      then show ?thesis using le by simp
    qed
    note dw = double_words [OF big]
    have "inc_value N P t rd m (i * 2) = Inr (node_at H L m (2 * unat i))" "inc_value N P t rd m (i * 2 + 1) = Inr (node_at H L m (2 * unat i + 1))"
      using less.IH [of m "i * 2"] less.IH [of m "i * 2 + 1"] less.prems m p dw by simp_all
    moreover have "node P (node_at H L m (2 * unat i)) (node_at H L m (2 * unat i + 1)) = Inr (node_at H L l (unat i))"
      unfolding m node_at_Suc by (rule node_eq [OF laws node_at_canonical [OF laws tD(4)] node_at_canonical [OF laws tD(4)]])
    ultimately show ?thesis
      using 4 tD(3) big \<open>l - 1 = m\<close> by (subst inc_value.simps) (auto simp: w Let_def)
  qed
qed


lemma inc_root_ok:
  assumes "sponge_laws P H" "inc_ok H L t" "reads rd L"
  shows "inc_root N P t rd = Inr (merkle_root H (it_depth t) L)"
  using inc_value_ok [OF assms, of "it_depth t" 0] assms(2) node_at_top [of L "it_depth t" H]
  by (simp add: inc_root_def inc_ok_def)

text \<open>The witness of an index: the sibling of its block at every level.\<close>

lemma witness_ok:
  assumes laws: "sponge_laws P H" and t: "inc_ok H L t" and rd: "reads rd L" and i: "unat index < length L"
  shows "witness N P t rd index = Inr \<lparr>mp_root = merkle_root H (it_depth t) L, mp_siblings = sibling_nodes H L (unat index) (it_depth t)\<rparr>"
proof -
  let ?d = "it_depth t" and ?h = "it_chunk_level t" and ?i = "unat index"
  have tD: "?d \<le> 32" "?h \<le> ?d" "unat (it_size t) = length L" "length L \<le> 2 ^ ?d" "list_all is_canonical L"
    using t unfolding inc_ok_def by blast+
  have id: "?i < 2 ^ ?d" using i tD(4) by simp
  have "(?i div 2 ^ ?h + 1) * 2 ^ ?h \<le> 2 ^ (?d - ?h) * 2 ^ ?h" using div_pow_less [OF id tD(2)] by (intro mult_right_mono) simp_all
  also have "\<dots> = 2 ^ ?d" using tD(2) by (simp flip: power_add)
  also have "\<dots> \<le> 2 ^ 32" using tD(1) by (rule power_increasing) simp
  finally have le: "(?i div 2 ^ ?h + 1) * 2 ^ ?h \<le> 2 ^ 32" .
  let ?s = "push_bit ?h (drop_bit ?h index)"
  define B where "B = take (2 ^ ?h) (drop (?i div 2 ^ ?h * 2 ^ ?h) L)"
  have s: "unat ?s \<le> length L" using order.strict_trans1 [OF div_times_less_eq_dividend i] by (simp add: chunk_words less_imp_le)
  have read: "rd ?s (unat (min (ucast ?s + push_bit ?h (1 :: 128 word)) (ucast (it_size t)) - ucast ?s)) = Inr B"
    using chunk_span [OF _ le, of "it_size t"] reads_block [OF rd s, of "2 ^ ?h"] i tD(3) by (simp add: chunk_words B_def)
  have "list_all is_canonical B" unfolding B_def by (intro list_all_take_drop tD(5))
  then obtain rows where rows: "subtree P B ?h = Inr rows" "length rows = Suc ?h" "\<And>l. l \<le> ?h \<Longrightarrow> row_ok H B l (rows ! l)"
    using subtree_ok [OF laws, of B ?h] tD(1,2) by (metis order_trans)
  have low: "chunk_sibling rows (index - ?s) l = Inr (node_at H L l (sibling (?i div 2 ^ l)))" if l: "l < ?h" for l
  proof -
    let ?k = "?i mod 2 ^ ?h div 2 ^ l"
    have "sibling ?k < 2 ^ (?h - l)" using div_pow_less [of "?i mod 2 ^ ?h" ?h l] l by (intro sibling_less) simp_all
    then have "nth_or (ZERO_HASHES ! l) (rows ! l) (sibling ?k) = node_at H L l (sibling (?i div 2 ^ l))"
      using rows(3) [of l] node_at_block [of l ?h "sibling ?k" H "?i div 2 ^ ?h" L] sibling_block [OF l, of ?i] l
      by (simp add: row_ok_def B_def)
    then show ?thesis
      using l rows(2) tD(1,2) by (auto simp: chunk_sibling_def Let_def unat_sibling unat_shift chunk_words index_list_def nth_or_def zero_def)
  qed
  have high: "inc_value N P t rd l (drop_bit l index XOR 1) = Inr (node_at H L l (sibling (?i div 2 ^ l)))" if l: "l < ?d" for l
    using inc_value_ok [OF laws t rd, of l "drop_bit l index XOR 1"] sibling_less [OF div_pow_less [OF id, of l]] l
    by (simp add: unat_sibling unat_shift)
  have "[0..<?d] = [0..<?h] @ [?h..<?d]" using tD(2) upt_add_eq_append [of 0 ?h "?d - ?h"] by simp
  then have sib: "sibling_nodes H L ?i ?d = map (\<lambda>l. node_at H L l (sibling (?i div 2 ^ l))) [0..<?h] @ map (\<lambda>l. node_at H L l (sibling (?i div 2 ^ l))) [?h..<?d]"
    by (simp add: sibling_nodes_def)
  have "collect_results (chunk_sibling rows (index - ?s)) [0..<?h] = Inr (map (\<lambda>l. node_at H L l (sibling (?i div 2 ^ l))) [0..<?h])"
    "collect_results (\<lambda>l. inc_value N P t rd l (drop_bit l index XOR 1)) [?h..<?d] = Inr (map (\<lambda>l. node_at H L l (sibling (?i div 2 ^ l))) [?h..<?d])"
    using low high by (simp_all add: collect_results_Inr_iff list_all2_conv_all_nth)
  then show ?thesis
    using i tD(3) read rows(1) inc_root_ok [OF laws t rd, unfolded inc_root_def] sib
    by (simp add: witness_def Let_def word_less_nat_alt)
qed

text \<open>A tree with no leaf, and one built by appending.\<close>

lemma with_store_tree_ok:
  assumes "d \<le> 32"
  shows "\<exists>t. with_store_tree d c nodes None = Inr t \<and> inc_ok H [] t \<and> it_depth t = d \<and> it_chunk_level t = min c d"
  using assms by (simp add: with_store_tree_def MAX_TREE_DEPTH_def inc_ok_def it_size_def frontier_ok_def)

lemma append_all_ok:
  assumes laws: "sponge_laws P H"
  shows "inc_ok H L t \<Longrightarrow> list_all is_canonical M \<Longrightarrow> length L + length M \<le> 2 ^ it_depth t \<Longrightarrow>
    \<exists>t'. append_all N P M t = Inr t' \<and> inc_ok H (L @ M) t' \<and> it_depth t' = it_depth t"
proof (induction M arbitrary: L t)
  case (Cons x M)
  obtain t1 where t1: "inc_append N P t x = Inr t1" "inc_ok H (L @ [x]) t1" "it_depth t1 = it_depth t"
    using inc_append_ok [OF laws Cons.prems(1), of x] Cons.prems by auto
  then show ?case using Cons.IH [OF t1(2)] Cons.prems by auto
qed simp

end

interpretation memory: node_store memory_node_store
  by unfold_locales (simp add: memory_node_store_def)

section \<open>Hex\<close>

lemma of_hex_digit_char: "n < 16 \<Longrightarrow> (of_char (hex_digit_char n) :: nat) = (if n < 10 then 48 + n else 87 + n)"
  by (simp add: hex_digit_char_def)

lemma hex_digit_roundtrip [simp]: "n < 16 \<Longrightarrow> hex_digit_value (hex_digit_char n) = Some n"
  by (simp add: hex_digit_value_def of_hex_digit_char)

lemma hex_digit_plain [simp]: "n < 16 \<Longrightarrow> hex_digit_char n \<noteq> CHR ''+''"
  using of_hex_digit_char [of n] by (auto split: if_splits)

lemma byte_nibbles: "unat x div 16 < 16" "unat x mod 16 < 16" "word_of_nat (16 * (unat x div 16) + unat x mod 16) = x" for x :: byte
  using unsigned_less [of x, where 'a = nat] by (simp_all add: less_mult_imp_div_less)

lemma radix_pair_roundtrip [simp]: "radix_pair (hex_digit_char (unat x div 16)) (hex_digit_char (unat x mod 16)) = Some x"
  using byte_nibbles [of x] by (simp add: radix_pair_def)

lemma inside_char_digit [simp]: "n < 16 \<Longrightarrow> \<not> inside_char (hex_digit_char n # s)"
  by (simp add: inside_char_def of_hex_digit_char)

lemma inside_char_digits [simp]: "\<not> inside_char (hex_digits b)"
  using byte_nibbles by (cases b) (simp add: inside_char_def, simp)

lemma radix_pairs_hex: "radix_pairs (hex_digits b) = Inr (Some b)"
  using byte_nibbles by (induction b) simp_all

lemma length_hex_digits [simp]: "length (hex_digits b) = 2 * length b"
  by (induction b) simp_all

lemma parse32_hex: "length b = 32 \<Longrightarrow> parse32 (hex b) = Inr (Some b)"
  by (simp add: parse32_def hex_def radix_pairs_hex)

section \<open>Following a pool\<close>

fun leaf_event :: "pool_event \<Rightarrow> pool_insertion" where
  "leaf_event (LeafInserted account tree_id enrollment_id index leaf root) = \<lparr>pi_tree_id = tree_id, pi_index = index, pi_leaf = leaf\<rparr>"

fun ingest_all :: "sponge \<Rightarrow> pool_insertion list \<Rightarrow> witness_index \<Rightarrow> witness_index pool_result" where
  "ingest_all P [] x = Inr x"
| "ingest_all P (at # ats) x =
     and_then (ingest P x at) (\<lambda>(r, x'). case r of Inl e \<Rightarrow> Inl Trap | Inr _ \<Rightarrow> ingest_all P ats x')"

lemma ingest_all_append:
  "ingest_all P (xs @ ys) x = and_then (ingest_all P xs x) (ingest_all P ys)"
  by (induction xs arbitrary: x) (auto simp: and_then_def split: sum.splits prod.splits)

text \<open>The index in step with every insertion so far.\<close>

definition index_ok :: "(bytes list \<Rightarrow> bytes32) \<Rightarrow> bytes32 list \<Rightarrow> witness_index \<Rightarrow> bool" where
  "index_ok H ls x \<longleftrightarrow> wi_depth x \<le> 32 \<and> unat (wi_current x) = length ls div 2 ^ wi_depth x \<and>
     (\<forall>t. case wi_trees x t of
            Some tr \<Rightarrow> memory.inc_ok H (chunk (wi_depth x) ls t) tr \<and> it_depth tr = wi_depth x
          | None \<Rightarrow> chunk (wi_depth x) ls t = [])"

lemma new_index_ok: "d \<le> 32 \<Longrightarrow> index_ok H [] (new_index d c)"
  by (simp add: index_ok_def new_index_def chunk_def)

lemma ingest_ok:
  assumes laws: "sponge_laws P H" and x: "index_ok H ls x" and leaf: "is_canonical (pi_leaf at)"
    and at: "pi_tree_id at = wi_current x" "unat (pi_index at) = length ls mod 2 ^ wi_depth x"
    and next_id: "length ls mod 2 ^ wi_depth x + 1 = 2 ^ wi_depth x \<Longrightarrow> unat (wi_current x) + 1 < 2 ^ 32"
  shows "\<exists>x'. ingest P x at = Inr (Inr (), x') \<and> index_ok H (ls @ [pi_leaf at]) x' \<and> wi_depth x' = wi_depth x"
proof -
  let ?d = "wi_depth x" and ?t = "wi_current x" and ?L = "chunk (wi_depth x) ls (wi_current x)"
  have xD: "?d \<le> 32" "unat ?t = length ls div 2 ^ ?d"
    "\<And>t. case wi_trees x t of Some tr \<Rightarrow> memory.inc_ok H (chunk ?d ls t) tr \<and> it_depth tr = ?d | None \<Rightarrow> chunk ?d ls t = []"
    using x by (simp_all add: index_ok_def)
  note ch = chunk_append [OF xD(2)] chunk_other [OF xD(2)]
  obtain tr where tr: "(case wi_trees x ?t of Some t \<Rightarrow> Inr t | None \<Rightarrow> new_tree ?d (wi_chunk_level x)) = Inr tr"
      "memory.inc_ok H ?L tr" "it_depth tr = ?d"
    using xD(3) [of ?t] memory.with_store_tree_ok [OF xD(1), of "wi_chunk_level x" Map.empty H]
    by (cases "wi_trees x ?t") (auto simp: new_tree_def)
  have size: "unat (it_size tr) = length ls mod 2 ^ ?d" using tr(2) ch(2) by (simp add: memory.inc_ok_def)
  then have ix: "pi_index at = it_size tr" using at(2) by (simp add: word_unat_eq_iff)
  obtain tr' where tr': "inc_append memory_node_store P tr (pi_leaf at) = Inr tr'" "memory.inc_ok H (?L @ [pi_leaf at]) tr'" "it_depth tr' = ?d"
    using memory.inc_append_ok [OF laws tr(2) leaf] ch(2) tr(3) by auto
  have "unat (it_size tr') = length ls mod 2 ^ ?d + 1" using tr'(2) ch(2) by (simp add: memory.inc_ok_def)
  then have sl: "it_sealed tr' \<longleftrightarrow> length ls mod 2 ^ ?d + 1 = 2 ^ ?d"
    using capacity_unat [OF xD(1)] tr'(3) by (simp add: it_sealed_def it_capacity_def capacity_def word_unat_eq_iff)
  have trees: "case ((wi_trees x)(?t \<mapsto> tr')) u of
        Some tr \<Rightarrow> memory.inc_ok H (chunk ?d (ls @ [pi_leaf at]) u) tr \<and> it_depth tr = ?d
      | None \<Rightarrow> chunk ?d (ls @ [pi_leaf at]) u = []" for u
    using xD(3) [of u] tr'(2,3) by (cases "u = ?t"; cases "wi_trees x u") (simp_all add: ch)
  have len: "length (ls @ [pi_leaf at]) div 2 ^ ?d = (if it_sealed tr' then unat ?t + 1 else unat ?t)"
    using xD(2) sl div_Suc [of "length ls" "2 ^ ?d"] by (simp add: mod_Suc)
  let ?x = "x\<lparr>wi_trees := (wi_trees x)(?t \<mapsto> tr'), wi_current := (if it_sealed tr' then ?t + 1 else ?t)\<rparr>"
  have c: "it_sealed tr' \<Longrightarrow> checked_add ?t 1 = Some (?t + 1) \<and> unat (?t + 1) = unat ?t + 1"
    using sl next_id by (simp add: checked_add_def unat_word_ariths)
  have "ingest P x at = Inr (Inr (), ?x)"
    using c at(1) by (simp add: ingest_def tr(1) ix tr'(1) Let_def)
  moreover have "index_ok H (ls @ [pi_leaf at]) ?x"
  proof -
    have sel: "wi_depth ?x = ?d" "wi_trees ?x = (wi_trees x)(?t \<mapsto> tr')" "wi_current ?x = (if it_sealed tr' then ?t + 1 else ?t)" by simp_all
    show ?thesis unfolding index_ok_def sel using trees len c xD(1) by (auto simp del: fun_upd_apply)
  qed
  ultimately show ?thesis by auto
qed

lemma index_follows_pool:
  assumes laws: "xdr_laws xdr" "sponge_laws P H"
  shows "pool_reach xdr P h s \<Longrightarrow> \<exists>x. ingest_all P (map leaf_event (ps_events s)) (new_index TREE_DEPTH c) = Inr x \<and>
    index_ok H (history_leaves xdr H h) x \<and> wi_depth x = TREE_DEPTH"
proof (induction rule: pool_reach.induct)
  case pool_init
  show ?case using new_index_ok [of TREE_DEPTH H c] by (simp add: initial_pool_def history_leaves_def TREE_DEPTH_def new_index_def)
next
  case (pool_insert h s e a n k s')
  let ?ls = "history_leaves xdr H h" and ?l = "bound_leaf xdr H (a, n, k)"
  obtain x where x: "ingest_all P (map leaf_event (ps_events s)) (new_index TREE_DEPTH c) = Inr x" "index_ok H ?ls x" "wi_depth x = TREE_DEPTH"
    using pool_insert.IH by blast
  obtain at s1 where r: "is_canonical ?l" "append_leaf P TREE_DEPTH s ?l = Inr (at, s1)"
      "ps_events s' = ps_events s1 @ [LeafInserted a (in_tree_id at) n (in_index at) (in_leaf at) (in_root at)]"
    using rcv_insert_Inr [OF laws pool_insert.hyps(2-4)] by auto
  have d: "TREE_DEPTH \<le> 32" by (simp add: TREE_DEPTH_def)
  have pk: "pool_ok H TREE_DEPTH ?ls s" using pool_reach_ok [OF laws pool_insert.hyps(1)] by (simp add: history_ok_def)
  note ap = append_leaf_ok [OF laws(2) d pk r(1,2)]
  have at: "in_leaf at = ?l" "ps_events s1 = ps_events s"
    using r(2) by (auto simp: append_leaf_def Let_def result_simps split: if_splits)
  have cur: "wi_current x = current_tree s" using x(2,3) pk by (simp add: index_ok_def pool_ok_def word_unat_eq_iff)
  have "unat (current_tree s1) = Suc (length ?ls) div 2 ^ TREE_DEPTH" using ap(1) by (simp add: pool_ok_def)
  then have "unat (current_tree s) + 1 < 2 ^ 32" if "length ?ls mod 2 ^ TREE_DEPTH + 1 = 2 ^ TREE_DEPTH"
    using that pk unsigned_less [of "current_tree s1", where 'a = nat] div_Suc [of "length ?ls" "2 ^ TREE_DEPTH"]
    by (simp add: pool_ok_def mod_Suc)
  then obtain x' where x': "ingest P x \<lparr>pi_tree_id = in_tree_id at, pi_index = in_index at, pi_leaf = ?l\<rparr> = Inr (Inr (), x')"
      "index_ok H (?ls @ [?l]) x'" "wi_depth x' = TREE_DEPTH"
    using ingest_ok [OF laws(2) x(2), of "\<lparr>pi_tree_id = in_tree_id at, pi_index = in_index at, pi_leaf = ?l\<rparr>"] r(1) ap(2,3) cur x(3) by auto
  show ?case
    using x(1) x' by (simp add: r(3) at ingest_all_append history_leaves_def)
qed

section \<open>Properties\<close>

text \<open>
  The prover's trees agree with the reference: for at most \<open>2 ^ d\<close> canonical leaves the
  incremental tree is built, its root is the Merkle root of the padded leaves, and for every leaf
  the path read off the stored subtree roots has one sibling for each level and hashes with the
  leaf to that root.
\<close>

theorem prover_tree_matches_reference:
  assumes "sponge_laws P H" "d \<le> 32" "list_all is_canonical L" "length L \<le> 2 ^ d"
  shows "\<exists>x. leaf_tree_new P d L = Inr x \<and> leaf_tree_root P x = Inr (merkle_root H d L) \<and>
    (\<forall>i. unat i < length L \<longrightarrow> (\<exists>path. leaf_tree_path P x i = Inr path \<and> length path = d \<and>
       root_from_path P (L ! unat i) i path = Inr (merkle_root H d L)))"
proof -
  obtain t where t: "new_tree d (min CHUNK_LEVEL d) = Inr t" "memory.inc_ok H [] t" "it_depth t = d"
    using memory.with_store_tree_ok [OF assms(2), of "min CHUNK_LEVEL d" Map.empty H] by (auto simp: new_tree_def)
  obtain t' where t': "append_all memory_node_store P L t = Inr t'" "memory.inc_ok H L t'" "it_depth t' = d"
    using memory.append_all_ok [OF assms(1) t(2) assms(3)] assms(4) t(3) by auto
  note ok = assms(1) t'(2) reader_reads
  have "leaf_tree_path P \<lparr>lt_tree = t', lt_leaves = L\<rparr> i = Inr (sibling_nodes H L (unat i) d)" if "unat i < length L" for i
    using memory.witness_ok [OF ok that] t'(3) by (simp add: leaf_tree_path_def)
  then show ?thesis
    using memory.inc_root_ok [OF ok] root_from_siblings [OF assms(1,3,2,4)] t(1) t'(1,3)
    by (intro exI [of _ "\<lparr>lt_tree = t', lt_leaves = L\<rparr>"]) (simp add: leaf_tree_new_def leaf_tree_root_def sibling_nodes_def)
qed

text \<open>An instance: three leaves in a tree of depth two, the sponge of the demo pool.\<close>

theorem prover_tree_matches_reference_witness:
  "\<exists>x path. leaf_tree_new demo_sponge 2 [0, 1, 2] = Inr x \<and> leaf_tree_root demo_sponge x = Inr (merkle_root demo_hash 2 [0, 1, 2]) \<and>
     leaf_tree_path demo_sponge x 2 = Inr path \<and> length path = 2 \<and>
     root_from_path demo_sponge 2 2 path = Inr (merkle_root demo_hash 2 [0, 1, 2])"
proof -
  have "list_all is_canonical [0, 1, 2]" by (simp add: is_canonical_iff bn254_scalar_order_def)
  then show ?thesis
    using prover_tree_matches_reference [OF demo_sponge_laws, of 2 "[0, 1, 2]"] by (auto dest: spec [of _ "2 :: u64"])
qed

text \<open>The inputs of an enrolled member.\<close>

lemma nullifier_eq:
  assumes "sponge_laws P H" "is_canonical secret"
  shows "\<exists>nul. nullifier P (bytes32_to_array aid) n secret = (Inr nul :: bytes32 pool_result) \<and> is_canonical nul"
proof -
  obtain ah al nh nl where sp: "split_hi_lo (bytes32_to_array aid) = (ah, al)" "split_hi_lo (bytes32_to_array n) = (nh, nl)" by (metis surj_pair)
  have "is_canonical_field DOM_NULLIFIER" by (simp add: is_canonical_field_def DOM_NULLIFIER_def BN254_SCALAR_MODULUS_def)
  then have "list_all is_canonical_field [DOM_NULLIFIER, ah, al, nh, nl, bytes32_to_array secret]"
    using split_hi_lo_canonical [OF _ sp(1)] split_hi_lo_canonical [OF _ sp(2)] assms(2) by (simp add: is_canonical_def)
  then show ?thesis using sponge_lawsD(1,2) [OF assms(1)] by (simp add: nullifier_def sp hash_fields_def)
qed

lemma input_fields_eq:
  assumes "xdr_laws xdr" "st_account st = ContractId aid" "statement_digest sha xdr st = Inr digest"
  shows "statement_fields sha xdr st n = Inr (input_fields aid n digest)"
  using assms by (simp add: statement_fields_def input_fields_def contract_id_eq [OF assms(1)] split: prod.split)

lemma inputs_new_ok:
  assumes laws: "xdr_laws xdr" "sponge_laws P H" and secret: "is_canonical secret" "commitment P secret = (Inr c :: bytes32 pool_result)" "is_canonical c"
    and L: "list_all is_canonical L" "length L \<le> 2 ^ 32" "unat k < length L" "L ! unat k = bound_leaf xdr H (ContractId aid, n, c)"
    and st: "st_account st = ContractId aid" "statement_digest sha xdr st = Inr digest"
  shows "\<exists>i f. inputs_new P secret aid n digest k (sibling_nodes H L (unat k) 32) = Inr i \<and> ci_root i = merkle_root H 32 L \<and>
    is_canonical (ci_nullifier i) \<and> statement_fields sha xdr st n = Inr f \<and> ci_statement_hash i = H (auth_preimage f)"
proof -
  note f = input_fields_eq [OF laws(1) st, of n]
  obtain nul where nul: "nullifier P (bytes32_to_array aid) n secret = (Inr nul :: bytes32 pool_result)" "is_canonical nul" using nullifier_eq [OF laws(2) secret(1)] by blast
  have leaf: "leaf_hash P (bytes32_to_array aid) n c = Inr (L ! unat k)"
    using sponge_lawsD(1) [OF laws(2) leaf_fields_canonical [OF _ secret(3)], of "bytes32_to_array aid" n]
    by (simp add: L(4) leaf_hash_def hash_fields_def bound_leaf_def contract_id_eq [OF laws(1)])
  show ?thesis
    using f secret(2) leaf nul root_from_siblings [OF laws(2) L(1) _ L(2,3)]
    by (simp add: inputs_new_def statement_hash_eq [OF laws f])
qed

text \<open>
  C23. An enrolled member can always prove: after any history of a pool, the index that ingests the
  pool's events reports no gap; for the member of an enrollment its witness at the recorded
  position yields circuit inputs whose root the pool knows, and the adapter accepts the evidence
  made of them, provided the binding is the adapter's, and the proof system is complete for the
  inputs the prover builds with a full path of siblings and a leaf index inside the tree, which is
  the range the circuit accepts (\<open>prove\<close> stands for the external prover).
\<close>

theorem enrolled_member_can_prove:
  assumes "xdr_laws xdr" "sponge_laws P H" "pool_reach xdr P h s"
    and "(ContractId aid, n, c) \<in> set h" "is_canonical secret" "commitment P secret = (Inr c :: bytes32 pool_result)"
    and "st_account st = ContractId aid" "statement_digest (ae_sha256 e) xdr st = Inr digest"
    and "ae_xdr e = xdr" "ae_sponge e = P" "\<forall>t r. ae_known_root e (zb_pool b) t r = Some (is_known_root s t r)"
    and "zb_circuit_id b = circuit_id e" "zb_enrollment_id b = n" "ae_verifier e (ae_vk e) = Some v"
    and "\<forall>k sibs i. inputs_new P secret aid n digest k sibs = Inr i \<and> length sibs = CIRCUIT_DEPTH \<and> unat k < 2 ^ CIRCUIT_DEPTH \<longrightarrow>
           length (prove i) = PROOF_BYTES \<and> v (prove i) (inputs_public i)"
  shows "\<exists>pos x t w i. enrollment s (ContractId aid) n = Some pos \<and>
    ingest_all P (map leaf_event (ps_events s)) (new_index TREE_DEPTH CHUNK_LEVEL) = Inr x \<and>
    wi_trees x (lp_tree_id pos) = Some t \<and>
    witness memory_node_store P t (reader (chunk TREE_DEPTH (history_leaves xdr H h) (lp_tree_id pos))) (lp_index pos) = Inr w \<and>
    inputs_new P secret aid n digest (lp_index pos) (mp_siblings w) = Inr i \<and> ci_root i = mp_root w \<and>
    is_known_root s (lp_tree_id pos) (ci_root i) \<and>
    adapter_verify e st b \<lparr>ev_tree_id = lp_tree_id pos, ev_root = ci_root i, ev_nullifier = ci_nullifier i, ev_proof = prove i\<rparr> = Inr ()"
proof -
  let ?ls = "history_leaves xdr H h"
  note laws = assms(1,2)
  have ok: "history_ok xdr H h s" by (rule pool_reach_ok [OF assms(1-3)])
  then have pk: "pool_ok H TREE_DEPTH ?ls s" and c: "is_canonical c" using assms(4) by (auto simp: history_ok_def)
  obtain j where j: "j < length h" "rev h ! j = (ContractId aid, n, c)"
    using assms(4) in_set_conv_nth [of "(ContractId aid, n, c)" "rev h"] by auto
  then have pos: "enrollment s (ContractId aid) n = Some (position_of j)"
    using ok by (fastforce simp: history_ok_def enrollment_def)
  define t where "t = lp_tree_id (position_of j)"
  define k where "k = lp_index (position_of j)"
  define L where "L = chunk TREE_DEPTH ?ls t"
  have lf: "unat k < length L" "L ! unat k = bound_leaf xdr H (ContractId aid, n, c)"
    using position_leaf [OF pk, of j] j unfolding L_def t_def k_def by (simp_all add: history_leaves_def)
  obtain x where x: "ingest_all P (map leaf_event (ps_events s)) (new_index TREE_DEPTH CHUNK_LEVEL) = Inr x" "index_ok H ?ls x" "wi_depth x = TREE_DEPTH"
    using index_follows_pool [OF assms(1-3)] by blast
  have "case wi_trees x t of Some tr \<Rightarrow> memory.inc_ok H L tr \<and> it_depth tr = TREE_DEPTH | None \<Rightarrow> L = []"
    using x(2) unfolding index_ok_def x(3) L_def by blast
  then obtain tr where tr: "wi_trees x t = Some tr" "memory.inc_ok H L tr" "it_depth tr = TREE_DEPTH"
    using lf(1) by (cases "wi_trees x t") auto
  have w: "witness memory_node_store P tr (reader L) k = Inr \<lparr>mp_root = merkle_root H 32 L, mp_siblings = sibling_nodes H L (unat k) 32\<rparr>"
    using memory.witness_ok [OF laws(2) tr(2) reader_reads lf(1)] tr(3) by (simp add: TREE_DEPTH_def)
  have L: "list_all is_canonical L" "length L \<le> 2 ^ 32" using tr(2,3) by (simp_all add: memory.inc_ok_def TREE_DEPTH_def)
  obtain i f where i: "inputs_new P secret aid n digest k (sibling_nodes H L (unat k) 32) = Inr i" "ci_root i = merkle_root H 32 L"
      "is_canonical (ci_nullifier i)" "statement_fields (ae_sha256 e) xdr st n = Inr f" "ci_statement_hash i = H (auth_preimage f)"
    using inputs_new_ok [OF laws assms(5,6) c L lf assms(7,8)] by blast
  have known: "\<exists>m > 0. m \<le> length L \<and> ci_root i = merkle_root H 32 (take m L)" using lf(1) i(2) by (intro exI [of _ "length L"]) auto
  let ?ev = "\<lparr>ev_tree_id = t, ev_root = ci_root i, ev_nullifier = ci_nullifier i, ev_proof = prove i\<rparr>"
  have pr: "length (prove i) = PROOF_BYTES" "v (prove i) (inputs_public i)"
    using assms(15) [rule_format, of k "sibling_nodes H L (unat k) 32" i] i(1) lf(1) L(2) by (simp_all add: sibling_nodes_def CIRCUIT_DEPTH_def)
  have "adapter_verify e st b ?ev = Inr ()"
    using adapter_ok_iff [OF assms(1-3) assms(9-11), of st ?ev] known i(2-5) pr assms(12-14) merkle_root_canonical [OF laws(2) L(1), of 32]
    by (simp add: L_def TREE_DEPTH_def PROOF_BYTES_def inputs_public_def)
  moreover have "is_known_root s t (ci_root i)"
    using known known_root_iff [OF assms(1-3), of t "ci_root i"] by (simp add: L_def TREE_DEPTH_def)
  ultimately show ?thesis
    using pos x(1) tr(1) w i(1,2) unfolding L_def t_def k_def
    by (intro exI [of _ "position_of j"] exI [of _ x] exI [of _ tr] exI [of _ i]
        exI [of _ "\<lparr>mp_root = merkle_root H 32 L, mp_siblings = sibling_nodes H L (unat k) 32\<rparr>"] conjI)
       (simp_all add: L_def t_def k_def)
qed

text \<open>A secret of the demo pool: its commitment under the demo sponge is 7.\<close>

lemma demo_commitment: "commitment demo_sponge 9 = (Inr 7 :: bytes32 pool_result)"
proof -
  have "bytes32_to_array 9 ! 31 = 9" "DOM_LEAF ! 31 = 0xd6" by (simp_all add: bytes32_to_array_def be_bytes_def DOM_LEAF_def)
  then have "DOM_LEAF \<noteq> bytes32_to_array 9" by auto
  then have "find (\<lambda>l. [DOM_LEAF, bytes32_to_array 9] = [bytes32_to_array (ZERO_HASHES ! l), bytes32_to_array (ZERO_HASHES ! l)]) [0..<32] = None"
    unfolding find_None_iff by (metis list.inject)
  then show ?thesis unfolding commitment_def hash_fields_def demo_sponge_def demo_hash_def by simp
qed

text \<open>Witness of C23: the member of the demo pool with secret 9, and a verifier that accepts every proof.\<close>

theorem enrolled_member_can_prove_witness:
  "\<exists>s pos i. pool_reach demo_xdr demo_sponge [(ContractId 1, 5, 7)] s \<and> enrollment s (ContractId 1) 5 = Some pos \<and>
     adapter_verify (demo_adapter_env s) demo_statement demo_binding
       \<lparr>ev_tree_id = lp_tree_id pos, ev_root = ci_root (i :: circuit_inputs), ev_nullifier = ci_nullifier i, ev_proof = replicate PROOF_BYTES 0\<rparr> = Inr ()"
proof -
  have c: "is_canonical 7" "is_canonical 9" by (simp_all add: is_canonical_iff bn254_scalar_order_def)
  obtain s where s: "pool_reach demo_xdr demo_sponge [(ContractId 1, 5, 7)] s" using demo_pool_of [OF c(1)] by blast
  have st: "st_account demo_statement = ContractId 1" by (simp add: demo_statement_def)
  obtain digest where d: "statement_digest (ae_sha256 (demo_adapter_env s)) demo_xdr demo_statement = Inr digest"
    using demo_fields by (auto simp: statement_fields_def result_simps demo_adapter_env_def)
  have e: "ae_xdr (demo_adapter_env s) = demo_xdr" "ae_sponge (demo_adapter_env s) = demo_sponge"
    "\<forall>t r. ae_known_root (demo_adapter_env s) (zb_pool demo_binding) t r = Some (is_known_root s t r)"
    "zb_circuit_id demo_binding = circuit_id (demo_adapter_env s)" "zb_enrollment_id demo_binding = 5"
    "ae_verifier (demo_adapter_env s) (ae_vk (demo_adapter_env s)) = Some (\<lambda>_ _. True)"
    by (simp_all add: demo_adapter_env_def demo_binding_def circuit_id_def)
  have h: "(ContractId 1, 5, 7) \<in> set [(ContractId 1, 5, 7)]" by simp
  have "\<forall>k sibs i. inputs_new demo_sponge 9 1 5 digest k sibs = Inr i \<and> length sibs = CIRCUIT_DEPTH \<and> unat k < 2 ^ CIRCUIT_DEPTH \<longrightarrow>
      length ((\<lambda>_ :: circuit_inputs. replicate PROOF_BYTES (0 :: byte)) i) = PROOF_BYTES \<and> True" by simp
  from enrolled_member_can_prove [OF demo_xdr_laws demo_sponge_laws s h c(2) demo_commitment st d e this]
  obtain pos and i :: circuit_inputs where "enrollment s (ContractId 1) 5 = Some pos"
      "adapter_verify (demo_adapter_env s) demo_statement demo_binding
         \<lparr>ev_tree_id = lp_tree_id pos, ev_root = ci_root i, ev_nullifier = ci_nullifier i, ev_proof = replicate PROOF_BYTES 0\<rparr> = Inr ()"
    by blast
  then show ?thesis using s by blast
qed

end
