(* ===== verification/Account_Rules.thy ===== *)
theory Account_Rules
  imports Compiled_Doc "HOL-Library.Monad_Syntax"
begin

text \<open>
  Rule-set reconciliation of the smart account (\<open>crates/perch-smart-account/src/rules.rs\<close>): the
  records of the installed rules, the rules a compiled document asks for, the trait \<open>Effects\<close> with
  its two implementations, \<open>Meter\<close> (prices operations) and \<open>Apply\<close> (performs them through
  OpenZeppelin's account library), and the delta between records and document. OpenZeppelin's
  library is not part of the repository: its operations are the fields of \<open>oz\<close>, on a state \<open>'w\<close>
  that stands for everything outside the account's own entries. \<open>None\<close> is a trap, which reverts the
  whole invocation.
\<close>

section \<open>Records\<close>

text \<open>The values a policy is installed with: a program, a spending limit, a configuration hash.\<close>

datatype policy_param = PP_Install install_params | PP_Cap compiled_cap | PP_ConfigHash bytes32

record installed_policy =
  po_policy :: address
  po_params :: bytes32

record delta_summary =
  dl_rules_added :: u32
  dl_rules_removed :: u32
  dl_rules_edited :: u32
  dl_signers_added :: u32
  dl_signers_removed :: u32
  dl_policies_added :: u32
  dl_policies_removed :: u32

definition default_summary :: delta_summary where
  "default_summary =
     \<lparr>dl_rules_added = 0, dl_rules_removed = 0, dl_rules_edited = 0, dl_signers_added = 0,
      dl_signers_removed = 0, dl_policies_added = 0, dl_policies_removed = 0\<rparr>"

record installed_rule =
  ir_id :: u32
  ir_recovery :: bool
  ir_name :: string
  ir_context_type :: context_rule_type
  ir_valid_until :: "u32 option"
  ir_signers :: "signer list"
  ir_policies :: "installed_policy list"

definition same_slot :: "installed_rule \<Rightarrow> installed_rule \<Rightarrow> bool" where
  "same_slot a b \<longleftrightarrow> ir_recovery a = ir_recovery b \<and> (ir_recovery a \<or> ir_name a = ir_name b) \<and>
     ir_context_type a = ir_context_type b"

definition with_id :: "installed_rule \<Rightarrow> u32 \<Rightarrow> installed_rule" where
  "with_id r i = r\<lparr>ir_id := i\<rparr>"

text \<open>
  The account a reconciliation runs in: the ledger, its own address, the pinned contracts, SHA-256
  and the XDR of install parameters.
\<close>

record rules_env =
  re_now :: u32
  re_self :: address
  re_interpreter :: address
  re_spending_limit :: address
  re_sha256 :: "bytes \<Rightarrow> bytes32"
  re_param_xdr :: "policy_param \<Rightarrow> bytes"

definition admin_rule :: "rules_env \<Rightarrow> u32 \<Rightarrow> signer list \<Rightarrow> installed_rule" where
  "admin_rule e i signers =
     \<lparr>ir_id = i, ir_recovery = False, ir_name = ''admin'', ir_context_type = CR_CallContract (re_self e),
      ir_valid_until = None, ir_signers = signers, ir_policies = []\<rparr>"

section \<open>The rules a compiled document asks for\<close>

definition expired :: "rules_env \<Rightarrow> u32 option \<Rightarrow> bool" where
  "expired e valid_until = (case valid_until of None \<Rightarrow> False | Some v \<Rightarrow> v < re_now e)"

definition params_digest :: "rules_env \<Rightarrow> policy_param \<Rightarrow> bytes32" where
  "params_digest e v = re_sha256 e (re_param_xdr e v)"

definition document_rule :: "rules_env \<Rightarrow> compiled_rule \<Rightarrow> installed_rule \<times> policy_param list" where
  "document_rule e r =
     (let context_type = (case cr_scope r of RS_SelfAdmin \<Rightarrow> CR_CallContract (re_self e)
                                           | RS_Contract addr \<Rightarrow> CR_CallContract addr);
          program = (case cr_install r of [] \<Rightarrow> [] | p # _ \<Rightarrow> [(re_interpreter e, PP_Install p)]);
          cap = (case cr_cap r of [] \<Rightarrow> [] | c # _ \<Rightarrow> [(re_spending_limit e, PP_Cap c)]);
          attached = program @ cap
      in (\<lparr>ir_id = 0, ir_recovery = False, ir_name = cr_name r, ir_context_type = context_type,
           ir_valid_until = cr_valid_until r, ir_signers = cr_signers r,
           ir_policies = map (\<lambda>(p, v). \<lparr>po_policy = p, po_params = params_digest e v\<rparr>) attached\<rparr>,
          map snd attached))"

definition recovery_installed_rule :: "rules_env \<Rightarrow> compiled_recovery_config \<Rightarrow> installed_rule" where
  "recovery_installed_rule e c =
     \<lparr>ir_id = 0, ir_recovery = True, ir_name = ''recovery'', ir_context_type = CR_CallContract (re_self e),
      ir_valid_until = None, ir_signers = [],
      ir_policies = [\<lparr>po_policy = cc_controller c, po_params = params_digest e (PP_ConfigHash (cc_config_hash c))\<rparr>]\<rparr>"

definition desired :: "rules_env \<Rightarrow> compiled_doc \<Rightarrow> (installed_rule \<times> policy_param list) list" where
  "desired e compiled =
     [x \<leftarrow> map (document_rule e) (cd_rules compiled). \<not> expired e (ir_valid_until (fst x))] @
     (case cd_recovery compiled of
        [] \<Rightarrow> []
      | c # _ \<Rightarrow> [(recovery_installed_rule e c, [PP_ConfigHash (cc_config_hash c)])])"

section \<open>Costs and plans\<close>

datatype rules_mode = Mode_Cheapest | Mode_InPlace | Mode_Replace | Mode_FullReplace

record cost =
  co_events :: u32
  co_writes :: u32

definition default_cost :: cost where "default_cost = \<lparr>co_events = 0, co_writes = 0\<rparr>"

text \<open>\<open>derive(PartialOrd, Ord)\<close>: the fields in order.\<close>

definition cost_le :: "cost \<Rightarrow> cost \<Rightarrow> bool" where
  "cost_le a b \<longleftrightarrow> co_events a < co_events b \<or> co_events a = co_events b \<and> co_writes a \<le> co_writes b"

datatype rule_step = Step_Keep | Step_Remove | Step_Add | Step_InPlace | Step_Replace

record planned_rule =
  pn_name :: string
  pn_recovery :: bool
  pn_context_type :: context_rule_type
  pn_step :: rule_step
  pn_cost :: cost
  pn_editable :: bool
  pn_in_place :: cost
  pn_replace :: cost

definition planned :: "installed_rule \<Rightarrow> rule_step \<Rightarrow> cost \<Rightarrow> cost option \<Rightarrow> cost \<Rightarrow> planned_rule" where
  "planned r step c in_place replace =
     \<lparr>pn_name = ir_name r, pn_recovery = ir_recovery r, pn_context_type = ir_context_type r, pn_step = step,
      pn_cost = c, pn_editable = (in_place \<noteq> None),
      pn_in_place = (case in_place of None \<Rightarrow> default_cost | Some x \<Rightarrow> x), pn_replace = replace\<rparr>"

record hooks =
  hk_interpreter :: address
  hk_spending_limit :: address

section \<open>Effects\<close>

fun fold_option :: "('a \<Rightarrow> 's \<Rightarrow> 's option) \<Rightarrow> 'a list \<Rightarrow> 's \<Rightarrow> 's option" where
  "fold_option f [] s = Some s"
| "fold_option f (x # xs) s = do { s' \<leftarrow> f x s; fold_option f xs s' }"

definition missing :: "'a list \<Rightarrow> 'a list \<Rightarrow> 'a list" where
  "missing from other = [s \<leftarrow> from. s \<notin> set other]"

text \<open>The trait, on a state \<open>'f\<close> of the implementation.\<close>

record 'f effects =
  fx_reconcile_signers :: "installed_rule \<Rightarrow> signer list \<Rightarrow> 'f \<Rightarrow> 'f option"
  fx_add_policy :: "installed_rule \<Rightarrow> address \<Rightarrow> policy_param \<Rightarrow> 'f \<Rightarrow> 'f option"
  fx_remove_policy :: "installed_rule \<Rightarrow> address \<Rightarrow> 'f \<Rightarrow> 'f option"
  fx_set_valid_until :: "installed_rule \<Rightarrow> u32 option \<Rightarrow> 'f \<Rightarrow> 'f option"
  fx_remove_rule :: "installed_rule \<Rightarrow> 'f \<Rightarrow> 'f option"
  fx_add_rule :: "installed_rule \<Rightarrow> policy_param list \<Rightarrow> 'f \<Rightarrow> (u32 \<times> 'f) option"

definition unchanged :: "installed_rule \<Rightarrow> installed_rule \<Rightarrow> bool" where
  "unchanged c d \<longleftrightarrow> ir_signers c = ir_signers d \<and> list_all (\<lambda>p. p \<in> set (ir_policies d)) (ir_policies c) \<and>
     list_all (\<lambda>p. p \<in> set (ir_policies c)) (ir_policies d) \<and> ir_valid_until c = ir_valid_until d"

text \<open>The policies to add with their parameters; indexing the parameters past their end traps.\<close>

fun policies_to_add :: "installed_policy list \<Rightarrow> installed_policy list \<Rightarrow> policy_param list
    \<Rightarrow> (address \<times> policy_param) list option" where
  "policies_to_add cs [] params = Some []"
| "policies_to_add cs (p # ds) params =
     (if p \<in> set cs then policies_to_add cs ds (drop 1 params)
      else case params of
             [] \<Rightarrow> None
           | v # params' \<Rightarrow> map_option (Cons (po_policy p, v)) (policies_to_add cs ds params'))"

text \<open>OpenZeppelin's limit on the policies of a rule (\<open>docs/recovery/spec.md\<close>, section 7.5).\<close>

definition MAX_POLICIES :: nat where "MAX_POLICIES = 5"

definition edit :: "'f effects \<Rightarrow> installed_rule \<Rightarrow> installed_rule \<Rightarrow> policy_param list \<Rightarrow> 'f \<Rightarrow> (bool \<times> 'f) option" where
  "edit fx c d params f = do {
     let remove_signers = missing (ir_signers c) (ir_signers d);
     let remove_policies = map po_policy (missing (ir_policies c) (ir_policies d));
     add_policies \<leftarrow> policies_to_add (ir_policies c) (ir_policies d) params;
     let fresh = [pv \<leftarrow> add_policies. \<not> list_ex (\<lambda>q. po_policy q = fst pv) (ir_policies c)];
     let kept = (length (ir_signers c) - length remove_signers) + (length (ir_policies c) - length remove_policies);
     let signers_change = (ir_signers c \<noteq> ir_signers d);
     let swap = (\<lambda>f. if signers_change then fx_reconcile_signers fx c (ir_signers d) f else Some f);
     let removals = fold_option (fx_remove_policy fx c) remove_policies;
     let additions = fold_option (\<lambda>(p, v). fx_add_policy fx c p v);
     let expiry = (\<lambda>f. if ir_valid_until c \<noteq> ir_valid_until d then fx_set_valid_until fx c (ir_valid_until d) f else Some f);
     if ir_signers d \<noteq> [] then do {
       f1 \<leftarrow> swap f; f2 \<leftarrow> removals f1; f3 \<leftarrow> additions add_policies f2; f4 \<leftarrow> expiry f3; Some (True, f4) }
     else if ir_signers c \<noteq> [] \<or> kept > 0 then do {
       f1 \<leftarrow> removals f; f2 \<leftarrow> additions add_policies f1; f3 \<leftarrow> swap f2; f4 \<leftarrow> expiry f3; Some (True, f4) }
     else if fresh \<noteq> [] \<and> length (ir_policies c) + length fresh \<le> MAX_POLICIES then do {
       f1 \<leftarrow> additions fresh f; f2 \<leftarrow> removals f1;
       f3 \<leftarrow> additions [pv \<leftarrow> add_policies. \<not> list_ex (\<lambda>q. fst q = fst pv) fresh] f2;
       f4 \<leftarrow> expiry f3; Some (True, f4) }
     else Some (False, f) }"

definition replace_rule :: "'f effects \<Rightarrow> installed_rule \<Rightarrow> installed_rule \<Rightarrow> policy_param list \<Rightarrow> 'f \<Rightarrow> (u32 \<times> 'f) option"
  where
  "replace_rule fx c d params f = do { f1 \<leftarrow> fx_remove_rule fx c f; fx_add_rule fx d params f1 }"

section \<open>Meter\<close>

record refs =
  rf_signers :: "signer \<rightharpoonup> u32"
  rf_policies :: "address \<rightharpoonup> u32"

record meter =
  mt_refs :: refs
  mt_cost :: cost

definition count_of :: "('a \<rightharpoonup> u32) \<Rightarrow> 'a \<Rightarrow> u32" where
  "count_of m x = (case m x of None \<Rightarrow> 0 | Some n \<Rightarrow> n)"

definition add_ref :: "'a \<Rightarrow> ('a \<rightharpoonup> u32) \<Rightarrow> ('a \<rightharpoonup> u32) option" where
  "add_ref x m = do { n \<leftarrow> checked_add (count_of m x) 1; Some (m(x \<mapsto> n)) }"

definition refs_of_rule :: "installed_rule \<Rightarrow> refs \<Rightarrow> refs option" where
  "refs_of_rule r refs = do {
     s \<leftarrow> fold_option add_ref (ir_signers r) (rf_signers refs);
     p \<leftarrow> fold_option add_ref (map po_policy (ir_policies r)) (rf_policies refs);
     Some \<lparr>rf_signers = s, rf_policies = p\<rparr> }"

definition refs_of :: "installed_rule list \<Rightarrow> refs option" where
  "refs_of rules = fold_option refs_of_rule rules \<lparr>rf_signers = Map.empty, rf_policies = Map.empty\<rparr>"

definition new_meter :: "refs \<Rightarrow> meter" where
  "new_meter refs = \<lparr>mt_refs = refs, mt_cost = default_cost\<rparr>"

definition meter_write :: "meter \<Rightarrow> meter option" where
  "meter_write m = do { w \<leftarrow> checked_add (co_writes (mt_cost m)) 1; Some (m\<lparr>mt_cost := (mt_cost m)\<lparr>co_writes := w\<rparr>\<rparr>) }"

definition register_signer :: "signer \<Rightarrow> meter \<Rightarrow> meter option" where
  "register_signer s m = do {
     let n = count_of (rf_signers (mt_refs m)) s;
     m1 \<leftarrow> meter_write m;
     m2 \<leftarrow> (if n = 0 then meter_write m1 else Some m1);
     n' \<leftarrow> checked_add n 1;
     Some (m2\<lparr>mt_refs := (mt_refs m2)\<lparr>rf_signers := (rf_signers (mt_refs m2))(s \<mapsto> n')\<rparr>\<rparr>) }"

definition deregister_signer :: "signer \<Rightarrow> meter \<Rightarrow> meter option" where
  "deregister_signer s m = do {
     let n = count_of (rf_signers (mt_refs m)) s;
     m1 \<leftarrow> meter_write m;
     if n \<le> 1 then do {
       m2 \<leftarrow> meter_write m1;
       Some (m2\<lparr>mt_refs := (mt_refs m2)\<lparr>rf_signers := (rf_signers (mt_refs m2))(s := None)\<rparr>\<rparr>) }
     else Some (m1\<lparr>mt_refs := (mt_refs m1)\<lparr>rf_signers := (rf_signers (mt_refs m1))(s \<mapsto> n - 1)\<rparr>\<rparr>) }"

definition register_policy :: "address \<Rightarrow> meter \<Rightarrow> meter option" where
  "register_policy p m = do {
     let n = count_of (rf_policies (mt_refs m)) p;
     m1 \<leftarrow> meter_write m;
     m2 \<leftarrow> (if n = 0 then meter_write m1 else Some m1);
     n' \<leftarrow> checked_add n 1;
     Some (m2\<lparr>mt_refs := (mt_refs m2)\<lparr>rf_policies := (rf_policies (mt_refs m2))(p \<mapsto> n')\<rparr>\<rparr>) }"

definition deregister_policy :: "address \<Rightarrow> meter \<Rightarrow> meter option" where
  "deregister_policy p m = do {
     let n = count_of (rf_policies (mt_refs m)) p;
     m1 \<leftarrow> meter_write m;
     if n \<le> 1 then do {
       m2 \<leftarrow> meter_write m1;
       Some (m2\<lparr>mt_refs := (mt_refs m2)\<lparr>rf_policies := (rf_policies (mt_refs m2))(p := None)\<rparr>\<rparr>) }
     else Some (m1\<lparr>mt_refs := (mt_refs m1)\<lparr>rf_policies := (rf_policies (mt_refs m1))(p \<mapsto> n - 1)\<rparr>\<rparr>) }"

definition meter_hook :: "hooks \<Rightarrow> address \<Rightarrow> meter \<Rightarrow> meter option" where
  "meter_hook h p m = (if p = hk_spending_limit h \<or> p = hk_interpreter h then meter_write m else Some m)"

definition meter_reconcile_signers :: "installed_rule \<Rightarrow> signer list \<Rightarrow> meter \<Rightarrow> meter option" where
  "meter_reconcile_signers r signers m = do {
     m1 \<leftarrow> meter_write m;
     m2 \<leftarrow> fold_option deregister_signer (missing (ir_signers r) signers) m1;
     fold_option register_signer (missing signers (ir_signers r)) m2 }"

definition meter_add_policy :: "hooks \<Rightarrow> address \<Rightarrow> meter \<Rightarrow> meter option" where
  "meter_add_policy h p m = do { m1 \<leftarrow> meter_write m; m2 \<leftarrow> register_policy p m1; meter_hook h p m2 }"

definition meter_remove_policy :: "hooks \<Rightarrow> address \<Rightarrow> meter \<Rightarrow> meter option" where
  "meter_remove_policy h p m = do { m1 \<leftarrow> meter_write m; m2 \<leftarrow> meter_hook h p m1; deregister_policy p m2 }"

definition meter_remove_rule :: "hooks \<Rightarrow> installed_rule \<Rightarrow> meter \<Rightarrow> meter option" where
  "meter_remove_rule h r m = do {
     m1 \<leftarrow> fold_option (\<lambda>p m. do { m' \<leftarrow> meter_hook h (po_policy p) m; deregister_policy (po_policy p) m' }) (ir_policies r) m;
     m2 \<leftarrow> fold_option deregister_signer (ir_signers r) m1;
     meter_write m2 }"

definition meter_add_rule :: "hooks \<Rightarrow> installed_rule \<Rightarrow> meter \<Rightarrow> (u32 \<times> meter) option" where
  "meter_add_rule h r m = do {
     m1 \<leftarrow> fold_option register_signer (ir_signers r) m;
     m2 \<leftarrow> fold_option (\<lambda>p m. do { m' \<leftarrow> register_policy (po_policy p) m; meter_hook h (po_policy p) m' }) (ir_policies r) m1;
     m3 \<leftarrow> meter_write m2;
     Some (0, m3) }"

definition meter_effects :: "hooks \<Rightarrow> meter effects" where
  "meter_effects h =
     \<lparr>fx_reconcile_signers = meter_reconcile_signers, fx_add_policy = (\<lambda>_ p _. meter_add_policy h p),
      fx_remove_policy = (\<lambda>_. meter_remove_policy h), fx_set_valid_until = (\<lambda>_ _. meter_write),
      fx_remove_rule = meter_remove_rule h, fx_add_rule = (\<lambda>r _. meter_add_rule h r)\<rparr>"

section \<open>Apply\<close>

text \<open>OpenZeppelin's context rule and the quiet operations of its account library.\<close>

record oz_rule =
  oz_id :: u32
  oz_policies :: "address list"
  oz_policy_ids :: "u32 list"

record 'w oz =
  oz_get_context_rule :: "'w \<Rightarrow> u32 \<Rightarrow> oz_rule option"
  oz_add_context_rule :: "context_rule_type \<Rightarrow> string \<Rightarrow> u32 option \<Rightarrow> signer list \<Rightarrow> (address \<rightharpoonup> policy_param) \<Rightarrow> 'w
    \<Rightarrow> (u32 \<times> 'w) option"
  oz_remove_context_rule :: "u32 \<Rightarrow> 'w \<Rightarrow> 'w option"
  oz_reconcile_signers :: "u32 \<Rightarrow> signer list \<Rightarrow> 'w \<Rightarrow> 'w option"
  oz_add_policy :: "u32 \<Rightarrow> address \<Rightarrow> policy_param \<Rightarrow> 'w \<Rightarrow> 'w option"
  oz_remove_policy :: "u32 \<Rightarrow> u32 \<Rightarrow> 'w \<Rightarrow> 'w option"
  oz_update_valid_until :: "u32 \<Rightarrow> u32 option \<Rightarrow> 'w \<Rightarrow> 'w option"

record 'w apply_state =
  ap_world :: 'w
  ap_sum :: delta_summary
  ap_rule :: "oz_rule option"

text \<open>\<open>Apply::oz\<close>: the rule being edited, read before its first removal.\<close>

definition apply_oz :: "'w oz \<Rightarrow> u32 \<Rightarrow> 'w apply_state \<Rightarrow> (oz_rule \<times> 'w apply_state) option" where
  "apply_oz Z i a =
     (case ap_rule a of
        Some r \<Rightarrow> if oz_id r = i then Some (r, a)
                  else do { r' \<leftarrow> oz_get_context_rule Z (ap_world a) i; Some (r', a\<lparr>ap_rule := Some r'\<rparr>) }
      | None \<Rightarrow> do { r' \<leftarrow> oz_get_context_rule Z (ap_world a) i; Some (r', a\<lparr>ap_rule := Some r'\<rparr>) })"

fun first_index_of :: "'a list \<Rightarrow> 'a \<Rightarrow> nat option" where
  "first_index_of [] x = None"
| "first_index_of (y # ys) x = (if y = x then Some 0 else map_option Suc (first_index_of ys x))"

definition apply_reconcile_signers :: "'w oz \<Rightarrow> installed_rule \<Rightarrow> signer list \<Rightarrow> 'w apply_state \<Rightarrow> 'w apply_state option"
  where
  "apply_reconcile_signers Z r signers a = do {
     added \<leftarrow> checked_add (dl_signers_added (ap_sum a)) (word_of_nat (length (missing signers (ir_signers r))));
     removed \<leftarrow> checked_add (dl_signers_removed (ap_sum a)) (word_of_nat (length (missing (ir_signers r) signers)));
     w \<leftarrow> oz_reconcile_signers Z (ir_id r) signers (ap_world a);
     Some (a\<lparr>ap_world := w, ap_sum := (ap_sum a)\<lparr>dl_signers_added := added, dl_signers_removed := removed\<rparr>\<rparr>) }"

definition apply_add_policy :: "'w oz \<Rightarrow> installed_rule \<Rightarrow> address \<Rightarrow> policy_param \<Rightarrow> 'w apply_state \<Rightarrow> 'w apply_state option"
  where
  "apply_add_policy Z r p v a = do {
     w \<leftarrow> oz_add_policy Z (ir_id r) p v (ap_world a);
     n \<leftarrow> checked_add (dl_policies_added (ap_sum a)) 1;
     Some (a\<lparr>ap_world := w, ap_sum := (ap_sum a)\<lparr>dl_policies_added := n\<rparr>\<rparr>) }"

definition apply_remove_policy :: "'w oz \<Rightarrow> installed_rule \<Rightarrow> address \<Rightarrow> 'w apply_state \<Rightarrow> 'w apply_state option" where
  "apply_remove_policy Z r p a = do {
     (rl, a1) \<leftarrow> apply_oz Z (ir_id r) a;
     i \<leftarrow> first_index_of (oz_policies rl) p;
     k \<leftarrow> (if i < length (oz_policy_ids rl) then Some (oz_policy_ids rl ! i) else None);
     w \<leftarrow> oz_remove_policy Z (ir_id r) k (ap_world a1);
     n \<leftarrow> checked_add (dl_policies_removed (ap_sum a1)) 1;
     Some (a1\<lparr>ap_world := w, ap_sum := (ap_sum a1)\<lparr>dl_policies_removed := n\<rparr>\<rparr>) }"

definition apply_set_valid_until :: "'w oz \<Rightarrow> installed_rule \<Rightarrow> u32 option \<Rightarrow> 'w apply_state \<Rightarrow> 'w apply_state option"
  where
  "apply_set_valid_until Z r vu a = do {
     w \<leftarrow> oz_update_valid_until Z (ir_id r) vu (ap_world a); Some (a\<lparr>ap_world := w\<rparr>) }"

definition apply_remove_rule :: "'w oz \<Rightarrow> installed_rule \<Rightarrow> 'w apply_state \<Rightarrow> 'w apply_state option" where
  "apply_remove_rule Z r a = do {
     w \<leftarrow> oz_remove_context_rule Z (ir_id r) (ap_world a);
     n \<leftarrow> checked_add (dl_rules_removed (ap_sum a)) 1;
     Some (a\<lparr>ap_world := w, ap_sum := (ap_sum a)\<lparr>dl_rules_removed := n\<rparr>\<rparr>) }"

fun collect_policies :: "installed_policy list \<Rightarrow> policy_param list \<Rightarrow> (address \<rightharpoonup> policy_param)
    \<Rightarrow> (address \<rightharpoonup> policy_param) option" where
  "collect_policies [] params m = Some m"
| "collect_policies (p # ps) [] m = None"
| "collect_policies (p # ps) (v # params) m = collect_policies ps params (m(po_policy p \<mapsto> v))"

definition apply_add_rule :: "'w oz \<Rightarrow> installed_rule \<Rightarrow> policy_param list \<Rightarrow> 'w apply_state \<Rightarrow> (u32 \<times> 'w apply_state) option"
  where
  "apply_add_rule Z r params a = do {
     policies \<leftarrow> collect_policies (ir_policies r) params Map.empty;
     n \<leftarrow> checked_add (dl_rules_added (ap_sum a)) 1;
     (i, w) \<leftarrow> oz_add_context_rule Z (ir_context_type r) (ir_name r) (ir_valid_until r) (ir_signers r) policies (ap_world a);
     Some (i, a\<lparr>ap_world := w, ap_sum := (ap_sum a)\<lparr>dl_rules_added := n\<rparr>\<rparr>) }"

definition apply_effects :: "'w oz \<Rightarrow> 'w apply_state effects" where
  "apply_effects Z =
     \<lparr>fx_reconcile_signers = apply_reconcile_signers Z, fx_add_policy = apply_add_policy Z,
      fx_remove_policy = apply_remove_policy Z, fx_set_valid_until = apply_set_valid_until Z,
      fx_remove_rule = apply_remove_rule Z, fx_add_rule = apply_add_rule Z\<rparr>"

section \<open>The delta\<close>

record 'w run_state =
  rn_refs :: refs
  rn_apply :: "'w apply_state"
  rn_planned :: "planned_rule list"
  rn_next :: "installed_rule list"

text \<open>\<open>live\<close> is a run without \<open>dry_run\<close>; only a dry run records the plan.\<close>

definition record_step :: "bool \<Rightarrow> planned_rule \<Rightarrow> 'w run_state \<Rightarrow> 'w run_state" where
  "record_step live x s = (if live then s else s\<lparr>rn_planned := rn_planned s @ [x]\<rparr>)"

definition run_remove :: "hooks \<Rightarrow> 'w oz \<Rightarrow> bool \<Rightarrow> installed_rule list \<Rightarrow> installed_rule \<Rightarrow> 'w run_state
    \<Rightarrow> 'w run_state option" where
  "run_remove h Z live ds c s =
     (if list_ex (same_slot c) ds then Some s
      else do {
        m \<leftarrow> meter_remove_rule h c (new_meter (rn_refs s));
        let s1 = record_step live (planned c Step_Remove (mt_cost m) None default_cost) (s\<lparr>rn_refs := mt_refs m\<rparr>);
        if live then do { a \<leftarrow> apply_remove_rule Z c (rn_apply s1); Some (s1\<lparr>rn_apply := a\<rparr>) } else Some s1 })"

definition push_next :: "installed_rule \<Rightarrow> u32 \<Rightarrow> 'w run_state \<Rightarrow> 'w run_state" where
  "push_next d i s = s\<lparr>rn_next := rn_next s @ [with_id d i]\<rparr>"

definition run_add :: "hooks \<Rightarrow> 'w oz \<Rightarrow> bool \<Rightarrow> installed_rule \<Rightarrow> policy_param list \<Rightarrow> 'w run_state \<Rightarrow> 'w run_state option"
  where
  "run_add h Z live d p s = do {
     (_, m) \<leftarrow> meter_add_rule h d (new_meter (rn_refs s));
     let s1 = record_step live (planned d Step_Add (mt_cost m) None default_cost) (s\<lparr>rn_refs := mt_refs m\<rparr>);
     if live then do { (i, a) \<leftarrow> apply_add_rule Z d p (rn_apply s1); Some (push_next d i (s1\<lparr>rn_apply := a\<rparr>)) }
     else Some (push_next d 0 s1) }"

definition run_changed :: "hooks \<Rightarrow> 'w oz \<Rightarrow> rules_mode \<Rightarrow> bool \<Rightarrow> installed_rule \<Rightarrow> installed_rule \<Rightarrow> policy_param list
    \<Rightarrow> 'w run_state \<Rightarrow> 'w run_state option" where
  "run_changed h Z mode live c d p s = do {
     (editable, edited) \<leftarrow> edit (meter_effects h) c d p (new_meter (rn_refs s));
     (_, replaced) \<leftarrow> replace_rule (meter_effects h) c d p (new_meter (rn_refs s));
     let in_place = (editable \<and> (case mode of Mode_Cheapest \<Rightarrow> cost_le (mt_cost edited) (mt_cost replaced)
                                            | Mode_InPlace \<Rightarrow> True | _ \<Rightarrow> False));
     let offered = (if editable then Some (mt_cost edited) else None);
     if in_place then do {
       let s1 = record_step live (planned d Step_InPlace (mt_cost edited) offered (mt_cost replaced)) (s\<lparr>rn_refs := mt_refs edited\<rparr>);
       if live then do {
         (_, a) \<leftarrow> edit (apply_effects Z) c d p (rn_apply s1);
         n \<leftarrow> checked_add (dl_rules_edited (ap_sum a)) 1;
         Some (push_next d (ir_id c) (s1\<lparr>rn_apply := a\<lparr>ap_sum := (ap_sum a)\<lparr>dl_rules_edited := n\<rparr>\<rparr>\<rparr>)) }
       else Some (push_next d (ir_id c) s1) }
     else do {
       let s1 = record_step live (planned d Step_Replace (mt_cost replaced) offered (mt_cost replaced)) (s\<lparr>rn_refs := mt_refs replaced\<rparr>);
       if live then do { (i, a) \<leftarrow> replace_rule (apply_effects Z) c d p (rn_apply s1); Some (push_next d i (s1\<lparr>rn_apply := a\<rparr>)) }
       else Some (push_next d 0 s1) } }"

definition run_rule :: "hooks \<Rightarrow> 'w oz \<Rightarrow> rules_mode \<Rightarrow> bool \<Rightarrow> installed_rule list \<Rightarrow> installed_rule \<times> policy_param list
    \<Rightarrow> 'w run_state \<Rightarrow> 'w run_state option" where
  "run_rule h Z mode live current dp s =
     (case dp of (d, p) \<Rightarrow>
        case find (\<lambda>c. same_slot c d) current of
          None \<Rightarrow> run_add h Z live d p s
        | Some c \<Rightarrow>
            if unchanged c d
            then Some (push_next d (ir_id c) (record_step live (planned d Step_Keep default_cost None default_cost) s))
            else run_changed h Z mode live c d p s)"

text \<open>The rules come paired with their parameters, which \<open>desired\<close> keeps aligned.\<close>

definition run_rules :: "rules_env \<Rightarrow> 'w oz \<Rightarrow> installed_rule list \<Rightarrow> (installed_rule \<times> policy_param list) list
    \<Rightarrow> rules_mode \<Rightarrow> bool \<Rightarrow> 'w \<Rightarrow> 'w run_state option" where
  "run_rules e Z current ds mode live w = do {
     let h = \<lparr>hk_interpreter = re_interpreter e, hk_spending_limit = re_spending_limit e\<rparr>;
     refs \<leftarrow> refs_of current;
     let s = \<lparr>rn_refs = refs, rn_apply = \<lparr>ap_world = w, ap_sum = default_summary, ap_rule = None\<rparr>, rn_planned = [], rn_next = []\<rparr>;
     s1 \<leftarrow> fold_option (run_remove h Z live (map fst ds)) current s;
     fold_option (run_rule h Z mode live current) ds s1 }"

fun add_all :: "'w oz \<Rightarrow> (installed_rule \<times> policy_param list) list \<Rightarrow> installed_rule list \<Rightarrow> 'w apply_state
    \<Rightarrow> (installed_rule list \<times> 'w apply_state) option" where
  "add_all Z [] next a = Some (next, a)"
| "add_all Z ((d, p) # ds) next a = do {
     (i, a') \<leftarrow> apply_add_rule Z d p a; add_all Z ds (next @ [with_id d i]) a' }"

definition replace_all :: "'w oz \<Rightarrow> installed_rule list \<Rightarrow> (installed_rule \<times> policy_param list) list \<Rightarrow> 'w
    \<Rightarrow> (installed_rule list \<times> 'w apply_state) option" where
  "replace_all Z current ds w = do {
     a \<leftarrow> fold_option (apply_remove_rule Z) current \<lparr>ap_world = w, ap_sum = default_summary, ap_rule = None\<rparr>;
     add_all Z ds [] a }"

definition reconcile :: "rules_env \<Rightarrow> 'w oz \<Rightarrow> installed_rule list \<Rightarrow> (installed_rule \<times> policy_param list) list
    \<Rightarrow> rules_mode \<Rightarrow> 'w \<Rightarrow> (installed_rule list \<times> delta_summary \<times> 'w) option" where
  "reconcile e Z current ds mode w =
     (if mode = Mode_FullReplace
      then do { (next, a) \<leftarrow> replace_all Z current ds w; Some (next, ap_sum a, ap_world a) }
      else do { s \<leftarrow> run_rules e Z current ds mode True w;
                Some (rn_next s, ap_sum (rn_apply s), ap_world (rn_apply s)) })"

definition plan_rules :: "rules_env \<Rightarrow> 'w oz \<Rightarrow> installed_rule list \<Rightarrow> (installed_rule \<times> policy_param list) list
    \<Rightarrow> rules_mode \<Rightarrow> 'w \<Rightarrow> planned_rule list option" where
  "plan_rules e Z current ds mode w = do { s \<leftarrow> run_rules e Z current ds mode False w; Some (rn_planned s) }"

end
