(* ===== verification/Account_Delta.thy ===== *)
theory Account_Delta
  imports Account_Rules
begin

text \<open>
  The delta of \<open>Account_Rules\<close> against its specification. The locale \<open>rule_editor\<close> is the contract
  of the trait \<open>Effects\<close> that \<open>edit\<close> relies on, stated on the shape of the rule being edited; the
  meter provides it, and so does \<open>Apply\<close> whenever OpenZeppelin's operations do what their
  documentation says (\<open>oz_laws\<close>). The lemmas show that a reconciliation leaves exactly the rules the
  document asks for, as a full replacement would.
\<close>

section \<open>Lists and options\<close>

named_theorems option_simps \<open>unfolding of the option combinators\<close>

declare Option.bind_eq_Some_conv [option_simps]

lemma fold_option_append: "fold_option f (xs @ ys) s = Option.bind (fold_option f xs s) (fold_option f ys)"
  by (induction xs arbitrary: s) (auto split: bind_split)

lemma fold_option_fun: "fold_option f [] = Some" "fold_option f (x # xs) = (\<lambda>s. Option.bind (f x s) (fold_option f xs))"
  "fold_option f (xs @ ys) = (\<lambda>s. Option.bind (fold_option f xs s) (fold_option f ys))"
  by (rule ext, simp add: fold_option_append)+

lemma set_missing [simp]: "set (missing xs ys) = set xs - set ys"
  by (auto simp: missing_def)

lemma fold_option_inv:
  assumes "fold_option f xs s = Some s'" "P (set xs) s"
    and "\<And>x X s s'. x \<notin> X \<Longrightarrow> P (insert x X) s \<Longrightarrow> f x s = Some s' \<Longrightarrow> P X s'" "distinct xs"
  shows "P {} s'"
  using assms by (induction xs arbitrary: s) (auto simp: option_simps)

section \<open>Shapes of rules\<close>

definition policy_map :: "installed_policy list \<Rightarrow> address \<rightharpoonup> bytes32" where
  "policy_map ps = map_of (map (\<lambda>x. (po_policy x, po_params x)) ps)"

record rule_shape =
  sh_signers :: "signer list"
  sh_policies :: "address \<rightharpoonup> bytes32"
  sh_valid_until :: "u32 option"

definition shape_of :: "installed_rule \<Rightarrow> rule_shape" where
  "shape_of r = \<lparr>sh_signers = ir_signers r, sh_policies = policy_map (ir_policies r), sh_valid_until = ir_valid_until r\<rparr>"

definition aligned :: "(policy_param \<Rightarrow> bytes32) \<Rightarrow> installed_rule \<Rightarrow> policy_param list \<Rightarrow> bool" where
  "aligned dig d params \<longleftrightarrow> map po_params (ir_policies d) = map dig params"

definition wf_policies :: "installed_rule \<Rightarrow> bool" where
  "wf_policies r \<longleftrightarrow> distinct (map po_policy (ir_policies r))"

lemma policy_map_eq_Some:
  assumes "distinct (map po_policy ps)"
  shows "policy_map ps a = Some x \<longleftrightarrow> \<lparr>po_policy = a, po_params = x\<rparr> \<in> set ps"
proof -
  have "distinct (map fst (map (\<lambda>x. (po_policy x, po_params x)) ps))" using assms by (simp add: comp_def)
  then have "policy_map ps a = Some x \<longleftrightarrow> (a, x) \<in> set (map (\<lambda>x. (po_policy x, po_params x)) ps)"
    unfolding policy_map_def by (rule map_of_eq_Some_iff)
  also have "\<dots> \<longleftrightarrow> \<lparr>po_policy = a, po_params = x\<rparr> \<in> set ps"
    by (simp add: image_iff) (metis installed_policy.surjective installed_policy.select_convs(1,2) old.unit.exhaust)
  finally show ?thesis .
qed

lemma dom_policy_map [simp]: "dom (policy_map ps) = po_policy ` set ps"
  by (auto simp: policy_map_def dom_map_of_conv_image_fst image_image)

lemma policy_map_eq_None: "policy_map ps a = None \<longleftrightarrow> a \<notin> po_policy ` set ps"
  unfolding dom_policy_map [symmetric] by (simp only: domIff not_not)

lemma dom_without: "dom (\<lambda>a. if a \<in> A then None else m a) = dom m - A"
  by (auto split: if_splits)

text \<open>The policies an edit adds, as the records have them.\<close>

lemma policies_to_add_map:
  assumes "policies_to_add cs ds params = Some as" "map po_params ds = map dig params"
  shows "map (\<lambda>(p, v). \<lparr>po_policy = p, po_params = dig v\<rparr>) as = missing ds cs"
  using assms
proof (induction cs ds params arbitrary: as rule: policies_to_add.induct)
  case (2 cs p ds params)
  then show ?case by (cases params) (auto simp: missing_def split: if_splits)
qed (simp add: missing_def)

lemma policies_to_add_total:
  "length params = length ds \<Longrightarrow> \<exists>as. policies_to_add cs ds params = Some as"
proof (induction cs ds params rule: policies_to_add.induct)
  case (2 cs p ds params)
  then show ?case by (cases params) auto
qed simp

text \<open>Removing what leaves and adding what joins turns one policy map into the other.\<close>

lemma policy_map_edit:
  assumes "distinct (map po_policy cs)" "distinct (map po_policy ds)"
    and "\<And>a. m a = (if a \<in> po_policy ` (set cs - set ds) then None else policy_map cs a)"
  shows "m ++ policy_map (missing ds cs) = policy_map ds"
proof (rule ext)
  fix a
  have dm: "distinct (map po_policy (missing ds cs))"
    using assms(2) by (simp add: missing_def distinct_map inj_on_def)
  show "(m ++ policy_map (missing ds cs)) a = policy_map ds a"
  proof (cases "policy_map (missing ds cs) a")
    case (Some x)
    then have "policy_map ds a = Some x" by (simp add: policy_map_eq_Some [OF dm] policy_map_eq_Some [OF assms(2)])
    then show ?thesis using Some by (simp add: map_add_def)
  next
    case None
    have "policy_map ds a = m a"
    proof (cases "policy_map ds a")
      case (Some x)
      then have d: "\<lparr>po_policy = a, po_params = x\<rparr> \<in> set ds" by (simp add: policy_map_eq_Some [OF assms(2)])
      have c: "\<lparr>po_policy = a, po_params = x\<rparr> \<in> set cs"
      proof (rule ccontr)
        assume "\<lparr>po_policy = a, po_params = x\<rparr> \<notin> set cs"
        then have "policy_map (missing ds cs) a = Some x" using d by (simp add: policy_map_eq_Some [OF dm])
        then show False using None by simp
      qed
      have "a \<notin> po_policy ` (set cs - set ds)"
        using c d assms(1) by (auto simp: distinct_map) (metis inj_onD installed_policy.select_convs(1))
      then show ?thesis using Some c assms(3) [of a] policy_map_eq_Some [OF assms(1), of a x] by simp
    next
      case none: None
      have "m a = None"
      proof (cases "policy_map cs a")
        case (Some x)
        then have c: "\<lparr>po_policy = a, po_params = x\<rparr> \<in> set cs" by (simp add: policy_map_eq_Some [OF assms(1)])
        moreover have "\<lparr>po_policy = a, po_params = x\<rparr> \<notin> set ds"
          using none policy_map_eq_Some [OF assms(2), of a x] by auto
        ultimately have "a \<in> po_policy ` (set cs - set ds)" by force
        then show ?thesis using assms(3) by simp
      qed (use assms(3) in auto)
      then show ?thesis using none by simp
    qed
    then show ?thesis using None by (simp add: map_add_def)
  qed
qed


text \<open>The additions of an edit: their addresses, and that none of them is still attached.\<close>

definition edit_of :: "(policy_param \<Rightarrow> bytes32) \<Rightarrow> installed_policy list \<Rightarrow> installed_policy list \<Rightarrow> (address \<times> policy_param) list \<Rightarrow> bool"
  where
  "edit_of dig cs ds as \<longleftrightarrow> distinct (map po_policy cs) \<and> distinct (map po_policy ds) \<and>
     map (\<lambda>(p, v). \<lparr>po_policy = p, po_params = dig v\<rparr>) as = missing ds cs"

lemma edit_ofD:
  assumes "edit_of dig cs ds as"
  shows "map fst as = map po_policy (missing ds cs)" "distinct (map fst as)" "fst ` set as = po_policy ` (set ds - set cs)"
    and "distinct (map po_policy (missing cs ds))"
    and "a \<in> fst ` set as \<Longrightarrow> a \<notin> po_policy ` (set cs - set ds) \<Longrightarrow> a \<notin> po_policy ` set cs"
proof -
  have a: "map po_policy (map (\<lambda>(p, v). \<lparr>po_policy = p, po_params = dig v\<rparr>) as) = map po_policy (missing ds cs)"
    using assms by (simp add: edit_of_def)
  have m: "map po_policy (map (\<lambda>(p, v). \<lparr>po_policy = p, po_params = dig v\<rparr>) as) = map fst as" by (induction as) auto
  show f: "map fst as = map po_policy (missing ds cs)" using a m by simp
  show "distinct (map fst as)" unfolding f using assms by (auto simp: edit_of_def missing_def distinct_map inj_on_def)
  show s: "fst ` set as = po_policy ` (set ds - set cs)" using arg_cong [OF f, of set] by simp
  show "distinct (map po_policy (missing cs ds))" using assms by (auto simp: edit_of_def missing_def distinct_map inj_on_def)
  show "a \<notin> po_policy ` set cs" if in_as: "a \<in> fst ` set as" and nr: "a \<notin> po_policy ` (set cs - set ds)"
  proof
    assume "a \<in> po_policy ` set cs"
    then obtain q where q: "q \<in> set cs" "po_policy q = a" "q \<in> set ds" using nr by auto
    obtain x where "x \<in> set ds" "x \<notin> set cs" "po_policy x = a" using in_as s by auto
    then show False using q assms by (auto simp: edit_of_def distinct_map dest: inj_onD)
  qed
qed

section \<open>The three orders of an edit\<close>

definition swap_step :: "'f effects \<Rightarrow> installed_rule \<Rightarrow> installed_rule \<Rightarrow> 'f \<Rightarrow> 'f option" where
  "swap_step fx c d f = (if ir_signers c \<noteq> ir_signers d then fx_reconcile_signers fx c (ir_signers d) f else Some f)"

definition expiry_step :: "'f effects \<Rightarrow> installed_rule \<Rightarrow> installed_rule \<Rightarrow> 'f \<Rightarrow> 'f option" where
  "expiry_step fx c d f = (if ir_valid_until c \<noteq> ir_valid_until d then fx_set_valid_until fx c (ir_valid_until d) f else Some f)"

abbreviation leaving :: "installed_rule \<Rightarrow> installed_rule \<Rightarrow> address list" where
  "leaving c d \<equiv> map po_policy (missing (ir_policies c) (ir_policies d))"

abbreviation remove_policies :: "'f effects \<Rightarrow> installed_rule \<Rightarrow> address list \<Rightarrow> 'f \<Rightarrow> 'f option" where
  "remove_policies fx c \<equiv> fold_option (fx_remove_policy fx c)"

abbreviation add_policies :: "'f effects \<Rightarrow> installed_rule \<Rightarrow> (address \<times> policy_param) list \<Rightarrow> 'f \<Rightarrow> 'f option" where
  "add_policies fx c \<equiv> fold_option (\<lambda>(p, v). fx_add_policy fx c p v)"

definition fresh_policies :: "installed_rule \<Rightarrow> (address \<times> policy_param) list \<Rightarrow> (address \<times> policy_param) list" where
  "fresh_policies c as = [pv \<leftarrow> as. \<not> list_ex (\<lambda>q. po_policy q = fst pv) (ir_policies c)]"

definition kept_parts :: "installed_rule \<Rightarrow> installed_rule \<Rightarrow> nat" where
  "kept_parts c d = (length (ir_signers c) - length (missing (ir_signers c) (ir_signers d))) +
     (length (ir_policies c) - length (leaving c d))"

text \<open>Which of the orders an edit takes, if any.\<close>

datatype edit_order = Swap_First | Swap_Last | Fresh_First

definition edit_order :: "installed_rule \<Rightarrow> installed_rule \<Rightarrow> (address \<times> policy_param) list \<Rightarrow> edit_order option" where
  "edit_order c d as =
     (if ir_signers d \<noteq> [] then Some Swap_First
      else if ir_signers c \<noteq> [] \<or> kept_parts c d > 0 then Some Swap_Last
      else if fresh_policies c as \<noteq> [] \<and> length (ir_policies c) + length (fresh_policies c as) \<le> MAX_POLICIES then Some Fresh_First
      else None)"

definition edit_steps :: "'f effects \<Rightarrow> installed_rule \<Rightarrow> installed_rule \<Rightarrow> (address \<times> policy_param) list \<Rightarrow> edit_order
    \<Rightarrow> ('f \<Rightarrow> 'f option) list" where
  "edit_steps fx c d as ord =
     (case ord of
        Swap_First \<Rightarrow> [swap_step fx c d, remove_policies fx c (leaving c d), add_policies fx c as, expiry_step fx c d]
      | Swap_Last \<Rightarrow> [remove_policies fx c (leaving c d), add_policies fx c as, swap_step fx c d, expiry_step fx c d]
      | Fresh_First \<Rightarrow> [add_policies fx c (fresh_policies c as), remove_policies fx c (leaving c d),
          add_policies fx c [pv \<leftarrow> as. \<not> list_ex (\<lambda>q. fst q = fst pv) (fresh_policies c as)], expiry_step fx c d])"

lemma edit_eq:
  "edit fx c d params f =
     Option.bind (policies_to_add (ir_policies c) (ir_policies d) params) (\<lambda>as.
       case edit_order c d as of
         None \<Rightarrow> Some (False, f)
       | Some ord \<Rightarrow> Option.bind (fold_option (\<lambda>g. g) (edit_steps fx c d as ord) f) (\<lambda>f'. Some (True, f')))"
  unfolding edit_def Let_def edit_order_def edit_steps_def swap_step_def expiry_step_def fresh_policies_def kept_parts_def
  by (intro arg_cong2 [where f = Option.bind] refl ext) (simp add: Option.bind_assoc)

section \<open>The contract of an editor\<close>

text \<open>
  \<open>holds c sh T f\<close>: in state \<open>f\<close> the rule recorded as \<open>c\<close> has the shape \<open>sh\<close>; \<open>T\<close> are the policies it
  has had since the edit began, the only ones an edit removes.
\<close>

locale rule_editor =
  fixes fx :: "'f effects"
    and dig :: "policy_param \<Rightarrow> bytes32"
    and holds :: "installed_rule \<Rightarrow> rule_shape \<Rightarrow> address set \<Rightarrow> 'f \<Rightarrow> bool"
  assumes swapped: "holds c sh T f \<Longrightarrow> sh_signers sh = ir_signers c \<Longrightarrow> fx_reconcile_signers fx c ss f = Some f' \<Longrightarrow>
      distinct ss \<Longrightarrow> distinct (ir_signers c) \<Longrightarrow> holds c (sh\<lparr>sh_signers := ss\<rparr>) T f'"
    and removed: "holds c sh T f \<Longrightarrow> p \<in> T \<Longrightarrow> p \<in> dom (sh_policies sh) \<Longrightarrow> fx_remove_policy fx c p f = Some f' \<Longrightarrow>
      holds c (sh\<lparr>sh_policies := (sh_policies sh)(p := None)\<rparr>) (T - {p}) f'"
    and added: "holds c sh T f \<Longrightarrow> p \<notin> T \<Longrightarrow> p \<notin> dom (sh_policies sh) \<Longrightarrow> fx_add_policy fx c p v f = Some f' \<Longrightarrow>
      holds c (sh\<lparr>sh_policies := (sh_policies sh)(p \<mapsto> dig v)\<rparr>) T f'"
    and expiry_set: "holds c sh T f \<Longrightarrow> fx_set_valid_until fx c vu f = Some f' \<Longrightarrow> holds c (sh\<lparr>sh_valid_until := vu\<rparr>) T f'"
begin

lemma removals:
  "fold_option (fx_remove_policy fx c) ps f = Some f' \<Longrightarrow> holds c sh T f \<Longrightarrow> distinct ps \<Longrightarrow> set ps \<subseteq> T \<Longrightarrow>
   set ps \<subseteq> dom (sh_policies sh) \<Longrightarrow>
   holds c (sh\<lparr>sh_policies := (\<lambda>a. if a \<in> set ps then None else sh_policies sh a)\<rparr>) (T - set ps) f'"
proof (induction ps arbitrary: f sh T)
  case (Cons p ps)
  obtain f1 where f1: "fx_remove_policy fx c p f = Some f1" "fold_option (fx_remove_policy fx c) ps f1 = Some f'"
    using Cons.prems(1) by (auto simp: option_simps)
  have h: "holds c (sh\<lparr>sh_policies := (sh_policies sh)(p := None)\<rparr>) (T - {p}) f1"
    using removed [OF Cons.prems(2) _ _ f1(1)] Cons.prems by auto
  have sc: "distinct ps" "set ps \<subseteq> T - {p}" "set ps \<subseteq> dom (sh_policies (sh\<lparr>sh_policies := (sh_policies sh)(p := None)\<rparr>))"
    using Cons.prems by (auto simp: domIff subset_iff)
  have "holds c (sh\<lparr>sh_policies := (\<lambda>a. if a \<in> set ps then None else ((sh_policies sh)(p := None)) a)\<rparr>) (T - {p} - set ps) f'"
    using Cons.IH [OF f1(2) h sc] by (simp add: fun_upd_def cong: if_cong)
  moreover have "(\<lambda>a. if a \<in> set ps then None else ((sh_policies sh)(p := None)) a) =
      (\<lambda>a. if a \<in> set (p # ps) then None else sh_policies sh a)" by auto
  moreover have "T - {p} - set ps = T - set (p # ps)" by auto
  ultimately show ?case by simp
qed simp

lemma additions:
  "fold_option (\<lambda>(p, v). fx_add_policy fx c p v) as f = Some f' \<Longrightarrow> holds c sh T f \<Longrightarrow> distinct (map fst as) \<Longrightarrow>
   fst ` set as \<inter> T = {} \<Longrightarrow> fst ` set as \<inter> dom (sh_policies sh) = {} \<Longrightarrow>
   holds c (sh\<lparr>sh_policies := sh_policies sh ++ policy_map (map (\<lambda>(p, v). \<lparr>po_policy = p, po_params = dig v\<rparr>) as)\<rparr>) T f'"
proof (induction as arbitrary: f sh)
  case Nil
  then show ?case by (simp add: policy_map_def)
next
  case (Cons a as)
  obtain p v where a: "a = (p, v)" by (cases a)
  obtain f1 where f1: "fx_add_policy fx c p v f = Some f1" "fold_option (\<lambda>(p, v). fx_add_policy fx c p v) as f1 = Some f'"
    using Cons.prems(1) a by (auto simp: option_simps)
  have h: "holds c (sh\<lparr>sh_policies := (sh_policies sh)(p \<mapsto> dig v)\<rparr>) T f1"
    using added [OF Cons.prems(2) _ _ f1(1)] Cons.prems a by auto
  have sc: "distinct (map fst as)" "fst ` set as \<inter> T = {}"
    "fst ` set as \<inter> dom (sh_policies (sh\<lparr>sh_policies := (sh_policies sh)(p \<mapsto> dig v)\<rparr>)) = {}"
    using Cons.prems a by auto
  have "holds c (sh\<lparr>sh_policies := (sh_policies sh)(p \<mapsto> dig v) ++
      policy_map (map (\<lambda>(p, v). \<lparr>po_policy = p, po_params = dig v\<rparr>) as)\<rparr>) T f'"
    using Cons.IH [OF f1(2) h sc] by (simp add: fun_upd_def cong: if_cong)
  moreover have "(sh_policies sh)(p \<mapsto> dig v) ++ policy_map (map (\<lambda>(p, v). \<lparr>po_policy = p, po_params = dig v\<rparr>) as) =
      sh_policies sh ++ policy_map (map (\<lambda>(p, v). \<lparr>po_policy = p, po_params = dig v\<rparr>) (a # as))"
  proof -
    have "p \<notin> dom (policy_map (map (\<lambda>(p, v). \<lparr>po_policy = p, po_params = dig v\<rparr>) as))"
      using Cons.prems(3) a by (auto simp: image_iff)
    then show ?thesis by (auto simp: a policy_map_def map_add_def fun_eq_iff domIff split: option.splits)
  qed
  ultimately show ?case by simp
qed

lemma swap_policies:
  assumes "edit_of dig cs ds as" "holds c sh (dom (policy_map cs)) f" "sh_policies sh = policy_map cs"
    and "fold_option (fx_remove_policy fx c) (map po_policy (missing cs ds)) f = Some f1"
    and "fold_option (\<lambda>(p, v). fx_add_policy fx c p v) as f1 = Some f2"
  shows "\<exists>T. holds c (sh\<lparr>sh_policies := policy_map ds\<rparr>) T f2"
proof -
  let ?rp = "map po_policy (missing cs ds)"
  let ?m = "\<lambda>a. if a \<in> set ?rp then None else policy_map cs a"
  note e = edit_ofD [OF assms(1)]
  have sub: "set ?rp \<subseteq> dom (policy_map cs)" by auto
  have h1: "holds c (sh\<lparr>sh_policies := ?m\<rparr>) (dom (policy_map cs) - set ?rp) f1"
    using removals [OF assms(4,2) e(4) sub] sub unfolding assms(3) by simp
  have d: "fst ` set as \<inter> (dom (policy_map cs) - set ?rp) = {}" using e(5) by auto
  have "dom (sh_policies (sh\<lparr>sh_policies := ?m\<rparr>)) = dom (policy_map cs) - set ?rp" by (simp add: dom_without)
  then have "holds c (sh\<lparr>sh_policies := ?m ++ policy_map (missing ds cs)\<rparr>) (dom (policy_map cs) - set ?rp) f2"
    using additions [OF assms(5) h1 e(2) d] d assms(1) by (simp add: edit_of_def)
  moreover have "?m ++ policy_map (missing ds cs) = policy_map ds"
    by (rule policy_map_edit) (use assms(1) in \<open>auto simp: edit_of_def\<close>)
  ultimately show ?thesis by auto
qed

lemma fresh_policies_first:
  assumes "edit_of dig cs ds as" "holds c sh (dom (policy_map cs)) f" "sh_policies sh = policy_map cs"
    and fresh: "fresh = [pv \<leftarrow> as. \<not> list_ex (\<lambda>q. po_policy q = fst pv) cs]"
    and "fold_option (\<lambda>(p, v). fx_add_policy fx c p v) fresh f = Some f1"
    and "fold_option (fx_remove_policy fx c) (map po_policy (missing cs ds)) f1 = Some f2"
    and "fold_option (\<lambda>(p, v). fx_add_policy fx c p v) [pv \<leftarrow> as. \<not> list_ex (\<lambda>q. fst q = fst pv) fresh] f2 = Some f3"
  shows "\<exists>T. holds c (sh\<lparr>sh_policies := policy_map ds\<rparr>) T f3"
proof -
  let ?rp = "map po_policy (missing cs ds)" and ?rest = "[pv \<leftarrow> as. \<not> list_ex (\<lambda>q. fst q = fst pv) fresh]"
  let ?pm = "\<lambda>as. policy_map (map (\<lambda>(p, v). \<lparr>po_policy = p, po_params = dig v\<rparr>) as)"
  let ?m = "\<lambda>a. if a \<in> set ?rp then None else (policy_map cs ++ ?pm fresh) a"
  note e = edit_ofD [OF assms(1)]
  have F: "distinct (map fst fresh)" "fst ` set fresh \<inter> dom (policy_map cs) = {}" "distinct (map fst ?rest)"
    using e(2) by (auto simp: fresh list_ex_iff distinct_map inj_on_def)
  have rp: "set ?rp \<subseteq> dom (policy_map cs)" by auto
  have h1: "holds c (sh\<lparr>sh_policies := policy_map cs ++ ?pm fresh\<rparr>) (dom (policy_map cs)) f1"
    using additions [OF assms(5,2) F(1,2)] F(2) unfolding assms(3) by simp
  have h2: "holds c (sh\<lparr>sh_policies := ?m\<rparr>) (dom (policy_map cs) - set ?rp) f2"
    using removals [OF assms(6) h1 e(4) rp] rp by (simp cong: if_cong) (auto cong: if_cong)
  have fst_pm: "dom (?pm as) = fst ` set as" for as by (auto simp: image_image case_prod_unfold)
  have rest_sub: "fst ` set ?rest = fst ` set as - fst ` set fresh" by (auto simp: list_ex_iff image_iff)
  have d: "fst ` set ?rest \<inter> (dom (policy_map cs) - set ?rp) = {}"
    using e(5) unfolding rest_sub by auto
  have sp: "sh_policies (sh\<lparr>sh_policies := ?m\<rparr>) = ?m" by (cases sh) simp
  have "dom ?m \<subseteq> (dom (policy_map cs) - set ?rp) \<union> fst ` set fresh"
    unfolding dom_without dom_map_add fst_pm by auto
  then have "fst ` set ?rest \<inter> dom ?m \<subseteq> fst ` set ?rest \<inter> ((dom (policy_map cs) - set ?rp) \<union> fst ` set fresh)"
    by (rule Int_mono [OF subset_refl])
  also have "\<dots> = fst ` set ?rest \<inter> fst ` set fresh" using d by (simp only: Int_Un_distrib Un_empty_left)
  also have "\<dots> = {}" unfolding rest_sub by auto
  finally have d': "fst ` set ?rest \<inter> dom (sh_policies (sh\<lparr>sh_policies := ?m\<rparr>)) = {}" unfolding sp by (simp only: subset_empty)
  have "holds c (sh\<lparr>sh_policies := ?m ++ ?pm ?rest\<rparr>) (dom (policy_map cs) - set ?rp) f3"
    using additions [OF assms(7) h2 F(3) d d'] by simp
  moreover have "?m ++ ?pm ?rest = (\<lambda>a. if a \<in> set ?rp then None else policy_map cs a) ++ ?pm as"
  proof (rule ext)
    fix a
    have k: "?pm xs a = map_option dig (map_of xs a)" for xs by (induction xs) (auto simp: policy_map_def)
    have "map_of ?rest a = (if a \<in> fst ` set fresh then None else map_of as a)"
    proof (cases "a \<in> fst ` set fresh")
      case True
      then have "a \<notin> fst ` set ?rest" unfolding rest_sub by simp
      then show ?thesis using True by (simp add: map_of_eq_None_iff del: set_filter)
    next
      case False
      then show ?thesis by (induction as) (auto simp: list_ex_iff image_iff)
    qed
    moreover have "map_of fresh a = (if a \<in> fst ` set fresh then map_of as a else None)"
    proof (cases "a \<in> fst ` set fresh")
      case True
      then have "a \<notin> po_policy ` set cs" using F(2) by auto
      then have "map_of fresh a = map_of as a" unfolding fresh by (induction as) (auto simp: list_ex_iff)
      then show ?thesis using True by simp
    qed (simp add: map_of_eq_None_iff)
    moreover have "a \<in> fst ` set fresh \<Longrightarrow> a \<notin> set ?rp" using F(2) by auto
    moreover have "a \<in> fst ` set fresh \<Longrightarrow> map_of as a \<noteq> None" by (auto simp: fresh map_of_eq_None_iff)
    ultimately show "(?m ++ ?pm ?rest) a = ((\<lambda>a. if a \<in> set ?rp then None else policy_map cs a) ++ ?pm as) a"
      by (cases "a \<in> fst ` set fresh") (auto simp: map_add_def k split: option.splits)
  qed
  moreover have "(\<lambda>a. if a \<in> set ?rp then None else policy_map cs a) ++ ?pm as = policy_map ds"
    using policy_map_edit [of cs ds "\<lambda>a. if a \<in> set ?rp then None else policy_map cs a"] assms(1) by (auto simp: edit_of_def)
  ultimately show ?thesis by auto
qed

lemma edited:
  assumes "edit fx c d params f = Some (b, f')" "holds c (shape_of c) (dom (policy_map (ir_policies c))) f"
    and "wf_policies c" "wf_policies d" "distinct (ir_signers c)" "distinct (ir_signers d)" "aligned dig d params"
  shows "if b then \<exists>T. holds c (shape_of d) T f' else f' = f"
proof -
  let ?cs = "ir_policies c" and ?ds = "ir_policies d"
  let ?sh = "\<lambda>s p. \<lparr>sh_signers = ir_signers s, sh_policies = policy_map (ir_policies p), sh_valid_until = ir_valid_until c\<rparr>"
  obtain as where as: "policies_to_add ?cs ?ds params = Some as"
    and e: "(case edit_order c d as of None \<Rightarrow> Some (False, f)
       | Some ord \<Rightarrow> Option.bind (fold_option (\<lambda>g. g) (edit_steps fx c d as ord) f) (\<lambda>f'. Some (True, f'))) = Some (b, f')"
    using assms(1) unfolding edit_eq by (auto simp: option_simps)
  have ed: "edit_of dig ?cs ?ds as"
    using policies_to_add_map [OF as] assms(3,4,7) by (simp add: edit_of_def wf_policies_def aligned_def)
  have swap: "holds c (?sh d p) T f2" if "swap_step fx c d f1 = Some f2" "holds c (?sh c p) T f1" for f1 f2 T p
    using that swapped [OF that(2), of "ir_signers d" f2] assms(5,6) by (auto simp: swap_step_def split: if_splits)
  have expiry: "holds c (shape_of d) T f2" if "expiry_step fx c d f1 = Some f2" "holds c (?sh d d) T f1" for f1 f2 T
    using that expiry_set [OF that(2), of "ir_valid_until d" f2] by (auto simp: shape_of_def expiry_step_def split: if_splits)
  have start: "holds c (?sh c c) (dom (policy_map ?cs)) f" using assms(2) by (simp add: shape_of_def)
  show ?thesis
  proof (cases "edit_order c d as")
    case None
    then show ?thesis using e by simp
  next
    case (Some ord)
    then have b: b and run: "fold_option (\<lambda>g. g) (edit_steps fx c d as ord) f = Some f'" using e by (auto simp: option_simps)
    have "\<exists>T. holds c (shape_of d) T f'"
    proof (cases ord)
      case Swap_First
      then obtain f1 f2 f3 where r: "swap_step fx c d f = Some f1" "remove_policies fx c (leaving c d) f1 = Some f2"
          "add_policies fx c as f2 = Some f3" "expiry_step fx c d f3 = Some f'"
        using run by (auto simp: edit_steps_def option_simps)
      then obtain T where "holds c (?sh d d) T f3"
        using swap_policies [OF ed swap [OF r(1) start] _ r(2,3)] by auto
      then show ?thesis using expiry [OF r(4)] by blast
    next
      case Swap_Last
      then obtain f1 f2 f3 where r: "remove_policies fx c (leaving c d) f = Some f1" "add_policies fx c as f1 = Some f2"
          "swap_step fx c d f2 = Some f3" "expiry_step fx c d f3 = Some f'"
        using run by (auto simp: edit_steps_def option_simps)
      then obtain T where "holds c (?sh c d) T f2" using swap_policies [OF ed start _ r(1,2)] by auto
      then show ?thesis using expiry [OF r(4) swap [OF r(3)]] by blast
    next
      case Fresh_First
      then obtain f1 f2 f3 where r: "add_policies fx c (fresh_policies c as) f = Some f1"
          "remove_policies fx c (leaving c d) f1 = Some f2"
          "add_policies fx c [pv \<leftarrow> as. \<not> list_ex (\<lambda>q. fst q = fst pv) (fresh_policies c as)] f2 = Some f3"
          "expiry_step fx c d f3 = Some f'"
        using run by (auto simp: edit_steps_def option_simps)
      then obtain T where "holds c (?sh c d) T f3"
        using fresh_policies_first [OF ed start _ _ r(1-3)] by (auto simp: fresh_policies_def)
      moreover have "ir_signers c = ir_signers d"
        using Some Fresh_First by (auto simp: edit_order_def split: if_splits)
      ultimately show ?thesis using expiry [OF r(4)] by auto
    qed
    then show ?thesis using b by simp
  qed
qed

end

section \<open>OpenZeppelin's operations\<close>

text \<open>
  What the account relies on of a successful operation, on a view of the rules it stores: each
  operation does to the one rule it names what its name says, a new rule gets an unused id, signers
  are stored in the order given, and the registry ids of the policies of a rule are distinct.
\<close>

record rule_view =
  rv_name :: string
  rv_context_type :: context_rule_type
  rv_valid_until :: "u32 option"
  rv_signers :: "signer list"
  rv_policies :: "address \<rightharpoonup> u32 \<times> policy_param"

type_synonym 'w oz_view = "'w \<Rightarrow> u32 \<rightharpoonup> rule_view"

definition without_policy :: "u32 \<Rightarrow> (address \<rightharpoonup> u32 \<times> policy_param) \<Rightarrow> address \<rightharpoonup> u32 \<times> policy_param" where
  "without_policy k m p = (case m p of None \<Rightarrow> None | Some (k', v) \<Rightarrow> if k' = k then None else Some (k', v))"

definition oz_laws :: "'w oz \<Rightarrow> 'w oz_view \<Rightarrow> bool" where
  "oz_laws Z view \<longleftrightarrow>
     (\<forall>w i r. oz_get_context_rule Z w i = Some r \<longrightarrow> oz_id r = i \<and> length (oz_policy_ids r) = length (oz_policies r) \<and>
        (\<exists>v. view w i = Some v \<and> map_of (zip (oz_policies r) (oz_policy_ids r)) = (\<lambda>p. map_option fst (rv_policies v p)))) \<and>
     (\<forall>w i v p q k x y. view w i = Some v \<longrightarrow> rv_policies v p = Some (k, x) \<longrightarrow> rv_policies v q = Some (k, y) \<longrightarrow> p = q) \<and>
     (\<forall>ct n vu ss ps w i w'. oz_add_context_rule Z ct n vu ss ps w = Some (i, w') \<longrightarrow> view w i = None \<and>
        (\<exists>ids. view w' = (view w)(i \<mapsto> \<lparr>rv_name = n, rv_context_type = ct, rv_valid_until = vu, rv_signers = ss,
            rv_policies = (\<lambda>p. map_option (Pair (ids p)) (ps p))\<rparr>))) \<and>
     (\<forall>i w w'. oz_remove_context_rule Z i w = Some w' \<longrightarrow> view w' = (view w)(i := None)) \<and>
     (\<forall>i ss w w'. oz_reconcile_signers Z i ss w = Some w' \<longrightarrow>
        (\<exists>v. view w i = Some v \<and> view w' = (view w)(i \<mapsto> v\<lparr>rv_signers := ss\<rparr>))) \<and>
     (\<forall>i p x w w'. oz_add_policy Z i p x w = Some w' \<longrightarrow>
        (\<exists>v k. view w i = Some v \<and> view w' = (view w)(i \<mapsto> v\<lparr>rv_policies := (rv_policies v)(p \<mapsto> (k, x))\<rparr>))) \<and>
     (\<forall>i k w w'. oz_remove_policy Z i k w = Some w' \<longrightarrow>
        (\<exists>v. view w i = Some v \<and> view w' = (view w)(i \<mapsto> v\<lparr>rv_policies := without_policy k (rv_policies v)\<rparr>))) \<and>
     (\<forall>i vu w w'. oz_update_valid_until Z i vu w = Some w' \<longrightarrow>
        (\<exists>v. view w i = Some v \<and> view w' = (view w)(i \<mapsto> v\<lparr>rv_valid_until := vu\<rparr>)))"

lemmas oz_get = oz_laws_def [THEN iffD1, THEN conjunct1, rule_format]
lemmas oz_ids = oz_laws_def [THEN iffD1, THEN conjunct2, THEN conjunct1, rule_format]
lemmas oz_add = oz_laws_def [THEN iffD1, THEN conjunct2, THEN conjunct2, THEN conjunct1, rule_format]
lemmas oz_remove = oz_laws_def [THEN iffD1, THEN conjunct2, THEN conjunct2, THEN conjunct2, THEN conjunct1, rule_format]
lemmas oz_signers = oz_laws_def [THEN iffD1, THEN conjunct2, THEN conjunct2, THEN conjunct2, THEN conjunct2, THEN conjunct1, rule_format]
lemmas oz_policy_added = oz_laws_def [THEN iffD1, THEN conjunct2, THEN conjunct2, THEN conjunct2, THEN conjunct2, THEN conjunct2, THEN conjunct1, rule_format]
lemmas oz_policy_removed = oz_laws_def [THEN iffD1, THEN conjunct2, THEN conjunct2, THEN conjunct2, THEN conjunct2, THEN conjunct2, THEN conjunct2, THEN conjunct1, rule_format]
lemmas oz_expiry = oz_laws_def [THEN iffD1, THEN conjunct2, THEN conjunct2, THEN conjunct2, THEN conjunct2, THEN conjunct2, THEN conjunct2, THEN conjunct2, rule_format]

lemma first_index_of_Some: "first_index_of xs p = Some j \<Longrightarrow> length ys = length xs \<Longrightarrow> j < length ys \<and> map_of (zip xs ys) p = Some (ys ! j)"
proof (induction xs arbitrary: j ys)
  case (Cons x xs)
  then show ?case by (cases ys) (auto split: if_splits)
qed simp

lemma first_index_of_total: "p \<in> set xs \<Longrightarrow> \<exists>j. first_index_of xs p = Some j"
  by (induction xs) auto

definition has_shape :: "(policy_param \<Rightarrow> bytes32) \<Rightarrow> rule_view \<Rightarrow> installed_rule \<Rightarrow> rule_shape \<Rightarrow> bool" where
  "has_shape dig v c sh \<longleftrightarrow> rv_name v = ir_name c \<and> rv_context_type v = ir_context_type c \<and>
     sh = \<lparr>sh_signers = rv_signers v, sh_policies = (\<lambda>p. map_option (dig \<circ> snd) (rv_policies v p)), sh_valid_until = rv_valid_until v\<rparr>"

text \<open>
  The state of \<open>Apply\<close> during an edit of \<open>c\<close>: the other rules are those of \<open>base\<close>, and a cached rule
  is the one of before the edit or has the right registry ids for the policies in \<open>T\<close>.
\<close>

definition cached_ids :: "oz_rule option \<Rightarrow> u32 \<Rightarrow> address set \<Rightarrow> (address \<rightharpoonup> u32 \<times> policy_param) \<Rightarrow> oz_rule option \<Rightarrow> bool" where
  "cached_ids cache i T m now \<longleftrightarrow>
     now = cache \<and> (\<forall>r. cache = Some r \<longrightarrow> oz_id r \<noteq> i) \<or>
     (\<exists>r. now = Some r \<and> oz_id r = i \<and> length (oz_policy_ids r) = length (oz_policies r) \<and>
        (\<forall>p \<in> T. p \<in> dom m \<longrightarrow> map_of (zip (oz_policies r) (oz_policy_ids r)) p = map_option fst (m p)))"

definition apply_holds :: "(policy_param \<Rightarrow> bytes32) \<Rightarrow> 'w oz_view \<Rightarrow> (u32 \<rightharpoonup> rule_view) \<Rightarrow> oz_rule option
    \<Rightarrow> installed_rule \<Rightarrow> rule_shape \<Rightarrow> address set \<Rightarrow> 'w apply_state \<Rightarrow> bool" where
  "apply_holds dig view base cache c sh T a \<longleftrightarrow>
     (\<exists>v. view (ap_world a) = base(ir_id c \<mapsto> v) \<and> has_shape dig v c sh \<and> cached_ids cache (ir_id c) T (rv_policies v) (ap_rule a))"

lemma apply_holdsE:
  assumes "apply_holds dig view base cache c sh T a"
  obtains v where "view (ap_world a) = base(ir_id c \<mapsto> v)" "has_shape dig v c sh" "cached_ids cache (ir_id c) T (rv_policies v) (ap_rule a)"
  using assms by (auto simp: apply_holds_def)

lemma apply_holdsI:
  assumes "view (ap_world a) = base(ir_id c \<mapsto> v)" "has_shape dig v c sh" "cached_ids cache (ir_id c) T (rv_policies v) (ap_rule a)"
  shows "apply_holds dig view base cache c sh T a"
  using assms by (auto simp: apply_holds_def)

lemma has_shape_updates:
  assumes "has_shape dig v c sh"
  shows "has_shape dig (v\<lparr>rv_signers := ss\<rparr>) c (sh\<lparr>sh_signers := ss\<rparr>)"
    and "has_shape dig (v\<lparr>rv_valid_until := vu\<rparr>) c (sh\<lparr>sh_valid_until := vu\<rparr>)"
    and "has_shape dig (v\<lparr>rv_policies := (rv_policies v)(p \<mapsto> (k, x))\<rparr>) c (sh\<lparr>sh_policies := (sh_policies sh)(p \<mapsto> dig x)\<rparr>)"
    and "has_shape dig (v\<lparr>rv_policies := (rv_policies v)(p := None)\<rparr>) c (sh\<lparr>sh_policies := (sh_policies sh)(p := None)\<rparr>)"
  using assms by (auto simp: has_shape_def fun_eq_iff)

lemma cached_ids_other:
  "cached_ids cache i T m now \<Longrightarrow> p \<notin> T \<Longrightarrow> cached_ids cache i T (m(p := y)) now"
  by (auto simp: cached_ids_def)

lemma cached_ids_less:
  "cached_ids cache i T m now \<Longrightarrow> cached_ids cache i (T - {p}) (m(p := None)) now"
  by (auto simp: cached_ids_def)

text \<open>Reading the rule that is being edited: its registry id for a policy of \<open>T\<close>.\<close>

lemma apply_oz_id:
  assumes laws: "oz_laws Z view" and "apply_oz Z i a = Some (rl, a1)" "view (ap_world a) i = Some v"
    and "cached_ids cache i T (rv_policies v) (ap_rule a)" "p \<in> T" "rv_policies v p = Some (k, x)"
    and "first_index_of (oz_policies rl) p = Some j"
  shows "a1 = a\<lparr>ap_rule := Some rl\<rparr>" "oz_policy_ids rl ! j = k" "cached_ids cache i T (rv_policies v) (Some rl)"
proof -
  have rl: "oz_id rl = i \<and> length (oz_policy_ids rl) = length (oz_policies rl) \<and> a1 = a\<lparr>ap_rule := Some rl\<rparr> \<and>
      (\<forall>p \<in> T. p \<in> dom (rv_policies v) \<longrightarrow> map_of (zip (oz_policies rl) (oz_policy_ids rl)) p = map_option fst (rv_policies v p))"
  proof (cases "\<exists>r. ap_rule a = Some r \<and> oz_id r = i")
    case True
    then show ?thesis using assms(2,4) by (auto simp: apply_oz_def cached_ids_def)
  next
    case False
    then have "oz_get_context_rule Z (ap_world a) i = Some rl" "a1 = a\<lparr>ap_rule := Some rl\<rparr>"
      using assms(2) by (auto simp: apply_oz_def option_simps split: option.splits if_splits)
    then show ?thesis using oz_get [OF laws] assms(3) by fastforce
  qed
  then show "a1 = a\<lparr>ap_rule := Some rl\<rparr>" by simp
  show "cached_ids cache i T (rv_policies v) (Some rl)" using rl by (simp add: cached_ids_def)
  show "oz_policy_ids rl ! j = k"
    using rl first_index_of_Some [OF assms(7), of "oz_policy_ids rl"] assms(5,6) by force
qed

lemma without_policy_eq:
  assumes "oz_laws Z view" "view w i = Some v" "rv_policies v p = Some (k, x)"
  shows "without_policy k (rv_policies v) = (rv_policies v)(p := None)"
proof (rule ext)
  fix q
  show "without_policy k (rv_policies v) q = ((rv_policies v)(p := None)) q"
    using oz_ids [OF assms(1,2) _ assms(3), of q] assms(3)
    by (cases "rv_policies v q") (auto simp: without_policy_def)
qed

lemma apply_editor:
  assumes laws: "oz_laws Z view"
  shows "rule_editor (apply_effects Z) dig (apply_holds dig view base cache)"
proof
  fix c sh T a ss a'
  assume h: "apply_holds dig view base cache c sh T a" and r: "fx_reconcile_signers (apply_effects Z) c ss a = Some a'"
  obtain v where v: "view (ap_world a) = base(ir_id c \<mapsto> v)" "has_shape dig v c sh" "cached_ids cache (ir_id c) T (rv_policies v) (ap_rule a)"
    using h by (rule apply_holdsE)
  have "oz_reconcile_signers Z (ir_id c) ss (ap_world a) = Some (ap_world a')" "ap_rule a' = ap_rule a"
    using r by (auto simp: apply_effects_def apply_reconcile_signers_def option_simps)
  then show "apply_holds dig view base cache c (sh\<lparr>sh_signers := ss\<rparr>) T a'"
    using oz_signers [OF laws] v by (intro apply_holdsI [OF _ has_shape_updates(1) [OF v(2)]]) fastforce+
next
  fix c sh T a vu a'
  assume h: "apply_holds dig view base cache c sh T a" and r: "fx_set_valid_until (apply_effects Z) c vu a = Some a'"
  obtain v where v: "view (ap_world a) = base(ir_id c \<mapsto> v)" "has_shape dig v c sh" "cached_ids cache (ir_id c) T (rv_policies v) (ap_rule a)"
    using h by (rule apply_holdsE)
  have "oz_update_valid_until Z (ir_id c) vu (ap_world a) = Some (ap_world a')" "ap_rule a' = ap_rule a"
    using r by (auto simp: apply_effects_def apply_set_valid_until_def option_simps)
  then show "apply_holds dig view base cache c (sh\<lparr>sh_valid_until := vu\<rparr>) T a'"
    using oz_expiry [OF laws] v by (intro apply_holdsI [OF _ has_shape_updates(2) [OF v(2)]]) fastforce+
next
  fix c sh T a p x a'
  assume h: "apply_holds dig view base cache c sh T a" and p: "p \<notin> T"
    and r: "fx_add_policy (apply_effects Z) c p x a = Some a'"
  obtain v where v: "view (ap_world a) = base(ir_id c \<mapsto> v)" "has_shape dig v c sh" "cached_ids cache (ir_id c) T (rv_policies v) (ap_rule a)"
    using h by (rule apply_holdsE)
  have "oz_add_policy Z (ir_id c) p x (ap_world a) = Some (ap_world a')" and rule: "ap_rule a' = ap_rule a"
    using r by (auto simp: apply_effects_def apply_add_policy_def option_simps)
  then obtain k where "view (ap_world a') = base(ir_id c \<mapsto> v\<lparr>rv_policies := (rv_policies v)(p \<mapsto> (k, x))\<rparr>)"
    using oz_policy_added [OF laws] v(1) by fastforce
  then show "apply_holds dig view base cache c (sh\<lparr>sh_policies := (sh_policies sh)(p \<mapsto> dig x)\<rparr>) T a'"
    by (rule apply_holdsI [OF _ has_shape_updates(3) [OF v(2)]]) (simp add: rule cached_ids_other [OF v(3) p])
next
  fix c sh T a p a'
  assume h: "apply_holds dig view base cache c sh T a" and p: "p \<in> T" "p \<in> dom (sh_policies sh)"
    and r: "fx_remove_policy (apply_effects Z) c p a = Some a'"
  obtain v where v: "view (ap_world a) = base(ir_id c \<mapsto> v)" "has_shape dig v c sh" "cached_ids cache (ir_id c) T (rv_policies v) (ap_rule a)"
    using h by (rule apply_holdsE)
  obtain k x where k: "rv_policies v p = Some (k, x)" using p(2) v(2) by (auto simp: has_shape_def)
  have vi: "view (ap_world a) (ir_id c) = Some v" using v(1) by simp
  obtain rl a1 j where o: "apply_oz Z (ir_id c) a = Some (rl, a1)" "first_index_of (oz_policies rl) p = Some j"
    and w: "oz_remove_policy Z (ir_id c) (oz_policy_ids rl ! j) (ap_world a1) = Some (ap_world a')" "ap_rule a' = ap_rule a1"
    using r by (auto simp: apply_effects_def apply_remove_policy_def option_simps split: if_splits)
  note id = apply_oz_id [OF laws o(1) vi v(3) p(1) k o(2)]
  have "view (ap_world a') = base(ir_id c \<mapsto> v\<lparr>rv_policies := (rv_policies v)(p := None)\<rparr>)"
    using oz_policy_removed [OF laws w(1)] v(1) without_policy_eq [OF laws vi k] id(1,2) by auto
  then show "apply_holds dig view base cache c (sh\<lparr>sh_policies := (sh_policies sh)(p := None)\<rparr>) (T - {p}) a'"
    by (rule apply_holdsI [OF _ has_shape_updates(4) [OF v(2)]]) (use id w(2) cached_ids_less [OF id(3), of p] in simp)
qed

section \<open>The meter\<close>

text \<open>
  The meter as a sequence of three primitives, on the numbers its words stand for: entries written
  and, for each signer and policy, the rules that name it.
\<close>

type_synonym party = "signer + address"

datatype prim = Write | Reg party | Dereg party

fun run_prim :: "prim \<Rightarrow> meter \<Rightarrow> meter option" where
  "run_prim Write m = meter_write m"
| "run_prim (Reg (Inl s)) m = register_signer s m"
| "run_prim (Reg (Inr p)) m = register_policy p m"
| "run_prim (Dereg (Inl s)) m = deregister_signer s m"
| "run_prim (Dereg (Inr p)) m = deregister_policy p m"

definition meter_refs :: "meter \<Rightarrow> party \<Rightarrow> nat" where
  "meter_refs m x = (case x of Inl s \<Rightarrow> unat (count_of (rf_signers (mt_refs m)) s)
                             | Inr p \<Rightarrow> unat (count_of (rf_policies (mt_refs m)) p))"

definition writes :: "meter \<Rightarrow> nat" where
  "writes m = unat (co_writes (mt_cost m))"

fun prim_refs :: "prim \<Rightarrow> (party \<Rightarrow> nat) \<Rightarrow> party \<Rightarrow> nat" where
  "prim_refs Write n = n"
| "prim_refs (Reg x) n = n(x := Suc (n x))"
| "prim_refs (Dereg x) n = n(x := n x - 1)"

fun prim_cost :: "prim \<Rightarrow> (party \<Rightarrow> nat) \<Rightarrow> nat" where
  "prim_cost Write n = 1"
| "prim_cost (Reg x) n = (if n x = 0 then 2 else 1)"
| "prim_cost (Dereg x) n = (if n x \<le> 1 then 2 else 1)"

lemma count_of_update: "count_of (m(x := y)) z = (if z = x then (case y of None \<Rightarrow> 0 | Some n \<Rightarrow> n) else count_of m z)"
  by (simp add: count_of_def)

lemma meter_write_Some:
  "meter_write m = Some m' \<Longrightarrow> mt_refs m' = mt_refs m \<and> writes m' = Suc (writes m) \<and> co_events (mt_cost m') = co_events (mt_cost m)"
  by (auto simp: meter_write_def option_simps writes_def dest: checked_add_SomeD)

lemma meter_write_total: "Suc (writes m) < 2 ^ 32 \<Longrightarrow> \<exists>m'. meter_write m = Some m'"
  by (simp add: meter_write_def writes_def checked_add_def)

lemma unat_le_1: "(n :: u32) \<le> 1 \<longleftrightarrow> unat n \<le> 1"
  by (simp add: word_le_nat_alt)

lemma unat_pred: "\<not> (n :: u32) \<le> 1 \<Longrightarrow> unat (n - 1) = unat n - 1"
  by (metis unat_1 unat_sub linorder_linear)

definition prim_ok :: "prim \<Rightarrow> meter \<Rightarrow> meter \<Rightarrow> bool" where
  "prim_ok q m m' \<longleftrightarrow> meter_refs m' = prim_refs q (meter_refs m) \<and> writes m' = writes m + prim_cost q (meter_refs m) \<and>
     co_events (mt_cost m') = co_events (mt_cost m)"

lemmas prim_simps = prim_ok_def meter_refs_def writes_def count_of_update fun_eq_iff unat_eq_0 unat_le_1

lemma register_ok:
  assumes "meter_write m = Some m1" "(if n = 0 then meter_write m1 else Some m1) = Some m2"
    and "checked_add n 1 = Some n'"
  shows "mt_refs m2 = mt_refs m" "writes m2 = writes m + (if n = 0 then 2 else 1)" "co_events (mt_cost m2) = co_events (mt_cost m)"
    and "unat n' = Suc (unat n)"
  using meter_write_Some [OF assms(1)] assms(2) checked_add_SomeD [OF assms(3)] by (auto dest: meter_write_Some split: if_splits)

lemma run_prim_Some: "run_prim q m = Some m' \<Longrightarrow> prim_ok q m m'"
proof (induction q m rule: run_prim.induct)
  case (1 m)
  then show ?case by (auto simp: prim_simps dest!: meter_write_Some split: sum.splits)
next
  case (2 s m)
  then obtain m1 m2 n where r: "meter_write m = Some m1"
      "(if count_of (rf_signers (mt_refs m)) s = 0 then meter_write m1 else Some m1) = Some m2"
      "checked_add (count_of (rf_signers (mt_refs m)) s) 1 = Some n"
      "m' = m2\<lparr>mt_refs := (mt_refs m2)\<lparr>rf_signers := (rf_signers (mt_refs m2))(s \<mapsto> n)\<rparr>\<rparr>"
    by (auto simp: register_signer_def option_simps Let_def)
  show ?case using register_ok [OF r(1-3)] r(4) by (auto simp: prim_simps split: sum.splits)
next
  case (3 p m)
  then obtain m1 m2 n where r: "meter_write m = Some m1"
      "(if count_of (rf_policies (mt_refs m)) p = 0 then meter_write m1 else Some m1) = Some m2"
      "checked_add (count_of (rf_policies (mt_refs m)) p) 1 = Some n"
      "m' = m2\<lparr>mt_refs := (mt_refs m2)\<lparr>rf_policies := (rf_policies (mt_refs m2))(p \<mapsto> n)\<rparr>\<rparr>"
    by (auto simp: register_policy_def option_simps Let_def)
  show ?case using register_ok [OF r(1-3)] r(4) by (auto simp: prim_simps split: sum.splits)
next
  case (4 s m)
  then show ?case
    by (cases "count_of (rf_signers (mt_refs m)) s \<le> 1")
       (auto simp: deregister_signer_def option_simps Let_def prim_simps unat_pred dest!: meter_write_Some split: sum.splits)
next
  case (5 p m)
  then show ?case
    by (cases "count_of (rf_policies (mt_refs m)) p \<le> 1")
       (auto simp: deregister_policy_def option_simps Let_def prim_simps unat_pred dest!: meter_write_Some split: sum.splits)
qed

lemma run_prim_total:
  assumes "writes m + 2 < 2 ^ 32" "\<And>x. meter_refs m x + 1 < 2 ^ 32"
  shows "\<exists>m'. run_prim q m = Some m'"
proof -
  obtain m1 where m1: "meter_write m = Some m1" using meter_write_total assms(1) by fastforce
  obtain m2 where m2: "meter_write m1 = Some m2" using meter_write_total [of m1] meter_write_Some [OF m1] assms(1) by auto
  have n: "unat (count_of (rf_signers (mt_refs m)) s) + 1 < 2 ^ 32" "unat (count_of (rf_policies (mt_refs m)) p) + 1 < 2 ^ 32" for s p
    using assms(2) [of "Inl s"] assms(2) [of "Inr p"] by (simp_all add: meter_refs_def)
  have c: "checked_add (count_of (rf_signers (mt_refs m)) s) 1 = Some (count_of (rf_signers (mt_refs m)) s + 1)"
    "checked_add (count_of (rf_policies (mt_refs m)) p) 1 = Some (count_of (rf_policies (mt_refs m)) p + 1)" for s p
    using n by (simp_all add: checked_add_def)
  note ops = m1 m2 c register_signer_def register_policy_def deregister_signer_def deregister_policy_def Let_def
  show ?thesis
  proof (cases q)
    case (Reg x)
    then show ?thesis by (cases x) (simp_all add: ops)
  next
    case (Dereg x)
    then show ?thesis by (cases x) (simp_all add: ops)
  qed (simp add: m1)
qed

text \<open>Sequences of primitives.\<close>

fun prims_refs :: "prim list \<Rightarrow> (party \<Rightarrow> nat) \<Rightarrow> party \<Rightarrow> nat" where
  "prims_refs [] n = n"
| "prims_refs (q # qs) n = prims_refs qs (prim_refs q n)"

fun prims_cost :: "prim list \<Rightarrow> (party \<Rightarrow> nat) \<Rightarrow> nat" where
  "prims_cost [] n = 0"
| "prims_cost (q # qs) n = prim_cost q n + prims_cost qs (prim_refs q n)"

abbreviation run_prims :: "prim list \<Rightarrow> meter \<Rightarrow> meter option" where
  "run_prims \<equiv> fold_option run_prim"

definition prims_ok :: "prim list \<Rightarrow> meter \<Rightarrow> meter \<Rightarrow> bool" where
  "prims_ok qs m m' \<longleftrightarrow> meter_refs m' = prims_refs qs (meter_refs m) \<and> writes m' = writes m + prims_cost qs (meter_refs m) \<and>
     co_events (mt_cost m') = co_events (mt_cost m)"

lemma run_prims_Some: "run_prims qs m = Some m' \<Longrightarrow> prims_ok qs m m'"
proof (induction qs arbitrary: m)
  case (Cons q qs)
  then obtain m1 where "run_prim q m = Some m1" "run_prims qs m1 = Some m'" by (auto simp: option_simps)
  then show ?case using run_prim_Some [of q m m1] Cons.IH [of m1] by (auto simp: prim_ok_def prims_ok_def)
qed (simp add: prims_ok_def)

lemma prims_cost_append: "prims_cost (ps @ qs) n = prims_cost ps n + prims_cost qs (prims_refs ps n)"
  by (induction ps arbitrary: n) auto

lemma prims_refs_append: "prims_refs (ps @ qs) n = prims_refs qs (prims_refs ps n)"
  by (induction ps arbitrary: n) auto

lemma prim_cost_le: "prim_cost q n \<le> 2"
  by (cases q) auto

lemma prims_cost_le: "prims_cost qs n \<le> 2 * length qs"
proof (induction qs arbitrary: n)
  case (Cons q qs)
  then show ?case using add_mono [OF prim_cost_le [of q n] Cons.IH [of "prim_refs q n"]] by simp
qed simp

lemma prim_refs_le: "prim_refs q n x \<le> Suc (n x)"
  by (cases q) auto

lemma run_prims_total:
  "writes m + 2 * length qs < 2 ^ 32 \<Longrightarrow> (\<And>x. meter_refs m x + length qs < 2 ^ 32) \<Longrightarrow> \<exists>m'. run_prims qs m = Some m'"
proof (induction qs arbitrary: m)
  case (Cons q qs)
  have "writes m + 2 < 2 ^ 32" "meter_refs m x + 1 < 2 ^ 32" for x using Cons.prems(1) Cons.prems(2) [of x] by simp_all
  then obtain m1 where m1: "run_prim q m = Some m1" using run_prim_total by blast
  have ok: "meter_refs m1 = prim_refs q (meter_refs m)" "writes m1 = writes m + prim_cost q (meter_refs m)"
    using run_prim_Some [OF m1] by (simp_all add: prim_ok_def)
  have "writes m1 + 2 * length qs < 2 ^ 32" using ok(2) prim_cost_le [of q "meter_refs m"] Cons.prems(1) by simp
  moreover have "meter_refs m1 x + length qs < 2 ^ 32" for x
    using ok(1) prim_refs_le [of q "meter_refs m" x] Cons.prems(2) [of x] by simp
  ultimately show ?case using Cons.IH [of m1] m1 by auto
qed simp

text \<open>The operations of the meter are such sequences.\<close>

definition hook_prims :: "hooks \<Rightarrow> address \<Rightarrow> prim list" where
  "hook_prims h p = (if p = hk_spending_limit h \<or> p = hk_interpreter h then [Write] else [])"

abbreviation dereg_signers :: "signer list \<Rightarrow> prim list" where "dereg_signers ss \<equiv> map (\<lambda>s. Dereg (Inl s)) ss"
abbreviation reg_signers :: "signer list \<Rightarrow> prim list" where "reg_signers ss \<equiv> map (\<lambda>s. Reg (Inl s)) ss"

definition signers_prims :: "installed_rule \<Rightarrow> signer list \<Rightarrow> prim list" where
  "signers_prims r ss = Write # dereg_signers (missing (ir_signers r) ss) @ reg_signers (missing ss (ir_signers r))"

definition add_policy_prims :: "hooks \<Rightarrow> address \<Rightarrow> prim list" where
  "add_policy_prims h p = Write # Reg (Inr p) # hook_prims h p"

definition remove_policy_prims :: "hooks \<Rightarrow> address \<Rightarrow> prim list" where
  "remove_policy_prims h p = Write # hook_prims h p @ [Dereg (Inr p)]"

definition remove_rule_prims :: "hooks \<Rightarrow> installed_rule \<Rightarrow> prim list" where
  "remove_rule_prims h r =
     concat (map (\<lambda>p. hook_prims h (po_policy p) @ [Dereg (Inr (po_policy p))]) (ir_policies r)) @ dereg_signers (ir_signers r) @ [Write]"

definition add_rule_prims :: "hooks \<Rightarrow> installed_rule \<Rightarrow> prim list" where
  "add_rule_prims h r =
     reg_signers (ir_signers r) @ concat (map (\<lambda>p. Reg (Inr (po_policy p)) # hook_prims h (po_policy p)) (ir_policies r)) @ [Write]"

lemma fold_option_concat: "(\<And>x m. f x m = fold_option g (pr x) m) \<Longrightarrow> fold_option f xs m = fold_option g (concat (map pr xs)) m"
proof (induction xs arbitrary: m)
  case (Cons x xs)
  then have "fold_option f xs = fold_option g (concat (map pr xs))" by blast
  then show ?case using Cons.prems [of x m] by (simp add: fold_option_append)
qed simp

lemma run_singletons: "fold_option f xs m = run_prims (map q xs) m" if "\<And>x m. f x m = run_prim (q x) m"
  using fold_option_concat [of f run_prim "\<lambda>x. [q x]"] by (simp add: that fold_option_fun concat_map_singleton)

lemma meter_hook_prims: "meter_hook h p m = run_prims (hook_prims h p) m"
  by (simp add: meter_hook_def hook_prims_def fold_option_fun)

lemma meter_ops_prims:
  shows "meter_reconcile_signers r ss m = run_prims (signers_prims r ss) m"
    and "meter_add_policy h p m = run_prims (add_policy_prims h p) m"
    and "meter_remove_policy h p m = run_prims (remove_policy_prims h p) m"
    and "meter_remove_rule h r m = run_prims (remove_rule_prims h r) m"
    and "meter_add_rule h r m = map_option (Pair 0) (run_prims (add_rule_prims h r) m)"
proof -
  have s: "fold_option deregister_signer ss m = run_prims (dereg_signers ss) m"
    "fold_option register_signer ss m = run_prims (reg_signers ss) m" for ss m
    by (rule run_singletons, simp)+
  show "meter_reconcile_signers r ss m = run_prims (signers_prims r ss) m"
    by (simp add: meter_reconcile_signers_def signers_prims_def fold_option_fun s)
  show "meter_add_policy h p m = run_prims (add_policy_prims h p) m"
    by (simp add: meter_add_policy_def add_policy_prims_def meter_hook_prims fold_option_fun)
  show "meter_remove_policy h p m = run_prims (remove_policy_prims h p) m"
    by (simp add: meter_remove_policy_def remove_policy_prims_def meter_hook_prims fold_option_fun)
  have rp: "fold_option (\<lambda>p m. do { m' \<leftarrow> meter_hook h (po_policy p) m; deregister_policy (po_policy p) m' }) ps m =
      run_prims (concat (map (\<lambda>p. hook_prims h (po_policy p) @ [Dereg (Inr (po_policy p))]) ps)) m" for ps m
    by (rule fold_option_concat) (simp add: meter_hook_prims fold_option_fun)
  show "meter_remove_rule h r m = run_prims (remove_rule_prims h r) m"
    by (simp add: meter_remove_rule_def remove_rule_prims_def fold_option_fun s rp Option.bind_assoc)
  have ap: "fold_option (\<lambda>p m. do { m' \<leftarrow> register_policy (po_policy p) m; meter_hook h (po_policy p) m' }) ps m =
      run_prims (concat (map (\<lambda>p. Reg (Inr (po_policy p)) # hook_prims h (po_policy p)) ps)) m" for ps m
    by (rule fold_option_concat) (simp add: meter_hook_prims fold_option_fun)
  show "meter_add_rule h r m = map_option (Pair 0) (run_prims (add_rule_prims h r) m)"
    by (simp add: meter_add_rule_def add_rule_prims_def fold_option_fun s ap Option.bind_assoc map_conv_bind_option comp_def)
qed

text \<open>The references a rule of a shape holds, and the meter as an editor of it.\<close>

definition shape_refs :: "rule_shape \<Rightarrow> party \<Rightarrow> nat" where
  "shape_refs sh x = (case x of Inl s \<Rightarrow> of_bool (s \<in> set (sh_signers sh)) | Inr p \<Rightarrow> of_bool (p \<in> dom (sh_policies sh)))"

definition meter_holds :: "(party \<Rightarrow> nat) \<Rightarrow> installed_rule \<Rightarrow> rule_shape \<Rightarrow> address set \<Rightarrow> meter \<Rightarrow> bool" where
  "meter_holds base c sh T m \<longleftrightarrow> meter_refs m = (\<lambda>x. base x + shape_refs sh x) \<and> co_events (mt_cost m) = 0"

lemma hook_prims_refs [simp]: "prims_refs (hook_prims h p) n = n"
  by (simp add: hook_prims_def)

lemma dereg_refs: "distinct xs \<Longrightarrow> prims_refs (map (\<lambda>x. Dereg (f x)) xs) n x = n x - of_bool (x \<in> f ` set xs)" if "inj f"
proof (induction xs arbitrary: n)
  case (Cons y ys)
  then show ?case using that by (auto simp: image_iff dest: injD)
qed simp

lemma reg_refs: "distinct xs \<Longrightarrow> prims_refs (map (\<lambda>x. Reg (f x)) xs) n x = n x + of_bool (x \<in> f ` set xs)" if "inj f"
proof (induction xs arbitrary: n)
  case (Cons y ys)
  then show ?case using that by (auto simp: image_iff dest: injD)
qed simp

lemma signers_prims_refs:
  assumes "distinct (ir_signers c)" "distinct ss"
  shows "prims_refs (signers_prims c ss) n x = n x - of_bool (x \<in> Inl ` (set (ir_signers c) - set ss)) +
    of_bool (x \<in> Inl ` (set ss - set (ir_signers c)))"
  using assms
  by (simp add: signers_prims_def prims_refs_append dereg_refs [where f = Inl] reg_refs [where f = Inl] missing_def) (auto simp: image_iff)

interpretation meter: rule_editor "meter_effects h" dig "meter_holds base" for h dig base
proof
  fix c sh T m ss m'
  assume h: "meter_holds base c sh T m" "sh_signers sh = ir_signers c" "distinct ss" "distinct (ir_signers c)"
    and "fx_reconcile_signers (meter_effects h) c ss m = Some m'"
  then have "meter_refs m' = prims_refs (signers_prims c ss) (meter_refs m)" "co_events (mt_cost m') = co_events (mt_cost m)"
    using run_prims_Some [of "signers_prims c ss" m m'] by (simp_all add: meter_effects_def meter_ops_prims prims_ok_def)
  then show "meter_holds base c (sh\<lparr>sh_signers := ss\<rparr>) T m'"
    using h by (auto simp: meter_holds_def fun_eq_iff signers_prims_refs shape_refs_def split: sum.splits)
next
  fix c sh T m p m'
  assume h: "meter_holds base c sh T m" "p \<in> dom (sh_policies sh)" and "fx_remove_policy (meter_effects h) c p m = Some m'"
  then have "meter_refs m' = prims_refs (remove_policy_prims h p) (meter_refs m)" "co_events (mt_cost m') = co_events (mt_cost m)"
    using run_prims_Some [of "remove_policy_prims h p" m m'] by (simp_all add: meter_effects_def meter_ops_prims prims_ok_def)
  then show "meter_holds base c (sh\<lparr>sh_policies := (sh_policies sh)(p := None)\<rparr>) (T - {p}) m'"
    using h by (auto simp: meter_holds_def fun_eq_iff remove_policy_prims_def prims_refs_append shape_refs_def split: sum.splits)
next
  fix c sh T m p v m'
  assume h: "meter_holds base c sh T m" "p \<notin> dom (sh_policies sh)" and "fx_add_policy (meter_effects h) c p v m = Some m'"
  then have "meter_refs m' = prims_refs (add_policy_prims h p) (meter_refs m)" "co_events (mt_cost m') = co_events (mt_cost m)"
    using run_prims_Some [of "add_policy_prims h p" m m'] by (simp_all add: meter_effects_def meter_ops_prims prims_ok_def)
  then show "meter_holds base c (sh\<lparr>sh_policies := (sh_policies sh)(p \<mapsto> dig v)\<rparr>) T m'"
    using h by (auto simp: meter_holds_def fun_eq_iff add_policy_prims_def shape_refs_def split: sum.splits)
next
  fix c sh T m vu m'
  assume "meter_holds base c sh T m" "fx_set_valid_until (meter_effects h) c vu m = Some m'"
  then show "meter_holds base c (sh\<lparr>sh_valid_until := vu\<rparr>) T m'"
    by (auto simp: meter_holds_def meter_effects_def meter_refs_def shape_refs_def fun_eq_iff dest!: meter_write_Some split: sum.splits)
qed

end
