(* ===== verification/Account_Reconcile.thy ===== *)
theory Account_Reconcile
  imports Account_Delta "HOL-Library.Multiset"
begin

text \<open>
  Reconciliation as a whole: whatever way each rule takes, the rules OpenZeppelin stores afterwards
  are those the document asks for, and the records say so; the same as after a full replacement.
\<close>

section \<open>Records and stored rules\<close>

definition agrees :: "(policy_param \<Rightarrow> bytes32) \<Rightarrow> 'w oz_view \<Rightarrow> 'w \<Rightarrow> installed_rule list \<Rightarrow> bool" where
  "agrees dig view w rs \<longleftrightarrow> distinct (map ir_id rs) \<and> dom (view w) = ir_id ` set rs \<and>
     (\<forall>r \<in> set rs. \<exists>v. view w (ir_id r) = Some v \<and> has_shape dig v r (shape_of r))"

definition wf_installed :: "installed_rule \<Rightarrow> bool" where
  "wf_installed r \<longleftrightarrow> wf_policies r \<and> distinct (ir_signers r) \<and> (ir_recovery r \<longrightarrow> ir_name r = ''recovery'')"

fun distinct_slots :: "installed_rule list \<Rightarrow> bool" where
  "distinct_slots [] \<longleftrightarrow> True"
| "distinct_slots (r # rs) \<longleftrightarrow> \<not> list_ex (same_slot r) rs \<and> distinct_slots rs"

lemma same_slot_equiv:
  "same_slot a a" "same_slot a b \<Longrightarrow> same_slot b a" "same_slot a b \<Longrightarrow> same_slot b c \<Longrightarrow> same_slot a c"
  by (auto simp: same_slot_def)

lemma with_id_simps [simp]:
  "ir_id (with_id r i) = i" "ir_recovery (with_id r i) = ir_recovery r" "ir_name (with_id r i) = ir_name r"
  "ir_context_type (with_id r i) = ir_context_type r" "ir_valid_until (with_id r i) = ir_valid_until r"
  "ir_signers (with_id r i) = ir_signers r" "ir_policies (with_id r i) = ir_policies r"
  "shape_of (with_id r i) = shape_of r" "wf_installed (with_id r i) = wf_installed r" "has_shape dig v (with_id r i) sh = has_shape dig v r sh"
  by (simp_all add: with_id_def shape_of_def wf_installed_def wf_policies_def has_shape_def)

lemma agrees_mset:
  assumes "agrees dig view w rs" "mset rs = mset rs'"
  shows "agrees dig view w rs'"
proof -
  have "set rs = set rs'" using assms(2) by (rule mset_eq_setD)
  moreover have "mset (map ir_id rs) = mset (map ir_id rs')" using assms(2) by (simp add: mset_map)
  then have "distinct (map ir_id rs) = distinct (map ir_id rs')" by (rule mset_eq_imp_distinct_iff)
  ultimately show ?thesis using assms(1) by (simp add: agrees_def)
qed

lemma policy_map_cong:
  assumes "set ps = set qs" "distinct (map po_policy ps)" "distinct (map po_policy qs)"
  shows "policy_map ps = policy_map qs"
proof (rule ext)
  fix a
  have "policy_map ps a = Some x \<longleftrightarrow> policy_map qs a = Some x" for x
    unfolding policy_map_eq_Some [OF assms(2)] policy_map_eq_Some [OF assms(3)] assms(1) ..
  then show "policy_map ps a = policy_map qs a" by (metis option.exhaust)
qed

lemma collect_policies_eq:
  "collect_policies ps params m = Some m' \<Longrightarrow> map po_params ps = map dig params \<Longrightarrow> distinct (map po_policy ps) \<Longrightarrow>
   dom m \<inter> po_policy ` set ps = {} \<Longrightarrow>
   (\<lambda>p. map_option dig (m' p)) = (\<lambda>p. map_option dig (m p)) ++ policy_map ps"
proof (induction ps params m rule: collect_policies.induct)
  case (3 p ps v params m)
  have pre: "map po_params ps = map dig params" "distinct (map po_policy ps)" "dom (m(po_policy p \<mapsto> v)) \<inter> po_policy ` set ps = {}"
    using "3.prems" by auto
  have IH: "(\<lambda>q. map_option dig (m' q)) = (\<lambda>q. map_option dig ((m(po_policy p \<mapsto> v)) q)) ++ policy_map ps"
    using "3.IH" [OF _ pre] "3.prems"(1) by (simp only: collect_policies.simps)
  have n: "policy_map ps (po_policy p) = None" using "3.prems"(3) by (simp add: policy_map_eq_None)
  show ?case unfolding IH
  proof (rule ext)
    fix q
    show "((\<lambda>q. map_option dig ((m(po_policy p \<mapsto> v)) q)) ++ policy_map ps) q = ((\<lambda>q. map_option dig (m q)) ++ policy_map (p # ps)) q"
      using n "3.prems"(2) by (auto simp: map_add_def policy_map_def split: option.splits)
  qed
qed (auto simp: policy_map_def)

section \<open>What each way of reconciling a rule does\<close>

lemma agrees_add:
  assumes laws: "oz_laws Z view" and "apply_add_rule Z d params a = Some (i, a')" "agrees dig view (ap_world a) rs"
    and "wf_installed d" "aligned dig d params"
  shows "agrees dig view (ap_world a') (with_id d i # rs) \<and> ap_rule a' = ap_rule a"
proof -
  obtain ps where ps: "collect_policies (ir_policies d) params Map.empty = Some ps"
    and add: "oz_add_context_rule Z (ir_context_type d) (ir_name d) (ir_valid_until d) (ir_signers d) ps (ap_world a) = Some (i, ap_world a')"
    and r: "ap_rule a' = ap_rule a"
    using assms(2) by (auto simp: apply_add_rule_def option_simps)
  obtain ids where v: "view (ap_world a) i = None"
      "view (ap_world a') = (view (ap_world a))(i \<mapsto> \<lparr>rv_name = ir_name d, rv_context_type = ir_context_type d,
         rv_valid_until = ir_valid_until d, rv_signers = ir_signers d, rv_policies = (\<lambda>p. map_option (Pair (ids p)) (ps p))\<rparr>)"
    using oz_add [OF laws add] by blast
  have "(\<lambda>p. map_option dig (ps p)) = policy_map (ir_policies d)"
    using collect_policies_eq [OF ps, of dig] assms(4,5) by (simp add: wf_installed_def wf_policies_def aligned_def)
  then have sh: "has_shape dig \<lparr>rv_name = ir_name d, rv_context_type = ir_context_type d,
         rv_valid_until = ir_valid_until d, rv_signers = ir_signers d, rv_policies = (\<lambda>p. map_option (Pair (ids p)) (ps p))\<rparr> d (shape_of d)"
    by (simp add: has_shape_def shape_of_def option.map_comp comp_def)
  have "i \<notin> ir_id ` set rs" using v(1) assms(3) by (auto simp: agrees_def domIff)
  then show ?thesis using assms(3) v(2) sh r by (auto simp: agrees_def image_iff)
qed

lemma agrees_remove:
  assumes laws: "oz_laws Z view" and "apply_remove_rule Z c a = Some a'" "agrees dig view (ap_world a) (c # rs)"
  shows "agrees dig view (ap_world a') rs \<and> ap_rule a' = ap_rule a"
proof -
  have "oz_remove_context_rule Z (ir_id c) (ap_world a) = Some (ap_world a')" and r: "ap_rule a' = ap_rule a"
    using assms(2) by (auto simp: apply_remove_rule_def option_simps)
  then have "view (ap_world a') = (view (ap_world a))(ir_id c := None)" by (metis oz_remove [OF laws])
  then show ?thesis using assms(3) r by (auto simp: agrees_def) (metis image_eqI)
qed

lemma agrees_replace:
  assumes laws: "oz_laws Z view" and "replace_rule (apply_effects Z) c d params a = Some (i, a')" "agrees dig view (ap_world a) (c # rs)"
    and "wf_installed d" "aligned dig d params"
  shows "agrees dig view (ap_world a') (with_id d i # rs) \<and> ap_rule a' = ap_rule a"
proof -
  obtain a1 where a1: "apply_remove_rule Z c a = Some a1" "apply_add_rule Z d params a1 = Some (i, a')"
    using assms(2) by (auto simp: replace_rule_def apply_effects_def option_simps)
  show ?thesis using agrees_remove [OF laws a1(1) assms(3)] agrees_add [OF laws a1(2) _ assms(4,5), of rs] by simp
qed

lemma slot_shape:
  assumes "same_slot c d" "wf_installed c" "wf_installed d" "has_shape dig v c (shape_of d)"
  shows "has_shape dig v d (shape_of d)"
  using assms by (auto simp: same_slot_def wf_installed_def has_shape_def)

lemma agrees_upd:
  assumes "agrees dig view w (c # rs)" "view w' = (view w)(ir_id c \<mapsto> v)" "has_shape dig v d (shape_of d)"
  shows "agrees dig view w' (with_id d (ir_id c) # rs)"
  using assms by (auto simp: agrees_def) (metis image_eqI)

lemma unchanged_shape:
  assumes "unchanged c d" "wf_installed c" "wf_installed d"
  shows "shape_of c = shape_of d"
proof -
  have "set (ir_policies c) = set (ir_policies d)" using assms(1) by (auto simp: unchanged_def list_all_iff)
  then have "policy_map (ir_policies c) = policy_map (ir_policies d)"
    using assms(2,3) by (intro policy_map_cong) (simp_all add: wf_installed_def wf_policies_def)
  then show ?thesis using assms(1) by (simp add: shape_of_def unchanged_def)
qed

lemma agrees_keep:
  assumes "agrees dig view w (c # rs)" "unchanged c d" "same_slot c d" "wf_installed c" "wf_installed d"
  shows "agrees dig view w (with_id d (ir_id c) # rs)"
proof -
  obtain v where "view w (ir_id c) = Some v" "has_shape dig v c (shape_of c)" using assms(1) by (auto simp: agrees_def)
  then show ?thesis
    using agrees_upd [OF assms(1), of w v d] slot_shape [OF assms(3-5)] unchanged_shape [OF assms(2,4,5)] by (simp add: fun_upd_idem)
qed

lemma agrees_edit:
  assumes laws: "oz_laws Z view" and "edit (apply_effects Z) c d params a = Some (True, a')" "agrees dig view (ap_world a) (c # rs)"
    and "wf_installed c" "wf_installed d" "aligned dig d params" "same_slot c d"
    and cache: "\<forall>r. ap_rule a = Some r \<longrightarrow> oz_id r \<noteq> ir_id c"
  shows "agrees dig view (ap_world a') (with_id d (ir_id c) # rs) \<and>
    (\<forall>r. ap_rule a' = Some r \<longrightarrow> ap_rule a = Some r \<or> oz_id r = ir_id c)"
proof -
  obtain v where v: "view (ap_world a) (ir_id c) = Some v" "has_shape dig v c (shape_of c)"
    using assms(3) by (auto simp: agrees_def)
  have h: "apply_holds dig view (view (ap_world a)) (ap_rule a) c (shape_of c) (dom (policy_map (ir_policies c))) a"
    by (rule apply_holdsI [OF _ v(2)]) (use v(1) cache in \<open>auto simp: cached_ids_def fun_upd_idem\<close>)
  obtain T where "apply_holds dig view (view (ap_world a)) (ap_rule a) c (shape_of d) T a'"
    using rule_editor.edited [OF apply_editor [OF laws] assms(2) h] assms(4-6) by (auto simp: wf_installed_def)
  then obtain v' where v': "view (ap_world a') = (view (ap_world a))(ir_id c \<mapsto> v')" "has_shape dig v' c (shape_of d)"
      "cached_ids (ap_rule a) (ir_id c) T (rv_policies v') (ap_rule a')"
    by (rule apply_holdsE)
  show ?thesis
    using agrees_upd [OF assms(3) v'(1) slot_shape [OF assms(7,4,5) v'(2)]] v'(3) by (auto simp: cached_ids_def)
qed

section \<open>The delta\<close>

text \<open>The records that wait for their rule of the document.\<close>

definition pending :: "installed_rule list \<Rightarrow> installed_rule list \<Rightarrow> installed_rule list" where
  "pending cs ds = [c \<leftarrow> cs. list_ex (same_slot c) ds]"

lemma pending_None:
  "find (\<lambda>c. same_slot c d) cs = None \<Longrightarrow> pending cs (d # ds) = pending cs ds"
  by (auto simp: pending_def find_None_iff intro!: filter_cong)

lemma pending_Some:
  assumes "distinct_slots cs" "\<not> list_ex (same_slot d) ds" "find (\<lambda>c. same_slot c d) cs = Some c"
  shows "mset (pending cs (d # ds)) = add_mset c (mset (pending cs ds))" "c \<in> set cs" "same_slot c d"
proof -
  have "mset (pending cs (d # ds)) = add_mset c (mset (pending cs ds)) \<and> c \<in> set cs \<and> same_slot c d"
    using assms(1,3)
  proof (induction cs)
    case (Cons x xs)
    show ?case
    proof (cases "same_slot x d")
      case True
      then have c: "c = x" using Cons.prems(2) by simp
      have "\<not> same_slot y d" if "y \<in> set xs" for y
      proof
        assume "same_slot y d"
        then have "same_slot x y" using same_slot_equiv(3) [OF True same_slot_equiv(2)] by blast
        then show False using that Cons.prems(1) by (auto simp: list_ex_iff)
      qed
      then have "pending xs (d # ds) = pending xs ds" by (auto simp: pending_def intro!: filter_cong)
      moreover have "\<not> list_ex (same_slot x) ds"
      proof
        assume "list_ex (same_slot x) ds"
        then obtain y where "y \<in> set ds" "same_slot d y" using same_slot_equiv(3) [OF same_slot_equiv(2) [OF True]] by (auto simp: list_ex_iff)
        then show False using assms(2) by (auto simp: list_ex_iff)
      qed
      ultimately show ?thesis using c True by (simp add: pending_def)
    next
      case False
      then show ?thesis using Cons by (auto simp: pending_def)
    qed
  qed simp
  then show "mset (pending cs (d # ds)) = add_mset c (mset (pending cs ds))" "c \<in> set cs" "same_slot c d" by simp_all
qed

lemma record_step_live [simp]: "record_step True x s = s"
  by (simp add: record_step_def)

lemma removal_agrees:
  assumes laws: "oz_laws Z view"
  shows "fold_option (run_remove h Z True ds) xs s = Some s' \<Longrightarrow> agrees dig view (ap_world (rn_apply s)) (ys @ xs) \<Longrightarrow>
    agrees dig view (ap_world (rn_apply s')) (ys @ pending xs ds) \<and> ap_rule (rn_apply s') = ap_rule (rn_apply s) \<and> rn_next s' = rn_next s"
proof (induction xs arbitrary: s ys)
  case Nil
  then show ?case by (simp add: pending_def)
next
  case (Cons c xs)
  obtain s1 where s1: "run_remove h Z True ds c s = Some s1" "fold_option (run_remove h Z True ds) xs s1 = Some s'"
    using Cons.prems(1) by (auto simp: option_simps)
  show ?case
  proof (cases "list_ex (same_slot c) ds")
    case True
    then have "s1 = s" using s1(1) by (simp add: run_remove_def)
    then show ?thesis using Cons.IH [OF s1(2), of "ys @ [c]"] Cons.prems(2) True by (simp add: pending_def)
  next
    case False
    then obtain a where a: "apply_remove_rule Z c (rn_apply s) = Some a" "rn_apply s1 = a" "rn_next s1 = rn_next s"
      using s1(1) by (auto simp: run_remove_def option_simps Let_def)
    have "agrees dig view (ap_world (rn_apply s)) (c # ys @ xs)" by (rule agrees_mset [OF Cons.prems(2)]) simp
    from agrees_remove [OF laws a(1) this]
    show ?thesis using Cons.IH [OF s1(2), of ys] a False by (simp add: pending_def)
  qed
qed

lemma edit_same_result: "edit fx c d params f = Some (b, f1) \<Longrightarrow> edit fx' c d params f' = Some (b', f2) \<Longrightarrow> b = b'"
  unfolding edit_eq by (auto simp: option_simps split: option.splits)

definition delta_inv :: "(policy_param \<Rightarrow> bytes32) \<Rightarrow> 'w oz_view \<Rightarrow> installed_rule list \<Rightarrow> installed_rule list \<Rightarrow> 'w run_state \<Rightarrow> bool"
  where
  "delta_inv dig view cs ds s \<longleftrightarrow> agrees dig view (ap_world (rn_apply s)) (rn_next s @ pending cs ds) \<and>
     (\<forall>r. ap_rule (rn_apply s) = Some r \<longrightarrow> oz_id r \<notin> ir_id ` set (pending cs ds))"

lemma delta_step:
  assumes laws: "oz_laws Z view" and "run_rule h Z mode True cs (d, params) s = Some s'" "delta_inv dig view cs (d # ds) s"
    and "distinct_slots cs" "list_all wf_installed cs" "wf_installed d" "aligned dig d params" "\<not> list_ex (same_slot d) ds"
  shows "delta_inv dig view cs ds s' \<and> (\<exists>i. rn_next s' = rn_next s @ [with_id d i])"
proof (cases "find (\<lambda>c. same_slot c d) cs")
  case None
  then obtain i a where a: "apply_add_rule Z d params (rn_apply s) = Some (i, a)" "rn_apply s' = a" "rn_next s' = rn_next s @ [with_id d i]"
    using assms(2) by (auto simp: run_rule_def run_add_def option_simps Let_def push_next_def)
  have "agrees dig view (ap_world (rn_apply s)) (rn_next s @ pending cs ds)"
    using assms(3) pending_None [OF None] by (simp add: delta_inv_def)
  from agrees_add [OF laws a(1) this assms(6,7)]
  have g: "agrees dig view (ap_world a) (with_id d i # rn_next s @ pending cs ds)" "ap_rule a = ap_rule (rn_apply s)" by simp_all
  have "agrees dig view (ap_world a) ((rn_next s @ [with_id d i]) @ pending cs ds)" by (rule agrees_mset [OF g(1)]) simp
  then show ?thesis using a g(2) assms(3) pending_None [OF None] by (auto simp: delta_inv_def)
next
  case (Some c)
  note p = pending_Some [OF assms(4,8) Some]
  have wfc: "wf_installed c" using p(2) assms(5) by (simp add: list_all_iff)
  have g: "agrees dig view (ap_world (rn_apply s)) (c # rn_next s @ pending cs ds)"
    by (rule agrees_mset [where rs = "rn_next s @ pending cs (d # ds)"]) (use assms(3) p(1) in \<open>simp_all add: delta_inv_def\<close>)
  have ids: "ir_id c \<notin> ir_id ` set (pending cs ds)" using g by (auto simp: agrees_def)
  have set: "set (pending cs (d # ds)) = insert c (set (pending cs ds))" using arg_cong [OF p(1), of set_mset] by simp
  have fin: "delta_inv dig view cs ds s' \<and> (\<exists>i. rn_next s' = rn_next s @ [with_id d i])"
    if "agrees dig view (ap_world (rn_apply s')) (with_id d i # rn_next s @ pending cs ds)" "rn_next s' = rn_next s @ [with_id d i]"
      "\<forall>r. ap_rule (rn_apply s') = Some r \<longrightarrow> ap_rule (rn_apply s) = Some r \<or> oz_id r = ir_id c" for i
  proof -
    have "agrees dig view (ap_world (rn_apply s')) ((rn_next s @ [with_id d i]) @ pending cs ds)"
      by (rule agrees_mset [OF that(1)]) simp
    moreover have "oz_id r \<notin> ir_id ` set (pending cs ds)" if "ap_rule (rn_apply s') = Some r" for r
      using that \<open>\<forall>r. ap_rule (rn_apply s') = Some r \<longrightarrow> _ r\<close> assms(3) set ids by (auto simp: delta_inv_def)
    ultimately show ?thesis using that(2) by (auto simp: delta_inv_def)
  qed
  show ?thesis
  proof (cases "unchanged c d")
    case True
    then have "s' = push_next d (ir_id c) s" using assms(2) Some by (simp add: run_rule_def)
    then show ?thesis using agrees_keep [OF g True p(3) wfc assms(6)] by (intro fin) (simp_all add: push_next_def)
  next
    case False
    then have r: "run_changed h Z mode True c d params s = Some s'" using assms(2) Some by (simp add: run_rule_def)
    obtain e edited i replaced where e: "edit (meter_effects h) c d params (new_meter (rn_refs s)) = Some (e, edited)"
      and rp: "replace_rule (meter_effects h) c d params (new_meter (rn_refs s)) = Some (i, replaced)"
      using r by (auto simp: run_changed_def option_simps)
    define in_place where "in_place \<longleftrightarrow> (e \<and> (case mode of Mode_Cheapest \<Rightarrow> cost_le (mt_cost edited) (mt_cost replaced)
                                            | Mode_InPlace \<Rightarrow> True | _ \<Rightarrow> False))"
    show ?thesis
    proof (cases in_place)
      case True
      obtain b a where a: "edit (apply_effects Z) c d params (rn_apply s) = Some (b, a)"
          "ap_world (rn_apply s') = ap_world a" "ap_rule (rn_apply s') = ap_rule a" "rn_next s' = rn_next s @ [with_id d (ir_id c)]"
        using r e rp True by (auto simp: run_changed_def option_simps Let_def push_next_def in_place_def)
      have b using edit_same_result [OF e a(1)] True by (simp add: in_place_def)
      moreover have "\<forall>r. ap_rule (rn_apply s) = Some r \<longrightarrow> oz_id r \<noteq> ir_id c" using assms(3) set by (auto simp: delta_inv_def)
      ultimately show ?thesis
        using agrees_edit [OF laws _ g wfc assms(6,7) p(3)] a by (intro fin) auto
    next
      case False
      then obtain j a where a: "replace_rule (apply_effects Z) c d params (rn_apply s) = Some (j, a)"
          "rn_apply s' = a" "rn_next s' = rn_next s @ [with_id d j]"
        using r e rp by (auto simp: run_changed_def option_simps Let_def push_next_def in_place_def)
      show ?thesis using agrees_replace [OF laws a(1) g assms(6,7)] a by (intro fin [of j]) auto
    qed
  qed
qed

definition wf_desired :: "(policy_param \<Rightarrow> bytes32) \<Rightarrow> (installed_rule \<times> policy_param list) list \<Rightarrow> bool" where
  "wf_desired dig ds \<longleftrightarrow> distinct_slots (map fst ds) \<and> list_all (\<lambda>(d, params). wf_installed d \<and> aligned dig d params) ds"

definition wf_records :: "installed_rule list \<Rightarrow> bool" where
  "wf_records cs \<longleftrightarrow> distinct_slots cs \<and> list_all wf_installed cs"

abbreviation erase_id :: "installed_rule \<Rightarrow> installed_rule" where "erase_id r \<equiv> with_id r 0"

lemma with_id_with_id [simp]: "with_id (with_id r i) j = with_id r j"
  by (simp add: with_id_def)

lemma delta_run:
  assumes laws: "oz_laws Z view" and wf: "wf_records cs"
  shows "fold_option (run_rule h Z mode True cs) ds s = Some s' \<Longrightarrow> delta_inv dig view cs (map fst ds) s \<Longrightarrow> wf_desired dig ds \<Longrightarrow>
    agrees dig view (ap_world (rn_apply s')) (rn_next s') \<and>
    map erase_id (rn_next s') = map erase_id (rn_next s) @ map (erase_id \<circ> fst) ds"
proof (induction ds arbitrary: s)
  case Nil
  then show ?case by (simp add: delta_inv_def pending_def)
next
  case (Cons x ds)
  obtain d params where x: "x = (d, params)" by (cases x)
  obtain s1 where s1: "run_rule h Z mode True cs (d, params) s = Some s1" "fold_option (run_rule h Z mode True cs) ds s1 = Some s'"
    using Cons.prems(1) x by (auto simp: option_simps)
  have "delta_inv dig view cs (map fst ds) s1 \<and> (\<exists>i. rn_next s1 = rn_next s @ [with_id d i])"
    using delta_step [OF laws s1(1), of dig "map fst ds"] Cons.prems(2,3) wf x by (simp add: wf_desired_def wf_records_def)
  then show ?case using Cons.IH [OF s1(2)] Cons.prems(3) x by (auto simp: wf_desired_def)
qed

lemma remove_all_agrees:
  assumes laws: "oz_laws Z view"
  shows "fold_option (apply_remove_rule Z) cs a = Some a' \<Longrightarrow> agrees dig view (ap_world a) cs \<Longrightarrow> agrees dig view (ap_world a') []"
proof (induction cs arbitrary: a)
  case (Cons c cs)
  then obtain a1 where "apply_remove_rule Z c a = Some a1" "fold_option (apply_remove_rule Z) cs a1 = Some a'" by (auto simp: option_simps)
  then show ?case using Cons.IH agrees_remove [OF laws _ Cons.prems(2)] by blast
qed simp

lemma add_all_agrees:
  assumes laws: "oz_laws Z view"
  shows "add_all Z ds next a = Some (next', a') \<Longrightarrow> agrees dig view (ap_world a) next \<Longrightarrow> wf_desired dig ds \<Longrightarrow>
    agrees dig view (ap_world a') next' \<and> map erase_id next' = map erase_id next @ map (erase_id \<circ> fst) ds"
proof (induction ds arbitrary: "next" a)
  case (Cons x ds)
  obtain d params where x: "x = (d, params)" by (cases x)
  obtain i a1 where a1: "apply_add_rule Z d params a = Some (i, a1)" "add_all Z ds (next @ [with_id d i]) a1 = Some (next', a')"
    using Cons.prems(1) x by (auto simp: option_simps)
  have "agrees dig view (ap_world a1) (with_id d i # next)"
    using agrees_add [OF laws a1(1) Cons.prems(2)] Cons.prems(3) x by (simp add: wf_desired_def)
  then have "agrees dig view (ap_world a1) (next @ [with_id d i])" by (rule agrees_mset) simp
  then show ?case using Cons.IH [OF a1(2)] Cons.prems(3) x by (auto simp: wf_desired_def)
qed simp

section \<open>What a reconciliation leaves\<close>

text \<open>The rules OpenZeppelin stores, up to their ids: name, scope, signers, policies with the digest of their parameters, expiry.\<close>

definition stored_rules :: "(policy_param \<Rightarrow> bytes32) \<Rightarrow> 'w oz_view \<Rightarrow> 'w \<Rightarrow> (string \<times> context_rule_type \<times> rule_shape) set" where
  "stored_rules dig view w =
     {(rv_name v, rv_context_type v, sh) | v sh. v \<in> ran (view w) \<and>
        sh = \<lparr>sh_signers = rv_signers v, sh_policies = (\<lambda>p. map_option (dig \<circ> snd) (rv_policies v p)), sh_valid_until = rv_valid_until v\<rparr>}"

lemma agrees_stored:
  assumes "agrees dig view w rs"
  shows "stored_rules dig view w = (\<lambda>r. (ir_name r, ir_context_type r, shape_of r)) ` set rs"
proof (intro equalityI subsetI)
  fix x
  assume "x \<in> stored_rules dig view w"
  then obtain i v where v: "view w i = Some v"
    and x: "x = (rv_name v, rv_context_type v, \<lparr>sh_signers = rv_signers v,
      sh_policies = (\<lambda>p. map_option (dig \<circ> snd) (rv_policies v p)), sh_valid_until = rv_valid_until v\<rparr>)"
    by (auto simp: stored_rules_def ran_def)
  have "i \<in> ir_id ` set rs" using v assms domI [of "view w" i v] by (simp add: agrees_def)
  then obtain r where "r \<in> set rs" "ir_id r = i" by auto
  moreover have "has_shape dig v r (shape_of r)" using calculation v assms by (auto simp: agrees_def)
  ultimately show "x \<in> (\<lambda>r. (ir_name r, ir_context_type r, shape_of r)) ` set rs"
    using x by (auto simp: has_shape_def image_iff intro!: bexI [of _ r])
next
  fix x
  assume "x \<in> (\<lambda>r. (ir_name r, ir_context_type r, shape_of r)) ` set rs"
  then obtain r where r: "r \<in> set rs" "x = (ir_name r, ir_context_type r, shape_of r)" by auto
  then obtain v where "view w (ir_id r) = Some v" "has_shape dig v r (shape_of r)" using assms by (auto simp: agrees_def)
  then show "x \<in> stored_rules dig view w" using r(2) by (auto simp: stored_rules_def has_shape_def ran_def intro!: exI [of _ v])
qed

lemma reconcile_agrees:
  assumes laws: "oz_laws Z view" and "reconcile e Z cs ds mode w = Some (next, dl, w')" "agrees dig view w cs"
    and "wf_records cs" "wf_desired dig ds"
  shows "agrees dig view w' next \<and> map erase_id next = map (erase_id \<circ> fst) ds"
proof (cases "mode = Mode_FullReplace")
  case True
  then obtain a a' where "fold_option (apply_remove_rule Z) cs \<lparr>ap_world = w, ap_sum = default_summary, ap_rule = None\<rparr> = Some a"
      "add_all Z ds [] a = Some (next, a')" "w' = ap_world a'"
    using assms(2) by (auto simp: reconcile_def replace_all_def option_simps)
  then show ?thesis
    using remove_all_agrees [OF laws, of cs _ a dig] add_all_agrees [OF laws, of ds "[]" a "next" a' dig] assms(3,5) by auto
next
  case False
  define h where "h = \<lparr>hk_interpreter = re_interpreter e, hk_spending_limit = re_spending_limit e\<rparr>"
  obtain refs s1 s' where r: "fold_option (run_remove h Z True (map fst ds)) cs
      \<lparr>rn_refs = refs, rn_apply = \<lparr>ap_world = w, ap_sum = default_summary, ap_rule = None\<rparr>, rn_planned = [], rn_next = []\<rparr> = Some s1"
      "fold_option (run_rule h Z mode True cs) ds s1 = Some s'" "w' = ap_world (rn_apply s')" "next = rn_next s'"
    using assms(2) False by (auto simp: reconcile_def run_rules_def option_simps Let_def h_def)
  have "delta_inv dig view cs (map fst ds) s1" and n: "rn_next s1 = []"
    using removal_agrees [OF laws r(1), of dig "[]"] assms(3) by (auto simp: delta_inv_def)
  then show ?thesis using delta_run [OF laws assms(4) r(2) _ assms(5)] r(3,4) n by simp
qed

end
