(* ===== verification/Account_Cost.thy ===== *)
theory Account_Cost
  imports Account_Reconcile
begin

text \<open>
  The price of a reconciliation: taking the cheaper way rule by rule never writes more ledger
  entries than replacing every rule. The argument is on the sequences of the meter's primitives: a
  signer or policy is deregistered for the last time and registered for the first time at most once
  in a delta, and exactly once in a full replacement.
\<close>

section \<open>First and last references\<close>

fun prim_extra :: "prim \<Rightarrow> (party \<Rightarrow> nat) \<Rightarrow> nat" where
  "prim_extra Write n = 0"
| "prim_extra (Reg x) n = of_bool (n x = 0)"
| "prim_extra (Dereg x) n = of_bool (n x \<le> 1)"

fun extras :: "prim list \<Rightarrow> (party \<Rightarrow> nat) \<Rightarrow> nat" where
  "extras [] n = 0"
| "extras (q # qs) n = prim_extra q n + extras qs (prim_refs q n)"

lemma prims_cost_extras: "prims_cost qs n = length qs + extras qs n"
proof (induction qs arbitrary: n)
  case (Cons q qs)
  then show ?case by (cases q) (auto simp: fun_upd_def)
qed simp

lemma extras_append: "extras (ps @ qs) n = extras ps n + extras qs (prims_refs ps n)"
  by (induction ps arbitrary: n) auto

abbreviation left :: "prim list \<Rightarrow> party set" where "left qs \<equiv> {x. Dereg x \<in> set qs}"
abbreviation joined :: "prim list \<Rightarrow> party set" where "joined qs \<equiv> {x. Reg x \<in> set qs}"

lemma finite_parties [simp]: "finite (left qs)" "finite (joined qs)"
proof -
  have "left qs = Dereg -` set qs" "joined qs = Reg -` set qs" by auto
  then show "finite (left qs)" "finite (joined qs)" by (simp_all add: finite_vimageI inj_def)
qed

lemma count_dereg_pos: "Dereg x \<in> set qs \<Longrightarrow> 0 < count_list qs (Dereg x)"
  by (simp add: count_list_0_iff zero_less_iff_neq_zero)

text \<open>
  The upper bound: when every deregistration drops a reference counted at the start, each party is
  counted at most once as leaving, and as joining only if its references run out.
\<close>

definition runs_out :: "prim list \<Rightarrow> (party \<Rightarrow> nat) \<Rightarrow> party set" where
  "runs_out qs n = {x \<in> joined qs. n x \<le> count_list qs (Dereg x)}"

lemma finite_runs_out: "finite (runs_out qs n)"
  by (rule finite_subset [OF _ finite_parties(2) [of qs]]) (auto simp: runs_out_def)

lemma extras_le:
  "(\<And>x. count_list qs (Dereg x) \<le> n x) \<Longrightarrow> extras qs n \<le> card (left qs) + card (runs_out qs n)"
proof (induction qs arbitrary: n)
  case (Cons q qs)
  show ?case
  proof (cases q)
    case Write
    then have "left (q # qs) = left qs" "runs_out (q # qs) n = runs_out qs n" by (auto simp: runs_out_def)
    then show ?thesis using Write Cons.IH [of n] Cons.prems by fastforce
  next
    case (Dereg x)
    let ?n = "n(x := n x - 1)"
    have pre: "count_list qs (Dereg y) \<le> ?n y" for y using Cons.prems [of y] Dereg by (auto split: if_splits)
    have pos: "0 < n x" using Cons.prems [of x] Dereg by simp
    have ro: "runs_out (q # qs) n = runs_out qs ?n" using Dereg pos by (auto simp: runs_out_def)
    have left: "left (q # qs) = insert x (left qs)" using Dereg by auto
    have "of_bool (n x \<le> 1) + card (left qs) \<le> card (left (q # qs))"
    proof (cases "n x \<le> 1")
      case True
      then have "count_list qs (Dereg x) = 0" using pre [of x] pos by simp
      then have "x \<notin> left qs" by (simp add: count_list_0_iff)
      then show ?thesis using True unfolding left by simp
    next
      case False
      then show ?thesis unfolding left by (simp add: card_insert_le)
    qed
    then show ?thesis using Cons.IH [OF pre] ro Dereg by (simp add: fun_upd_def)
  next
    case (Reg x)
    let ?n = "n(x := Suc (n x))"
    have pre: "count_list qs (Dereg y) \<le> ?n y" for y using Cons.prems [of y] Reg by (auto split: if_splits)
    have left: "left (q # qs) = left qs" using Reg by auto
    have c: "count_list qs (Dereg x) \<le> n x" using Cons.prems [of x] Reg by simp
    have ro: "runs_out qs ?n = runs_out (q # qs) n - {x}" using Reg c by (auto simp: runs_out_def)
    note fin = finite_runs_out [of "q # qs" n]
    have "of_bool (n x = 0) + card (runs_out qs ?n) \<le> card (runs_out (q # qs) n)"
    proof (cases "n x = 0")
      case True
      then have "x \<in> runs_out (q # qs) n" using Reg by (simp add: runs_out_def)
      then have "Suc (card (runs_out (q # qs) n - {x})) = card (runs_out (q # qs) n)" by (rule card_Suc_Diff1 [OF fin])
      then show ?thesis using True ro by simp
    next
      case False
      then show ?thesis using fin ro by (auto intro: card_mono)
    qed
    then show ?thesis using Cons.IH [OF pre] left Reg by (simp add: fun_upd_def)
  qed
qed simp

text \<open>The lower bound, for a sequence that only deregisters and one that only registers.\<close>

lemma extras_dereg_ge:
  "joined qs = {} \<Longrightarrow> (\<And>x. n x = count_list qs (Dereg x)) \<Longrightarrow> card (left qs) \<le> extras qs n"
proof (induction qs arbitrary: n)
  case (Cons q qs)
  show ?case
  proof (cases q)
    case Write
    then have "left (q # qs) = left qs" by auto
    then show ?thesis using Write Cons.IH [of n] Cons.prems by auto
  next
    case (Dereg x)
    let ?n = "n(x := n x - 1)"
    have pre: "?n y = count_list qs (Dereg y)" for y using Cons.prems(2) [of y] Dereg by (auto split: if_splits)
    have left: "left (q # qs) = insert x (left qs)" using Dereg by auto
    have j: "joined qs = {}" using Cons.prems(1) by auto
    have "card (left (q # qs)) \<le> of_bool (n x \<le> 1) + card (left qs)"
    proof (cases "n x \<le> 1")
      case True
      then show ?thesis unfolding left by (simp add: card_insert_if)
    next
      case False
      then have "0 < count_list qs (Dereg x)" using pre [of x] by simp
      then have "x \<in> left qs" by (metis count_list_0_iff mem_Collect_eq not_less_zero zero_less_iff_neq_zero)
      then show ?thesis unfolding left by (simp add: insert_absorb)
    qed
    then show ?thesis using Cons.IH [OF j pre] Dereg by (simp add: fun_upd_def)
  next
    case (Reg x)
    then show ?thesis using Cons.prems(1) by auto
  qed
qed simp

lemma extras_reg_ge: "left qs = {} \<Longrightarrow> card {x \<in> joined qs. n x = 0} \<le> extras qs n"
proof (induction qs arbitrary: n)
  case (Cons q qs)
  show ?case
  proof (cases q)
    case Write
    then have "joined (q # qs) = joined qs" by auto
    then show ?thesis using Write Cons.IH [of n] Cons.prems by auto
  next
    case (Reg x)
    let ?n = "n(x := Suc (n x))"
    have l: "left qs = {}" using Cons.prems by auto
    have "{y \<in> joined (q # qs). n y = 0} \<subseteq> {y \<in> joined qs. ?n y = 0} \<union> {y. y = x \<and> n x = 0}" using Reg by auto
    then have "card {y \<in> joined (q # qs). n y = 0} \<le> card ({y \<in> joined qs. ?n y = 0} \<union> {y. y = x \<and> n x = 0})"
      by (rule card_mono [rotated]) simp
    also have "\<dots> \<le> card {y \<in> joined qs. ?n y = 0} + card {y. y = x \<and> n x = 0}" by (rule card_Un_le)
    also have "card {y. y = x \<and> n x = 0} = of_bool (n x = 0)" by (cases "n x = 0") auto
    finally show ?thesis using Cons.IH [OF l, of ?n] Reg by (simp add: fun_upd_def)
  next
    case (Dereg x)
    then show ?thesis using Cons.prems by auto
  qed
qed simp

section \<open>Full replacement\<close>

definition total_refs :: "installed_rule list \<Rightarrow> party \<Rightarrow> nat" where
  "total_refs rs x = (\<Sum>r \<leftarrow> rs. shape_refs (shape_of r) x)"

lemma total_refs_simps [simp]:
  "total_refs [] x = 0" "total_refs (r # rs) x = shape_refs (shape_of r) x + total_refs rs x"
  "total_refs (rs @ rs') x = total_refs rs x + total_refs rs' x"
  by (simp_all add: total_refs_def)

lemma total_refs_mset: "mset rs = mset rs' \<Longrightarrow> total_refs rs = total_refs rs'"
proof (rule ext)
  fix x
  assume "mset rs = mset rs'"
  then have "mset (map (\<lambda>r. shape_refs (shape_of r) x) rs) = mset (map (\<lambda>r. shape_refs (shape_of r) x) rs')" by (simp add: mset_map)
  then show "total_refs rs x = total_refs rs' x" unfolding total_refs_def by (metis sum_mset_sum_list)
qed

definition removal_prims :: "hooks \<Rightarrow> installed_rule list \<Rightarrow> prim list" where
  "removal_prims h cs = concat (map (remove_rule_prims h) cs)"

definition addition_prims :: "hooks \<Rightarrow> installed_rule list \<Rightarrow> prim list" where
  "addition_prims h ds = concat (map (add_rule_prims h) ds)"

lemma shape_refs_simps:
  "shape_refs (shape_of r) (Inl s) = of_bool (s \<in> set (ir_signers r))"
  "shape_refs (shape_of r) (Inr p) = of_bool (p \<in> po_policy ` set (ir_policies r))"
  by (simp_all add: shape_refs_def shape_of_def)

lemma count_list_map_inj: "count_list (map f xs) (f x) = count_list xs x" if "inj f"
  using that by (induction xs) (auto dest: injD)

lemma count_list_distinct: "distinct xs \<Longrightarrow> count_list xs x = of_bool (x \<in> set xs)"
  by (induction xs) auto

lemma count_list_notin_map: "(\<And>x. x \<in> set xs \<Longrightarrow> f x \<noteq> y) \<Longrightarrow> count_list (map f xs) y = 0"
  by (induction xs) auto

lemma count_hook_prims [simp]: "count_list (hook_prims h p) (Dereg x) = 0" "count_list (hook_prims h p) (Reg x) = 0"
  by (simp_all add: hook_prims_def)

lemma count_policy_prims:
  "count_list (concat (map (\<lambda>p. hook_prims h (po_policy p) @ [Dereg (Inr (po_policy p))]) ps)) (Dereg x) =
     (case x of Inl s \<Rightarrow> 0 | Inr a \<Rightarrow> count_list (map po_policy ps) a)"
  by (induction ps) (auto split: sum.splits)

lemma count_remove_rule:
  assumes "wf_installed r"
  shows "count_list (remove_rule_prims h r) (Dereg x) = shape_refs (shape_of r) x"
  using assms
  by (cases x)
     (auto simp: remove_rule_prims_def count_policy_prims shape_refs_simps wf_installed_def wf_policies_def count_list_distinct
       count_list_map_inj [where f = "\<lambda>s. Dereg (Inl s)"] inj_def count_list_notin_map)

lemma count_removals:
  "list_all wf_installed cs \<Longrightarrow> count_list (removal_prims h cs) (Dereg x) = total_refs cs x"
  by (induction cs) (auto simp: removal_prims_def count_remove_rule)

lemma only_removals: "joined (removal_prims h cs) = {}"
  by (auto simp: removal_prims_def remove_rule_prims_def hook_prims_def split: if_splits)

lemma only_additions: "left (addition_prims h ds) = {}"
  by (auto simp: addition_prims_def add_rule_prims_def hook_prims_def split: if_splits)

lemma prims_refs_nat: "joined qs = {} \<Longrightarrow> prims_refs qs n x = n x - count_list qs (Dereg x)"
proof (induction qs arbitrary: n)
  case (Cons q qs)
  then have "joined qs = {}" by auto
  then show ?case using Cons by (cases q) auto
qed simp

text \<open>A full replacement pays for the last and the first reference of every party.\<close>

lemma full_extras:
  assumes "list_all wf_installed cs"
  shows "card (left (removal_prims h cs)) + card (joined (addition_prims h ds)) \<le>
    extras (removal_prims h cs @ addition_prims h ds) (total_refs cs)"
proof -
  have "card (left (removal_prims h cs)) \<le> extras (removal_prims h cs) (total_refs cs)"
    by (rule extras_dereg_ge [OF only_removals]) (simp add: count_removals [OF assms])
  moreover have "prims_refs (removal_prims h cs) (total_refs cs) x = 0" for x
    using count_removals [OF assms, of h x] by (simp add: prims_refs_nat [OF only_removals])
  then have "{x \<in> joined (addition_prims h ds). prims_refs (removal_prims h cs) (total_refs cs) x = 0} = joined (addition_prims h ds)"
    by simp
  then have "card (joined (addition_prims h ds)) \<le> extras (addition_prims h ds) (prims_refs (removal_prims h cs) (total_refs cs))"
    using extras_reg_ge [OF only_additions, of h ds "prims_refs (removal_prims h cs) (total_refs cs)"] by simp
  ultimately show ?thesis by (simp add: extras_append)
qed

lemma delta_cost_le:
  assumes "list_all wf_installed cs" "mset qs \<subseteq># mset (removal_prims h cs @ addition_prims h ds)"
  shows "prims_cost qs (total_refs cs) \<le> prims_cost (removal_prims h cs @ addition_prims h ds) (total_refs cs)"
proof -
  let ?full = "removal_prims h cs @ addition_prims h ds"
  have sub: "set qs \<subseteq> set ?full" using set_mset_mono [OF assms(2)] by simp
  have no: "Dereg x \<notin> set (addition_prims h ds)" "Reg x \<notin> set (removal_prims h cs)" for x
    using only_additions [of h ds] only_removals [of h cs] by auto
  have "count_list qs (Dereg x) \<le> total_refs cs x" for x
  proof -
    have "count_list qs (Dereg x) \<le> count_list ?full (Dereg x)"
      using mset_subset_eq_count [OF assms(2), of "Dereg x"] by (simp add: count_mset)
    also have "\<dots> = total_refs cs x" using count_removals [OF assms(1)] no(1) [of x] by (simp add: count_notin)
    finally show ?thesis .
  qed
  then have "extras qs (total_refs cs) \<le> card (left qs) + card (runs_out qs (total_refs cs))" by (rule extras_le)
  also have "card (left qs) \<le> card (left (removal_prims h cs))"
    by (rule card_mono [OF finite_parties(1)]) (use sub no in auto)
  also have "card (runs_out qs (total_refs cs)) \<le> card (joined (addition_prims h ds))"
    by (rule card_mono [OF finite_parties(2)]) (use sub no in \<open>auto simp: runs_out_def\<close>)
  finally have "extras qs (total_refs cs) \<le> extras ?full (total_refs cs)"
    using full_extras [OF assms(1), of h ds] by simp
  moreover have "length qs \<le> length ?full" using size_mset_mono [OF assms(2)] by simp
  ultimately show ?thesis by (simp add: prims_cost_extras)
qed

section \<open>The price of a plan\<close>

definition nat_refs :: "refs \<Rightarrow> party \<Rightarrow> nat" where
  "nat_refs refs = meter_refs (new_meter refs)"

lemma nat_refs_meter [simp]: "nat_refs (mt_refs m) = meter_refs m"
  by (rule ext) (simp add: nat_refs_def new_meter_def meter_refs_def split: sum.split)

lemma new_meter_simps [simp]: "writes (new_meter refs) = 0" "co_events (mt_cost (new_meter refs)) = 0" "meter_refs (new_meter refs) = nat_refs refs"
  by (simp_all add: writes_def new_meter_def default_cost_def nat_refs_def)

lemma add_refs_count:
  "fold_option add_ref xs m = Some m' \<Longrightarrow> unat (count_of m' x) = unat (count_of m x) + count_list xs x"
proof (induction xs arbitrary: m)
  case (Cons y ys)
  obtain m1 where m1: "add_ref y m = Some m1" "fold_option add_ref ys m1 = Some m'" using Cons.prems by (auto simp: option_simps)
  then obtain n where n: "checked_add (count_of m y) 1 = Some n" "fold_option add_ref ys (m(y \<mapsto> n)) = Some m'"
    by (auto simp: add_ref_def option_simps)
  have "unat (count_of m' x) = unat (count_of (m(y \<mapsto> n)) x) + count_list ys x" by (rule Cons.IH [OF n(2)])
  then show ?case using checked_add_SomeD [OF n(1)] by (auto simp: count_of_update)
qed simp

lemma refs_of_rule_count:
  assumes "refs_of_rule r refs = Some refs'" "wf_installed r"
  shows "nat_refs refs' x = nat_refs refs x + shape_refs (shape_of r) x"
proof -
  obtain sg pl where r: "fold_option add_ref (ir_signers r) (rf_signers refs) = Some sg"
      "fold_option add_ref (map po_policy (ir_policies r)) (rf_policies refs) = Some pl" "refs' = \<lparr>rf_signers = sg, rf_policies = pl\<rparr>"
    using assms(1) by (auto simp: refs_of_rule_def option_simps)
  show ?thesis
    using add_refs_count [OF r(1)] add_refs_count [OF r(2)] r(3) assms(2)
    by (cases x) (simp_all add: nat_refs_def meter_refs_def new_meter_def shape_refs_simps wf_installed_def wf_policies_def count_list_distinct)
qed

lemma refs_of_total:
  assumes "refs_of cs = Some refs" "list_all wf_installed cs"
  shows "nat_refs refs = total_refs cs"
proof -
  have "fold_option refs_of_rule cs r0 = Some refs \<Longrightarrow> list_all wf_installed cs \<Longrightarrow> nat_refs refs x = nat_refs r0 x + total_refs cs x" for r0 x
  proof (induction cs arbitrary: r0)
    case (Cons c cs)
    then obtain r1 where "refs_of_rule c r0 = Some r1" "fold_option refs_of_rule cs r1 = Some refs" by (auto simp: option_simps)
    then show ?case using Cons.IH [of r1] refs_of_rule_count [of c r0 r1 x] Cons.prems(2) by simp
  qed simp
  from this [OF assms(1) [unfolded refs_of_def] assms(2)]
  show ?thesis by (auto simp: fun_eq_iff nat_refs_def meter_refs_def new_meter_def count_of_def split: sum.splits)
qed

lemma prims_refs_reg: "left qs = {} \<Longrightarrow> prims_refs qs n x = n x + count_list qs (Reg x)"
proof (induction qs arbitrary: n)
  case (Cons q qs)
  then have "left qs = {}" by auto
  then show ?case using Cons by (cases q) auto
qed simp

lemma count_add_policy_prims:
  "count_list (concat (map (\<lambda>p. Reg (Inr (po_policy p)) # hook_prims h (po_policy p)) ps)) (Reg x) =
     (case x of Inl s \<Rightarrow> 0 | Inr a \<Rightarrow> count_list (map po_policy ps) a)"
  by (induction ps) (auto split: sum.splits)

lemma rule_prims_refs:
  assumes "wf_installed r"
  shows "prims_refs (add_rule_prims h r) n x = n x + shape_refs (shape_of r) x"
    and "prims_refs (remove_rule_prims h r) n x = n x - shape_refs (shape_of r) x"
proof -
  have a: "count_list (add_rule_prims h r) (Reg x) = shape_refs (shape_of r) x"
    using assms
    by (cases x)
       (auto simp: add_rule_prims_def count_add_policy_prims shape_refs_simps wf_installed_def wf_policies_def count_list_distinct
         count_list_map_inj [where f = "\<lambda>s. Reg (Inl s)"] inj_def count_list_notin_map)
  show "prims_refs (add_rule_prims h r) n x = n x + shape_refs (shape_of r) x"
    using prims_refs_reg [of "add_rule_prims h r"] only_additions [of h "[r]"] a by (simp add: addition_prims_def)
  show "prims_refs (remove_rule_prims h r) n x = n x - shape_refs (shape_of r) x"
    using prims_refs_nat [of "remove_rule_prims h r"] only_removals [of h "[r]"] count_remove_rule [OF assms] by (simp add: removal_prims_def)
qed

definition planned_writes :: "planned_rule list \<Rightarrow> nat" where
  "planned_writes pl = (\<Sum>x \<leftarrow> pl. unat (co_writes (pn_cost x)))"

definition priced :: "hooks \<Rightarrow> installed_rule list \<Rightarrow> prim list \<Rightarrow> installed_rule list \<Rightarrow> installed_rule list \<Rightarrow> prim list \<Rightarrow> 'w run_state \<Rightarrow> bool"
  where
  "priced h cs full rs ds qs s \<longleftrightarrow>
     nat_refs (rn_refs s) = prims_refs qs (total_refs cs) \<and> nat_refs (rn_refs s) = total_refs (rn_next s @ rs) \<and>
     planned_writes (rn_planned s) \<le> prims_cost qs (total_refs cs) \<and> list_all (\<lambda>x. co_events (pn_cost x) = 0) (rn_planned s) \<and>
     mset qs + mset (removal_prims h rs) + mset (addition_prims h ds) \<subseteq># mset full"

text \<open>Running primitives after the priced ones, at a cost that does not exceed theirs.\<close>

lemma priced_step:
  assumes "priced h cs full rs ds qs s"
    and "rn_planned s' = rn_planned s @ [x]" "co_events (pn_cost x) = 0" "unat (co_writes (pn_cost x)) \<le> prims_cost ps (nat_refs (rn_refs s))"
    and "nat_refs (rn_refs s') = prims_refs ps (nat_refs (rn_refs s))" "nat_refs (rn_refs s') = total_refs (rn_next s' @ rs')"
    and "mset ps + mset (removal_prims h rs') + mset (addition_prims h ds') \<subseteq># mset (removal_prims h rs) + mset (addition_prims h ds)"
  shows "priced h cs full rs' ds' (qs @ ps) s'"
proof -
  have "mset (qs @ ps) + mset (removal_prims h rs') + mset (addition_prims h ds') \<subseteq># mset qs + (mset (removal_prims h rs) + mset (addition_prims h ds))"
    using assms(7) by (simp add: ac_simps)
  also have "\<dots> \<subseteq># mset full" using assms(1) by (simp add: priced_def ac_simps)
  finally show ?thesis using assms(1-6) by (simp add: priced_def planned_writes_def prims_refs_append prims_cost_append)
qed

lemma record_step_dry [simp]:
  "rn_planned (record_step False x s) = rn_planned s @ [x]" "rn_refs (record_step False x s) = rn_refs s"
  "rn_next (record_step False x s) = rn_next s"
  by (simp_all add: record_step_def)

lemma pn_cost_planned [simp]: "pn_cost (planned r st c ip rp) = c"
  by (simp add: planned_def)

lemma removal_prims_Cons: "removal_prims h (c # cs) = remove_rule_prims h c @ removal_prims h cs"
  and addition_prims_Cons: "addition_prims h (d # ds) = add_rule_prims h d @ addition_prims h ds"
  by (simp_all add: removal_prims_def addition_prims_def)

lemma removal_prims_append: "removal_prims h (cs @ cs') = removal_prims h cs @ removal_prims h cs'"
  by (simp add: removal_prims_def)

lemma removal_prims_mset: "mset cs = mset cs' \<Longrightarrow> mset (removal_prims h cs) = mset (removal_prims h cs')"
proof -
  assume "mset cs = mset cs'"
  then have "image_mset (\<lambda>c. mset (remove_rule_prims h c)) (mset cs) = image_mset (\<lambda>c. mset (remove_rule_prims h c)) (mset cs')" by simp
  then show ?thesis unfolding removal_prims_def mset_concat by (simp add: comp_def) (metis mset_map sum_mset_sum_list)
qed

lemma meter_run:
  assumes "run_prims ps (new_meter refs) = Some m"
  shows "unat (co_writes (mt_cost m)) = prims_cost ps (nat_refs refs)" "co_events (mt_cost m) = 0"
    and "nat_refs (mt_refs m) = prims_refs ps (nat_refs refs)"
  using run_prims_Some [OF assms] new_meter_simps(1) [of refs] by (simp_all add: prims_ok_def writes_def)

lemma removals_priced:
  "fold_option (run_remove h Z False ds) xs s = Some s' \<Longrightarrow> priced h cs full (ys @ xs) es qs s \<Longrightarrow> list_all wf_installed xs \<Longrightarrow>
   rn_next s' = rn_next s \<and> (\<exists>qs'. priced h cs full (ys @ pending xs ds) es qs' s')"
proof (induction xs arbitrary: s ys qs)
  case Nil
  then show ?case by (auto simp: pending_def)
next
  case (Cons c xs)
  obtain s1 where s1: "run_remove h Z False ds c s = Some s1" "fold_option (run_remove h Z False ds) xs s1 = Some s'"
    using Cons.prems(1) by (auto simp: option_simps)
  show ?case
  proof (cases "list_ex (same_slot c) ds")
    case True
    then have "s1 = s" using s1(1) by (simp add: run_remove_def)
    then show ?thesis using Cons.IH [OF s1(2), of "ys @ [c]" qs] Cons.prems(2,3) True by (simp add: pending_def)
  next
    case False
    then obtain m where m: "run_prims (remove_rule_prims h c) (new_meter (rn_refs s)) = Some m"
      and s1': "s1 = record_step False (planned c Step_Remove (mt_cost m) None default_cost) (s\<lparr>rn_refs := mt_refs m\<rparr>)"
      using s1(1) by (auto simp: run_remove_def option_simps Let_def meter_ops_prims)
    have wf: "wf_installed c" using Cons.prems(3) by simp
    have "nat_refs (rn_refs s) = total_refs (rn_next s @ ys @ c # xs)" using Cons.prems(2) unfolding priced_def by blast
    then have after: "nat_refs (mt_refs m) = total_refs (rn_next s @ ys @ xs)"
      using meter_run(3) [OF m] rule_prims_refs(2) [OF wf] by (simp add: fun_eq_iff)
    have "priced h cs full (ys @ xs) es (qs @ remove_rule_prims h c) s1"
      by (rule priced_step [OF Cons.prems(2), where x = "planned c Step_Remove (mt_cost m) None default_cost"])
         (use meter_run [OF m] s1' after in \<open>simp_all add: removal_prims_append removal_prims_Cons ac_simps\<close>)
    then show ?thesis using Cons.IH [OF s1(2), of ys] Cons.prems(3) s1' False by (simp add: pending_def)
  qed
qed

lemma meter_edit_refs:
  assumes "edit (meter_effects h) c d params (new_meter refs) = Some (True, m)" "nat_refs refs = (\<lambda>x. base x + shape_refs (shape_of c) x)"
    and "wf_installed c" "wf_installed d" "aligned dig d params"
  shows "meter_refs m = (\<lambda>x. base x + shape_refs (shape_of d) x) \<and> co_events (mt_cost m) = 0"
proof -
  have "meter_holds base c (shape_of c) (dom (policy_map (ir_policies c))) (new_meter refs)"
    using assms(2) by (simp add: meter_holds_def)
  from meter.edited [OF assms(1) this, of dig] assms(3-5) show ?thesis by (auto simp: wf_installed_def meter_holds_def)
qed

lemma cost_le_writes: "cost_le a b \<Longrightarrow> co_events b = 0 \<Longrightarrow> co_events a = 0 \<and> unat (co_writes a) \<le> unat (co_writes b)"
  by (auto simp: cost_le_def word_le_nat_alt)

text \<open>A changed rule: either way it is priced at most as its replacement and leaves the same references.\<close>

lemma changed_priced:
  assumes "run_changed h Z Mode_Cheapest False c d params s = Some s'" "priced h cs full (c # rs) (d # es) qs s"
    and "wf_installed c" "wf_installed d" "aligned dig d params"
  shows "\<exists>qs' i. priced h cs full rs es qs' s' \<and> rn_next s' = rn_next s @ [with_id d i]"
proof -
  let ?ps = "remove_rule_prims h c @ add_rule_prims h d"
  obtain e edited i replaced where e: "edit (meter_effects h) c d params (new_meter (rn_refs s)) = Some (e, edited)"
    and rp: "replace_rule (meter_effects h) c d params (new_meter (rn_refs s)) = Some (i, replaced)"
    and s': "s' = (if e \<and> cost_le (mt_cost edited) (mt_cost replaced)
        then push_next d (ir_id c) (record_step False (planned d Step_InPlace (mt_cost edited) (Some (mt_cost edited)) (mt_cost replaced)) (s\<lparr>rn_refs := mt_refs edited\<rparr>))
        else push_next d 0 (record_step False (planned d Step_Replace (mt_cost replaced) (if e then Some (mt_cost edited) else None) (mt_cost replaced)) (s\<lparr>rn_refs := mt_refs replaced\<rparr>)))"
    using assms(1) by (auto simp: run_changed_def option_simps Let_def split: if_splits)
  have "run_prims ?ps (new_meter (rn_refs s)) = Some replaced"
    using rp by (auto simp: replace_rule_def meter_effects_def meter_ops_prims option_simps fold_option_append)
  note m = meter_run [OF this]
  have refs: "nat_refs (rn_refs s) = (\<lambda>x. total_refs (rn_next s @ rs) x + shape_refs (shape_of c) x)"
  proof -
    have "nat_refs (rn_refs s) = total_refs (rn_next s @ c # rs)" using assms(2) unfolding priced_def by blast
    then show ?thesis by (simp add: fun_eq_iff)
  qed
  have after: "prims_refs ?ps (nat_refs (rn_refs s)) = (\<lambda>x. total_refs (rn_next s @ rs) x + shape_refs (shape_of d) x)"
    unfolding prims_refs_append refs using rule_prims_refs [OF assms(3)] rule_prims_refs [OF assms(4)] by (simp add: fun_eq_iff)
  have sub: "mset ?ps + mset (removal_prims h rs) + mset (addition_prims h es) \<subseteq># mset (removal_prims h (c # rs)) + mset (addition_prims h (d # es))"
    by (simp add: removal_prims_Cons addition_prims_Cons ac_simps)
  have tr: "total_refs ((rn_next s @ [with_id d j]) @ rs) = (\<lambda>x. total_refs (rn_next s @ rs) x + shape_refs (shape_of d) x)" for j
    by (simp add: fun_eq_iff)
  show ?thesis
  proof (cases "e \<and> cost_le (mt_cost edited) (mt_cost replaced)")
    case True
    have ed: "meter_refs edited = (\<lambda>x. total_refs (rn_next s @ rs) x + shape_refs (shape_of d) x)"
      using meter_edit_refs [OF _ refs assms(3-5)] e True by auto
    have "priced h cs full rs es (qs @ ?ps) s'"
      by (rule priced_step [OF assms(2) _ _ _ _ _ sub, where x = "planned d Step_InPlace (mt_cost edited) (Some (mt_cost edited)) (mt_cost replaced)"])
         (use True s' cost_le_writes [of "mt_cost edited" "mt_cost replaced"] m ed after tr in \<open>simp_all add: push_next_def\<close>)
    then show ?thesis using True s' by (auto simp: push_next_def)
  next
    case False
    note s'' = s' [unfolded if_not_P [OF False]]
    have "priced h cs full rs es (qs @ ?ps) s'"
      by (rule priced_step [OF assms(2) _ _ _ _ _ sub, where x = "planned d Step_Replace (mt_cost replaced) (if e then Some (mt_cost edited) else None) (mt_cost replaced)"])
         (use s'' m after tr in \<open>simp_all add: push_next_def\<close>)
    then show ?thesis using s'' by (auto simp: push_next_def)
  qed
qed

lemma priced_mset:
  assumes "priced h cs full rs ds qs s" "mset rs = mset rs'"
  shows "priced h cs full rs' ds qs s"
proof -
  have t: "total_refs (rn_next s @ rs') = total_refs (rn_next s @ rs)" by (rule total_refs_mset) (simp add: assms(2))
  have r: "mset (removal_prims h rs') = mset (removal_prims h rs)" by (rule removal_prims_mset) (simp add: assms(2))
  show ?thesis using assms(1) unfolding priced_def t r .
qed

lemma rule_priced:
  assumes "run_rule h Z Mode_Cheapest False cs (d, params) s = Some s'" "priced h cs full (pending cs (d # ds)) (d # ds) qs s"
    and "wf_records cs" "wf_installed d" "aligned dig d params" "\<not> list_ex (same_slot d) ds"
  shows "\<exists>qs'. priced h cs full (pending cs ds) ds qs' s'"
proof (cases "find (\<lambda>c. same_slot c d) cs")
  case None
  have inv: "priced h cs full (pending cs ds) (d # ds) qs s" using assms(2) pending_None [OF None] by simp
  obtain m where m: "run_prims (add_rule_prims h d) (new_meter (rn_refs s)) = Some m"
    and s': "s' = push_next d 0 (record_step False (planned d Step_Add (mt_cost m) None default_cost) (s\<lparr>rn_refs := mt_refs m\<rparr>))"
    using assms(1) None by (auto simp: run_rule_def run_add_def option_simps Let_def meter_ops_prims)
  have "nat_refs (rn_refs s) = total_refs (rn_next s @ pending cs ds)" using inv unfolding priced_def by blast
  then have after: "nat_refs (mt_refs m) = total_refs (rn_next s @ with_id d 0 # pending cs ds)"
    using meter_run(3) [OF m] rule_prims_refs(1) [OF assms(4)] by (simp add: fun_eq_iff)
  have "priced h cs full (pending cs ds) ds (qs @ add_rule_prims h d) s'"
    by (rule priced_step [OF inv, where x = "planned d Step_Add (mt_cost m) None default_cost"])
       (use meter_run [OF m] s' after in \<open>simp_all add: push_next_def addition_prims_Cons ac_simps\<close>)
  then show ?thesis by blast
next
  case (Some c)
  note p = pending_Some [OF _ assms(6) Some]
  have wfc: "wf_installed c" using p(2) assms(3) by (auto simp: wf_records_def list_all_iff)
  have "mset (pending cs (d # ds)) = mset (c # pending cs ds)" using p(1) assms(3) by (simp add: wf_records_def)
  then have inv: "priced h cs full (c # pending cs ds) (d # ds) qs s" by (rule priced_mset [OF assms(2)])
  show ?thesis
  proof (cases "unchanged c d")
    case True
    then have s': "s' = push_next d (ir_id c) (record_step False (planned d Step_Keep default_cost None default_cost) s)"
      using assms(1) Some by (simp add: run_rule_def)
    have refs: "nat_refs (rn_refs s) = total_refs (rn_next s @ c # pending cs ds)" using inv unfolding priced_def by blast
    have "priced h cs full (pending cs ds) ds (qs @ []) s'"
      by (rule priced_step [OF inv, where x = "planned d Step_Keep default_cost None default_cost"])
         (use s' refs unchanged_shape [OF True wfc assms(4)] in
           \<open>simp_all add: push_next_def default_cost_def fun_eq_iff removal_prims_Cons addition_prims_Cons add_mono\<close>)
    then show ?thesis by blast
  next
    case False
    then have "run_changed h Z Mode_Cheapest False c d params s = Some s'" using assms(1) Some by (simp add: run_rule_def)
    then show ?thesis using changed_priced [OF _ inv wfc assms(4,5)] by blast
  qed
qed

lemma rules_priced:
  "fold_option (run_rule h Z Mode_Cheapest False cs) ds s = Some s' \<Longrightarrow> priced h cs full (pending cs (map fst ds)) (map fst ds) qs s \<Longrightarrow>
   wf_records cs \<Longrightarrow> wf_desired dig ds \<Longrightarrow> \<exists>qs'. priced h cs full [] [] qs' s'"
proof (induction ds arbitrary: s qs)
  case Nil
  then show ?case by (auto simp: pending_def)
next
  case (Cons x ds)
  obtain d params where x: "x = (d, params)" by (cases x)
  obtain s1 where s1: "run_rule h Z Mode_Cheapest False cs (d, params) s = Some s1" "fold_option (run_rule h Z Mode_Cheapest False cs) ds s1 = Some s'"
    using Cons.prems(1) x by (auto simp: option_simps)
  obtain qs1 where "priced h cs full (pending cs (map fst ds)) (map fst ds) qs1 s1"
    using rule_priced [OF s1(1), of full "map fst ds" qs dig] Cons.prems(2-4) x by (auto simp: wf_desired_def)
  then show ?case using Cons.IH [OF s1(2)] Cons.prems(3,4) x by (auto simp: wf_desired_def)
qed

text \<open>The meter's price of \<open>replace_all\<close>: every record removed, then every rule of the document added.\<close>

definition full_replace_meter :: "hooks \<Rightarrow> installed_rule list \<Rightarrow> installed_rule list \<Rightarrow> refs \<Rightarrow> meter option" where
  "full_replace_meter h cs ds refs = do {
     m \<leftarrow> fold_option (meter_remove_rule h) cs (new_meter refs);
     fold_option (\<lambda>d m. map_option snd (meter_add_rule h d m)) ds m }"

lemma full_replace_prims: "full_replace_meter h cs ds refs = run_prims (removal_prims h cs @ addition_prims h ds) (new_meter refs)"
proof -
  have "fold_option (meter_remove_rule h) cs m = run_prims (removal_prims h cs) m" for m
    unfolding removal_prims_def by (rule fold_option_concat) (simp add: meter_ops_prims)
  moreover have "fold_option (\<lambda>d m. map_option snd (meter_add_rule h d m)) ds m = run_prims (addition_prims h ds) m" for m
    unfolding addition_prims_def by (rule fold_option_concat) (simp add: meter_ops_prims option.map_comp comp_def option.map_ident)
  ultimately show ?thesis by (simp add: full_replace_meter_def fold_option_fun)
qed

text \<open>
  C17. The price of a plan never exceeds that of replacing every rule: the entries written by the
  steps \<open>plan\<close> lists for the cheapest mode, added up, are at most those the meter counts for removing
  every record and adding every rule of the document, and no step is priced any event.
\<close>

theorem delta_never_costs_more:
  assumes "plan_rules e Z cs ds Mode_Cheapest w = Some pl" "wf_records cs" "wf_desired (params_digest e) ds"
    and "refs_of cs = Some refs"
    and "full_replace_meter \<lparr>hk_interpreter = re_interpreter e, hk_spending_limit = re_spending_limit e\<rparr> cs (map fst ds) refs = Some m"
  shows "(\<Sum>x \<leftarrow> pl. unat (co_writes (pn_cost x))) \<le> unat (co_writes (mt_cost m)) \<and> list_all (\<lambda>x. co_events (pn_cost x) = 0) pl"
proof -
  define h where "h = \<lparr>hk_interpreter = re_interpreter e, hk_spending_limit = re_spending_limit e\<rparr>"
  let ?full = "removal_prims h cs @ addition_prims h (map fst ds)"
  let ?s = "\<lparr>rn_refs = refs, rn_apply = \<lparr>ap_world = w, ap_sum = default_summary, ap_rule = None\<rparr>, rn_planned = [], rn_next = []\<rparr>"
  have wf: "list_all wf_installed cs" using assms(2) by (simp add: wf_records_def)
  obtain s1 s' where r: "fold_option (run_remove h Z False (map fst ds)) cs ?s = Some s1"
      "fold_option (run_rule h Z Mode_Cheapest False cs) ds s1 = Some s'" "pl = rn_planned s'"
    using assms(1,4) by (auto simp: plan_rules_def run_rules_def option_simps Let_def h_def)
  have "priced h cs ?full ([] @ cs) (map fst ds) [] ?s"
    using refs_of_total [OF assms(4) wf] by (simp add: priced_def planned_writes_def)
  from removals_priced [OF r(1) this wf] obtain qs1
    where "priced h cs ?full (pending cs (map fst ds)) (map fst ds) qs1 s1" by auto
  from rules_priced [OF r(2) this assms(2,3)] obtain qs where q: "priced h cs ?full [] [] qs s'" by blast
  have "planned_writes pl \<le> prims_cost qs (total_refs cs)" using q r(3) by (simp add: priced_def)
  also have "\<dots> \<le> prims_cost ?full (total_refs cs)"
    by (rule delta_cost_le [OF wf]) (use q in \<open>simp add: priced_def removal_prims_def addition_prims_def\<close>)
  also have "\<dots> = unat (co_writes (mt_cost m))"
    using meter_run(1) [OF assms(5) [folded h_def, unfolded full_replace_prims]] refs_of_total [OF assms(4) wf] by simp
  finally show ?thesis using q r(3) by (simp add: planned_writes_def priced_def)
qed

section \<open>An example\<close>

text \<open>A rule of one signer gains a second one; it is edited in place.\<close>

definition cost_env :: rules_env where
  "cost_env = \<lparr>re_now = 5, re_self = ContractId 1, re_interpreter = ContractId 11, re_spending_limit = ContractId 12,
     re_sha256 = (\<lambda>_. 3), re_param_xdr = (\<lambda>_. [])\<rparr>"

definition cost_rule :: "signer list \<Rightarrow> installed_rule" where
  "cost_rule ss = \<lparr>ir_id = 0, ir_recovery = False, ir_name = ''admin'', ir_context_type = CR_CallContract (ContractId 1),
     ir_valid_until = None, ir_signers = ss, ir_policies = []\<rparr>"

abbreviation cost_signer :: "8 word \<Rightarrow> signer" where
  "cost_signer k \<equiv> Signer_External (ContractId 7) [k]"

definition cost_refs :: refs where
  "cost_refs = \<lparr>rf_signers = [cost_signer 1 \<mapsto> 1], rf_policies = Map.empty\<rparr>"

lemma cost_refs_of: "refs_of [cost_rule [cost_signer 1]] = Some cost_refs"
  by (simp add: refs_of_def refs_of_rule_def add_ref_def count_of_def checked_add_def cost_rule_def cost_refs_def)

lemmas cost_meter = meter_write_def register_signer_def deregister_signer_def meter_remove_rule_def meter_add_rule_def
  meter_reconcile_signers_def new_meter_def default_cost_def count_of_def checked_add_def Let_def missing_def

lemma cost_edit:
  "\<exists>m. edit (meter_effects h) (cost_rule [cost_signer 1]) (cost_rule [cost_signer 1, cost_signer 2]) [] (new_meter cost_refs) = Some (True, m) \<and>
     mt_cost m = \<lparr>co_events = 0, co_writes = 3\<rparr>"
  by (simp add: edit_def meter_effects_def cost_rule_def cost_refs_def cost_meter)

lemma cost_replace:
  "\<exists>m. replace_rule (meter_effects h) (cost_rule [cost_signer 1]) (cost_rule [cost_signer 1, cost_signer 2]) [] (new_meter cost_refs) = Some (0, m) \<and>
     mt_cost m = \<lparr>co_events = 0, co_writes = 8\<rparr>"
  by (simp add: replace_rule_def meter_effects_def cost_rule_def cost_refs_def cost_meter)

lemma cost_plan:
  "plan_rules cost_env Z [cost_rule [cost_signer 1]] [(cost_rule [cost_signer 1, cost_signer 2], [])] Mode_Cheapest w =
     Some [planned (cost_rule [cost_signer 1, cost_signer 2]) Step_InPlace \<lparr>co_events = 0, co_writes = 3\<rparr>
             (Some \<lparr>co_events = 0, co_writes = 3\<rparr>) \<lparr>co_events = 0, co_writes = 8\<rparr>]"
proof -
  define h where "h = \<lparr>hk_interpreter = re_interpreter cost_env, hk_spending_limit = re_spending_limit cost_env\<rparr>"
  obtain m m' where m: "edit (meter_effects h) (cost_rule [cost_signer 1]) (cost_rule [cost_signer 1, cost_signer 2]) [] (new_meter cost_refs) = Some (True, m)"
      "mt_cost m = \<lparr>co_events = 0, co_writes = 3\<rparr>"
      "replace_rule (meter_effects h) (cost_rule [cost_signer 1]) (cost_rule [cost_signer 1, cost_signer 2]) [] (new_meter cost_refs) = Some (0, m')"
      "mt_cost m' = \<lparr>co_events = 0, co_writes = 8\<rparr>"
    using cost_edit cost_replace by meson
  have slot: "same_slot (cost_rule [cost_signer 1]) (cost_rule [cost_signer 1, cost_signer 2])"
    "\<not> unchanged (cost_rule [cost_signer 1]) (cost_rule [cost_signer 1, cost_signer 2])"
    by (simp_all add: same_slot_def unchanged_def cost_rule_def)
  show ?thesis
    unfolding plan_rules_def run_rules_def cost_refs_of Let_def h_def [symmetric]
    by (simp add: run_remove_def run_rule_def slot run_changed_def m cost_le_def record_step_def push_next_def)
qed

lemma cost_full:
  "\<exists>m. full_replace_meter h [cost_rule [cost_signer 1]] [cost_rule [cost_signer 1, cost_signer 2]] cost_refs = Some m \<and>
     mt_cost m = \<lparr>co_events = 0, co_writes = 8\<rparr>"
  by (simp add: full_replace_meter_def cost_rule_def cost_refs_def cost_meter)

text \<open>Witness of C17: three entries in place, eight for the full replacement.\<close>

theorem delta_never_costs_more_witness:
  "\<forall>Z :: unit oz. \<exists>pl m. plan_rules cost_env Z [cost_rule [cost_signer 1]] [(cost_rule [cost_signer 1, cost_signer 2], [])] Mode_Cheapest () = Some pl \<and>
     full_replace_meter \<lparr>hk_interpreter = ContractId 11, hk_spending_limit = ContractId 12\<rparr> [cost_rule [cost_signer 1]]
       [cost_rule [cost_signer 1, cost_signer 2]] cost_refs = Some m \<and> co_writes (mt_cost m) = 8 \<and>
     (\<Sum>x \<leftarrow> pl. unat (co_writes (pn_cost x))) \<le> unat (co_writes (mt_cost m)) \<and> list_all (\<lambda>x. co_events (pn_cost x) = 0) pl"
proof
  fix Z :: "unit oz"
  let ?h = "\<lparr>hk_interpreter = ContractId 11, hk_spending_limit = ContractId 12\<rparr>"
  obtain m where m: "full_replace_meter ?h [cost_rule [cost_signer 1]] [cost_rule [cost_signer 1, cost_signer 2]] cost_refs = Some m"
    "mt_cost m = \<lparr>co_events = 0, co_writes = 8\<rparr>"
    using cost_full by blast
  have "wf_records [cost_rule [cost_signer 1]]" "wf_desired (params_digest cost_env) [(cost_rule [cost_signer 1, cost_signer 2], [])]"
    by (simp_all add: wf_records_def wf_desired_def wf_installed_def wf_policies_def aligned_def cost_rule_def)
  from delta_never_costs_more [OF cost_plan [of Z "()"] this cost_refs_of, of m] m
  show "\<exists>pl m. plan_rules cost_env Z [cost_rule [cost_signer 1]] [(cost_rule [cost_signer 1, cost_signer 2], [])] Mode_Cheapest () = Some pl \<and>
     full_replace_meter ?h [cost_rule [cost_signer 1]] [cost_rule [cost_signer 1, cost_signer 2]] cost_refs = Some m \<and> co_writes (mt_cost m) = 8 \<and>
     (\<Sum>x \<leftarrow> pl. unat (co_writes (pn_cost x))) \<le> unat (co_writes (mt_cost m)) \<and> list_all (\<lambda>x. co_events (pn_cost x) = 0) pl"
    using cost_plan [of Z "()"] by (auto simp: cost_env_def)
qed

end
