(* ===== verification/Account.thy ===== *)
theory Account
  imports Account_Rules Doc_Compiler
begin

text \<open>
  The smart account (\<open>crates/perch-smart-account/src/lib.rs\<close>) and its constructor
  (\<open>crates/perch-account/src/lib.rs\<close>). The account's storage is the record
  \<open>account_storage\<close>; an entry point takes the environment of its invocation, the contracts it
  calls and the account's state and returns a failure, which rolls everything back, or a result and
  the new state.

  The contracts the account calls (the document compiler, the adopted controller, the pool, the
  target of \<open>execute\<close>) and OpenZeppelin's library are the fields of \<open>contracts\<close>, on a state \<open>'w\<close> of
  everything outside the account's own entries. Which controller is called is the applied document's choice,
  so no property of the controller is built in. The host refuses to re-enter a contract that is on
  the call stack, so that no call changes the account's own entries. Lifetimes of entries are not kept.
\<close>

section \<open>State\<close>

datatype account_error =
    AE_AdminLockout | AE_RevokedCredential | AE_EnrollmentReused | AE_ZkFactorChangedInPlace | AE_ReservedFunction
  | AE_RecoveryNotEnrolled | AE_NoPendingUpgrade | AE_UpgradeRequestMismatch | AE_UpgradeNotReady
  | AE_TimingOverflow | AE_InvalidCredential | AE_StaleUpgrade | AE_Compiler doc_compiler_error
  | AE_Recovery recovery_error | AE_StaleRevision

datatype account_auth_error = AU_ReservedFunction | AU_AccountFrozen | AU_SmartAccount

record freeze_gate =
  fg_attempt_id :: u64
  fg_until :: u32

record infra_pins =
  pin_doc_compiler :: address
  pin_interpreter :: address
  pin_spending_limit :: address

record account_configuration =
  cf_revision :: u64
  cf_doc_hash :: "bytes32 option"
  cf_rules :: "installed_rule list"
  cf_recovery_controller :: "address option"
  cf_recovery_rule :: "u32 option"
  cf_gate :: "freeze_gate list"
  cf_recovery_generation :: u64
  cf_infra :: infra_pins

record account_capabilities =
  cp_interface_version :: u32
  cp_doc_identity :: string
  cp_auth_digest :: string
  cp_apply_modes :: "string list"
  cp_snapshot_version :: u32

datatype account_event =
    Ev_DocApplied bytes32 u64 delta_summary
  | Ev_CredentialRevoked bytes32
  | Ev_FreezeChanged u64 u32
  | Ev_UpgradeScheduled u64 bytes32 u32
  | Ev_UpgradeDropped u64
  | Ev_UpgradeExecuted u64 bytes32

record account_storage =
  as_applied_doc :: "bytes32 option"
  as_applied_doc_bytes :: "bytes option"
  as_applied_fingerprints :: "bytes32 list option"
  as_recovery_controller :: "address option"
  as_recovery_rule :: "u32 option"
  as_gate :: "freeze_gate option"
  as_current_zk :: "compiled_zk_factor option"
  as_revoked :: "bytes32 \<rightharpoonup> bool"
  as_enrolled_ids :: "bytes32 \<rightharpoonup> bool"
  as_pending_upgrade :: "upgrade_request option"
  as_recovery_generation :: "u64 option"
  as_installed_rules :: "installed_rule list option"
  as_next_upgrade_id :: "u64 option"
  as_revision :: "u64 option"

text \<open>An invocation's state: the account's entries, the world and the events published so far.\<close>

record 'w account_state =
  ac_store :: account_storage
  ac_world :: 'w
  ac_events :: "account_event list"

section \<open>The environment and the contracts called\<close>

record account_env =
  an_rules :: rules_env
  an_doc_compiler :: address
  an_xdr :: to_xdr
  an_auth :: "address \<Rightarrow> bool"

abbreviation an_self :: "account_env \<Rightarrow> address" where "an_self e \<equiv> re_self (an_rules e)"
abbreviation an_now :: "account_env \<Rightarrow> u32" where "an_now e \<equiv> re_now (an_rules e)"
abbreviation an_sha256 :: "account_env \<Rightarrow> bytes \<Rightarrow> bytes32" where "an_sha256 e \<equiv> re_sha256 (an_rules e)"

text \<open>OpenZeppelin's \<open>AuthPayload\<close>.\<close>

record auth_payload =
  pl_context_rule_ids :: "u32 list"
  pl_signers :: "(signer \<times> bytes) list"

record 'w contracts =
  ct_oz :: "'w oz"
  ct_do_check_auth :: "bytes32 \<Rightarrow> auth_payload \<Rightarrow> auth_context list \<Rightarrow> 'w \<Rightarrow> 'w option"
  ct_compile_doc :: "address \<Rightarrow> bytes \<Rightarrow> doc_compiler_error failure + compiled_doc"
  ct_rcv_sync :: "address \<Rightarrow> address \<Rightarrow> bytes32 \<Rightarrow> compiled_recovery_config list \<Rightarrow> u32 \<Rightarrow> 'w
    \<Rightarrow> recovery_error failure + sync_outcome \<times> 'w"
  ct_rcv_cancel :: "address \<Rightarrow> address \<Rightarrow> u64 \<Rightarrow> 'w \<Rightarrow> recovery_error failure + 'w"
  ct_rcv_upgrade :: "address \<Rightarrow> address \<Rightarrow> upgrade_step \<Rightarrow> 'w \<Rightarrow> recovery_error failure + u64 \<times> 'w"
  ct_rcv_insert :: "address \<Rightarrow> address \<Rightarrow> bytes32 \<Rightarrow> bytes32 \<Rightarrow> 'w \<Rightarrow> 'w option"
  ct_invoke :: "address \<Rightarrow> string \<Rightarrow> val list \<Rightarrow> 'w \<Rightarrow> (val \<times> 'w) option"
  ct_update_wasm :: "bytes32 \<Rightarrow> 'w \<Rightarrow> 'w option"

type_synonym 'a acct = "account_error failure + 'a"

definition acct_fail :: "account_error \<Rightarrow> 'a acct" where
  "acct_fail err = Inl (Failed err)"

definition acct_require_auth :: "account_env \<Rightarrow> address \<Rightarrow> unit acct" where
  "acct_require_auth e a = require (an_auth e a) Unauthorized"

text \<open>
  \<open>try_...()??\<close>: a contract error flattens into the account's error; a call that fails without one
  fails this invocation.
\<close>

definition flatten_error :: "('e \<Rightarrow> account_error) \<Rightarrow> 'e failure + 'a \<Rightarrow> 'a acct" where
  "flatten_error f m = map_err (\<lambda>err. case err of Failed x \<Rightarrow> Failed (f x) | _ \<Rightarrow> Trap) m"

definition publish :: "account_event \<Rightarrow> 'w account_state \<Rightarrow> 'w account_state" where
  "publish ev s = s\<lparr>ac_events := ac_events s @ [ev]\<rparr>"

abbreviation with_store :: "(account_storage \<Rightarrow> account_storage) \<Rightarrow> 'w account_state \<Rightarrow> 'w account_state" where
  "with_store f s \<equiv> s\<lparr>ac_store := f (ac_store s)\<rparr>"

abbreviation unwrap_or :: "'a \<Rightarrow> 'a option \<Rightarrow> 'a" where
  "unwrap_or d x \<equiv> case_option d id x"

section \<open>The signed digest\<close>

definition AUTH_ADDR_DOMAIN :: bytes where "AUTH_ADDR_DOMAIN = str_bytes_of ''perch/account/auth-addr-v1''"

definition account_auth_preimage :: "bytes \<Rightarrow> bytes32 \<Rightarrow> bytes" where
  "account_auth_preimage account_id signature_payload = AUTH_ADDR_DOMAIN @ account_id @ bytes32_to_array signature_payload"

definition bind_signature_payload :: "(bytes \<Rightarrow> bytes32) \<Rightarrow> bytes32 \<Rightarrow> bytes32 \<Rightarrow> bytes32" where
  "bind_signature_payload sha account_id signature_payload =
     sha (account_auth_preimage (bytes32_to_array account_id) signature_payload)"

definition payload_id :: "to_xdr \<Rightarrow> address \<Rightarrow> bytes" where
  "payload_id xdr account = (case address_payload xdr account of Some (_, i) \<Rightarrow> i | None \<Rightarrow> replicate 32 0)"

definition bind_signature_payload_for_account :: "(bytes \<Rightarrow> bytes32) \<Rightarrow> to_xdr \<Rightarrow> address \<Rightarrow> bytes32 \<Rightarrow> bytes32" where
  "bind_signature_payload_for_account sha xdr account signature_payload =
     bind_signature_payload sha (bytes32_of (payload_id xdr account)) signature_payload"

definition bind_payload :: "account_env \<Rightarrow> bytes32 \<Rightarrow> bytes32" where
  "bind_payload e signature_payload = an_sha256 e (account_auth_preimage (payload_id (an_xdr e) (an_self e)) signature_payload)"

section \<open>Helpers on the state\<close>

definition generation :: "account_storage \<Rightarrow> u64" where
  "generation st = unwrap_or 0 (as_recovery_generation st)"

text \<open>The wasm is built with overflow checks: an addition past \<open>u64::MAX\<close> traps.\<close>

definition advance_generation :: "'w account_state \<Rightarrow> 'w account_state acct" where
  "advance_generation s =
     and_then (ok_or (checked_add (generation (ac_store s)) 1) Trap) (\<lambda>n.
     Inr (with_store (as_recovery_generation_update (\<lambda>_. Some n)) s))"

definition revision :: "account_storage \<Rightarrow> u64" where
  "revision st = unwrap_or 0 (as_revision st)"

definition advance_revision :: "'w account_state \<Rightarrow> (u64 \<times> 'w account_state) acct" where
  "advance_revision s =
     and_then (ok_or (checked_add (revision (ac_store s)) 1) Trap) (\<lambda>n.
     Inr (n, with_store (as_revision_update (\<lambda>_. Some n)) s))"

definition drop_pending_upgrade :: "'w account_state \<Rightarrow> 'w account_state" where
  "drop_pending_upgrade s =
     (case as_pending_upgrade (ac_store s) of
        None \<Rightarrow> s
      | Some request \<Rightarrow> publish (Ev_UpgradeDropped (ur_request_id request)) (with_store (as_pending_upgrade_update (\<lambda>_. None)) s))"

definition installed_rules :: "account_storage \<Rightarrow> installed_rule list" where
  "installed_rules st = unwrap_or [] (as_installed_rules st)"

section \<open>Completing a recovery\<close>

definition revoke :: "bytes32 \<Rightarrow> 'w account_state \<Rightarrow> 'w account_state" where
  "revoke f s = publish (Ev_CredentialRevoked f) (with_store (as_revoked_update (\<lambda>m. m(f \<mapsto> True))) s)"

definition complete_recovery :: "account_env \<Rightarrow> credential list \<Rightarrow> bytes32 list \<Rightarrow> 'w account_state \<Rightarrow> 'w account_state acct"
  where
  "complete_recovery e replaced target_fingerprints s =
     and_then (collect_results (\<lambda>c. map_err (\<lambda>_. Failed AE_InvalidCredential) (Recovery_Interface.fingerprint (an_sha256 e) (an_xdr e) c)) replaced)
       (\<lambda>replaced_fingerprints.
     let before = unwrap_or [] (as_applied_fingerprints (ac_store s));
         s1 = fold revoke (revocations replaced_fingerprints before target_fingerprints) s;
         s2 = with_store (as_gate_update (\<lambda>_. None)) s1
     in Inr (drop_pending_upgrade s2))"

section \<open>apply\<close>

text \<open>\<open>apply_rules\<close>: the entries are written only when they change.\<close>

definition apply_rules :: "account_env \<Rightarrow> 'w contracts \<Rightarrow> compiled_doc \<Rightarrow> rules_mode \<Rightarrow> 'w account_state
    \<Rightarrow> (delta_summary \<times> 'w account_state) acct" where
  "apply_rules e X compiled mode s =
     (let current = installed_rules (ac_store s)
      in and_then (ok_or (reconcile (an_rules e) (ct_oz X) current (desired (an_rules e) compiled) mode (ac_world s)) Trap)
           (\<lambda>(next, delta, w).
         let s1 = s\<lparr>ac_world := w\<rparr>;
             s2 = (if next \<noteq> current then with_store (as_installed_rules_update (\<lambda>_. Some next)) s1 else s1);
             recovery_rule = map_option ir_id (find ir_recovery next);
             s3 = (if as_recovery_rule (ac_store s2) \<noteq> recovery_rule
                   then with_store (as_recovery_rule_update (\<lambda>_. recovery_rule)) s2 else s2);
             controller = (case cd_recovery compiled of [] \<Rightarrow> None | r # _ \<Rightarrow> Some (cc_controller r));
             s4 = (if as_recovery_controller (ac_store s3) \<noteq> controller
                   then with_store (as_recovery_controller_update (\<lambda>_. controller)) s3 else s3)
         in Inr (delta, s4)))"

definition refuse_revoked :: "account_storage \<Rightarrow> bytes32 list \<Rightarrow> unit acct" where
  "refuse_revoked st fps =
     (if list_ex (\<lambda>f. as_revoked st f \<noteq> None) fps then acct_fail AE_RevokedCredential else Inr ())"

text \<open>One call of a controller's \<open>rcv_sync\<close>; every outcome but an unchanged one advances the generation.\<close>

definition sync_one :: "account_env \<Rightarrow> 'w contracts \<Rightarrow> address \<Rightarrow> compiled_doc \<Rightarrow> u32 \<Rightarrow> 'w account_state
    \<Rightarrow> (sync_outcome \<times> 'w account_state) acct" where
  "sync_one e X controller compiled approval_valid_until s =
     and_then (flatten_error AE_Recovery
       (ct_rcv_sync X controller (an_self e) (cd_doc_hash compiled) (cd_recovery compiled) approval_valid_until (ac_world s)))
       (\<lambda>(outcome, w).
     and_then (if bumps_generation outcome then advance_generation (s\<lparr>ac_world := w\<rparr>) else Inr (s\<lparr>ac_world := w\<rparr>)) (\<lambda>s'.
     Inr (outcome, s')))"

text \<open>The adopted controller classifies the change, then a newly named one enrolls the account.\<close>

definition sync_controllers :: "account_env \<Rightarrow> 'w contracts \<Rightarrow> compiled_doc \<Rightarrow> u32 \<Rightarrow> 'w account_state
    \<Rightarrow> (sync_outcome \<times> 'w account_state) acct" where
  "sync_controllers e X compiled approval_valid_until s =
     (let old_controller = as_recovery_controller (ac_store s)
      in and_then (case old_controller of
                     None \<Rightarrow> Inr (Sync_Unchanged, s)
                   | Some c \<Rightarrow> sync_one e X c compiled approval_valid_until s) (\<lambda>(outcome, s1).
         and_then (case cd_recovery compiled of
                     [] \<Rightarrow> Inr s1
                   | r # _ \<Rightarrow>
                       if old_controller \<noteq> Some (cc_controller r)
                       then and_then (sync_one e X (cc_controller r) compiled approval_valid_until s1) (\<lambda>(_, s'). Inr s')
                       else Inr s1) (\<lambda>s2.
         Inr (outcome, s2))))"

definition insert_leaf :: "account_env \<Rightarrow> 'w contracts \<Rightarrow> compiled_zk_factor option \<Rightarrow> 'w account_state \<Rightarrow> 'w account_state acct"
  where
  "insert_leaf e X to_insert s =
     (case to_insert of
        None \<Rightarrow> Inr s
      | Some leaf \<Rightarrow>
          and_then (ok_or (ct_rcv_insert X (cz_pool leaf) (an_self e) (cz_enrollment_id leaf) (cz_commitment leaf) (ac_world s)) Trap)
            (\<lambda>w. Inr (with_store (as_enrolled_ids_update (\<lambda>m. m(cz_enrollment_id leaf \<mapsto> True))) (s\<lparr>ac_world := w\<rparr>))))"

definition record_document :: "compiled_doc \<Rightarrow> 'w account_state \<Rightarrow> 'w account_state" where
  "record_document compiled s =
     (if as_applied_doc (ac_store s) \<noteq> Some (cd_doc_hash compiled)
      then with_store (\<lambda>st. st\<lparr>as_applied_doc := Some (cd_doc_hash compiled), as_applied_doc_bytes := Some (cd_canonical compiled),
                              as_applied_fingerprints := Some (cd_fingerprints compiled)\<rparr>) s
      else s)"

text \<open>The checks of \<open>apply\<close> that precede its first write, and the factor and leaf it goes on with.\<close>

definition apply_checks :: "account_env \<Rightarrow> 'w contracts \<Rightarrow> bytes \<Rightarrow> u64 option \<Rightarrow> 'w account_state
    \<Rightarrow> (compiled_doc \<times> compiled_zk_factor option \<times> compiled_zk_factor option) acct" where
  "apply_checks e X doc_json expected_revision s =
     (let st = ac_store s
      in and_then (acct_require_auth e (an_self e)) (\<lambda>_.
         if (case expected_revision of Some r \<Rightarrow> r \<noteq> revision st | None \<Rightarrow> False) then acct_fail AE_StaleRevision
         else and_then (flatten_error AE_Compiler (ct_compile_doc X (an_doc_compiler e) doc_json)) (\<lambda>compiled.
         if \<not> admin_survives (cd_rules compiled) then acct_fail AE_AdminLockout
         else and_then (refuse_revoked st (cd_fingerprints compiled)) (\<lambda>_.
         let new_zk = (case cd_recovery compiled of [] \<Rightarrow> None | r # _ \<Rightarrow> config_zk r);
             current_zk = as_current_zk st
         in if \<not> zk_factor_transition_ok current_zk new_zk then acct_fail AE_ZkFactorChangedInPlace
            else let to_insert = leaf_to_insert current_zk new_zk
                 in if (case to_insert of Some leaf \<Rightarrow> as_enrolled_ids st (cz_enrollment_id leaf) \<noteq> None | None \<Rightarrow> False)
                    then acct_fail AE_EnrollmentReused
                    else Inr (compiled, new_zk, to_insert)))))"

definition account_apply :: "account_env \<Rightarrow> 'w contracts \<Rightarrow> bytes \<Rightarrow> u32 \<Rightarrow> u64 option \<Rightarrow> rules_mode \<Rightarrow> 'w account_state
    \<Rightarrow> (bytes32 \<times> 'w account_state) acct" where
  "account_apply e X doc_json approval_valid_until expected_revision mode s =
     and_then (apply_checks e X doc_json expected_revision s) (\<lambda>(compiled, new_zk, to_insert).
     and_then (sync_controllers e X compiled approval_valid_until s) (\<lambda>(outcome, s1).
     and_then (apply_rules e X compiled mode s1) (\<lambda>(delta, s2).
     and_then (insert_leaf e X to_insert s2) (\<lambda>s3.
     let s4 = (if as_current_zk (ac_store s3) \<noteq> new_zk then with_store (as_current_zk_update (\<lambda>_. new_zk)) s3 else s3)
     in and_then (case outcome of
                    Completed completion \<Rightarrow> complete_recovery e (co_replaced completion) (cd_fingerprints compiled) s4
                  | _ \<Rightarrow> Inr s4) (\<lambda>s5.
        and_then (advance_revision (record_document compiled s5)) (\<lambda>(rev, s6).
        Inr (cd_doc_hash compiled, publish (Ev_DocApplied (cd_doc_hash compiled) rev delta) s6)))))))"

definition apply_doc :: "account_env \<Rightarrow> 'w contracts \<Rightarrow> bytes \<Rightarrow> u32 \<Rightarrow> u64 option \<Rightarrow> 'w account_state
    \<Rightarrow> (bytes32 \<times> 'w account_state) acct" where
  "apply_doc e X doc_json approval_valid_until expected_revision s =
     account_apply e X doc_json approval_valid_until expected_revision Mode_Cheapest s"

definition apply_doc_full_replace :: "account_env \<Rightarrow> 'w contracts \<Rightarrow> bytes \<Rightarrow> u32 \<Rightarrow> u64 option \<Rightarrow> 'w account_state
    \<Rightarrow> (bytes32 \<times> 'w account_state) acct" where
  "apply_doc_full_replace e X doc_json approval_valid_until expected_revision s =
     account_apply e X doc_json approval_valid_until expected_revision Mode_FullReplace s"

definition apply_doc_with :: "account_env \<Rightarrow> 'w contracts \<Rightarrow> bytes \<Rightarrow> u32 \<Rightarrow> rules_mode \<Rightarrow> 'w account_state
    \<Rightarrow> (bytes32 \<times> 'w account_state) acct" where
  "apply_doc_with e X doc_json approval_valid_until mode s = account_apply e X doc_json approval_valid_until None mode s"

definition plan_doc :: "account_env \<Rightarrow> 'w contracts \<Rightarrow> bytes \<Rightarrow> rules_mode \<Rightarrow> 'w account_state \<Rightarrow> planned_rule list option" where
  "plan_doc e X doc_json mode s =
     (case ct_compile_doc X (an_doc_compiler e) doc_json of
        Inl _ \<Rightarrow> None
      | Inr compiled \<Rightarrow> plan_rules (an_rules e) (ct_oz X) (installed_rules (ac_store s)) (desired (an_rules e) compiled) mode (ac_world s))"

section \<open>The other entry points\<close>

definition execute :: "account_env \<Rightarrow> 'w contracts \<Rightarrow> address \<Rightarrow> string \<Rightarrow> val list \<Rightarrow> 'w account_state
    \<Rightarrow> (val \<times> 'w account_state) acct" where
  "execute e X target target_fn target_args s =
     and_then (acct_require_auth e (an_self e)) (\<lambda>_.
     if is_reserved_invoker_only target_fn then acct_fail AE_ReservedFunction
     else and_then (ok_or (ct_invoke X target target_fn target_args (ac_world s)) Trap) (\<lambda>(v, w).
          Inr (v, s\<lparr>ac_world := w\<rparr>)))"

definition rcv_gate :: "account_env \<Rightarrow> u64 \<Rightarrow> u32 \<Rightarrow> 'w account_state \<Rightarrow> 'w account_state acct" where
  "rcv_gate e attempt_id frozen_until s =
     and_then (ok_or (as_recovery_controller (ac_store s)) (Failed AE_RecoveryNotEnrolled)) (\<lambda>controller.
     and_then (acct_require_auth e controller) (\<lambda>_.
     let s1 = (if frozen_until = 0
               then if (case as_gate (ac_store s) of Some g \<Rightarrow> fg_attempt_id g = attempt_id | None \<Rightarrow> False)
                    then with_store (as_gate_update (\<lambda>_. None)) s else s
               else with_store (as_gate_update (\<lambda>_. Some \<lparr>fg_attempt_id = attempt_id, fg_until = frozen_until\<rparr>)) s)
     in Inr (publish (Ev_FreezeChanged attempt_id frozen_until) s1)))"

definition cancel_recovery :: "account_env \<Rightarrow> 'w contracts \<Rightarrow> u64 \<Rightarrow> 'w account_state \<Rightarrow> 'w account_state acct" where
  "cancel_recovery e X attempt_id s =
     and_then (acct_require_auth e (an_self e)) (\<lambda>_.
     and_then (ok_or (as_recovery_controller (ac_store s)) (Failed AE_RecoveryNotEnrolled)) (\<lambda>controller.
     and_then (flatten_error AE_Recovery (ct_rcv_cancel X controller (an_self e) attempt_id (ac_world s))) (\<lambda>w.
     Inr (s\<lparr>ac_world := w\<rparr>))))"

definition schedule_upgrade :: "account_env \<Rightarrow> 'w contracts \<Rightarrow> bytes32 \<Rightarrow> u32 \<Rightarrow> 'w account_state
    \<Rightarrow> (u64 \<times> 'w account_state) acct" where
  "schedule_upgrade e X wasm_hash approval_valid_until s =
     and_then (acct_require_auth e (an_self e)) (\<lambda>_.
     let request_id = unwrap_or 0 (as_next_upgrade_id (ac_store s))
     in and_then (ok_or (checked_add request_id 1) Trap) (\<lambda>n.
        let s1 = with_store (as_next_upgrade_id_update (\<lambda>_. Some n)) s
        in and_then (case as_recovery_controller (ac_store s1) of
                       None \<Rightarrow> Inr (None, s1)
                     | Some c \<Rightarrow>
                         and_then (flatten_error AE_Recovery (ct_rcv_upgrade X c (an_self e)
                             (Step_Schedule \<lparr>us_request_id = request_id, us_wasm_hash = wasm_hash\<rparr> approval_valid_until) (ac_world s1)))
                           (\<lambda>(epoch, w). Inr (Some epoch, s1\<lparr>ac_world := w\<rparr>))) (\<lambda>(controller_epoch, s2).
           and_then (ok_or (upgrade_schedule request_id wasm_hash (generation (ac_store s2)) controller_epoch (an_now e))
                       (Failed AE_TimingOverflow)) (\<lambda>request.
           let s3 = with_store (as_pending_upgrade_update (\<lambda>_. Some request)) (drop_pending_upgrade s2)
           in Inr (request_id, publish (Ev_UpgradeScheduled request_id wasm_hash (ur_executable_at request)) s3)))))"

definition execute_upgrade :: "account_env \<Rightarrow> 'w contracts \<Rightarrow> u64 \<Rightarrow> 'w account_state \<Rightarrow> 'w account_state acct" where
  "execute_upgrade e X request_id s =
     and_then (acct_require_auth e (an_self e)) (\<lambda>_.
     and_then (ok_or (as_pending_upgrade (ac_store s)) (Failed AE_NoPendingUpgrade)) (\<lambda>request.
     if ur_request_id request \<noteq> request_id then acct_fail AE_UpgradeRequestMismatch
     else case readiness request (an_now e) (generation (ac_store s)) of
            Stale \<Rightarrow> acct_fail AE_StaleUpgrade
          | NotYet \<Rightarrow> acct_fail AE_UpgradeNotReady
          | Ready \<Rightarrow>
              let s1 = drop_pending_upgrade s
              in and_then (case as_recovery_controller (ac_store s1) of
                             None \<Rightarrow> Inr s1
                           | Some c \<Rightarrow>
                               and_then (ok_or (ur_controller_epoch request) (Failed AE_StaleUpgrade)) (\<lambda>epoch.
                               and_then (flatten_error AE_Recovery (ct_rcv_upgrade X c (an_self e) (Step_Execute epoch) (ac_world s1)))
                                 (\<lambda>(_, w). Inr (s1\<lparr>ac_world := w\<rparr>)))) (\<lambda>s2.
                 and_then (advance_generation s2) (\<lambda>s3.
                 and_then (advance_revision s3) (\<lambda>(_, s4).
                 let s5 = publish (Ev_UpgradeExecuted request_id (ur_wasm_hash request)) s4
                 in and_then (ok_or (ct_update_wasm X (ur_wasm_hash request) (ac_world s5)) Trap) (\<lambda>w.
                    Inr (s5\<lparr>ac_world := w\<rparr>)))))))"

definition cancel_upgrade :: "account_env \<Rightarrow> 'w account_state \<Rightarrow> 'w account_state acct" where
  "cancel_upgrade e s =
     and_then (acct_require_auth e (an_self e)) (\<lambda>_.
     if as_pending_upgrade (ac_store s) = None then acct_fail AE_NoPendingUpgrade
     else Inr (drop_pending_upgrade s))"

section \<open>Views\<close>

definition infra :: "account_env \<Rightarrow> infra_pins" where
  "infra e = \<lparr>pin_doc_compiler = an_doc_compiler e, pin_interpreter = re_interpreter (an_rules e),
              pin_spending_limit = re_spending_limit (an_rules e)\<rparr>"

definition is_revoked :: "account_storage \<Rightarrow> bytes32 \<Rightarrow> bool" where
  "is_revoked st f \<longleftrightarrow> as_revoked st f \<noteq> None"

definition is_enrolled_id :: "account_storage \<Rightarrow> bytes32 \<Rightarrow> bool" where
  "is_enrolled_id st i \<longleftrightarrow> as_enrolled_ids st i \<noteq> None"

definition next_upgrade_request_id :: "account_storage \<Rightarrow> u64" where
  "next_upgrade_request_id st = unwrap_or 0 (as_next_upgrade_id st)"

definition configuration :: "account_env \<Rightarrow> account_storage \<Rightarrow> account_configuration" where
  "configuration e st =
     \<lparr>cf_revision = revision st, cf_doc_hash = as_applied_doc st, cf_rules = installed_rules st,
      cf_recovery_controller = as_recovery_controller st, cf_recovery_rule = as_recovery_rule st,
      cf_gate = (case as_gate st of Some g \<Rightarrow> [g] | None \<Rightarrow> []), cf_recovery_generation = generation st,
      cf_infra = infra e\<rparr>"

definition document :: "account_storage \<Rightarrow> u64 \<times> bytes option" where
  "document st = (revision st, as_applied_doc_bytes st)"

definition account_capabilities_view :: account_capabilities where
  "account_capabilities_view =
     \<lparr>cp_interface_version = 1, cp_doc_identity = ''canon_v1'', cp_auth_digest = ''addr_oz_v1'',
      cp_apply_modes = [''one_tx''], cp_snapshot_version = 1\<rparr>"

section \<open>Authorization\<close>

definition is_completion :: "account_env \<Rightarrow> account_storage \<Rightarrow> auth_payload \<Rightarrow> auth_context list \<Rightarrow> bool" where
  "is_completion e st signatures contexts =
     (case as_recovery_rule st of
        None \<Rightarrow> False
      | Some rl \<Rightarrow>
          (case contexts of
             [ctx] \<Rightarrow>
               pl_context_rule_ids signatures = [rl] \<and>
               (case ctx of
                  Ctx_Contract c \<Rightarrow> cc_contract c = an_self e \<and> cc_fn_name c = ''apply_doc''
                | _ \<Rightarrow> False)
           | _ \<Rightarrow> False))"

definition names_reserved :: "auth_context \<Rightarrow> bool" where
  "names_reserved ctx = (case ctx of Ctx_Contract c \<Rightarrow> is_reserved_invoker_only (cc_fn_name c) | _ \<Rightarrow> False)"

definition check_auth :: "account_env \<Rightarrow> 'w contracts \<Rightarrow> bytes32 \<Rightarrow> auth_payload \<Rightarrow> auth_context list \<Rightarrow> 'w account_state
    \<Rightarrow> account_auth_error + 'w account_state" where
  "check_auth e X signature_payload signatures auth_contexts s =
     (if list_ex names_reserved auth_contexts then Inl AU_ReservedFunction
      else if (case as_gate (ac_store s) of
                 Some gate \<Rightarrow> is_frozen (an_now e) (fg_until gate) \<and> \<not> is_completion e (ac_store s) signatures auth_contexts
               | None \<Rightarrow> False)
      then Inl AU_AccountFrozen
      else let bound = bind_payload e signature_payload
           in and_then (ok_or (ct_do_check_auth X bound signatures auth_contexts (ac_world s)) AU_SmartAccount) (\<lambda>w.
              Inr (s\<lparr>ac_world := w\<rparr>)))"

section \<open>Construction\<close>

definition empty_account :: account_storage where
  "empty_account =
     \<lparr>as_applied_doc = None, as_applied_doc_bytes = None, as_applied_fingerprints = None,
      as_recovery_controller = None, as_recovery_rule = None, as_gate = None, as_current_zk = None,
      as_revoked = Map.empty, as_enrolled_ids = Map.empty, as_pending_upgrade = None,
      as_recovery_generation = None, as_installed_rules = None, as_next_upgrade_id = None, as_revision = None\<rparr>"

definition install_admin :: "account_env \<Rightarrow> 'w contracts \<Rightarrow> signer list \<Rightarrow> 'w account_state \<Rightarrow> 'w account_state acct" where
  "install_admin e X admin_signers s =
     and_then (ok_or (oz_add_context_rule (ct_oz X) (CR_CallContract (an_self e)) ''admin'' None admin_signers Map.empty (ac_world s)) Trap)
       (\<lambda>(i, w).
     Inr (with_store (as_installed_rules_update (\<lambda>_. Some [admin_rule (an_rules e) i admin_signers])) (s\<lparr>ac_world := w\<rparr>)))"

definition constructor :: "account_env \<Rightarrow> 'w contracts \<Rightarrow> signer list \<Rightarrow> 'w \<Rightarrow> 'w account_state acct" where
  "constructor e X admin_signers w =
     install_admin e X admin_signers \<lparr>ac_store = empty_account, ac_world = w, ac_events = []\<rparr>"

end
