(* ===== verification/Account_Factory.thy ===== *)
theory Account_Factory
  imports Account
begin

text \<open>
  The account factory (\<open>crates/perch-account-factory/src/lib.rs\<close>): stateless, one pinned wasm, an
  address that commits to the admin signers.
\<close>

section \<open>The factory\<close>

text \<open>
  The host's deployment by salt: the address it derives from the deployer and the salt, and the
  deployment itself, \<open>None\<close> when it fails.
\<close>

record 'w factory_env =
  fe_self :: address
  fe_sha256 :: "bytes \<Rightarrow> bytes32"
  fe_signers_xdr :: "signer list \<Rightarrow> bytes"
  fe_account_wasm_hash :: bytes32
  fe_webauthn_verifier :: address
  fe_deployed_address :: "address \<Rightarrow> bytes32 \<Rightarrow> address"
  fe_deploy_v2 :: "address \<Rightarrow> bytes32 \<Rightarrow> signer list \<Rightarrow> 'w \<Rightarrow> 'w option"

datatype factory_event = Ev_AccountCreated address bytes32 "signer list"

definition deploy_salt :: "'w factory_env \<Rightarrow> bytes32 \<Rightarrow> signer list \<Rightarrow> bytes32" where
  "deploy_salt e salt admin_signers = fe_sha256 e (bytes32_to_array salt @ fe_signers_xdr e admin_signers)"

definition address_of :: "'w factory_env \<Rightarrow> bytes32 \<Rightarrow> signer list \<Rightarrow> address" where
  "address_of e salt admin_signers = fe_deployed_address e (fe_self e) (deploy_salt e salt admin_signers)"

definition create :: "'w factory_env \<Rightarrow> bytes32 \<Rightarrow> signer list \<Rightarrow> 'w \<Rightarrow> (address \<times> factory_event \<times> 'w) option" where
  "create e salt admin_signers w =
     (let account = fe_deployed_address e (fe_self e) (deploy_salt e salt admin_signers)
      in case fe_deploy_v2 e account (fe_account_wasm_hash e) admin_signers w of
           None \<Rightarrow> None
         | Some w' \<Rightarrow> Some (account, Ev_AccountCreated account salt admin_signers, w'))"

definition passkey_signer :: "'w factory_env \<Rightarrow> bytes \<Rightarrow> signer" where
  "passkey_signer e key_data = Signer_External (fe_webauthn_verifier e) key_data"

definition passkey_address :: "'w factory_env \<Rightarrow> bytes32 \<Rightarrow> bytes \<Rightarrow> address" where
  "passkey_address e salt key_data = address_of e salt [passkey_signer e key_data]"

definition create_passkey :: "'w factory_env \<Rightarrow> bytes32 \<Rightarrow> bytes \<Rightarrow> 'w \<Rightarrow> (address \<times> factory_event \<times> 'w) option" where
  "create_passkey e salt key_data w = create e salt [passkey_signer e key_data] w"

text \<open>
  An address commits to its signers. The factory deploys an account at the address it predicts,
  from the pinned Wasm with the given signers, and the passkey entry points are those for the one
  signer of the pinned verifier. Where the host derives different addresses from different salts and
  the encoding of signer lists is injective, one address has one salt and one list of signers, unless
  SHA-256 collides.
\<close>

theorem factory_address_commits:
  assumes "\<And>x y. fe_deployed_address e (fe_self e) x = fe_deployed_address e (fe_self e) y \<Longrightarrow> x = y"
    and "fe_signers_xdr e signers = fe_signers_xdr e signers' \<Longrightarrow> signers = signers'"
    and "address_of e salt signers = address_of e salt' signers'"
  shows "(salt = salt' \<and> signers = signers' \<or> (\<exists>x y. x \<noteq> y \<and> fe_sha256 e x = fe_sha256 e y)) \<and>
    create e salt signers w = map_option (\<lambda>w'. (address_of e salt signers, Ev_AccountCreated (address_of e salt signers) salt signers, w'))
      (fe_deploy_v2 e (address_of e salt signers) (fe_account_wasm_hash e) signers w) \<and>
    create_passkey e salt key w = create e salt [Signer_External (fe_webauthn_verifier e) key] w \<and>
    passkey_address e salt key = address_of e salt [Signer_External (fe_webauthn_verifier e) key]"
proof -
  have eq: "fe_sha256 e (bytes32_to_array salt @ fe_signers_xdr e signers) = fe_sha256 e (bytes32_to_array salt' @ fe_signers_xdr e signers')"
    using assms(1) [of "deploy_salt e salt signers" "deploy_salt e salt' signers'"] assms(3) by (simp add: address_of_def deploy_salt_def)
  have "salt = salt' \<and> signers = signers'"
    if "bytes32_to_array salt @ fe_signers_xdr e signers = bytes32_to_array salt' @ fe_signers_xdr e signers'"
    using that assms(2) by (simp add: encode_simps)
  then have "salt = salt' \<and> signers = signers' \<or> (\<exists>x y. x \<noteq> y \<and> fe_sha256 e x = fe_sha256 e y)" using eq by blast
  then show ?thesis
    by (simp add: create_def address_of_def create_passkey_def passkey_address_def passkey_signer_def Let_def split: option.splits)
qed

definition demo_factory :: "unit factory_env" where
  "demo_factory = \<lparr>fe_self = ContractId 1, fe_sha256 = (\<lambda>bs. word_of_nat (length bs)), fe_signers_xdr = (\<lambda>ss. replicate (length ss) 7),
     fe_account_wasm_hash = 5, fe_webauthn_verifier = ContractId 6, fe_deployed_address = (\<lambda>_ x. ContractId x),
     fe_deploy_v2 = (\<lambda>_ _ _ w. Some w)\<rparr>"

text \<open>An instance: a passkey account of a factory that derives the address from the salt.\<close>

theorem factory_address_commits_witness:
  "create demo_factory 2 [passkey_signer demo_factory [4]] () =
     Some (address_of demo_factory 2 [passkey_signer demo_factory [4]],
           Ev_AccountCreated (address_of demo_factory 2 [passkey_signer demo_factory [4]]) 2 [passkey_signer demo_factory [4]], ()) \<and>
   create_passkey demo_factory 2 [4] () = create demo_factory 2 [Signer_External (ContractId 6) [4]] ()"
  using factory_address_commits [of demo_factory "[passkey_signer demo_factory [4]]" "[passkey_signer demo_factory [4]]" 2 2 "()" "[4]"]
  by (simp add: demo_factory_def)

end
