(* ===== verification/Account_Steps.thy ===== *)
theory Account_Steps
  imports Account Account_Reconcile
begin

text \<open>
  What each operation of the account does to its entries, and the account as a step relation: the
  constructor, then any sequence of entry points, authorizations and changes of the rest of the
  world. The contracts the account calls keep the rules OpenZeppelin stores for it (\<open>account_laws\<close>);
  nothing else is assumed of them here.
\<close>

section \<open>Effects of the helpers\<close>

lemma publish_simps [simp]:
  "ac_store (publish ev s) = ac_store s" "ac_world (publish ev s) = ac_world s"
  by (simp_all add: publish_def)

lemma unwrap_or_Some [simp]: "unwrap_or d (Some x) = x"
  by simp

lemma drop_pending_upgrade_simps [simp]:
  "ac_store (drop_pending_upgrade s) = (ac_store s)\<lparr>as_pending_upgrade := None\<rparr>"
  "ac_world (drop_pending_upgrade s) = ac_world s"
  by (auto simp: drop_pending_upgrade_def split: option.splits)

lemma checked_add_unat: "checked_add a b = Some c \<Longrightarrow> unat c = unat a + unat b"
  by (auto simp: checked_add_def unat_add_lem split: if_splits)

lemma advance_generation_Inr:
  "advance_generation s = Inr s' \<longleftrightarrow>
     (\<exists>n. checked_add (generation (ac_store s)) 1 = Some n \<and> s' = s\<lparr>ac_store := (ac_store s)\<lparr>as_recovery_generation := Some n\<rparr>\<rparr>)"
  by (auto simp: advance_generation_def result_simps)

lemma advance_revision_Inr:
  "advance_revision s = Inr (n, s') \<longleftrightarrow>
     checked_add (revision (ac_store s)) 1 = Some n \<and> s' = s\<lparr>ac_store := (ac_store s)\<lparr>as_revision := Some n\<rparr>\<rparr>"
  by (auto simp: advance_revision_def result_simps)

lemma flatten_error_Inr [simp]: "flatten_error f m = Inr x \<longleftrightarrow> m = Inr x"
  by (cases m) (auto simp: flatten_error_def)

lemma revoke_simps [simp]:
  "ac_store (revoke f s) = (ac_store s)\<lparr>as_revoked := (as_revoked (ac_store s))(f \<mapsto> True)\<rparr>" "ac_world (revoke f s) = ac_world s"
  by (simp_all add: revoke_def)

lemma fold_revoke:
  "ac_store (fold revoke fs s) = (ac_store s)\<lparr>as_revoked := (\<lambda>f. if f \<in> set fs then Some True else as_revoked (ac_store s) f)\<rparr> \<and>
   ac_world (fold revoke fs s) = ac_world s"
proof (induction fs arbitrary: s)
  case (Cons f fs)
  have "(\<lambda>g. if g \<in> set fs then Some True else ((as_revoked (ac_store s))(f \<mapsto> True)) g) =
    (\<lambda>g. if g \<in> set (f # fs) then Some True else as_revoked (ac_store s) g)" by auto
  then show ?case using Cons.IH [of "revoke f s"] by (simp cong: if_cong)
qed simp

lemma complete_recovery_Inr:
  assumes "complete_recovery e replaced target s = Inr s'"
  obtains fs where "list_all2 (\<lambda>c f. fingerprint (an_sha256 e) (an_xdr e) c = Inr f) replaced fs"
    "ac_store s' = (ac_store s)\<lparr>as_gate := None, as_pending_upgrade := None,
       as_revoked := (\<lambda>f. if f \<in> set (revocations fs (unwrap_or [] (as_applied_fingerprints (ac_store s))) target)
                        then Some True else as_revoked (ac_store s) f)\<rparr>"
    "ac_world s' = ac_world s"
proof -
  obtain fs where fs: "collect_results (\<lambda>c. map_err (\<lambda>_. Failed AE_InvalidCredential) (fingerprint (an_sha256 e) (an_xdr e) c)) replaced = Inr fs"
    and s': "s' = drop_pending_upgrade (with_store (as_gate_update (\<lambda>_. None))
        (fold revoke (revocations fs (unwrap_or [] (as_applied_fingerprints (ac_store s))) target) s))"
    using assms by (auto simp: complete_recovery_def result_simps Let_def)
  have "list_all2 (\<lambda>c f. fingerprint (an_sha256 e) (an_xdr e) c = Inr f) replaced fs"
    using fs by (auto simp: collect_results_Inr_iff map_err_def elim!: list_all2_mono split: sum.splits)
  then show thesis using that s' fold_revoke [of "revocations fs (unwrap_or [] (as_applied_fingerprints (ac_store s))) target" s] by simp
qed

text \<open>The synchronisation touches the generation and the world.\<close>

definition generation_moved :: "bool \<Rightarrow> account_storage \<Rightarrow> account_storage \<Rightarrow> bool" where
  "generation_moved b st st' \<longleftrightarrow> (\<exists>g. st' = st\<lparr>as_recovery_generation := g\<rparr>) \<and> unat (generation st) \<le> unat (generation st') \<and>
     (b \<longrightarrow> unat (generation st) < unat (generation st'))"

lemma generation_moved_refl: "\<not> b \<Longrightarrow> generation_moved b st st"
  by (auto simp: generation_moved_def intro!: exI [of _ "as_recovery_generation st"])

lemma generation_moved_trans:
  assumes "generation_moved b st st1" "generation_moved b' st1 st2"
  shows "generation_moved (b \<or> b') st st2"
proof -
  obtain g1 g2 where g: "st1 = st\<lparr>as_recovery_generation := g1\<rparr>" "st2 = st1\<lparr>as_recovery_generation := g2\<rparr>"
    using assms unfolding generation_moved_def by blast
  have "st2 = st\<lparr>as_recovery_generation := g2\<rparr>" unfolding g by simp
  moreover have "unat (generation st) \<le> unat (generation st2)" "b \<or> b' \<Longrightarrow> unat (generation st) < unat (generation st2)"
    using assms unfolding generation_moved_def by linarith+
  ultimately show ?thesis unfolding generation_moved_def by blast
qed

lemma sync_one_Inr:
  assumes "sync_one e X c compiled u s = Inr (outcome, s')"
  shows "ct_rcv_sync X c (an_self e) (cd_doc_hash compiled) (cd_recovery compiled) u (ac_world s) = Inr (outcome, ac_world s')"
    and "generation_moved (bumps_generation outcome) (ac_store s) (ac_store s')"
proof -
  obtain w where w: "ct_rcv_sync X c (an_self e) (cd_doc_hash compiled) (cd_recovery compiled) u (ac_world s) = Inr (outcome, w)"
    and s': "(if bumps_generation outcome then advance_generation (s\<lparr>ac_world := w\<rparr>) else Inr (s\<lparr>ac_world := w\<rparr>)) = Inr s'"
    using assms by (auto simp: sync_one_def result_simps)
  show "ct_rcv_sync X c (an_self e) (cd_doc_hash compiled) (cd_recovery compiled) u (ac_world s) = Inr (outcome, ac_world s')"
    using w s' by (auto simp: advance_generation_Inr split: if_splits)
  show "generation_moved (bumps_generation outcome) (ac_store s) (ac_store s')"
    using s' by (auto simp: advance_generation_Inr generation_moved_def generation_def dest: checked_add_unat split: if_splits
        intro: exI [of _ "as_recovery_generation (ac_store s)"])
qed

text \<open>
  What the account relies on of the code it calls: OpenZeppelin's operations (\<open>oz_laws\<close>; a rule is
  added only with distinct signers and with a signer or a policy), and that no other contract
  changes the rules OpenZeppelin stores for the account.
\<close>

definition account_laws :: "'w contracts \<Rightarrow> 'w oz_view \<Rightarrow> bool" where
  "account_laws X view \<longleftrightarrow> oz_laws (ct_oz X) view \<and>
     (\<forall>ty n vu ss ps w i w'. oz_add_context_rule (ct_oz X) ty n vu ss ps w = Some (i, w') \<longrightarrow> distinct ss \<and> (ss \<noteq> [] \<or> ps \<noteq> Map.empty)) \<and>
     (\<forall>b sg cx w w'. ct_do_check_auth X b sg cx w = Some w' \<longrightarrow> view w' = view w) \<and>
     (\<forall>k a dh cs u w r w'. ct_rcv_sync X k a dh cs u w = Inr (r, w') \<longrightarrow> view w' = view w) \<and>
     (\<forall>k a i w w'. ct_rcv_cancel X k a i w = Inr w' \<longrightarrow> view w' = view w) \<and>
     (\<forall>k a st w r w'. ct_rcv_upgrade X k a st w = Inr (r, w') \<longrightarrow> view w' = view w) \<and>
     (\<forall>p a i c w w'. ct_rcv_insert X p a i c w = Some w' \<longrightarrow> view w' = view w) \<and>
     (\<forall>t f args w r w'. ct_invoke X t f args w = Some (r, w') \<longrightarrow> view w' = view w) \<and>
     (\<forall>h w w'. ct_update_wasm X h w = Some w' \<longrightarrow> view w' = view w)"

lemmas law_oz = account_laws_def [THEN iffD1, THEN conjunct1]
lemmas law_added = account_laws_def [THEN iffD1, THEN conjunct2, THEN conjunct1, rule_format]
lemmas law_auth = account_laws_def [THEN iffD1, THEN conjunct2, THEN conjunct2, THEN conjunct1, rule_format]
lemmas law_sync = account_laws_def [THEN iffD1, THEN conjunct2, THEN conjunct2, THEN conjunct2, THEN conjunct1, rule_format]
lemmas law_cancel = account_laws_def [THEN iffD1, THEN conjunct2, THEN conjunct2, THEN conjunct2, THEN conjunct2, THEN conjunct1, rule_format]
lemmas law_upgrade = account_laws_def [THEN iffD1, THEN conjunct2, THEN conjunct2, THEN conjunct2, THEN conjunct2, THEN conjunct2, THEN conjunct1, rule_format]
lemmas law_insert = account_laws_def [THEN iffD1, THEN conjunct2, THEN conjunct2, THEN conjunct2, THEN conjunct2, THEN conjunct2, THEN conjunct2, THEN conjunct1, rule_format]
lemmas law_invoke = account_laws_def [THEN iffD1, THEN conjunct2, THEN conjunct2, THEN conjunct2, THEN conjunct2, THEN conjunct2, THEN conjunct2, THEN conjunct2, THEN conjunct1, rule_format]
lemmas law_wasm = account_laws_def [THEN iffD1, THEN conjunct2, THEN conjunct2, THEN conjunct2, THEN conjunct2, THEN conjunct2, THEN conjunct2, THEN conjunct2, THEN conjunct2, rule_format]

lemma sync_controllers_Inr:
  assumes "sync_controllers e X compiled u s = Inr (outcome, s')"
  shows "generation_moved (bumps_generation outcome) (ac_store s) (ac_store s')"
    and "outcome = Sync_Unchanged \<or> (\<exists>k w. as_recovery_controller (ac_store s) = Some k \<and>
           ct_rcv_sync X k (an_self e) (cd_doc_hash compiled) (cd_recovery compiled) u (ac_world s) = Inr (outcome, w))"
    and "account_laws X view \<Longrightarrow> view (ac_world s') = view (ac_world s)"
proof -
  let ?old = "as_recovery_controller (ac_store s)"
  obtain s1 where s1: "(case ?old of None \<Rightarrow> Inr (Sync_Unchanged, s) | Some c \<Rightarrow> sync_one e X c compiled u s) = Inr (outcome, s1)"
    and s': "(case cd_recovery compiled of [] \<Rightarrow> Inr s1
        | r # _ \<Rightarrow> if ?old \<noteq> Some (cc_controller r)
                    then and_then (sync_one e X (cc_controller r) compiled u s1) (\<lambda>(_, s'). Inr s') else Inr s1) = Inr s'"
    using assms by (auto simp: sync_controllers_def result_simps Let_def)
  have m1: "generation_moved (bumps_generation outcome) (ac_store s) (ac_store s1)"
    using s1 sync_one_Inr(2) [of e X _ compiled u s outcome s1]
    by (cases ?old) (auto simp: bumps_generation_def intro: generation_moved_refl)
  have m2: "\<exists>b. generation_moved b (ac_store s1) (ac_store s')"
    using s' sync_one_Inr(2) [of e X _ compiled u s1 _ s'] generation_moved_refl [of False "ac_store s1"]
    by (auto simp: result_simps split: list.splits if_splits)
  then obtain b where "generation_moved b (ac_store s1) (ac_store s')" ..
  then have "generation_moved (bumps_generation outcome \<or> b) (ac_store s) (ac_store s')" by (rule generation_moved_trans [OF m1])
  then show "generation_moved (bumps_generation outcome) (ac_store s) (ac_store s')" by (simp add: generation_moved_def)
  show "outcome = Sync_Unchanged \<or> (\<exists>k w. ?old = Some k \<and>
           ct_rcv_sync X k (an_self e) (cd_doc_hash compiled) (cd_recovery compiled) u (ac_world s) = Inr (outcome, w))"
    using s1 sync_one_Inr(1) [of e X _ compiled u s outcome s1] by (auto split: option.splits)
  assume laws: "account_laws X view"
  have v: "view (ac_world t') = view (ac_world t)" if "sync_one e X k compiled u t = Inr (r, t')" for k t r t'
    by (rule law_sync [OF laws sync_one_Inr(1) [OF that]])
  show "view (ac_world s') = view (ac_world s)"
    using s1 s' v by (auto simp: result_simps split: option.splits list.splits if_splits)
qed

lemma apply_rules_Inr:
  assumes "apply_rules e X compiled mode s = Inr (delta, s')"
  shows "reconcile (an_rules e) (ct_oz X) (installed_rules (ac_store s)) (desired (an_rules e) compiled) mode (ac_world s) =
      Some (installed_rules (ac_store s'), delta, ac_world s')"
    and "\<exists>rs i k. ac_store s' = (ac_store s)\<lparr>as_installed_rules := rs, as_recovery_rule := i, as_recovery_controller := k\<rparr>"
    and "as_recovery_rule (ac_store s') = map_option ir_id (find ir_recovery (installed_rules (ac_store s')))"
    and "as_recovery_controller (ac_store s') = (case cd_recovery compiled of [] \<Rightarrow> None | r # _ \<Rightarrow> Some (cc_controller r))"
proof -
  let ?controller = "case cd_recovery compiled of [] \<Rightarrow> None | r # _ \<Rightarrow> Some (cc_controller r)"
  obtain rules w where r: "reconcile (an_rules e) (ct_oz X) (installed_rules (ac_store s)) (desired (an_rules e) compiled) mode (ac_world s) =
      Some (rules, delta, w)"
    and s': "ac_world s' = w" "ac_store s' = (ac_store s)\<lparr>
        as_installed_rules := (if rules \<noteq> installed_rules (ac_store s) then Some rules else as_installed_rules (ac_store s)),
        as_recovery_rule := map_option ir_id (find ir_recovery rules), as_recovery_controller := ?controller\<rparr>"
    using assms by (auto simp: apply_rules_def result_simps Let_def)
  have i: "installed_rules (ac_store s') = rules" unfolding s'(2) by (auto simp: installed_rules_def)
  show "reconcile (an_rules e) (ct_oz X) (installed_rules (ac_store s)) (desired (an_rules e) compiled) mode (ac_world s) =
      Some (installed_rules (ac_store s'), delta, ac_world s')" using r i s'(1) by simp
  show "\<exists>rs i k. ac_store s' = (ac_store s)\<lparr>as_installed_rules := rs, as_recovery_rule := i, as_recovery_controller := k\<rparr>"
    using s'(2) by blast
  show "as_recovery_rule (ac_store s') = map_option ir_id (find ir_recovery (installed_rules (ac_store s')))"
    "as_recovery_controller (ac_store s') = ?controller"
    unfolding i by (simp_all add: s'(2))
qed

section \<open>A successful apply\<close>

definition doc_zk :: "compiled_doc \<Rightarrow> compiled_zk_factor option" where
  "doc_zk c = (case cd_recovery c of [] \<Rightarrow> None | r # _ \<Rightarrow> config_zk r)"

definition doc_controller :: "compiled_doc \<Rightarrow> address option" where
  "doc_controller c = (case cd_recovery c of [] \<Rightarrow> None | r # _ \<Rightarrow> Some (cc_controller r))"

lemma apply_checks_Inr:
  assumes "apply_checks e X b r s = Inr (c, new_zk, ins)"
  shows "an_auth e (an_self e)" "\<forall>x. r = Some x \<longrightarrow> x = revision (ac_store s)"
    and "ct_compile_doc X (an_doc_compiler e) b = Inr c" "admin_survives (cd_rules c)"
    and "\<forall>f \<in> set (cd_fingerprints c). as_revoked (ac_store s) f = None"
    and "new_zk = doc_zk c" "zk_factor_transition_ok (as_current_zk (ac_store s)) (doc_zk c)"
    and "ins = leaf_to_insert (as_current_zk (ac_store s)) (doc_zk c)"
    and "\<forall>leaf. ins = Some leaf \<longrightarrow> as_enrolled_ids (ac_store s) (cz_enrollment_id leaf) = None"
proof -
  have r: "\<not> (case r of Some x \<Rightarrow> x \<noteq> revision (ac_store s) | None \<Rightarrow> False)"
    using assms by (auto simp: apply_checks_def acct_fail_def acct_require_auth_def result_simps Let_def)
  show c: "ct_compile_doc X (an_doc_compiler e) b = Inr c"
    using assms r by (auto simp: apply_checks_def acct_fail_def result_simps Let_def split: if_splits)
  have v: "list_ex (\<lambda>f. as_revoked (ac_store s) f \<noteq> None) (cd_fingerprints c) = False"
    using assms r c by (auto simp: apply_checks_def acct_fail_def refuse_revoked_def result_simps Let_def split: if_splits)
  note a = assms [unfolded apply_checks_def c refuse_revoked_def v Let_def, folded doc_zk_def]
  show "an_auth e (an_self e)" using a by (auto simp: acct_require_auth_def result_simps)
  show "\<forall>x. r = Some x \<longrightarrow> x = revision (ac_store s)" using r by (auto split: option.splits)
  show "\<forall>f \<in> set (cd_fingerprints c). as_revoked (ac_store s) f = None" using v by (auto simp: list_ex_iff)
  show "admin_survives (cd_rules c)" using a r by (auto simp: acct_fail_def flatten_error_def result_simps split: if_splits)
  then have a': "(if \<not> zk_factor_transition_ok (as_current_zk (ac_store s)) (doc_zk c) then acct_fail AE_ZkFactorChangedInPlace
       else if (case leaf_to_insert (as_current_zk (ac_store s)) (doc_zk c) of
                  Some leaf \<Rightarrow> as_enrolled_ids (ac_store s) (cz_enrollment_id leaf) \<noteq> None | None \<Rightarrow> False)
       then acct_fail AE_EnrollmentReused
       else Inr (c, doc_zk c, leaf_to_insert (as_current_zk (ac_store s)) (doc_zk c))) = Inr (c, new_zk, ins)"
    using a r by (simp add: flatten_error_def result_simps)
  show "new_zk = doc_zk c" "zk_factor_transition_ok (as_current_zk (ac_store s)) (doc_zk c)"
    "ins = leaf_to_insert (as_current_zk (ac_store s)) (doc_zk c)"
    "\<forall>leaf. ins = Some leaf \<longrightarrow> as_enrolled_ids (ac_store s) (cz_enrollment_id leaf) = None"
    using a' by (auto simp: acct_fail_def split: if_splits option.splits)
qed

lemma insert_leaf_Inr:
  assumes "insert_leaf e X ins s = Inr s'"
  shows "ac_store s' = (case ins of None \<Rightarrow> ac_store s
      | Some leaf \<Rightarrow> (ac_store s)\<lparr>as_enrolled_ids := (as_enrolled_ids (ac_store s))(cz_enrollment_id leaf \<mapsto> True)\<rparr>)"
    and "account_laws X view \<Longrightarrow> view (ac_world s') = view (ac_world s)"
    and "ins = Some leaf \<Longrightarrow> ct_rcv_insert X (cz_pool leaf) (an_self e) (cz_enrollment_id leaf) (cz_commitment leaf) (ac_world s) = Some (ac_world s')"
  using assms by (auto simp: insert_leaf_def result_simps split: option.splits dest: law_insert)

text \<open>The entries after the completion of a recovery, if the apply is one.\<close>

definition completion_effect :: "account_env \<Rightarrow> sync_outcome \<Rightarrow> compiled_doc \<Rightarrow> account_storage \<Rightarrow> account_storage \<Rightarrow> bool" where
  "completion_effect e outcome c st st' \<longleftrightarrow>
     (case outcome of
        Completed co \<Rightarrow>
          as_gate st' = None \<and> as_pending_upgrade st' = None \<and>
          (\<exists>fs. list_all2 (\<lambda>c f. fingerprint (an_sha256 e) (an_xdr e) c = Inr f) (co_replaced co) fs \<and>
             as_revoked st' = (\<lambda>f. if f \<in> set (revocations fs (unwrap_or [] (as_applied_fingerprints st)) (cd_fingerprints c))
                                 then Some True else as_revoked st f))
      | _ \<Rightarrow> as_gate st' = as_gate st \<and> as_pending_upgrade st' = as_pending_upgrade st \<and> as_revoked st' = as_revoked st)"

lemma completion_effect_cong:
  assumes "completion_effect e outcome c st1 st1'" "as_gate st1 = as_gate st2" "as_pending_upgrade st1 = as_pending_upgrade st2"
    and "as_revoked st1 = as_revoked st2" "as_applied_fingerprints st1 = as_applied_fingerprints st2"
    and "as_gate st1' = as_gate st2'" "as_pending_upgrade st1' = as_pending_upgrade st2'" "as_revoked st1' = as_revoked st2'"
  shows "completion_effect e outcome c st2 st2'"
  using assms(1) unfolding completion_effect_def assms(2-8) .

lemma account_apply_Inr:
  assumes "account_apply e X b u r mode s = Inr (dh, s')"
  obtains c outcome s1 delta s2 where
    "apply_checks e X b r s = Inr (c, doc_zk c, leaf_to_insert (as_current_zk (ac_store s)) (doc_zk c))" "dh = cd_doc_hash c"
    "sync_controllers e X c u s = Inr (outcome, s1)" "apply_rules e X c mode s1 = Inr (delta, s2)"
    "as_installed_rules (ac_store s') = as_installed_rules (ac_store s2)" "as_recovery_rule (ac_store s') = as_recovery_rule (ac_store s2)"
    "as_recovery_controller (ac_store s') = as_recovery_controller (ac_store s2)" "as_next_upgrade_id (ac_store s') = as_next_upgrade_id (ac_store s2)"
    "as_recovery_generation (ac_store s') = as_recovery_generation (ac_store s2)"
    "as_current_zk (ac_store s') = doc_zk c" "as_applied_doc (ac_store s') = Some dh"
    "as_applied_doc_bytes (ac_store s') = (if as_applied_doc (ac_store s2) = Some dh then as_applied_doc_bytes (ac_store s2) else Some (cd_canonical c))"
    "as_applied_fingerprints (ac_store s') = (if as_applied_doc (ac_store s2) = Some dh then as_applied_fingerprints (ac_store s2) else Some (cd_fingerprints c))"
    "as_enrolled_ids (ac_store s') = (case leaf_to_insert (as_current_zk (ac_store s)) (doc_zk c) of None \<Rightarrow> as_enrolled_ids (ac_store s2)
       | Some leaf \<Rightarrow> (as_enrolled_ids (ac_store s2))(cz_enrollment_id leaf \<mapsto> True))"
    "completion_effect e outcome c (ac_store s2) (ac_store s')"
    "unat (revision (ac_store s')) = unat (revision (ac_store s2)) + 1" "as_revision (ac_store s') = Some (revision (ac_store s'))"
    "\<And>view. account_laws X view \<Longrightarrow> view (ac_world s') = view (ac_world s2)"
proof -
  obtain c new_zk ins outcome s1 delta s2 s3 where
    ch: "apply_checks e X b r s = Inr (c, new_zk, ins)" and sy: "sync_controllers e X c u s = Inr (outcome, s1)"
    and ru: "apply_rules e X c mode s1 = Inr (delta, s2)" and il: "insert_leaf e X ins s2 = Inr s3"
    and rest: "(let s4 = (if as_current_zk (ac_store s3) \<noteq> new_zk then with_store (as_current_zk_update (\<lambda>_. new_zk)) s3 else s3)
     in and_then (case outcome of
                    Completed completion \<Rightarrow> complete_recovery e (co_replaced completion) (cd_fingerprints c) s4
                  | _ \<Rightarrow> Inr s4) (\<lambda>s5.
        and_then (advance_revision (record_document c s5)) (\<lambda>(rev, s6).
        Inr (cd_doc_hash c, publish (Ev_DocApplied (cd_doc_hash c) rev delta) s6)))) = Inr (dh, s')"
    using assms unfolding account_apply_def by (auto simp: and_then_eq_Inr)
  note chk = apply_checks_Inr [OF ch]
  define s4 where "s4 = (if as_current_zk (ac_store s3) \<noteq> new_zk then with_store (as_current_zk_update (\<lambda>_. new_zk)) s3 else s3)"
  have s4: "ac_store s4 = (ac_store s3)\<lparr>as_current_zk := new_zk\<rparr>" "ac_world s4 = ac_world s3" by (auto simp: s4_def)
  obtain s5 where s5: "(case outcome of Completed completion \<Rightarrow> complete_recovery e (co_replaced completion) (cd_fingerprints c) s4
                  | _ \<Rightarrow> Inr s4) = Inr s5"
    and s6: "and_then (advance_revision (record_document c s5)) (\<lambda>(rev, s6).
        Inr (cd_doc_hash c, publish (Ev_DocApplied (cd_doc_hash c) rev delta) s6)) = Inr (dh, s')"
    using rest unfolding Let_def s4_def [symmetric] by (rule and_then_InrE)
  obtain n where n: "checked_add (revision (ac_store (record_document c s5))) 1 = Some n"
    and s': "ac_store s' = (ac_store (record_document c s5))\<lparr>as_revision := Some n\<rparr>" "ac_world s' = ac_world (record_document c s5)"
      "dh = cd_doc_hash c"
    using s6 by (auto simp: and_then_eq_Inr advance_revision_Inr)
  have ce: "completion_effect e outcome c (ac_store s4) (ac_store s5) \<and> (\<exists>g p rv. ac_store s5 = (ac_store s4)\<lparr>as_gate := g, as_pending_upgrade := p, as_revoked := rv\<rparr>)
      \<and> ac_world s5 = ac_world s4"
  proof (cases outcome)
    case (Completed co)
    then have cr: "complete_recovery e (co_replaced co) (cd_fingerprints c) s4 = Inr s5" using s5 by simp
    obtain fs where fs: "list_all2 (\<lambda>c f. fingerprint (an_sha256 e) (an_xdr e) c = Inr f) (co_replaced co) fs"
      "ac_store s5 = (ac_store s4)\<lparr>as_gate := None, as_pending_upgrade := None,
         as_revoked := (\<lambda>f. if f \<in> set (revocations fs (unwrap_or [] (as_applied_fingerprints (ac_store s4))) (cd_fingerprints c))
                        then Some True else as_revoked (ac_store s4) f)\<rparr>" "ac_world s5 = ac_world s4"
      using complete_recovery_Inr [OF cr] .
    then show ?thesis using Completed by (auto simp: completion_effect_def)
  qed (use s5 in \<open>auto simp: completion_effect_def intro!: exI [of _ "as_gate (ac_store s4)"] exI [of _ "as_pending_upgrade (ac_store s4)"]
        exI [of _ "as_revoked (ac_store s4)"]\<close>)
  have "ac_store s3 = (ac_store s2)\<lparr>as_enrolled_ids := as_enrolled_ids (ac_store s3)\<rparr>"
    using insert_leaf_Inr(1) [OF il] by (cases ins) simp_all
  then have il': "\<exists>m. ac_store s3 = (ac_store s2)\<lparr>as_enrolled_ids := m\<rparr>" by blast
  then obtain m g p rv where st5: "ac_store s5 = (ac_store s2)\<lparr>as_enrolled_ids := m, as_current_zk := new_zk, as_gate := g, as_pending_upgrade := p, as_revoked := rv\<rparr>"
    using ce s4 by auto
  have rd: "ac_store (record_document c s5) = (ac_store s5)\<lparr>as_applied_doc := Some dh,
      as_applied_doc_bytes := (if as_applied_doc (ac_store s5) = Some dh then as_applied_doc_bytes (ac_store s5) else Some (cd_canonical c)),
      as_applied_fingerprints := (if as_applied_doc (ac_store s5) = Some dh then as_applied_fingerprints (ac_store s5) else Some (cd_fingerprints c))\<rparr>"
    "ac_world (record_document c s5) = ac_world s5"
    by (auto simp: record_document_def s'(3))
  have en: "as_enrolled_ids (ac_store s5) = (case ins of None \<Rightarrow> as_enrolled_ids (ac_store s2)
       | Some leaf \<Rightarrow> (as_enrolled_ids (ac_store s2))(cz_enrollment_id leaf \<mapsto> True))"
    using insert_leaf_Inr(1) [OF il] ce s4 by (auto split: option.splits)
  have same: "as_gate (ac_store s4) = as_gate (ac_store s2)" "as_pending_upgrade (ac_store s4) = as_pending_upgrade (ac_store s2)"
    "as_revoked (ac_store s4) = as_revoked (ac_store s2)" "as_applied_fingerprints (ac_store s4) = as_applied_fingerprints (ac_store s2)"
    using il' s4(1) by auto
  have ce': "completion_effect e outcome c (ac_store s2) (ac_store s')"
    by (rule completion_effect_cong [OF conjunct1 [OF ce] same]) (simp_all add: s'(1) rd(1))
  show thesis
  proof (rule that [OF _ s'(3) sy ru])
    show "apply_checks e X b r s = Inr (c, doc_zk c, leaf_to_insert (as_current_zk (ac_store s)) (doc_zk c))"
      using ch chk(6,8) by simp
    show "completion_effect e outcome c (ac_store s2) (ac_store s')" by (fact ce')
    show "unat (revision (ac_store s')) = unat (revision (ac_store s2)) + 1"
      using checked_add_unat [OF n] s'(1) rd st5 by (simp add: revision_def)
    show "as_revision (ac_store s') = Some (revision (ac_store s'))" by (simp add: s'(1) revision_def)
    show "view (ac_world s') = view (ac_world s2)" if "account_laws X view" for view :: "'a oz_view"
      using insert_leaf_Inr(2) [OF il that] s4 ce rd s'(2) by simp
  qed (use s'(1) rd st5 en chk(6,8) in \<open>simp_all\<close>)
qed

section \<open>The step relation\<close>

datatype account_call =
    A_apply_doc bytes u32 "u64 option"
  | A_execute address string "val list"
  | A_rcv_gate u64 u32
  | A_cancel_recovery u64
  | A_schedule_upgrade bytes32 u32
  | A_execute_upgrade u64
  | A_cancel_upgrade

definition result_state :: "('r \<times> 'w account_state) acct \<Rightarrow> 'w account_state acct" where
  "result_state m = and_then m (\<lambda>(_, s). Inr s)"

lemma result_state_Inr [simp]: "result_state m = Inr s \<longleftrightarrow> (\<exists>r. m = Inr (r, s))"
  by (auto simp: result_state_def and_then_eq_Inr)

fun account_exec :: "account_env \<Rightarrow> 'w contracts \<Rightarrow> 'w account_state \<Rightarrow> account_call \<Rightarrow> 'w account_state acct" where
  "account_exec e X s (A_apply_doc b u r) = result_state (apply_doc e X b u r s)"
| "account_exec e X s (A_execute t f args) = result_state (execute e X t f args s)"
| "account_exec e X s (A_rcv_gate i t) = rcv_gate e i t s"
| "account_exec e X s (A_cancel_recovery i) = cancel_recovery e X i s"
| "account_exec e X s (A_schedule_upgrade h u) = result_state (schedule_upgrade e X h u s)"
| "account_exec e X s (A_execute_upgrade i) = execute_upgrade e X i s"
| "account_exec e X s A_cancel_upgrade = cancel_upgrade e s"

text \<open>
  One deployment \<open>n\<close>: its invocations differ in the ledger and in who authorized. Between
  invocations the rest of the world moves on, without touching the account's rules. An executed
  upgrade may replace the code: the relation then speaks of the states that this code leads to.
\<close>

definition invocation :: "account_env \<Rightarrow> u32 \<Rightarrow> (address \<Rightarrow> bool) \<Rightarrow> account_env" where
  "invocation n t auth = n\<lparr>an_rules := (an_rules n)\<lparr>re_now := t\<rparr>, an_auth := auth\<rparr>"

lemma invocation_simps [simp]:
  "an_self (invocation n t auth) = an_self n" "an_now (invocation n t auth) = t" "an_auth (invocation n t auth) = auth"
  "an_sha256 (invocation n t auth) = an_sha256 n" "an_xdr (invocation n t auth) = an_xdr n"
  "an_doc_compiler (invocation n t auth) = an_doc_compiler n" "an_rules (invocation n t auth) = (an_rules n)\<lparr>re_now := t\<rparr>"
  by (simp_all add: invocation_def)

type_synonym account_history = "(u32 \<times> account_call) list"

inductive account_reach :: "account_env \<Rightarrow> 'w contracts \<Rightarrow> 'w oz_view \<Rightarrow> account_history \<Rightarrow> 'w account_state \<Rightarrow> bool"
  for n X view where
  reach_new: "constructor (invocation n t auth) X signers w = Inr s \<Longrightarrow> view w = Map.empty \<Longrightarrow> account_reach n X view [] s"
| reach_call: "account_reach n X view h s \<Longrightarrow> account_exec (invocation n t auth) X s c = Inr s' \<Longrightarrow> account_reach n X view ((t, c) # h) s'"
| reach_auth: "account_reach n X view h s \<Longrightarrow> check_auth (invocation n t auth) X p sg cx s = Inr s' \<Longrightarrow> account_reach n X view h s'"
| reach_world: "account_reach n X view h s \<Longrightarrow> view w = view (ac_world s) \<Longrightarrow> account_reach n X view h (s\<lparr>ac_world := w\<rparr>)"

section \<open>What is not apply_doc leaves the authorization data alone\<close>

definition same_authorization :: "account_storage \<Rightarrow> account_storage \<Rightarrow> bool" where
  "same_authorization st st' \<longleftrightarrow>
     as_applied_doc st' = as_applied_doc st \<and> as_applied_doc_bytes st' = as_applied_doc_bytes st \<and>
     as_applied_fingerprints st' = as_applied_fingerprints st \<and> as_recovery_controller st' = as_recovery_controller st \<and>
     as_recovery_rule st' = as_recovery_rule st \<and> as_current_zk st' = as_current_zk st \<and> as_revoked st' = as_revoked st \<and>
     as_enrolled_ids st' = as_enrolled_ids st \<and> as_installed_rules st' = as_installed_rules st"

lemma check_auth_Inr:
  assumes "check_auth e X p sg cx s = Inr s'"
  shows "ct_do_check_auth X (bind_payload e p) sg cx (ac_world s) = Some (ac_world s')" "s' = s\<lparr>ac_world := ac_world s'\<rparr>"
    and "\<not> list_ex names_reserved cx"
    and "\<And>g. as_gate (ac_store s) = Some g \<Longrightarrow> an_now e < fg_until g \<Longrightarrow> is_completion e (ac_store s) sg cx"
  using assms by (auto simp: check_auth_def Let_def is_frozen_def result_simps split: if_splits option.splits)

lemma schedule_upgrade_Inr:
  assumes "schedule_upgrade e X hash u s = Inr (i, s')"
  obtains request n epoch where "an_auth e (an_self e)" "i = unwrap_or 0 (as_next_upgrade_id (ac_store s))" "checked_add i 1 = Some n"
    "upgrade_schedule i hash (generation (ac_store s)) epoch (an_now e) = Some request"
    "ac_store s' = (ac_store s)\<lparr>as_next_upgrade_id := Some n, as_pending_upgrade := Some request\<rparr>"
    "\<And>view. account_laws X view \<Longrightarrow> view (ac_world s') = view (ac_world s)"
proof -
  let ?i = "unwrap_or 0 (as_next_upgrade_id (ac_store s))"
  obtain n epoch s2 request where a: "an_auth e (an_self e)" "checked_add ?i 1 = Some n"
    and s2: "(case as_recovery_controller (ac_store s) of
                       None \<Rightarrow> Inr (None, with_store (as_next_upgrade_id_update (\<lambda>_. Some n)) s)
                     | Some c \<Rightarrow>
                         and_then (flatten_error AE_Recovery (ct_rcv_upgrade X c (an_self e)
                             (Step_Schedule \<lparr>us_request_id = ?i, us_wasm_hash = hash\<rparr> u)
                             (ac_world (with_store (as_next_upgrade_id_update (\<lambda>_. Some n)) s))))
                           (\<lambda>(epoch, w). Inr (Some epoch, (with_store (as_next_upgrade_id_update (\<lambda>_. Some n)) s)\<lparr>ac_world := w\<rparr>))) = Inr (epoch, s2)"
    and r: "upgrade_schedule ?i hash (generation (ac_store s2)) epoch (an_now e) = Some request"
    and s': "i = ?i" "ac_store s' = (ac_store s2)\<lparr>as_pending_upgrade := Some request\<rparr>" "ac_world s' = ac_world s2"
    using assms unfolding schedule_upgrade_def Let_def acct_require_auth_def
    by (auto elim!: and_then_InrE simp: result_simps split del: if_split option.split_asm)
  have st2: "ac_store s2 = (ac_store s)\<lparr>as_next_upgrade_id := Some n\<rparr>"
    "\<And>view. account_laws X view \<Longrightarrow> view (ac_world s2) = view (ac_world s)"
    using s2 by (auto simp: result_simps split: option.splits dest: law_upgrade)
  show thesis using that [of n epoch request] a r s' st2 by (simp add: generation_def)
qed

lemma execute_upgrade_Inr:
  assumes "execute_upgrade e X i s = Inr s'"
  obtains request g r where "an_auth e (an_self e)" "as_pending_upgrade (ac_store s) = Some request" "ur_request_id request = i"
    "ur_generation request = generation (ac_store s)" "ur_executable_at request \<le> an_now e"
    "ac_store s' = (ac_store s)\<lparr>as_pending_upgrade := None, as_recovery_generation := Some g, as_revision := Some r\<rparr>"
    "unat g = unat (generation (ac_store s)) + 1" "unat r = unat (revision (ac_store s)) + 1"
    "\<And>view. account_laws X view \<Longrightarrow> view (ac_world s') = view (ac_world s)"
proof -
  obtain request where a: "an_auth e (an_self e)" "as_pending_upgrade (ac_store s) = Some request"
    using assms by (auto simp: execute_upgrade_def acct_require_auth_def result_simps)
  have rd: "ur_request_id request = i" "readiness request (an_now e) (generation (ac_store s)) = Ready"
    using assms a by (auto simp: execute_upgrade_def acct_require_auth_def acct_fail_def split: if_splits upgrade_readiness.splits)
  let ?s1 = "drop_pending_upgrade s"
  let ?called = "case as_recovery_controller (ac_store ?s1) of
                             None \<Rightarrow> Inr ?s1
                           | Some c \<Rightarrow>
                               and_then (ok_or (ur_controller_epoch request) (Failed AE_StaleUpgrade)) (\<lambda>epoch.
                               and_then (flatten_error AE_Recovery (ct_rcv_upgrade X c (an_self e) (Step_Execute epoch) (ac_world ?s1)))
                                 (\<lambda>(_, w). Inr (?s1\<lparr>ac_world := w\<rparr>)))"
  have "and_then ?called (\<lambda>s2. and_then (advance_generation s2) (\<lambda>s3. and_then (advance_revision s3) (\<lambda>(_, s4).
        and_then (ok_or (ct_update_wasm X (ur_wasm_hash request) (ac_world s4)) Trap) (\<lambda>w.
        Inr ((publish (Ev_UpgradeExecuted i (ur_wasm_hash request)) s4)\<lparr>ac_world := w\<rparr>))))) = Inr s'"
    using assms a rd unfolding execute_upgrade_def Let_def acct_require_auth_def by simp
  then obtain s2 where s2: "?called = Inr s2" and "and_then (advance_generation s2) (\<lambda>s3. and_then (advance_revision s3) (\<lambda>(_, s4).
        and_then (ok_or (ct_update_wasm X (ur_wasm_hash request) (ac_world s4)) Trap) (\<lambda>w.
        Inr ((publish (Ev_UpgradeExecuted i (ur_wasm_hash request)) s4)\<lparr>ac_world := w\<rparr>)))) = Inr s'"
    by (rule and_then_InrE)
  then obtain g r where g: "checked_add (generation (ac_store s2)) 1 = Some g" "checked_add (revision (ac_store s2)) 1 = Some r"
    and s': "ac_store s' = (ac_store s2)\<lparr>as_recovery_generation := Some g, as_revision := Some r\<rparr>"
      "ct_update_wasm X (ur_wasm_hash request) (ac_world s2) = Some (ac_world s')"
    by (auto elim!: and_then_InrE simp: advance_generation_Inr advance_revision_Inr revision_def)
  have st2: "ac_store s2 = (ac_store s)\<lparr>as_pending_upgrade := None\<rparr>"
    "\<And>view. account_laws X view \<Longrightarrow> view (ac_world s2) = view (ac_world s)"
    using s2 by (auto simp: result_simps split: option.splits dest: law_upgrade)
  have ready: "ur_generation request = generation (ac_store s)" "ur_executable_at request \<le> an_now e"
    using rd(2) by (auto simp: readiness_def split: if_splits)
  have store: "ac_store s' = (ac_store s)\<lparr>as_pending_upgrade := None, as_recovery_generation := Some g, as_revision := Some r\<rparr>"
    unfolding s'(1) st2(1) by simp
  have unat: "unat g = unat (generation (ac_store s)) + 1" "unat r = unat (revision (ac_store s)) + 1"
    using g [THEN checked_add_unat] st2(1) by (simp_all add: generation_def revision_def)
  show thesis
    by (rule that [OF a rd(1) ready store unat]) (simp add: law_wasm [OF _ s'(2)] st2(2))
qed

lemma other_call_frame:
  assumes "account_exec e X s c = Inr s'" "\<forall>b u r. c \<noteq> A_apply_doc b u r"
  shows "same_authorization (ac_store s) (ac_store s')" "account_laws X view \<Longrightarrow> view (ac_world s') = view (ac_world s)"
proof -
  have "same_authorization (ac_store s) (ac_store s') \<and> (account_laws X view \<longrightarrow> view (ac_world s') = view (ac_world s))"
  proof (cases c)
    case (A_execute t f args)
    then show ?thesis
      using assms(1) by (auto simp: execute_def result_simps acct_fail_def same_authorization_def split: if_splits dest: law_invoke)
  next
    case (A_rcv_gate i t)
    then show ?thesis using assms(1) by (auto simp: rcv_gate_def result_simps Let_def same_authorization_def)
  next
    case (A_cancel_recovery i)
    then show ?thesis using assms(1) by (auto simp: cancel_recovery_def result_simps same_authorization_def dest: law_cancel)
  next
    case (A_schedule_upgrade h u)
    then obtain i where "schedule_upgrade e X h u s = Inr (i, s')" using assms(1) by auto
    then show ?thesis by (rule schedule_upgrade_Inr) (auto simp: same_authorization_def)
  next
    case (A_execute_upgrade i)
    then have "execute_upgrade e X i s = Inr s'" using assms(1) by simp
    then show ?thesis by (rule execute_upgrade_Inr) (auto simp: same_authorization_def)
  next
    case A_cancel_upgrade
    then show ?thesis using assms(1) by (auto simp: cancel_upgrade_def acct_fail_def result_simps same_authorization_def split: if_splits)
  qed (use assms(2) in simp)
  then show "same_authorization (ac_store s) (ac_store s')" "account_laws X view \<Longrightarrow> view (ac_world s') = view (ac_world s)" by simp_all
qed

end
