(* ===== verification/Account_Demo.thy ===== *)
theory Account_Demo
  imports Account_Steps
begin

text \<open>
  A small account to exercise the model on: a rule store in the place of OpenZeppelin's, a compiler
  that reads one document, and a history of the account up to an upgrade.
\<close>

section \<open>A rule store\<close>

text \<open>A store keeps views whose registry ids are injective; an operation that would break that fails.\<close>

definition ids_ok :: "rule_view \<Rightarrow> bool" where
  "ids_ok v \<longleftrightarrow> (\<forall>p q k x y. rv_policies v p = Some (k, x) \<longrightarrow> rv_policies v q = Some (k, y) \<longrightarrow> p = q)"

type_synonym demo_store = "u32 \<rightharpoonup> rule_view"

definition demo_view :: "demo_store oz_view" where
  "demo_view w i = (case w i of None \<Rightarrow> None | Some v \<Rightarrow> if ids_ok v then Some v else None)"

definition demo_put :: "u32 \<Rightarrow> rule_view \<Rightarrow> demo_store \<Rightarrow> demo_store option" where
  "demo_put i v w = (if ids_ok v then Some (w(i \<mapsto> v)) else None)"

fun registry_id :: "address \<Rightarrow> u32" where
  "registry_id (ContractId c) = ucast c"
| "registry_id (AccountId k) = ucast k"
| "registry_id (OtherAddress n) = word_of_nat n"

definition demo_known :: "address list" where
  "demo_known = [ContractId 8, ContractId 11, ContractId 12]"

definition demo_fresh :: "demo_store \<Rightarrow> u32" where
  "demo_fresh w = (if w 0 = None then 0 else if w 1 = None then 1 else 2)"

definition demo_oz :: "demo_store oz" where
  "demo_oz = \<lparr>
     oz_get_context_rule = (\<lambda>w i. case demo_view w i of
        None \<Rightarrow> None
      | Some v \<Rightarrow>
          let ps = [p \<leftarrow> demo_known. rv_policies v p \<noteq> None]
          in if map_of (zip ps (map (fst \<circ> the \<circ> rv_policies v) ps)) = (\<lambda>p. map_option fst (rv_policies v p))
             then Some \<lparr>oz_id = i, oz_policies = ps, oz_policy_ids = map (fst \<circ> the \<circ> rv_policies v) ps\<rparr> else None),
     oz_add_context_rule = (\<lambda>ty n vu ss ps w.
        let i = demo_fresh w
        in if w i = None \<and> distinct ss \<and> (ss \<noteq> [] \<or> ps \<noteq> Map.empty)
           then map_option (Pair i) (demo_put i \<lparr>rv_name = n, rv_context_type = ty, rv_valid_until = vu, rv_signers = ss,
                  rv_policies = (\<lambda>p. map_option (Pair (registry_id p)) (ps p))\<rparr> w)
           else None),
     oz_remove_context_rule = (\<lambda>i w. Some (w(i := None))),
     oz_reconcile_signers = (\<lambda>i ss w. case demo_view w i of None \<Rightarrow> None | Some v \<Rightarrow> demo_put i (v\<lparr>rv_signers := ss\<rparr>) w),
     oz_add_policy = (\<lambda>i p x w. case demo_view w i of None \<Rightarrow> None
        | Some v \<Rightarrow> demo_put i (v\<lparr>rv_policies := (rv_policies v)(p \<mapsto> (registry_id p, x))\<rparr>) w),
     oz_remove_policy = (\<lambda>i k w. case demo_view w i of None \<Rightarrow> None
        | Some v \<Rightarrow> demo_put i (v\<lparr>rv_policies := without_policy k (rv_policies v)\<rparr>) w),
     oz_update_valid_until = (\<lambda>i vu w. case demo_view w i of None \<Rightarrow> None | Some v \<Rightarrow> demo_put i (v\<lparr>rv_valid_until := vu\<rparr>) w)\<rparr>"

lemma demo_put_view: "demo_put i v w = Some w' \<Longrightarrow> demo_view w' = (demo_view w)(i \<mapsto> v)"
  by (rule ext) (auto simp: demo_put_def demo_view_def split: if_splits)

lemma demo_view_ids: "demo_view w i = Some v \<Longrightarrow> ids_ok v"
  by (auto simp: demo_view_def split: option.splits if_splits)

lemma demo_oz_laws: "oz_laws demo_oz demo_view"
  unfolding oz_laws_def
proof (intro conjI allI impI)
  fix w i r
  assume "oz_get_context_rule demo_oz w i = Some r"
  then obtain v where v: "demo_view w i = Some v" "oz_id r = i"
      "map_of (zip (oz_policies r) (oz_policy_ids r)) = (\<lambda>p. map_option fst (rv_policies v p))"
      "length (oz_policy_ids r) = length (oz_policies r)"
    by (auto simp: demo_oz_def Let_def split: option.splits if_splits)
  then show "oz_id r = i" "length (oz_policy_ids r) = length (oz_policies r)"
    "\<exists>v. demo_view w i = Some v \<and> map_of (zip (oz_policies r) (oz_policy_ids r)) = (\<lambda>p. map_option fst (rv_policies v p))"
    by blast+
next
  fix w i v p q k x y
  assume "demo_view w i = Some v" "rv_policies v p = Some (k, x)" "rv_policies v q = Some (k, y)"
  then show "p = q" using demo_view_ids unfolding ids_ok_def by blast
next
  fix ct n vu ss ps w i w'
  assume a: "oz_add_context_rule demo_oz ct n vu ss ps w = Some (i, w')"
  then have "w i = None" by (auto simp: demo_oz_def Let_def split: if_splits)
  then show "demo_view w i = None" by (simp add: demo_view_def)
  show "\<exists>ids. demo_view w' = (demo_view w)(i \<mapsto> \<lparr>rv_name = n, rv_context_type = ct, rv_valid_until = vu, rv_signers = ss,
            rv_policies = (\<lambda>p. map_option (Pair (ids p)) (ps p))\<rparr>)"
    using a by (intro exI [of _ registry_id] demo_put_view) (auto simp: demo_oz_def Let_def split: if_splits)
next
  fix i w w'
  assume "oz_remove_context_rule demo_oz i w = Some w'"
  then show "demo_view w' = (demo_view w)(i := None)" by (intro ext) (auto simp: demo_oz_def demo_view_def)
next
  fix i ss w w'
  assume "oz_reconcile_signers demo_oz i ss w = Some w'"
  then show "\<exists>v. demo_view w i = Some v \<and> demo_view w' = (demo_view w)(i \<mapsto> v\<lparr>rv_signers := ss\<rparr>)"
    by (auto simp: demo_oz_def dest: demo_put_view split: option.splits)
next
  fix i p x w w'
  assume "oz_add_policy demo_oz i p x w = Some w'"
  then show "\<exists>v k. demo_view w i = Some v \<and> demo_view w' = (demo_view w)(i \<mapsto> v\<lparr>rv_policies := (rv_policies v)(p \<mapsto> (k, x))\<rparr>)"
    by (auto simp: demo_oz_def dest: demo_put_view split: option.splits)
next
  fix i k w w'
  assume "oz_remove_policy demo_oz i k w = Some w'"
  then show "\<exists>v. demo_view w i = Some v \<and> demo_view w' = (demo_view w)(i \<mapsto> v\<lparr>rv_policies := without_policy k (rv_policies v)\<rparr>)"
    by (auto simp: demo_oz_def dest: demo_put_view split: option.splits)
next
  fix i vu w w'
  assume "oz_update_valid_until demo_oz i vu w = Some w'"
  then show "\<exists>v. demo_view w i = Some v \<and> demo_view w' = (demo_view w)(i \<mapsto> v\<lparr>rv_valid_until := vu\<rparr>)"
    by (auto simp: demo_oz_def dest: demo_put_view split: option.splits)
qed

section \<open>A deployment\<close>

definition acct_host :: host where
  "acct_host = \<lparr>h_sha256 = (\<lambda>_. 3),
     h_address = (\<lambda>s. if s = demo_verifier then Some (ContractId 7)
       else if s = ''CAAAAAAAAAAAAAAAAAAAAAAAAAAAAAAAAAAAAAAAAAAAAAAAAAAAD2KM'' then Some (ContractId 8)
       else if s = ''GAAAAAAAAAAAAAAAAAAAAAAAAAAAAAAAAAAAAAAAAAAAAAAAAAAAAWHF'' then Some (AccountId 9) else None),
     h_symbol_ok = (\<lambda>_. True)\<rparr>"

definition acct_compiler :: compiler_env where
  "acct_compiler = \<lparr>de_host = acct_host,
     de_lexer = (\<lambda>_ _. Some (canonical_tree (doc_to_cv (enrolled_doc ''01'')))),
     de_hexd = (\<lambda>s. case hex_bytes s of Inr b \<Rightarrow> Some b | Inl _ \<Rightarrow> None),
     de_network_id = 3, de_xdr = demo_xdr, de_strkey = (\<lambda>_. demo_verifier),
     de_hex_encode = (\<lambda>_. ''01''), de_max_name_size = 20, de_canonicalize = (\<lambda>_ ks. Some ks)\<rparr>"

definition acct_recovery :: compiled_recovery_config where
  "acct_recovery = \<lparr>cc_config_hash = 3, cc_profile = CP_Loss, cc_mode = CM_GuardianOnly \<lparr>cg_guardians = [AccountId 9], cg_quorum = 1\<rparr>,
     cc_controller = ContractId 8, cc_baseline = None, cc_replaceable = [''ops''], cc_delay_ledgers = 1, cc_expiry_ledgers = 1, cc_max_cancels = 1\<rparr>"

definition acct_compiled :: compiled_doc where
  "acct_compiled = \<lparr>cd_doc_hash = 3, cd_canonical = str_bytes_of (canonical_json (enrolled_doc ''01'')), cd_fingerprints = [3],
     cd_rules = [\<lparr>cr_name = ''admin'', cr_scope = RS_SelfAdmin, cr_signers = [Signer_External (ContractId 7) [1]],
                  cr_valid_until = None, cr_install = [], cr_cap = []\<rparr>],
     cd_recovery = [acct_recovery]\<rparr>"

lemma acct_compiler_simps:
  "de_host acct_compiler = acct_host" "de_network_id acct_compiler = 3" "de_xdr acct_compiler = demo_xdr"
  "de_max_name_size acct_compiler = 20" "de_canonicalize acct_compiler v ks = Some ks" "h_sha256 acct_host bs = 3"
  "h_address acct_host demo_verifier = Some (ContractId 7)"
  "h_address acct_host ''CAAAAAAAAAAAAAAAAAAAAAAAAAAAAAAAAAAAAAAAAAAAAAAAAAAAD2KM'' = Some (ContractId 8)"
  "h_address acct_host ''GAAAAAAAAAAAAAAAAAAAAAAAAAAAAAAAAAAAAAAAAAAAAAAAAAAAAWHF'' = Some (AccountId 9)"
  by (simp_all add: acct_compiler_def acct_host_def demo_verifier_def)

lemma acct_doc_compiles: "compile_parsed acct_compiler (enrolled_doc ''01'') = Inr acct_compiled"
proof -
  have "de_hexd acct_compiler ''01'' = de_hexd demo_env ''01''" by (simp add: acct_compiler_def demo_env_def demo_key)
  then have "well_formed (de_hexd acct_compiler) (enrolled_doc ''01'')"
    using demo_enrolled_well_formed [of "''01''"] by (simp add: well_formed_def enrolled_doc_def wf_signers_def demo_admin_def wf_rule_def)
  then have v: "validate (de_hexd acct_compiler) (enrolled_doc ''01'') = Inr ()"
    by (simp add: validate_def Let_def validation_errors_Nil)
  have l: "\<not> length (canonical_json (enrolled_doc ''01'')) > unat MAX_DOC_CANONICAL_BYTES"
    using demo_canonical_text by (simp add: Let_def MAX_DOC_CANONICAL_BYTES_def)
  have d: "d_network (enrolled_doc ''01'') = Some ''net''" "length (d_signers (enrolled_doc ''01'')) = 1"
    "d_rules (enrolled_doc ''01'') = [demo_admin]" "length (r_name demo_admin) = 5"
    by (simp_all add: enrolled_doc_def demo_admin_def)
  obtain rc where rc: "d_recovery (enrolled_doc ''01'') = Some rc" "to_compiled_recovery acct_compiler rc = Inr acct_recovery"
    by (simp add: enrolled_doc_def to_compiled_recovery_def to_compiled_guardian_set_def dc_address_def
      acct_compiler_simps config_hash_def acct_recovery_def Let_def)
  have p: "compile acct_host (enrolled_doc ''01'') \<lparr>cfg_interpreter_wasm_hash = 0\<rparr> =
     Inr \<lparr>pl_rules = [\<lparr>lr_name = ''admin'', lr_scope = ScopeSpec_SelfAdmin,
       lr_signers = [SignerSpec_External demo_verifier ''01''],
       lr_valid_until = None, lr_install = None, lr_cap = None\<rparr>], pl_interpreter_wasm_hash = None\<rparr>"
    by (simp add: compile_def lower_rule_def resolve_signer_def enrolled_doc_def demo_admin_def lower_cap_def lower_expiry_def)
  have cr: "canonical_credentials acct_compiler (d_signers (enrolled_doc ''01'')) = Inr [Cred_External (ContractId 7) [1]]"
    by (simp add: canonical_credentials_def enrolled_doc_def dc_address_def acct_compiler_simps demo_key typed_def
      canonicalize_batch_def slot_credential_def)
  have fp: "fingerprints acct_compiler [Cred_External (ContractId 7) [1]] = Inr [3]"
    by (simp add: fingerprints_def fingerprint_def acct_compiler_simps tagged_address_eq [OF demo_xdr_laws])
  have r: "to_compiled acct_compiler \<lparr>lr_name = ''admin'', lr_scope = ScopeSpec_SelfAdmin,
       lr_signers = [SignerSpec_External demo_verifier ''01''],
       lr_valid_until = None, lr_install = None, lr_cap = None\<rparr> =
     Inr \<lparr>cr_name = ''admin'', cr_scope = RS_SelfAdmin, cr_signers = [Signer_External (ContractId 7) [1]],
          cr_valid_until = None, cr_install = [], cr_cap = []\<rparr>"
    by (simp add: to_compiled_def dc_address_def typed_def acct_compiler_simps demo_key)
  show ?thesis
    by (simp add: compile_parsed_def v d l rc fp r p cr acct_compiler_simps MAX_DOC_SIGNERS_def MAX_DOC_RULES_def acct_compiled_def Let_def)
qed

lemma acct_compiles: "compile_doc acct_compiler [] = Inr acct_compiled"
proof -
  have "de_lexer acct_compiler MAX_DEPTH s = Some (canonical_tree (doc_to_cv (enrolled_doc ''01'')))" for s
    by (simp add: acct_compiler_def)
  moreover have "d_version (enrolled_doc ''01'') = 1" by (simp add: enrolled_doc_def)
  ultimately have "from_json (de_lexer acct_compiler) s = Inr (enrolled_doc ''01'')" for s
    using canonical_version [of "enrolled_doc ''01''"] by (auto simp: from_json_Inr doc_roundtrip)
  then show ?thesis using acct_doc_compiles by (simp add: compile_doc_def dc_parse_def)
qed

definition demo_account :: account_env where
  "demo_account = \<lparr>an_rules = \<lparr>re_now = 0, re_self = ContractId 1, re_interpreter = ContractId 11, re_spending_limit = ContractId 12,
       re_sha256 = (\<lambda>_. 3), re_param_xdr = (\<lambda>_. [])\<rparr>,
     an_doc_compiler = ContractId 2, an_xdr = demo_xdr, an_auth = (\<lambda>_. True)\<rparr>"

definition demo_contracts :: "demo_store contracts" where
  "demo_contracts = \<lparr>ct_oz = demo_oz, ct_do_check_auth = (\<lambda>_ _ _ w. Some w), ct_compile_doc = (\<lambda>_. compile_doc acct_compiler),
     ct_rcv_sync = (\<lambda>_ _ _ _ _ w. Inr (Enrolled, w)), ct_rcv_cancel = (\<lambda>_ _ _ w. Inr w), ct_rcv_upgrade = (\<lambda>_ _ _ w. Inr (0, w)),
     ct_rcv_insert = (\<lambda>_ _ _ _ w. Some w), ct_invoke = (\<lambda>_ _ _ w. Some (V_U32 0, w)), ct_update_wasm = (\<lambda>_ w. Some w)\<rparr>"

lemma demo_account_laws: "account_laws demo_contracts demo_view"
proof -
  have "distinct ss \<and> (ss \<noteq> [] \<or> ps \<noteq> Map.empty)" if "oz_add_context_rule demo_oz ty n vu ss ps w = Some (i, w')" for ty n vu ss ps w i w'
    using that by (auto simp: demo_oz_def Let_def split: if_splits)
  then show ?thesis using demo_oz_laws by (auto simp: account_laws_def demo_contracts_def)
qed

abbreviation demo_inv :: "u32 \<Rightarrow> account_env" where "demo_inv t \<equiv> invocation demo_account t (\<lambda>_. True)"

text \<open>The account after its constructor.\<close>

definition demo_admin_view :: rule_view where
  "demo_admin_view = \<lparr>rv_name = ''admin'', rv_context_type = CR_CallContract (ContractId 1), rv_valid_until = None,
     rv_signers = [Signer_External (ContractId 7) [1]], rv_policies = Map.empty\<rparr>"

definition demo_a0 :: "demo_store account_state" where
  "demo_a0 = \<lparr>ac_store = empty_account\<lparr>as_installed_rules := Some [admin_rule (an_rules demo_account) 0 [Signer_External (ContractId 7) [1]]]\<rparr>,
     ac_world = [0 \<mapsto> demo_admin_view], ac_events = []\<rparr>"

lemma demo_constructed: "constructor (demo_inv 0) demo_contracts [Signer_External (ContractId 7) [1]] Map.empty = Inr demo_a0"
  by (simp add: constructor_def install_admin_def demo_contracts_def demo_oz_def demo_fresh_def demo_put_def ids_ok_def demo_a0_def
      demo_admin_view_def demo_account_def admin_rule_def)

text \<open>After its first document: the administrator's rule kept, the recovery rule added.\<close>

definition demo_recovery_view :: rule_view where
  "demo_recovery_view = \<lparr>rv_name = ''recovery'', rv_context_type = CR_CallContract (ContractId 1), rv_valid_until = None,
     rv_signers = [], rv_policies = [ContractId 8 \<mapsto> (8, PP_ConfigHash 3)]\<rparr>"

abbreviation demo_record0 :: installed_rule where
  "demo_record0 \<equiv> \<lparr>ir_id = 0, ir_recovery = False, ir_name = ''admin'', ir_context_type = CR_CallContract (ContractId 1), ir_valid_until = None,
     ir_signers = [Signer_External (ContractId 7) [1]], ir_policies = []\<rparr>"

abbreviation demo_record1 :: "u32 \<Rightarrow> installed_rule" where
  "demo_record1 i \<equiv> \<lparr>ir_id = i, ir_recovery = True, ir_name = ''recovery'', ir_context_type = CR_CallContract (ContractId 1), ir_valid_until = None,
     ir_signers = [], ir_policies = [\<lparr>po_policy = ContractId 8, po_params = 3\<rparr>]\<rparr>"

lemma demo_desired:
  "desired ((an_rules demo_account)\<lparr>re_now := t\<rparr>) acct_compiled = [(demo_record0, []), (demo_record1 0, [PP_ConfigHash 3])]"
  by (simp add: desired_def acct_compiled_def document_rule_def recovery_installed_rule_def expired_def acct_recovery_def demo_account_def
      params_digest_def Let_def)

lemma checked_small: "checked_add (0 :: 32 word) 1 = Some 1" "checked_add (1 :: 32 word) 1 = Some 2" "checked_add (2 :: 32 word) 1 = Some 3"
  "checked_add (3 :: 32 word) 1 = Some 4" "checked_add (0 :: 64 word) 1 = Some 1" "checked_add (1 :: 64 word) 1 = Some 2"
  by (simp_all add: checked_add_def)

lemma demo_refs: "refs_of [demo_record0] = Some \<lparr>rf_signers = [Signer_External (ContractId 7) [1] \<mapsto> 1], rf_policies = Map.empty\<rparr>"
  by (simp add: refs_of_def refs_of_rule_def add_ref_def count_of_def checked_small)

lemma demo_meter_add:
  "\<exists>m. meter_add_rule h (demo_record1 0) (new_meter \<lparr>rf_signers = sgs, rf_policies = Map.empty\<rparr>) = Some (0, m)"
  by (simp add: meter_add_rule_def new_meter_def register_policy_def meter_write_def default_cost_def count_of_def meter_hook_def checked_small)

lemma demo_views_ok: "ids_ok demo_admin_view" "ids_ok demo_recovery_view"
  by (simp_all add: ids_ok_def demo_admin_view_def demo_recovery_view_def)

lemma demo_add_recovery:
  "oz_add_context_rule demo_oz (CR_CallContract (ContractId 1)) ''recovery'' None [] [ContractId 8 \<mapsto> PP_ConfigHash 3] [0 \<mapsto> demo_admin_view] =
     Some (1, [0 \<mapsto> demo_admin_view, 1 \<mapsto> demo_recovery_view])"
proof -
  have "\<lparr>rv_name = ''recovery'', rv_context_type = CR_CallContract (ContractId 1), rv_valid_until = None, rv_signers = [],
      rv_policies = (\<lambda>p. map_option (Pair (registry_id p)) ([ContractId 8 \<mapsto> PP_ConfigHash 3] p))\<rparr> = demo_recovery_view"
    by (auto simp: demo_recovery_view_def)
  then show ?thesis by (simp add: demo_oz_def demo_fresh_def demo_put_def demo_views_ok Let_def)
qed

lemma demo_apply_add:
  "\<exists>a. apply_add_rule demo_oz (demo_record1 0) [PP_ConfigHash 3] \<lparr>ap_world = [0 \<mapsto> demo_admin_view], ap_sum = default_summary, ap_rule = None\<rparr> =
     Some (1, a) \<and> ap_world a = [0 \<mapsto> demo_admin_view, 1 \<mapsto> demo_recovery_view]"
  by (simp add: apply_add_rule_def default_summary_def checked_small demo_add_recovery)

lemma demo_reconcile:
  "\<exists>dl. reconcile ((an_rules demo_account)\<lparr>re_now := t\<rparr>) demo_oz [demo_record0]
      (desired ((an_rules demo_account)\<lparr>re_now := t\<rparr>) acct_compiled) Mode_Cheapest [0 \<mapsto> demo_admin_view] =
    Some ([demo_record0, demo_record1 1], dl, [0 \<mapsto> demo_admin_view, 1 \<mapsto> demo_recovery_view])"
proof -
  define h where "h = \<lparr>hk_interpreter = ContractId 11, hk_spending_limit = ContractId 12\<rparr>"
  obtain m where m: "meter_add_rule h (demo_record1 0) (new_meter \<lparr>rf_signers = [Signer_External (ContractId 7) [1] \<mapsto> 1], rf_policies = Map.empty\<rparr>) = Some (0, m)"
    using demo_meter_add by blast
  obtain a where a: "apply_add_rule demo_oz (demo_record1 0) [PP_ConfigHash 3] \<lparr>ap_world = [0 \<mapsto> demo_admin_view], ap_sum = default_summary, ap_rule = None\<rparr> =
     Some (1, a)" "ap_world a = [0 \<mapsto> demo_admin_view, 1 \<mapsto> demo_recovery_view]"
    using demo_apply_add by blast
  have e: "re_interpreter ((an_rules demo_account)\<lparr>re_now := t\<rparr>) = ContractId 11" "re_spending_limit ((an_rules demo_account)\<lparr>re_now := t\<rparr>) = ContractId 12"
    by (simp_all add: demo_account_def)
  show ?thesis
    unfolding demo_desired reconcile_def run_rules_def demo_refs e Let_def h_def [symmetric]
    using m a by (simp add: run_remove_def run_rule_def same_slot_def unchanged_def push_next_def with_id_def record_step_def run_add_def)
qed

definition demo_a1 :: account_storage where
  "demo_a1 = empty_account\<lparr>as_installed_rules := Some [demo_record0, demo_record1 1], as_recovery_rule := Some 1,
     as_recovery_controller := Some (ContractId 8), as_recovery_generation := Some 1, as_applied_doc := Some 3,
     as_applied_doc_bytes := Some (cd_canonical acct_compiled), as_applied_fingerprints := Some [3], as_revision := Some 1\<rparr>"

definition demo_w1 :: demo_store where "demo_w1 = [0 \<mapsto> demo_admin_view, 1 \<mapsto> demo_recovery_view]"

lemma demo_contracts_simps:
  "ct_oz demo_contracts = demo_oz" "ct_compile_doc demo_contracts a [] = Inr acct_compiled"
  "ct_rcv_sync demo_contracts k a dh cs u w = Inr (Enrolled, w)" "ct_do_check_auth demo_contracts p sg cx w = Some w"
  "ct_rcv_upgrade demo_contracts k a st w = Inr (0, w)" "ct_update_wasm demo_contracts h w = Some w"
  by (simp_all add: demo_contracts_def acct_compiles)

lemma demo_a0_simps:
  "ac_store demo_a0 = empty_account\<lparr>as_installed_rules := Some [demo_record0]\<rparr>" "ac_world demo_a0 = [0 \<mapsto> demo_admin_view]"
  by (simp_all add: demo_a0_def admin_rule_def demo_account_def)

lemma acct_compiled_simps:
  "cd_doc_hash acct_compiled = 3" "cd_fingerprints acct_compiled = [3]" "cd_recovery acct_compiled = [acct_recovery]"
  "admin_survives (cd_rules acct_compiled)" "config_zk acct_recovery = None" "cc_controller acct_recovery = ContractId 8"
  by (simp_all add: acct_compiled_def admin_survives_def config_zk_def acct_recovery_def)

lemma demo_checks: "apply_checks (demo_inv 5) demo_contracts [] (Some 0) demo_a0 = Inr (acct_compiled, None, None)"
  by (simp add: apply_checks_def acct_require_auth_def demo_contracts_simps demo_a0_simps empty_account_def revision_def flatten_error_def
      acct_compiled_simps refuse_revoked_def zk_factor_transition_ok_def leaf_to_insert_def Let_def)

lemma acct_sync:
  "sync_controllers (demo_inv 5) demo_contracts acct_compiled 0 demo_a0 =
     Inr (Sync_Unchanged, demo_a0\<lparr>ac_store := (ac_store demo_a0)\<lparr>as_recovery_generation := Some 1\<rparr>\<rparr>)"
  by (simp add: sync_controllers_def sync_one_def demo_a0_simps empty_account_def demo_contracts_simps flatten_error_def acct_compiled_simps
      bumps_generation_def advance_generation_def generation_def checked_small Let_def)

text \<open>Whichever way the rules are reconciled, the rest of the apply is the same.\<close>

lemma demo_apply_with:
  assumes "reconcile ((an_rules demo_account)\<lparr>re_now := 5\<rparr>) demo_oz [demo_record0]
      (desired ((an_rules demo_account)\<lparr>re_now := 5\<rparr>) acct_compiled) mode [0 \<mapsto> demo_admin_view] =
    Some ([demo_record0, demo_record1 1], dl, demo_w1)"
  shows "\<exists>s. account_apply (demo_inv 5) demo_contracts [] 0 (Some 0) mode demo_a0 = Inr (3, s) \<and> ac_store s = demo_a1 \<and> ac_world s = demo_w1"
proof -
  define s1 where "s1 = demo_a0\<lparr>ac_store := (ac_store demo_a0)\<lparr>as_recovery_generation := Some 1\<rparr>\<rparr>"
  define s2 where "s2 = \<lparr>ac_store = (ac_store s1)\<lparr>as_installed_rules := Some [demo_record0, demo_record1 1], as_recovery_rule := Some 1,
     as_recovery_controller := Some (ContractId 8)\<rparr>, ac_world = demo_w1, ac_events = ac_events s1\<rparr>"
  have rules: "apply_rules (demo_inv 5) demo_contracts acct_compiled mode s1 = Inr (dl, s2)"
    using assms by (simp add: apply_rules_def installed_rules_def s1_def demo_a0_simps demo_contracts_simps acct_compiled_simps s2_def
        empty_account_def Let_def)
  show ?thesis
    unfolding account_apply_def demo_checks and_then_simps prod.case acct_sync s1_def [symmetric] rules
    by (simp add: insert_leaf_def record_document_def advance_revision_def revision_def s2_def s1_def demo_a0_simps acct_compiled_simps
        empty_account_def checked_small demo_a1_def Let_def)
qed

lemma demo_applied:
  "\<exists>s. apply_doc (demo_inv 5) demo_contracts [] 0 (Some 0) demo_a0 = Inr (3, s) \<and> ac_store s = demo_a1 \<and> ac_world s = demo_w1"
  unfolding apply_doc_def using demo_reconcile [of 5] demo_apply_with by (auto simp: demo_w1_def)

section \<open>Histories\<close>

lemma demo_reach0: "account_reach demo_account demo_contracts demo_view [] demo_a0"
  by (rule reach_new [OF demo_constructed]) (simp add: demo_view_def fun_eq_iff)

lemma demo_reach1:
  "\<exists>s. account_reach demo_account demo_contracts demo_view [(5, A_apply_doc [] 0 (Some 0))] s \<and> ac_store s = demo_a1 \<and> ac_world s = demo_w1"
proof -
  obtain s where s: "apply_doc (demo_inv 5) demo_contracts [] 0 (Some 0) demo_a0 = Inr (3, s)" "ac_store s = demo_a1" "ac_world s = demo_w1"
    using demo_applied by blast
  then have "account_reach demo_account demo_contracts demo_view [(5, A_apply_doc [] 0 (Some 0))] s"
    by (intro reach_call [OF demo_reach0, where auth = "\<lambda>_. True"]) simp
  then show ?thesis using s by blast
qed

lemma demo_views: "demo_view demo_w1 0 = Some demo_admin_view" "demo_view demo_w1 1 = Some demo_recovery_view"
  by (simp_all add: demo_view_def demo_w1_def demo_views_ok)

text \<open>Frozen by the adopted controller.\<close>

lemma demo_frozen:
  "\<exists>s. account_reach demo_account demo_contracts demo_view [(6, A_rcv_gate 0 100), (5, A_apply_doc [] 0 (Some 0))] s \<and>
     as_gate (ac_store s) = Some \<lparr>fg_attempt_id = 0, fg_until = 100\<rparr> \<and> as_recovery_rule (ac_store s) = Some 1 \<and> ac_world s = demo_w1"
proof -
  obtain s where s: "account_reach demo_account demo_contracts demo_view [(5, A_apply_doc [] 0 (Some 0))] s" "ac_store s = demo_a1" "ac_world s = demo_w1"
    using demo_reach1 by blast
  have "\<exists>s'. rcv_gate (demo_inv 6) 0 100 s = Inr s' \<and> as_gate (ac_store s') = Some \<lparr>fg_attempt_id = 0, fg_until = 100\<rparr> \<and>
      as_recovery_rule (ac_store s') = Some 1 \<and> ac_world s' = demo_w1"
    using s(2,3) by (simp add: rcv_gate_def acct_require_auth_def demo_a1_def Let_def)
  then show ?thesis using reach_call [OF s(1), of 6 "\<lambda>_. True" "A_rcv_gate 0 100"] by auto
qed

text \<open>An upgrade is scheduled.\<close>

definition demo_request :: upgrade_request where
  "demo_request = \<lparr>ur_request_id = 0, ur_wasm_hash = 9, ur_generation = 1, ur_controller_epoch = Some 0, ur_executable_at = 120966\<rparr>"

lemma demo_scheduled:
  "\<exists>s. account_reach demo_account demo_contracts demo_view [(6, A_schedule_upgrade 9 0), (5, A_apply_doc [] 0 (Some 0))] s \<and>
     ac_store s = demo_a1\<lparr>as_next_upgrade_id := Some 1, as_pending_upgrade := Some demo_request\<rparr> \<and> ac_world s = demo_w1"
proof -
  obtain s where s: "account_reach demo_account demo_contracts demo_view [(5, A_apply_doc [] 0 (Some 0))] s" "ac_store s = demo_a1" "ac_world s = demo_w1"
    using demo_reach1 by blast
  have "\<exists>s'. schedule_upgrade (demo_inv 6) demo_contracts 9 0 s = Inr (0, s') \<and>
      ac_store s' = demo_a1\<lparr>as_next_upgrade_id := Some 1, as_pending_upgrade := Some demo_request\<rparr> \<and> ac_world s' = demo_w1"
    using s(2,3) by (simp add: schedule_upgrade_def acct_require_auth_def demo_a1_def empty_account_def checked_small demo_contracts_simps flatten_error_def
        upgrade_schedule_def checked_add_def ACCOUNT_UPGRADE_DELAY_LEDGERS_def LEDGERS_PER_DAY_NOMINAL_def generation_def demo_request_def Let_def)
  then show ?thesis using reach_call [OF s(1), of 6 "\<lambda>_. True" "A_schedule_upgrade 9 0"] by auto
qed

lemma demo_executed:
  assumes "ac_store s = demo_a1\<lparr>as_next_upgrade_id := Some 1, as_pending_upgrade := Some demo_request\<rparr>"
  shows "\<exists>s'. execute_upgrade (demo_inv 200000) demo_contracts 0 s = Inr s'"
  using assms by (simp add: execute_upgrade_def acct_require_auth_def demo_request_def demo_a1_def empty_account_def readiness_def generation_def
      demo_contracts_simps flatten_error_def advance_generation_def advance_revision_def revision_def checked_small Let_def)

text \<open>The same document by full replacement.\<close>

lemma demo_add_admin:
  "oz_add_context_rule demo_oz (CR_CallContract (ContractId 1)) ''admin'' None [Signer_External (ContractId 7) [1]] Map.empty Map.empty =
     Some (0, [0 \<mapsto> demo_admin_view])"
proof -
  have "\<lparr>rv_name = ''admin'', rv_context_type = CR_CallContract (ContractId 1), rv_valid_until = None,
      rv_signers = [Signer_External (ContractId 7) [1]], rv_policies = (\<lambda>p. map_option (Pair (registry_id p)) (Map.empty p))\<rparr> = demo_admin_view"
    by (simp add: demo_admin_view_def)
  then show ?thesis by (simp add: demo_oz_def demo_fresh_def demo_put_def demo_views_ok Let_def)
qed

lemma demo_replaced:
  "\<exists>s. apply_doc_full_replace (demo_inv 5) demo_contracts [] 0 (Some 0) demo_a0 = Inr (3, s)"
proof -
  have rem: "oz_remove_context_rule demo_oz 0 [0 \<mapsto> demo_admin_view] = Some Map.empty" by (simp add: demo_oz_def)
  obtain dl where "reconcile ((an_rules demo_account)\<lparr>re_now := 5\<rparr>) demo_oz [demo_record0]
      (desired ((an_rules demo_account)\<lparr>re_now := 5\<rparr>) acct_compiled) Mode_FullReplace [0 \<mapsto> demo_admin_view] =
    Some ([demo_record0, demo_record1 1], dl, demo_w1)"
    unfolding demo_desired
    by (simp add: reconcile_def replace_all_def apply_remove_rule_def apply_add_rule_def default_summary_def checked_small rem demo_add_admin
        demo_add_recovery with_id_def demo_w1_def)
  then show ?thesis unfolding apply_doc_full_replace_def using demo_apply_with by blast
qed

end
