(* ===== verification/Account_Safety.thy ===== *)
theory Account_Safety
  imports Account_Demo
begin

text \<open>
  Properties of every state of an account: the rules OpenZeppelin stores are those of the applied
  document, an administrator is always among them, no rule but the recovery rule authorizes without
  signers, and nothing but \<open>apply_doc\<close> changes them.
\<close>

section \<open>The rules of a compiled document\<close>

text \<open>The host's address decoder takes one text per address, and the two hex decoders agree.\<close>

definition decode_laws :: "compiler_env \<Rightarrow> bool" where
  "decode_laws ce \<longleftrightarrow>
     (\<forall>s t a. h_address (de_host ce) s = Some a \<longrightarrow> h_address (de_host ce) t = Some a \<longrightarrow> s = t) \<and>
     (\<forall>s b. hex_bytes s = Inr b \<longrightarrow> de_hexd ce s = Some b)"

definition wf_compiled :: "compiled_doc \<Rightarrow> bool" where
  "wf_compiled c \<longleftrightarrow> distinct (map cr_name (cd_rules c)) \<and> (\<forall>r \<in> set (cd_rules c). distinct (cr_signers r) \<and> cr_signers r \<noteq> [])"

lemma to_signer_identity:
  assumes "decode_laws ce" "to_signer ce (lower_method m1) = Inr s" "to_signer ce (lower_method m2) = Inr s"
  shows "signer_identity (de_hexd ce) m1 = signer_identity (de_hexd ce) m2"
  using assms by (cases m1; cases m2) (auto simp: result_simps decode_laws_def)

lemma compiled_signers:
  assumes "compile_parsed ce doc = Inr c" "decode_laws ce" "r \<in> set (cd_rules c)"
  shows "distinct (cr_signers r) \<and> cr_signers r \<noteq> []"
proof -
  obtain plan where plan: "compile (de_host ce) doc \<lparr>cfg_interpreter_wasm_hash = 0\<rparr> = Inr plan"
      "list_all2 (\<lambda>l r. to_compiled ce l = Inr r) (pl_rules plan) (cd_rules c)"
    using compile_parsed_Inr(6) [OF assms(1)] by (elim exE conjE)
  obtain l where l: "l \<in> set (pl_rules plan)" "to_compiled ce l = Inr r"
    using plan(2) assms(3) by (rule list_all2_rightE)
  obtain rl where rl: "rl \<in> set (d_rules doc)" "lower_rule (de_host ce) doc rl = Inr l"
    using compile_rule_of [OF plan(1) l(1)] by metis
  let ?ids = "principal_ids (r_principals rl)"
  have wf: "well_formed (de_hexd ce) doc" by (rule compile_parsed_Inr(1) [OF assms(1)])
  have "wf_principals (de_hexd ce) (declared_ids doc) (r_principals rl)" using wf rl(1) by (simp add: well_formed_def wf_rule_def)
  moreover have "case r_principals rl of P_SelfAuthenticating _ _ _ \<Rightarrow> False | _ \<Rightarrow> True"
    using rl(2) by (auto simp: lower_rule_def and_then_eq_Inr split: principals.splits)
  ultimately have ids: "distinct ?ids" "?ids \<noteq> []" by (auto simp: wf_signer_refs_def split: principals.splits)
  have specs: "list_all2 (\<lambda>sid spec. \<exists>d. find (\<lambda>s. sd_id s = sid) (d_signers doc) = Some d \<and> spec = lower_method (sd_method d))
      ?ids (lr_signers l)" by (rule lower_rule_Inr(3) [OF rl(2)])
  have signers: "list_all2 (\<lambda>spec s. to_signer ce spec = Inr s) (lr_signers l) (cr_signers r)"
    using to_compiled_Inr [OF l(2)] by simp
  have at: "\<exists>d \<in> set (d_signers doc). sd_id d = ?ids ! i \<and> to_signer ce (lower_method (sd_method d)) = Inr (cr_signers r ! i)"
    if i: "i < length ?ids" for i
  proof -
    obtain d where "find (\<lambda>s. sd_id s = ?ids ! i) (d_signers doc) = Some d" "lr_signers l ! i = lower_method (sd_method d)"
      using list_all2_nthD [OF specs i] by blast
    moreover have "to_signer ce (lr_signers l ! i) = Inr (cr_signers r ! i)"
      using list_all2_nthD [OF signers, of i] i list_all2_lengthD [OF specs] by simp
    ultimately show ?thesis by (auto simp: find_Some_iff intro!: bexI [of _ d])
  qed
  have len: "length (cr_signers r) = length ?ids" using specs signers by (simp add: list_all2_conv_all_nth)
  have inj: "inj_on (signer_identity (de_hexd ce) \<circ> sd_method) (set (d_signers doc))"
    using wf by (simp add: well_formed_def wf_signers_def distinct_map)
  have "distinct (cr_signers r)"
    unfolding distinct_conv_nth
  proof (intro allI impI notI)
    fix i j
    assume ij: "i < length (cr_signers r)" "j < length (cr_signers r)" "i \<noteq> j" "cr_signers r ! i = cr_signers r ! j"
    obtain d d' where d: "d \<in> set (d_signers doc)" "sd_id d = ?ids ! i" "to_signer ce (lower_method (sd_method d)) = Inr (cr_signers r ! i)"
        "d' \<in> set (d_signers doc)" "sd_id d' = ?ids ! j" "to_signer ce (lower_method (sd_method d')) = Inr (cr_signers r ! i)"
      using at [of i] at [of j] ij len by auto
    have "d = d'" using to_signer_identity [OF assms(2) d(3,6)] inj d(1,4) by (simp add: inj_on_def)
    then show False using d(2,5) ij ids(1) len by (auto simp: distinct_conv_nth)
  qed
  then show ?thesis using len ids(2) by auto
qed

lemma compiled_wf:
  assumes "compile_doc ce b = Inr c" "decode_laws ce"
  shows "wf_compiled c" "cd_doc_hash c = h_sha256 (de_host ce) (cd_canonical c)"
proof -
  obtain doc where doc: "compile_parsed ce doc = Inr c" using assms(1) by (auto simp: compile_doc_def result_simps)
  obtain plan where plan: "compile (de_host ce) doc \<lparr>cfg_interpreter_wasm_hash = 0\<rparr> = Inr plan"
      "list_all2 (\<lambda>l r. to_compiled ce l = Inr r) (pl_rules plan) (cd_rules c)"
    using compile_parsed_Inr(6) [OF doc] by (elim exE conjE)
  have "list_all2 (\<lambda>r l. lower_rule (de_host ce) doc r = Inr l) (d_rules doc) (pl_rules plan)" by (rule compile_Inr [OF plan(1)])
  then have "map r_name (d_rules doc) = map lr_name (pl_rules plan)"
    by (auto simp: list_all2_conv_all_nth lower_rule_Inr(1) intro!: nth_equalityI)
  also have "\<dots> = map cr_name (cd_rules c)"
    using plan(2) to_compiled_Inr by (auto simp: list_all2_conv_all_nth intro!: nth_equalityI) 
  finally have "distinct (map cr_name (cd_rules c))"
    using compile_parsed_Inr(1) [OF doc] by (metis well_formed_def)
  then show "wf_compiled c" using compiled_signers [OF doc assms(2)] by (simp add: wf_compiled_def)
  show "cd_doc_hash c = h_sha256 (de_host ce) (cd_canonical c)" by (rule compile_parsed_Inr(5) [OF doc])
qed

text \<open>What the document asks for is a set of rules that a reconciliation can work with.\<close>

lemma distinct_slots_append:
  "distinct_slots (xs @ ys) \<longleftrightarrow> distinct_slots xs \<and> distinct_slots ys \<and> (\<forall>x \<in> set xs. \<forall>y \<in> set ys. \<not> same_slot x y)"
  by (induction xs) (auto simp: list_ex_iff)

lemma distinct_slots_names:
  "distinct (map ir_name rs) \<Longrightarrow> \<forall>r \<in> set rs. \<not> ir_recovery r \<Longrightarrow> distinct_slots rs"
  by (induction rs) (auto simp: list_ex_iff same_slot_def)

lemma document_rule_simps:
  "ir_name (fst (document_rule e r)) = cr_name r" "ir_recovery (fst (document_rule e r)) = False"
  "ir_signers (fst (document_rule e r)) = cr_signers r" "ir_valid_until (fst (document_rule e r)) = cr_valid_until r"
  "cr_install r = [] \<Longrightarrow> cr_cap r = [] \<Longrightarrow> ir_policies (fst (document_rule e r)) = []"
  "cr_scope r = RS_SelfAdmin \<Longrightarrow> ir_context_type (fst (document_rule e r)) = CR_CallContract (re_self e)"
  by (simp_all add: document_rule_def Let_def)

lemma document_rule_not_recovery: "document_rule e r = (a, b) \<Longrightarrow> ir_recovery a = False"
  using document_rule_simps(2) [of e r] by simp

lemma document_rule_wf:
  assumes "re_interpreter e \<noteq> re_spending_limit e" "distinct (cr_signers r)"
  shows "wf_installed (fst (document_rule e r)) \<and> aligned (params_digest e) (fst (document_rule e r)) (snd (document_rule e r))"
  using assms by (auto simp: document_rule_def Let_def wf_installed_def wf_policies_def aligned_def comp_def case_prod_unfold split: list.splits)

lemma desired_wf:
  assumes "wf_compiled c" "re_interpreter e \<noteq> re_spending_limit e"
  shows "wf_desired (params_digest e) (desired e c)"
proof -
  let ?docs = "[x \<leftarrow> map (document_rule e) (cd_rules c). \<not> expired e (ir_valid_until (fst x))]"
  have "distinct (map (ir_name \<circ> fst) (map (document_rule e) (cd_rules c)))"
    using assms(1) by (simp add: wf_compiled_def comp_def document_rule_simps(1))
  then have "distinct (map ir_name (map fst ?docs))" by (simp add: distinct_map_filter)
  then have "distinct_slots (map fst ?docs)"
    by (rule distinct_slots_names) (auto dest!: document_rule_not_recovery [OF sym])
  then have "distinct_slots (map fst (desired e c))"
    by (auto simp: desired_def distinct_slots_append recovery_installed_rule_def same_slot_def split: list.splits
        dest!: document_rule_not_recovery [OF sym])
  moreover have "list_all (\<lambda>(d, params). wf_installed d \<and> aligned (params_digest e) d params) (desired e c)"
    using document_rule_wf [OF assms(2)] assms(1)
    by (auto simp: desired_def list_all_iff wf_compiled_def recovery_installed_rule_def wf_installed_def wf_policies_def aligned_def
        case_prod_unfold split: list.splits)
  ultimately show ?thesis by (simp add: wf_desired_def)
qed

section \<open>The invariant\<close>

text \<open>
  The records of the rules are those of the constructor, or those of a document an \<open>apply_doc\<close> call of
  the history compiled at its ledger; controller, recovery rule, ZK factor and hash are that
  document's.
\<close>

definition constructed :: "account_env \<Rightarrow> account_storage \<Rightarrow> bool" where
  "constructed n st \<longleftrightarrow> as_applied_doc st = None \<and> as_recovery_controller st = None \<and> as_recovery_rule st = None \<and> as_current_zk st = None \<and>
     (\<exists>i ss. installed_rules st = [admin_rule (an_rules n) i ss] \<and> ss \<noteq> [] \<and> distinct ss)"

definition applied_from :: "account_env \<Rightarrow> 'w contracts \<Rightarrow> account_history \<Rightarrow> compiled_doc \<Rightarrow> u32 \<Rightarrow> account_storage \<Rightarrow> bool" where
  "applied_from n X h c t st \<longleftrightarrow>
     (\<exists>b u r. (t, A_apply_doc b u r) \<in> set h \<and> ct_compile_doc X (an_doc_compiler n) b = Inr c) \<and>
     admin_survives (cd_rules c) \<and> as_applied_doc st = Some (cd_doc_hash c) \<and>
     map erase_id (installed_rules st) = map (erase_id \<circ> fst) (desired ((an_rules n)\<lparr>re_now := t\<rparr>) c) \<and>
     as_recovery_controller st = doc_controller c \<and> as_recovery_rule st = map_option ir_id (find ir_recovery (installed_rules st)) \<and>
     as_current_zk st = doc_zk c"

definition account_inv :: "account_env \<Rightarrow> 'w contracts \<Rightarrow> 'w oz_view \<Rightarrow> account_history \<Rightarrow> 'w account_state \<Rightarrow> bool" where
  "account_inv n X view h s \<longleftrightarrow>
     agrees (params_digest (an_rules n)) view (ac_world s) (installed_rules (ac_store s)) \<and>
     (constructed n (ac_store s) \<or> (\<exists>c t. applied_from n X h c t (ac_store s))) \<and>
     (\<forall>dh. as_applied_doc (ac_store s) = Some dh \<longrightarrow> (\<exists>b t u r c. (t, A_apply_doc b u r) \<in> set h \<and>
        ct_compile_doc X (an_doc_compiler n) b = Inr c \<and> cd_doc_hash c = dh \<and> as_applied_doc_bytes (ac_store s) = Some (cd_canonical c) \<and>
        as_applied_fingerprints (ac_store s) = Some (cd_fingerprints c)))"

lemma params_digest_now [simp]: "params_digest (e\<lparr>re_now := t\<rparr>) = params_digest e"
  by (simp add: params_digest_def fun_eq_iff)

lemma admin_rule_now [simp]: "admin_rule (e\<lparr>re_now := t\<rparr>) = admin_rule e"
  by (simp add: admin_rule_def fun_eq_iff)

lemma distinct_slots_erase: "distinct_slots (map erase_id rs) = distinct_slots rs"
  by (induction rs) (auto simp: list_ex_iff same_slot_def)

lemma same_erased:
  assumes "map erase_id rs = map (erase_id \<circ> fst) ds" "wf_desired dig ds"
  shows "wf_records rs"
proof -
  have "distinct_slots (map erase_id rs)" unfolding assms(1) using assms(2) by (simp add: distinct_slots_erase [of "map fst ds", simplified] wf_desired_def)
  then have "distinct_slots rs" by (simp add: distinct_slots_erase)
  moreover have "list_all wf_installed (map erase_id rs)"
    unfolding assms(1) using assms(2) by (auto simp: wf_desired_def list_all_iff)
  then have "list_all wf_installed rs" by (simp add: list_all_iff)
  ultimately show ?thesis by (simp add: wf_records_def)
qed

text \<open>
  What the deployment promises: the pinned compiler is the document compiler, on the same host, and
  the two pinned policies are different contracts.
\<close>

definition account_deployed :: "account_env \<Rightarrow> 'w contracts \<Rightarrow> compiler_env \<Rightarrow> bool" where
  "account_deployed n X ce \<longleftrightarrow> ct_compile_doc X (an_doc_compiler n) = compile_doc ce \<and> decode_laws ce \<and>
     h_sha256 (de_host ce) = an_sha256 n \<and> de_xdr ce = an_xdr n \<and> re_interpreter (an_rules n) \<noteq> re_spending_limit (an_rules n)"

lemma deployed_desired:
  assumes "account_deployed n X ce" "ct_compile_doc X (an_doc_compiler n) b = Inr c"
  shows "wf_compiled c" "wf_desired (params_digest (an_rules n)) (desired ((an_rules n)\<lparr>re_now := t\<rparr>) c)"
proof -
  show c: "wf_compiled c" using compiled_wf(1) [of ce b c] assms by (simp add: account_deployed_def)
  show "wf_desired (params_digest (an_rules n)) (desired ((an_rules n)\<lparr>re_now := t\<rparr>) c)"
    using desired_wf [OF c, of "(an_rules n)\<lparr>re_now := t\<rparr>"] assms(1) by (simp add: account_deployed_def)
qed

lemma inv_records:
  assumes "account_inv n X view h s" "account_deployed n X ce"
  shows "wf_records (installed_rules (ac_store s))"
proof -
  consider (new) "constructed n (ac_store s)" | (doc) c t where "applied_from n X h c t (ac_store s)"
    using assms(1) by (auto simp: account_inv_def)
  then show ?thesis
  proof cases
    case new
    then show ?thesis by (auto simp: constructed_def wf_records_def admin_rule_def wf_installed_def wf_policies_def)
  next
    case (doc c t)
    then obtain b where "ct_compile_doc X (an_doc_compiler n) b = Inr c"
        "map erase_id (installed_rules (ac_store s)) = map (erase_id \<circ> fst) (desired ((an_rules n)\<lparr>re_now := t\<rparr>) c)"
      by (auto simp: applied_from_def)
    then show ?thesis using same_erased deployed_desired(2) [OF assms(2)] by blast
  qed
qed

text \<open>A successful apply in any mode leaves the document's rules stored and recorded.\<close>

lemma apply_installs:
  assumes "account_laws X view" "account_deployed n X ce" "account_inv n X view h s"
    and "account_apply (invocation n t auth) X b u r mode s = Inr (dh, s')"
  obtains c where "ct_compile_doc X (an_doc_compiler n) b = Inr c" "cd_doc_hash c = dh"
    "agrees (params_digest (an_rules n)) view (ac_world s') (installed_rules (ac_store s'))"
    "applied_from n X ((t, A_apply_doc b u r) # h) c t (ac_store s')"
    "as_applied_doc_bytes (ac_store s') = (if as_applied_doc (ac_store s) = Some dh then as_applied_doc_bytes (ac_store s) else Some (cd_canonical c))"
    "as_applied_fingerprints (ac_store s') = (if as_applied_doc (ac_store s) = Some dh then as_applied_fingerprints (ac_store s) else Some (cd_fingerprints c))"
proof -
  obtain c outcome s1 delta s2 where a: "apply_checks (invocation n t auth) X b r s = Inr (c, doc_zk c, leaf_to_insert (as_current_zk (ac_store s)) (doc_zk c))"
    "dh = cd_doc_hash c" and sy: "sync_controllers (invocation n t auth) X c u s = Inr (outcome, s1)"
    and ru: "apply_rules (invocation n t auth) X c mode s1 = Inr (delta, s2)"
    and s': "as_installed_rules (ac_store s') = as_installed_rules (ac_store s2)" "as_recovery_rule (ac_store s') = as_recovery_rule (ac_store s2)"
    "as_recovery_controller (ac_store s') = as_recovery_controller (ac_store s2)"
    "as_current_zk (ac_store s') = doc_zk c" "as_applied_doc (ac_store s') = Some dh"
    "as_applied_doc_bytes (ac_store s') = (if as_applied_doc (ac_store s2) = Some dh then as_applied_doc_bytes (ac_store s2) else Some (cd_canonical c))"
    "as_applied_fingerprints (ac_store s') = (if as_applied_doc (ac_store s2) = Some dh then as_applied_fingerprints (ac_store s2) else Some (cd_fingerprints c))"
    "view (ac_world s') = view (ac_world s2)"
    by (rule account_apply_Inr [OF assms(4)]) (use assms(1) in blast)
  note ch = apply_checks_Inr [OF a(1), simplified]
  have i1: "installed_rules (ac_store s1) = installed_rules (ac_store s)" "as_applied_doc (ac_store s1) = as_applied_doc (ac_store s)"
    "as_applied_doc_bytes (ac_store s1) = as_applied_doc_bytes (ac_store s)"
    "as_applied_fingerprints (ac_store s1) = as_applied_fingerprints (ac_store s)"
    using sync_controllers_Inr(1) [OF sy] by (auto simp: generation_moved_def installed_rules_def)
  have v1: "view (ac_world s1) = view (ac_world s)" by (rule sync_controllers_Inr(3) [OF sy assms(1)])
  have st2: "as_applied_doc (ac_store s2) = as_applied_doc (ac_store s)" "as_applied_doc_bytes (ac_store s2) = as_applied_doc_bytes (ac_store s)"
      "as_applied_fingerprints (ac_store s2) = as_applied_fingerprints (ac_store s)" "as_recovery_controller (ac_store s2) = doc_controller c"
      "as_recovery_rule (ac_store s2) = map_option ir_id (find ir_recovery (installed_rules (ac_store s2)))"
    using apply_rules_Inr(2-4) [OF ru] i1 by (auto simp: doc_controller_def)
  have rs': "installed_rules (ac_store s') = installed_rules (ac_store s2)" by (simp add: installed_rules_def s'(1))
  have rec: "reconcile ((an_rules n)\<lparr>re_now := t\<rparr>) (ct_oz X) (installed_rules (ac_store s)) (desired ((an_rules n)\<lparr>re_now := t\<rparr>) c) mode (ac_world s1) =
      Some (installed_rules (ac_store s2), delta, ac_world s2)"
    using apply_rules_Inr(1) [OF ru] i1(1) by simp
  have g: "agrees (params_digest (an_rules n)) view (ac_world s1) (installed_rules (ac_store s))"
    using assms(3) v1 by (simp add: account_inv_def agrees_def)
  note r = reconcile_agrees [OF law_oz [OF assms(1)] rec g inv_records [OF assms(3,2)] deployed_desired(2) [OF assms(2) ch(3)]]
  show thesis
  proof (rule that [OF ch(3) a(2) [symmetric]])
    show "agrees (params_digest (an_rules n)) view (ac_world s') (installed_rules (ac_store s'))"
      using r s'(8) rs' by (simp add: agrees_def)
    show "applied_from n X ((t, A_apply_doc b u r) # h) c t (ac_store s')"
      unfolding applied_from_def using ch(3,4) r s' st2 rs' a(2) by auto
  qed (use s' st2 in simp_all)
qed

lemma inv_agrees: "account_inv n X view h s \<Longrightarrow> agrees (params_digest (an_rules n)) view (ac_world s) (installed_rules (ac_store s))"
  by (simp add: account_inv_def)

lemma inv_unchanged:
  assumes "account_inv n X view h s" "same_authorization (ac_store s) (ac_store s')" "view (ac_world s') = view (ac_world s)" "set h \<subseteq> set h'"
  shows "account_inv n X view h' s'"
proof -
  have i: "installed_rules (ac_store s') = installed_rules (ac_store s)" using assms(2) by (simp add: installed_rules_def same_authorization_def)
  note st = assms(2) [unfolded same_authorization_def]
  have "constructed n (ac_store s')" if "constructed n (ac_store s)" using that st i by (auto simp: constructed_def)
  moreover have "applied_from n X h' c t (ac_store s')" if "applied_from n X h c t (ac_store s)" for c t
    using that st i assms(4) by (auto simp: applied_from_def)
  ultimately show ?thesis using assms(1,3,4) st i unfolding account_inv_def agrees_def by (simp add: subset_iff) blast
qed

lemma account_invariant:
  assumes "account_laws X view" "account_deployed n X ce"
  shows "account_reach n X view h s \<Longrightarrow> account_inv n X view h s"
proof (induction rule: account_reach.induct)
  case (reach_new t auth signers w s)
  obtain i w' where add: "oz_add_context_rule (ct_oz X) (CR_CallContract (an_self n)) ''admin'' None signers Map.empty w = Some (i, w')"
    and s: "s = \<lparr>ac_store = empty_account\<lparr>as_installed_rules := Some [admin_rule (an_rules n) i signers]\<rparr>, ac_world = w', ac_events = []\<rparr>"
    using reach_new.hyps(1) by (auto simp: constructor_def install_admin_def result_simps)
  have rs: "installed_rules (ac_store s) = [admin_rule (an_rules n) i signers]" by (simp add: s installed_rules_def)
  have ss: "distinct signers" "signers \<noteq> []" using law_added [OF assms(1) add] by auto
  obtain ids where "view w' = (view w)(i \<mapsto> \<lparr>rv_name = ''admin'', rv_context_type = CR_CallContract (an_self n), rv_valid_until = None,
      rv_signers = signers, rv_policies = (\<lambda>p. map_option (Pair (ids p)) (Map.empty p))\<rparr>)"
    using oz_add [OF law_oz [OF assms(1)] add] by blast
  then have "agrees (params_digest (an_rules n)) view w' [admin_rule (an_rules n) i signers]"
    using reach_new.hyps(2) by (simp add: agrees_def admin_rule_def has_shape_def shape_of_def policy_map_def)
  moreover have "constructed n (ac_store s)" using rs ss by (auto simp: constructed_def s empty_account_def)
  ultimately show ?case using rs by (simp add: account_inv_def s empty_account_def)
next
  case (reach_call h s t auth c s')
  show ?case
  proof (cases "\<exists>b u r. c = A_apply_doc b u r")
    case True
    then obtain b u r dh where c: "c = A_apply_doc b u r" and a: "account_apply (invocation n t auth) X b u r Mode_Cheapest s = Inr (dh, s')"
      using reach_call.hyps(2) by (auto simp: apply_doc_def)
    obtain cd where cd: "ct_compile_doc X (an_doc_compiler n) b = Inr cd" "cd_doc_hash cd = dh"
      "agrees (params_digest (an_rules n)) view (ac_world s') (installed_rules (ac_store s'))"
      "applied_from n X ((t, A_apply_doc b u r) # h) cd t (ac_store s')"
      "as_applied_doc_bytes (ac_store s') = (if as_applied_doc (ac_store s) = Some dh then as_applied_doc_bytes (ac_store s) else Some (cd_canonical cd))"
      "as_applied_fingerprints (ac_store s') = (if as_applied_doc (ac_store s) = Some dh then as_applied_fingerprints (ac_store s) else Some (cd_fingerprints cd))"
      by (rule apply_installs [OF assms reach_call.IH a])
    have "as_applied_doc (ac_store s') = Some dh" using cd(2,4) by (simp add: applied_from_def)
    then show ?thesis using cd(3,4) c reach_call.IH cd(1,2,5,6) unfolding account_inv_def
      by (cases "as_applied_doc (ac_store s) = Some dh") (simp, metis list.set_intros(2), auto)
  next
    case False
    then show ?thesis
      using other_call_frame [OF reach_call.hyps(2)] assms(1) by (intro inv_unchanged [OF reach_call.IH]) auto
  qed
next
  case (reach_auth h s t auth p sg cx s')
  show ?case
    by (rule inv_unchanged [OF reach_auth.IH])
       (use check_auth_Inr(1,2) [OF reach_auth.hyps(2)] law_auth [OF assms(1)] in \<open>auto simp: same_authorization_def dest: arg_cong [of s' _ ac_store]\<close>)
next
  case (reach_world h s w)
  show ?case by (rule inv_unchanged [OF reach_world.IH]) (use reach_world.hyps(2) in \<open>auto simp: same_authorization_def\<close>)
qed

section \<open>The stored rules\<close>

lemma stored_rule_recorded:
  assumes "agrees dig view w rs" "view w i = Some v"
  obtains r where "r \<in> set rs" "ir_id r = i" "has_shape dig v r (shape_of r)"
proof -
  have "i \<in> ir_id ` set rs" using assms domI [of "view w" i v] by (simp add: agrees_def)
  then show thesis using that assms by (auto simp: agrees_def)
qed

lemma shape_policies:
  assumes "has_shape dig v r (shape_of r)"
  shows "dom (rv_policies v) = set (map po_policy (ir_policies r))"
proof -
  have pm: "policy_map (ir_policies r) = (\<lambda>p. map_option (dig \<circ> snd) (rv_policies v p))"
    using assms by (simp add: has_shape_def shape_of_def)
  have "dom (rv_policies v) = dom (policy_map (ir_policies r))" unfolding pm by (auto simp: dom_def)
  then show ?thesis by simp
qed

lemma same_erased_mem:
  assumes "map erase_id rs = map (erase_id \<circ> fst) ds" "r \<in> set rs"
  obtains d where "d \<in> set ds" "erase_id r = erase_id (fst d)"
proof -
  have "erase_id r \<in> set (map (erase_id \<circ> fst) ds)" unfolding assms(1) [symmetric] using assms(2) by simp
  then show thesis using that by auto
qed

lemma erase_idD:
  assumes "erase_id r = erase_id d"
  shows "ir_name r = ir_name d" "ir_context_type r = ir_context_type d" "shape_of r = shape_of d" "ir_recovery r = ir_recovery d"
    "ir_signers r = ir_signers d" "ir_policies r = ir_policies d" "ir_valid_until r = ir_valid_until d"
  using assms by (metis with_id_simps(1-8))+

lemma desired_cases:
  assumes "d \<in> set (desired e c)"
  obtains (doc) r where "r \<in> set (cd_rules c)" "d = document_rule e r"
  | (recovery) rc rest where "cd_recovery c = rc # rest" "d = (recovery_installed_rule e rc, [PP_ConfigHash (cc_config_hash rc)])"
  using assms by (cases "cd_recovery c") (fastforce simp: desired_def)+

lemma admin_desired:
  assumes "admin_survives (cd_rules c)"
  obtains d where "d \<in> set (desired e c)" "ir_context_type (fst d) = CR_CallContract (re_self e)" "ir_valid_until (fst d) = None"
    "ir_signers (fst d) \<noteq> []" "ir_policies (fst d) = []"
proof -
  obtain r where r: "r \<in> set (cd_rules c)" "cr_scope r = RS_SelfAdmin" "cr_valid_until r = None" "cr_signers r \<noteq> []"
      "cr_install r = []" "cr_cap r = []"
    using assms by (rule admin_survivesE)
  then show thesis
    by (intro that [of "document_rule e r"]) (auto simp: desired_def document_rule_simps expired_def)
qed

lemma find_recovery_rule:
  assumes "distinct_slots rs" "\<And>q. q \<in> set rs \<Longrightarrow> ir_recovery q \<Longrightarrow> ir_context_type q = ty" "r \<in> set rs" "ir_recovery r"
  shows "find ir_recovery rs = Some r"
  using assms
proof (induction rs)
  case (Cons a rs)
  show ?case
  proof (cases "ir_recovery a")
    case True
    have "a = r"
    proof (rule ccontr)
      assume "a \<noteq> r"
      then have "r \<in> set rs" using Cons.prems(3) by simp
      moreover have "same_slot a r" using True Cons.prems(2) [of a] Cons.prems(2) [of r] Cons.prems(3,4) by (simp add: same_slot_def)
      ultimately show False using Cons.prems(1) by (auto simp: list_ex_iff)
    qed
    then show ?thesis using True by simp
  next
    case False
    then show ?thesis using Cons by auto
  qed
qed simp

text \<open>
  The records of a reachable state: some rule is a permanent policy-free rule of the account with
  signers, and a rule without signers is the recovery rule.
\<close>

lemma inv_rules:
  assumes "account_inv n X view h s" "account_deployed n X ce"
  shows "\<exists>r \<in> set (installed_rules (ac_store s)). ir_context_type r = CR_CallContract (an_self n) \<and> ir_valid_until r = None \<and>
      ir_signers r \<noteq> [] \<and> ir_policies r = []"
    and "r \<in> set (installed_rules (ac_store s)) \<Longrightarrow> ir_signers r = [] \<or> ir_recovery r \<Longrightarrow> as_recovery_rule (ac_store s) = Some (ir_id r) \<and>
      ir_context_type r = CR_CallContract (an_self n) \<and> ir_valid_until r = None \<and> ir_signers r = [] \<and>
      (\<exists>k. as_recovery_controller (ac_store s) = Some k \<and> map po_policy (ir_policies r) = [k])"
proof -
  let ?rs = "installed_rules (ac_store s)"
  consider (new) "constructed n (ac_store s)" | (doc) c t where "applied_from n X h c t (ac_store s)"
    using assms(1) by (auto simp: account_inv_def)
  then have "(\<exists>r \<in> set ?rs. ir_context_type r = CR_CallContract (an_self n) \<and> ir_valid_until r = None \<and>
      ir_signers r \<noteq> [] \<and> ir_policies r = []) \<and>
    (\<forall>r \<in> set ?rs. ir_signers r = [] \<or> ir_recovery r \<longrightarrow> as_recovery_rule (ac_store s) = Some (ir_id r) \<and>
      ir_context_type r = CR_CallContract (an_self n) \<and> ir_valid_until r = None \<and> ir_signers r = [] \<and>
      (\<exists>k. as_recovery_controller (ac_store s) = Some k \<and> map po_policy (ir_policies r) = [k]))"
  proof cases
    case new
    then show ?thesis by (auto simp: constructed_def admin_rule_def)
  next
    case (doc c t)
    let ?e = "(an_rules n)\<lparr>re_now := t\<rparr>"
    obtain b where b: "ct_compile_doc X (an_doc_compiler n) b = Inr c" using doc by (auto simp: applied_from_def)
    have wf: "wf_compiled c" by (rule deployed_desired(1) [OF assms(2) b])
    have m: "map erase_id ?rs = map (erase_id \<circ> fst) (desired ?e c)" using doc by (simp add: applied_from_def)
    have admin: "admin_survives (cd_rules c)" using doc by (simp add: applied_from_def)
    obtain d where d: "d \<in> set (desired ?e c)" "ir_context_type (fst d) = CR_CallContract (an_self n)" "ir_valid_until (fst d) = None"
        "ir_signers (fst d) \<noteq> []" "ir_policies (fst d) = []"
      using admin_desired [OF admin, of ?e] by auto
    have "erase_id (fst d) \<in> set (map erase_id ?rs)" unfolding m using d(1) by simp
    then obtain r where "r \<in> set ?rs" "erase_id r = erase_id (fst d)" by auto
    then have "\<exists>r \<in> set ?rs. ir_context_type r = CR_CallContract (an_self n) \<and> ir_valid_until r = None \<and> ir_signers r \<noteq> [] \<and> ir_policies r = []"
      using d erase_idD [of r "fst d"] by auto
    moreover have "as_recovery_rule (ac_store s) = Some (ir_id r) \<and>
      ir_context_type r = CR_CallContract (an_self n) \<and> ir_valid_until r = None \<and> ir_signers r = [] \<and>
      (\<exists>k. as_recovery_controller (ac_store s) = Some k \<and> map po_policy (ir_policies r) = [k])"
      if r: "r \<in> set ?rs" "ir_signers r = [] \<or> ir_recovery r" for r
    proof -
      obtain d where d: "d \<in> set (desired ?e c)" "erase_id r = erase_id (fst d)" using same_erased_mem [OF m r(1)] .
      from d(1) show ?thesis
      proof (cases rule: desired_cases)
        case (doc rl)
        then have "cr_signers rl \<noteq> []" using wf by (simp add: wf_compiled_def)
        then show ?thesis using r(2) doc erase_idD [OF d(2)] by (simp add: document_rule_simps)
      next
        case (recovery rc rest)
        have rr: "ir_recovery r" "ir_context_type r = CR_CallContract (an_self n)" "ir_valid_until r = None" "ir_signers r = []"
            "map po_policy (ir_policies r) = [cc_controller rc]"
          using recovery erase_idD [OF d(2)] by (simp_all add: recovery_installed_rule_def)
        have "find ir_recovery ?rs = Some r"
        proof (rule find_recovery_rule)
          show "distinct_slots ?rs" using inv_records [OF assms] by (simp add: wf_records_def)
          show "ir_context_type q = CR_CallContract (an_self n)" if q: "q \<in> set ?rs" "ir_recovery q" for q
          proof -
            obtain d where d: "d \<in> set (desired ?e c)" "erase_id q = erase_id (fst d)" using same_erased_mem [OF m q(1)] .
            from d(1) show ?thesis
              by (cases rule: desired_cases)
                 (use erase_idD [OF d(2)] q(2) in \<open>auto simp: document_rule_simps recovery_installed_rule_def\<close>)
          qed
        qed (use r(1) rr(1) in auto)
        then show ?thesis using doc recovery(1) rr by (simp add: applied_from_def doc_controller_def)
      qed
    qed
    ultimately show ?thesis by blast
  qed
  then show "\<exists>r \<in> set ?rs. ir_context_type r = CR_CallContract (an_self n) \<and> ir_valid_until r = None \<and> ir_signers r \<noteq> [] \<and> ir_policies r = []"
    and "r \<in> set ?rs \<Longrightarrow> ir_signers r = [] \<or> ir_recovery r \<Longrightarrow> as_recovery_rule (ac_store s) = Some (ir_id r) \<and>
      ir_context_type r = CR_CallContract (an_self n) \<and> ir_valid_until r = None \<and> ir_signers r = [] \<and>
      (\<exists>k. as_recovery_controller (ac_store s) = Some k \<and> map po_policy (ir_policies r) = [k])"
    by blast+
qed

section \<open>Revocation\<close>

text \<open>
  A credential handed back by its own completion: in an apply of the history that installed the
  compiled document \<open>c\<close>, the controller adopted at that moment answered that the attempt is
  completed and listed, among the replaced credentials, one that \<open>c\<close> itself names.
\<close>

definition handed_back :: "account_env \<Rightarrow> 'w contracts \<Rightarrow> 'w oz_view \<Rightarrow> account_history \<Rightarrow> compiled_doc \<Rightarrow> bytes32 \<Rightarrow> bool" where
  "handed_back n X view h c f \<longleftrightarrow>
     (\<exists>h1 t b u r h0 s0 k co w' cr. h = h1 @ (t, A_apply_doc b u r) # h0 \<and> account_reach n X view h0 s0 \<and>
        ct_compile_doc X (an_doc_compiler n) b = Inr c \<and> as_recovery_controller (ac_store s0) = Some k \<and>
        ct_rcv_sync X k (an_self n) (cd_doc_hash c) (cd_recovery c) u (ac_world s0) = Inr (Completed co, w') \<and>
        cr \<in> set (co_replaced co) \<and> fingerprint (an_sha256 n) (an_xdr n) cr = Inr f \<and> f \<in> set (cd_fingerprints c))"

lemma handed_back_mono: "handed_back n X view h c f \<Longrightarrow> handed_back n X view (x # h) c f"
  unfolding handed_back_def by (metis append_Cons)

text \<open>Revocations only grow, and an apply revokes what its own document names only when it is handed back.\<close>

lemma apply_revoked:
  assumes "account_apply e X b u r mode s = Inr (dh, s')"
  obtains c where "ct_compile_doc X (an_doc_compiler e) b = Inr c" "dh = cd_doc_hash c"
    "\<forall>f \<in> set (cd_fingerprints c). as_revoked (ac_store s) f = None"
    "\<forall>f. as_revoked (ac_store s) f \<noteq> None \<longrightarrow> as_revoked (ac_store s') f \<noteq> None"
    "\<And>f. f \<in> set (cd_fingerprints c) \<Longrightarrow> as_revoked (ac_store s') f \<noteq> None \<Longrightarrow>
       \<exists>k co w cr. as_recovery_controller (ac_store s) = Some k \<and>
         ct_rcv_sync X k (an_self e) (cd_doc_hash c) (cd_recovery c) u (ac_world s) = Inr (Completed co, w) \<and>
         cr \<in> set (co_replaced co) \<and> fingerprint (an_sha256 e) (an_xdr e) cr = Inr f"
proof -
  obtain c outcome s1 delta s2 where a: "apply_checks e X b r s = Inr (c, doc_zk c, leaf_to_insert (as_current_zk (ac_store s)) (doc_zk c))"
    and dh: "dh = cd_doc_hash c"
    and sy: "sync_controllers e X c u s = Inr (outcome, s1)" and ru: "apply_rules e X c mode s1 = Inr (delta, s2)"
    and ce: "completion_effect e outcome c (ac_store s2) (ac_store s')"
    by (rule account_apply_Inr [OF assms])
  note ch = apply_checks_Inr [OF a, simplified]
  have same: "as_revoked (ac_store s2) = as_revoked (ac_store s)"
    using sync_controllers_Inr(1) [OF sy] apply_rules_Inr(2) [OF ru] by (auto simp: generation_moved_def)
  have grow: "\<forall>f. as_revoked (ac_store s) f \<noteq> None \<longrightarrow> as_revoked (ac_store s') f \<noteq> None"
    using ce same by (auto simp: completion_effect_def split: sync_outcome.splits)
  show thesis
  proof (rule that [OF ch(3) dh ch(5) grow])
    fix f assume f: "f \<in> set (cd_fingerprints c)" "as_revoked (ac_store s') f \<noteq> None"
    have old: "as_revoked (ac_store s2) f = None" using ch(5) f(1) same by simp
    obtain co where co: "outcome = Completed co"
      using ce f(2) old by (auto simp: completion_effect_def split: sync_outcome.splits)
    obtain fs where fs: "list_all2 (\<lambda>c f. fingerprint (an_sha256 e) (an_xdr e) c = Inr f) (co_replaced co) fs"
        "as_revoked (ac_store s') = (\<lambda>f. if f \<in> set (revocations fs (unwrap_or [] (as_applied_fingerprints (ac_store s2))) (cd_fingerprints c))
           then Some True else as_revoked (ac_store s2) f)"
      using ce co by (auto simp: completion_effect_def)
    have "f \<in> set fs" using f old fs(2) by (auto simp: revocations_set split: if_splits)
    then obtain cr where "cr \<in> set (co_replaced co)" "fingerprint (an_sha256 e) (an_xdr e) cr = Inr f"
      using list_all2_rightE [OF fs(1)] by metis
    then show "\<exists>k co w cr. as_recovery_controller (ac_store s) = Some k \<and>
         ct_rcv_sync X k (an_self e) (cd_doc_hash c) (cd_recovery c) u (ac_world s) = Inr (Completed co, w) \<and>
         cr \<in> set (co_replaced co) \<and> fingerprint (an_sha256 e) (an_xdr e) cr = Inr f"
      using sync_controllers_Inr(2) [OF sy] co by auto
  qed
qed

lemma apply_hands_back:
  assumes a: "account_apply (invocation n t auth) X b u r mode s = Inr (dh, s')" and reach: "account_reach n X view h s"
  obtains c where "ct_compile_doc X (an_doc_compiler n) b = Inr c"
    "\<forall>f \<in> set (cd_fingerprints c). as_revoked (ac_store s') f \<noteq> None \<longrightarrow> handed_back n X view ((t, A_apply_doc b u r) # h) c f"
proof -
  obtain c where c: "ct_compile_doc X (an_doc_compiler n) b = Inr c"
    "\<And>f. f \<in> set (cd_fingerprints c) \<Longrightarrow> as_revoked (ac_store s') f \<noteq> None \<Longrightarrow>
       \<exists>k co w cr. as_recovery_controller (ac_store s) = Some k \<and>
         ct_rcv_sync X k (an_self n) (cd_doc_hash c) (cd_recovery c) u (ac_world s) = Inr (Completed co, w) \<and>
         cr \<in> set (co_replaced co) \<and> fingerprint (an_sha256 n) (an_xdr n) cr = Inr f"
    by (rule apply_revoked [OF a]) auto
  show thesis
  proof (rule that [OF c(1)], intro ballI impI)
    fix f assume f: "f \<in> set (cd_fingerprints c)" "as_revoked (ac_store s') f \<noteq> None"
    obtain k co w cr where "as_recovery_controller (ac_store s) = Some k"
         "ct_rcv_sync X k (an_self n) (cd_doc_hash c) (cd_recovery c) u (ac_world s) = Inr (Completed co, w)"
         "cr \<in> set (co_replaced co)" "fingerprint (an_sha256 n) (an_xdr n) cr = Inr f"
      using c(2) [OF f] by blast
    then show "handed_back n X view ((t, A_apply_doc b u r) # h) c f"
      unfolding handed_back_def
      by (intro exI [of _ "[]"] exI [of _ t] exI [of _ b] exI [of _ u] exI [of _ r] exI [of _ h] exI [of _ s] exI [of _ k]
          exI [of _ co] exI [of _ w] exI [of _ cr]) (use reach c(1) f(1) in simp)
  qed
qed

definition clean :: "account_env \<Rightarrow> 'w contracts \<Rightarrow> 'w oz_view \<Rightarrow> account_history \<Rightarrow> account_storage \<Rightarrow> bool" where
  "clean n X view h st \<longleftrightarrow> (as_applied_doc st = None \<and> as_revoked st = Map.empty) \<or>
     (\<exists>b c t. ct_compile_doc X (an_doc_compiler n) b = Inr c \<and> as_applied_doc st = Some (cd_doc_hash c) \<and>
        map erase_id (installed_rules st) = map (erase_id \<circ> fst) (desired ((an_rules n)\<lparr>re_now := t\<rparr>) c) \<and>
        (\<forall>f \<in> set (cd_fingerprints c). as_revoked st f \<noteq> None \<longrightarrow> handed_back n X view h c f))"

lemma clean_invariant:
  assumes "account_laws X view" "account_deployed n X ce"
  shows "account_reach n X view h s \<Longrightarrow> clean n X view h (ac_store s)"
proof (induction rule: account_reach.induct)
  case (reach_new t auth signers w s)
  then show ?case by (auto simp: constructor_def install_admin_def result_simps clean_def empty_account_def)
next
  case (reach_call h s t auth c s')
  show ?case
  proof (cases "\<exists>b u r. c = A_apply_doc b u r")
    case True
    then obtain b u r dh where c: "c = A_apply_doc b u r" and a: "account_apply (invocation n t auth) X b u r Mode_Cheapest s = Inr (dh, s')"
      using reach_call.hyps(2) by (auto simp: apply_doc_def)
    obtain cd where cd: "ct_compile_doc X (an_doc_compiler n) b = Inr cd"
        "\<forall>f \<in> set (cd_fingerprints cd). as_revoked (ac_store s') f \<noteq> None \<longrightarrow> handed_back n X view ((t, c) # h) cd f"
      using apply_hands_back [OF a reach_call.hyps(1)] unfolding c by metis
    obtain cd' where "ct_compile_doc X (an_doc_compiler n) b = Inr cd'" "applied_from n X ((t, A_apply_doc b u r) # h) cd' t (ac_store s')"
      using apply_installs [OF assms(1,2) account_invariant [OF assms(1,2) reach_call.hyps(1)] a] by metis
    then show ?thesis using cd by (auto simp: clean_def applied_from_def)
  next
    case False
    then have "same_authorization (ac_store s) (ac_store s')" using other_call_frame(1) [OF reach_call.hyps(2)] by blast
    then have "clean n X view h (ac_store s')" using reach_call.IH by (auto simp: clean_def same_authorization_def installed_rules_def)
    then show ?thesis using handed_back_mono [of n X view h _ _ "(t, c)"] unfolding clean_def by blast
  qed
next
  case (reach_auth h s t auth p sg cx s')
  then show ?case using arg_cong [OF check_auth_Inr(2) [OF reach_auth.hyps(2)], of ac_store] by simp
next
  case (reach_world h s w)
  then show ?case by simp
qed

section \<open>Upgrades\<close>

text \<open>A pending request was scheduled by a call of the history, at the generation it names.\<close>

definition scheduled_at :: "account_env \<Rightarrow> 'w contracts \<Rightarrow> 'w oz_view \<Rightarrow> account_history \<Rightarrow> upgrade_request \<Rightarrow> bool" where
  "scheduled_at n X view h rq \<longleftrightarrow>
     (\<exists>h1 t u h0 s0. h = h1 @ (t, A_schedule_upgrade (ur_wasm_hash rq) u) # h0 \<and> account_reach n X view h0 s0 \<and>
        generation (ac_store s0) = ur_generation rq \<and> next_upgrade_request_id (ac_store s0) = ur_request_id rq \<and>
        unat (ur_executable_at rq) = unat t + 7 * 17280)"

lemma scheduled_at_mono: "scheduled_at n X view h rq \<Longrightarrow> scheduled_at n X view (x # h) rq"
  unfolding scheduled_at_def by (metis append_Cons)

lemma pending_scheduled:
  "account_reach n X view h s \<Longrightarrow> as_pending_upgrade (ac_store s) = Some rq \<Longrightarrow>
   scheduled_at n X view h rq \<and> unat (ur_request_id rq) < unat (next_upgrade_request_id (ac_store s))"
proof (induction rule: account_reach.induct)
  case (reach_new t auth signers w s)
  then show ?case by (auto simp: constructor_def install_admin_def result_simps empty_account_def)
next
  case (reach_call h s t auth c s')
  have keep: ?case if "as_pending_upgrade (ac_store s') = as_pending_upgrade (ac_store s)"
      "next_upgrade_request_id (ac_store s') = next_upgrade_request_id (ac_store s)"
    using that reach_call.IH reach_call.prems scheduled_at_mono by metis
  show ?case
  proof (cases c)
    case (A_apply_doc b u r)
    then obtain dh where a: "account_apply (invocation n t auth) X b u r Mode_Cheapest s = Inr (dh, s')"
      using reach_call.hyps(2) by (auto simp: apply_doc_def)
    show ?thesis
    proof (rule account_apply_Inr [OF a], rule keep)
      fix c outcome s1 delta s2
      assume sy: "sync_controllers (invocation n t auth) X c u s = Inr (outcome, s1)"
        and ru: "apply_rules (invocation n t auth) X c Mode_Cheapest s1 = Inr (delta, s2)"
        and ce: "completion_effect (invocation n t auth) outcome c (ac_store s2) (ac_store s')"
        and nx: "as_next_upgrade_id (ac_store s') = as_next_upgrade_id (ac_store s2)"
      have s2: "as_pending_upgrade (ac_store s2) = as_pending_upgrade (ac_store s)" "as_next_upgrade_id (ac_store s2) = as_next_upgrade_id (ac_store s)"
        using sync_controllers_Inr(1) [OF sy] apply_rules_Inr(2) [OF ru] by (auto simp: generation_moved_def)
      show "as_pending_upgrade (ac_store s') = as_pending_upgrade (ac_store s)"
        using ce s2 reach_call.prems by (auto simp: completion_effect_def split: sync_outcome.splits)
      show "next_upgrade_request_id (ac_store s') = next_upgrade_request_id (ac_store s)"
        using nx s2 by (simp add: next_upgrade_request_id_def)
    qed
  next
    case (A_schedule_upgrade hash u)
    then obtain i where "schedule_upgrade (invocation n t auth) X hash u s = Inr (i, s')" using reach_call.hyps(2) by auto
    then show ?thesis
    proof (rule schedule_upgrade_Inr)
      fix request nx epoch
      assume i: "i = unwrap_or 0 (as_next_upgrade_id (ac_store s))" and nx: "checked_add i 1 = Some nx"
        and rq: "upgrade_schedule i hash (generation (ac_store s)) epoch (an_now (invocation n t auth)) = Some request"
        and st: "ac_store s' = (ac_store s)\<lparr>as_next_upgrade_id := Some nx, as_pending_upgrade := Some request\<rparr>"
      have r: "request = rq" using st reach_call.prems by simp
      have u: "ur_request_id rq = i" "ur_wasm_hash rq = hash" "ur_generation rq = generation (ac_store s)"
        "unat (ur_executable_at rq) = unat t + 7 * 17280"
        using rq r by (auto simp: upgrade_schedule_def ACCOUNT_UPGRADE_DELAY_LEDGERS_def LEDGERS_PER_DAY_NOMINAL_def
            dest!: checked_add_unat split: option.splits)
      have "scheduled_at n X view ((t, c) # h) rq"
        unfolding scheduled_at_def
        by (rule exI [of _ "[]"], rule exI [of _ t], rule exI [of _ u], rule exI [of _ h], rule exI [of _ s])
           (use u i reach_call.hyps(1) A_schedule_upgrade in \<open>simp add: next_upgrade_request_id_def\<close>)
      then show ?thesis using checked_add_unat [OF nx] u(1) st by (simp add: next_upgrade_request_id_def)
    qed
  next
    case (A_execute_upgrade i)
    then have "execute_upgrade (invocation n t auth) X i s = Inr s'" using reach_call.hyps(2) by simp
    then show ?thesis by (rule execute_upgrade_Inr) (use reach_call.prems in simp)
  qed (use reach_call.hyps(2) reach_call.prems reach_call.IH in \<open>auto intro: scheduled_at_mono simp: execute_def rcv_gate_def cancel_recovery_def cancel_upgrade_def
        acct_fail_def result_simps Let_def next_upgrade_request_id_def split: if_splits\<close>)
next
  case (reach_auth h s t auth p sg cx s')
  then show ?case using arg_cong [OF check_auth_Inr(2) [OF reach_auth.hyps(2)], of ac_store] by simp
next
  case (reach_world h s w)
  then show ?case by simp
qed

lemma demo_deployed: "account_deployed demo_account demo_contracts acct_compiler"
proof -
  have "decode_laws acct_compiler"
    by (auto simp: decode_laws_def acct_compiler_def acct_host_def split: if_splits)
  then show ?thesis
    by (auto simp: account_deployed_def demo_account_def demo_contracts_def acct_compiler_simps fun_eq_iff)
qed

lemma demo_self: "an_self demo_account = ContractId 1" "an_sha256 demo_account bs = 3" "an_xdr demo_account = demo_xdr"
  by (simp_all add: demo_account_def)

section \<open>Properties\<close>

text \<open>
  C3. Installed is what was reviewed. In every reachable state of an account with an applied
  document, the rules OpenZeppelin stores (names, scopes, signers in order, policies with the
  digests of their parameters, expiries) are exactly those of a document that an \<open>apply_doc\<close> call
  compiled and whose hash is the one the account reports, less the rules already expired at that
  call; and the bytes the account serves hash to the hash it reports.
\<close>

theorem applied_document_is_installed:
  assumes "account_reach n X view h s" "account_laws X view" "account_deployed n X ce" "as_applied_doc (ac_store s) = Some dh"
  shows "(\<exists>t b u r c. (t, A_apply_doc b u r) \<in> set h \<and> compile_doc ce b = Inr c \<and> cd_doc_hash c = dh \<and>
      stored_rules (params_digest (an_rules n)) view (ac_world s) =
        (\<lambda>(r, _). (ir_name r, ir_context_type r, shape_of r)) ` set (desired ((an_rules n)\<lparr>re_now := t\<rparr>) c)) \<and>
    (\<exists>bs. as_applied_doc_bytes (ac_store s) = Some bs \<and> an_sha256 n bs = dh)"
proof -
  have inv: "account_inv n X view h s" by (rule account_invariant [OF assms(2,3,1)])
  then obtain c t where c: "applied_from n X h c t (ac_store s)" using assms(4) by (auto simp: account_inv_def constructed_def)
  let ?rs = "installed_rules (ac_store s)" and ?e = "(an_rules n)\<lparr>re_now := t\<rparr>"
  have m: "map erase_id ?rs = map (erase_id \<circ> fst) (desired ?e c)" using c by (simp add: applied_from_def)
  have "(\<lambda>r. (ir_name r, ir_context_type r, shape_of r)) ` set ?rs =
      (\<lambda>r. (ir_name r, ir_context_type r, shape_of r)) ` set (map erase_id ?rs)"
    by (simp add: image_image)
  also have "\<dots> = (\<lambda>(r, _). (ir_name r, ir_context_type r, shape_of r)) ` set (desired ?e c)"
    unfolding m by (simp add: image_image case_prod_unfold)
  finally have "stored_rules (params_digest (an_rules n)) view (ac_world s) =
        (\<lambda>(r, _). (ir_name r, ir_context_type r, shape_of r)) ` set (desired ?e c)"
    unfolding agrees_stored [OF inv_agrees [OF inv]] .
  moreover have "\<exists>bs. as_applied_doc_bytes (ac_store s) = Some bs \<and> an_sha256 n bs = dh"
    using inv assms(3,4) compiled_wf(2) unfolding account_inv_def account_deployed_def by metis
  ultimately show ?thesis using c assms(3,4) by (auto simp: applied_from_def account_deployed_def)
qed

text \<open>Witness of C3: the demo account after its first document.\<close>

theorem applied_document_is_installed_witness:
  "\<exists>s :: demo_store account_state. ac_store s = demo_a1 \<and> ac_world s = demo_w1 \<and>
     (\<exists>t b c. compile_doc acct_compiler b = Inr c \<and> cd_doc_hash c = 3 \<and>
        stored_rules (params_digest (an_rules demo_account)) demo_view (ac_world s) =
          (\<lambda>(r, _). (ir_name r, ir_context_type r, shape_of r)) ` set (desired ((an_rules demo_account)\<lparr>re_now := t\<rparr>) c))"
proof -
  obtain s where s: "account_reach demo_account demo_contracts demo_view [(5, A_apply_doc [] 0 (Some 0))] s" "ac_store s = demo_a1" "ac_world s = demo_w1"
    using demo_reach1 by blast
  have "as_applied_doc (ac_store s) = Some 3" using s(2) by (simp add: demo_a1_def)
  from applied_document_is_installed [OF s(1) demo_account_laws demo_deployed this]
  obtain t b c where "compile_doc acct_compiler b = Inr c" "cd_doc_hash c = 3"
      "stored_rules (params_digest (an_rules demo_account)) demo_view (ac_world s) =
        (\<lambda>(r, _). (ir_name r, ir_context_type r, shape_of r)) ` set (desired ((an_rules demo_account)\<lparr>re_now := t\<rparr>) c)"
    by (elim conjE exE)
  then show ?thesis using s(2,3) by (intro exI [of _ s] exI [of _ t] exI [of _ b] exI [of _ c] conjI)
qed

text \<open>
  C11. An account is never locked out. In every reachable state OpenZeppelin stores a rule scoped to the
  account itself, without expiry and without policies, that has a signer: its signers can always
  authorize the account's entry points.
\<close>

theorem account_keeps_an_administrator:
  assumes "account_reach n X view h s" "account_laws X view" "account_deployed n X ce"
  shows "\<exists>i v. view (ac_world s) i = Some v \<and> rv_context_type v = CR_CallContract (an_self n) \<and> rv_valid_until v = None \<and>
    rv_signers v \<noteq> [] \<and> rv_policies v = Map.empty"
proof -
  have inv: "account_inv n X view h s" by (rule account_invariant [OF assms(2,3,1)])
  obtain r where r: "r \<in> set (installed_rules (ac_store s))" "ir_context_type r = CR_CallContract (an_self n)" "ir_valid_until r = None"
      "ir_signers r \<noteq> []" "ir_policies r = []"
    using inv_rules(1) [OF inv assms(3)] by blast
  then obtain v where "view (ac_world s) (ir_id r) = Some v" "has_shape (params_digest (an_rules n)) v r (shape_of r)"
    using inv by (auto simp: account_inv_def agrees_def)
  then show ?thesis
    using r by (intro exI [of _ "ir_id r"] exI [of _ v]) (auto simp: has_shape_def shape_of_def policy_map_def fun_eq_iff)
qed

text \<open>Witness of C11: the demo account after its first document.\<close>

theorem account_keeps_an_administrator_witness:
  "\<exists>i v. demo_view demo_w1 i = Some v \<and> rv_context_type v = CR_CallContract (ContractId 1) \<and> rv_signers v \<noteq> []"
proof -
  obtain s where s: "account_reach demo_account demo_contracts demo_view [(5, A_apply_doc [] 0 (Some 0))] s" "ac_world s = demo_w1"
    using demo_reach1 by blast
  show ?thesis using account_keeps_an_administrator [OF s(1) demo_account_laws demo_deployed] s(2) demo_self by auto
qed

text \<open>
  C14. Nothing authorizes unsigned but the recovery rule. In every reachable state a stored rule that
  asks for no signer is the recovery rule of the account: scoped to the account, without expiry, and
  with the adopted controller as its only policy.
\<close>

theorem unsigned_rules_are_recovery:
  assumes "account_reach n X view h s" "account_laws X view" "account_deployed n X ce"
    and "view (ac_world s) i = Some v" "rv_signers v = []"
  shows "as_recovery_rule (ac_store s) = Some i \<and> rv_context_type v = CR_CallContract (an_self n) \<and> rv_valid_until v = None \<and>
    (\<exists>k. as_recovery_controller (ac_store s) = Some k \<and> dom (rv_policies v) = {k})"
proof -
  have inv: "account_inv n X view h s" by (rule account_invariant [OF assms(2,3,1)])
  obtain r where r: "r \<in> set (installed_rules (ac_store s))" "ir_id r = i" "has_shape (params_digest (an_rules n)) v r (shape_of r)"
    by (rule stored_rule_recorded [OF inv_agrees [OF inv] assms(4)])
  have sg: "ir_signers r = []" using r(3) assms(5) by (simp add: has_shape_def shape_of_def)
  obtain k where k: "as_recovery_rule (ac_store s) = Some i" "ir_context_type r = CR_CallContract (an_self n)" "ir_valid_until r = None"
      "as_recovery_controller (ac_store s) = Some k" "map po_policy (ir_policies r) = [k]"
    using inv_rules(2) [OF inv assms(3) r(1) disjI1 [OF sg]] r(2) by auto
  show ?thesis using shape_policies [OF r(3)] k r(3) by (auto simp: has_shape_def shape_of_def)
qed

text \<open>Witness of C14: the recovery rule of the demo account.\<close>

theorem unsigned_rules_are_recovery_witness: "as_recovery_rule demo_a1 = Some 1 \<and> dom (rv_policies demo_recovery_view) = {ContractId 8}"
proof -
  obtain s where s: "account_reach demo_account demo_contracts demo_view [(5, A_apply_doc [] 0 (Some 0))] s" "ac_store s = demo_a1" "ac_world s = demo_w1"
    using demo_reach1 by blast
  have "rv_signers demo_recovery_view = []" by (simp add: demo_recovery_view_def)
  from unsigned_rules_are_recovery [OF s(1) demo_account_laws demo_deployed _ this] demo_views(2) s(2,3)
  show ?thesis by (auto simp: demo_a1_def)
qed

text \<open>
  C7. A revoked credential does not sign. No document that names a revoked credential is ever
  applied, whatever the controllers answer: in a reachable state a signer of a rule that
  OpenZeppelin stores has a revoked fingerprint only if the apply that installed the present document
  was a completion in which the adopted controller itself handed that credential back as replaced,
  although the document it completed to names it. A revocation is never taken back by any entry point.
\<close>

theorem revoked_signer_was_handed_back:
  assumes "account_reach n X view h s" "account_laws X view" "account_deployed n X ce"
    and "view (ac_world s) i = Some v" "sg \<in> set (rv_signers v)" "fingerprint (an_sha256 n) (an_xdr n) (signer_credential sg) = Inr f"
  shows "(is_revoked (ac_store s) f \<longrightarrow> (\<exists>c. as_applied_doc (ac_store s) = Some (cd_doc_hash c) \<and> handed_back n X view h c f)) \<and>
    (\<forall>t auth c s' g. account_exec (invocation n t auth) X s c = Inr s' \<longrightarrow> is_revoked (ac_store s) g \<longrightarrow> is_revoked (ac_store s') g)"
proof -
  have inv: "account_inv n X view h s" by (rule account_invariant [OF assms(2,3,1)])
  obtain r where r: "r \<in> set (installed_rules (ac_store s))" "ir_id r = i" "has_shape (params_digest (an_rules n)) v r (shape_of r)"
    by (rule stored_rule_recorded [OF inv_agrees [OF inv] assms(4)])
  have sg: "sg \<in> set (ir_signers r)" using r(3) assms(5) by (simp add: has_shape_def shape_of_def)
  consider (new) "as_revoked (ac_store s) = Map.empty"
    | (doc) b c t where "ct_compile_doc X (an_doc_compiler n) b = Inr c" "as_applied_doc (ac_store s) = Some (cd_doc_hash c)"
      "map erase_id (installed_rules (ac_store s)) = map (erase_id \<circ> fst) (desired ((an_rules n)\<lparr>re_now := t\<rparr>) c)"
      "\<forall>f \<in> set (cd_fingerprints c). as_revoked (ac_store s) f \<noteq> None \<longrightarrow> handed_back n X view h c f"
    using clean_invariant [OF assms(2,3,1)] by (auto simp: clean_def)
  then have "as_revoked (ac_store s) f \<noteq> None \<longrightarrow> (\<exists>c. as_applied_doc (ac_store s) = Some (cd_doc_hash c) \<and> handed_back n X view h c f)"
  proof cases
    case (doc b c t)
    obtain d where d: "d \<in> set (desired ((an_rules n)\<lparr>re_now := t\<rparr>) c)" "erase_id r = erase_id (fst d)"
      using same_erased_mem [OF doc(3) r(1)] .
    obtain rl where rl: "rl \<in> set (cd_rules c)" "sg \<in> set (cr_signers rl)"
      using d(1)
      by (cases rule: desired_cases) (use sg erase_idD(5) [OF d(2)] that in \<open>auto simp: document_rule_simps recovery_installed_rule_def\<close>)
    obtain doc' where "compile_parsed ce doc' = Inr c" using doc(1) assms(3) by (auto simp: account_deployed_def compile_doc_def result_simps)
    from signer_fingerprinted [OF this rl] have "f \<in> set (cd_fingerprints c)" using assms(3,6) by (auto simp: account_deployed_def)
    then show ?thesis using doc(2,4) by blast
  qed simp
  moreover have "is_revoked (ac_store s') g" if g: "account_exec (invocation n t auth) X s c = Inr s'" "is_revoked (ac_store s) g" for t auth c s' g
  proof (cases "\<exists>b u r. c = A_apply_doc b u r")
    case True
    then obtain b u r dh where "account_apply (invocation n t auth) X b u r Mode_Cheapest s = Inr (dh, s')"
      using g(1) by (auto simp: apply_doc_def)
    then show ?thesis by (rule apply_revoked) (use g(2) in \<open>auto simp: is_revoked_def\<close>)
  next
    case False
    then show ?thesis using other_call_frame(1) [OF g(1)] g(2) by (auto simp: same_authorization_def is_revoked_def)
  qed
  ultimately show ?thesis by (auto simp: is_revoked_def)
qed

text \<open>
  Witness of C7: a controller that completes every later apply and hands back a credential with the
  fingerprint of the demo account's administrator, whose document is applied twice.
\<close>

definition rogue_contracts :: "demo_store contracts" where
  "rogue_contracts = demo_contracts\<lparr>ct_rcv_sync := (\<lambda>_ _ _ _ _ w.
     Inr (if w = demo_w1 then Completed \<lparr>co_attempt_id = 0, co_replaced = [Cred_Delegated (ContractId 60)]\<rparr> else Enrolled, w))\<rparr>"

lemma rogue_simps:
  "ct_oz rogue_contracts = demo_oz" "ct_compile_doc rogue_contracts a [] = Inr acct_compiled" "ct_rcv_insert rogue_contracts p a i c w = Some w"
  "ct_rcv_sync rogue_contracts k a dh cs u [0 \<mapsto> demo_admin_view] = Inr (Enrolled, [0 \<mapsto> demo_admin_view])"
  "ct_rcv_sync rogue_contracts k a dh cs u demo_w1 = Inr (Completed \<lparr>co_attempt_id = 0, co_replaced = [Cred_Delegated (ContractId 60)]\<rparr>, demo_w1)"
proof -
  have "demo_w1 (1 :: u32) \<noteq> None" "[0 \<mapsto> demo_admin_view] (1 :: u32) = None" by (simp_all add: demo_w1_def)
  then have "[0 \<mapsto> demo_admin_view] \<noteq> demo_w1" by metis
  then show "ct_oz rogue_contracts = demo_oz" "ct_compile_doc rogue_contracts a [] = Inr acct_compiled" "ct_rcv_insert rogue_contracts p a i c w = Some w"
    "ct_rcv_sync rogue_contracts k a dh cs u [0 \<mapsto> demo_admin_view] = Inr (Enrolled, [0 \<mapsto> demo_admin_view])"
    "ct_rcv_sync rogue_contracts k a dh cs u demo_w1 = Inr (Completed \<lparr>co_attempt_id = 0, co_replaced = [Cred_Delegated (ContractId 60)]\<rparr>, demo_w1)"
    by (simp_all add: rogue_contracts_def demo_contracts_simps, simp add: demo_contracts_def)
qed

lemma rogue_laws: "account_laws rogue_contracts demo_view" "account_deployed demo_account rogue_contracts acct_compiler"
  using demo_account_laws demo_deployed
  by (simp_all add: account_laws_def account_deployed_def rogue_contracts_def)

lemma rogue_first:
  "\<exists>s. apply_doc (demo_inv 5) rogue_contracts [] 0 (Some 0) demo_a0 = Inr (3, s) \<and> ac_store s = demo_a1 \<and> ac_world s = demo_w1"
proof -
  have "apply_checks (demo_inv 5) rogue_contracts [] (Some 0) demo_a0 = Inr (acct_compiled, None, None)"
    by (simp add: apply_checks_def acct_require_auth_def rogue_simps demo_a0_simps empty_account_def revision_def flatten_error_def
        acct_compiled_simps refuse_revoked_def zk_factor_transition_ok_def leaf_to_insert_def Let_def)
  moreover have "sync_controllers (demo_inv 5) rogue_contracts acct_compiled 0 demo_a0 =
      Inr (Sync_Unchanged, demo_a0\<lparr>ac_store := (ac_store demo_a0)\<lparr>as_recovery_generation := Some 1\<rparr>\<rparr>)"
    by (simp add: sync_controllers_def sync_one_def demo_a0_simps empty_account_def rogue_simps flatten_error_def acct_compiled_simps
        bumps_generation_def advance_generation_def generation_def checked_small Let_def)
  moreover have "apply_rules (demo_inv 5) rogue_contracts = apply_rules (demo_inv 5) demo_contracts"
    "insert_leaf (demo_inv 5) rogue_contracts = insert_leaf (demo_inv 5) demo_contracts"
    by (simp add: apply_rules_def rogue_simps demo_contracts_simps fun_eq_iff)
       (simp add: insert_leaf_def rogue_simps demo_contracts_def fun_eq_iff split: option.split)
  ultimately have "apply_doc (demo_inv 5) rogue_contracts [] 0 (Some 0) demo_a0 = apply_doc (demo_inv 5) demo_contracts [] 0 (Some 0) demo_a0"
    by (simp add: apply_doc_def account_apply_def demo_checks acct_sync)
  then show ?thesis using demo_applied by simp
qed

lemma rogue_unchanged:
  "\<exists>dl. reconcile ((an_rules demo_account)\<lparr>re_now := t\<rparr>) demo_oz [demo_record0, demo_record1 1]
      (desired ((an_rules demo_account)\<lparr>re_now := t\<rparr>) acct_compiled) Mode_Cheapest demo_w1 = Some ([demo_record0, demo_record1 1], dl, demo_w1)"
  unfolding demo_desired
  by (simp add: reconcile_def run_rules_def refs_of_def refs_of_rule_def add_ref_def count_of_def checked_small run_remove_def
      run_rule_def same_slot_def unchanged_def push_next_def with_id_def record_step_def Let_def)

lemma rogue_second:
  assumes "ac_store s = demo_a1" "ac_world s = demo_w1"
  shows "\<exists>s'. apply_doc (demo_inv 6) rogue_contracts [] 0 None s = Inr (3, s') \<and> is_revoked (ac_store s') 3 \<and> ac_world s' = demo_w1"
proof -
  let ?co = "\<lparr>co_attempt_id = 0, co_replaced = [Cred_Delegated (ContractId 60)]\<rparr>"
  define s1 where "s1 = s\<lparr>ac_store := demo_a1\<lparr>as_recovery_generation := Some 2\<rparr>\<rparr>"
  have ch: "apply_checks (demo_inv 6) rogue_contracts [] None s = Inr (acct_compiled, None, None)"
    using assms by (simp add: apply_checks_def acct_require_auth_def rogue_simps demo_a1_def empty_account_def flatten_error_def
        acct_compiled_simps refuse_revoked_def zk_factor_transition_ok_def leaf_to_insert_def Let_def)
  have sy: "sync_controllers (demo_inv 6) rogue_contracts acct_compiled 0 s = Inr (Completed ?co, s1)"
    using assms by (simp add: sync_controllers_def sync_one_def rogue_simps flatten_error_def acct_compiled_simps demo_a1_def empty_account_def
        bumps_generation_def advance_generation_def generation_def checked_small s1_def Let_def)
  obtain dl where "reconcile ((an_rules demo_account)\<lparr>re_now := 6\<rparr>) demo_oz [demo_record0, demo_record1 1]
      (desired ((an_rules demo_account)\<lparr>re_now := 6\<rparr>) acct_compiled) Mode_Cheapest demo_w1 = Some ([demo_record0, demo_record1 1], dl, demo_w1)"
    using rogue_unchanged by blast
  then have ru: "apply_rules (demo_inv 6) rogue_contracts acct_compiled Mode_Cheapest s1 = Inr (dl, s1)"
    using assms by (simp add: apply_rules_def installed_rules_def s1_def demo_a1_def empty_account_def rogue_simps acct_compiled_simps Let_def)
  have f: "fingerprint (an_sha256 demo_account) (an_xdr demo_account) (Cred_Delegated (ContractId 60)) = Inr 3"
    by (simp add: demo_self fingerprint_def tagged_address_eq [OF demo_xdr_laws])
  show ?thesis
    unfolding apply_doc_def account_apply_def ch and_then_simps prod.case sy ru
    using assms by (simp add: insert_leaf_def complete_recovery_def f revocations_def revoke_def drop_pending_upgrade_def advance_revision_def record_document_def
        revision_def checked_small s1_def demo_a1_def empty_account_def acct_compiled_simps is_revoked_def Let_def) blast
qed

theorem revoked_signer_was_handed_back_witness:
  "\<exists>(s :: demo_store account_state) c. is_revoked (ac_store s) 3 \<and> as_applied_doc (ac_store s) = Some (cd_doc_hash c) \<and>
     handed_back demo_account rogue_contracts demo_view [(6, A_apply_doc [] 0 None), (5, A_apply_doc [] 0 (Some 0))] c 3"
proof -
  have "account_reach demo_account rogue_contracts demo_view [] demo_a0"
    by (rule reach_new [where t = 0 and auth = "\<lambda>_. True" and signers = "[Signer_External (ContractId 7) [1]]" and w = Map.empty])
       (use demo_constructed in \<open>simp_all add: constructor_def install_admin_def rogue_simps demo_contracts_simps demo_view_def fun_eq_iff\<close>)
  moreover obtain s where s: "apply_doc (demo_inv 5) rogue_contracts [] 0 (Some 0) demo_a0 = Inr (3, s)" "ac_store s = demo_a1" "ac_world s = demo_w1"
    using rogue_first by blast
  ultimately have r: "account_reach demo_account rogue_contracts demo_view [(5, A_apply_doc [] 0 (Some 0))] s"
    by (intro reach_call [where auth = "\<lambda>_. True"]) auto
  obtain s' where s': "apply_doc (demo_inv 6) rogue_contracts [] 0 None s = Inr (3, s')" "is_revoked (ac_store s') 3" "ac_world s' = demo_w1"
    using rogue_second [OF s(2,3)] by blast
  have r2: "account_reach demo_account rogue_contracts demo_view [(6, A_apply_doc [] 0 None), (5, A_apply_doc [] 0 (Some 0))] s'"
    by (rule reach_call [OF r, where auth = "\<lambda>_. True"]) (simp add: s'(1))
  have v: "demo_view (ac_world s') 0 = Some demo_admin_view" "Signer_External (ContractId 7) [1] \<in> set (rv_signers demo_admin_view)"
    using demo_views(1) s'(3) by (simp_all add: demo_admin_view_def)
  have "fingerprint (an_sha256 demo_account) (an_xdr demo_account) (signer_credential (Signer_External (ContractId 7) [1])) = Inr 3"
    by (simp add: fingerprint_def demo_self tagged_address_eq [OF demo_xdr_laws])
  from revoked_signer_was_handed_back [where view = demo_view and i = 0, OF r2 rogue_laws v this] s'(2) show ?thesis by blast
qed

text \<open>
  C8. A frozen account authorizes only the completion. While the freeze of a \<open>Protected\<close> attempt is in
  force, \<open>__check_auth\<close> accepts nothing but a single \<open>apply_doc\<close> context of the account that selects
  the recovery rule, a rule with no signers whose only policy is the adopted controller: whether it
  passes is the controller's decision. Frozen or not, it accepts no context that names an
  invoker-only hook, and it changes no entry of the account.
\<close>

theorem frozen_account_only_completes:
  assumes "account_reach n X view h s" "account_laws X view" "account_deployed n X ce"
    and "check_auth (invocation n t auth) X p sg cx s = Inr s'" "as_gate (ac_store s) = Some g" "t < fg_until g"
  shows "(\<exists>c i v k. cx = [Ctx_Contract c] \<and> cc_contract c = an_self n \<and> cc_fn_name c = ''apply_doc'' \<and>
      pl_context_rule_ids sg = [i] \<and> view (ac_world s) i = Some v \<and> rv_signers v = [] \<and>
      rv_context_type v = CR_CallContract (an_self n) \<and> as_recovery_controller (ac_store s) = Some k \<and> dom (rv_policies v) = {k}) \<and>
    list_all (\<lambda>ctx. \<not> names_reserved ctx) cx \<and> ac_store s' = ac_store s"
proof -
  have inv: "account_inv n X view h s" by (rule account_invariant [OF assms(2,3,1)])
  have "is_completion (invocation n t auth) (ac_store s) sg cx"
    using check_auth_Inr(4) [OF assms(4,5)] assms(6) by simp
  then obtain i c where i: "as_recovery_rule (ac_store s) = Some i" "cx = [Ctx_Contract c]" "pl_context_rule_ids sg = [i]"
      "cc_contract c = an_self n" "cc_fn_name c = ''apply_doc''"
    by (auto simp: is_completion_def split: option.splits list.splits auth_context.splits)
  obtain h' c' t' where "applied_from n X h' c' t' (ac_store s)"
    using inv i(1) by (auto simp: account_inv_def constructed_def)
  then have "map_option ir_id (find ir_recovery (installed_rules (ac_store s))) = Some i" using i(1) by (simp add: applied_from_def)
  then obtain r where "find ir_recovery (installed_rules (ac_store s)) = Some r" "ir_id r = i" by auto
  then have r: "r \<in> set (installed_rules (ac_store s))" "ir_recovery r" "ir_id r = i" by (auto simp: find_Some_iff)
  obtain k where k: "ir_context_type r = CR_CallContract (an_self n)" "ir_signers r = []"
      "as_recovery_controller (ac_store s) = Some k" "map po_policy (ir_policies r) = [k]"
    using inv_rules(2) [OF inv assms(3) r(1) disjI2 [OF r(2)]] by auto
  obtain v where v: "view (ac_world s) i = Some v" "has_shape (params_digest (an_rules n)) v r (shape_of r)"
    using inv_agrees [OF inv] r(1,3) by (auto simp: agrees_def)
  have "dom (rv_policies v) = {k}" using shape_policies [OF v(2)] k(4) by simp
  then have "\<exists>c i v k. cx = [Ctx_Contract c] \<and> cc_contract c = an_self n \<and> cc_fn_name c = ''apply_doc'' \<and>
      pl_context_rule_ids sg = [i] \<and> view (ac_world s) i = Some v \<and> rv_signers v = [] \<and>
      rv_context_type v = CR_CallContract (an_self n) \<and> as_recovery_controller (ac_store s) = Some k \<and> dom (rv_policies v) = {k}"
    using i v k by (auto simp: has_shape_def shape_of_def)
  moreover have "list_all (\<lambda>ctx. \<not> names_reserved ctx) cx" using check_auth_Inr(3) [OF assms(4)] by (simp add: list_all_iff list_ex_iff)
  moreover have "ac_store s' = ac_store s" using arg_cong [OF check_auth_Inr(2) [OF assms(4)], of ac_store] by simp
  ultimately show ?thesis by blast
qed

text \<open>Witness of C8: the demo account, frozen, accepts the completion's context.\<close>

theorem frozen_account_only_completes_witness:
  "\<exists>s s' v k. check_auth (demo_inv 7) demo_contracts 0 \<lparr>pl_context_rule_ids = [1], pl_signers = []\<rparr>
       [Ctx_Contract \<lparr>cc_contract = ContractId 1, cc_fn_name = ''apply_doc'', cc_args = []\<rparr>] s = Inr s' \<and>
     demo_view (ac_world s) 1 = Some v \<and> rv_signers v = [] \<and> as_recovery_controller (ac_store s) = Some k \<and> dom (rv_policies v) = {k} \<and>
     ac_store s' = ac_store s"
proof -
  let ?sg = "\<lparr>pl_context_rule_ids = [1], pl_signers = []\<rparr>"
    and ?cx = "[Ctx_Contract \<lparr>cc_contract = ContractId 1, cc_fn_name = ''apply_doc'', cc_args = []\<rparr>]"
  obtain s where s: "account_reach demo_account demo_contracts demo_view [(6, A_rcv_gate 0 100), (5, A_apply_doc [] 0 (Some 0))] s"
      "as_gate (ac_store s) = Some \<lparr>fg_attempt_id = 0, fg_until = 100\<rparr>" "as_recovery_rule (ac_store s) = Some 1" "ac_world s = demo_w1"
    using demo_frozen by blast
  obtain s' where s': "check_auth (demo_inv 7) demo_contracts 0 ?sg ?cx s = Inr s'"
    using s(2,3) by (simp add: check_auth_def names_reserved_def is_reserved_invoker_only_def RESERVED_INVOKER_ONLY_FNS_def is_completion_def
        demo_self is_frozen_def demo_contracts_simps Let_def)
  show ?thesis using frozen_account_only_completes [OF s(1) demo_account_laws demo_deployed s' s(2)] s' by auto
qed

text \<open>
  C15. Authorization data changes exactly one way. A successful entry point that changes the stored
  rules, their records, the applied document, the adopted controller, the recovery rule, the ZK
  factor, the revoked set or the enrolled ids is \<open>apply_doc\<close>, with the account's own authorization;
  and \<open>execute\<close> never calls an invoker-only hook.
\<close>

theorem only_apply_doc_changes_authorization:
  assumes "account_exec e X s c = Inr s'" "account_laws X view"
    and "\<not> same_authorization (ac_store s) (ac_store s') \<or> view (ac_world s') \<noteq> view (ac_world s) \<or>
      (\<exists>target f args. c = A_execute target f args \<and> is_reserved_invoker_only f)"
  shows "(\<exists>b u r. c = A_apply_doc b u r) \<and> an_auth e (an_self e)"
proof -
  have "\<exists>b u r. c = A_apply_doc b u r"
    using other_call_frame [OF assms(1)] assms by (auto simp: execute_def acct_fail_def result_simps split: if_splits)
  then obtain b u r dh where c: "c = A_apply_doc b u r" "account_apply e X b u r Mode_Cheapest s = Inr (dh, s')"
    using assms(1) by (auto simp: apply_doc_def)
  have "an_auth e (an_self e)" by (rule account_apply_Inr [OF c(2)]) (rule apply_checks_Inr(1))
  then show ?thesis using c(1) by blast
qed

text \<open>Witness of C15: the demo account's first document.\<close>

theorem only_apply_doc_changes_authorization_witness: "\<exists>b u r. A_apply_doc [] 0 (Some 0) = A_apply_doc b u r \<and> an_auth (demo_inv 5) (ContractId 1)"
proof -
  obtain s where s: "apply_doc (demo_inv 5) demo_contracts [] 0 (Some 0) demo_a0 = Inr (3, s)" "ac_store s = demo_a1" "ac_world s = demo_w1"
    using demo_applied by blast
  then have x: "account_exec (demo_inv 5) demo_contracts demo_a0 (A_apply_doc [] 0 (Some 0)) = Inr s" by simp
  have "\<not> same_authorization (ac_store demo_a0) (ac_store s)"
    using s(2) by (simp add: same_authorization_def demo_a0_def demo_a1_def empty_account_def)
  then show ?thesis using only_apply_doc_changes_authorization [OF x demo_account_laws] by (auto simp: demo_self)
qed

text \<open>
  C16. An upgrade waits its seven days. An upgrade executes only with the account's authorization, as
  the pending request under its own id, for the Wasm a \<open>schedule_upgrade\<close> call of the history named at
  least 7 * 17280 ledgers before, and only if the recovery generation is still the one of that call:
  no enrollment, reconfiguration, removal, completed recovery or other upgrade came between. It
  clears the request and advances generation and revision by one, and the ids of requests go on
  increasing.
\<close>

theorem executed_upgrade_waited:
  assumes "account_reach n X view h s" "execute_upgrade (invocation n t auth) X i s = Inr s'"
  shows "auth (an_self n) \<and>
    (\<exists>rq h1 t0 u h0 s0. as_pending_upgrade (ac_store s) = Some rq \<and> ur_request_id rq = i \<and>
       h = h1 @ (t0, A_schedule_upgrade (ur_wasm_hash rq) u) # h0 \<and> account_reach n X view h0 s0 \<and>
       next_upgrade_request_id (ac_store s0) = i \<and> unat t0 + 7 * 17280 \<le> unat t \<and> generation (ac_store s0) = generation (ac_store s)) \<and>
    as_pending_upgrade (ac_store s') = None \<and> unat (generation (ac_store s')) = unat (generation (ac_store s)) + 1 \<and>
    unat (revision (ac_store s')) = unat (revision (ac_store s)) + 1 \<and> unat i < unat (next_upgrade_request_id (ac_store s'))"
proof -
  obtain rq g r where x: "auth (an_self n)" "as_pending_upgrade (ac_store s) = Some rq" "ur_request_id rq = i"
      "ur_generation rq = generation (ac_store s)" "ur_executable_at rq \<le> t"
      "ac_store s' = (ac_store s)\<lparr>as_pending_upgrade := None, as_recovery_generation := Some g, as_revision := Some r\<rparr>"
      "unat g = unat (generation (ac_store s)) + 1" "unat r = unat (revision (ac_store s)) + 1"
    using execute_upgrade_Inr [OF assms(2)] by (metis invocation_simps(1-3))
  obtain h1 t0 u h0 s0 where p: "h = h1 @ (t0, A_schedule_upgrade (ur_wasm_hash rq) u) # h0" "account_reach n X view h0 s0"
      "generation (ac_store s0) = ur_generation rq" "next_upgrade_request_id (ac_store s0) = ur_request_id rq"
      "unat (ur_executable_at rq) = unat t0 + 7 * 17280" "unat (ur_request_id rq) < unat (next_upgrade_request_id (ac_store s))"
    using pending_scheduled [OF assms(1) x(2)] unfolding scheduled_at_def by blast
  have "unat t0 + 7 * 17280 \<le> unat t" using p(5) x(5) by (simp add: word_le_nat_alt)
  moreover have "next_upgrade_request_id (ac_store s') = next_upgrade_request_id (ac_store s)"
      "generation (ac_store s') = g" "revision (ac_store s') = r" "as_pending_upgrade (ac_store s') = None"
    using x(6) by (simp_all add: next_upgrade_request_id_def generation_def revision_def)
  ultimately show ?thesis using x(1-4,7,8) p by (intro conjI) (auto, blast)
qed

text \<open>Witness of C16: the demo upgrade, executed at ledger 200000.\<close>

theorem executed_upgrade_waited_witness:
  "\<exists>s s'. execute_upgrade (demo_inv 200000) demo_contracts 0 s = Inr s' \<and> as_pending_upgrade (ac_store s') = None \<and>
     unat (generation (ac_store s')) = unat (generation (ac_store s)) + 1"
proof -
  obtain s where s: "account_reach demo_account demo_contracts demo_view [(6, A_schedule_upgrade 9 0), (5, A_apply_doc [] 0 (Some 0))] s"
      "ac_store s = demo_a1\<lparr>as_next_upgrade_id := Some 1, as_pending_upgrade := Some demo_request\<rparr>"
    using demo_scheduled by blast
  obtain s' where s': "execute_upgrade (demo_inv 200000) demo_contracts 0 s = Inr s'" using demo_executed [OF s(2)] by blast
  then show ?thesis using executed_upgrade_waited [OF s(1) s'] by blast
qed

text \<open>Two completions of the same document from the same entries have the same effect.\<close>

lemma fingerprints_unique:
  "list_all2 (\<lambda>c f. g c = Inr f) cs fs \<Longrightarrow> list_all2 (\<lambda>c f. g c = Inr f) cs fs' \<Longrightarrow> fs = fs'"
  by (induction cs arbitrary: fs fs') (auto simp: list_all2_Cons1)

lemma completion_effect_unique:
  assumes "completion_effect e outcome c st st1" "completion_effect e outcome c st st2"
  shows "as_gate st1 = as_gate st2" "as_pending_upgrade st1 = as_pending_upgrade st2" "as_revoked st1 = as_revoked st2"
proof -
  have "as_gate st1 = as_gate st2 \<and> as_pending_upgrade st1 = as_pending_upgrade st2 \<and> as_revoked st1 = as_revoked st2"
  proof (cases outcome)
    case (Completed co)
    then obtain fs fs' where "list_all2 (\<lambda>c f. fingerprint (an_sha256 e) (an_xdr e) c = Inr f) (co_replaced co) fs"
        "list_all2 (\<lambda>c f. fingerprint (an_sha256 e) (an_xdr e) c = Inr f) (co_replaced co) fs'"
        "as_revoked st1 = (\<lambda>f. if f \<in> set (revocations fs (unwrap_or [] (as_applied_fingerprints st)) (cd_fingerprints c)) then Some True else as_revoked st f)"
        "as_revoked st2 = (\<lambda>f. if f \<in> set (revocations fs' (unwrap_or [] (as_applied_fingerprints st)) (cd_fingerprints c)) then Some True else as_revoked st f)"
      using assms by (auto simp: completion_effect_def)
    moreover from this have "fs = fs'" by (intro fingerprints_unique)
    ultimately show ?thesis using assms Completed by (simp add: completion_effect_def)
  qed (use assms in \<open>simp_all add: completion_effect_def\<close>)
  then show "as_gate st1 = as_gate st2" "as_pending_upgrade st1 = as_pending_upgrade st2" "as_revoked st1 = as_revoked st2" by simp_all
qed

lemma apply_same_entries:
  assumes "account_apply e X b u r m1 s = Inr (dh1, s1)" "account_apply e X b u r m2 s = Inr (dh2, s2)"
  shows "as_applied_doc_bytes (ac_store s1) = as_applied_doc_bytes (ac_store s2) \<and> as_applied_fingerprints (ac_store s1) = as_applied_fingerprints (ac_store s2)
      \<and> as_gate (ac_store s1) = as_gate (ac_store s2) \<and> as_revoked (ac_store s1) = as_revoked (ac_store s2)
      \<and> as_enrolled_ids (ac_store s1) = as_enrolled_ids (ac_store s2) \<and> as_pending_upgrade (ac_store s1) = as_pending_upgrade (ac_store s2)
      \<and> as_recovery_generation (ac_store s1) = as_recovery_generation (ac_store s2)
      \<and> as_next_upgrade_id (ac_store s1) = as_next_upgrade_id (ac_store s2) \<and> as_revision (ac_store s1) = as_revision (ac_store s2)"
proof (rule account_apply_Inr [OF assms(1)], rule account_apply_Inr [OF assms(2)], goal_cases)
  case (1 c outcome t1 delta t2 c' outcome' t1' delta' t2')
  have same: "c' = c" "outcome' = outcome" "t1' = t1" using 1(1,3,19,21) by simp_all
  obtain k i ct k' i' ct' where t2: "ac_store t2 = (ac_store t1)\<lparr>as_installed_rules := k, as_recovery_rule := i, as_recovery_controller := ct\<rparr>"
      "ac_store t2' = (ac_store t1)\<lparr>as_installed_rules := k', as_recovery_rule := i', as_recovery_controller := ct'\<rparr>"
    using apply_rules_Inr(2) [OF 1(4)] apply_rules_Inr(2) [OF 1(22)] same by blast
  have "completion_effect e outcome c (ac_store t2) (ac_store s2)"
    by (rule completion_effect_cong [OF 1(33) [unfolded same]]) (simp_all add: t2)
  note ce = completion_effect_unique [OF 1(15) this]
  have "revision (ac_store s1) = revision (ac_store s2)" using 1(16,34) t2 by (simp add: revision_def word_unat_eq_iff)
  then show ?case using 1(8,9,12-14,17,26,27,30-32,35) ce same by (simp add: t2 1(2,20) cong: if_cong option.case_cong)
qed

text \<open>
  C12. The delta is a full replacement. From any reachable state, applying a document by changing only
  the rules that differ (\<open>apply_doc\<close>) and by removing and re-adding every rule
  (\<open>apply_doc_full_replace\<close>, the oracle of the tests) return the same hash and leave the same stored
  rules, the same records and the same entries of the account, up to the ids OpenZeppelin gives the
  rules; each leaves the recovery rule's own id recorded.
\<close>

theorem delta_equals_full_replace:
  assumes "account_reach n X view h s" "account_laws X view" "account_deployed n X ce"
    and "apply_doc (invocation n t auth) X b u r s = Inr (dh1, s1)" "apply_doc_full_replace (invocation n t auth) X b u r s = Inr (dh2, s2)"
  shows "dh1 = dh2 \<and>
    stored_rules (params_digest (an_rules n)) view (ac_world s1) = stored_rules (params_digest (an_rules n)) view (ac_world s2) \<and>
    map erase_id (installed_rules (ac_store s1)) = map erase_id (installed_rules (ac_store s2)) \<and>
    ac_store s1 = (ac_store s2)\<lparr>as_installed_rules := as_installed_rules (ac_store s1), as_recovery_rule := as_recovery_rule (ac_store s1)\<rparr> \<and>
    list_all (\<lambda>x. as_recovery_rule (ac_store x) = map_option ir_id (find ir_recovery (installed_rules (ac_store x)))) [s1, s2]"
proof -
  let ?e = "invocation n t auth"
  have inv: "account_inv n X view h s" by (rule account_invariant [OF assms(2,3,1)])
  note a1 = assms(4) [unfolded apply_doc_def] and a2 = assms(5) [unfolded apply_doc_full_replace_def]
  obtain c where c: "ct_compile_doc X (an_doc_compiler n) b = Inr c" "cd_doc_hash c = dh1"
      "agrees (params_digest (an_rules n)) view (ac_world s1) (installed_rules (ac_store s1))"
      "applied_from n X ((t, A_apply_doc b u r) # h) c t (ac_store s1)"
    by (rule apply_installs [OF assms(2,3) inv a1])
  obtain c' where "ct_compile_doc X (an_doc_compiler n) b = Inr c'" "cd_doc_hash c' = dh2"
      "agrees (params_digest (an_rules n)) view (ac_world s2) (installed_rules (ac_store s2))"
      "applied_from n X ((t, A_apply_doc b u r) # h) c' t (ac_store s2)"
    by (rule apply_installs [OF assms(2,3) inv a2])
  then have c': "cd_doc_hash c = dh2" "agrees (params_digest (an_rules n)) view (ac_world s2) (installed_rules (ac_store s2))"
      "applied_from n X ((t, A_apply_doc b u r) # h) c t (ac_store s2)"
    using c(1) by auto
  have m: "map erase_id (installed_rules (ac_store s1)) = map erase_id (installed_rules (ac_store s2))"
    using c(4) c'(3) by (simp add: applied_from_def)
  have st: "stored_rules (params_digest (an_rules n)) view (ac_world x) =
      (\<lambda>r. (ir_name r, ir_context_type r, shape_of r)) ` set (map erase_id (installed_rules (ac_store x)))"
    if "agrees (params_digest (an_rules n)) view (ac_world x) (installed_rules (ac_store x))" for x
    unfolding agrees_stored [OF that] by (simp add: image_image)
  have fields: "as_applied_doc_bytes (ac_store s1) = as_applied_doc_bytes (ac_store s2) \<and> as_applied_fingerprints (ac_store s1) = as_applied_fingerprints (ac_store s2)
      \<and> as_gate (ac_store s1) = as_gate (ac_store s2) \<and> as_revoked (ac_store s1) = as_revoked (ac_store s2)
      \<and> as_enrolled_ids (ac_store s1) = as_enrolled_ids (ac_store s2) \<and> as_pending_upgrade (ac_store s1) = as_pending_upgrade (ac_store s2)
      \<and> as_recovery_generation (ac_store s1) = as_recovery_generation (ac_store s2)
      \<and> as_next_upgrade_id (ac_store s1) = as_next_upgrade_id (ac_store s2) \<and> as_revision (ac_store s1) = as_revision (ac_store s2)"
    by (rule apply_same_entries [OF a1 a2])
  have "ac_store s1 = (ac_store s2)\<lparr>as_installed_rules := as_installed_rules (ac_store s1), as_recovery_rule := as_recovery_rule (ac_store s1)\<rparr>"
    using fields c(4) c'(3) by (intro account_storage.equality) (simp_all add: applied_from_def)
  then show ?thesis
    using c(2,4) c' m st [OF c(3)] st [OF c'(2)] by (simp add: applied_from_def)
qed

text \<open>Witness of C12: the demo account's first document, both ways.\<close>

theorem delta_equals_full_replace_witness:
  "\<exists>s1 s2. apply_doc (demo_inv 5) demo_contracts [] 0 (Some 0) demo_a0 = Inr (3, s1) \<and>
     apply_doc_full_replace (demo_inv 5) demo_contracts [] 0 (Some 0) demo_a0 = Inr (3, s2) \<and>
     stored_rules (params_digest (an_rules demo_account)) demo_view (ac_world s1) =
       stored_rules (params_digest (an_rules demo_account)) demo_view (ac_world s2)"
proof -
  obtain s1 where s1: "apply_doc (demo_inv 5) demo_contracts [] 0 (Some 0) demo_a0 = Inr (3, s1)" using demo_applied by blast
  obtain s2 where s2: "apply_doc_full_replace (demo_inv 5) demo_contracts [] 0 (Some 0) demo_a0 = Inr (3, s2)" using demo_replaced by blast
  show ?thesis using delta_equals_full_replace [OF demo_reach0 demo_account_laws demo_deployed s1 s2] s1 s2 by blast
qed

lemma payload_id_contract: "xdr_laws xdr \<Longrightarrow> payload_id xdr (ContractId a) = bytes32_to_array a"
  by (simp add: payload_id_def address_payload_eq)

lemma bytes32_of_array [simp]: "bytes32_of (bytes32_to_array a) = a"
  by (simp add: bytes32_of_def)

text \<open>
  C37. A signature is for one account. When \<open>__check_auth\<close> accepts a payload, OpenZeppelin accepted the
  signatures over the digest that \<open>bind_signature_payload_for_account\<close> gives off-chain signers for this
  account and payload. If the digest of any account of the chain for any payload is that one, then it
  is the same account and the same payload, or the two bound preimages, which differ, are a
  collision of SHA-256.
\<close>

theorem bound_digest_identifies_account:
  assumes "check_auth e X p sg cx s = Inr s'" "xdr_laws (an_xdr e)"
    and "an_self e = ContractId a" "an_self e' = ContractId a'" "an_xdr e' = an_xdr e" "an_sha256 e' = an_sha256 e"
  shows "\<exists>d. ct_do_check_auth X d sg cx (ac_world s) = Some (ac_world s') \<and>
    d = bind_signature_payload_for_account (an_sha256 e) (an_xdr e) (ContractId a) p \<and>
    (bind_payload e' p' = d \<longrightarrow> a' = a \<and> p' = p \<or>
      account_auth_preimage (bytes32_to_array a') p' \<noteq> account_auth_preimage (bytes32_to_array a) p \<and>
      an_sha256 e (account_auth_preimage (bytes32_to_array a') p') = an_sha256 e (account_auth_preimage (bytes32_to_array a) p))"
proof -
  let ?pre = "\<lambda>a p. account_auth_preimage (bytes32_to_array a) p"
  have b: "bind_payload e p = an_sha256 e (?pre a p)" "bind_payload e' p' = an_sha256 e (?pre a' p')"
    using assms by (simp_all add: bind_payload_def payload_id_contract)
  have inj: "a' = a \<and> p' = p" if "?pre a' p' = ?pre a p"
    using that by (simp add: account_auth_preimage_def encode_simps)
  have "bind_payload e p = bind_signature_payload_for_account (an_sha256 e) (an_xdr e) (ContractId a) p"
    using b(1) assms(2) by (simp add: bind_signature_payload_for_account_def bind_signature_payload_def payload_id_contract)
  then show ?thesis
    using check_auth_Inr(1) [OF assms(1)] inj b by (intro exI [of _ "bind_payload e p"]) auto
qed

text \<open>Witness of C37: an authorization by the new demo account.\<close>

theorem bound_digest_identifies_account_witness:
  "\<exists>s s'. check_auth demo_account demo_contracts 4 \<lparr>pl_context_rule_ids = [0], pl_signers = []\<rparr> [] s = Inr s' \<and>
     ct_do_check_auth demo_contracts (bind_signature_payload_for_account (an_sha256 demo_account) demo_xdr (ContractId 1) 4)
       \<lparr>pl_context_rule_ids = [0], pl_signers = []\<rparr> [] (ac_world s) = Some (ac_world s')"
proof -
  have c: "check_auth demo_account demo_contracts 4 \<lparr>pl_context_rule_ids = [0], pl_signers = []\<rparr> [] demo_a0 = Inr demo_a0"
    by (simp add: check_auth_def demo_a0_simps empty_account_def demo_contracts_simps demo_a0_def)
  show ?thesis
    using bound_digest_identifies_account [OF c, of 1 demo_account 1 4] c demo_xdr_laws by (auto simp: demo_self)
qed

end
