(* ===== verification/Deploy_Client.thy ===== *)
theory Deploy_Client
  imports Account_Safety Interpreter
begin

text \<open>
  The deployment client (\<open>crates/perch-deploy\<close>): the values it sends (\<open>scv.rs\<close>), its keys
  (\<open>keys.rs\<close>), the signing of authorization entries (\<open>auth.rs\<close>), the write and read paths over RPC
  (\<open>tx.rs\<close>) and the publishing of code (\<open>publish.rs\<close>). XDR, base64, strkeys, SHA-256 and Ed25519 are
  the fields of \<open>client_env\<close>; the RPC server is \<open>rpc\<close>, whose answers may differ from call to call:
  a function of the number of the call. A failure is an \<open>anyhow::Error\<close>, here \<open>client_error\<close>.
\<close>

section \<open>Values (scv.rs)\<close>

text \<open>\<open>ScVal\<close>, with the variants the client builds or inspects; every other one is \<open>SV_Other\<close>.\<close>

datatype scval =
    SV_Void | SV_Bool bool | SV_U32 u32 | SV_U64 u64 | SV_Bytes bytes | SV_String string | SV_Symbol string
  | SV_Address address | SV_Vec "scval list option" | SV_Map "(scval \<times> scval) list option" | SV_Other nat

datatype client_error =
    CE_TooLong | CE_NotContractStrkey | CE_NotAddressStrkey | CE_NotContractAddress | CE_Panic | CE_Rpc | CE_Xdr
  | CE_SourceCredential | CE_NonContractAccount | CE_NotPlainAddress | CE_NoOperation | CE_NotInvoke
  | CE_Simulation string | CE_UnexpectedCredential | CE_EntryCount nat | CE_NotTheAccount | CE_NoTransactionData
  | CE_FeeOverflow | CE_TransactionFailed string | CE_TimedOut | CE_NoResult | CE_HashMismatch bytes32 | CE_UnexpectedTrap
  | CE_BadHash | CE_DocParse | CE_DocInvalid | CE_Compile | CE_Divergence | CE_AdminConstrained | CE_ManyAdmins
  | CE_WrongAccount | CE_WrongInterpreter | CE_BadShape | CE_Trapped | CE_Moved u64 u64 | CE_VerificationFailed
  | CE_WrongNetwork | CE_NoAdminRule | CE_NoSigner

abbreviation XDR_MAX :: nat where "XDR_MAX \<equiv> 4294967295"

definition sized :: "nat \<Rightarrow> 'a list \<Rightarrow> client_error + 'a list" where
  "sized n xs = and_then (require (length xs \<le> n) CE_TooLong) (\<lambda>_. Inr xs)"

definition scv_sym :: "string \<Rightarrow> client_error + scval" where
  "scv_sym s = and_then (sized 32 s) (\<lambda>s. Inr (SV_Symbol s))"

definition scv_string :: "string \<Rightarrow> client_error + scval" where
  "scv_string s = and_then (sized XDR_MAX s) (\<lambda>s. Inr (SV_String s))"

definition scv_bytes :: "bytes \<Rightarrow> client_error + scval" where
  "scv_bytes b = and_then (sized XDR_MAX b) (\<lambda>b. Inr (SV_Bytes b))"

definition scv_vec :: "scval list \<Rightarrow> client_error + scval" where
  "scv_vec items = and_then (sized XDR_MAX items) (\<lambda>v. Inr (SV_Vec (Some v)))"

definition scv_map :: "(scval \<times> scval) list \<Rightarrow> client_error + scval" where
  "scv_map entries = and_then (sized XDR_MAX entries) (\<lambda>m. Inr (SV_Map (Some m)))"

text \<open>\<open>Strkey::from_string\<close>, for the kinds the client accepts: contracts and accounts.\<close>

type_synonym strkeys = "string \<Rightarrow> address option"

definition scv_contract :: "strkeys \<Rightarrow> string \<Rightarrow> client_error + address" where
  "scv_contract k s = (case k s of Some (ContractId c) \<Rightarrow> Inr (ContractId c) | _ \<Rightarrow> Inl CE_NotContractStrkey)"

definition scv_address :: "strkeys \<Rightarrow> string \<Rightarrow> client_error + scval" where
  "scv_address k s = and_then (scv_contract k s) (\<lambda>a. Inr (SV_Address a))"

definition scv_any_address :: "strkeys \<Rightarrow> string \<Rightarrow> client_error + scval" where
  "scv_any_address k s =
     (case k s of
        Some (ContractId c) \<Rightarrow> Inr (SV_Address (ContractId c))
      | Some (AccountId a) \<Rightarrow> Inr (SV_Address (AccountId a))
      | _ \<Rightarrow> Inl CE_NotAddressStrkey)"

definition address_to_string :: "(address \<Rightarrow> string) \<Rightarrow> scval \<Rightarrow> client_error + string" where
  "address_to_string text v =
     (case v of SV_Address (ContractId h) \<Rightarrow> Inr (text (ContractId h)) | _ \<Rightarrow> Inl CE_NotContractAddress)"

text \<open>The first entry under a symbol; symbols hold ASCII, which the lossy conversion keeps.\<close>

fun map_get :: "(scval \<times> scval) list \<Rightarrow> string \<Rightarrow> scval option" where
  "map_get [] key = None"
| "map_get ((k, v) # m) key = (if k = SV_Symbol key then Some v else map_get m key)"

section \<open>Keys (keys.rs) and the environment\<close>

record seed_key =
  sk_signing :: bytes32
  sk_public :: bytes32

datatype 'i hash_preimage =
    HP_Authorization bytes32 int u32 'i
  | HP_AuthorizationWithAddress bytes32 int u32 'i address

record 'i client_env =
  cl_strkey :: strkeys
  cl_strkey_text :: "address \<Rightarrow> string"
  cl_sha256 :: "bytes \<Rightarrow> bytes32"
  cl_scval_xdr :: "scval \<Rightarrow> bytes"
  cl_preimage_xdr :: "'i hash_preimage \<Rightarrow> bytes"
  cl_verifying_key :: "bytes32 \<Rightarrow> bytes32"
  cl_sign :: "bytes32 \<Rightarrow> bytes \<Rightarrow> bytes"

definition from_seed :: "'i client_env \<Rightarrow> bytes32 \<Rightarrow> seed_key" where
  "from_seed c seed = \<lparr>sk_signing = seed, sk_public = cl_verifying_key c seed\<rparr>"

definition key_account :: "'i client_env \<Rightarrow> seed_key \<Rightarrow> string" where
  "key_account c key = cl_strkey_text c (AccountId (sk_public key))"

section \<open>Authorization entries (auth.rs)\<close>

record address_credentials =
  ad_address :: address
  ad_nonce :: int
  ad_expiration :: u32
  ad_signature :: scval

datatype delegate_signature = Delegate_Signature address scval "delegate_signature list"

datatype credentials =
    SC_SourceAccount
  | SC_Address address_credentials
  | SC_AddressV2 address_credentials
  | SC_AddressWithDelegates address_credentials "delegate_signature list"

record 'i auth_entry =
  en_credentials :: credentials
  en_root_invocation :: 'i

definition passphrase_id :: "'i client_env \<Rightarrow> string \<Rightarrow> bytes32" where
  "passphrase_id c passphrase = cl_sha256 c (str_bytes_of passphrase)"

definition oz_auth_digest :: "'i client_env \<Rightarrow> bytes32 \<Rightarrow> u32 list \<Rightarrow> client_error + bytes32" where
  "oz_auth_digest c payload rule_ids =
     and_then (scv_vec (map SV_U32 rule_ids)) (\<lambda>ids.
     Inr (cl_sha256 c (bytes32_to_array payload @ cl_scval_xdr c ids)))"

definition CLIENT_AUTH_ADDR_DOMAIN :: bytes where
  "CLIENT_AUTH_ADDR_DOMAIN = str_bytes_of ''perch/account/auth-addr-v1''"

definition perch_auth_digest :: "'i client_env \<Rightarrow> bytes32 \<Rightarrow> bytes32 \<Rightarrow> u32 list \<Rightarrow> client_error + bytes32" where
  "perch_auth_digest c account_id payload rule_ids =
     (let preimage = CLIENT_AUTH_ADDR_DOMAIN @ bytes32_to_array account_id @ bytes32_to_array payload;
          bound = cl_sha256 c preimage
      in oz_auth_digest c bound rule_ids)"

definition external_signer :: "'i client_env \<Rightarrow> string \<Rightarrow> bytes \<Rightarrow> client_error + scval" where
  "external_signer c verifier key =
     and_then (scv_sym ''External'') (\<lambda>tag.
     and_then (scv_address (cl_strkey c) verifier) (\<lambda>v.
     and_then (scv_bytes key) (\<lambda>k. scv_vec [tag, v, k])))"

definition call_contract_context :: "strkeys \<Rightarrow> string \<Rightarrow> client_error + scval" where
  "call_contract_context k addr =
     and_then (scv_sym ''CallContract'') (\<lambda>tag. and_then (scv_address k addr) (\<lambda>a. scv_vec [tag, a]))"

definition delegated_signer :: "'i client_env \<Rightarrow> string \<Rightarrow> client_error + scval" where
  "delegated_signer c addr =
     and_then (scv_sym ''Delegated'') (\<lambda>tag. and_then (scv_any_address (cl_strkey c) addr) (\<lambda>a. scv_vec [tag, a]))"

text \<open>\<open>AuthPayload\<close> with one signer, in the key order of its \<open>contracttype\<close> encoding.\<close>

definition payload_map :: "scval \<Rightarrow> scval \<Rightarrow> client_error + scval" where
  "payload_map ids signers =
     and_then (scv_sym ''context_rule_ids'') (\<lambda>k1. and_then (scv_sym ''signers'') (\<lambda>k2. scv_map [(k1, ids), (k2, signers)]))"

definition auth_payload_scval :: "'i client_env \<Rightarrow> string \<Rightarrow> bytes32 \<Rightarrow> bytes \<Rightarrow> u32 \<Rightarrow> client_error + scval" where
  "auth_payload_scval c verifier pubkey sig rule_id =
     and_then (scv_vec [SV_U32 rule_id]) (\<lambda>ids.
     and_then (external_signer c verifier (bytes32_to_array pubkey)) (\<lambda>signer.
     and_then (scv_bytes sig) (\<lambda>b.
     and_then (scv_map [(signer, b)]) (\<lambda>signers. payload_map ids signers))))"

definition signature_payload :: "'i client_env \<Rightarrow> string \<Rightarrow> int \<Rightarrow> u32 \<Rightarrow> 'i \<Rightarrow> bytes32" where
  "signature_payload c passphrase nonce expiration root =
     cl_sha256 c (cl_preimage_xdr c (HP_Authorization (passphrase_id c passphrase) nonce expiration root))"

definition signature_payload_with_address :: "'i client_env \<Rightarrow> string \<Rightarrow> int \<Rightarrow> u32 \<Rightarrow> 'i \<Rightarrow> address \<Rightarrow> bytes32" where
  "signature_payload_with_address c passphrase nonce expiration root a =
     cl_sha256 c (cl_preimage_xdr c
       (HP_AuthorizationWithAddress (passphrase_id c passphrase) nonce expiration root a))"

definition account_signature_scval :: "bytes32 \<Rightarrow> bytes \<Rightarrow> client_error + scval" where
  "account_signature_scval pubkey sig =
     and_then (scv_sym ''public_key'') (\<lambda>k1. and_then (scv_bytes (bytes32_to_array pubkey)) (\<lambda>p.
     and_then (scv_sym ''signature'') (\<lambda>k2. and_then (scv_bytes sig) (\<lambda>g.
     and_then (scv_map [(k1, p), (k2, g)]) (\<lambda>m. scv_vec [m])))))"

definition delegated_auth_payload_scval :: "'i client_env \<Rightarrow> string \<Rightarrow> u32 \<Rightarrow> client_error + scval" where
  "delegated_auth_payload_scval c delegate rule_id =
     and_then (scv_vec [SV_U32 rule_id]) (\<lambda>ids.
     and_then (delegated_signer c delegate) (\<lambda>signer.
     and_then (scv_bytes []) (\<lambda>b.
     and_then (scv_map [(signer, b)]) (\<lambda>signers. payload_map ids signers))))"

text \<open>\<open>g_address\<close>: \<open>any_address\<close> returns an address, so its other branch is unreachable.\<close>

definition g_address :: "'i client_env \<Rightarrow> string \<Rightarrow> client_error + address" where
  "g_address c s =
     and_then (scv_any_address (cl_strkey c) s) (\<lambda>v. case v of SV_Address a \<Rightarrow> Inr a | _ \<Rightarrow> Inl CE_Panic)"

definition sign_delegated_auth_entry :: "'i client_env \<Rightarrow> 'i auth_entry \<Rightarrow> string \<Rightarrow> u32 \<Rightarrow> seed_key \<Rightarrow> u32
    \<Rightarrow> client_error + 'i auth_entry" where
  "sign_delegated_auth_entry c entry passphrase expiration key rule_id =
     (case en_credentials entry of
        SC_Address creds \<Rightarrow>
          (let delegate_g = key_account c key;
               payload = signature_payload_with_address c passphrase (ad_nonce creds) expiration
                 (en_root_invocation entry) (ad_address creds);
               sig = cl_sign c (sk_signing key) (bytes32_to_array payload)
           in and_then (delegated_auth_payload_scval c delegate_g rule_id) (\<lambda>signature.
              and_then (g_address c delegate_g) (\<lambda>g.
              and_then (account_signature_scval (sk_public key) sig) (\<lambda>account_sig.
              Inr (entry\<lparr>en_credentials := SC_AddressWithDelegates
                   (creds\<lparr>ad_expiration := expiration, ad_signature := signature\<rparr>)
                   [Delegate_Signature g account_sig []]\<rparr>)))))
      | _ \<Rightarrow> Inl CE_NotPlainAddress)"

definition sign_auth_entry :: "'i client_env \<Rightarrow> 'i auth_entry \<Rightarrow> string \<Rightarrow> u32 \<Rightarrow> seed_key \<Rightarrow> string \<Rightarrow> u32
    \<Rightarrow> client_error + 'i auth_entry" where
  "sign_auth_entry c entry passphrase expiration key verifier rule_id =
     (case en_credentials entry of
        SC_Address creds \<Rightarrow>
          (case ad_address creds of
             ContractId account_id \<Rightarrow>
               (let payload = signature_payload c passphrase (ad_nonce creds) expiration (en_root_invocation entry)
                in and_then (perch_auth_digest c account_id payload [rule_id]) (\<lambda>digest.
                   let sig = cl_sign c (sk_signing key) (bytes32_to_array digest)
                   in and_then (auth_payload_scval c verifier (sk_public key) sig rule_id) (\<lambda>signature.
                      Inr (entry\<lparr>en_credentials :=
                        SC_Address (creds\<lparr>ad_expiration := expiration, ad_signature := signature\<rparr>)\<rparr>))))
           | _ \<Rightarrow> Inl CE_NonContractAccount)
      | _ \<Rightarrow> Inl CE_SourceCredential)"

section \<open>Transactions and RPC (tx.rs)\<close>

record invoke_spec =
  is_contract :: string
  is_func :: string
  is_args :: "scval list"

datatype auth_mode = AM_External string | AM_Delegated

record auth_spec =
  au_mode :: auth_mode
  au_rule_id :: u32
  au_account :: string

record submitted =
  sb_tx_hash :: string
  sb_ledger :: u32

datatype host_function = HF_InvokeContract address string "scval list" | HF_UploadContractWasm bytes

datatype 'i operation = OB_InvokeHostFunction host_function "'i auth_entry list" | OB_Other nat

text \<open>Memo, preconditions and the operation's source are constants of the code and not kept.\<close>

record 'i transaction =
  tx_source_account :: bytes32
  tx_fee :: u32
  tx_seq_num :: int
  tx_operations :: "'i operation list"
  tx_ext :: "bytes option"

record 'i envelope =
  el_tx :: "'i transaction"
  el_signatures :: "(bytes \<times> bytes) list"

text \<open>The fields of a simulation the flows read; \<open>rpc.rs\<close> extracts them from JSON.\<close>

record simulation =
  sm_error :: "string option"
  sm_transaction_data :: "string option"
  sm_min_resource_fee :: u64
  sm_auth :: "string list"
  sm_result_xdr :: "string option"
  sm_latest_ledger :: u32

datatype tx_status = TS_NotFound | TS_Success u32 | TS_Failed string

text \<open>
  The server, with the decoding of what it returns. \<open>rq_simulate k\<close> is the answer to the client's
  \<open>k\<close>-th simulation, of a transaction whose envelope it is sent; \<open>rq_get_transaction k\<close> the \<open>k\<close>-th
  poll and \<open>rq_clock k\<close> the time in milliseconds at which that poll compares it with the deadline,
  from the start of the polling. \<open>None\<close> is a failed request or text that does not decode.
\<close>

record 'i rpc =
  rq_account_seq :: "bytes32 \<Rightarrow> int option"
  rq_simulate :: "nat \<Rightarrow> 'i transaction \<Rightarrow> simulation option"
  rq_send :: "'i envelope \<Rightarrow> string option"
  rq_get_transaction :: "nat \<Rightarrow> string \<Rightarrow> tx_status option"
  rq_clock :: "nat \<Rightarrow> nat"
  rq_entry :: "string \<Rightarrow> 'i auth_entry option"
  rq_soroban_data :: "string \<Rightarrow> bytes option"
  rq_scval :: "string \<Rightarrow> scval option"
  rq_tx_xdr :: "bytes32 \<Rightarrow> 'i transaction \<Rightarrow> bytes"

definition build_tx :: "'i client_env \<Rightarrow> bytes32 \<Rightarrow> int \<Rightarrow> invoke_spec \<Rightarrow> client_error + 'i transaction" where
  "build_tx c source seq spec =
     and_then (scv_contract (cl_strkey c) (is_contract spec)) (\<lambda>contract.
     and_then (sized 32 (is_func spec)) (\<lambda>func.
     and_then (sized XDR_MAX (is_args spec)) (\<lambda>args.
     Inr \<lparr>tx_source_account = source, tx_fee = 100, tx_seq_num = seq,
          tx_operations = [OB_InvokeHostFunction (HF_InvokeContract contract func args) []], tx_ext = None\<rparr>)))"

definition set_auth :: "'i transaction \<Rightarrow> 'i auth_entry list \<Rightarrow> client_error + 'i transaction" where
  "set_auth tx auth =
     (case tx_operations tx of
        [] \<Rightarrow> Inl CE_NoOperation
      | op # _ \<Rightarrow>
          (case op of
             OB_InvokeHostFunction f _ \<Rightarrow>
               and_then (sized XDR_MAX auth) (\<lambda>auth. Inr (tx\<lparr>tx_operations := [OB_InvokeHostFunction f auth]\<rparr>))
           | OB_Other _ \<Rightarrow> Inl CE_NotInvoke))"

text \<open>The envelope and the transaction's hash, of which the client only compares the text with the server's.\<close>

definition sign_envelope :: "'i client_env \<Rightarrow> 'i rpc \<Rightarrow> 'i transaction \<Rightarrow> string \<Rightarrow> seed_key \<Rightarrow> client_error + 'i envelope \<times> bytes32" where
  "sign_envelope c r tx passphrase payer =
     (let hash = cl_sha256 c (rq_tx_xdr r (passphrase_id c passphrase) tx);
          sig = cl_sign c (sk_signing payer) (bytes32_to_array hash)
      in and_then (sized 64 sig) (\<lambda>sig.
         Inr (\<lparr>el_tx = tx, el_signatures = [(drop 28 (bytes32_to_array (sk_public payer)), sig)]\<rparr>, hash)))"

text \<open>Address credentials and source-account credentials, in the order of the simulation.\<close>

fun split_entries :: "('i auth_entry list \<times> 'i auth_entry list) \<Rightarrow> 'i rpc \<Rightarrow> string list
    \<Rightarrow> client_error + 'i auth_entry list \<times> 'i auth_entry list" where
  "split_entries acc r [] = Inr acc"
| "split_entries (address_entries, source_entries) r (b64 # rest) =
     and_then (ok_or (rq_entry r b64) CE_Xdr) (\<lambda>entry.
     case en_credentials entry of
       SC_Address _ \<Rightarrow> split_entries (address_entries @ [entry], source_entries) r rest
     | SC_SourceAccount \<Rightarrow> split_entries (address_entries, source_entries @ [entry]) r rest
     | _ \<Rightarrow> Inl CE_UnexpectedCredential)"

definition checked_simulation :: "'i rpc \<Rightarrow> nat \<Rightarrow> 'i transaction \<Rightarrow> client_error + simulation" where
  "checked_simulation r k tx =
     and_then (ok_or (rq_simulate r k tx) CE_Rpc) (\<lambda>sim.
     case sm_error sim of Some e \<Rightarrow> Inl (CE_Simulation e) | None \<Rightarrow> Inr sim)"

text \<open>\<open>100 + ceil(1.15 * fee)\<close>: the products are checked at 64 bits, the result fits 32 bits.\<close>

definition padded_fee :: "u64 \<Rightarrow> client_error + u32" where
  "padded_fee min_fee =
     (if unat min_fee * 115 \<ge> 2 ^ 64 then Inl CE_Panic
      else let fee = 100 + (unat min_fee * 115 + 99) div 100
           in if fee < 2 ^ 32 then Inr (word_of_nat fee) else Inl CE_FeeOverflow)"

definition with_resources :: "'i rpc \<Rightarrow> simulation \<Rightarrow> 'i transaction \<Rightarrow> client_error + 'i transaction" where
  "with_resources r sim tx =
     and_then (ok_or (sm_transaction_data sim) CE_NoTransactionData) (\<lambda>td.
     and_then (ok_or (rq_soroban_data r td) CE_Xdr) (\<lambda>data.
     and_then (padded_fee (sm_min_resource_fee sim)) (\<lambda>fee.
     Inr (tx\<lparr>tx_fee := fee, tx_ext := Some data\<rparr>))))"

definition sequence_of :: "'i rpc \<Rightarrow> seed_key \<Rightarrow> client_error + int" where
  "sequence_of r payer =
     and_then (ok_or (rq_account_seq r (sk_public payer)) CE_Rpc) (\<lambda>seq.
     and_then (require (seq + 1 < 2 ^ 63) CE_Panic) (\<lambda>_. Inr (seq + 1)))"

text \<open>\<open>run_signed\<close> up to the prepared transaction: simulations \<open>k\<close> and \<open>k + 1\<close>.\<close>

definition sign_entry :: "'i client_env \<Rightarrow> string \<Rightarrow> seed_key \<Rightarrow> auth_spec \<Rightarrow> u32 \<Rightarrow> 'i auth_entry \<Rightarrow> client_error + 'i auth_entry" where
  "sign_entry c passphrase payer spec expiration entry =
     (case au_mode spec of
        AM_External verifier \<Rightarrow> sign_auth_entry c entry passphrase expiration payer verifier (au_rule_id spec)
      | AM_Delegated \<Rightarrow> sign_delegated_auth_entry c entry passphrase expiration payer (au_rule_id spec))"

definition pick_entry :: "'i client_env \<Rightarrow> auth_spec \<Rightarrow> 'i auth_entry list \<Rightarrow> client_error + 'i auth_entry" where
  "pick_entry c auth entries =
     (case entries of
        [entry] \<Rightarrow>
          and_then (scv_contract (cl_strkey c) (au_account auth)) (\<lambda>expected.
          case en_credentials entry of
            SC_Address creds \<Rightarrow> (if ad_address creds \<noteq> expected then Inl CE_NotTheAccount else Inr entry)
          | _ \<Rightarrow> Inr entry)
      | _ \<Rightarrow> Inl (CE_EntryCount (length entries)))"

definition prepare_signed :: "'i client_env \<Rightarrow> 'i rpc \<Rightarrow> nat \<Rightarrow> string \<Rightarrow> seed_key \<Rightarrow> auth_spec \<Rightarrow> invoke_spec
    \<Rightarrow> client_error + 'i transaction" where
  "prepare_signed c r k passphrase payer auth spec =
     and_then (sequence_of r payer) (\<lambda>seq.
     and_then (build_tx c (sk_public payer) seq spec) (\<lambda>tx.
     and_then (checked_simulation r k tx) (\<lambda>sim1.
     and_then (split_entries ([], []) r (sm_auth sim1)) (\<lambda>(address_entries, source_entries).
     and_then (pick_entry c auth address_entries) (\<lambda>entry.
     and_then (ok_or (checked_add (sm_latest_ledger sim1) 120) CE_Panic) (\<lambda>expiration.
     and_then (sign_entry c passphrase payer auth expiration entry) (\<lambda>entry.
     and_then (set_auth tx (entry # source_entries)) (\<lambda>tx.
     and_then (checked_simulation r (Suc k) tx) (\<lambda>sim2. with_resources r sim2 tx)))))))))"

text \<open>The polling loop of \<open>submit\<close>: it sleeps two seconds after every poll that finds nothing.\<close>

partial_function (option) poll :: "'i rpc \<Rightarrow> string \<Rightarrow> nat \<Rightarrow> nat \<Rightarrow> (client_error + submitted) option" where
  "poll r hash deadline k =
     (case rq_get_transaction r k hash of
        None \<Rightarrow> Some (Inl CE_Rpc)
      | Some (TS_Success ledger) \<Rightarrow> Some (Inr \<lparr>sb_tx_hash = hash, sb_ledger = ledger\<rparr>)
      | Some (TS_Failed result_xdr) \<Rightarrow> Some (Inl (CE_TransactionFailed result_xdr))
      | Some TS_NotFound \<Rightarrow> if deadline \<le> rq_clock r k then Some (Inl CE_TimedOut) else poll r hash deadline (Suc k))"

definition submit :: "'i client_env \<Rightarrow> 'i rpc \<Rightarrow> 'i transaction \<Rightarrow> string \<Rightarrow> seed_key \<Rightarrow> (client_error + submitted) option" where
  "submit c r tx passphrase payer =
     (case sign_envelope c r tx passphrase payer of
        Inl e \<Rightarrow> Some (Inl e)
      | Inr (envelope, _) \<Rightarrow>
          (case rq_send r envelope of None \<Rightarrow> Some (Inl CE_Rpc) | Some hash \<Rightarrow> poll r hash 60000 0))"

definition run_signed :: "'i client_env \<Rightarrow> 'i rpc \<Rightarrow> nat \<Rightarrow> string \<Rightarrow> seed_key \<Rightarrow> auth_spec \<Rightarrow> invoke_spec \<Rightarrow> bool
    \<Rightarrow> (client_error + submitted option) option" where
  "run_signed c r k passphrase payer auth spec dry_run =
     (case prepare_signed c r k passphrase payer auth spec of
        Inl e \<Rightarrow> Some (Inl e)
      | Inr tx \<Rightarrow> if dry_run then Some (Inr None)
                  else map_option (map_sum id Some) (submit c r tx passphrase payer))"

definition build_upload_tx :: "bytes32 \<Rightarrow> int \<Rightarrow> bytes \<Rightarrow> client_error + 'i transaction" where
  "build_upload_tx source seq wasm =
     and_then (sized XDR_MAX wasm) (\<lambda>wasm.
     Inr \<lparr>tx_source_account = source, tx_fee = 100, tx_seq_num = seq,
          tx_operations = [OB_InvokeHostFunction (HF_UploadContractWasm wasm) []], tx_ext = None\<rparr>)"

definition prepare_upload :: "'i client_env \<Rightarrow> 'i rpc \<Rightarrow> nat \<Rightarrow> seed_key \<Rightarrow> bytes \<Rightarrow> client_error + 'i transaction" where
  "prepare_upload c r k payer wasm =
     and_then (sequence_of r payer) (\<lambda>seq.
     and_then (build_upload_tx (sk_public payer) seq wasm) (\<lambda>tx.
     and_then (checked_simulation r k tx) (\<lambda>sim. with_resources r sim tx)))"

definition run_upload :: "'i client_env \<Rightarrow> 'i rpc \<Rightarrow> nat \<Rightarrow> string \<Rightarrow> seed_key \<Rightarrow> bytes \<Rightarrow> bool \<Rightarrow> (client_error + bytes32) option" where
  "run_upload c r k passphrase payer wasm dry_run =
     (let hash = cl_sha256 c wasm
      in case prepare_upload c r k payer wasm of
           Inl e \<Rightarrow> Some (Inl e)
         | Inr tx \<Rightarrow> if dry_run then Some (Inr hash)
                     else map_option (map_sum id (\<lambda>_. hash)) (submit c r tx passphrase payer))"

datatype read_outcome = RO_Value scval | RO_ContractError "u32 option" string

text \<open>\<open>str::split_once\<close> and \<open>str::contains\<close>.\<close>

fun split_once :: "string \<Rightarrow> string \<Rightarrow> (string \<times> string) option" where
  "split_once p s =
     (if take (length p) s = p then Some ([], drop (length p) s)
      else case s of [] \<Rightarrow> None | ch # cs \<Rightarrow> map_option (\<lambda>(a, b). (ch # a, b)) (split_once p cs))"

definition contains :: "string \<Rightarrow> string \<Rightarrow> bool" where
  "contains p s \<longleftrightarrow> split_once p s \<noteq> None"

definition contract_error_code :: "string \<Rightarrow> u32 option" where
  "contract_error_code message =
     (case split_once ''Error(Contract, #'' message of
        None \<Rightarrow> None
      | Some (_, rest) \<Rightarrow> parse_unsigned (takeWhile (char_in (CHR ''0'') (CHR ''9'')) rest))"

definition simulate_read :: "'i client_env \<Rightarrow> 'i rpc \<Rightarrow> nat \<Rightarrow> string \<Rightarrow> string \<Rightarrow> scval list \<Rightarrow> client_error + read_outcome" where
  "simulate_read c r k contract func args =
     and_then (build_tx c 0 0 \<lparr>is_contract = contract, is_func = func, is_args = args\<rparr>) (\<lambda>tx.
     and_then (ok_or (rq_simulate r k tx) CE_Rpc) (\<lambda>sim.
     case sm_error sim of
       Some e \<Rightarrow> (if contains ''Error(Contract'' e then Inr (RO_ContractError (contract_error_code e) e)
                  else Inl (CE_Simulation e))
     | None \<Rightarrow>
         and_then (ok_or (sm_result_xdr sim) CE_NoResult) (\<lambda>xdr.
         and_then (ok_or (rq_scval r xdr) CE_Xdr) (\<lambda>v. Inr (RO_Value v)))))"

section \<open>Publishing (publish.rs)\<close>

record publish_args =
  pa_wasm_name :: string
  pa_binver :: string
  pa_registry :: string
  pa_author :: string
  pa_verifier :: "string option"
  pa_rule_id :: u32
  pa_dry_run :: bool
  pa_inline_max_bytes :: u64

definition NO_SUCH_WASM_PUBLISHED :: u32 where "NO_SUCH_WASM_PUBLISHED = 1"
definition NO_SUCH_VERSION :: u32 where "NO_SUCH_VERSION = 2"

datatype preflight = PF_AlreadyPublished | PF_Proceed | PF_HashMismatch bytes32 | PF_UnexpectedTrap

definition preflight_decision :: "read_outcome \<Rightarrow> bytes32 \<Rightarrow> preflight" where
  "preflight_decision outcome local_hash =
     (case outcome of
        RO_ContractError code _ \<Rightarrow>
          (if code = Some NO_SUCH_WASM_PUBLISHED \<or> code = Some NO_SUCH_VERSION then PF_Proceed else PF_UnexpectedTrap)
      | RO_Value (SV_Bytes b) \<Rightarrow>
          (if length b = 32
           then if bytes32_of b = local_hash then PF_AlreadyPublished else PF_HashMismatch (bytes32_of b)
           else PF_UnexpectedTrap)
      | RO_Value _ \<Rightarrow> PF_UnexpectedTrap)"

text \<open>\<open>PO_Published\<close> carries what the receipt is made of. \<open>key\<close> is \<open>SeedKey::from_env\<close>.\<close>

datatype publish_outcome = PO_AlreadyPublished | PO_DryRun | PO_Published submitted

definition publish_spec :: "'i client_env \<Rightarrow> publish_args \<Rightarrow> string \<Rightarrow> bytes \<Rightarrow> client_error + invoke_spec" where
  "publish_spec c a func body =
     and_then (scv_string (pa_wasm_name a)) (\<lambda>name.
     and_then (scv_address (cl_strkey c) (pa_author a)) (\<lambda>author.
     and_then (scv_bytes body) (\<lambda>b.
     and_then (scv_string (pa_binver a)) (\<lambda>ver.
     Inr \<lparr>is_contract = pa_registry a, is_func = func, is_args = [name, author, b, ver]\<rparr>))))"

definition publish_auth :: "publish_args \<Rightarrow> auth_spec" where
  "publish_auth a =
     \<lparr>au_mode = (case pa_verifier a of Some v \<Rightarrow> AM_External v | None \<Rightarrow> AM_Delegated),
      au_rule_id = pa_rule_id a, au_account = pa_author a\<rparr>"

definition publish_preflight :: "'i client_env \<Rightarrow> 'i rpc \<Rightarrow> publish_args \<Rightarrow> bytes32 \<Rightarrow> client_error + preflight" where
  "publish_preflight c r a local_hash =
     and_then (scv_string (pa_wasm_name a)) (\<lambda>name.
     and_then (scv_string (pa_binver a)) (\<lambda>ver.
     and_then (simulate_read c r 0 (pa_registry a) ''fetch_hash'' [name, ver]) (\<lambda>outcome.
     Inr (preflight_decision outcome local_hash))))"

definition publish_call :: "'i client_env \<Rightarrow> 'i rpc \<Rightarrow> nat \<Rightarrow> string \<Rightarrow> publish_args \<Rightarrow> seed_key \<Rightarrow> client_error + invoke_spec
    \<Rightarrow> (client_error + publish_outcome) option" where
  "publish_call c r k passphrase a key spec =
     (case spec of
        Inl e \<Rightarrow> Some (Inl e)
      | Inr spec \<Rightarrow>
          map_option (map_sum id (\<lambda>s. case s of None \<Rightarrow> PO_DryRun | Some submitted \<Rightarrow> PO_Published submitted))
            (run_signed c r k passphrase key (publish_auth a) spec (pa_dry_run a)))"

definition publish_run :: "'i client_env \<Rightarrow> 'i rpc \<Rightarrow> string \<Rightarrow> publish_args \<Rightarrow> bytes \<Rightarrow> client_error + seed_key
    \<Rightarrow> (client_error + publish_outcome) option" where
  "publish_run c r passphrase a wasm key =
     (let local_hash = cl_sha256 c wasm
      in case publish_preflight c r a local_hash of
           Inl e \<Rightarrow> Some (Inl e)
         | Inr PF_AlreadyPublished \<Rightarrow> Some (Inr PO_AlreadyPublished)
         | Inr (PF_HashMismatch onchain) \<Rightarrow> Some (Inl (CE_HashMismatch onchain))
         | Inr PF_UnexpectedTrap \<Rightarrow> Some (Inl CE_UnexpectedTrap)
         | Inr PF_Proceed \<Rightarrow>
             (case key of
                Inl e \<Rightarrow> Some (Inl e)
              | Inr key \<Rightarrow>
                  if length wasm \<le> unat (pa_inline_max_bytes a)
                  then publish_call c r 1 passphrase a key (publish_spec c a ''publish'' wasm)
                  else (case run_upload c r 1 passphrase key wasm (pa_dry_run a) of
                          None \<Rightarrow> None
                        | Some (Inl e) \<Rightarrow> Some (Inl e)
                        | Some (Inr _) \<Rightarrow>
                            publish_call c r 2 passphrase a key (publish_spec c a ''publish_hash'' (bytes32_to_array local_hash)))))"

section \<open>What the client signs\<close>

text \<open>The \<open>contracttype\<close> decoding of \<open>Signer\<close> and of \<open>AuthPayload\<close>.\<close>

fun signer_of :: "scval \<Rightarrow> signer option" where
  "signer_of (SV_Vec (Some [SV_Symbol t, SV_Address a, SV_Bytes k])) = (if t = ''External'' then Some (Signer_External a k) else None)"
| "signer_of (SV_Vec (Some [SV_Symbol t, SV_Address a])) = (if t = ''Delegated'' then Some (Signer_Delegated a) else None)"
| "signer_of _ = None"

fun rule_id_of :: "scval \<Rightarrow> u32 option" where
  "rule_id_of (SV_U32 i) = Some i"
| "rule_id_of _ = None"

fun signed_by :: "scval \<times> scval \<Rightarrow> (signer \<times> bytes) option" where
  "signed_by (s, SV_Bytes b) = map_option (\<lambda>s. (s, b)) (signer_of s)"
| "signed_by _ = None"

fun auth_payload_of :: "scval \<Rightarrow> auth_payload option" where
  "auth_payload_of (SV_Map (Some [(SV_Symbol k1, SV_Vec (Some ids)), (SV_Symbol k2, SV_Map (Some signers))])) =
     (if k1 = ''context_rule_ids'' \<and> k2 = ''signers''
      then case (those (map rule_id_of ids), those (map signed_by signers)) of
             (Some is, Some ss) \<Rightarrow> Some \<lparr>pl_context_rule_ids = is, pl_signers = ss\<rparr>
           | _ \<Rightarrow> None
      else None)"
| "auth_payload_of _ = None"

text \<open>The digest that OpenZeppelin's \<open>do_check_auth\<close> hands to the verifier of an external signer.\<close>

definition checked_digest :: "'i client_env \<Rightarrow> account_env \<Rightarrow> bytes32 \<Rightarrow> u32 list \<Rightarrow> bytes32" where
  "checked_digest c e payload ids =
     cl_sha256 c (bytes32_to_array (bind_payload e payload) @ cl_scval_xdr c (SV_Vec (Some (map SV_U32 ids))))"

lemma sized_Inr [simp]: "sized n xs = Inr ys \<longleftrightarrow> length xs \<le> n \<and> ys = xs"
  by (auto simp: sized_def result_simps)

lemma scv_Inr:
  "scv_sym s = Inr v \<longleftrightarrow> length s \<le> 32 \<and> v = SV_Symbol s"
  "scv_string s = Inr v \<longleftrightarrow> length s \<le> XDR_MAX \<and> v = SV_String s"
  "scv_bytes b = Inr v \<longleftrightarrow> length b \<le> XDR_MAX \<and> v = SV_Bytes b"
  "scv_vec xs = Inr v \<longleftrightarrow> length xs \<le> XDR_MAX \<and> v = SV_Vec (Some xs)"
  "scv_map m = Inr v \<longleftrightarrow> length m \<le> XDR_MAX \<and> v = SV_Map (Some m)"
  by (auto simp: scv_sym_def scv_string_def scv_bytes_def scv_vec_def scv_map_def and_then_eq_Inr)

lemma scv_contract_Inr: "scv_contract k s = Inr a \<longleftrightarrow> (\<exists>i. k s = Some (ContractId i) \<and> a = ContractId i)"
  by (auto simp: scv_contract_def split: option.splits address.splits)

lemma scv_address_Inr: "scv_address k s = Inr v \<longleftrightarrow> (\<exists>i. k s = Some (ContractId i) \<and> v = SV_Address (ContractId i))"
  by (auto simp: scv_address_def and_then_eq_Inr scv_contract_Inr)

lemmas scv_simps = and_then_eq_Inr scv_Inr scv_contract_Inr scv_address_Inr

lemma external_payload:
  assumes "auth_payload_scval c verifier pubkey sig i = Inr v"
  shows "\<exists>a. cl_strkey c verifier = Some (ContractId a) \<and> auth_payload_of v =
    Some \<lparr>pl_context_rule_ids = [i], pl_signers = [(Signer_External (ContractId a) (bytes32_to_array pubkey), sig)]\<rparr>"
  using assms by (auto simp: auth_payload_scval_def external_signer_def payload_map_def scv_simps)

lemma bind_payload_eq:
  assumes "xdr_laws (an_xdr e)" "an_self e = ContractId i"
  shows "bind_payload e p = an_sha256 e (CLIENT_AUTH_ADDR_DOMAIN @ bytes32_to_array i @ bytes32_to_array p)"
  using payload_id_contract [OF assms(1)] assms(2)
  by (simp add: bind_payload_def account_auth_preimage_def CLIENT_AUTH_ADDR_DOMAIN_def AUTH_ADDR_DOMAIN_def)

lemma client_digest:
  assumes "perch_auth_digest c i p [rid] = Inr d" "xdr_laws (an_xdr e)" "an_self e = ContractId i" "an_sha256 e = cl_sha256 c"
  shows "d = checked_digest c e p [rid]"
  using assms(1) by (auto simp: perch_auth_digest_def oz_auth_digest_def scv_simps checked_digest_def
      bind_payload_eq [OF assms(2,3)] assms(4) Let_def)

lemma sign_auth_entry_Inr:
  assumes "sign_auth_entry c entry passphrase expiration key verifier rid = Inr entry'" "en_credentials entry = SC_Address creds"
    and "ad_address creds = an_self e" "xdr_laws (an_xdr e)" "an_sha256 e = cl_sha256 c"
  shows "\<exists>a creds'. en_credentials entry' = SC_Address creds' \<and> ad_address creds' = an_self e \<and>
    ad_nonce creds' = ad_nonce creds \<and> ad_expiration creds' = expiration \<and>
    en_root_invocation entry' = en_root_invocation entry \<and> cl_strkey c verifier = Some (ContractId a) \<and>
    auth_payload_of (ad_signature creds') = Some \<lparr>pl_context_rule_ids = [rid],
      pl_signers = [(Signer_External (ContractId a) (bytes32_to_array (sk_public key)), cl_sign c (sk_signing key)
        (bytes32_to_array (checked_digest c e
          (signature_payload c passphrase (ad_nonce creds) expiration (en_root_invocation entry)) [rid])))]\<rparr>"
  using assms(1-3) client_digest [OF _ assms(4) _ assms(5)]
  by (auto simp: sign_auth_entry_def and_then_eq_Inr Let_def split: address.splits dest!: external_payload)

lemma split_entries_Inr:
  assumes "split_entries (xs, ys) r bs = Inr (xs', ys')"
    and "list_all (\<lambda>x. \<exists>a. en_credentials x = SC_Address a) xs" "list_all (\<lambda>y. en_credentials y = SC_SourceAccount) ys"
  shows "list_all (\<lambda>x. \<exists>a. en_credentials x = SC_Address a) xs' \<and> list_all (\<lambda>y. en_credentials y = SC_SourceAccount) ys'"
  using assms
proof (induction bs arbitrary: xs ys)
  case (Cons b bs)
  then obtain x where x: "rq_entry r b = Some x" by (auto simp: and_then_eq_Inr)
  show ?case
  proof (cases "en_credentials x")
    case SC_SourceAccount
    then show ?thesis using Cons.IH [of xs "ys @ [x]"] Cons.prems x by simp
  next
    case (SC_Address a)
    then show ?thesis using Cons.IH [of "xs @ [x]" ys] Cons.prems x by simp
  qed (use Cons.prems x in simp_all)
qed simp

lemma pick_entry_Inr:
  assumes "pick_entry c auth xs = Inr x" "list_all (\<lambda>x. \<exists>a. en_credentials x = SC_Address a) xs"
  shows "\<exists>creds. en_credentials x = SC_Address creds \<and> scv_contract (cl_strkey c) (au_account auth) = Inr (ad_address creds)"
  using assms by (auto simp: pick_entry_def and_then_eq_Inr split: list.splits if_splits)

lemma set_auth_Inr:
  assumes "set_auth tx auth = Inr tx'" "tx_operations tx = [OB_InvokeHostFunction f old]"
  shows "tx' = tx\<lparr>tx_operations := [OB_InvokeHostFunction f auth]\<rparr>"
  using assms by (auto simp: set_auth_def and_then_eq_Inr)

lemma unat_word_of_nat_u32: "n < 2 ^ 32 \<Longrightarrow> unat (word_of_nat n :: u32) = n"
  by (simp add: unat_of_nat)

lemma padded_fee_Inr:
  assumes "padded_fee m = Inr fee"
  shows "unat fee = 100 + (unat m * 115 + 99) div 100"
proof -
  let ?fee = "100 + (unat m * 115 + 99) div 100"
  have "?fee < 2 ^ 32" "fee = word_of_nat ?fee"
    using assms unfolding padded_fee_def Let_def by (metis Inl_Inr_False Inr_inject)+
  then show ?thesis using unat_word_of_nat_u32 by (simp only:)
qed

lemma prepare_signed_Inr:
  assumes "prepare_signed c r k passphrase payer auth spec = Inr tx"
  obtains contract x creds entry sources m sim1 where
    "scv_contract (cl_strkey c) (is_contract spec) = Inr contract"
    "tx_operations tx = [OB_InvokeHostFunction (HF_InvokeContract contract (is_func spec) (is_args spec)) (entry # sources)]"
    "list_all (\<lambda>y. en_credentials y = SC_SourceAccount) sources"
    "en_credentials x = SC_Address creds" "scv_contract (cl_strkey c) (au_account auth) = Inr (ad_address creds)"
    "checked_add (sm_latest_ledger (sim1 :: simulation)) 120 = Some m" "sign_entry c passphrase payer auth m x = Inr entry"
proof -
  obtain seq tx0 sim1 xs ys x m entry tx1 sim2 where s: "build_tx c (sk_public payer) seq spec = Inr tx0"
      "checked_simulation r k tx0 = Inr sim1" "split_entries ([], []) r (sm_auth sim1) = Inr (xs, ys)" "pick_entry c auth xs = Inr x"
      "checked_add (sm_latest_ledger sim1) 120 = Some m" "sign_entry c passphrase payer auth m x = Inr entry"
      "set_auth tx0 (entry # ys) = Inr tx1" "with_resources r sim2 tx1 = Inr tx"
    using assms by (auto simp: prepare_signed_def and_then_eq_Inr)
  have split: "list_all (\<lambda>x. \<exists>a. en_credentials x = SC_Address a) xs" "list_all (\<lambda>y. en_credentials y = SC_SourceAccount) ys"
    using split_entries_Inr [OF s(3)] by simp_all
  obtain creds where creds: "en_credentials x = SC_Address creds" "scv_contract (cl_strkey c) (au_account auth) = Inr (ad_address creds)"
    using pick_entry_Inr [OF s(4) split(1)] by blast
  obtain contract where tx0: "scv_contract (cl_strkey c) (is_contract spec) = Inr contract"
      "tx_operations tx0 = [OB_InvokeHostFunction (HF_InvokeContract contract (is_func spec) (is_args spec)) []]"
    using s(1) by (auto simp: build_tx_def and_then_eq_Inr)
  have "tx_operations tx = [OB_InvokeHostFunction (HF_InvokeContract contract (is_func spec) (is_args spec)) (entry # ys)]"
    using set_auth_Inr [OF s(7) tx0(2)] s(8) by (auto simp: with_resources_def and_then_eq_Inr)
  then show ?thesis by (rule that [OF tx0(1) _ split(2) creds s(5,6)])
qed

section \<open>The polling loop ends\<close>

text \<open>What the loop returns at the poll that ends it.\<close>

definition poll_result :: "'i rpc \<Rightarrow> string \<Rightarrow> nat \<Rightarrow> client_error + submitted" where
  "poll_result r hash k =
     (case rq_get_transaction r k hash of
        None \<Rightarrow> Inl CE_Rpc
      | Some (TS_Success ledger) \<Rightarrow> Inr \<lparr>sb_tx_hash = hash, sb_ledger = ledger\<rparr>
      | Some (TS_Failed result_xdr) \<Rightarrow> Inl (CE_TransactionFailed result_xdr)
      | Some TS_NotFound \<Rightarrow> Inl CE_TimedOut)"

definition poll_pending :: "'i rpc \<Rightarrow> string \<Rightarrow> nat \<Rightarrow> nat \<Rightarrow> bool" where
  "poll_pending r hash deadline k \<longleftrightarrow> rq_get_transaction r k hash = Some TS_NotFound \<and> rq_clock r k < deadline"

lemma poll_step:
  "poll r hash deadline k = (if poll_pending r hash deadline k then poll r hash deadline (Suc k) else Some (poll_result r hash k))"
  by (subst poll.simps) (auto simp: poll_pending_def poll_result_def split: option.splits tx_status.splits)

lemma poll_until:
  assumes "\<forall>j. k \<le> j \<and> j < k + n \<longrightarrow> poll_pending r hash deadline j" "\<not> poll_pending r hash deadline (k + n)"
  shows "poll r hash deadline k = Some (poll_result r hash (k + n))"
  using assms
proof (induction n arbitrary: k)
  case 0
  then show ?case by (subst poll_step) simp
next
  case (Suc n)
  have "poll_pending r hash deadline k" using Suc.prems(1) by simp
  moreover have "poll r hash deadline (Suc k) = Some (poll_result r hash (Suc k + n))"
    using Suc.prems by (intro Suc.IH) auto
  ultimately show ?case by (subst poll_step) simp
qed

lemma clock_advances:
  assumes "\<forall>k. rq_clock r k + 2000 \<le> rq_clock r (Suc k)"
  shows "2000 * n \<le> rq_clock r n"
proof (induction n)
  case (Suc n)
  moreover have "rq_clock r n + 2000 \<le> rq_clock r (Suc n)" using assms ..
  ultimately show ?case unfolding mult_Suc_right by linarith
qed simp

lemma poll_ends:
  assumes "\<forall>k. rq_clock r k + 2000 \<le> rq_clock r (Suc k)"
  obtains n where "n \<le> 30" "\<forall>j < n. poll_pending r hash 60000 j" "\<not> poll_pending r hash 60000 n" "poll r hash 60000 0 = Some (poll_result r hash n)"
proof -
  have last: "\<not> poll_pending r hash 60000 30" using clock_advances [OF assms, of 30] by (simp add: poll_pending_def)
  obtain n where n: "n \<le> 30" "\<not> poll_pending r hash 60000 n" "\<forall>j < n. poll_pending r hash 60000 j"
    using last ex_least_nat_le [of "\<lambda>n. \<not> poll_pending r hash 60000 n" 30] by blast
  then have "poll r hash 60000 0 = Some (poll_result r hash n)" using poll_until [of 0 n r hash 60000] by simp
  then show ?thesis using n by (intro that)
qed

section \<open>Properties\<close>

text \<open>
  C26. The client signs what the account checks. A prepared write carries the requested invocation,
  one signed entry and else only source-account entries. The signed entry's credential is the
  configured account's, and its signature decodes to a payload that selects the one configured rule
  and has the one signer with the client's key under the configured verifier, whose signature is over
  the digest that the account's \<open>__check_auth\<close> has OpenZeppelin verify for that entry on that network.
\<close>

theorem client_signs_what_account_checks:
  assumes "prepare_signed c r k passphrase payer auth spec = Inr tx" "au_mode auth = AM_External verifier"
    and "cl_strkey c (au_account auth) = Some (an_self e)" "xdr_laws (an_xdr e)" "an_sha256 e = cl_sha256 c"
  shows "\<exists>contract entry sources creds v.
    tx_operations tx = [OB_InvokeHostFunction (HF_InvokeContract contract (is_func spec) (is_args spec)) (entry # sources)] \<and>
    cl_strkey c (is_contract spec) = Some contract \<and> list_all (\<lambda>y. en_credentials y = SC_SourceAccount) sources \<and>
    en_credentials entry = SC_Address creds \<and> ad_address creds = an_self e \<and> cl_strkey c verifier = Some (ContractId v) \<and>
    auth_payload_of (ad_signature creds) = Some \<lparr>pl_context_rule_ids = [au_rule_id auth],
      pl_signers = [(Signer_External (ContractId v) (bytes32_to_array (sk_public payer)), cl_sign c (sk_signing payer)
        (bytes32_to_array (checked_digest c e
          (signature_payload c passphrase (ad_nonce creds) (ad_expiration creds) (en_root_invocation entry)) [au_rule_id auth])))]\<rparr>"
proof -
  obtain contract x creds entry sources m where t: "scv_contract (cl_strkey c) (is_contract spec) = Inr contract"
      "tx_operations tx = [OB_InvokeHostFunction (HF_InvokeContract contract (is_func spec) (is_args spec)) (entry # sources)]"
      "list_all (\<lambda>y. en_credentials y = SC_SourceAccount) sources" "en_credentials x = SC_Address creds"
      "scv_contract (cl_strkey c) (au_account auth) = Inr (ad_address creds)" "sign_entry c passphrase payer auth m x = Inr entry"
    by (rule prepare_signed_Inr [OF assms(1)])
  have "sign_auth_entry c x passphrase m payer verifier (au_rule_id auth) = Inr entry" "ad_address creds = an_self e"
    using t(5,6) assms(2,3) by (auto simp: sign_entry_def scv_contract_Inr)
  from sign_auth_entry_Inr [OF this(1) t(4) this(2) assms(4,5)] obtain v creds' where "en_credentials entry = SC_Address creds'"
      "ad_address creds' = an_self e" "ad_nonce creds' = ad_nonce creds" "ad_expiration creds' = m"
      "en_root_invocation entry = en_root_invocation x" "cl_strkey c verifier = Some (ContractId v)"
      "auth_payload_of (ad_signature creds') = Some \<lparr>pl_context_rule_ids = [au_rule_id auth],
        pl_signers = [(Signer_External (ContractId v) (bytes32_to_array (sk_public payer)), cl_sign c (sk_signing payer)
          (bytes32_to_array (checked_digest c e
            (signature_payload c passphrase (ad_nonce creds) m (en_root_invocation x)) [au_rule_id auth])))]\<rparr>"
    by blast
  then show ?thesis
    using t(1-3) by (intro exI [of _ contract] exI [of _ entry] exI [of _ sources] exI [of _ creds'] exI [of _ v])
      (auto simp: scv_contract_Inr)
qed

text \<open>A client of the demo chain, and a server that asks for the demo account's authorization.\<close>

definition demo_client :: "nat client_env" where
  "demo_client =
     \<lparr>cl_strkey = (\<lambda>s. if s = ''account'' then Some (ContractId 1) else if s = ''verifier'' then Some (ContractId 7)
        else if s = ''interpreter'' then Some (ContractId 11) else None),
      cl_strkey_text = (\<lambda>a. if a = ContractId 1 then ''account'' else ''G''), cl_sha256 = (\<lambda>_. 3), cl_scval_xdr = (\<lambda>_. []),
      cl_preimage_xdr = (\<lambda>_. []), cl_verifying_key = id, cl_sign = (\<lambda>k _. replicate 64 (ucast k))\<rparr>"

definition demo_simulation :: simulation where
  "demo_simulation =
     \<lparr>sm_error = None, sm_transaction_data = Some ''data'', sm_min_resource_fee = 1000, sm_auth = [''entry''],
      sm_result_xdr = None, sm_latest_ledger = 5\<rparr>"

definition demo_rpc :: "nat rpc" where
  "demo_rpc =
     \<lparr>rq_account_seq = (\<lambda>_. Some 8), rq_simulate = (\<lambda>_ _. Some demo_simulation), rq_send = (\<lambda>_. Some ''hash''),
      rq_get_transaction = (\<lambda>k _. if k < 3 then Some TS_NotFound else Some (TS_Success 9)), rq_clock = (\<lambda>k. 2500 * k),
      rq_entry = (\<lambda>_. Some \<lparr>en_credentials = SC_Address \<lparr>ad_address = ContractId 1, ad_nonce = 4, ad_expiration = 0,
        ad_signature = SV_Void\<rparr>, en_root_invocation = 77\<rparr>),
      rq_soroban_data = (\<lambda>_. Some []), rq_scval = (\<lambda>_. None), rq_tx_xdr = (\<lambda>_ _. [])\<rparr>"

definition demo_write :: invoke_spec where
  "demo_write = \<lparr>is_contract = ''account'', is_func = ''apply_doc'', is_args = []\<rparr>"

definition demo_write_auth :: auth_spec where
  "demo_write_auth = \<lparr>au_mode = AM_External ''verifier'', au_rule_id = 2, au_account = ''account''\<rparr>"

lemmas demo_client_simps = demo_client_def demo_rpc_def demo_simulation_def demo_write_def demo_write_auth_def from_seed_def

lemma demo_prepared:
  "\<exists>tx. prepare_signed demo_client demo_rpc 0 ''net'' (from_seed demo_client 11) demo_write_auth demo_write = Inr tx"
  by (simp add: prepare_signed_def sequence_of_def build_tx_def scv_contract_def sized_def checked_simulation_def pick_entry_def
      checked_add_def sign_entry_def sign_auth_entry_def perch_auth_digest_def oz_auth_digest_def scv_vec_def scv_map_def
      scv_bytes_def scv_sym_def scv_address_def auth_payload_scval_def external_signer_def payload_map_def set_auth_def
      with_resources_def padded_fee_def demo_client_simps Let_def)

text \<open>Witness of C26: a write to the demo account.\<close>

theorem client_signs_what_account_checks_witness:
  "\<exists>tx contract f args entry sources creds sg. prepare_signed demo_client demo_rpc 0 ''net'' (from_seed demo_client 11) demo_write_auth demo_write = Inr tx \<and>
     tx_operations tx = [OB_InvokeHostFunction (HF_InvokeContract contract f args) (entry # sources)] \<and>
     en_credentials entry = SC_Address creds \<and> ad_address creds = ContractId 1 \<and>
     auth_payload_of (ad_signature creds) = Some \<lparr>pl_context_rule_ids = [2],
       pl_signers = [(Signer_External (ContractId 7) (bytes32_to_array 11), sg)]\<rparr>"
proof -
  obtain tx where tx: "prepare_signed demo_client demo_rpc 0 ''net'' (from_seed demo_client 11) demo_write_auth demo_write = Inr tx"
    using demo_prepared by blast
  have "cl_strkey demo_client (au_account demo_write_auth) = Some (an_self demo_account)" "an_sha256 demo_account = cl_sha256 demo_client"
    "au_mode demo_write_auth = AM_External ''verifier''" "xdr_laws (an_xdr demo_account)"
    using demo_xdr_laws by (simp_all add: demo_client_simps demo_self fun_eq_iff)
  from client_signs_what_account_checks [OF tx this(3,1,4,2)] tx show ?thesis
    by (auto simp: demo_client_simps demo_self)
qed

text \<open>
  C38. A submission ends. With a clock that the two-second sleep moves on by at least two seconds, the
  polling loop of \<open>submit\<close> makes at most 31 polls: its result is that of the first poll that finds the
  transaction or fails, or the timeout, if no poll before the deadline of one minute did.
\<close>

theorem submission_terminates:
  assumes "\<forall>k. rq_clock r k + 2000 \<le> rq_clock r (Suc k)" "sign_envelope c r tx passphrase payer = Inr (envelope, h)"
    and "rq_send r envelope = Some hash"
  shows "\<exists>n \<le> 30. submit c r tx passphrase payer = Some (poll_result r hash n) \<and>
    (\<forall>j < n. rq_get_transaction r j hash = Some TS_NotFound \<and> rq_clock r j < 60000) \<and>
    (poll_result r hash n = Inl CE_TimedOut \<longrightarrow> 60000 \<le> rq_clock r n)"
proof -
  obtain n where n: "n \<le> 30" "\<forall>j < n. poll_pending r hash 60000 j" "\<not> poll_pending r hash 60000 n" "poll r hash 60000 0 = Some (poll_result r hash n)"
    by (rule poll_ends [OF assms(1)])
  have "60000 \<le> rq_clock r n" if "poll_result r hash n = Inl CE_TimedOut"
    using that n(3) by (auto simp: poll_pending_def poll_result_def split: option.splits tx_status.splits)
  then show ?thesis using n assms(2,3) by (intro exI [of _ n]) (simp add: submit_def poll_pending_def)
qed

text \<open>Witness of C38: the demo server reports success at the fourth poll.\<close>

theorem submission_terminates_witness:
  "\<exists>tx. \<exists>n \<le> 30. prepare_signed demo_client demo_rpc 0 ''net'' (from_seed demo_client 11) demo_write_auth demo_write = Inr tx \<and>
     submit demo_client demo_rpc tx ''net'' (from_seed demo_client 11) = Some (poll_result demo_rpc ''hash'' n)"
proof -
  obtain tx where tx: "prepare_signed demo_client demo_rpc 0 ''net'' (from_seed demo_client 11) demo_write_auth demo_write = Inr tx"
    using demo_prepared by blast
  obtain envelope h where s: "sign_envelope demo_client demo_rpc tx ''net'' (from_seed demo_client 11) = Inr (envelope, h)"
    by (simp add: sign_envelope_def sized_def demo_client_def Let_def)
  have "\<forall>k. rq_clock demo_rpc k + 2000 \<le> rq_clock demo_rpc (Suc k)" "rq_send demo_rpc envelope = Some ''hash''"
    by (simp_all add: demo_rpc_def)
  from submission_terminates [OF this(1) s this(2)] tx show ?thesis by blast
qed
end
