(* ===== verification/Deploy_Verify.thy ===== *)
theory Deploy_Verify
  imports Deploy_Client "HOL-Library.Countable"
begin

text \<open>
  The review commands of the deployment client: \<open>compose.rs\<close> expands a document into the rules it
  lowers to, \<open>verify.rs\<close> compares them with what an account reports over RPC, and \<open>apply.rs\<close> submits a
  document. A read is a simulation of a view, numbered as in \<open>Deploy_Client\<close>, so the account may move
  between two reads. Messages are values of \<open>mismatch\<close>; printing is not kept.
\<close>

section \<open>Whitespace\<close>

text \<open>\<open>str::trim\<close>: the characters of Unicode's \<open>White_Space\<close>, in UTF-8.\<close>

definition WHITESPACE :: "string list" where
  "WHITESPACE = map (map char_of)
     ([[n]. n \<leftarrow> [9, 10, 11, 12, 13, 32]] @ [[0xC2, 0x85], [0xC2, 0xA0], [0xE1, 0x9A, 0x80]] @
      [[0xE2, 0x80, n]. n \<leftarrow> [0x80..<0x8B] @ [0xA8, 0xA9, 0xAF]] @ [[0xE2, 0x81, 0x9F], [0xE3, 0x80, 0x80 :: nat]])"

fun trim_with :: "string list \<Rightarrow> nat \<Rightarrow> string \<Rightarrow> string" where
  "trim_with ws 0 s = s"
| "trim_with ws (Suc n) s =
     (case find (\<lambda>w. take (length w) s = w) ws of None \<Rightarrow> s | Some w \<Rightarrow> trim_with ws n (drop (length w) s))"

definition trim :: "string \<Rightarrow> string" where
  "trim s = (let t = trim_with WHITESPACE (length s) s in rev (trim_with (map rev WHITESPACE) (length t) (rev t)))"

section \<open>Composing a document (compose.rs)\<close>

datatype signer_json = SJ_External string string | SJ_Delegated string

record cap_json =
  kj_token :: "string option"
  kj_limit :: string
  kj_period_ledgers :: u32

text \<open>Of \<open>InstallJson\<close> the base64 text, which \<open>verify\<close> reads, and not the copy for reviewers.\<close>

record rule_entry =
  ry_expected_rule_id :: u32
  ry_name :: string
  ry_call_contract :: string
  ry_valid_until :: "u32 option"
  ry_signers :: "signer_json list"
  ry_install :: "string option"
  ry_cap :: "cap_json option"

record compose_output =
  cm_doc_hash :: string
  cm_account :: string
  cm_interpreter :: string
  cm_interpreter_wasm_hash :: string
  cm_genesis_rule :: "rule_entry option"
  cm_apply :: "rule_entry list"

text \<open>
  The host and the lexer of the compiler crates, the \<open>hex\<close> crate, the \<open>ScVal\<close> whose XDR install
  parameters have, and base64 of an \<open>ScVal\<close>.
\<close>

record compose_env =
  ko_host :: host
  ko_lexer :: "nat \<Rightarrow> string \<Rightarrow> json option"
  ko_hexd :: hex_decode
  ko_hex :: "bytes \<Rightarrow> string"
  ko_install_scval :: "install_params \<Rightarrow> scval option"
  ko_base64 :: "scval \<Rightarrow> string"

definition int_to_string :: "int \<Rightarrow> string" where
  "int_to_string i = (if i < 0 then CHR ''-'' # nat_to_string (nat (- i)) else nat_to_string (nat i))"

definition parse_hash32 :: "hex_decode \<Rightarrow> string \<Rightarrow> client_error + bytes32" where
  "parse_hash32 hexd hex64 =
     and_then (ok_or (hexd (trim hex64)) CE_BadHash) (\<lambda>bytes.
     if length bytes = 32 then Inr (bytes32_of bytes) else Inl CE_BadHash)"

fun signer_json_of :: "signer_spec \<Rightarrow> signer_json" where
  "signer_json_of (SignerSpec_External verifier key_hex) = SJ_External verifier key_hex"
| "signer_json_of (SignerSpec_Delegated address) = SJ_Delegated address"

definition install_text :: "compose_env \<Rightarrow> install_params option \<Rightarrow> client_error + string option" where
  "install_text k install =
     (case install of
        None \<Rightarrow> Inr None
      | Some ip \<Rightarrow> and_then (ok_or (ko_install_scval k ip) CE_Xdr) (\<lambda>v. Inr (Some (ko_base64 k v))))"

definition rule_entry_of :: "compose_env \<Rightarrow> u32 \<Rightarrow> lowered_rule \<Rightarrow> string \<Rightarrow> client_error + rule_entry" where
  "rule_entry_of k expected_rule_id rl call_contract =
     and_then (install_text k (lr_install rl)) (\<lambda>install.
     Inr \<lparr>ry_expected_rule_id = expected_rule_id, ry_name = lr_name rl, ry_call_contract = call_contract,
          ry_valid_until = lr_valid_until rl, ry_signers = map signer_json_of (lr_signers rl), ry_install = install,
          ry_cap = map_option (\<lambda>c. \<lparr>kj_token = cs_token c, kj_limit = int_to_string (cs_limit c),
            kj_period_ledgers = cs_period_ledgers c\<rparr>) (lr_cap rl)\<rparr>)"

fun compose_loop :: "compose_env \<Rightarrow> string \<Rightarrow> lowered_rule list \<Rightarrow> rule_entry option \<Rightarrow> rule_entry list
    \<Rightarrow> client_error + rule_entry option \<times> rule_entry list" where
  "compose_loop k account [] genesis_rule entries = Inr (genesis_rule, entries)"
| "compose_loop k account (rl # rules) genesis_rule entries =
     (case lr_scope rl of
        ScopeSpec_SelfAdmin \<Rightarrow>
          (if lr_install rl \<noteq> None \<or> lr_cap rl \<noteq> None then Inl CE_AdminConstrained
           else if genesis_rule \<noteq> None then Inl CE_ManyAdmins
           else and_then (rule_entry_of k 0 rl account) (\<lambda>x. compose_loop k account rules (Some x) entries))
      | ScopeSpec_Contract addr \<Rightarrow>
          and_then (ok_or (checked_add (word_of_nat (length entries)) 1) CE_Panic) (\<lambda>i.
          and_then (rule_entry_of k i rl addr) (\<lambda>x. compose_loop k account rules genesis_rule (entries @ [x]))))"

definition compose_failure :: "lower_error failure \<Rightarrow> client_error" where
  "compose_failure err = (case err of Failed _ \<Rightarrow> CE_Compile | _ \<Rightarrow> CE_Panic)"

definition doc_hash_hex :: "compose_env \<Rightarrow> policy_doc \<Rightarrow> string" where
  "doc_hash_hex k doc = ko_hex k (bytes32_to_array (doc_hash (h_sha256 (ko_host k)) doc))"

definition compose :: "compose_env \<Rightarrow> string \<Rightarrow> string \<Rightarrow> string \<Rightarrow> string \<Rightarrow> client_error + compose_output" where
  "compose k doc_json account interpreter interpreter_wasm_hash_hex =
     and_then (map_err (\<lambda>_. CE_DocParse) (from_json (ko_lexer k) doc_json)) (\<lambda>doc.
     and_then (map_err (\<lambda>_. CE_DocInvalid) (validate (ko_hexd k) doc)) (\<lambda>_.
     and_then (parse_hash32 (ko_hexd k) interpreter_wasm_hash_hex) (\<lambda>wasm_hash.
     and_then (map_err compose_failure (compile (ko_host k) doc \<lparr>cfg_interpreter_wasm_hash = wasm_hash\<rparr>)) (\<lambda>plan.
     and_then (map_err (\<lambda>_. CE_Divergence) (verify_plan_matches_doc (ko_host k) doc plan)) (\<lambda>_.
     and_then (compose_loop k account (pl_rules plan) None []) (\<lambda>(genesis_rule, entries).
     Inr \<lparr>cm_doc_hash = doc_hash_hex k doc, cm_account = account, cm_interpreter = interpreter,
          cm_interpreter_wasm_hash = interpreter_wasm_hash_hex, cm_genesis_rule = genesis_rule, cm_apply = entries\<rparr>))))))"

section \<open>Verifying an account (verify.rs)\<close>

datatype mismatch =
    MM_NoDocument | MM_HashDiffers | MM_Trapped | MM_NoProgram | MM_UnexpectedProgram | MM_ProgramDiffers | MM_Shape
  | MM_Missing | MM_ContextType | MM_Unchecked | MM_Count nat nat

record row =
  rw_rule_id :: "u32 option"
  rw_name :: string
  rw_check :: string
  rw_mismatch :: "mismatch option"

type_synonym onchain_rule = "u32 \<times> (scval \<times> scval) list"

definition configured_rule :: "scval \<Rightarrow> client_error + onchain_rule" where
  "configured_rule rule =
     (case rule of
        SV_Map (Some r) \<Rightarrow> (case map_get r ''id'' of Some (SV_U32 i) \<Rightarrow> Inr (i, r) | _ \<Rightarrow> Inl CE_BadShape)
      | _ \<Rightarrow> Inl CE_BadShape)"

definition read_configuration :: "'i client_env \<Rightarrow> 'i rpc \<Rightarrow> nat \<Rightarrow> string \<Rightarrow> client_error + u64 \<times> onchain_rule list" where
  "read_configuration c r k account =
     and_then (simulate_read c r k account ''configuration'' []) (\<lambda>outcome.
     case outcome of
       RO_Value (SV_Map (Some m)) \<Rightarrow>
         (case map_get m ''revision'' of
            Some (SV_U64 rv) \<Rightarrow>
              (case map_get m ''rules'' of
                 Some (SV_Vec (Some rules)) \<Rightarrow> and_then (collect_results configured_rule rules) (\<lambda>found. Inr (rv, found))
               | _ \<Rightarrow> Inl CE_BadShape)
          | _ \<Rightarrow> Inl CE_BadShape)
     | RO_Value _ \<Rightarrow> Inl CE_BadShape
     | RO_ContractError _ _ \<Rightarrow> Inl CE_Trapped)"

definition read_revision :: "'i client_env \<Rightarrow> 'i rpc \<Rightarrow> nat \<Rightarrow> string \<Rightarrow> client_error + u64" where
  "read_revision c r k account =
     and_then (simulate_read c r k account ''revision'' []) (\<lambda>outcome.
     case outcome of
       RO_Value (SV_U64 rv) \<Rightarrow> Inr rv
     | RO_Value _ \<Rightarrow> Inl CE_BadShape
     | RO_ContractError _ _ \<Rightarrow> Inl CE_Trapped)"

definition check_applied_hash :: "'i client_env \<Rightarrow> 'i rpc \<Rightarrow> hex_decode \<Rightarrow> nat \<Rightarrow> string \<Rightarrow> string \<Rightarrow> client_error + row" where
  "check_applied_hash c r hexd k account doc_hash_text =
     and_then (parse_hash32 hexd doc_hash_text) (\<lambda>h.
     and_then (scv_bytes (bytes32_to_array h)) (\<lambda>want.
     and_then (simulate_read c r k account ''applied_doc_hash'' []) (\<lambda>outcome.
     let mm = (case outcome of
           RO_Value v \<Rightarrow> (if v = SV_Void then Some MM_NoDocument else if v = want then None else Some MM_HashDiffers)
         | RO_ContractError _ _ \<Rightarrow> Some MM_Trapped)
     in Inr \<lparr>rw_rule_id = None, rw_name = ''(document)'', rw_check = ''applied hash'', rw_mismatch = mm\<rparr>)))"

definition check_program :: "'i client_env \<Rightarrow> 'i rpc \<Rightarrow> nat \<Rightarrow> string \<Rightarrow> string \<Rightarrow> scval option \<Rightarrow> string \<Rightarrow> u32 \<Rightarrow> client_error + row" where
  "check_program c r k account interpreter expected name rule_id =
     and_then (scv_address (cl_strkey c) account) (\<lambda>a.
     and_then (simulate_read c r k interpreter ''get_program'' [a, SV_U32 rule_id]) (\<lambda>outcome.
     let mm = (case outcome of
           RO_ContractError _ _ \<Rightarrow> Some MM_Trapped
         | RO_Value SV_Void \<Rightarrow> map_option (\<lambda>_. MM_NoProgram) expected
         | RO_Value (SV_Map (Some m)) \<Rightarrow>
             (case expected of
                None \<Rightarrow> Some MM_UnexpectedProgram
              | Some want \<Rightarrow> if want = SV_Map (Some m) then None else Some MM_ProgramDiffers)
         | RO_Value _ \<Rightarrow> Some MM_Shape)
     in Inr \<lparr>rw_rule_id = Some rule_id, rw_name = name, rw_check = ''program hash'', rw_mismatch = mm\<rparr>))"

definition check_rule :: "'i client_env \<Rightarrow> onchain_rule list \<Rightarrow> rule_entry \<Rightarrow> client_error + row \<times> u32 option" where
  "check_rule c onchain expected =
     and_then (scv_string (ry_name expected)) (\<lambda>want_name.
     and_then (call_contract_context (cl_strkey c) (ry_call_contract expected)) (\<lambda>want_ctx.
     let found = find (\<lambda>(_, m). map_get m ''name'' = Some want_name) onchain;
         (rule_id, mm) = (case found of
             None \<Rightarrow> (None, Some MM_Missing)
           | Some (i, m) \<Rightarrow> (Some i, if map_get m ''context_type'' = Some want_ctx then None else Some MM_ContextType))
     in Inr (\<lparr>rw_rule_id = rule_id, rw_name = ry_name expected, rw_check = ''context+name'', rw_mismatch = mm\<rparr>, rule_id)))"

text \<open>The rows of the expected rules; \<open>k\<close> counts the reads.\<close>

fun check_rules :: "'i client_env \<Rightarrow> 'i rpc \<Rightarrow> nat \<Rightarrow> string \<Rightarrow> string \<Rightarrow> onchain_rule list \<Rightarrow> rule_entry list
    \<Rightarrow> client_error + row list \<times> nat" where
  "check_rules c r k account interpreter onchain [] = Inr ([], k)"
| "check_rules c r k account interpreter onchain (expected # rest) =
     and_then (check_rule c onchain expected) (\<lambda>(rw, rule_id).
     and_then (case ry_install expected of
                 Some text \<Rightarrow> and_then (ok_or (rq_scval r text) CE_Xdr) (\<lambda>v. Inr (Some v))
               | None \<Rightarrow> Inr None) (\<lambda>want.
     and_then (case rule_id of
                 Some i \<Rightarrow> and_then (check_program c r k account interpreter want (ry_name expected) i) (\<lambda>p. Inr (p, Suc k))
               | None \<Rightarrow> Inr (\<lparr>rw_rule_id = None, rw_name = ry_name expected, rw_check = ''program hash'',
                               rw_mismatch = Some MM_Unchecked\<rparr>, k)) (\<lambda>(prow, k').
     and_then (check_rules c r k' account interpreter onchain rest) (\<lambda>(rows, k'').
     Inr (rw # prow # rows, k'')))))"

definition expected_rules :: "compose_output \<Rightarrow> rule_entry list" where
  "expected_rules out = (case cm_genesis_rule out of None \<Rightarrow> [] | Some g \<Rightarrow> [g]) @ cm_apply out"

definition verify_run :: "'i client_env \<Rightarrow> 'i rpc \<Rightarrow> hex_decode \<Rightarrow> string \<Rightarrow> string \<Rightarrow> compose_output \<Rightarrow> client_error + row list" where
  "verify_run c r hexd account interpreter out =
     (if cm_account out \<noteq> account then Inl CE_WrongAccount
      else if cm_interpreter out \<noteq> interpreter then Inl CE_WrongInterpreter
      else and_then (read_configuration c r 0 account) (\<lambda>(rv, onchain).
      and_then (check_applied_hash c r hexd 1 account (cm_doc_hash out)) (\<lambda>hash_row.
      and_then (check_rules c r 2 account interpreter onchain (expected_rules out)) (\<lambda>(rows, k).
      let expected_count = (if cm_genesis_rule out \<noteq> None then 1 else 0) + length (cm_apply out);
          count_row = \<lparr>rw_rule_id = None, rw_name = ''(rule count)'', rw_check = ''exact count'',
            rw_mismatch = (if length onchain \<noteq> expected_count then Some (MM_Count (length onchain) expected_count) else None)\<rparr>;
          all_rows = hash_row # rows @ [count_row]
      in and_then (read_revision c r k account) (\<lambda>after_rev.
         if after_rev \<noteq> rv then Inl (CE_Moved rv after_rev)
         else if list_ex (\<lambda>rw. rw_mismatch rw \<noteq> None) all_rows then Inl CE_VerificationFailed
         else Inr all_rows)))))"

section \<open>Applying a document (apply.rs)\<close>

text \<open>The first external signer of the list with the given key: its verifier's text.\<close>

fun find_external :: "'i client_env \<Rightarrow> bytes32 \<Rightarrow> scval list \<Rightarrow> client_error + string" where
  "find_external c pubkey [] = Inl CE_NoSigner"
| "find_external c pubkey (signer # rest) =
     (case signer of
        SV_Vec (Some (SV_Symbol kind # verifier # SV_Bytes key # _)) \<Rightarrow>
          (if kind = ''External'' \<and> key = bytes32_to_array pubkey then address_to_string (cl_strkey_text c) verifier
           else find_external c pubkey rest)
      | _ \<Rightarrow> find_external c pubkey rest)"

definition is_admin_rule :: "scval \<Rightarrow> scval \<Rightarrow> onchain_rule \<Rightarrow> bool" where
  "is_admin_rule me name = (\<lambda>(_, r).
     map_get r ''name'' = Some name \<and> map_get r ''recovery'' = Some (SV_Bool False) \<and>
     (case map_get r ''context_type'' of
        Some (SV_Vec (Some (_ # a # _))) \<Rightarrow> a = me
      | _ \<Rightarrow> False))"

definition onchain_admin :: "'i client_env \<Rightarrow> 'i rpc \<Rightarrow> nat \<Rightarrow> string \<Rightarrow> bytes32 \<Rightarrow> client_error + u32 \<times> string \<times> u64" where
  "onchain_admin c r k account pubkey =
     and_then (read_configuration c r k account) (\<lambda>(rv, rules).
     and_then (scv_address (cl_strkey c) account) (\<lambda>me.
     and_then (scv_string ''admin'') (\<lambda>name.
     and_then (ok_or (find (is_admin_rule me name) rules) CE_NoAdminRule) (\<lambda>(i, rule).
     case map_get rule ''signers'' of
       Some (SV_Vec (Some signers)) \<Rightarrow> and_then (find_external c pubkey signers) (\<lambda>verifier. Inr (i, verifier, rv))
     | _ \<Rightarrow> Inl CE_BadShape))))"

text \<open>\<open>apply::run\<close> up to the signed write: what it asks the account for and under which authorization.\<close>

definition apply_request :: "'i client_env \<Rightarrow> 'i rpc \<Rightarrow> compose_env \<Rightarrow> string \<Rightarrow> string \<Rightarrow> string \<Rightarrow> client_error + seed_key
    \<Rightarrow> client_error + seed_key \<times> auth_spec \<times> invoke_spec" where
  "apply_request c r k passphrase account doc_json seed =
     and_then (map_err (\<lambda>_. CE_DocParse) (from_json (ko_lexer k) doc_json)) (\<lambda>doc.
     and_then (map_err (\<lambda>_. CE_DocInvalid) (validate (ko_hexd k) doc)) (\<lambda>_.
     and_then (require (d_network doc = Some passphrase) CE_WrongNetwork) (\<lambda>_.
     and_then seed (\<lambda>key.
     and_then (onchain_admin c r 0 account (sk_public key)) (\<lambda>(rule_id, verifier, rv).
     and_then (sized XDR_MAX (str_bytes_of doc_json)) (\<lambda>body.
     Inr (key, \<lparr>au_mode = AM_External verifier, au_rule_id = rule_id, au_account = account\<rparr>,
          \<lparr>is_contract = account, is_func = ''apply_doc'', is_args = [SV_Bytes body, SV_U32 0, SV_U64 rv]\<rparr>)))))))"

definition apply_run :: "'i client_env \<Rightarrow> 'i rpc \<Rightarrow> compose_env \<Rightarrow> string \<Rightarrow> string \<Rightarrow> string \<Rightarrow> client_error + seed_key \<Rightarrow> bool
    \<Rightarrow> (client_error + submitted option) option" where
  "apply_run c r k passphrase account doc_json seed dry_run =
     (case apply_request c r k passphrase account doc_json seed of
        Inl e \<Rightarrow> Some (Inl e)
      | Inr (key, auth, spec) \<Rightarrow> run_signed c r 1 passphrase key auth spec dry_run)"

section \<open>What the server serves\<close>

text \<open>The \<open>contracttype\<close> encodings of the views' results, as far as the client reads them.\<close>

fun context_scval :: "context_rule_type \<Rightarrow> scval" where
  "context_scval CR_Default = SV_Vec (Some [SV_Symbol ''Default''])"
| "context_scval (CR_CallContract a) = SV_Vec (Some [SV_Symbol ''CallContract'', SV_Address a])"
| "context_scval (CR_CreateContract h) = SV_Vec (Some [SV_Symbol ''CreateContract'', SV_Bytes (bytes32_to_array h)])"

definition encodes_rule :: "scval \<Rightarrow> installed_rule \<Rightarrow> bool" where
  "encodes_rule v r \<longleftrightarrow> (\<exists>m. v = SV_Map (Some m) \<and> map_get m ''id'' = Some (SV_U32 (ir_id r)) \<and>
     map_get m ''name'' = Some (SV_String (ir_name r)) \<and> map_get m ''context_type'' = Some (context_scval (ir_context_type r)))"

definition encodes_configuration :: "scval \<Rightarrow> account_configuration \<Rightarrow> bool" where
  "encodes_configuration v cfg \<longleftrightarrow> (\<exists>m vs. v = SV_Map (Some m) \<and> map_get m ''revision'' = Some (SV_U64 (cf_revision cfg)) \<and>
     map_get m ''rules'' = Some (SV_Vec (Some vs)) \<and> list_all2 encodes_rule vs (cf_rules cfg))"

text \<open>
  An honest server for one account and its interpreter: the \<open>j\<close>-th read of a view is answered from the
  account's state \<open>S j\<close> and the interpreter's state \<open>P j\<close>.
\<close>

definition served :: "'i client_env \<Rightarrow> 'i rpc \<Rightarrow> compose_env \<Rightarrow> string \<Rightarrow> string \<Rightarrow> account_env \<Rightarrow> (nat \<Rightarrow> 'w account_state) \<Rightarrow>
    (nat \<Rightarrow> interp_state) \<Rightarrow> bool" where
  "served c r k account interpreter n S P \<longleftrightarrow> cl_strkey c account = Some (an_self n) \<and>
     (\<forall>j. \<exists>v. simulate_read c r j account ''configuration'' [] = Inr (RO_Value v) \<and>
        encodes_configuration v (configuration n (ac_store (S j)))) \<and>
     (\<forall>j. simulate_read c r j account ''applied_doc_hash'' [] = Inr (RO_Value
        (case as_applied_doc (ac_store (S j)) of None \<Rightarrow> SV_Void | Some h \<Rightarrow> SV_Bytes (bytes32_to_array h)))) \<and>
     (\<forall>j. simulate_read c r j account ''revision'' [] = Inr (RO_Value (SV_U64 (revision (ac_store (S j)))))) \<and>
     (\<forall>j i. simulate_read c r j interpreter ''get_program'' [SV_Address (an_self n), SV_U32 i] = Inr (RO_Value
        (case get_program (P j) (an_self n) i of None \<Rightarrow> SV_Void | Some p \<Rightarrow> the (ko_install_scval k p))))"

text \<open>Texts read back: base64, and hex digits, which have no whitespace; install parameters are a struct.\<close>

definition text_laws :: "'i rpc \<Rightarrow> compose_env \<Rightarrow> bool" where
  "text_laws r k \<longleftrightarrow> (\<forall>v. rq_scval r (ko_base64 k v) = Some v) \<and> (\<forall>bs. ko_hexd k (trim (ko_hex k bs)) = Some bs) \<and>
     (\<forall>p. \<exists>m. ko_install_scval k p = Some (SV_Map (Some m))) \<and> inj (ko_install_scval k)"

text \<open>
  The account between two reads: calls of its entry points, authorization checks, and the rest of
  the world moving on.
\<close>

definition account_move :: "account_env \<Rightarrow> 'w contracts \<Rightarrow> 'w account_state \<Rightarrow> 'w account_state \<Rightarrow> bool" where
  "account_move n X s s' \<longleftrightarrow> (\<exists>t auth c. account_exec (invocation n t auth) X s c = Inr s') \<or>
     (\<exists>t auth p sg cx. check_auth (invocation n t auth) X p sg cx s = Inr s') \<or> (\<exists>w. s' = s\<lparr>ac_world := w\<rparr>)"

section \<open>The revision tells configurations apart\<close>

definition later_revision :: "account_storage \<Rightarrow> account_storage \<Rightarrow> bool" where
  "later_revision st st' \<longleftrightarrow> revision st \<le> revision st' \<and> (revision st = revision st' \<longrightarrow> same_authorization st st')"

lemma same_authorization_refl [simp]: "same_authorization st st"
  by (simp add: same_authorization_def)

lemma same_authorization_trans: "same_authorization a b \<Longrightarrow> same_authorization b c \<Longrightarrow> same_authorization a c"
  by (simp add: same_authorization_def)

lemma later_revision_refl: "later_revision st st"
  by (simp add: later_revision_def)

lemma later_revision_trans: "later_revision a b \<Longrightarrow> later_revision b c \<Longrightarrow> later_revision a c"
  unfolding later_revision_def by (metis same_authorization_trans order.trans order.antisym)

lemma apply_advances:
  assumes "account_apply e X b u r mode s = Inr (dh, s')"
  shows "revision (ac_store s) < revision (ac_store s')"
proof -
  obtain c outcome s1 delta s2 where "sync_controllers e X c u s = Inr (outcome, s1)" "apply_rules e X c mode s1 = Inr (delta, s2)"
      "unat (revision (ac_store s')) = unat (revision (ac_store s2)) + 1"
    by (rule account_apply_Inr [OF assms])
  moreover from this have "revision (ac_store s2) = revision (ac_store s)"
    using sync_controllers_Inr(1) [of e X c u s outcome s1] apply_rules_Inr(2) [of e X c mode s1 delta s2]
    by (auto simp: generation_moved_def revision_def)
  ultimately show ?thesis by (simp add: word_less_nat_alt)
qed

lemma other_revision:
  assumes "account_exec e X s c = Inr s'" "\<forall>b u r. c \<noteq> A_apply_doc b u r"
  shows "revision (ac_store s) \<le> revision (ac_store s')"
proof (cases c)
  case (A_execute_upgrade i)
  then have "execute_upgrade e X i s = Inr s'" using assms(1) by simp
  then show ?thesis by (rule execute_upgrade_Inr) (simp add: word_le_nat_alt revision_def)
next
  case (A_schedule_upgrade h u)
  then obtain i where "schedule_upgrade e X h u s = Inr (i, s')" using assms(1) by auto
  then show ?thesis by (rule schedule_upgrade_Inr) (simp add: revision_def)
next
  case (A_execute t f args)
  then show ?thesis using assms(1) by (auto simp: execute_def result_simps acct_fail_def split: if_splits)
next
  case (A_rcv_gate i t)
  then show ?thesis using assms(1) by (auto simp: rcv_gate_def result_simps Let_def revision_def)
next
  case (A_cancel_recovery i)
  then show ?thesis using assms(1) by (auto simp: cancel_recovery_def result_simps revision_def)
next
  case A_cancel_upgrade
  then show ?thesis using assms(1) by (auto simp: cancel_upgrade_def acct_fail_def result_simps revision_def split: if_splits)
qed (use assms(2) in simp)

lemma move_revision:
  assumes "account_move n X s s'"
  shows "later_revision (ac_store s) (ac_store s')"
proof -
  consider (call) t auth c where "account_exec (invocation n t auth) X s c = Inr s'"
    | (same) "ac_store s' = ac_store s"
    using assms by (auto simp: account_move_def check_auth_def result_simps Let_def split: if_splits)
  then show ?thesis
  proof cases
    case call
    show ?thesis
    proof (cases "\<exists>b u r. c = A_apply_doc b u r")
      case True
      then obtain b u r dh where "account_apply (invocation n t auth) X b u r Mode_Cheapest s = Inr (dh, s')"
        using call by (auto simp: apply_doc_def)
      then show ?thesis using apply_advances by (fastforce simp: later_revision_def)
    next
      case False
      then show ?thesis using other_revision [OF call] other_call_frame(1) [OF call] by (simp add: later_revision_def)
    qed
  qed (simp add: later_revision_refl)
qed

lemma moves_revision: "(account_move n X)\<^sup>*\<^sup>* s s' \<Longrightarrow> later_revision (ac_store s) (ac_store s')"
  by (induction rule: rtranclp_induct) (auto intro: later_revision_refl later_revision_trans move_revision)

lemma run_revision:
  assumes "\<forall>i. (account_move n X)\<^sup>*\<^sup>* (S i) (S (Suc i))" "i \<le> j"
  shows "later_revision (ac_store (S i)) (ac_store (S j))"
  using assms(2)
proof (induction j)
  case (Suc j)
  have "later_revision (ac_store (S j)) (ac_store (S (Suc j)))" using assms(1) moves_revision by blast
  then show ?case using Suc by (metis later_revision_refl later_revision_trans le_Suc_eq)
qed (simp add: later_revision_refl)

text \<open>Reads that end at the revision they began with all saw one configuration.\<close>

lemma run_same:
  assumes "\<forall>i. (account_move n X)\<^sup>*\<^sup>* (S i) (S (Suc i))" "revision (ac_store (S 0)) = revision (ac_store (S k))" "i \<le> k"
  shows "same_authorization (ac_store (S 0)) (ac_store (S i))"
proof -
  have "later_revision (ac_store (S 0)) (ac_store (S i))" "later_revision (ac_store (S i)) (ac_store (S k))"
    using run_revision [OF assms(1)] assms(3) by simp_all
  then show ?thesis using assms(2) unfolding later_revision_def by (metis order.antisym)
qed

section \<open>What a composed document holds\<close>

definition entry_for :: "compose_env \<Rightarrow> string \<Rightarrow> lowered_rule \<Rightarrow> rule_entry \<Rightarrow> bool" where
  "entry_for k account rl x \<longleftrightarrow> ry_name x = lr_name rl \<and>
     ry_call_contract x = (case lr_scope rl of ScopeSpec_SelfAdmin \<Rightarrow> account | ScopeSpec_Contract addr \<Rightarrow> addr) \<and>
     install_text k (lr_install rl) = Inr (ry_install x)"

definition composed :: "rule_entry option \<Rightarrow> rule_entry list \<Rightarrow> rule_entry list" where
  "composed g xs = (case g of None \<Rightarrow> [] | Some x \<Rightarrow> [x]) @ xs"

lemma rule_entry_of_Inr:
  assumes "rule_entry_of k i rl a = Inr x"
  shows "ry_name x = lr_name rl" "ry_call_contract x = a" "install_text k (lr_install rl) = Inr (ry_install x)"
  using assms by (auto simp: rule_entry_of_def and_then_eq_Inr)

lemma compose_loop_Inr:
  assumes "compose_loop k account rules g xs = Inr (g', xs')"
  shows "length (composed g' xs') = length rules + length (composed g xs) \<and> set (composed g xs) \<subseteq> set (composed g' xs') \<and>
    (\<forall>rl \<in> set rules. \<exists>x \<in> set (composed g' xs'). entry_for k account rl x)"
  using assms
proof (induction rules arbitrary: g xs)
  case (Cons rl rules)
  obtain h ys x where l: "compose_loop k account rules h ys = Inr (g', xs')" "entry_for k account rl x"
      "length (composed h ys) = Suc (length (composed g xs))" "set (composed h ys) = insert x (set (composed g xs))"
  proof (cases "lr_scope rl")
    case ScopeSpec_SelfAdmin
    then obtain x where "rule_entry_of k 0 rl account = Inr x" "g = None" "compose_loop k account rules (Some x) xs = Inr (g', xs')"
      using Cons.prems by (auto simp: and_then_eq_Inr split: if_splits)
    then show ?thesis
      using ScopeSpec_SelfAdmin by (intro that [of "Some x" xs x]) (auto simp: entry_for_def composed_def rule_entry_of_Inr)
  next
    case (ScopeSpec_Contract addr)
    then obtain i x where "rule_entry_of k i rl addr = Inr x" "compose_loop k account rules g (xs @ [x]) = Inr (g', xs')"
      using Cons.prems by (auto simp: and_then_eq_Inr)
    then show ?thesis
      using ScopeSpec_Contract by (intro that [of g "xs @ [x]" x]) (auto simp: entry_for_def composed_def rule_entry_of_Inr)
  qed
  then show ?case using Cons.IH [OF l(1)] by auto
qed (simp add: composed_def)

lemma compose_Inr:
  assumes "compose k doc_json account interpreter wasm = Inr out"
  obtains doc cfg plan where "from_json (ko_lexer k) doc_json = Inr doc" "well_formed (ko_hexd k) doc"
    "compile (ko_host k) doc cfg = Inr plan" "cm_doc_hash out = doc_hash_hex k doc"
    "cm_account out = account" "cm_interpreter out = interpreter" "length (expected_rules out) = length (d_rules doc)"
    "\<forall>rl \<in> set (pl_rules plan). \<exists>x \<in> set (expected_rules out). entry_for k account rl x"
proof -
  obtain doc h plan g xs where d: "from_json (ko_lexer k) doc_json = Inr doc" "validate (ko_hexd k) doc = Inr ()"
      "compile (ko_host k) doc \<lparr>cfg_interpreter_wasm_hash = h\<rparr> = Inr plan" "compose_loop k account (pl_rules plan) None [] = Inr (g, xs)"
      "out = \<lparr>cm_doc_hash = doc_hash_hex k doc, cm_account = account, cm_interpreter = interpreter,
          cm_interpreter_wasm_hash = wasm, cm_genesis_rule = g, cm_apply = xs\<rparr>"
    using assms by (auto simp: compose_def and_then_eq_Inr)
  have x: "expected_rules out = composed g xs" by (simp add: d(5) expected_rules_def composed_def)
  have "well_formed (ko_hexd k) doc" using d(2) by (simp add: validate_def validation_errors_Nil split: if_splits)
  moreover have "length (pl_rules plan) = length (d_rules doc)" using list_all2_lengthD [OF compile_Inr [OF d(3)]] by simp
  ultimately show ?thesis
    using d compose_loop_Inr [OF d(4)] x by (intro that [of doc "\<lparr>cfg_interpreter_wasm_hash = h\<rparr>" plan]) (auto simp: composed_def)
qed

section \<open>What a verification establishes\<close>

definition shows_rule :: "onchain_rule \<Rightarrow> installed_rule \<Rightarrow> bool" where
  "shows_rule = (\<lambda>(i, m) r. i = ir_id r \<and> map_get m ''name'' = Some (SV_String (ir_name r)) \<and>
     map_get m ''context_type'' = Some (context_scval (ir_context_type r)))"

lemma configured_rules:
  assumes "list_all2 encodes_rule vs rs"
  shows "\<exists>onchain. collect_results configured_rule vs = Inr onchain \<and> list_all2 shows_rule onchain rs"
  using assms
proof (induction rule: list_all2_induct)
  case (Cons v vs r rs)
  then show ?case by (auto simp: configured_rule_def encodes_rule_def shows_rule_def)
qed simp

lemma read_configuration_served:
  assumes "served c r k account interpreter n S P"
  shows "\<exists>onchain. read_configuration c r j account = Inr (revision (ac_store (S j)), onchain) \<and>
    list_all2 shows_rule onchain (installed_rules (ac_store (S j)))"
proof -
  obtain m vs where "simulate_read c r j account ''configuration'' [] = Inr (RO_Value (SV_Map (Some m)))"
      "map_get m ''revision'' = Some (SV_U64 (revision (ac_store (S j))))" "map_get m ''rules'' = Some (SV_Vec (Some vs))"
      "list_all2 encodes_rule vs (installed_rules (ac_store (S j)))"
    using assms unfolding served_def encodes_configuration_def configuration_def by force
  then show ?thesis using configured_rules by (fastforce simp: read_configuration_def)
qed

lemma context_scval_call:
  "context_scval ct = SV_Vec (Some [SV_Symbol ''CallContract'', SV_Address a]) \<longleftrightarrow> ct = CR_CallContract a"
  "SV_Vec (Some [SV_Symbol ''CallContract'', SV_Address a]) = context_scval ct \<longleftrightarrow> ct = CR_CallContract a"
  by (cases ct; auto)+

definition program_read :: "'i rpc \<Rightarrow> compose_env \<Rightarrow> interp_state \<Rightarrow> address \<Rightarrow> u32 \<Rightarrow> string option \<Rightarrow> bool" where
  "program_read r k p a i install \<longleftrightarrow>
     (case install of
        None \<Rightarrow> get_program p a i = None
      | Some text \<Rightarrow> (\<exists>q. get_program p a i = Some q \<and> rq_scval r text = ko_install_scval k q))"

lemma check_rule_ok:
  assumes "check_rule c onchain x = Inr (rw, i)" "rw_mismatch rw = None" "list_all2 shows_rule onchain rs"
  obtains q a where "q \<in> set rs" "i = Some (ir_id q)" "ir_name q = ry_name x" "cl_strkey c (ry_call_contract x) = Some (ContractId a)"
    "ir_context_type q = CR_CallContract (ContractId a)"
proof -
  have "find (\<lambda>(_, m). map_get m ''name'' = Some (SV_String (ry_name x))) onchain \<noteq> None"
    using assms(1,2) by (cases "find (\<lambda>(_, m). map_get m ''name'' = Some (SV_String (ry_name x))) onchain")
      (auto simp: check_rule_def scv_simps Let_def)
  then obtain o' m where m: "find (\<lambda>(_, m). map_get m ''name'' = Some (SV_String (ry_name x))) onchain = Some (o', m)" by auto
  then obtain a where a: "cl_strkey c (ry_call_contract x) = Some (ContractId a)" "i = Some o'"
      "map_get m ''context_type'' = Some (SV_Vec (Some [SV_Symbol ''CallContract'', SV_Address (ContractId a)]))"
    using assms(1,2) by (auto simp: check_rule_def call_contract_context_def scv_simps Let_def split: if_splits)
  have "(o', m) \<in> set onchain" "map_get m ''name'' = Some (SV_String (ry_name x))" using m by (auto simp: find_Some_iff in_set_conv_nth)
  moreover from this(1) obtain q where "q \<in> set rs" "shows_rule (o', m) q" using assms(3) by (auto elim: list_all2_leftE)
  ultimately show ?thesis using a by (intro that [of q a]) (auto simp: shows_rule_def context_scval_call)
qed

lemma check_program_ok:
  assumes "check_program c r j account interpreter want name i = Inr rw" "rw_mismatch rw = None"
    and "served c r k account interpreter n S P" "text_laws r k"
    and "case install of Some text \<Rightarrow> \<exists>v. rq_scval r text = Some v \<and> want = Some v | None \<Rightarrow> want = None"
  shows "program_read r k (P j) (an_self n) i install"
proof -
  have a: "scv_address (cl_strkey c) account = Inr v \<Longrightarrow> v = SV_Address (an_self n)" for v
    using assms(3) by (auto simp: served_def scv_address_Inr)
  have s: "simulate_read c r j interpreter ''get_program'' [SV_Address (an_self n), SV_U32 i] = Inr (RO_Value
        (case get_program (P j) (an_self n) i of None \<Rightarrow> SV_Void | Some p \<Rightarrow> the (ko_install_scval k p)))"
    using assms(3) by (simp add: served_def)
  obtain m where m: "get_program (P j) (an_self n) i = Some p \<Longrightarrow> ko_install_scval k p = Some (SV_Map (Some (m p)))" for p
    using assms(4) unfolding text_laws_def by metis
  show ?thesis
    using assms(1,2,5) m by (cases "get_program (P j) (an_self n) i")
      (auto simp: check_program_def and_then_eq_Inr program_read_def s dest!: a split: option.splits if_splits)
qed

lemma check_rules_ok:
  assumes "check_rules c r j account interpreter onchain xs = Inr (rows, j')" "list_all (\<lambda>rw. rw_mismatch rw = None) rows"
    and "list_all2 shows_rule onchain rs" "served c r k account interpreter n S P" "text_laws r k"
  shows "j \<le> j' \<and> (\<forall>x \<in> set xs. \<exists>q \<in> set rs. \<exists>a i. ir_name q = ry_name x \<and> cl_strkey c (ry_call_contract x) = Some (ContractId a) \<and>
    ir_context_type q = CR_CallContract (ContractId a) \<and> program_read r k (P i) (an_self n) (ir_id q) (ry_install x))"
  using assms(1,2)
proof (induction xs arbitrary: j rows)
  case (Cons x xs)
  obtain rw rid want prow j1 rows' where s: "check_rule c onchain x = Inr (rw, rid)"
      "(case ry_install x of Some text \<Rightarrow> and_then (ok_or (rq_scval r text) CE_Xdr) (\<lambda>v. Inr (Some v)) | None \<Rightarrow> Inr None) = Inr want"
      "(case rid of Some i \<Rightarrow> and_then (check_program c r j account interpreter want (ry_name x) i) (\<lambda>p. Inr (p, Suc j))
        | None \<Rightarrow> Inr (\<lparr>rw_rule_id = None, rw_name = ry_name x, rw_check = ''program hash'', rw_mismatch = Some MM_Unchecked\<rparr>, j)) = Inr (prow, j1)"
      "check_rules c r j1 account interpreter onchain xs = Inr (rows', j')" "rows = rw # prow # rows'"
    using Cons.prems(1) by (auto simp: and_then_eq_Inr)
  have ok: "rw_mismatch rw = None" "rw_mismatch prow = None" "list_all (\<lambda>rw. rw_mismatch rw = None) rows'"
    using Cons.prems(2) s(5) by simp_all
  obtain q a where q: "q \<in> set rs" "rid = Some (ir_id q)" "ir_name q = ry_name x" "cl_strkey c (ry_call_contract x) = Some (ContractId a)"
      "ir_context_type q = CR_CallContract (ContractId a)"
    by (rule check_rule_ok [OF s(1) ok(1) assms(3)])
  have p: "check_program c r j account interpreter want (ry_name x) (ir_id q) = Inr prow" "j1 = Suc j"
    using s(3) q(2) by (auto simp: and_then_eq_Inr)
  have "case ry_install x of Some text \<Rightarrow> \<exists>v. rq_scval r text = Some v \<and> want = Some v | None \<Rightarrow> want = None"
    using s(2) by (auto simp: and_then_eq_Inr split: option.splits)
  from check_program_ok [OF p(1) ok(2) assms(4,5) this] have "program_read r k (P j) (an_self n) (ir_id q) (ry_install x)" .
  then show ?case using Cons.IH [OF s(4) ok(3)] q p(2) by fastforce
qed simp

lemma verify_run_Inr:
  assumes "verify_run c r hexd account interpreter out = Inr rows"
  obtains rv onchain hash_row rule_rows j where "read_configuration c r 0 account = Inr (rv, onchain)"
    "check_applied_hash c r hexd 1 account (cm_doc_hash out) = Inr hash_row" "rw_mismatch hash_row = None"
    "check_rules c r 2 account interpreter onchain (expected_rules out) = Inr (rule_rows, j)"
    "list_all (\<lambda>rw. rw_mismatch rw = None) rule_rows" "length onchain = length (expected_rules out)"
    "read_revision c r j account = Inr rv"
  using assms by (auto simp: verify_run_def and_then_eq_Inr Let_def list_ex_iff list_all_iff expected_rules_def
      split: if_splits option.splits)

lemma applied_hash_ok:
  assumes "check_applied_hash c r hexd j account text = Inr rw" "rw_mismatch rw = None" "parse_hash32 hexd text = Inr h"
    and "served c r k account interpreter n S P"
  shows "as_applied_doc (ac_store (S j)) = Some h"
proof -
  have "simulate_read c r j account ''applied_doc_hash'' [] = Inr (RO_Value
        (case as_applied_doc (ac_store (S j)) of None \<Rightarrow> SV_Void | Some h \<Rightarrow> SV_Bytes (bytes32_to_array h)))"
    using assms(4) by (simp add: served_def)
  then show ?thesis
    using assms(1-3) by (auto simp: check_applied_hash_def scv_simps Let_def split: option.splits if_splits)
qed

lemma parse_doc_hash: "text_laws r k \<Longrightarrow> parse_hash32 (ko_hexd k) (doc_hash_hex k doc) = Inr (doc_hash (h_sha256 (ko_host k)) doc)"
  by (simp add: parse_hash32_def doc_hash_hex_def text_laws_def)

lemma program_read_install:
  assumes "program_read r k p a i (ry_install x)" "install_text k (lr_install rl) = Inr (ry_install x)" "text_laws r k"
  shows "get_program p a i = lr_install rl"
  using assms unfolding text_laws_def
  by (auto simp: program_read_def install_text_def and_then_eq_Inr inj_def split: option.splits)

lemma covers_names:
  assumes "N \<subseteq> f ` set xs" "card N = length xs"
  shows "f ` set xs = N"
proof -
  have "card (f ` set xs) \<le> length xs" by (metis card_length length_map set_map)
  then show ?thesis using assms by (metis List.finite_set card_seteq finite_imageI)
qed

lemma desired_length:
  assumes "\<forall>q \<in> set (cd_rules cd). \<not> expired e (cr_valid_until q)"
  shows "length (desired e cd) = length (cd_rules cd) + (if cd_recovery cd = [] then 0 else 1)"
proof -
  have "[x \<leftarrow> map (document_rule e) (cd_rules cd). \<not> expired e (ir_valid_until (fst x))] = map (document_rule e) (cd_rules cd)"
    using assms by (auto simp: filter_id_conv document_rule_simps)
  then show ?thesis by (simp add: desired_def split: list.splits)
qed

lemma compiled_length:
  assumes "compile_doc ce b = Inr cd" "from_json (de_lexer ce) (bytes_str b) = Inr doc"
  shows "length (cd_rules cd) = length (d_rules doc)"
proof -
  have "compile_parsed ce doc = Inr cd" using assms by (auto simp: compile_doc_def dc_parse_def result_simps)
  then obtain plan where "compile (de_host ce) doc \<lparr>cfg_interpreter_wasm_hash = 0\<rparr> = Inr plan"
      "list_all2 (\<lambda>l r. to_compiled ce l = Inr r) (pl_rules plan) (cd_rules cd)"
    using compile_parsed_Inr(6) by blast
  then show ?thesis using compile_Inr list_all2_lengthD by metis
qed

lemma onchain_admin_Inr:
  assumes "onchain_admin c r j account pubkey = Inr (i, v, rv)"
  obtains onchain me name m where "read_configuration c r j account = Inr (rv, onchain)" "scv_string ''admin'' = Inr name"
    "find (is_admin_rule me name) onchain = Some (i, m)"
proof -
  have signers: "i = i' \<and> rv = rv'" if "(case x of Some (SV_Vec (Some signers)) \<Rightarrow> and_then (find_external c pubkey signers) (\<lambda>v. Inr (i', v, rv'))
      | _ \<Rightarrow> Inl CE_BadShape) = Inr (i, v, rv)" for x i' rv'
    using that by (auto simp: and_then_eq_Inr split: option.splits scval.splits)
  obtain rv' onchain me name i' m where o': "read_configuration c r j account = Inr (rv', onchain)" "scv_string ''admin'' = Inr name"
      "find (is_admin_rule me name) onchain = Some (i', m)"
      "(case map_get m ''signers'' of Some (SV_Vec (Some signers)) \<Rightarrow> and_then (find_external c pubkey signers) (\<lambda>v. Inr (i', v, rv'))
      | _ \<Rightarrow> Inl CE_BadShape) = Inr (i, v, rv)"
    using assms unfolding onchain_admin_def by (elim and_then_InrE) (auto simp: and_then_eq_Inr)
  then show ?thesis using signers [OF o'(4)] by (intro that) auto
qed

section \<open>A server for the demo account\<close>

text \<open>Texts of values by number.\<close>

instance address :: countable
  by countable_datatype

instance scval :: countable
  by countable_datatype

instance op :: countable
  by countable_datatype

definition demo_text :: "'a::countable \<Rightarrow> string" where
  "demo_text v = CHR ''x'' # replicate (to_nat v) (CHR ''x'')"

definition demo_value :: "string \<Rightarrow> 'a::countable" where
  "demo_value s = from_nat (length s - 1)"

lemma demo_value_text [simp]: "demo_value (demo_text v) = v"
  by (simp add: demo_value_def demo_text_def)

definition demo_install :: "install_params \<Rightarrow> scval" where
  "demo_install p = SV_Map (Some [(SV_Symbol ''params'',
     SV_Other (to_nat (rp_version (ip_program p), rp_ops (ip_program p), ip_doc_hash p)))])"

definition demo_compose :: compose_env where
  "demo_compose = \<lparr>ko_host = acct_host, ko_lexer = de_lexer acct_compiler,
     ko_hexd = (\<lambda>s. if take 1 s = ''x'' then Some (demo_value s) else de_hexd acct_compiler s), ko_hex = demo_text,
     ko_install_scval = (\<lambda>p. Some (demo_install p)), ko_base64 = demo_text\<rparr>"

definition demo_rule_scval :: "installed_rule \<Rightarrow> scval" where
  "demo_rule_scval q = SV_Map (Some [(SV_Symbol ''context_type'', context_scval (ir_context_type q)),
     (SV_Symbol ''id'', SV_U32 (ir_id q)), (SV_Symbol ''name'', SV_String (ir_name q)), (SV_Symbol ''recovery'', SV_Bool (ir_recovery q))])"

definition demo_reply :: "account_storage \<Rightarrow> string \<Rightarrow> scval" where
  "demo_reply st f =
     (if f = ''configuration'' then SV_Map (Some [(SV_Symbol ''revision'', SV_U64 (revision st)),
        (SV_Symbol ''rules'', SV_Vec (Some (map demo_rule_scval (installed_rules st))))])
      else if f = ''applied_doc_hash''
      then (case as_applied_doc st of None \<Rightarrow> SV_Void | Some h \<Rightarrow> SV_Bytes (bytes32_to_array h))
      else if f = ''revision'' then SV_U64 (revision st) else SV_Void)"

definition demo_view_rpc :: "account_storage \<Rightarrow> nat rpc" where
  "demo_view_rpc st = demo_rpc\<lparr>rq_simulate := (\<lambda>_ tx. case tx_operations tx of
       [OB_InvokeHostFunction (HF_InvokeContract _ f _) _] \<Rightarrow> Some (demo_simulation\<lparr>sm_result_xdr := Some (demo_text (demo_reply st f))\<rparr>)
     | _ \<Rightarrow> None), rq_scval := (\<lambda>s. Some (demo_value s))\<rparr>"

lemma demo_strkeys:
  "cl_strkey demo_client ''account'' = Some (ContractId 1)" "cl_strkey demo_client ''interpreter'' = Some (ContractId 11)"
  by (simp_all add: demo_client_def)

lemma demo_read:
  assumes "account = ''account'' \<or> account = ''interpreter''" "length f \<le> 32" "length args \<le> XDR_MAX"
  shows "simulate_read demo_client (demo_view_rpc st) j account f args = Inr (RO_Value (demo_reply st f))"
  using assms by (auto simp: simulate_read_def build_tx_def scv_contract_def sized_def demo_client_def demo_view_rpc_def demo_simulation_def)

lemma demo_rules_encoded: "list_all2 encodes_rule (map demo_rule_scval qs) qs"
  by (induction qs) (simp_all add: encodes_rule_def demo_rule_scval_def)

lemma demo_served:
  "served demo_client (demo_view_rpc (ac_store s)) demo_compose ''account'' ''interpreter'' demo_account (\<lambda>_. s) (\<lambda>_. initial_interp)"
proof -
  have "encodes_configuration (demo_reply (ac_store s) ''configuration'') (configuration demo_account (ac_store s))"
    using demo_rules_encoded by (simp add: encodes_configuration_def demo_reply_def configuration_def)
  then show ?thesis
    by (simp add: served_def demo_read demo_self demo_strkeys get_program_def initial_interp_def) (simp add: demo_reply_def)
qed

lemma char_of_x:
  assumes "n mod 256 \<noteq> (120 :: nat)"
  shows "char_of n \<noteq> CHR ''x''"
proof
  assume "char_of n = CHR ''x''"
  then have "of_char (char_of n :: char) = (of_char (CHR ''x'') :: nat)" by simp
  then show False using assms by simp
qed

lemma trim_demo_text: "trim (demo_text v) = demo_text v"
proof -
  have r: "replicate m (CHR ''x'') @ ''x'' = CHR ''x'' # replicate m (CHR ''x'')" for m
    by (simp add: replicate_append_same)
  have "trim_with ws n (CHR ''x'' # s) = CHR ''x'' # s" if "list_all (\<lambda>w. w \<noteq> [] \<and> hd w \<noteq> CHR ''x'') ws" for ws n s
  proof (cases n)
    case (Suc m)
    have "find (\<lambda>w. take (length w) (CHR ''x'' # s) = w) ws = None"
      using that by (induction ws) (auto simp: take_Cons split: nat.splits)
    then show ?thesis using Suc by simp
  qed simp
  moreover have "list_all (\<lambda>w. w \<noteq> [] \<and> hd w \<noteq> CHR ''x'') WHITESPACE" "list_all (\<lambda>w. w \<noteq> [] \<and> hd w \<noteq> CHR ''x'') (map rev WHITESPACE)"
    by (simp_all add: WHITESPACE_def upt_rec char_of_x)
  ultimately have t: "trim_with WHITESPACE n (CHR ''x'' # s) = CHR ''x'' # s" "trim_with (map rev WHITESPACE) n (CHR ''x'' # s) = CHR ''x'' # s" for n s
    by blast+
  have "rev (demo_text v) = demo_text v" by (simp add: demo_text_def r)
  then show ?thesis unfolding trim_def Let_def by (simp only: demo_text_def t)
qed

lemma demo_text_laws: "text_laws (demo_view_rpc st) demo_compose"
proof -
  have "inj (\<lambda>p. Some (demo_install p))"
    by (auto simp: inj_def demo_install_def)
  then show ?thesis
    by (simp add: text_laws_def demo_view_rpc_def demo_compose_def trim_demo_text)
      (simp add: demo_text_def demo_install_def)
qed

definition demo_reviewed :: compose_output where
  "demo_reviewed = \<lparr>cm_doc_hash = demo_text (bytes32_to_array 3), cm_account = ''account'', cm_interpreter = ''interpreter'',
     cm_interpreter_wasm_hash = demo_text (bytes32_to_array 9),
     cm_genesis_rule = Some \<lparr>ry_expected_rule_id = 0, ry_name = ''admin'', ry_call_contract = ''account'', ry_valid_until = None,
       ry_signers = [SJ_External demo_verifier ''01''], ry_install = None, ry_cap = None\<rparr>,
     cm_apply = []\<rparr>"

lemma demo_parsed: "from_json (ko_lexer demo_compose) text = Inr (enrolled_doc ''01'')"
proof -
  have "ko_lexer demo_compose MAX_DEPTH text = Some (canonical_tree (doc_to_cv (enrolled_doc ''01'')))"
    by (simp add: demo_compose_def acct_compiler_def)
  moreover have "d_version (enrolled_doc ''01'') = 1" by (simp add: enrolled_doc_def)
  ultimately show ?thesis using canonical_version [of "enrolled_doc ''01''"] by (auto simp: from_json_Inr doc_roundtrip)
qed

lemma demo_valid: "validate (ko_hexd demo_compose) (enrolled_doc ''01'') = Inr ()"
proof -
  have "ko_hexd demo_compose ''01'' = de_hexd demo_env ''01''" by (simp add: demo_compose_def acct_compiler_def demo_env_def demo_key)
  then have "well_formed (ko_hexd demo_compose) (enrolled_doc ''01'')"
    using demo_enrolled_well_formed [of "''01''"] by (simp add: well_formed_def enrolled_doc_def wf_signers_def demo_admin_def wf_rule_def)
  then show ?thesis by (simp add: validate_def Let_def validation_errors_Nil)
qed

lemma demo_parse_hash: "parse_hash32 (ko_hexd demo_compose) (demo_text (bytes32_to_array h)) = Inr h"
  by (simp add: parse_hash32_def trim_demo_text) (simp add: demo_compose_def demo_text_def demo_value_def)

lemma demo_composed:
  "compose demo_compose text ''account'' ''interpreter'' (demo_text (bytes32_to_array 9)) = Inr demo_reviewed"
proof -
  have host: "ko_host demo_compose = acct_host" "ko_hex demo_compose = demo_text" by (simp_all add: demo_compose_def)
  have p: "compile acct_host (enrolled_doc ''01'') cfg =
     Inr \<lparr>pl_rules = [\<lparr>lr_name = ''admin'', lr_scope = ScopeSpec_SelfAdmin, lr_signers = [SignerSpec_External demo_verifier ''01''],
       lr_valid_until = None, lr_install = None, lr_cap = None\<rparr>], pl_interpreter_wasm_hash = None\<rparr>" for cfg
    by (simp add: compile_def lower_rule_def resolve_signer_def enrolled_doc_def demo_admin_def lower_cap_def lower_expiry_def)
  show ?thesis
    by (simp add: compose_def demo_parsed demo_valid demo_parse_hash host p verify_plan_matches_doc_def rule_entry_of_def install_text_def
        doc_hash_hex_def doc_hash_def acct_compiler_simps demo_reviewed_def)
qed

text \<open>An account that holds the document's rule and nothing else.\<close>

definition demo_state :: "demo_store account_state" where
  "demo_state = demo_a0\<lparr>ac_store := (ac_store demo_a0)\<lparr>as_applied_doc := Some 3, as_revision := Some 1\<rparr>\<rparr>"

lemma demo_verified:
  "\<exists>rows. verify_run demo_client (demo_view_rpc (ac_store demo_state)) (ko_hexd demo_compose) ''account'' ''interpreter'' demo_reviewed = Inr rows"
proof -
  let ?r = "demo_view_rpc (ac_store demo_state)"
  have st: "installed_rules (ac_store demo_state) = [demo_record0]" "revision (ac_store demo_state) = 1" "as_applied_doc (ac_store demo_state) = Some 3"
    by (simp_all add: demo_state_def demo_a0_simps installed_rules_def revision_def)
  have cfg: "read_configuration demo_client ?r 0 ''account'' = Inr (1, [(0,
      [(SV_Symbol ''context_type'', context_scval (CR_CallContract (ContractId 1))), (SV_Symbol ''id'', SV_U32 0),
       (SV_Symbol ''name'', SV_String ''admin''), (SV_Symbol ''recovery'', SV_Bool False)])])"
    by (simp add: read_configuration_def demo_read) (simp add: demo_reply_def st demo_rule_scval_def configured_rule_def)
  have hash: "check_applied_hash demo_client ?r (ko_hexd demo_compose) (Suc 0) ''account'' (demo_text (bytes32_to_array 3)) =
      Inr \<lparr>rw_rule_id = None, rw_name = ''(document)'', rw_check = ''applied hash'', rw_mismatch = None\<rparr>"
    by (simp add: check_applied_hash_def demo_parse_hash demo_read scv_bytes_def sized_def) (simp add: demo_reply_def st)
  have rv: "read_revision demo_client ?r j ''account'' = Inr 1" for j
    by (simp add: read_revision_def demo_read) (simp add: demo_reply_def st)
  have prog: "simulate_read demo_client ?r j ''interpreter'' ''get_program'' args = Inr (RO_Value SV_Void)" if "length args = 2" for j args
    using that by (simp add: demo_read) (simp add: demo_reply_def)
  show ?thesis
    by (simp add: verify_run_def demo_reviewed_def expected_rules_def cfg hash rv check_rule_def check_program_def prog scv_string_def sized_def
        call_contract_context_def scv_sym_def scv_address_def scv_contract_def scv_vec_def demo_strkeys)
qed

section \<open>Properties\<close>

text \<open>
  C25. A passed verification means installed is reviewed. Let the account change while \<open>verify\<close> reads it:
  if \<open>verify\<close> accepts the composition of a document, then in the one configuration that all its reads
  saw, the applied document's hash is the reviewed document's, the installed rules are as many as the
  document's and have the document's names, and every rule the document lowers to has a rule of its
  name and scope whose program in the interpreter, when it was read, is the compiled one, or absent.
\<close>

theorem verified_account_runs_the_document:
  assumes "compose k doc_json account interpreter wasm = Inr out" "verify_run c r (ko_hexd k) account interpreter out = Inr rows"
    and "served c r k account interpreter n S P" "text_laws r k" "\<forall>i. (account_move n X)\<^sup>*\<^sup>* (S i) (S (Suc i))"
  shows "\<exists>doc cfg plan. from_json (ko_lexer k) doc_json = Inr doc \<and> compile (ko_host k) doc cfg = Inr plan \<and>
    as_applied_doc (ac_store (S 0)) = Some (doc_hash (h_sha256 (ko_host k)) doc) \<and>
    length (installed_rules (ac_store (S 0))) = length (d_rules doc) \<and>
    ir_name ` set (installed_rules (ac_store (S 0))) = r_name ` set (d_rules doc) \<and>
    (\<forall>rl \<in> set (pl_rules plan). \<exists>q \<in> set (installed_rules (ac_store (S 0))). \<exists>a i. ir_name q = lr_name rl \<and>
       ir_context_type q = CR_CallContract a \<and>
       (case lr_scope rl of ScopeSpec_SelfAdmin \<Rightarrow> a = an_self n | ScopeSpec_Contract t \<Rightarrow> cl_strkey c t = Some a) \<and>
       get_program (P i) (an_self n) (ir_id q) = lr_install rl)"
proof -
  obtain doc cfg plan where d: "from_json (ko_lexer k) doc_json = Inr doc" "well_formed (ko_hexd k) doc"
      "compile (ko_host k) doc cfg = Inr plan" "cm_doc_hash out = doc_hash_hex k doc" "length (expected_rules out) = length (d_rules doc)"
      "\<forall>rl \<in> set (pl_rules plan). \<exists>x \<in> set (expected_rules out). entry_for k account rl x"
    by (rule compose_Inr [OF assms(1)])
  obtain rv onchain hash_row rule_rows j where v: "read_configuration c r 0 account = Inr (rv, onchain)"
      "check_applied_hash c r (ko_hexd k) 1 account (cm_doc_hash out) = Inr hash_row" "rw_mismatch hash_row = None"
      "check_rules c r 2 account interpreter onchain (expected_rules out) = Inr (rule_rows, j)"
      "list_all (\<lambda>rw. rw_mismatch rw = None) rule_rows" "length onchain = length (expected_rules out)" "read_revision c r j account = Inr rv"
    by (rule verify_run_Inr [OF assms(2)])
  let ?rs = "installed_rules (ac_store (S 0))"
  have on: "list_all2 shows_rule onchain ?rs" "rv = revision (ac_store (S 0))"
    using read_configuration_served [OF assms(3), of 0] v(1) by auto
  note rules = check_rules_ok [OF v(4,5) on(1) assms(3,4)]
  have "revision (ac_store (S 0)) = revision (ac_store (S j))"
    using v(7) on(2) assms(3) by (auto simp: read_revision_def served_def)
  then have "same_authorization (ac_store (S 0)) (ac_store (S 1))" using run_same [OF assms(5), of j 1] rules by simp
  moreover have "as_applied_doc (ac_store (S 1)) = Some (doc_hash (h_sha256 (ko_host k)) doc)"
    using applied_hash_ok [OF v(2,3) _ assms(3)] parse_doc_hash [OF assms(4)] d(4) by simp
  ultimately have hash: "as_applied_doc (ac_store (S 0)) = Some (doc_hash (h_sha256 (ko_host k)) doc)"
    by (simp add: same_authorization_def)
  have len: "length ?rs = length (d_rules doc)" using list_all2_lengthD [OF on(1)] v(6) d(5) by simp
  have each: "\<exists>q \<in> set ?rs. \<exists>a i. ir_name q = lr_name rl \<and> ir_context_type q = CR_CallContract a \<and>
       (case lr_scope rl of ScopeSpec_SelfAdmin \<Rightarrow> a = an_self n | ScopeSpec_Contract t \<Rightarrow> cl_strkey c t = Some a) \<and>
       get_program (P i) (an_self n) (ir_id q) = lr_install rl" if rl: "rl \<in> set (pl_rules plan)" for rl
  proof -
    obtain x where x: "x \<in> set (expected_rules out)" "entry_for k account rl x" using d(6) rl by blast
    then obtain q a i where q: "q \<in> set ?rs" "ir_name q = ry_name x" "cl_strkey c (ry_call_contract x) = Some (ContractId a)"
        "ir_context_type q = CR_CallContract (ContractId a)" "program_read r k (P i) (an_self n) (ir_id q) (ry_install x)"
      using rules by blast
    have "get_program (P i) (an_self n) (ir_id q) = lr_install rl"
      by (rule program_read_install [OF q(5) _ assms(4)]) (simp add: x(2) [unfolded entry_for_def])
    moreover have "case lr_scope rl of ScopeSpec_SelfAdmin \<Rightarrow> ContractId a = an_self n | ScopeSpec_Contract t \<Rightarrow> cl_strkey c t = Some (ContractId a)"
      using q(3) x(2) assms(3) by (auto simp: entry_for_def served_def split: scope_spec.splits)
    ultimately show ?thesis using q x(2) by (auto simp: entry_for_def)
  qed
  have "list_all2 (\<lambda>r l. lr_name l = r_name r) (d_rules doc) (pl_rules plan)"
    using compile_Inr [OF d(3)] by (rule list_all2_mono) (simp add: lower_rule_Inr(1))
  then have same: "map r_name (d_rules doc) = map lr_name (pl_rules plan)" by (auto simp: list_all2_conv_all_nth intro!: nth_equalityI)
  have "lr_name rl \<in> ir_name ` set ?rs" if "rl \<in> set (pl_rules plan)" for rl using each [OF that] by (metis imageI)
  then have names: "r_name ` set (d_rules doc) \<subseteq> ir_name ` set ?rs" using arg_cong [OF same, of set] by auto
  have "distinct (map r_name (d_rules doc))" using d(2) by (simp add: well_formed_def)
  then have "card (r_name ` set (d_rules doc)) = length ?rs" using len by (metis distinct_card length_map set_map)
  from covers_names [OF names this] show ?thesis using d(1,3) hash len each by blast
qed

text \<open>Witness of C25: the demo account's document, verified against an account that holds its rule.\<close>

theorem verified_account_runs_the_document_witness:
  "\<exists>doc. as_applied_doc (ac_store demo_state) = Some (doc_hash (h_sha256 acct_host) doc) \<and>
     ir_name ` set (installed_rules (ac_store demo_state)) = r_name ` set (d_rules doc)"
proof -
  obtain rows where rows: "verify_run demo_client (demo_view_rpc (ac_store demo_state)) (ko_hexd demo_compose) ''account'' ''interpreter'' demo_reviewed = Inr rows"
    using demo_verified by blast
  have "\<forall>i. (account_move demo_account demo_contracts)\<^sup>*\<^sup>* ((\<lambda>_. demo_state) i) ((\<lambda>_. demo_state) (Suc i))" by simp
  from verified_account_runs_the_document [OF demo_composed [of "[]"] rows demo_served demo_text_laws this]
  obtain doc where "as_applied_doc (ac_store demo_state) = Some (doc_hash (h_sha256 (ko_host demo_compose)) doc)"
      "ir_name ` set (installed_rules (ac_store demo_state)) = r_name ` set (d_rules doc)"
    by blast
  then show ?thesis by (auto simp: demo_compose_def)
qed

text \<open>
  C39. \<open>verify\<close> refuses every recovery document. Right after an account has applied a document that adopts
  a recovery controller, all of its rules in force, \<open>verify\<close> fails on the composition of that very
  document: the account reports the recovery rule among its rules and \<open>verify\<close> demands as many as the
  document has.
\<close>

theorem verify_refuses_recovery_documents:
  assumes "account_reach n X view h s" "account_laws X view" "account_deployed n X ce"
    and "apply_doc (invocation n t auth) X b u rr s = Inr (dh, s')" "compile_doc ce b = Inr cd" "cd_recovery cd \<noteq> []"
    and "\<forall>q \<in> set (cd_rules cd). \<not> expired ((an_rules n)\<lparr>re_now := t\<rparr>) (cr_valid_until q)"
    and "compose k (bytes_str b) account interpreter wasm = Inr out" "ko_lexer k = de_lexer ce"
    and "served c r k account interpreter n (\<lambda>_. s') P"
  shows "\<exists>err. verify_run c r (ko_hexd k) account interpreter out = Inl err"
proof (rule ccontr)
  assume "\<not> ?thesis"
  then obtain rows where "verify_run c r (ko_hexd k) account interpreter out = Inr rows"
    by (cases "verify_run c r (ko_hexd k) account interpreter out") auto
  then obtain rv onchain where v: "read_configuration c r 0 account = Inr (rv, onchain)" "length onchain = length (expected_rules out)"
    by (rule verify_run_Inr)
  obtain doc where d: "from_json (de_lexer ce) (bytes_str b) = Inr doc" "length (expected_rules out) = length (d_rules doc)"
    using compose_Inr [OF assms(8)] assms(9) by metis
  have inv: "account_inv n X view h s" by (rule account_invariant [OF assms(2,3,1)])
  obtain c' where c': "ct_compile_doc X (an_doc_compiler n) b = Inr c'" "applied_from n X ((t, A_apply_doc b u rr) # h) c' t (ac_store s')"
    by (rule apply_installs [OF assms(2,3) inv assms(4) [unfolded apply_doc_def]])
  have "c' = cd" using c'(1) assms(3,5) by (simp add: account_deployed_def)
  then have "length (installed_rules (ac_store s')) = length (desired ((an_rules n)\<lparr>re_now := t\<rparr>) cd)"
    using c'(2) unfolding applied_from_def by (metis length_map)
  then have "length (installed_rules (ac_store s')) = Suc (length (d_rules doc))"
    using desired_length [OF assms(7)] compiled_length [OF assms(5) d(1)] assms(6) by simp
  moreover have "length onchain = length (installed_rules (ac_store s'))"
    using read_configuration_served [OF assms(10), of 0] v(1) by (auto dest: list_all2_lengthD)
  ultimately show False using v(2) d(2) by simp
qed

text \<open>Witness of C39: the demo account right after its first document, which adopts a controller.\<close>

theorem verify_refuses_recovery_documents_witness:
  "\<exists>s err. apply_doc (demo_inv 5) demo_contracts [] 0 (Some 0) demo_a0 = Inr (3, s) \<and>
     verify_run demo_client (demo_view_rpc (ac_store s)) (ko_hexd demo_compose) ''account'' ''interpreter'' demo_reviewed = Inl err"
proof -
  obtain s where s: "apply_doc (demo_inv 5) demo_contracts [] 0 (Some 0) demo_a0 = Inr (3, s)" using demo_applied by blast
  have "cd_recovery acct_compiled \<noteq> []" "\<forall>q \<in> set (cd_rules acct_compiled). \<not> expired ((an_rules demo_account)\<lparr>re_now := 5\<rparr>) (cr_valid_until q)"
    "ko_lexer demo_compose = de_lexer acct_compiler"
    by (simp_all add: acct_compiled_def expired_def demo_compose_def)
  from verify_refuses_recovery_documents [OF demo_reach0 demo_account_laws demo_deployed s acct_compiles this(1,2) demo_composed this(3) demo_served]
  show ?thesis using s by blast
qed

text \<open>
  An apply never overwrites what it has not seen. The client's apply names the revision it read and
  the document it checked; if the account executes it in a state that it reached from the state that
  was read, then nothing of the account's authorization changed in between, and the transaction asks
  for the account's own authorization under a rule named \<open>admin\<close> of that configuration.
\<close>

theorem client_apply_is_never_stale:
  assumes "apply_request c r k passphrase account doc_json seed = Inr (key, auth, spec)" "served c r k account interpreter n S P"
    and "(account_move n X)\<^sup>*\<^sup>* (S 0) s" "is_args spec = [SV_Bytes b, SV_U32 u, SV_U64 x]"
    and "apply_doc (invocation n t who) X b u (Some x) s = Inr (dh, s')"
  shows "same_authorization (ac_store (S 0)) (ac_store s) \<and> b = str_bytes_of doc_json \<and>
    (\<exists>doc. from_json (ko_lexer k) doc_json = Inr doc \<and> well_formed (ko_hexd k) doc \<and> d_network doc = Some passphrase) \<and>
    au_account auth = account \<and> (\<exists>q \<in> set (installed_rules (ac_store (S 0))). au_rule_id auth = ir_id q \<and> ir_name q = ''admin'')"
proof -
  obtain doc i v rv where a: "from_json (ko_lexer k) doc_json = Inr doc" "validate (ko_hexd k) doc = Inr ()" "d_network doc = Some passphrase"
      "onchain_admin c r 0 account (sk_public key) = Inr (i, v, rv)" "auth = \<lparr>au_mode = AM_External v, au_rule_id = i, au_account = account\<rparr>"
      "spec = \<lparr>is_contract = account, is_func = ''apply_doc'', is_args = [SV_Bytes (str_bytes_of doc_json), SV_U32 0, SV_U64 rv]\<rparr>"
    using assms(1) by (auto simp: apply_request_def and_then_eq_Inr)
  obtain onchain me name m where o': "read_configuration c r 0 account = Inr (rv, onchain)" "scv_string ''admin'' = Inr name"
      "find (is_admin_rule me name) onchain = Some (i, m)"
    by (rule onchain_admin_Inr [OF a(4)])
  have "rv = revision (ac_store (S 0))" "list_all2 shows_rule onchain (installed_rules (ac_store (S 0)))"
    using read_configuration_served [OF assms(2), of 0] o'(1) by auto
  moreover have "(i, m) \<in> set onchain" "map_get m ''name'' = Some (SV_String ''admin'')"
    using o'(2,3) by (auto simp: find_Some_iff is_admin_rule_def in_set_conv_nth scv_Inr)
  ultimately have q: "\<exists>q \<in> set (installed_rules (ac_store (S 0))). i = ir_id q \<and> ir_name q = ''admin''"
    by (auto simp: shows_rule_def elim!: list_all2_leftE)
  have "account_apply (invocation n t who) X b u (Some x) Mode_Cheapest s = Inr (dh, s')" using assms(5) by (simp add: apply_doc_def)
  then have "x = revision (ac_store s)" by (rule account_apply_Inr) (auto dest: apply_checks_Inr(2))
  then have "revision (ac_store (S 0)) = revision (ac_store s)" using a(6) assms(4) \<open>rv = revision (ac_store (S 0))\<close> by simp
  then have "same_authorization (ac_store (S 0)) (ac_store s)" using moves_revision [OF assms(3)] by (simp add: later_revision_def)
  moreover have "well_formed (ko_hexd k) doc" using a(2) by (simp add: validate_def validation_errors_Nil split: if_splits)
  ultimately show ?thesis using a q assms(4) by auto
qed

end
