(* ===== verification/Spec2Isabelle.thy ===== *)
theory Spec2Isabelle
  imports Interpreter Conformance Analyze Doc_Compiler Controller_Safety Zk_Prover Account_Cost Account_Factory Deploy_Verify
begin

text \<open>
  Perch is an account system on the Stellar network. An account's authorization is one policy
  document (JSON). The document compiler, a stateless contract, validates a document and lowers it
  to context rules; the account installs them with OpenZeppelin's account library and authorizes
  calls under them; a rule may carry a constraint program, which the interpreter contract evaluates
  as a policy; and a document may adopt a recovery controller, which replaces lost or stolen
  credentials on the evidence of guardians and of a zero-knowledge membership proof. This
  development models those contracts and proves what they promise, each alone and together.

  \<^bold>\<open>The parts and their theories\<close> (paths under \<open>src/crates/\<close>).

  \<^item> \<open>Perch_Prelude\<close>: machine integers with Rust's checked and saturating operations, results with
    \<open>?\<close> (\<open>and_then\<close>), byte strings and big-endian encodings, addresses, host values; the locales of
    stores that several tenants share.
  \<^item> \<open>Program\<close> (\<open>perch-program\<close>): constraint programs in postfix form, three-valued verdicts, the
    leaves' decoding of call arguments, the validator and the evaluator with its fixed stack.
    \<open>Interpreter\<close> (\<open>perch-interpreter\<close>): the policy contract that stores and enforces them.
  \<^item> \<open>Ir_Doc\<close>, \<open>Ir_Validate\<close>, \<open>Ir_Canon\<close>, \<open>Ir_Parse\<close>, \<open>Ir_Recovery\<close> (\<open>perch-ir\<close>): the documents,
    their semantic validation, canonical bytes and hashes, the fail-closed parser, and the
    derivation of a recovery target. \<open>Compile\<close> (\<open>perch-compile\<close>): lowering, static analysis,
    attenuation, activation.
  \<^item> \<open>Recovery_Interface\<close> (\<open>perch-recovery-interface\<close>): the statements guardians and provers sign,
    credentials, configurations, upgrade requests, and their encodings. \<open>Compiled_Doc\<close> and
    \<open>Doc_Compiler\<close> (\<open>perch-doc-compiler\<close>): the contract around \<open>perch-ir\<close> and \<open>perch-compile\<close>.
  \<^item> \<open>Controller\<close> (\<open>perch-recovery\<close>): storage and entry points of the controller.
    \<open>Controller_Steps\<close>: calls as a step relation; \<open>Controller_Spec\<close>: the recovery state machine of
    one account as a specification; \<open>Controller_Refines\<close>: the refinement; \<open>Controller_Safety\<close>: its
    consequences.
  \<^item> \<open>Zk_Pool\<close> (\<open>perch-zk-pool\<close>, \<open>perch-zk-primitives\<close>): the append-only membership tree;
    \<open>Zk_Merkle\<close>: that its roots are Merkle roots; \<open>Zk_Adapter\<close> (\<open>perch-zk-adapter\<close>): public inputs
    and the checks around the proof verifier; \<open>Zk_Prover\<close> (\<open>perch-zk-prover\<close>): the off-chain index of
    the pool, its incremental trees, Merkle paths and the circuit's inputs.
  \<^item> \<open>Account_Rules\<close> (\<open>perch-smart-account/src/rules.rs\<close>): reconciliation of the installed rules
    with a document; \<open>Account_Delta\<close>, \<open>Account_Reconcile\<close>, \<open>Account_Cost\<close>: that it installs the
    document, as a full replacement would, at no higher price. \<open>Account\<close>
    (\<open>perch-smart-account/src/lib.rs\<close>, \<open>perch-account\<close>): the account's entry points;
    \<open>Account_Steps\<close>: their effects and the step relation; \<open>Account_Demo\<close>: a concrete account;
    \<open>Account_Safety\<close>: its properties. \<open>Account_Factory\<close> (\<open>perch-account-factory\<close>).
  \<^item> Off-chain review. \<open>Analyze\<close> (\<open>perch-analyze\<close>): the SMT encoding of documents and its queries, with
    the solver as a parameter; \<open>Conformance\<close> (\<open>perch-conformance\<close>): the table of evaluation cases and its
    run; \<open>Deploy_Client\<close> and \<open>Deploy_Verify\<close> (\<open>perch-deploy\<close>): signing authorization entries, the write
    and read paths over RPC, publishing, and the commands \<open>compose\<close>, \<open>verify\<close> and \<open>apply\<close>.

  This theory composes them: the controller with the adapter and the pool behind it, and the
  account with the controller behind it.

  \<^bold>\<open>How the code is modelled.\<close> A struct is a record, an enum a datatype with the source's variants, a
  machine integer a word; arithmetic the source writes with \<open>+\<close> traps on overflow, as the contracts
  are built with overflow checks. An entry point is a function from the environment of its
  invocation (ledger, authorizations, the contracts it calls) and the state to an error or a result
  and the new state; its guards are in the order of the code. A failed invocation keeps none of its
  writes, so an error carries no state. Storage is a record of the keys, a map where the source has a
  keyed entry. Histories are inductive step relations: \<open>interp_exec\<close> and its runs, \<open>rcv_reach\<close> (with
  losses of temporary entries), \<open>pool_reach\<close>, \<open>account_reach\<close>. Code that is not in the repository
  (OpenZeppelin's library, the JSON lexer, SHA-256, the Poseidon2 permutation, XDR, proof and
  signature verifiers) is a parameter; what a theorem needs of it is a named hypothesis
  (\<open>oz_laws\<close>, \<open>account_laws\<close>, \<open>xdr_laws\<close>, \<open>sponge_laws\<close>, \<open>decode_laws\<close>, \<open>text_laws\<close>, \<open>served\<close> for an
  honest RPC server, a sound solver for \<open>Analyze\<close>), and each such theorem has a
  witness on a concrete instance.

  \<^bold>\<open>What the lemmas show.\<close>

  \<^item> Programs and rules: a program the validator accepts is a constraint tree and the evaluator
    computes its Kleene value; malformed programs and undecodable arguments never authorize; a
    compiled program means the document's rule; no rule passes without signatures.
  \<^item> Documents: validation decides a declarative well-formedness; canonical bytes identify a
    document and parsing inverts them; the compiler returns exactly the canonical identity; a
    derived recovery target is the source with the declared credentials replaced and applies.
  \<^item> Encodings: statements, credentials and replacement sets are prefix codes, so a digest
    identifies what was signed.
  \<^item> Recovery: every call of the controller is a transition of the specification (T1 to T9) for
    one account and leaves the others alone; a completion rests on a quorum and a proof for exactly
    its statement, after its delay; an authorized attempt can complete in its window; every attempt
    is for a target derived when it was opened, which its replaced credentials leave; under
    \<open>Protected\<close> a configuration changes only on the evidence of the enrolled condition for that change.
  \<^item> The pool: roots are Merkle roots of prefixes of the enrolled leaves; enrollments are unique.
  \<^item> The account: the stored rules are those of the applied document; an administrator always
    remains; only the recovery rule goes unsigned; no document with a revoked credential is applied,
    so a revoked credential signs only if the controller hands it back from the very document it
    completes to; a frozen account only completes; an upgrade waits; the delta equals a full
    replacement; the digest that is signed identifies the account.
  \<^item> Off-chain tools: the printed scripts can be read in one way only, and an answer of a sound solver
    to them proves what is claimed for plain ASCII constants, and not for constants with escapes; the evaluator passes the conformance table; a member's witness is
    accepted by the adapter; the client signs the digest the account checks, its submissions end, a
    passed \<open>verify\<close> means that installed is reviewed although the account may change meanwhile, and
    \<open>verify\<close> refuses every document with recovery.
  \<^item> Composition: a recovery completes only on a membership proof against the pool; an apply under
    an authorized attempt is the completion of that attempt and revokes what it replaced; with this
    controller and this compiler no credential of the applied document is revoked, unless the
    document collides with the derived target.

  \<^bold>\<open>Interfaces.\<close> \<open>tenant_store\<close> (a call writes the part of one tenant) is interpreted by the
  controller and extended by \<open>keyed_store\<close> (an entry changes only with its owner's authorization),
  interpreted by the interpreter; \<open>prefix_code\<close> by the encodings of \<open>Recovery_Interface\<close>;
  \<open>membership_pool\<close>, what the adapter relies on, by the pool; \<open>node_store\<close>, where the prover keeps
  subtree roots, by its memory store; \<open>rule_editor\<close>, the contract of the trait
  \<open>Effects\<close>, by the meter, and by the operations of the account under \<open>oz_laws\<close>.

  \<^bold>\<open>Bounds.\<close> Every function but one is total: loops are structural recursion over the data they walk, and
  the evaluator's stack and the tree's depth (32) have the sizes of the source. The client's polling
  loop may run forever on a clock that stands still; it is a partial function, and it is proved to end
  within 31 polls on a clock that a sleep moves on. No definition of the program takes fuel.

  \<^bold>\<open>Not modelled.\<close> Lifetimes of storage entries and their renewal (the \<open>renew\<close> entry points and
  \<open>extend_ttl\<close>, beyond the interpreter's), since an entry under renewal is present; the wrapper of
  OpenZeppelin's spending limit and the signature verifiers, whose work is outside the repository;
  the vendored proof verifier; HTTP, files, subprocesses and console output of the off-chain tools;
  the JSON schema, the registry macros, benchmarks and test drivers.
\<close>

section \<open>Recovery with the ZK adapter and the membership pool\<close>

text \<open>
  The chain as deployed: the controller's call of the configured adapter runs \<open>adapter_verify\<close>,
  which calls the configured pool, in a state that insertions reach. The verification key and the
  proof verifier are the same in every transaction.
\<close>

definition zk_wired :: "recovery_chain \<Rightarrow> sponge \<Rightarrow> bytes \<Rightarrow> (bytes \<Rightarrow> bytes \<Rightarrow> bool) \<Rightarrow> compiled_zk_factor \<Rightarrow> recovery_env \<Rightarrow> bool"
  where
  "zk_wired n P vk v z e \<longleftrightarrow>
     (\<exists>ae h s. pool_reach (rn_xdr n) P h s \<and> ae_sha256 ae = rn_sha256 n \<and> ae_xdr ae = rn_xdr n \<and> ae_sponge ae = P \<and>
        ae_vk ae = vk \<and> ae_verifier ae vk = Some v \<and>
        (\<forall>t r. ae_known_root ae (cz_pool z) t r = Some (is_known_root s t r)) \<and>
        (\<forall>st b ev. ce_verify e (cz_adapter z) st b ev =
           (if adapter_verify ae st b ev = Inr () then Some () else None)))"

definition membership_proved :: "recovery_chain \<Rightarrow> sponge \<Rightarrow> (bytes list \<Rightarrow> bytes32) \<Rightarrow> (bytes \<Rightarrow> bytes \<Rightarrow> bool) \<Rightarrow>
    compiled_zk_factor \<Rightarrow> recovery_statement \<Rightarrow> bytes32 \<Rightarrow> bool" where
  "membership_proved n P H v z st k \<longleftrightarrow>
     (\<exists>h s f L m. \<exists>ev :: zk_evidence. pool_reach (rn_xdr n) P h s \<and> L = chunk 32 (history_leaves (rn_xdr n) H h) (ev_tree_id ev) \<and>
        0 < m \<and> m \<le> length L \<and> ev_root ev = merkle_root H 32 (take m L) \<and>
        statement_fields (rn_sha256 n) (rn_xdr n) st (cz_enrollment_id z) = Inr f \<and>
        v (ev_proof ev) (public_inputs (ev_root ev) k (H (auth_preimage f))) \<and> is_canonical k)"

lemma wired_proof:
  assumes "xdr_laws (rn_xdr n)" "sponge_laws P H" "\<forall>e \<in> set h. zk_wired n P vk v z e" "proved h z st k"
  shows "membership_proved n P H v z st k \<and> cz_circuit_id z = rn_sha256 n vk"
proof -
  obtain e ev where e: "e \<in> set h" "ce_verify e (cz_adapter z) st (zk_factor_binding z) ev = Some ()" "ev_nullifier ev = k"
    using assms(4) by (auto simp: proved_def)
  obtain ae hp s where "pool_reach (rn_xdr n) P hp s \<and> ae_sha256 ae = rn_sha256 n \<and> ae_xdr ae = rn_xdr n \<and> ae_sponge ae = P \<and>
      ae_vk ae = vk \<and> ae_verifier ae vk = Some v \<and> (\<forall>t r. ae_known_root ae (cz_pool z) t r = Some (is_known_root s t r)) \<and>
      (\<forall>st b ev. ce_verify e (cz_adapter z) st b ev = (if adapter_verify ae st b ev = Inr () then Some () else None))"
    using bspec [OF assms(3) e(1)] unfolding zk_wired_def by blast
  then have ae: "pool_reach (rn_xdr n) P hp s" "ae_sha256 ae = rn_sha256 n" "ae_xdr ae = rn_xdr n" "ae_sponge ae = P"
      "ae_vk ae = vk" "ae_verifier ae vk = Some v" "\<forall>t r. ae_known_root ae (cz_pool z) t r = Some (is_known_root s t r)"
      "adapter_verify ae st (zk_factor_binding z) ev = Inr ()"
    using e(2) by (simp_all split: if_splits)
  have b: "zb_pool (zk_factor_binding z) = cz_pool z" "zb_circuit_id (zk_factor_binding z) = cz_circuit_id z"
    "zb_enrollment_id (zk_factor_binding z) = cz_enrollment_id z"
    by (simp_all add: zk_factor_binding_def)
  show ?thesis
    using ae adapter_ok_iff [OF assms(1,2) ae(1), of ae "zk_factor_binding z" st ev] e(3)
    unfolding membership_proved_def b circuit_id_def by (simp add: b) blast
qed

text \<open>
  C10. End to end, with the adapter and the pool of the deployment behind the controller: a recovery
  of an account with a ZK factor completes only if the verifier accepted a proof for the public
  inputs of the attempt's own initiation statement, under the configured circuit and enrollment,
  against the Merkle root of a nonempty prefix of the leaves enrolled in the configured pool, with
  a canonical nullifier that was unspent before the completion and is spent after it.
\<close>

theorem completed_recovery_has_membership_proof:
  assumes "rcv_reach n h s" "ce_chain e = n" "rcv_sync e s a dh cs u = Inr (Completed co, s')"
    and "rs_config s a = Some c" "config_zk c = Some z"
    and "xdr_laws (rn_xdr n)" "sponge_laws P H" "\<forall>e \<in> set (map fst h). zk_wired n P vk v z e"
  shows "cz_circuit_id z = rn_sha256 n vk \<and>
    (\<exists>x k. load_attempt s a (co_attempt_id co) = Some x \<and>
       membership_proved n P H v z (initiation_statement n a c x) k \<and> \<not> nullifier_spent s a k \<and> nullifier_spent s' a k)"
proof -
  obtain x k where "load_attempt s a (co_attempt_id co) = Some x" "proved (map fst h) z (initiation_statement n a c x) k"
      "\<not> nullifier_spent s a k" "nullifier_spent s' a k"
    using completion_core [OF assms(1-3)] assms(4,5) by auto
  then show ?thesis using wired_proof [OF assms(6-8)] by blast
qed

text \<open>The demo recovery, with the demo adapter and pool behind it.\<close>

definition demo_wired :: "pool_storage \<Rightarrow> address \<Rightarrow> recovery_statement \<Rightarrow> zk_binding \<Rightarrow> zk_evidence \<Rightarrow> unit option" where
  "demo_wired s _ st b ev =
     (if adapter_verify ((demo_adapter_env s)\<lparr>ae_sha256 := (\<lambda>_. 9)\<rparr>) st b ev = Inr () then Some () else None)"

definition demo_member :: zk_evidence where "demo_member = demo_membership\<lparr>ev_nullifier := 70\<rparr>"

lemma demo_wired_accepts:
  assumes "pool_reach demo_xdr demo_sponge [(ContractId 1, 5, 0)] s"
    and "st_account st = ContractId 1" "st_controller st = ContractId 2" "zb_circuit_id b = 9"
  shows "demo_wired s a st b demo_member = Some ()"
proof -
  have c: "is_canonical_field (bytes32_to_array 70)" "is_canonical_field (bytes32_to_array demo_root)"
    using demo_root_canonical by (simp_all add: is_canonical_def [symmetric] is_canonical_iff bn254_scalar_order_def)
  have f: "\<exists>f. statement_fields (\<lambda>_. 9) demo_xdr st (zb_enrollment_id b) = Inr f"
    by (simp add: statement_fields_def statement_digest_def statement_encode_def assms contract_id_eq [OF demo_xdr_laws]
        split: prod.splits)
  then show ?thesis
    using c demo_root_known [OF assms(1)] assms(4)
    by (auto simp: demo_wired_def adapter_verify_def demo_adapter_env_def demo_member_def demo_membership_def circuit_id_def
        PROOF_BYTES_def statement_hash_def hash_fields_def demo_sponge_def Let_def)
qed

text \<open>Witness of C10: the demo recovery, whose proof the demo adapter accepts against the demo pool.\<close>

theorem completed_recovery_has_membership_proof_witness:
  "\<exists>v z x k. config_zk (demo_config 50) = Some z \<and> load_attempt demo_s5 (ContractId 1) 0 = Some x \<and>
     membership_proved demo_chain demo_sponge demo_hash v z (initiation_statement demo_chain (ContractId 1) (demo_config 50) x) k"
proof -
  obtain p where p: "pool_reach demo_xdr demo_sponge [(ContractId 1, 5, 0)] p" using demo_pool by blast
  have r: "rcv_reach demo_chain (demo_history_with (demo_wired p) demo_member) demo_s5"
    by (rule demo_reach_with(4)) (simp_all add: demo_wired_accepts [OF p], simp add: demo_member_def)
  obtain s' where s': "rcv_sync (demo_env_with (demo_wired p) 120) demo_s5 (ContractId 1) 6 [demo_config 51] 0 =
      Inr (Completed \<lparr>co_attempt_id = 0, co_replaced = [Cred_Delegated (ContractId 60)]\<rparr>, s')"
    using demo_completed by blast
  obtain z where z: "config_zk (demo_config 50) = Some z" "cz_adapter z = ContractId 30"
    by (simp add: demo_config_def config_zk_def)
  let ?ae = "(demo_adapter_env p)\<lparr>ae_sha256 := (\<lambda>_. 9)\<rparr>"
  have w: "zk_wired demo_chain demo_sponge [] (\<lambda>_ _. True) z (demo_env_with (demo_wired p) t)" for t
    unfolding zk_wired_def
    by (rule exI [of _ ?ae], rule exI [of _ "[(ContractId 1, 5, 0)]"], rule exI [of _ p])
       (simp add: p demo_chain_def demo_adapter_env_def demo_env_with_def demo_wired_def)
  have "\<forall>e \<in> set (map fst (demo_history_with (demo_wired p) demo_member)). zk_wired demo_chain demo_sponge [] (\<lambda>_ _. True) z e"
    using w by (simp add: demo_history_with_def)
  moreover have "rs_config demo_s5 (ContractId 1) = Some (demo_config 50)" "ce_chain (demo_env_with (demo_wired p) 120) = demo_chain"
    "xdr_laws (rn_xdr demo_chain)"
    using demo_xdr_laws by (simp_all add: demo_states demo_s5_def demo_env_with_def demo_chain_def)
  ultimately show ?thesis
    using completed_recovery_has_membership_proof [OF r _ s' _ z(1) _ demo_sponge_laws] z(1) by fastforce
qed

section \<open>Recovery of an account through its controller\<close>

text \<open>
  The account's call of \<open>rcv_sync\<close> on the controller \<open>k\<close> runs the controller's model: \<open>st\<close> is the
  controller's storage in the world the account calls into, \<open>env\<close> the environment of that call.
\<close>

definition controller_wired :: "'w contracts \<Rightarrow> address \<Rightarrow> recovery_chain \<Rightarrow> ('w \<Rightarrow> recovery_env) \<Rightarrow> ('w \<Rightarrow> recovery_storage) \<Rightarrow> bool"
  where
  "controller_wired X k n env st \<longleftrightarrow> rn_self n = k \<and> (\<forall>w. ce_chain (env w) = n) \<and>
     (\<forall>a dh cs u w r w'. ct_rcv_sync X k a dh cs u w = Inr (r, w') \<longrightarrow> rcv_sync (env w) (st w) a dh cs u = Inr (r, st w'))"

lemma sync_in_window_completes:
  assumes "rcv_sync e s a dh cs u = Inr (out, s')" "authorized_live e s a = Some x"
  shows "\<exists>co. out = Completed co"
proof -
  have "authorized_live e (s\<lparr>rs_completing := m\<rparr>) a = authorized_live e s a" for m
    by (auto simp: authorized_live_def is_live_def epoch_of_def Let_def split: option.splits attempt_state.splits)
  then obtain m where "complete e (s\<lparr>rs_completing := (rs_completing s)(a := None)\<rparr>) a m (case cs of [] \<Rightarrow> None | c # _ \<Rightarrow> Some c) dh = Inr (out, s')"
    using assms by (auto simp: rcv_sync_def result_simps Let_def split: option.splits if_splits)
  then show ?thesis by (auto simp: complete_def result_simps Let_def split: if_splits)
qed

text \<open>
  C2. Account and controller together: while an authorized attempt is live, an apply of the
  account, whichever way it reconciles the rules, succeeds only as the completion of an authorized attempt. The document it applies is the
  attempt's target, the delay of the configuration has passed since its authorization, a quorum of
  the guardians approved its initiation statement, the account leaves the freeze, drops the pending
  upgrade, advances its recovery generation, and revokes every credential the attempt replaced.
\<close>

theorem recovery_completes_exactly_the_target:
  assumes "account_apply e X b u r mode s = Inr (dh, s')" "as_recovery_controller (ac_store s) = Some k"
    and "controller_wired X k n env st" "rcv_reach n h (st (ac_world s))"
    and "authorized_live (env (ac_world s)) (st (ac_world s)) (an_self e) \<noteq> None"
  shows "\<exists>i x c. rs_config (st (ac_world s)) (an_self e) = Some c \<and> load_attempt (st (ac_world s)) (an_self e) i = Some x \<and>
    at_state x = St_Authorized \<and> dh = at_target_doc_hash x \<and> as_applied_doc (ac_store s') = Some dh \<and>
    unat (at_authorized_at x) + unat (cc_delay_ledgers c) \<le> unat (ce_now (env (ac_world s))) \<and>
    (\<forall>gs. config_guardians c = Some gs \<longrightarrow>
       (\<exists>G \<subseteq> set (cg_guardians gs). unat (cg_quorum gs) \<le> card G \<and>
          (\<forall>g \<in> G. \<exists>d. rcv_digest n (initiation_statement n (an_self e) c x) = Inr d \<and> approved (map fst h) g d))) \<and>
    as_recovery_controller (ac_store s') = Some k \<and> as_gate (ac_store s') = None \<and> as_pending_upgrade (ac_store s') = None \<and>
    unat (generation (ac_store s)) < unat (generation (ac_store s')) \<and>
    (\<forall>cr \<in> set (at_replaced x). \<exists>f. fingerprint (an_sha256 e) (an_xdr e) cr = Inr f \<and> is_revoked (ac_store s') f)"
proof -
  let ?w = "ac_world s"
  obtain c outcome s1 delta s2 where a: "dh = cd_doc_hash c" "sync_controllers e X c u s = Inr (outcome, s1)"
      "apply_rules e X c mode s1 = Inr (delta, s2)" "as_recovery_controller (ac_store s') = as_recovery_controller (ac_store s2)"
      "as_recovery_generation (ac_store s') = as_recovery_generation (ac_store s2)" "as_applied_doc (ac_store s') = Some dh"
      "completion_effect e outcome c (ac_store s2) (ac_store s')"
    using account_apply_Inr [OF assms(1)] .
  obtain w' where w': "rcv_sync (env ?w) (st ?w) (an_self e) dh (cd_recovery c) u = Inr (outcome, st w')"
  proof -
    have "\<exists>s1. sync_one e X k c u s = Inr (outcome, s1)"
      using a(2) assms(2) by (auto simp: sync_controllers_def result_simps Let_def)
    then show thesis using that sync_one_Inr(1) assms(3) a(1) unfolding controller_wired_def by metis
  qed
  obtain co where co: "outcome = Completed co" using sync_in_window_completes [OF w'] assms(5) by blast
  have n: "ce_chain (env ?w) = n" "rn_self n = k" using assms(3) by (simp_all add: controller_wired_def)
  obtain x cfg new rest where x: "rs_config (st ?w) (an_self e) = Some cfg" "cd_recovery c = new # rest"
      "load_attempt (st ?w) (an_self e) (co_attempt_id co) = Some x" "at_state x = St_Authorized" "co_replaced co = at_replaced x"
      "dh = at_target_doc_hash x" "cc_controller new = rn_self n" "at_executable_after x \<le> ce_now (env ?w)"
      "unat (at_executable_after x) = unat (at_authorized_at x) + unat (cc_delay_ledgers cfg)"
      "\<forall>gs. config_guardians cfg = Some gs \<longrightarrow>
       (\<exists>G \<subseteq> set (cg_guardians gs). unat (cg_quorum gs) \<le> card G \<and>
          (\<forall>g \<in> G. \<exists>d. rcv_digest n (initiation_statement n (an_self e) cfg x) = Inr d \<and> approved (map fst h) g d))"
    using completion_core [OF assms(4) n(1) w' [unfolded co]] by (elim exE conjE) rule
  have k: "as_recovery_controller (ac_store s') = Some k" using a(4) apply_rules_Inr(4) [OF a(3)] x(2,7) n(2) by simp
  have g1: "unat (generation (ac_store s)) < unat (generation (ac_store s1))"
    using sync_controllers_Inr(1) [OF a(2)] co by (simp add: generation_moved_def bumps_generation_def)
  have g2: "generation (ac_store s') = generation (ac_store s1)"
    using apply_rules_Inr(2) [OF a(3)] a(5) by (auto simp: generation_def)
  obtain fs where fs: "list_all2 (\<lambda>c f. fingerprint (an_sha256 e) (an_xdr e) c = Inr f) (at_replaced x) fs"
      "as_revoked (ac_store s') = (\<lambda>f. if f \<in> set (revocations fs (unwrap_or [] (as_applied_fingerprints (ac_store s2))) (cd_fingerprints c))
                                 then Some True else as_revoked (ac_store s2) f)"
      and gate: "as_gate (ac_store s') = None" "as_pending_upgrade (ac_store s') = None"
    using a(7) x(5) by (auto simp: completion_effect_def co)
  have rv: "\<exists>f. fingerprint (an_sha256 e) (an_xdr e) cr = Inr f \<and> is_revoked (ac_store s') f" if cr: "cr \<in> set (at_replaced x)" for cr
  proof -
    obtain i where i: "i < length (at_replaced x)" "cr = at_replaced x ! i" using cr by (auto simp: in_set_conv_nth)
    then have "fingerprint (an_sha256 e) (an_xdr e) cr = Inr (fs ! i)" "fs ! i \<in> set fs"
      using list_all2_nthD [OF fs(1)] list_all2_lengthD [OF fs(1)] by simp_all
    then show ?thesis using fs(2) by (auto simp: is_revoked_def revocations_set)
  qed
  show ?thesis
    using x(1,3,4,6,10) a(6) k g1 g2 gate rv x(9) x(8) [unfolded word_le_nat_alt]
    by (intro exI [of _ "co_attempt_id co"] exI [of _ x] exI [of _ cfg]) simp
qed

text \<open>
  The controllers of the histories derive their targets with the document compiler \<open>ce\<close>.
\<close>

definition compiler_wired :: "history \<Rightarrow> compiler_env \<Rightarrow> bool" where
  "compiler_wired h ce \<longleftrightarrow>
     (\<forall>(e, call) \<in> set h. \<forall>k source current action rset d.
        ce_derive_target e k source current action rset = Some d \<longrightarrow> contract_derive_target ce source current action rset = Inr d)"

lemma derived_compiles:
  assumes "contract_derive_target ce source current action rset = Inr d"
  shows "\<exists>target c. compile_parsed ce target = Inr c \<and> dt_canonical d = cd_canonical c \<and> dt_doc_hash d = cd_doc_hash c \<and>
    dt_fingerprints d = cd_fingerprints c"
  using assms by (auto simp: contract_derive_target_def result_simps Let_def split: recovery_action.splits) blast+

lemma compiled_same_bytes:
  assumes "compile_parsed ce doc = Inr c" "compile_parsed ce doc' = Inr c'" "cd_canonical c = cd_canonical c'"
  shows "c = c'"
proof -
  have "canonical_json doc = canonical_json doc'" using compile_parsed_Inr(4) [OF assms(1)] compile_parsed_Inr(4) [OF assms(2)] assms(3) by simp
  then have "doc = doc'" by (simp add: canonical_json_inject)
  then show ?thesis using assms(1,2) by simp
qed

text \<open>
  The controller never hands back a credential of the document it completes to: the target of the
  attempt was derived when the attempt was opened and every replaced credential left it, and the
  applied document has the target's hash. Where a replaced credential is one of the applied document's
  all the same, the two documents are a collision. So \<open>handed_back\<close>, the exception for an
  arbitrary controller, does not arise with this controller and this compiler.
\<close>

lemma completion_hands_back_leavers:
  assumes r: "rcv_reach n h s" "ce_chain e = n" "rcv_sync e s a (cd_doc_hash c) cs u = Inr (Completed co, s')"
    and ce: "compiler_wired h ce" "compile_doc ce b = Inr c" "h_sha256 (de_host ce) = rn_sha256 n"
    and cr: "cr \<in> set (co_replaced co)" "fingerprint (rn_sha256 n) (rn_xdr n) cr = Inr f" "f \<in> set (cd_fingerprints c)"
  shows "\<exists>(e', call) \<in> set h. \<exists>k source current action rset d. ce_derive_target e' k source current action rset = Some d \<and>
    dt_canonical d \<noteq> cd_canonical c \<and> rn_sha256 n (dt_canonical d) = rn_sha256 n (cd_canonical c)"
proof -
  obtain x where x: "load_attempt s a (co_attempt_id co) = Some x" "co_replaced co = at_replaced x" "cd_doc_hash c = at_target_doc_hash x"
    using completion_core [OF r] by (elim exE conjE) rule
  have "tenant_inv n a (map fst h) (tenant_of s a)" using reach_facts(2) [OF r(1)] .
  then obtain e' where e': "e' \<in> set (map fst h)" "ce_chain e' = n" "derived_attempt e' x"
    using tenant_invD(1) [of n a "map fst h" "tenant_of s a" "co_attempt_id co" x] x(1) by (auto simp: attempt_ok_def)
  then obtain call k source current rset d where d: "(e', call) \<in> set h" "ce_derive_target e' k source current (at_action x) rset = Some d"
      "at_target_doc_hash x = dt_doc_hash d" "at_replaced x = dt_replaced d"
      "\<forall>cr \<in> set (dt_replaced d). \<exists>f. fingerprint (rn_sha256 n) (rn_xdr n) cr = Inr f \<and> f \<notin> set (dt_fingerprints d)"
    unfolding derived_attempt_def by auto
  have "contract_derive_target ce source current (at_action x) rset = Inr d"
    using ce(1) d(1,2) unfolding compiler_wired_def by blast
  then obtain target ct where ct: "compile_parsed ce target = Inr ct" "dt_canonical d = cd_canonical ct" "dt_doc_hash d = cd_doc_hash ct"
      "dt_fingerprints d = cd_fingerprints ct"
    using derived_compiles by blast
  obtain doc where doc: "compile_parsed ce doc = Inr c" using ce(2) by (auto simp: compile_doc_def result_simps)
  have "cd_canonical ct \<noteq> cd_canonical c"
  proof
    assume "cd_canonical ct = cd_canonical c"
    then have "ct = c" using compiled_same_bytes [OF ct(1) doc] by simp
    then show False using d(4,5) ct(4) cr x(2) by fastforce
  qed
  moreover have "rn_sha256 n (cd_canonical ct) = rn_sha256 n (cd_canonical c)"
    using x(3) d(3) ct(3) compile_parsed_Inr(5) [OF ct(1)] compile_parsed_Inr(5) [OF doc] ce(3) by simp
  ultimately have "\<exists>k source current action rset d. ce_derive_target e' k source current action rset = Some d \<and>
      dt_canonical d \<noteq> cd_canonical c \<and> rn_sha256 n (dt_canonical d) = rn_sha256 n (cd_canonical c)"
    using d(2) ct(2) by metis
  then show ?thesis using d(1) by blast
qed

text \<open>
  One apply of the account through the modelled controller and compiler: no credential of the applied
  document is revoked afterwards, or a target that was derived in the controller's history collides
  with the applied document.
\<close>

lemma account_completion_leaves:
  assumes a: "account_apply e X b u r mode s = Inr (dh, s')" "as_recovery_controller (ac_store s) = Some k"
    and k: "controller_wired X k n env st" "rcv_reach n h (st (ac_world s))" "compiler_wired h ce"
    and eq: "ct_compile_doc X (an_doc_compiler e) = compile_doc ce" "h_sha256 (de_host ce) = an_sha256 e" "rn_sha256 n = an_sha256 e" "rn_xdr n = an_xdr e"
  shows "\<exists>c. compile_doc ce b = Inr c \<and> cd_doc_hash c = dh \<and>
    ((\<forall>f \<in> set (cd_fingerprints c). \<not> is_revoked (ac_store s') f) \<or>
     (\<exists>(e', call) \<in> set h. \<exists>k source current action rset d. ce_derive_target e' k source current action rset = Some d \<and>
        dt_canonical d \<noteq> cd_canonical c \<and> an_sha256 e (dt_canonical d) = an_sha256 e (cd_canonical c)))"
proof -
  obtain c where c: "ct_compile_doc X (an_doc_compiler e) b = Inr c" "dh = cd_doc_hash c"
    "\<And>f. f \<in> set (cd_fingerprints c) \<Longrightarrow> as_revoked (ac_store s') f \<noteq> None \<Longrightarrow>
       \<exists>k co w cr. as_recovery_controller (ac_store s) = Some k \<and>
         ct_rcv_sync X k (an_self e) (cd_doc_hash c) (cd_recovery c) u (ac_world s) = Inr (Completed co, w) \<and>
         cr \<in> set (co_replaced co) \<and> fingerprint (an_sha256 e) (an_xdr e) cr = Inr f"
    by (rule apply_revoked [OF a(1)]) blast
  have cd: "compile_doc ce b = Inr c" using c(1) eq(1) by simp
  have "\<exists>(e', call) \<in> set h. \<exists>k source current action rset d. ce_derive_target e' k source current action rset = Some d \<and>
        dt_canonical d \<noteq> cd_canonical c \<and> an_sha256 e (dt_canonical d) = an_sha256 e (cd_canonical c)"
    if f: "f \<in> set (cd_fingerprints c)" "is_revoked (ac_store s') f" for f
  proof -
    have "as_revoked (ac_store s') f \<noteq> None" using f(2) by (auto simp: is_revoked_def)
    then obtain co w cr where co: "ct_rcv_sync X k (an_self e) (cd_doc_hash c) (cd_recovery c) u (ac_world s) = Inr (Completed co, w)"
        "cr \<in> set (co_replaced co)" "fingerprint (rn_sha256 n) (rn_xdr n) cr = Inr f"
      using c(3) [OF f(1)] a(2) eq(3,4) by auto
    have sy: "rcv_sync (env (ac_world s)) (st (ac_world s)) (an_self e) (cd_doc_hash c) (cd_recovery c) u = Inr (Completed co, st w)"
      "ce_chain (env (ac_world s)) = n"
      using k(1) co(1) unfolding controller_wired_def by blast+
    show ?thesis
      using completion_hands_back_leavers [OF k(2) sy(2,1) k(3) cd _ co(2,3) f(1)] eq by simp
  qed
  then show ?thesis using cd c(2) by blast
qed

text \<open>
  The demo recovery seen from the account: the world is the controller's storage, and the rules are
  stored nowhere.
\<close>

definition chain_oz :: "recovery_storage oz" where
  "chain_oz = \<lparr>oz_get_context_rule = (\<lambda>_ _. None), oz_add_context_rule = (\<lambda>_ _ _ _ _ w. Some (0, w)),
     oz_remove_context_rule = (\<lambda>_ w. Some w), oz_reconcile_signers = (\<lambda>_ _ w. Some w), oz_add_policy = (\<lambda>_ _ _ w. Some w),
     oz_remove_policy = (\<lambda>_ _ w. Some w), oz_update_valid_until = (\<lambda>_ _ w. Some w)\<rparr>"

definition chain_doc :: compiled_doc where
  "chain_doc = \<lparr>cd_doc_hash = 6, cd_canonical = [2], cd_fingerprints = [7],
     cd_rules = [\<lparr>cr_name = ''admin'', cr_scope = RS_SelfAdmin, cr_signers = [Signer_Delegated (ContractId 61)],
       cr_valid_until = None, cr_install = [], cr_cap = []\<rparr>], cd_recovery = [demo_config 51]\<rparr>"

definition chain_contracts :: "recovery_storage contracts" where
  "chain_contracts = \<lparr>ct_oz = chain_oz, ct_do_check_auth = (\<lambda>_ _ _ w. Some w), ct_compile_doc = (\<lambda>_ _. Inr chain_doc),
     ct_rcv_sync = (\<lambda>_ a dh cs u w. rcv_sync (demo_rcv_env 120) w a dh cs u),
     ct_rcv_cancel = (\<lambda>_ _ _ w. Inr w), ct_rcv_upgrade = (\<lambda>_ _ _ w. Inr (0, w)),
     ct_rcv_insert = (\<lambda>_ _ _ _ w. Some w), ct_invoke = (\<lambda>_ _ _. Map.empty), ct_update_wasm = (\<lambda>_. Map.empty)\<rparr>"

definition chain_account :: account_env where
  "chain_account = \<lparr>an_rules = \<lparr>re_now = 120, re_self = ContractId 1, re_interpreter = ContractId 11, re_spending_limit = ContractId 12,
     re_sha256 = (\<lambda>_. 9), re_param_xdr = (\<lambda>_. [])\<rparr>, an_doc_compiler = ContractId 40, an_xdr = demo_xdr, an_auth = (\<lambda>_. True)\<rparr>"

definition chain_store :: account_storage where
  "chain_store = empty_account\<lparr>as_recovery_controller := Some (ContractId 2), as_recovery_generation := Some 1,
     as_applied_fingerprints := Some [8], as_current_zk := config_zk (demo_config 50),
     as_gate := Some \<lparr>fg_attempt_id = 0, fg_until = 213\<rparr>\<rparr>"

abbreviation chain_before :: "recovery_storage account_state" where
  "chain_before \<equiv> \<lparr>ac_store = chain_store, ac_world = demo_s5, ac_events = []\<rparr>"

lemma chain_config:
  "config_zk (demo_config t) = Some \<lparr>cz_adapter = ContractId 30, cz_circuit_id = 9, cz_pool = ContractId 32, cz_enrollment_id = t, cz_commitment = 34\<rparr>"
  "cc_controller (demo_config t) = ContractId 2" "cc_config_hash (demo_config t) = t"
  by (simp_all add: demo_config_def config_zk_def)

lemma chain_checks: "apply_checks chain_account chain_contracts [] None chain_before = Inr (chain_doc, config_zk (demo_config 51), config_zk (demo_config 51))"
  by (simp add: apply_checks_def chain_account_def chain_contracts_def chain_store_def empty_account_def chain_doc_def
      acct_require_auth_def flatten_error_def admin_survives_def refuse_revoked_def chain_config zk_factor_transition_ok_def
      leaf_to_insert_def Let_def)

lemma chain_sync:
  "\<exists>w. sync_controllers chain_account chain_contracts chain_doc 0 chain_before =
    Inr (Completed \<lparr>co_attempt_id = 0, co_replaced = [Cred_Delegated (ContractId 60)]\<rparr>,
      \<lparr>ac_store = chain_store\<lparr>as_recovery_generation := Some 2\<rparr>, ac_world = w, ac_events = []\<rparr>)"
proof -
  obtain w where "rcv_sync (demo_rcv_env 120) demo_s5 (ContractId 1) 6 [demo_config 51] 0 =
      Inr (Completed \<lparr>co_attempt_id = 0, co_replaced = [Cred_Delegated (ContractId 60)]\<rparr>, w)"
    using demo_completed by blast
  then show ?thesis
    by (simp add: sync_controllers_def sync_one_def chain_store_def chain_account_def chain_contracts_def chain_doc_def chain_config
        flatten_error_def bumps_generation_def advance_generation_def generation_def checked_add_def Let_def)
qed

lemma chain_rules:
  "\<exists>delta rs. apply_rules chain_account chain_contracts chain_doc Mode_FullReplace
     \<lparr>ac_store = chain_store\<lparr>as_recovery_generation := Some 2\<rparr>, ac_world = w, ac_events = []\<rparr> =
   Inr (delta, \<lparr>ac_store = chain_store\<lparr>as_recovery_generation := Some 2, as_installed_rules := Some rs, as_recovery_rule := Some 0\<rparr>,
     ac_world = w, ac_events = []\<rparr>)"
  by (simp add: apply_rules_def chain_store_def chain_account_def chain_contracts_def chain_doc_def chain_config empty_account_def
      installed_rules_def reconcile_def replace_all_def desired_def document_rule_def recovery_installed_rule_def expired_def
      apply_add_rule_def chain_oz_def default_summary_def checked_add_def with_id_def Let_def)

lemma chain_applied: "\<exists>s'. apply_doc_full_replace chain_account chain_contracts [] 0 None chain_before = Inr (6, s')"
proof -
  obtain w where w: "sync_controllers chain_account chain_contracts chain_doc 0 chain_before =
    Inr (Completed \<lparr>co_attempt_id = 0, co_replaced = [Cred_Delegated (ContractId 60)]\<rparr>,
      \<lparr>ac_store = chain_store\<lparr>as_recovery_generation := Some 2\<rparr>, ac_world = w, ac_events = []\<rparr>)"
    using chain_sync by blast
  obtain delta rs where r: "apply_rules chain_account chain_contracts chain_doc Mode_FullReplace
     \<lparr>ac_store = chain_store\<lparr>as_recovery_generation := Some 2\<rparr>, ac_world = w, ac_events = []\<rparr> =
   Inr (delta, \<lparr>ac_store = chain_store\<lparr>as_recovery_generation := Some 2, as_installed_rules := Some rs, as_recovery_rule := Some 0\<rparr>,
     ac_world = w, ac_events = []\<rparr>)"
    using chain_rules by blast
  have f: "fingerprint (an_sha256 chain_account) (an_xdr chain_account) (Cred_Delegated (ContractId 60)) = Inr 9"
    by (simp add: chain_account_def fingerprint_def tagged_address_eq [OF demo_xdr_laws])
  show ?thesis
    unfolding apply_doc_full_replace_def account_apply_def chain_checks and_then_simps prod.case w r
    by (simp add: insert_leaf_def chain_config chain_contracts_def complete_recovery_def f revocations_def advance_revision_def
        record_document_def revision_def checked_add_def chain_store_def empty_account_def chain_doc_def Let_def)
qed

text \<open>Witness of C2: the demo recovery, applied by the account.\<close>

theorem recovery_completes_exactly_the_target_witness:
  "\<exists>s' i x. account_apply chain_account chain_contracts [] 0 None Mode_FullReplace chain_before = Inr (6, s') \<and>
     load_attempt demo_s5 (ContractId 1) i = Some x \<and> at_target_doc_hash x = 6 \<and> as_gate (ac_store s') = None \<and>
     unat (generation chain_store) < unat (generation (ac_store s'))"
proof -
  obtain s' where s': "account_apply chain_account chain_contracts [] 0 None Mode_FullReplace chain_before = Inr (6, s')"
    using chain_applied unfolding apply_doc_full_replace_def by blast
  have w: "controller_wired chain_contracts (ContractId 2) demo_chain (\<lambda>_. demo_rcv_env 120) id"
    by (simp add: controller_wired_def chain_contracts_def demo_chain_def demo_env_with_def)
  have "as_recovery_controller chain_store = Some (ContractId 2)" "rcv_reach demo_chain demo_history (id demo_s5)"
    "authorized_live (demo_rcv_env 120) (id demo_s5) (an_self chain_account) \<noteq> None"
    using demo_reach(4) by (simp_all add: chain_store_def chain_account_def authorized_live_def is_live_def demo_simps demo_states demo_s5_def)
  then show ?thesis
    using recovery_completes_exactly_the_target [OF s' _ w, of demo_history] s' by (fastforce simp: chain_account_def)
qed

end
